(* ===== verification/Prelude.thy ===== *)
theory Prelude
  imports Main "HOL-Library.Word" "HOL-Library.Monad_Syntax"
begin

unbundle bit_operations_syntax

text \<open>
  Shared vocabulary of the development: the C integer types as machine words, the
  compile-time limits of \<^verbatim>\<open>include/xmux.h\<close> for the default build with eight
  channels (\<^verbatim>\<open>build-arm.sh\<close> passes \<^verbatim>\<open>--with-channel=8\<close>), flag tests on words,
  the list of PIDs a C loop over \<^verbatim>\<open>0x20 .. NULL_PID - 1\<close> visits, and generic facts on lists,
  folds and option-valued steps. A C statement that reads or writes outside its array has no
  meaning; the models answer \<open>None\<close> there, so the components use the option monad for
  such steps.
\<close>

type_synonym u8 = "8 word"
type_synonym u16 = "16 word"
type_synonym u32 = "32 word"

named_theorems flag_simps \<open>tests on flag words\<close>
named_theorems limit_simps \<open>the compile-time limits, unfolded\<close>
named_theorems byte_simps \<open>byte-level encodings\<close>

section \<open>Compile-time limits\<close>

definition CHANNEL_MAX_NUM :: nat where "CHANNEL_MAX_NUM = 8"
definition PROGRAM_MAX_NUM :: nat where "PROGRAM_MAX_NUM = 64"
definition PROGRAM_DATA_PID_MAX_NUM :: nat where "PROGRAM_DATA_PID_MAX_NUM = 14"
definition PROGRAM_NAME_SIZE :: nat where "PROGRAM_NAME_SIZE = 33"
definition SECTION_MAX_SIZE :: nat where "SECTION_MAX_SIZE = 1024"
definition FPGA_PID_MAP_TABLE_CHAN_PIDS :: nat where "FPGA_PID_MAP_TABLE_CHAN_PIDS = 32"
definition TS_PACKET_BYTES :: nat where "TS_PACKET_BYTES = 188"
definition TS_HEAD_LEN :: nat where "TS_HEAD_LEN = 4"

lemmas limit_defs [limit_simps] =
  CHANNEL_MAX_NUM_def PROGRAM_MAX_NUM_def PROGRAM_DATA_PID_MAX_NUM_def
  PROGRAM_NAME_SIZE_def SECTION_MAX_SIZE_def FPGA_PID_MAP_TABLE_CHAN_PIDS_def
  TS_PACKET_BYTES_def TS_HEAD_LEN_def

section \<open>Flags\<close>

text \<open>\<^verbatim>\<open>if (w & m)\<close> of the C code.\<close>

definition has_flag :: "'a::len word \<Rightarrow> 'a word \<Rightarrow> bool" where
  "has_flag w m \<longleftrightarrow> w AND m \<noteq> 0"

lemma word_or_zero_iff: "(a :: 'a::len word) OR b = 0 \<longleftrightarrow> a = 0 \<and> b = 0"
  by (auto simp: bit_eq_iff bit_or_iff)

lemma has_flag_zero [flag_simps, simp]: "\<not> has_flag 0 m"
  by (simp add: has_flag_def)

lemma has_flag_or [flag_simps]: "has_flag (a OR b) m \<longleftrightarrow> has_flag a m \<or> has_flag b m"
  by (auto simp: has_flag_def word_ao_dist word_or_zero_iff)

lemma or_flag_nonzero [flag_simps]: "a OR b = 0 \<longleftrightarrow> a = 0 \<and> (b :: 'a::len word) = 0"
  by (rule word_or_zero_iff)

text \<open>Masks and single-bit tests, in terms of \<open>take_bit\<close> and \<open>bit\<close>.\<close>

lemma and_mask_word [byte_simps]:
  "(w :: 'a::len word) AND 0x7 = take_bit 3 w"
  "w AND 0xF = take_bit 4 w"
  "w AND 0x1F = take_bit 5 w"
  "w AND 0x7F = take_bit 7 w"
  "w AND 0xFF = take_bit 8 w"
  "w AND 0x1FFF = take_bit 13 w"
  "w AND 0x7FFF = take_bit 15 w"
  by (simp_all add: take_bit_eq_mask mask_eq_decr_exp)

lemma has_flag_bit [byte_simps]:
  "has_flag (w :: 'a::len word) 1 \<longleftrightarrow> bit w 0"
  "has_flag w 2 \<longleftrightarrow> bit w 1"
  "has_flag w 0x40 \<longleftrightarrow> bit w 6"
  "has_flag w 0x80 \<longleftrightarrow> bit w 7"
  "has_flag w 0x8000 \<longleftrightarrow> bit w 15"
  unfolding has_flag_def
  using and_exp_eq_0_iff_not_bit [of w 0] and_exp_eq_0_iff_not_bit [of w 1]
    and_exp_eq_0_iff_not_bit [of w 6] and_exp_eq_0_iff_not_bit [of w 7]
    and_exp_eq_0_iff_not_bit [of w 15]
  by simp_all

lemma take_bit_word_add:
  assumes "n \<le> LENGTH('a)"
  shows "take_bit n (take_bit n a + b) = take_bit n (a + b :: 'a::len word)"
proof (rule word_uint_eqI)
  have "take_bit n (uint (x + y)) = take_bit n (uint x + uint y)" for x y :: "'a word"
    using assms by (simp add: uint_word_ariths(1) flip: take_bit_eq_mod)
  then show "uint (take_bit n (take_bit n a + b)) = uint (take_bit n (a + b))"
    using take_bit_add [of n "take_bit n (uint a)" "uint b"] take_bit_add [of n "uint a" "uint b"]
    by (simp add: unsigned_take_bit_eq)
qed

lemma or_ge_nat: "(k::nat) \<le> k OR l" "l \<le> k OR l"
proof -
  show *: "(k::nat) \<le> k OR l" for k l
    using or_greater_eq [of "int l" "int k"] by (simp flip: of_nat_or_eq add: zle_int)
  show "l \<le> k OR l" using * [of l k] by (simp add: or.commute)
qed

lemma unat_take_bit_less: "unat (take_bit n (w :: 'a::len word)) < 2 ^ n"
  by (simp add: unsigned_take_bit_eq)

section \<open>PIDs\<close>

definition NULL_PID :: u16 where "NULL_PID = 0x1FFF"

text \<open>The values a loop \<^verbatim>\<open>for (w = a; w < b; w++)\<close> over an unsigned word visits.\<close>

definition word_range :: "nat \<Rightarrow> nat \<Rightarrow> 'a::len word list" where
  "word_range a b = map word_of_nat [a..<b]"

lemma set_word_range:
  assumes "b < 2 ^ LENGTH('a)"
  shows "(p :: 'a::len word) \<in> set (word_range a b) \<longleftrightarrow> a \<le> unat p \<and> unat p < b"
proof
  assume "p \<in> set (word_range a b)"
  then obtain n where "p = word_of_nat n" "a \<le> n" "n < b"
    by (auto simp: word_range_def)
  moreover from this assms have "unat p = n" by (simp add: unat_of_nat)
  ultimately show "a \<le> unat p \<and> unat p < b" by simp
next
  assume "a \<le> unat p \<and> unat p < b"
  then have "unat p \<in> set [a..<b]" by simp
  then show "p \<in> set (word_range a b)"
    unfolding word_range_def set_map by (intro image_eqI [of _ _ "unat p"]) simp_all
qed

lemma length_word_range [simp]: "length (word_range a b) = b - a"
  by (simp add: word_range_def)

lemma distinct_word_range:
  assumes "b < 2 ^ LENGTH('a)"
  shows "distinct (word_range a b :: 'a::len word list)"
  unfolding word_range_def distinct_map
proof
  show "inj_on (word_of_nat :: nat \<Rightarrow> 'a word) (set [a..<b])"
  proof (rule inj_onI)
    fix m n assume "m \<in> set [a..<b]" "n \<in> set [a..<b]"
      and "(word_of_nat m :: 'a word) = word_of_nat n"
    then have "unat (word_of_nat m :: 'a word) = unat (word_of_nat n :: 'a word)"
      and "m < 2 ^ LENGTH('a)" "n < 2 ^ LENGTH('a)"
      using assms by auto
    then show "m = n" by (simp add: unat_of_nat)
  qed
qed simp

lemma unat_of_nat_less: "n < 2 ^ LENGTH('a) \<Longrightarrow> unat (word_of_nat n :: 'a::len word) = n"
  by (simp add: unat_of_nat)

lemma map_unat_word_range:
  assumes "b < 2 ^ LENGTH('a)"
  shows "map unat (word_range a b :: 'a::len word list) = [a..<b]"
proof -
  have "map (\<lambda>n. unat (word_of_nat n :: 'a word)) [a..<b] = map (\<lambda>n. n) [a..<b]"
    by (rule map_cong) (use assms in \<open>auto intro!: unat_of_nat_less\<close>)
  then show ?thesis by (simp add: word_range_def comp_def)
qed

text \<open>The PIDs \<^verbatim>\<open>for (pid = 0x20; pid < NULL_PID; pid++)\<close> visits, in order.\<close>

definition pid_range :: "u16 list" where
  "pid_range = word_range 0x20 0x1FFF"

lemma set_pid_range: "p \<in> set pid_range \<longleftrightarrow> 0x20 \<le> p \<and> p < NULL_PID"
  unfolding pid_range_def
  by (subst set_word_range) (simp_all add: NULL_PID_def word_le_nat_alt word_less_nat_alt)

lemma sorted_pid_range: "sorted (map unat pid_range)"
  unfolding pid_range_def by (subst map_unat_word_range) (simp, rule sorted_upt)

lemma length_pid_range: "length pid_range = 8159"
  by (simp add: pid_range_def)

lemma distinct_pid_range: "distinct pid_range"
  unfolding pid_range_def by (rule distinct_word_range) simp

lemma mult_add_inj:
  assumes "u < m" "v < (m::nat)"
  shows "x * m + u = y * m + v \<longleftrightarrow> x = y \<and> u = v"
proof -
  have "(x * m + u) div m = x \<and> (x * m + u) mod m = u" if "u < m" for x u using that by simp
  with assms show ?thesis by metis
qed

section \<open>Lists\<close>

lemma length_filter_mono:
  "(\<And>x. x \<in> set xs \<Longrightarrow> P x \<Longrightarrow> Q x) \<Longrightarrow> length (filter P xs) \<le> length (filter Q xs)"
  by (induction xs) auto

lemma card_set_concat_map_le:
  "card (set (concat (map f xs))) \<le> (\<Sum>x\<leftarrow>xs. card (set (f x)))"
proof (induction xs)
  case (Cons x xs)
  have "card (set (f x) \<union> set (concat (map f xs)))
        \<le> card (set (f x)) + card (set (concat (map f xs)))"
    by (rule card_Un_le)
  with Cons.IH show ?case by simp
qed simp

lemma find_None_pigeonhole:
  assumes "finite U" "distinct xs" "card U < length xs"
  shows "\<exists>x \<in> set xs. x \<notin> U"
proof (rule ccontr)
  assume "\<not> ?thesis"
  then have "set xs \<subseteq> U" by blast
  with \<open>finite U\<close> have "card (set xs) \<le> card U" by (intro card_mono)
  with assms(2,3) show False by (simp add: distinct_card)
qed

lemma find_first_sorted:
  "sorted (map f xs) \<Longrightarrow> x \<in> set xs \<Longrightarrow> P x \<Longrightarrow> \<exists>y. List.find P xs = Some y \<and> f y \<le> f x"
  by (induction xs) auto

text \<open>An invariant of every step is an invariant of the fold.\<close>

lemma foldl_invariant:
  assumes "P s" and "\<And>s x. x \<in> set xs \<Longrightarrow> P s \<Longrightarrow> P (f s x)"
  shows "P (foldl f s xs)"
  using assms by (induction xs arbitrary: s) auto

lemma distinct_concat_Pair:
  "distinct xs \<Longrightarrow> (\<And>x. x \<in> set xs \<Longrightarrow> distinct (f x)) \<Longrightarrow>
   distinct (concat (map (\<lambda>x. map (Pair x) (f x)) xs))"
  by (induction xs) (auto simp: distinct_map inj_on_def)

section \<open>Partial steps\<close>

text \<open>A loop whose body may leave its arrays: the first such step makes the loop undefined.\<close>

fun foldM :: "('s \<Rightarrow> 'a \<Rightarrow> 's option) \<Rightarrow> 's \<Rightarrow> 'a list \<Rightarrow> 's option" where
  "foldM f s [] = Some s"
| "foldM f s (x # xs) = do { t \<leftarrow> f s x; foldM f t xs }"

lemma foldM_append:
  "foldM f s (xs @ ys) = do { t \<leftarrow> foldM f s xs; foldM f t ys }"
  by (induction xs arbitrary: s) (auto split: Option.bind_splits)

lemma foldM_invariant:
  assumes "P s" and "foldM f s xs = Some t"
    and "\<And>s x t. x \<in> set xs \<Longrightarrow> P s \<Longrightarrow> f s x = Some t \<Longrightarrow> P t"
  shows "P t"
  using assms
proof (induction xs arbitrary: s)
  case (Cons x xs)
  from Cons.prems(2) obtain u where u: "f s x = Some u" "foldM f u xs = Some t"
    by (auto split: Option.bind_splits)
  from Cons.prems(3) [OF _ Cons.prems(1) u(1)] have "P u" by simp
  from this u(2) show ?case
    by (rule Cons.IH) (use Cons.prems(3) in auto)
qed simp

lemma foldM_total:
  assumes "P s" and "\<And>s x. x \<in> set xs \<Longrightarrow> P s \<Longrightarrow> \<exists>t. f s x = Some t \<and> P t"
  shows "\<exists>t. foldM f s xs = Some t \<and> P t"
  using assms
proof (induction xs arbitrary: s)
  case (Cons x xs)
  from Cons.prems obtain u where u: "f s x = Some u" "P u" by auto
  from Cons.IH [OF u(2)] Cons.prems(2) u(1) show ?case by auto
qed simp

text \<open>A fact that a step adds to, over a whole fold.\<close>

lemma foldM_collect:
  assumes "foldM f s xs = Some t"
    and "\<And>s x t. x \<in> set xs \<Longrightarrow> f s x = Some t \<Longrightarrow> Q t \<longleftrightarrow> Q s \<or> R x"
  shows "Q t \<longleftrightarrow> Q s \<or> (\<exists>x \<in> set xs. R x)"
  using assms
proof (induction xs arbitrary: s)
  case (Cons x xs)
  from Cons.prems(1) obtain u where u: "f s x = Some u" "foldM f u xs = Some t"
    by (auto split: Option.bind_splits)
  have "Q t \<longleftrightarrow> Q u \<or> (\<exists>x \<in> set xs. R x)"
    by (rule Cons.IH [OF u(2)]) (use Cons.prems(2) in auto)
  moreover have "Q u \<longleftrightarrow> Q s \<or> R x" using Cons.prems(2) [OF _ u(1)] by simp
  ultimately show ?case by auto
qed simp

lemma bind_Some_iff: "Option.bind a f = Some b \<longleftrightarrow> (\<exists>x. a = Some x \<and> f x = Some b)"
  by (cases a) auto

text \<open>A fact that one of the steps establishes and all later ones keep.\<close>

lemma foldM_establish:
  assumes "foldM f s xs = Some t" "x \<in> set xs"
    and "\<And>u v. f u x = Some v \<Longrightarrow> P v"
    and "\<And>u v y. y \<in> set xs \<Longrightarrow> P u \<Longrightarrow> f u y = Some v \<Longrightarrow> P v"
  shows "P t"
  using assms
proof (induction xs arbitrary: s)
  case (Cons y ys)
  from Cons.prems(1) obtain u where u: "f s y = Some u" "foldM f u ys = Some t"
    by (auto simp: bind_Some_iff)
  show ?case
  proof (cases "x = y")
    case True
    with u(1) Cons.prems(3) have "P u" by simp
    from foldM_invariant [where P = P, OF this u(2)] Cons.prems(4) show ?thesis
      by (metis list.set_intros(2))
  next
    case False
    with Cons.prems(2) have "x \<in> set ys" by simp
    from Cons.IH [OF u(2) this] Cons.prems(3,4) show ?thesis by (metis list.set_intros(2))
  qed
qed simp

end
