(* ===== verification/Section.thy ===== *)
theory Section
  imports Prelude
begin

unbundle bit_operations_syntax

text \<open>
  \<^verbatim>\<open>src/section.c\<close> and the packet header of \<^verbatim>\<open>include/mpegts.h\<close>: a PSI/SI section
  is cut into 188-byte transport-stream packets and popped back out of them. A buffer the C code
  walks with a pointer is the list of the packets in it; a section is the list of its bytes, so
  \<^verbatim>\<open>sec_len\<close> is the length of that list.
\<close>

section \<open>The packet header\<close>

record mpeg_ts_header =
  sync_byte :: u8
  pid_hi :: "5 word"
  transport_priority :: "1 word"
  payload_unit_start_indicator :: "1 word"
  transport_error_indicator :: "1 word"
  pid_lo :: u8
  continuity_counter :: "4 word"
  adaptation_field_control :: "2 word"
  transport_scrambling_control :: "2 word"

text \<open>The bit fields are allocated from the least significant bit on the target.\<close>

definition ts_header_bytes :: "mpeg_ts_header \<Rightarrow> u8 list" where
  "ts_header_bytes h =
     [sync_byte h,
      ucast (pid_hi h) OR push_bit 5 (ucast (transport_priority h))
        OR push_bit 6 (ucast (payload_unit_start_indicator h))
        OR push_bit 7 (ucast (transport_error_indicator h)),
      pid_lo h,
      ucast (continuity_counter h) OR push_bit 4 (ucast (adaptation_field_control h))
        OR push_bit 6 (ucast (transport_scrambling_control h))]"

definition GET_PID :: "u8 list \<Rightarrow> u16" where
  "GET_PID bs = push_bit 8 (ucast (bs ! 1 AND 0x1F)) OR ucast (bs ! 2)"

section \<open>Section to packets\<close>

definition section_to_ts_length :: "nat \<Rightarrow> nat" where
  "section_to_ts_length sec_len =
     (let ts_len = sec_len + 3 + 1;
          num = ts_len div 184;
          num = (if ts_len mod 184 > 0 then num + 1 else num)
      in num * 188)"

definition section_ts_header :: "u16 \<Rightarrow> nat \<Rightarrow> u8 \<Rightarrow> mpeg_ts_header" where
  "section_ts_header pid pkt_cnt cc =
     \<lparr> sync_byte = 0x47,
       pid_hi = ucast (drop_bit 8 pid),
       transport_priority = 0,
       payload_unit_start_indicator = (if pkt_cnt = 0 then 1 else 0),
       transport_error_indicator = 0,
       pid_lo = ucast pid,
       continuity_counter = ucast cc,
       adaptation_field_control = 1,
       transport_scrambling_control = 0 \<rparr>"

text \<open>
  One turn of the \<^verbatim>\<open>while\<close> loop: header, pointer field in the first packet, then as much
  of the section as fits, or all that is left and \<^verbatim>\<open>0xff\<close> stuffing.
\<close>

definition pkt_room :: "nat \<Rightarrow> nat" where
  "pkt_room pkt_cnt =
     (if pkt_cnt = 0 then TS_PACKET_BYTES - TS_HEAD_LEN - 1 else TS_PACKET_BYTES - TS_HEAD_LEN)"

definition section_ts_packet :: "u16 \<Rightarrow> nat \<Rightarrow> u8 \<Rightarrow> u8 list \<Rightarrow> u8 list" where
  "section_ts_packet pid pkt_cnt cc left =
     ts_header_bytes (section_ts_header pid pkt_cnt cc)
       @ (if pkt_cnt = 0 then [0] else [])
       @ (if pkt_room pkt_cnt \<le> length left then take (pkt_room pkt_cnt) left
          else left @ replicate (pkt_room pkt_cnt - length left) 0xff)"

definition next_pkt_cnt :: "nat \<Rightarrow> nat" where
  "next_pkt_cnt pkt_cnt = (if pkt_cnt + 1 > 22 then 0 else pkt_cnt + 1)"

definition next_cc :: "u8 \<Rightarrow> u8" where
  "next_cc cc = (cc + 1) AND 0x0F"

lemma pkt_room_pos: "0 < pkt_room k"
  by (simp add: pkt_room_def limit_simps)

function section_ts_loop :: "u16 \<Rightarrow> nat \<Rightarrow> u8 \<Rightarrow> u8 list \<Rightarrow> u8 list list \<times> u8" where
  "section_ts_loop pid pkt_cnt cc left =
     (if left = [] then ([], cc)
      else (let (pkts, cc') = section_ts_loop pid (next_pkt_cnt pkt_cnt) (next_cc cc)
                                (drop (pkt_room pkt_cnt) left)
            in (section_ts_packet pid pkt_cnt cc left # pkts, cc')))"
  by pat_completeness auto
termination
  by (relation "measure (\<lambda>(pid, pkt_cnt, cc, left). length left)") (auto simp: pkt_room_pos)

declare section_ts_loop.simps [simp del]

record ts_output =
  ts_pkts :: "u8 list list"
  ts_cc :: u8
  ts_len :: nat

definition section_to_ts :: "u8 list \<Rightarrow> u16 \<Rightarrow> u8 \<Rightarrow> ts_output" where
  "section_to_ts sec_data pid cc =
     (let (pkts, cc') = section_ts_loop pid 0 cc sec_data
      in \<lparr> ts_pkts = pkts, ts_cc = cc', ts_len = TS_PACKET_BYTES * length pkts \<rparr>)"

section \<open>Packets to section\<close>

text \<open>
  \<^verbatim>\<open>ts_to_section\<close>: one packet only; the length is read from bytes 7 and 8 and joined
  without the shift, as the code has it. \<open>None\<close> is the return value -1.
\<close>

definition ts_to_section :: "u8 list \<Rightarrow> (nat \<times> u8 list) option" where
  "ts_to_section ts =
     (if ts ! 0 \<noteq> 0x47 then None
      else (let sec_len = unat ((ts ! 7 AND 0x0F) OR ts ! 8)
            in if sec_len > TS_PACKET_BYTES - 8 then None
               else Some (sec_len, take (sec_len + 3) (drop 8 ts))))"

text \<open>
  \<^verbatim>\<open>ts_pop_section\<close>. The locals that survive a turn of the loop; \<^verbatim>\<open>sec_buf\<close> is
  what has been copied to \<^verbatim>\<open>sec\<close>, so its length is \<^verbatim>\<open>sec_copy_tot_len\<close>.
\<close>

record pop_state =
  sec_start :: bool
  cur_pid :: u16
  sec_len :: nat
  sec_left_len :: nat
  sec_buf :: "u8 list"

definition pop_init :: pop_state where
  "pop_init = \<lparr> sec_start = False, cur_pid = 0, sec_len = 0, sec_left_len = 0, sec_buf = [] \<rparr>"

text \<open>\<^verbatim>\<open>((ts[6] & 0xF) << 8) | ts[7] + 3\<close>: the addition binds tighter than the or.\<close>

definition pop_sec_len :: "u8 list \<Rightarrow> nat" where
  "pop_sec_len ts = push_bit 8 (unat (ts ! 6 AND 0xF)) OR (unat (ts ! 7) + 3)"

definition pop_copy :: "nat \<Rightarrow> u8 list \<Rightarrow> pop_state \<Rightarrow> pop_state" where
  "pop_copy payload_len ts st =
     (let copy_len = min (sec_left_len st) payload_len
      in st\<lparr> sec_buf := sec_buf st @ take copy_len (drop (TS_PACKET_BYTES - payload_len) ts),
             sec_left_len := sec_left_len st - copy_len \<rparr>)"

text \<open>
  The result is the returned length, the bytes copied, and what is left of the packets. Nothing
  in the loop ever sets \<^verbatim>\<open>sec_start\<close>.
\<close>

fun ts_pop_loop :: "pop_state \<Rightarrow> u8 list list \<Rightarrow> nat \<times> u8 list \<times> u8 list list" where
  "ts_pop_loop st [] = (0, sec_buf st, [])"
| "ts_pop_loop st (ts # rest) =
     (if \<not> sec_start st then
        if \<not> has_flag (ts ! 1) 0x40 then ts_pop_loop st rest
        else
          (let l = pop_sec_len ts;
               st' = pop_copy (TS_PACKET_BYTES - 5) ts
                       (st\<lparr> cur_pid := GET_PID ts, sec_len := l, sec_left_len := l \<rparr>)
           in if sec_left_len st' = 0 then (sec_len st', sec_buf st', rest)
              else ts_pop_loop st' rest)
      else if GET_PID ts \<noteq> cur_pid st then ts_pop_loop (st\<lparr> sec_start := False \<rparr>) rest
      else
        (let st' = pop_copy (TS_PACKET_BYTES - 4) ts st
         in if sec_left_len st' = 0 then (sec_len st', sec_buf st', rest)
            else ts_pop_loop st' rest))"

definition ts_pop_section :: "u8 list list \<Rightarrow> nat \<times> u8 list \<times> u8 list list" where
  "ts_pop_section ts = ts_pop_loop pop_init ts"

section \<open>Cutting a section into packets\<close>

lemma ts_header_bytes_length [simp]: "length (ts_header_bytes h) = 4"
  by (simp add: ts_header_bytes_def)

lemma section_ts_packet_length [simp]: "length (section_ts_packet pid k cc left) = 188"
  by (simp add: section_ts_packet_def pkt_room_def limit_simps)

lemma section_ts_packet_drop_header:
  "drop 4 (section_ts_packet pid k cc left) =
     (if k = 0 then [0] else [])
       @ (if pkt_room k \<le> length left then take (pkt_room k) left
          else left @ replicate (pkt_room k - length left) 0xff)"
  by (simp add: section_ts_packet_def)

lemma section_ts_loop_Nil [simp]: "section_ts_loop pid k cc [] = ([], cc)"
  by (simp add: section_ts_loop.simps)

lemma section_ts_loop_step:
  "left \<noteq> [] \<Longrightarrow> fst (section_ts_loop pid k cc left) =
     section_ts_packet pid k cc left
       # fst (section_ts_loop pid (next_pkt_cnt k) (next_cc cc) (drop (pkt_room k) left))"
  by (subst section_ts_loop.simps) (simp add: case_prod_beta)

lemma section_ts_loop_lengths:
  "\<forall>p \<in> set (fst (section_ts_loop pid k cc left)). length p = 188"
proof (induction pid k cc left rule: section_ts_loop.induct)
  case (1 pid k cc left)
  then show ?case
    by (cases "left = []") (simp_all add: section_ts_loop_step [of left pid k cc])
qed

text \<open>
  After the first packet every packet takes 184 bytes, as long as the counter that restarts at
  23 packets has not come round: \<open>184 * (23 - k)\<close> bytes fit before that.
\<close>

lemma section_ts_loop_tail:
  "0 < k \<Longrightarrow> k \<le> 22 \<Longrightarrow> length left \<le> 184 * (23 - k) \<Longrightarrow>
   length (fst (section_ts_loop pid k cc left)) = (length left + 183) div 184 \<and>
   (\<exists>r. r < 184 \<and> concat (map (drop 4) (fst (section_ts_loop pid k cc left)))
          = left @ replicate r 0xff)"
proof (induction pid k cc left rule: section_ts_loop.induct)
  case (1 pid k cc left)
  have room: "pkt_room k = 184" using "1.prems"(1) by (simp add: pkt_room_def limit_simps)
  consider "left = []" | "left \<noteq> []" "length left \<le> 184" | "184 < length left" by fastforce
  then show ?case
  proof cases
    case 1
    then show ?thesis by (auto intro: exI [of _ 0])
  next
    case 2
    then have "0 < length left" by simp
    then have cnt: "(length left + 183) div 184 = 1" using 2(2) by (intro div_nat_eqI) (simp_all add: Suc_le_eq)
    from 2 \<open>0 < k\<close> cnt show ?thesis
      by (auto simp: section_ts_loop_step [of left pid k cc] section_ts_packet_drop_header room
            intro: exI [of _ "184 - length left"])
  next
    case 3
    then have ne: "left \<noteq> []" and k: "k < 22" using "1.prems" by auto
    then have nxt: "next_pkt_cnt k = Suc k" by (simp add: next_pkt_cnt_def)
    have "length (drop 184 left) \<le> 184 * (23 - Suc k)" using "1.prems"(3) k by auto
    with "1.IH" [OF ne] k obtain r where
      len: "length (fst (section_ts_loop pid (Suc k) (next_cc cc) (drop 184 left)))
              = (length left - 184 + 183) div 184" and
      r: "r < 184" "concat (map (drop 4) (fst (section_ts_loop pid (Suc k) (next_cc cc)
              (drop 184 left)))) = drop 184 left @ replicate r 0xff"
      by (auto simp: room nxt)
    have "Suc ((length left - 184 + 183) div 184) = (length left + 183) div 184"
      using le_div_geq [of 184 "length left + 183"] 3 by simp
    with len r ne 3 \<open>0 < k\<close> show ?thesis
      by (auto simp: section_ts_loop_step [of left pid k cc] section_ts_packet_drop_header room nxt
            simp flip: append_assoc intro!: exI [of _ r])
  qed
qed

lemma section_to_ts_first:
  assumes "sec \<noteq> []"
  shows "ts_pkts (section_to_ts sec pid cc) =
    section_ts_packet pid 0 cc sec
      # fst (section_ts_loop pid 1 (next_cc cc) (drop 183 sec))"
  using section_ts_loop_step [OF assms, of pid 0 cc]
  by (simp add: section_to_ts_def case_prod_beta next_pkt_cnt_def pkt_room_def limit_simps)

lemma section_to_ts_shape:
  assumes "sec \<noteq> []" "length sec \<le> 4231"
  shows "length (ts_pkts (section_to_ts sec pid cc)) = (length sec + 184) div 184"
    and "\<exists>r < 184. concat (map (drop 4) (ts_pkts (section_to_ts sec pid cc)))
           = 0 # sec @ replicate r 0xff"
proof -
  have tail: "length (drop 183 sec) \<le> 184 * (23 - 1)" using assms(2) by simp
  from section_ts_loop_tail [OF _ _ this, of pid "next_cc cc"] obtain r where
    len: "length (fst (section_ts_loop pid 1 (next_cc cc) (drop 183 sec)))
            = (length sec - 183 + 183) div 184" and
    r: "r < 184" "concat (map (drop 4) (fst (section_ts_loop pid 1 (next_cc cc) (drop 183 sec))))
            = drop 183 sec @ replicate r 0xff"
    by auto
  have "0 < length sec" using assms(1) by simp
  then have "Suc ((length sec - 183 + 183) div 184) = (length sec + 184) div 184"
    by (cases "length sec \<le> 183") (auto intro: div_nat_eqI simp: Suc_le_eq)
  with len show "length (ts_pkts (section_to_ts sec pid cc)) = (length sec + 184) div 184"
    by (simp add: section_to_ts_first [OF assms(1)])
  show "\<exists>r < 184. concat (map (drop 4) (ts_pkts (section_to_ts sec pid cc)))
          = 0 # sec @ replicate r 0xff"
  proof (cases "183 \<le> length sec")
    case True
    with r show ?thesis
      by (auto simp: section_to_ts_first [OF assms(1)] section_ts_packet_drop_header
            pkt_room_def limit_simps simp flip: append_assoc intro!: exI [of _ r])
  next
    case False
    with \<open>0 < length sec\<close> show ?thesis
      by (auto simp: section_to_ts_first [OF assms(1)] section_ts_packet_drop_header
            pkt_room_def limit_simps intro!: exI [of _ "183 - length sec"])
  qed
qed

section \<open>The header of every packet\<close>

definition packet_ok :: "u16 \<Rightarrow> bool \<Rightarrow> u8 \<Rightarrow> u8 list \<Rightarrow> bool" where
  "packet_ok pid first cc p \<longleftrightarrow>
     length p = 188 \<and> p ! 0 = 0x47 \<and> GET_PID p = pid AND 0x1FFF \<and>
     (has_flag (p ! 1) 0x40 \<longleftrightarrow> first) \<and> p ! 3 AND 0xF = cc AND 0xF"

lemma header_pid:
  "GET_PID (section_ts_packet pid k cc left) = pid AND 0x1FFF"
  unfolding GET_PID_def section_ts_packet_def ts_header_bytes_def section_ts_header_def byte_simps
  by (intro bit_word_eqI) (auto simp: bit_simps)

lemma header_start:
  "has_flag (section_ts_packet pid k cc left ! 1) 0x40 \<longleftrightarrow> k = 0"
  unfolding section_ts_packet_def ts_header_bytes_def section_ts_header_def byte_simps
  by (auto simp: bit_simps)

lemma header_cc:
  "section_ts_packet pid k cc left ! 3 AND 0xF = cc AND 0xF"
  unfolding section_ts_packet_def ts_header_bytes_def section_ts_header_def byte_simps
  by (intro bit_word_eqI) (auto simp: bit_simps)

lemma section_ts_packet_ok: "packet_ok pid (k = 0) cc (section_ts_packet pid k cc left)"
  unfolding packet_ok_def header_pid header_start header_cc section_ts_packet_length
  by (simp add: section_ts_packet_def ts_header_bytes_def section_ts_header_def)

lemma packet_ok_next_cc: "packet_ok pid f (next_cc cc + x) p \<longleftrightarrow> packet_ok pid f (cc + 1 + x) p"
proof -
  have "(next_cc cc + x) AND 0xF = (cc + 1 + x) AND 0xF"
    unfolding next_cc_def byte_simps
    using take_bit_word_add [of 4 "cc + 1" x] by simp
  then show ?thesis by (simp add: packet_ok_def)
qed

lemma section_ts_loop_headers:
  "i < length (fst (section_ts_loop pid k cc left)) \<Longrightarrow> k + i \<le> 22 \<Longrightarrow>
   packet_ok pid (k + i = 0) (cc + of_nat i) (fst (section_ts_loop pid k cc left) ! i)"
proof (induction pid k cc left arbitrary: i rule: section_ts_loop.induct)
  case (1 pid k cc left)
  from "1.prems"(1) have ne: "left \<noteq> []" by auto
  note step = section_ts_loop_step [OF ne, of pid k cc]
  show ?case
  proof (cases i)
    case 0
    then show ?thesis using section_ts_packet_ok [of pid k cc left] by (simp add: step)
  next
    case (Suc j)
    with "1.prems" have "next_pkt_cnt k = Suc k"
      and "j < length (fst (section_ts_loop pid (next_pkt_cnt k) (next_cc cc)
                              (drop (pkt_room k) left)))"
      by (simp_all add: next_pkt_cnt_def step)
    with "1.IH" [OF ne this(2)] "1.prems"(2) Suc show ?thesis
      by (simp add: step packet_ok_next_cc add.assoc)
  qed
qed

section \<open>Reading a section back\<close>

text \<open>
  A section as DVB defines it: the 12-bit length in bytes 1 and 2 counts what follows them.
\<close>

definition section_wf :: "u8 list \<Rightarrow> bool" where
  "section_wf sec \<longleftrightarrow>
     3 \<le> length sec \<and> unat (sec ! 1 AND 0xF) * 256 + unat (sec ! 2) + 3 = length sec"

lemma unat_low_nibble: "unat ((b :: u8) AND 0xF) < 16"
  using unat_take_bit_less [of 4 b] by (simp add: byte_simps)

lemma pop_sec_len_first:
  assumes "3 \<le> length sec"
  shows "pop_sec_len (section_ts_packet pid 0 cc sec)
     = push_bit 8 (unat (sec ! 1 AND 0xF)) OR (unat (sec ! 2) + 3)"
proof -
  from assms obtain a b c rest where "sec = a # b # c # rest"
    by (metis One_nat_def Suc_le_length_iff numeral_3_eq_3)
  then show ?thesis
    by (simp add: pop_sec_len_def section_ts_packet_def ts_header_bytes_def pkt_room_def limit_simps)
qed

lemma pop_sec_len_short:
  assumes "section_wf sec" "length sec \<le> 183"
  shows "pop_sec_len (section_ts_packet pid 0 cc sec) = length sec"
proof -
  have "unat (sec ! 1 AND 0xF) = 0"
    using assms by (simp add: section_wf_def)
  moreover from this have "unat (sec ! 2) + 3 = length sec"
    using assms(1) by (simp add: section_wf_def)
  ultimately show ?thesis
    using pop_sec_len_first [of sec pid cc] assms(1) by (simp add: section_wf_def)
qed

lemma pop_sec_len_long:
  assumes "section_wf sec" "184 \<le> length sec"
  shows "183 < pop_sec_len (section_ts_packet pid 0 cc sec)"
proof -
  let ?h = "unat (sec ! 1 AND 0xF)" and ?l = "unat (sec ! 2)"
  have "183 < max (push_bit 8 ?h) (?l + 3)"
    using assms by (cases "?h = 0") (auto simp: section_wf_def push_bit_eq_mult max_def)
  also have "\<dots> \<le> push_bit 8 ?h OR (?l + 3)"
    unfolding max.bounded_iff by (rule conjI or_ge_nat)+
  finally show ?thesis
    using pop_sec_len_first [of sec pid cc] assms(1) by (simp add: section_wf_def)
qed

text \<open>A first packet read back: its payload up to the length in the section header.\<close>

lemma section_ts_packet_payload:
  "drop 5 (section_ts_packet pid 0 cc sec)
     = take 183 sec @ replicate (183 - length sec) 0xff"
  by (simp add: section_ts_packet_def pkt_room_def limit_simps)

lemma ts_pop_loop_first:
  assumes "\<not> sec_start st"
  shows "ts_pop_loop st (section_ts_packet pid 0 cc sec # rest) =
    (let l = pop_sec_len (section_ts_packet pid 0 cc sec);
         st' = st\<lparr> cur_pid := pid AND 0x1FFF, sec_len := l,
                   sec_buf := sec_buf st
                     @ take (min l 183) (take 183 sec @ replicate (183 - length sec) 0xff),
                   sec_left_len := l - min l 183 \<rparr>
     in if l \<le> 183 then (l, sec_buf st', rest) else ts_pop_loop st' rest)"
  using assms
  by (simp add: Let_def pop_copy_def header_start header_pid section_ts_packet_payload limit_simps
      del: One_nat_def)

lemma ts_pop_loop_skip:
  "\<not> sec_start st \<Longrightarrow> \<forall>p \<in> set ps. \<not> has_flag (p ! 1) 0x40 \<Longrightarrow>
   ts_pop_loop st (ps @ rest) = ts_pop_loop st rest"
  by (induction ps) auto

lemma section_ts_tail_no_start:
  "i < length (fst (section_ts_loop pid 1 cc left)) \<Longrightarrow> i \<le> 21 \<Longrightarrow>
   \<not> has_flag (fst (section_ts_loop pid 1 cc left) ! i ! 1) 0x40"
  using section_ts_loop_headers [of i pid 1 cc left] by (simp add: packet_ok_def)

section \<open>Properties\<close>

text \<open>For a section that fits the 23 packets the packet counter can tell apart, the
  generator reports exactly the bytes it wrote, 188 per packet, writes one packet per 184 bytes of
  pointer field and section, and never more than the estimate callers size their buffers by.\<close>

theorem section_to_ts_size:
  assumes "sec \<noteq> []" and "length sec \<le> 4231"
  shows "ts_len (section_to_ts sec pid cc) = length (concat (ts_pkts (section_to_ts sec pid cc)))
       \<and> ts_len (section_to_ts sec pid cc) = 188 * ((length sec + 184) div 184)
       \<and> ts_len (section_to_ts sec pid cc) \<le> section_to_ts_length (length sec)"
proof -
  let ?pkts = "ts_pkts (section_to_ts sec pid cc)"
  have all: "\<forall>p \<in> set ?pkts. length p = 188"
    using section_ts_loop_lengths by (simp add: section_to_ts_def case_prod_beta)
  have "length (concat xs) = 188 * length xs" if "\<forall>p \<in> set xs. length p = 188"
    for xs :: "u8 list list"
    using that by (induction xs) auto
  then have "length (concat ?pkts) = 188 * length ?pkts" using all by blast
  moreover have "ts_len (section_to_ts sec pid cc) = 188 * length ?pkts"
    by (simp add: section_to_ts_def case_prod_beta limit_simps)
  moreover have "188 * ((n + 184) div 184) \<le> section_to_ts_length n" for n
  proof (cases "(4 + n) mod 184 = 0")
    case True
    then obtain m where "4 + n = 184 * m" by (auto elim: dvdE)
    moreover from this have "n div 184 < m" by (simp add: less_mult_imp_div_less)
    ultimately show ?thesis by (simp add: section_to_ts_length_def Let_def)
  next
    case False
    moreover have "(n + 184) div 184 = n div 184 + 1" by (rule div_add_self2) simp
    moreover have "n div 184 \<le> (4 + n) div 184" by (rule div_le_mono) simp
    ultimately show ?thesis by (simp add: section_to_ts_length_def Let_def)
  qed
  ultimately show ?thesis
    using section_to_ts_shape(1) [OF assms, of pid cc] by simp
qed

theorem section_to_ts_size_witness:
  "ts_len (section_to_ts [0, 0xB0, 1, 7] 0x100 0) = 188"
  using section_to_ts_size [of "[0, 0xB0, 1, 7]" "0x100" 0] by simp

text \<open>The payloads of the packets, in order, are the pointer field, the whole section and
  less than one packet of stuffing: no byte of the section is lost, repeated or moved.\<close>

theorem section_to_ts_payload:
  assumes "sec \<noteq> []" and "length sec \<le> 4231"
  shows "\<exists>r < 184. concat (map (drop TS_HEAD_LEN) (ts_pkts (section_to_ts sec pid cc)))
           = 0 # sec @ replicate r 0xff"
  using section_to_ts_shape(2) [OF assms] by (simp add: limit_simps)

theorem section_to_ts_payload_witness:
  "\<exists>r < 184. concat (map (drop TS_HEAD_LEN) (ts_pkts (section_to_ts [1, 2, 3] 0x20 5)))
     = 0 # [1, 2, 3] @ replicate r 0xff"
  by (rule section_to_ts_payload) simp_all

text \<open>Every packet of a section carries the sync byte and the section's PID, only the first
  has the payload start indicator, and the continuity counters run on from the caller's one
  modulo 16.\<close>

theorem section_to_ts_headers:
  assumes "length sec \<le> 4231" and "i < length (ts_pkts (section_to_ts sec pid cc))"
  shows "packet_ok pid (i = 0) (cc + of_nat i) (ts_pkts (section_to_ts sec pid cc) ! i)"
proof -
  have ne: "sec \<noteq> []" using assms(2) by (auto simp: section_to_ts_def)
  have "(length sec + 184) div 184 \<le> 23" using assms(1) by (simp add: less_eq_div_iff_mult_less_eq)
  with section_to_ts_shape(1) [OF ne assms(1)] assms(2) have "i \<le> 22" by auto
  moreover have eq: "ts_pkts (section_to_ts sec pid cc) = fst (section_ts_loop pid 0 cc sec)"
    by (simp add: section_to_ts_def case_prod_beta)
  ultimately show ?thesis
    using section_ts_loop_headers [of i pid 0 cc sec] assms(2) by simp
qed

theorem section_to_ts_headers_witness:
  "packet_ok 0x100 True 15 (ts_pkts (section_to_ts [1, 2, 3] 0x100 15) ! 0)"
  using section_to_ts_headers [of "[1, 2, 3]" 0 "0x100" 15] by (simp add: section_to_ts_first)

lemma ts_pop_short_section:
  assumes "section_wf sec" and "length sec \<le> 183"
  shows "ts_pop_section (ts_pkts (section_to_ts sec pid cc) @ rest) = (length sec, sec, rest)"
proof -
  have ne: "sec \<noteq> []" using assms(1) by (auto simp: section_wf_def)
  show ?thesis
    using ts_pop_loop_first [of pop_init pid cc sec rest] assms
    by (simp add: section_to_ts_first [OF ne] ts_pop_section_def pop_sec_len_short Let_def
        pop_init_def)
qed

text \<open>C9: A well-formed section of at most 183 bytes, cut into packets and popped again, comes
  back whole, with its length, and the packets behind it are left for the next pop.\<close>

theorem ts_pop_section_roundtrip:
  assumes "section_wf sec" and "length sec \<le> 183"
  shows "ts_pop_section (ts_pkts (section_to_ts sec pid cc) @ rest) = (length sec, sec, rest)"
  using assms by (rule ts_pop_short_section)

theorem ts_pop_section_roundtrip_witness:
  "ts_pop_section (ts_pkts (section_to_ts [0, 0xB0, 1, 7] 0x100 3) @ [[0x47]])
     = (4, [0, 0xB0, 1, 7], [[0x47]])"
  using ts_pop_section_roundtrip [of "[0, 0xB0, 1, 7]" "0x100" 3 "[[0x47]]"]
  by (simp add: section_wf_def)

text \<open>A well-formed section that needs a second packet is never popped: the start flag of the
  reassembly is never set, so the following packets are skipped, the result is 0 and no packet is
  left.\<close>

theorem ts_pop_section_long_lost:
  assumes "section_wf sec" and "184 \<le> length sec" and "length sec \<le> 4231"
  shows "\<exists>buf. ts_pop_section (ts_pkts (section_to_ts sec pid cc)) = (0, buf, [])"
proof -
  have ne: "sec \<noteq> []" using assms(2) by auto
  let ?tail = "fst (section_ts_loop pid 1 (next_cc cc) (drop 183 sec))"
  have "(length sec + 184) div 184 \<le> 23" using assms(3) by (simp add: less_eq_div_iff_mult_less_eq)
  with section_to_ts_shape(1) [OF ne assms(3), of pid cc] have "length ?tail \<le> 22"
    by (simp add: section_to_ts_first [OF ne])
  then have "\<forall>p \<in> set ?tail. \<not> has_flag (p ! 1) 0x40"
    using section_ts_tail_no_start [of _ pid "next_cc cc" "drop 183 sec"]
    by (auto simp: in_set_conv_nth)
  then have skip: "ts_pop_loop st ?tail = (0, sec_buf st, [])" if "\<not> sec_start st" for st
    using ts_pop_loop_skip [OF that, of ?tail "[]"] by simp
  show ?thesis
    using ts_pop_loop_first [of pop_init pid cc sec ?tail] pop_sec_len_long [OF assms(1,2), of pid cc]
    by (simp add: section_to_ts_first [OF ne] ts_pop_section_def Let_def pop_init_def skip
        del: ts_pop_loop.simps One_nat_def)
qed

theorem ts_pop_section_long_lost_witness:
  "\<exists>buf. ts_pop_section (ts_pkts (section_to_ts (0 # 0xB0 # 181 # replicate 181 7) 0x100 3))
     = (0, buf, [])"
  by (rule ts_pop_section_long_lost) (simp_all add: section_wf_def)

end
