(* ===== verification/ProgInfo.thy ===== *)
theory ProgInfo
  imports Prelude
begin

unbundle bit_operations_syntax

text \<open>
  The program records the whole manager works on: \<^verbatim>\<open>struct pid_trans_entry\<close> and
  \<^verbatim>\<open>struct xmux_program_info\<close> of \<^verbatim>\<open>include/xmux.h\<close>, \<^verbatim>\<open>PROG_INFO_T\<close> and
  \<^verbatim>\<open>CHN_NUM_T\<close> of \<^verbatim>\<open>src/front_panel_intstr.h\<close>, and the two global tables
  \<^verbatim>\<open>g_prog_info_table\<close> and \<^verbatim>\<open>g_chan_num\<close> of \<^verbatim>\<open>src/front_panel_process.c\<close>.
  The program table is one flat array, eight rows of 64 programs, indexed as the code indexes it.
\<close>

section \<open>Programs\<close>

record pid_trans_entry =
  pt_type :: u8
  pt_in :: u16
  pt_out :: u16

record xmux_program_info =
  prog_num :: u16
  pmt :: pid_trans_entry
  pcr :: pid_trans_entry
  es_data :: "pid_trans_entry list"
  prog_name :: "u8 list list"

record prog_info_t =
  status :: u8
  info :: xmux_program_info

definition FP_STATUS_SELECTED :: u8 where "FP_STATUS_SELECTED = 1"
definition FP_STATUS_SCRAMBLED :: u8 where "FP_STATUS_SCRAMBLED = 2"

definition FP_PROG_SELECTED :: "prog_info_t \<Rightarrow> bool" where
  "FP_PROG_SELECTED p \<longleftrightarrow> has_flag (status p) FP_STATUS_SELECTED"

definition FP_SELECT_PROG :: "prog_info_t \<Rightarrow> prog_info_t" where
  "FP_SELECT_PROG p = p\<lparr> status := status p OR FP_STATUS_SELECTED \<rparr>"

definition FP_DESELECT_PROG :: "prog_info_t \<Rightarrow> prog_info_t" where
  "FP_DESELECT_PROG p = p\<lparr> status := status p AND NOT FP_STATUS_SELECTED \<rparr>"

lemma has_flag_and_not [flag_simps]:
  "m AND k = 0 \<Longrightarrow> has_flag (w AND NOT k) m \<longleftrightarrow> has_flag w m"
proof -
  assume "m AND k = 0"
  then have "(w AND NOT k) AND m = w AND m"
    by (auto simp: bit_eq_iff bit_and_iff bit_not_iff dest: bit_imp_le_length)
  then show ?thesis by (simp add: has_flag_def)
qed

lemma FP_PROG_SELECTED_select [simp]: "FP_PROG_SELECTED (FP_SELECT_PROG p)"
  by (simp add: FP_PROG_SELECTED_def FP_SELECT_PROG_def flag_simps FP_STATUS_SELECTED_def)
     (simp add: has_flag_def)

lemma FP_PROG_SELECTED_deselect [simp]: "\<not> FP_PROG_SELECTED (FP_DESELECT_PROG p)"
  by (simp add: FP_PROG_SELECTED_def FP_DESELECT_PROG_def has_flag_def and.assoc)

lemma info_select [simp]: "info (FP_SELECT_PROG p) = info p" "info (FP_DESELECT_PROG p) = info p"
  by (simp_all add: FP_SELECT_PROG_def FP_DESELECT_PROG_def)

section \<open>PID types and classes\<close>

definition PID_TYPE_PMT :: u8 where "PID_TYPE_PMT = 0x80"
definition PID_TYPE_PCR :: u8 where "PID_TYPE_PCR = 0x81"
definition PID_TYPE_PCR_VIDEO :: u8 where "PID_TYPE_PCR_VIDEO = 0x82"
definition PID_TYPE_PCR_AUDIO :: u8 where "PID_TYPE_PCR_AUDIO = 0x83"
definition PID_TYPE_PAD :: u8 where "PID_TYPE_PAD = 0x84"
definition DATA_PID_PAD_VALUE :: u16 where "DATA_PID_PAD_VALUE = 0x000F"

definition es_is_video :: "u8 \<Rightarrow> bool" where
  "es_is_video es_type \<longleftrightarrow> es_type = 0x01 \<or> es_type = 0x02 \<or> es_type = 0x1b"

definition data_pid_validate :: "u8 \<Rightarrow> bool" where
  "data_pid_validate t \<longleftrightarrow> t \<noteq> PID_TYPE_PAD"

text \<open>\<^verbatim>\<open>defProgPidMin\<close>, \<^verbatim>\<open>defProgPidMax\<close> of \<^verbatim>\<open>src/front_panel_define.h\<close>.\<close>

definition defProgPidMin :: u16 where "defProgPidMin = 0x0020"
definition defProgPidMax :: u16 where "defProgPidMax = NULL_PID - 1"

definition prog_pid_val_isvalid :: "u16 \<Rightarrow> bool" where
  "prog_pid_val_isvalid prog_pid \<longleftrightarrow> defProgPidMin \<le> prog_pid \<and> prog_pid \<le> defProgPidMax"

lemma isvalid_iff_pid_range: "prog_pid_val_isvalid p \<longleftrightarrow> p \<in> set pid_range"
  by (auto simp: prog_pid_val_isvalid_def defProgPidMin_def defProgPidMax_def NULL_PID_def
      set_pid_range word_le_nat_alt word_less_nat_alt)

lemma isvalid_le_NULL_PID: "prog_pid_val_isvalid p \<Longrightarrow> p \<le> NULL_PID"
  by (simp add: isvalid_iff_pid_range set_pid_range order.strict_implies_order)

section \<open>The entries of a program\<close>

text \<open>
  The code walks \<^verbatim>\<open>&info->pmt\<close> (or \<^verbatim>\<open>&info->pcr\<close>) as an array: the packed struct
  puts the PMT entry, the PCR entry and the data entries one behind the other.
\<close>

definition prog_entries :: "xmux_program_info \<Rightarrow> pid_trans_entry list" where
  "prog_entries i = pmt i # pcr i # es_data i"

definition pcr_entries :: "xmux_program_info \<Rightarrow> pid_trans_entry list" where
  "pcr_entries i = pcr i # es_data i"

definition set_pcr_entries :: "pid_trans_entry list \<Rightarrow> xmux_program_info \<Rightarrow> xmux_program_info" where
  "set_pcr_entries es i = i\<lparr> pcr := hd es, es_data := tl es \<rparr>"

definition info_wf :: "xmux_program_info \<Rightarrow> bool" where
  "info_wf i \<longleftrightarrow> length (es_data i) = PROGRAM_DATA_PID_MAX_NUM"

lemma pcr_entries_set [simp]:
  "es \<noteq> [] \<Longrightarrow> pcr_entries (set_pcr_entries es i) = es"
  "pmt (set_pcr_entries es i) = pmt i"
  "prog_num (set_pcr_entries es i) = prog_num i"
  "prog_name (set_pcr_entries es i) = prog_name i"
  by (simp_all add: pcr_entries_def set_pcr_entries_def)

section \<open>The tables\<close>

record fp_state =
  g_prog_info_table :: "prog_info_t list"
  g_chan_num :: "u8 list"

definition chan_nprogs :: "fp_state \<Rightarrow> nat \<Rightarrow> nat" where
  "chan_nprogs s c = unat (g_chan_num s ! c)"

definition prog_index :: "nat \<Rightarrow> nat \<Rightarrow> nat" where
  "prog_index c k = c * PROGRAM_MAX_NUM + k"

text \<open>
  A state is well formed when the arrays have their C sizes; it is bounded when no channel
  counts more programs than its row holds.
\<close>

definition fp_wf :: "fp_state \<Rightarrow> bool" where
  "fp_wf s \<longleftrightarrow> length (g_prog_info_table s) = CHANNEL_MAX_NUM * PROGRAM_MAX_NUM
     \<and> length (g_chan_num s) = CHANNEL_MAX_NUM
     \<and> (\<forall>p \<in> set (g_prog_info_table s). info_wf (info p))"

definition fp_bounded :: "fp_state \<Rightarrow> bool" where
  "fp_bounded s \<longleftrightarrow> (\<forall>c < CHANNEL_MAX_NUM. chan_nprogs s c \<le> PROGRAM_MAX_NUM)"

text \<open>An access to \<^verbatim>\<open>g_prog_info_table[i]\<close>; outside the array it has no meaning.\<close>

definition prog_at :: "fp_state \<Rightarrow> nat \<Rightarrow> prog_info_t option" where
  "prog_at s i = (if i < length (g_prog_info_table s) then Some (g_prog_info_table s ! i) else None)"

definition set_prog_at :: "fp_state \<Rightarrow> nat \<Rightarrow> prog_info_t \<Rightarrow> fp_state" where
  "set_prog_at s i p = s\<lparr> g_prog_info_table := (g_prog_info_table s)[i := p] \<rparr>"

lemma set_prog_at_simps [simp]:
  "g_chan_num (set_prog_at s i p) = g_chan_num s"
  "length (g_prog_info_table (set_prog_at s i p)) = length (g_prog_info_table s)"
  "chan_nprogs (set_prog_at s i p) c = chan_nprogs s c"
  by (simp_all add: set_prog_at_def chan_nprogs_def)

lemma fp_wf_set_prog_at: "fp_wf s \<Longrightarrow> info_wf (info p) \<Longrightarrow> fp_wf (set_prog_at s i p)"
  by (auto simp: fp_wf_def set_prog_at_def dest: set_update_subset_insert [THEN subsetD])

lemma prog_index_less:
  "c < CHANNEL_MAX_NUM \<Longrightarrow> k < PROGRAM_MAX_NUM \<Longrightarrow>
     prog_index c k < CHANNEL_MAX_NUM * PROGRAM_MAX_NUM"
  by (simp add: prog_index_def limit_simps)

lemma prog_index_inj:
  "k < PROGRAM_MAX_NUM \<Longrightarrow> k' < PROGRAM_MAX_NUM \<Longrightarrow>
   prog_index c k = prog_index c' k' \<longleftrightarrow> c = c' \<and> k = k'"
proof -
  have "prog_index c k div 64 = c \<and> prog_index c k mod 64 = k" if "k < PROGRAM_MAX_NUM" for c k
    using that by (simp add: prog_index_def limit_simps)
  moreover assume "k < PROGRAM_MAX_NUM" "k' < PROGRAM_MAX_NUM"
  ultimately show ?thesis by metis
qed

lemma prog_at_set_prog_at:
  "prog_at (set_prog_at s i p) j =
     (if j = i \<and> i < length (g_prog_info_table s) then Some p else prog_at s j)"
  by (auto simp: prog_at_def set_prog_at_def nth_list_update)

section \<open>An example table\<close>

text \<open>One channel with one program: PMT, PCR on the video PID, video and audio.\<close>

definition pad_entry :: pid_trans_entry where
  "pad_entry = \<lparr> pt_type = PID_TYPE_PAD, pt_in = DATA_PID_PAD_VALUE, pt_out = DATA_PID_PAD_VALUE \<rparr>"

definition example_info :: xmux_program_info where
  "example_info = \<lparr> prog_num = 1,
     pmt = \<lparr> pt_type = PID_TYPE_PMT, pt_in = 0x100, pt_out = 0x100 \<rparr>,
     pcr = \<lparr> pt_type = PID_TYPE_PCR, pt_in = 0x101, pt_out = 0x101 \<rparr>,
     es_data = \<lparr> pt_type = 2, pt_in = 0x101, pt_out = 0x101 \<rparr>
       # \<lparr> pt_type = 4, pt_in = 0x102, pt_out = 0x102 \<rparr> # replicate 12 pad_entry,
     prog_name = [[], []] \<rparr>"

definition example_prog :: "u8 \<Rightarrow> prog_info_t" where
  "example_prog st = \<lparr> status = st, info = example_info \<rparr>"

definition example_state :: "u8 \<Rightarrow> fp_state" where
  "example_state st = \<lparr>
     g_prog_info_table = example_prog st # replicate 511 (example_prog 0),
     g_chan_num = 1 # replicate 7 0 \<rparr>"

lemma example_wf: "info_wf example_info" "fp_wf (example_state st)"
  by (auto simp: info_wf_def example_info_def fp_wf_def example_state_def example_prog_def limit_simps)

lemma example_nprogs:
  "c < CHANNEL_MAX_NUM \<Longrightarrow> chan_nprogs (example_state st) c = (if c = 0 then 1 else 0)"
  by (cases c) (simp_all add: chan_nprogs_def example_state_def limit_simps)

lemma example_bounded: "fp_bounded (example_state st)"
  by (simp add: fp_bounded_def example_nprogs) (simp add: limit_simps)

lemma example_prog_at: "prog_at (example_state st) 0 = Some (example_prog st)"
  by (simp add: prog_at_def example_state_def)

lemma example_status: "FP_PROG_SELECTED (example_prog st) \<longleftrightarrow> has_flag st 1"
  by (simp add: FP_PROG_SELECTED_def example_prog_def FP_STATUS_SELECTED_def)

lemma example_unselected: "\<forall>p \<in> set (g_prog_info_table (example_state 0)). \<not> FP_PROG_SELECTED p"
  by (auto simp: example_state_def example_status)

end
