(* ===== verification/Interfaces.thy ===== *)
theory Interfaces
  imports Prelude
begin

text \<open>
  The contracts between components, as locales. Each is interpreted on the model's own functions
  in the theory of the component that provides it, and the clients' lemmas are proved here once.
\<close>

section \<open>Assigning output PIDs\<close>

text \<open>
  A table that remembers which output PID a key has (\<open>lookup\<close>), which PIDs are taken
  (\<open>used\<close>), proposes a PID for a key (\<open>get\<close>) and records one (\<open>put\<close>). A key that
  is known keeps its PID, any other gets one that is not taken, or \<open>full\<close> when there is none.
\<close>

locale pid_assigner =
  fixes lookup :: "'t \<Rightarrow> 'k \<Rightarrow> 'p option"
    and used :: "'t \<Rightarrow> 'p set"
    and get :: "'k \<Rightarrow> 't \<Rightarrow> 'p option"
    and put :: "'k \<Rightarrow> 'p \<Rightarrow> 't \<Rightarrow> 't option"
    and key_ok :: "'k \<Rightarrow> bool"
    and full :: 'p
  assumes lookup_put: "key_ok k \<Longrightarrow> put k x t = Some t' \<Longrightarrow> key_ok k' \<Longrightarrow>
      lookup t' k' = (if k' = k then Some x else lookup t k')"
    and used_put: "key_ok k \<Longrightarrow> put k x t = Some t' \<Longrightarrow> lookup t k = None \<or> lookup t k = Some x \<Longrightarrow>
      insert x (used t) \<subseteq> used t'"
    and get_known: "key_ok k \<Longrightarrow> get k t = Some x \<Longrightarrow> lookup t k = Some y \<Longrightarrow> x = y"
    and get_fresh: "key_ok k \<Longrightarrow> get k t = Some x \<Longrightarrow> lookup t k = None \<Longrightarrow> x \<noteq> full \<Longrightarrow> x \<notin> used t"
    and lookup_used: "key_ok k \<Longrightarrow> lookup t k = Some x \<Longrightarrow> x \<in> used t"
begin

text \<open>A run of the client's loop: for each key, what it got and recorded.\<close>

inductive run :: "'t \<Rightarrow> ('k \<times> 'p) list \<Rightarrow> 't \<Rightarrow> bool" where
  nil: "run t [] t"
| assign: "key_ok k \<Longrightarrow> get k t = Some x \<Longrightarrow> put k x t = Some u \<Longrightarrow> run u kxs t'
    \<Longrightarrow> run t ((k, x) # kxs) t'"

lemma step_keeps:
  assumes "key_ok k" "get k t = Some x" "put k x t = Some u"
  shows "lookup u k = Some x" "key_ok k' \<Longrightarrow> lookup t k' = Some y \<Longrightarrow> lookup u k' = Some y"
    "insert x (used t) \<subseteq> used u"
proof -
  show "lookup u k = Some x" using lookup_put [OF assms(1,3,1)] by simp
  show "lookup u k' = Some y" if "key_ok k'" "lookup t k' = Some y"
    using lookup_put [OF assms(1,3) that(1)] get_known [OF assms(1,2)] that(2) by (cases "k' = k") auto
  show "insert x (used t) \<subseteq> used u"
    using used_put [OF assms(1,3)] get_known [OF assms(1,2)] by (cases "lookup t k") auto
qed

lemma run_keeps:
  "run t kxs t' \<Longrightarrow> key_ok k \<Longrightarrow> lookup t k = Some y \<Longrightarrow> lookup t' k = Some y"
  by (induction rule: run.induct) (auto dest: step_keeps(2))

lemma run_lookup:
  "run t kxs t' \<Longrightarrow> (k, x) \<in> set kxs \<Longrightarrow> lookup t' k = Some x"
  by (induction rule: run.induct) (auto intro: run_keeps step_keeps(1))

lemma run_key_ok: "run t kxs t' \<Longrightarrow> (k, x) \<in> set kxs \<Longrightarrow> key_ok k"
  by (induction rule: run.induct) auto

text \<open>Everything a run hands out was known before, or was free before.\<close>

lemma run_origin:
  "run t kxs t' \<Longrightarrow> (k, x) \<in> set kxs \<Longrightarrow> x \<noteq> full \<Longrightarrow>
   lookup t k = Some x \<or> (lookup t k = None \<and> x \<notin> used t)"
proof (induction rule: run.induct)
  case (assign k0 t x0 u kxs t')
  show ?case
  proof (cases "(k, x) = (k0, x0)")
    case True
    with assign show ?thesis
      using get_known [OF assign(1,2)] get_fresh [OF assign(1,2)] by (cases "lookup t k0") auto
  next
    case False
    with assign.prems have mem: "(k, x) \<in> set kxs" by auto
    with assign have IH: "lookup u k = Some x \<or> (lookup u k = None \<and> x \<notin> used u)" by blast
    from run_key_ok [OF assign(4) mem] have k: "key_ok k" .
    show ?thesis
    proof (cases "k = k0")
      case True
      with IH step_keeps(1) [OF assign(1-3)] have "x = x0" by auto
      with True assign.prems show ?thesis
        using get_known [OF assign(1,2)] get_fresh [OF assign(1,2)] by (cases "lookup t k0") auto
    next
      case False
      then show ?thesis
        using IH lookup_put [OF assign(1,3) k] step_keeps(3) [OF assign(1-3)] by auto
    qed
  qed
qed simp

text \<open>Two keys of a run share a PID only if both had it before.\<close>

lemma run_distinct:
  "run t kxs t' \<Longrightarrow> (k, x) \<in> set kxs \<Longrightarrow> (k', x) \<in> set kxs \<Longrightarrow> k \<noteq> k' \<Longrightarrow> x \<noteq> full \<Longrightarrow>
   lookup t k = Some x \<and> lookup t k' = Some x"
proof (induction rule: run.induct)
  case (assign k0 t x0 u kxs t')
  note run0 = run.assign [OF assign(1-4)]
  note origin = run_origin [OF run0 _ assign.prems(4)]
  have both: "lookup t k1 = Some x \<and> lookup t k2 = Some x"
    if "k1 = k0" "x = x0" "(k2, x) \<in> set kxs" "k2 \<noteq> k0" for k1 k2
  proof -
    have "key_ok k2" using run_key_ok [OF assign(4) that(3)] .
    have "x \<in> used u" using step_keeps(3) [OF assign(1-3)] that(2) by auto
    with run_origin [OF assign(4) that(3) assign.prems(4)] have "lookup u k2 = Some x" by auto
    with lookup_put [OF assign(1,3) \<open>key_ok k2\<close>] that(4) have k2: "lookup t k2 = Some x" by simp
    from lookup_used [OF \<open>key_ok k2\<close> k2] origin [of k1] that(1,2) k2 show ?thesis by auto
  qed
  consider "(k, x) = (k0, x0)" "(k', x) \<in> set kxs" | "(k', x) = (k0, x0)" "(k, x) \<in> set kxs"
    | "(k, x) \<in> set kxs" "(k', x) \<in> set kxs"
    using assign.prems by auto
  then show ?case
  proof cases
    case 3
    then have "lookup u k = Some x \<and> lookup u k' = Some x" using assign by blast
    moreover have "lookup t j = Some x" if "lookup u j = Some x" "(j, x) \<in> set kxs" "j \<noteq> k0" for j
      using that lookup_put [OF assign(1,3) run_key_ok [OF assign(4) that(2)]] by simp
    ultimately show ?thesis using both [of k k'] both [of k' k] 3 assign.prems
      by (metis Pair_inject lookup_put option.inject run_key_ok assign(1,3,4) if_P step_keeps(1) assign(2))
  qed (use both assign.prems in auto)
qed simp

end

section \<open>Structures in memory\<close>

text \<open>
  A packed C structure as its bytes: \<open>enc\<close> is what \<^verbatim>\<open>memcpy\<close> from it gives,
  \<open>dec\<close> what \<^verbatim>\<open>memcpy\<close> into it leaves, of a buffer that may be longer. Arrays of
  structures follow.
\<close>

locale byte_codec =
  fixes enc :: "'a \<Rightarrow> 'b list" and dec :: "'b list \<Rightarrow> 'a" and ok :: "'a \<Rightarrow> bool" and size :: nat
  assumes enc_length: "ok a \<Longrightarrow> length (enc a) = size"
    and dec_enc: "ok a \<Longrightarrow> dec (enc a @ rest) = a"
begin

lemma dec_enc_exact: "ok a \<Longrightarrow> dec (enc a) = a"
  using dec_enc [of a "[]"] by simp

lemma enc_inj: "ok a \<Longrightarrow> ok b \<Longrightarrow> enc a = enc b \<Longrightarrow> a = b"
  using dec_enc_exact by metis

lemma concat_length: "\<forall>a \<in> set xs. ok a \<Longrightarrow> length (concat (map enc xs)) = length xs * size"
  by (induction xs) (simp_all add: enc_length)

lemma drop_concat:
  "\<forall>a \<in> set xs. ok a \<Longrightarrow> i < length xs \<Longrightarrow>
   drop (i * size) (concat (map enc xs) @ rest) = enc (xs ! i) @ concat (map enc (drop (Suc i) xs)) @ rest"
proof (induction xs arbitrary: i)
  case (Cons x xs)
  then show ?case by (cases i) (simp_all add: enc_length)
qed simp

lemma dec_array:
  assumes "\<forall>a \<in> set xs. ok a"
  shows "map (\<lambda>i. dec (drop (i * size) (concat (map enc xs) @ rest))) [0..<length xs] = xs"
  by (rule nth_equalityI) (use assms in \<open>auto simp: drop_concat dec_enc simp del: drop_append\<close>)

end

text \<open>Two structures one behind the other.\<close>

locale two_codecs = a: byte_codec encA decA okA sizeA + b: byte_codec encB decB okB sizeB
  for encA :: "'a \<Rightarrow> 'c list" and decA okA sizeA and encB :: "'b \<Rightarrow> 'c list" and decB okB sizeB
begin

sublocale pair: byte_codec "\<lambda>(x, y). encA x @ encB y" "\<lambda>bs. (decA bs, decB (drop sizeA bs))"
  "\<lambda>(x, y). okA x \<and> okB y" "sizeA + sizeB"
  by unfold_locales (auto simp: a.enc_length b.enc_length a.dec_enc b.dec_enc)

end

section \<open>Bit sets\<close>

text \<open>A set of small numbers packed in bytes.\<close>

locale bit_store =
  fixes test :: "'s \<Rightarrow> nat \<Rightarrow> bool" and set_bit' :: "nat \<Rightarrow> 's \<Rightarrow> 's" and clear_bit' :: "nat \<Rightarrow> 's \<Rightarrow> 's"
    and holds :: "'s \<Rightarrow> nat \<Rightarrow> bool"
  assumes holds_set: "holds s i \<Longrightarrow> holds (set_bit' i s) j = holds s j"
    and holds_clear: "holds s i \<Longrightarrow> holds (clear_bit' i s) j = holds s j"
    and test_set: "holds s i \<Longrightarrow> test (set_bit' i s) j = (j = i \<or> test s j)"
    and test_clear: "holds s i \<Longrightarrow> test (clear_bit' i s) j = (j \<noteq> i \<and> test s j)"
begin

text \<open>Writing a status for each index of a list, as the loops over programs do.\<close>

lemma write_all:
  assumes "\<forall>i \<in> set is. holds s i"
  shows "test (foldl (\<lambda>s i. if f i then set_bit' i s else clear_bit' i s) s is) j
    = (if j \<in> set is then f j else test s j)"
    and "holds (foldl (\<lambda>s i. if f i then set_bit' i s else clear_bit' i s) s is) j = holds s j"
  using assms by (induction "is" arbitrary: s) (auto simp: holds_set holds_clear test_set test_clear)

end

section \<open>Storage\<close>

text \<open>
  A byte-addressed device: \<open>rd a n\<close> reads \<open>n\<close> bytes at address \<open>a\<close>,
  \<open>wr a bs\<close> writes there. The client keeps areas that do not overlap.
\<close>

locale byte_store =
  fixes rd :: "nat \<Rightarrow> nat \<Rightarrow> 's \<Rightarrow> 'b list" and wr :: "nat \<Rightarrow> 'b list \<Rightarrow> 's \<Rightarrow> 's"
  assumes rd_length [simp]: "length (rd a n s) = n"
    and rd_add: "rd a (m + n) s = rd a m s @ rd (a + m) n s"
    and rd_wr: "rd a (length bs) (wr a bs s) = bs"
    and rd_wr_disjoint: "a + n \<le> b \<or> b + length bs \<le> a \<Longrightarrow> rd a n (wr b bs s) = rd a n s"
begin

lemma rd_take: "m \<le> n \<Longrightarrow> take m (rd a n s) = rd a m s"
  using rd_add [of a m "n - m" s] by simp

lemma rd_drop: "k + m \<le> n \<Longrightarrow> take m (drop k (rd a n s)) = rd (a + k) m s"
  using rd_add [of a k "n - k" s] rd_take [of m "n - k"] by simp

lemma rd_drop_all: "k \<le> n \<Longrightarrow> drop k (rd a n s) = rd (a + k) (n - k) s"
  using rd_add [of a k "n - k" s] by simp

lemma rd_wr_prefix: "n \<le> length bs \<Longrightarrow> rd a n (wr a bs s) = take n bs"
  using rd_take [of n "length bs" a "wr a bs s"] by (simp add: rd_wr)

lemma rd_wr_inside:
  "a \<le> b \<Longrightarrow> b + n \<le> a + length bs \<Longrightarrow> rd b n (wr a bs s) = take n (drop (b - a) bs)"
  using rd_drop [of "b - a" n "length bs" a "wr a bs s"] by (simp add: rd_wr)

text \<open>Writing areas one after the other: an area that no later write touches holds what was
  written to it.\<close>

lemma rd_wr_all_other:
  "\<forall>(b, bs) \<in> set ws. a + n \<le> b \<or> b + length bs \<le> a \<Longrightarrow>
   rd a n (foldl (\<lambda>s (b, bs). wr b bs s) s ws) = rd a n s"
  by (induction ws arbitrary: s) (auto simp: rd_wr_disjoint)

lemma rd_wr_all:
  assumes "i < length ws" "\<forall>i < length ws. \<forall>j < length ws. i \<noteq> j \<longrightarrow>
      fst (ws ! i) + length (snd (ws ! i)) \<le> fst (ws ! j) \<or> fst (ws ! j) + length (snd (ws ! j)) \<le> fst (ws ! i)"
  shows "rd (fst (ws ! i)) (length (snd (ws ! i))) (foldl (\<lambda>s (b, bs). wr b bs s) s ws) = snd (ws ! i)"
  using assms
proof (induction ws arbitrary: s i)
  case (Cons w ws)
  have IH: "rd (fst (ws ! i)) (length (snd (ws ! i))) (foldl (\<lambda>s (b, bs). wr b bs s) s ws) = snd (ws ! i)"
    if "i < length ws" for i s
    by (rule Cons.IH [OF that]) (use Cons.prems(2) in \<open>metis Suc_less_eq length_Cons nat.inject nth_Cons_Suc\<close>)
  show ?case
  proof (cases i)
    case 0
    obtain b bs where w: "w = (b, bs)" by (cases w)
    have "b + length bs \<le> fst (ws ! j) \<or> fst (ws ! j) + length (snd (ws ! j)) \<le> b" if "j < length ws" for j
      using Cons.prems(2) [rule_format, of 0 "Suc j"] that w by simp
    then have "\<forall>(c, cs) \<in> set ws. b + length bs \<le> c \<or> c + length cs \<le> b"
      by (force simp: in_set_conv_nth)
    with 0 w show ?thesis using rd_wr_all_other [of ws b "length bs" "wr b bs s"] by (simp add: rd_wr)
  next
    case (Suc k)
    with Cons.prems(1) IH [of k] show ?thesis by (cases w) simp
  qed
qed simp

end

end
