(* ===== verification/IoTable.thy ===== *)
theory IoTable
  imports ProgInfo Interfaces
begin

unbundle bit_operations_syntax

text \<open>
  \<^verbatim>\<open>src/io_table.c\<close>: the table of input PIDs and the output PIDs they are mapped to, per
  channel. It is rebuilt from the program table at the start of each operation that reads it, so
  the global array is a value here, a function of channel and PID. The array has \<^verbatim>\<open>NULL_PID + 1\<close>
  entries per channel; an access with a larger PID is \<open>None\<close>.
\<close>

section \<open>Entries and accesses\<close>

definition IO_PID_FLAG_SELECTED :: u8 where "IO_PID_FLAG_SELECTED = 1"
definition IO_PID_FLAG_JUST_ADDED :: u8 where "IO_PID_FLAG_JUST_ADDED = 2"
definition IO_PID_FLAG_IS_INPUT_PID :: u8 where "IO_PID_FLAG_IS_INPUT_PID = 4"
definition IO_PID_FLAG_PMT_PID :: u8 where "IO_PID_FLAG_PMT_PID = 8"
definition IO_PID_FLAG_IS_PMT_OUT_PID :: u8 where "IO_PID_FLAG_IS_PMT_OUT_PID = 16"
definition IO_PID_FLAG_ADD_AGAIN :: u8 where "IO_PID_FLAG_ADD_AGAIN = 32"

lemmas io_flag_defs =
  IO_PID_FLAG_SELECTED_def IO_PID_FLAG_JUST_ADDED_def IO_PID_FLAG_IS_INPUT_PID_def
  IO_PID_FLAG_PMT_PID_def IO_PID_FLAG_IS_PMT_OUT_PID_def IO_PID_FLAG_ADD_AGAIN_def

record io_pid_entry =
  flags :: u8
  out_pid :: u16
  pmt_in_pid :: u16

type_synonym io_table = "nat \<Rightarrow> u16 \<Rightarrow> io_pid_entry"

definition io_empty :: io_table where
  "io_empty = (\<lambda>c p. \<lparr> flags = 0, out_pid = 0, pmt_in_pid = 0 \<rparr>)"

abbreviation io_ok :: "nat \<Rightarrow> u16 \<Rightarrow> bool" where
  "io_ok c p \<equiv> c < CHANNEL_MAX_NUM \<and> p \<le> NULL_PID"

definition io_read :: "io_table \<Rightarrow> nat \<Rightarrow> u16 \<Rightarrow> io_pid_entry option" where
  "io_read t c p = (if io_ok c p then Some (t c p) else None)"

definition io_modify ::
  "io_table \<Rightarrow> nat \<Rightarrow> u16 \<Rightarrow> (io_pid_entry \<Rightarrow> io_pid_entry) \<Rightarrow> io_table option" where
  "io_modify t c p f = (if io_ok c p then Some (t(c := (t c)(p := f (t c p)))) else None)"

definition add_flags :: "u8 \<Rightarrow> io_pid_entry \<Rightarrow> io_pid_entry" where
  "add_flags m e = e\<lparr> flags := flags e OR m \<rparr>"

definition is_selected :: "io_pid_entry \<Rightarrow> bool" where
  "is_selected e \<longleftrightarrow> has_flag (flags e) IO_PID_FLAG_SELECTED"

definition is_pmt :: "io_pid_entry \<Rightarrow> bool" where
  "is_pmt e \<longleftrightarrow> has_flag (flags e) IO_PID_FLAG_PMT_PID"

definition is_pmt_out :: "io_pid_entry \<Rightarrow> bool" where
  "is_pmt_out e \<longleftrightarrow> has_flag (flags e) IO_PID_FLAG_IS_PMT_OUT_PID"

section \<open>Building the table\<close>

text \<open>One turn of the innermost loop of \<^verbatim>\<open>build_io_table\<close>, for entry \<open>i\<close> of a program.\<close>

definition build_entry ::
  "nat \<Rightarrow> bool \<Rightarrow> nat \<Rightarrow> io_table \<Rightarrow> pid_trans_entry \<Rightarrow> io_table option" where
  "build_entry c sel i t e =
     do {
       t \<leftarrow> (if i = 0 then io_modify t c (pt_in e) (add_flags IO_PID_FLAG_PMT_PID) else Some t);
       t \<leftarrow> io_modify t c (pt_in e) (add_flags IO_PID_FLAG_IS_INPUT_PID);
       (if sel then
          (if is_pmt (t c (pt_in e)) \<and> is_selected (t c (pt_in e)) then
             io_modify t c (pt_out e)
               (\<lambda>x. (add_flags IO_PID_FLAG_IS_PMT_OUT_PID x)\<lparr> pmt_in_pid := pt_in e \<rparr>)
           else
             io_modify t c (pt_in e)
               (\<lambda>x. add_flags IO_PID_FLAG_SELECTED (x\<lparr> out_pid := pt_out e \<rparr>)))
        else Some t)
     }"

fun build_entries ::
  "nat \<Rightarrow> bool \<Rightarrow> nat \<Rightarrow> io_table \<Rightarrow> pid_trans_entry list \<Rightarrow> io_table option" where
  "build_entries c sel i t [] = Some t"
| "build_entries c sel i t (e # es) =
     (if \<not> prog_pid_val_isvalid (pt_in e) then Some t
      else do { t \<leftarrow> build_entry c sel i t e; build_entries c sel (Suc i) t es })"

definition build_program :: "fp_state \<Rightarrow> nat \<Rightarrow> io_table \<Rightarrow> nat \<Rightarrow> io_table option" where
  "build_program s c t k =
     do {
       prog \<leftarrow> prog_at s (prog_index c k);
       build_entries c (FP_PROG_SELECTED prog) 0 t (prog_entries (info prog))
     }"

definition build_channel :: "fp_state \<Rightarrow> io_table \<Rightarrow> nat \<Rightarrow> io_table option" where
  "build_channel s t c = foldM (build_program s c) t [0..<chan_nprogs s c]"

definition build_io_table :: "fp_state \<Rightarrow> io_table option" where
  "build_io_table s = foldM (build_channel s) io_empty [0..<CHANNEL_MAX_NUM]"

section \<open>Choosing an output PID\<close>

definition out_pid_mapped :: "io_table \<Rightarrow> nat \<Rightarrow> u16 \<Rightarrow> u16 \<Rightarrow> bool" where
  "out_pid_mapped t c p out \<longleftrightarrow> is_selected (t c p) \<and> out_pid (t c p) = out"

definition is_out_pid_usable :: "io_table \<Rightarrow> nat \<Rightarrow> u16 \<Rightarrow> u16 \<Rightarrow> bool option" where
  "is_out_pid_usable t sel_chan_idx in_pid out =
     (if \<not> out \<le> NULL_PID then None
      else if list_ex (\<lambda>c. is_pmt_out (t c out)) [0..<CHANNEL_MAX_NUM] then Some False
      else do {
        e \<leftarrow> io_read t sel_chan_idx in_pid;
        if is_selected e \<and> out_pid e = out then Some (\<not> is_pmt e)
        else Some (\<not> list_ex (\<lambda>c. list_ex (\<lambda>p.
               out_pid_mapped t c p out
                 \<and> \<not> (c = sel_chan_idx \<and> p = in_pid \<and> \<not> is_pmt (t c p))) pid_range)
             [0..<CHANNEL_MAX_NUM])
      })"

definition out_pid_is_free :: "io_table \<Rightarrow> u16 \<Rightarrow> bool" where
  "out_pid_is_free t out \<longleftrightarrow>
     list_all (\<lambda>c. flags (t c out) = 0) [0..<CHANNEL_MAX_NUM]
     \<and> list_all (\<lambda>c. list_all (\<lambda>p. \<not> out_pid_mapped t c p out) pid_range) [0..<CHANNEL_MAX_NUM]"

definition pick_free_pid :: "io_table \<Rightarrow> u16" where
  "pick_free_pid t =
     (case List.find (out_pid_is_free t) pid_range of Some p \<Rightarrow> p | None \<Rightarrow> NULL_PID)"

section \<open>Reading and setting a mapping\<close>

definition prog_chan :: "nat \<Rightarrow> nat" where
  "prog_chan g_prog_idx = g_prog_idx div PROGRAM_MAX_NUM"

definition io_table_set_pid :: "nat \<Rightarrow> u16 \<Rightarrow> u16 \<Rightarrow> io_table \<Rightarrow> io_table option" where
  "io_table_set_pid g_prog_idx in_pid out t =
     io_modify t (prog_chan g_prog_idx) in_pid
       (\<lambda>e. let m = (if \<not> is_selected e \<or> out_pid e \<noteq> out then IO_PID_FLAG_JUST_ADDED
                     else IO_PID_FLAG_ADD_AGAIN)
            in add_flags IO_PID_FLAG_SELECTED ((add_flags m e)\<lparr> out_pid := out \<rparr>))"

definition io_table_set_pmt_pid :: "nat \<Rightarrow> u16 \<Rightarrow> u16 \<Rightarrow> io_table \<Rightarrow> io_table option" where
  "io_table_set_pmt_pid g_prog_idx in_pid out t =
     do {
       e \<leftarrow> io_read t (prog_chan g_prog_idx) in_pid;
       if is_selected e then
         io_modify t (prog_chan g_prog_idx) out
           (\<lambda>x. let y = add_flags IO_PID_FLAG_IS_PMT_OUT_PID x;
                    m = (if is_selected y then IO_PID_FLAG_ADD_AGAIN else IO_PID_FLAG_JUST_ADDED)
                in (add_flags m y)\<lparr> pmt_in_pid := in_pid \<rparr>)
       else
         io_modify t (prog_chan g_prog_idx) in_pid
           (\<lambda>x. add_flags (IO_PID_FLAG_SELECTED OR IO_PID_FLAG_JUST_ADDED) (x\<lparr> out_pid := out \<rparr>))
     }"

definition io_table_get_out_pid :: "nat \<Rightarrow> u16 \<Rightarrow> io_table \<Rightarrow> u16 option" where
  "io_table_get_out_pid g_prog_idx in_pid t =
     do {
       e \<leftarrow> io_read t (prog_chan g_prog_idx) in_pid;
       if is_selected e then Some (out_pid e)
       else do {
         u \<leftarrow> is_out_pid_usable t (prog_chan g_prog_idx) in_pid in_pid;
         Some (if u then in_pid else pick_free_pid t)
       }
     }"

definition io_table_get_pmt_out_pid :: "nat \<Rightarrow> u16 \<Rightarrow> io_table \<Rightarrow> u16 option" where
  "io_table_get_pmt_out_pid g_prog_idx in_pid t =
     do {
       e \<leftarrow> io_read t (prog_chan g_prog_idx) in_pid;
       if is_selected e then Some (pick_free_pid t)
       else do {
         u \<leftarrow> is_out_pid_usable t (prog_chan g_prog_idx) in_pid in_pid;
         Some (if u then in_pid else pick_free_pid t)
       }
     }"

section \<open>Other programs of the channel\<close>

fun update_entries ::
  "u16 \<Rightarrow> u16 \<Rightarrow> bool \<Rightarrow> pid_trans_entry list \<Rightarrow> pid_trans_entry list" where
  "update_entries in_pid out sel [] = []"
| "update_entries in_pid out sel (e # es) =
     (if \<not> prog_pid_val_isvalid (pt_in e) then e # es
      else (if sel \<and> pt_in e = in_pid then e\<lparr> pt_out := out \<rparr> else e)
             # update_entries in_pid out sel es)"

definition update_program_out_pid :: "u16 \<Rightarrow> u16 \<Rightarrow> prog_info_t \<Rightarrow> prog_info_t" where
  "update_program_out_pid in_pid out p =
     p\<lparr> info := set_pcr_entries
         (update_entries in_pid out (FP_PROG_SELECTED p) (pcr_entries (info p))) (info p) \<rparr>"

definition update_channel_other_program_out_pid ::
  "nat \<Rightarrow> u16 \<Rightarrow> u16 \<Rightarrow> fp_state \<Rightarrow> fp_state option" where
  "update_channel_other_program_out_pid sel_prog_idx in_pid out s =
     (let c = prog_chan sel_prog_idx in
      foldM (\<lambda>s k. if sel_prog_idx = prog_index c k then Some s
                   else do {
                     p \<leftarrow> prog_at s (prog_index c k);
                     Some (set_prog_at s (prog_index c k) (update_program_out_pid in_pid out p))
                   }) s [0..<chan_nprogs s c])"

section \<open>The two checks of a selection\<close>

text \<open>
  \<^verbatim>\<open>check_user_output_pid\<close>: the output PIDs come from the user, who saw those of
  \<open>old_prog\<close>. The result is the returned flag and the program table, which the loop has
  already changed when a later PID is refused.
\<close>

fun check_entries ::
  "nat \<Rightarrow> (pid_trans_entry \<times> pid_trans_entry) list \<Rightarrow> io_table \<Rightarrow> fp_state
     \<Rightarrow> (bool \<times> fp_state) option" where
  "check_entries idx [] t s = Some (True, s)"
| "check_entries idx ((e, old_e) # es) t s =
     (if \<not> prog_pid_val_isvalid (pt_in e) then check_entries idx es t s
      else do {
        ok \<leftarrow> (if pt_out e \<noteq> pt_out old_e
               then is_out_pid_usable t (prog_chan idx) (pt_in e) (pt_out e) else Some True);
        if \<not> ok then Some (False, s)
        else do {
          t \<leftarrow> io_table_set_pid idx (pt_in e) (pt_out e) t;
          s \<leftarrow> update_channel_other_program_out_pid idx (pt_in e) (pt_out e) s;
          check_entries idx es t s
        }
      })"

definition check_user_output_pid ::
  "prog_info_t \<Rightarrow> prog_info_t \<Rightarrow> nat \<Rightarrow> fp_state \<Rightarrow> (bool \<times> fp_state) option" where
  "check_user_output_pid old_prog sel_prog sel_prog_idx s =
     do {
       t \<leftarrow> build_io_table s;
       let pm = pmt (info sel_prog);
       ok \<leftarrow> (if pt_out pm \<noteq> pt_out (pmt (info old_prog))
              then is_out_pid_usable t (prog_chan sel_prog_idx) (pt_in pm) (pt_out pm)
              else Some True);
       if \<not> ok then Some (False, s)
       else do {
         t \<leftarrow> io_table_set_pmt_pid sel_prog_idx (pt_in pm) (pt_out pm) t;
         check_entries sel_prog_idx
           (zip (pcr_entries (info sel_prog)) (pcr_entries (info old_prog))) t s
       }
     }"

text \<open>
  \<^verbatim>\<open>fix_selected_program_output_pid\<close> chooses the output PIDs itself. The loop over the
  PCR and data entries returns them with their new outputs, and the program table.
\<close>

fun fix_entries ::
  "nat \<Rightarrow> bool \<Rightarrow> pid_trans_entry list \<Rightarrow> io_table \<Rightarrow> fp_state
     \<Rightarrow> (pid_trans_entry list \<times> fp_state) option" where
  "fix_entries idx do_fix [] t s = Some ([], s)"
| "fix_entries idx do_fix (e # es) t s =
     (if \<not> prog_pid_val_isvalid (pt_in e) then do {
        (es', s) \<leftarrow> fix_entries idx do_fix es t s;
        Some (e # es', s)
      }
      else do {
        out \<leftarrow> io_table_get_out_pid idx (pt_in e) t;
        t \<leftarrow> io_table_set_pid idx (pt_in e) out t;
        s \<leftarrow> (if do_fix then update_channel_other_program_out_pid idx (pt_in e) out s else Some s);
        (es', s) \<leftarrow> fix_entries idx do_fix es t s;
        Some (e\<lparr> pt_out := out \<rparr> # es', s)
      })"

definition fix_selected_program_output_pid ::
  "prog_info_t \<Rightarrow> nat \<Rightarrow> bool \<Rightarrow> fp_state \<Rightarrow> (prog_info_t \<times> fp_state) option" where
  "fix_selected_program_output_pid sel_prog sel_prog_idx do_fix s =
     do {
       t \<leftarrow> build_io_table s;
       let pm = pmt (info sel_prog);
       out \<leftarrow> io_table_get_pmt_out_pid sel_prog_idx (pt_in pm) t;
       t \<leftarrow> io_table_set_pmt_pid sel_prog_idx (pt_in pm) out t;
       (es, s) \<leftarrow> fix_entries sel_prog_idx do_fix (pcr_entries (info sel_prog)) t s;
       Some (sel_prog\<lparr> info := set_pcr_entries es ((info sel_prog)\<lparr> pmt := pm\<lparr> pt_out := out \<rparr> \<rparr>) \<rparr>, s)
     }"

section \<open>What the table holds\<close>

lemma has_io_flags [flag_simps]:
  "has_flag IO_PID_FLAG_SELECTED IO_PID_FLAG_SELECTED"
  "\<not> has_flag IO_PID_FLAG_JUST_ADDED IO_PID_FLAG_SELECTED"
  "\<not> has_flag IO_PID_FLAG_IS_INPUT_PID IO_PID_FLAG_SELECTED"
  "\<not> has_flag IO_PID_FLAG_PMT_PID IO_PID_FLAG_SELECTED"
  "\<not> has_flag IO_PID_FLAG_IS_PMT_OUT_PID IO_PID_FLAG_SELECTED"
  "\<not> has_flag IO_PID_FLAG_ADD_AGAIN IO_PID_FLAG_SELECTED"
  "\<not> has_flag IO_PID_FLAG_SELECTED IO_PID_FLAG_PMT_PID"
  "\<not> has_flag IO_PID_FLAG_JUST_ADDED IO_PID_FLAG_PMT_PID"
  "\<not> has_flag IO_PID_FLAG_IS_INPUT_PID IO_PID_FLAG_PMT_PID"
  "has_flag IO_PID_FLAG_PMT_PID IO_PID_FLAG_PMT_PID"
  "\<not> has_flag IO_PID_FLAG_IS_PMT_OUT_PID IO_PID_FLAG_PMT_PID"
  "\<not> has_flag IO_PID_FLAG_ADD_AGAIN IO_PID_FLAG_PMT_PID"
  "\<not> has_flag IO_PID_FLAG_SELECTED IO_PID_FLAG_IS_PMT_OUT_PID"
  "\<not> has_flag IO_PID_FLAG_JUST_ADDED IO_PID_FLAG_IS_PMT_OUT_PID"
  "\<not> has_flag IO_PID_FLAG_IS_INPUT_PID IO_PID_FLAG_IS_PMT_OUT_PID"
  "\<not> has_flag IO_PID_FLAG_PMT_PID IO_PID_FLAG_IS_PMT_OUT_PID"
  "has_flag IO_PID_FLAG_IS_PMT_OUT_PID IO_PID_FLAG_IS_PMT_OUT_PID"
  "\<not> has_flag IO_PID_FLAG_ADD_AGAIN IO_PID_FLAG_IS_PMT_OUT_PID"
  by (simp_all add: has_flag_def io_flag_defs)

lemma add_flags_tests [simp]:
  "is_selected (add_flags m e) \<longleftrightarrow> has_flag m IO_PID_FLAG_SELECTED \<or> is_selected e"
  "is_pmt (add_flags m e) \<longleftrightarrow> has_flag m IO_PID_FLAG_PMT_PID \<or> is_pmt e"
  "is_pmt_out (add_flags m e) \<longleftrightarrow> has_flag m IO_PID_FLAG_IS_PMT_OUT_PID \<or> is_pmt_out e"
  "out_pid (add_flags m e) = out_pid e"
  "pmt_in_pid (add_flags m e) = pmt_in_pid e"
  by (auto simp: is_selected_def is_pmt_def is_pmt_out_def add_flags_def has_flag_or)

lemma is_flag_updates [simp]:
  "is_selected (e\<lparr> out_pid := o' \<rparr>) = is_selected e"
  "is_pmt (e\<lparr> out_pid := o' \<rparr>) = is_pmt e"
  "is_pmt_out (e\<lparr> out_pid := o' \<rparr>) = is_pmt_out e"
  "is_selected (e\<lparr> pmt_in_pid := q \<rparr>) = is_selected e"
  "is_pmt (e\<lparr> pmt_in_pid := q \<rparr>) = is_pmt e"
  "is_pmt_out (e\<lparr> pmt_in_pid := q \<rparr>) = is_pmt_out e"
  by (simp_all add: is_selected_def is_pmt_def is_pmt_out_def)

lemma io_modify_Some_iff:
  "io_modify t c p f = Some t' \<longleftrightarrow>
     io_ok c p \<and> t' = (\<lambda>c' p'. if c' = c \<and> p' = p then f (t c p) else t c' p')"
proof -
  have "t(c := (t c)(p := f (t c p))) = (\<lambda>c' p'. if c' = c \<and> p' = p then f (t c p) else t c' p')"
    by (intro ext) simp
  then show ?thesis by (auto simp: io_modify_def)
qed

lemma io_empty_tests [simp]:
  "\<not> is_selected (io_empty c p)" "\<not> is_pmt (io_empty c p)" "\<not> is_pmt_out (io_empty c p)"
  by (simp_all add: io_empty_def is_selected_def is_pmt_def is_pmt_out_def)

lemma build_entry_selected:
  assumes "build_entry c sel i t e = Some t'"
  shows "is_selected (t' c' p) \<longleftrightarrow> is_selected (t c' p) \<or> (c' = c \<and> sel \<and> p = pt_in e)"
  using assms
  by (auto simp: build_entry_def bind_Some_iff io_modify_Some_iff flag_simps split: if_splits)

lemma build_entry_pmt:
  assumes "build_entry c sel i t e = Some t'"
  shows "is_pmt (t' c' p) \<longleftrightarrow> is_pmt (t c' p) \<or> (c' = c \<and> i = 0 \<and> p = pt_in e)"
  using assms
  by (auto simp: build_entry_def bind_Some_iff io_modify_Some_iff flag_simps split: if_splits)

text \<open>The input PIDs of a program that \<^verbatim>\<open>build_io_table\<close> visits.\<close>

definition visited_ins :: "pid_trans_entry list \<Rightarrow> u16 list" where
  "visited_ins es = takeWhile prog_pid_val_isvalid (map pt_in es)"

lemma build_entries_selected:
  "build_entries c sel i t es = Some t' \<Longrightarrow>
   is_selected (t' c' p) \<longleftrightarrow> is_selected (t c' p) \<or> (c' = c \<and> sel \<and> p \<in> set (visited_ins es))"
proof (induction c sel i t es rule: build_entries.induct)
  case (2 c sel i t e es)
  then show ?case
    by (cases "prog_pid_val_isvalid (pt_in e)")
       (auto simp: bind_Some_iff visited_ins_def dest: build_entry_selected [of _ _ _ _ _ _ c' p])
qed (simp add: visited_ins_def)

lemma build_entries_pmt:
  "build_entries c sel i t es = Some t' \<Longrightarrow>
   is_pmt (t' c' p) \<longleftrightarrow> is_pmt (t c' p)
     \<or> (c' = c \<and> i = 0 \<and> es \<noteq> [] \<and> p = pt_in (hd es) \<and> prog_pid_val_isvalid p)"
proof (induction c sel i t es rule: build_entries.induct)
  case (2 c sel i t e es)
  then show ?case
    by (cases "prog_pid_val_isvalid (pt_in e)")
       (auto simp: bind_Some_iff dest: build_entry_pmt [of _ _ _ _ _ _ c' p])
qed simp

text \<open>The programs of a channel that the loops over \<^verbatim>\<open>g_chan_num.num[c]\<close> reach.\<close>

definition channel_program :: "fp_state \<Rightarrow> nat \<Rightarrow> prog_info_t \<Rightarrow> bool" where
  "channel_program s c q \<longleftrightarrow> (\<exists>k < chan_nprogs s c. prog_at s (prog_index c k) = Some q)"

lemma build_io_table_collect:
  assumes "build_io_table s = Some t" "\<not> Q io_empty" "c < CHANNEL_MAX_NUM"
    and step: "\<And>c' sel t es t'. build_entries c' sel 0 t es = Some t' \<Longrightarrow>
                 Q t' \<longleftrightarrow> Q t \<or> (c' = c \<and> R sel es)"
  shows "Q t \<longleftrightarrow> (\<exists>q. channel_program s c q \<and> R (FP_PROG_SELECTED q) (prog_entries (info q)))"
proof -
  have prog: "Q t' \<longleftrightarrow> Q t \<or> (c' = c \<and> (\<exists>q. prog_at s (prog_index c k) = Some q
                 \<and> R (FP_PROG_SELECTED q) (prog_entries (info q))))"
    if "build_program s c' t k = Some t'" for c' t k t'
    using that step by (auto simp: build_program_def bind_Some_iff)
  have "Q t' \<longleftrightarrow> Q t \<or> (c' = c \<and> (\<exists>q. channel_program s c q
                 \<and> R (FP_PROG_SELECTED q) (prog_entries (info q))))"
    if "build_channel s t c' = Some t'" for c' t t'
    using foldM_collect [where f = "build_program s c'" and Q = Q and
        R = "\<lambda>k. c' = c \<and> (\<exists>q. prog_at s (prog_index c k) = Some q
               \<and> R (FP_PROG_SELECTED q) (prog_entries (info q)))",
        OF that [unfolded build_channel_def] prog]
    by (simp add: channel_program_def) (simp only: set_upt atLeastLessThan_iff Bex_def, blast)
  from foldM_collect [where f = "build_channel s" and Q = Q and
      R = "\<lambda>c'. c' = c \<and> (\<exists>q. channel_program s c q
               \<and> R (FP_PROG_SELECTED q) (prog_entries (info q)))",
      OF assms(1) [unfolded build_io_table_def] this] assms(2,3)
  show ?thesis by auto
qed

lemma build_io_table_selected:
  assumes "build_io_table s = Some t" "c < CHANNEL_MAX_NUM"
  shows "is_selected (t c p) \<longleftrightarrow>
    (\<exists>q. channel_program s c q \<and> FP_PROG_SELECTED q \<and> p \<in> set (visited_ins (prog_entries (info q))))"
  by (rule build_io_table_collect [where Q = "\<lambda>t. is_selected (t c p)", OF assms(1) _ assms(2)])
     (auto dest: build_entries_selected)

lemma build_io_table_pmt:
  assumes "build_io_table s = Some t" "c < CHANNEL_MAX_NUM"
  shows "is_pmt (t c p) \<longleftrightarrow>
    (\<exists>q. channel_program s c q \<and> p = pt_in (pmt (info q)) \<and> prog_pid_val_isvalid p)"
  using build_io_table_collect [where Q = "\<lambda>t. is_pmt (t c p)" and
      R = "\<lambda>sel es. es \<noteq> [] \<and> p = pt_in (hd es) \<and> prog_pid_val_isvalid p", OF assms(1) _ assms(2)]
  by (auto dest: build_entries_pmt simp: prog_entries_def)

text \<open>
  What the selected programs send where: a source is the PMT of one program, or one PID of a
  channel, which several programs may share. \<open>out_map\<close> relates it to its output PID.
\<close>

datatype es_key = Pmt nat nat | Es nat u16

definition sel_prog_at :: "fp_state \<Rightarrow> nat \<Rightarrow> nat \<Rightarrow> prog_info_t \<Rightarrow> bool" where
  "sel_prog_at s c k q \<longleftrightarrow> c < CHANNEL_MAX_NUM \<and> k < chan_nprogs s c
     \<and> prog_at s (prog_index c k) = Some q \<and> FP_PROG_SELECTED q"

definition prog_out_map :: "nat \<Rightarrow> nat \<Rightarrow> xmux_program_info \<Rightarrow> (es_key \<times> u16) set" where
  "prog_out_map c k i = insert (Pmt c k, pt_out (pmt i))
     ((\<lambda>e. (Es c (pt_in e), pt_out e)) ` {e \<in> set (pcr_entries i). prog_pid_val_isvalid (pt_in e)})"

lemma prog_out_map_covers:
  assumes "e \<in> set (prog_entries i)" "prog_pid_val_isvalid (pt_in e)"
  shows "pt_out e \<in> snd ` prog_out_map c k i"
proof (cases "e = pmt i")
  case False
  with assms have "(Es c (pt_in e), pt_out e) \<in> prog_out_map c k i"
    by (auto simp: prog_out_map_def prog_entries_def pcr_entries_def)
  then show ?thesis by (metis image_eqI snd_conv)
qed (simp add: prog_out_map_def)

definition out_map :: "fp_state \<Rightarrow> (es_key \<times> u16) set" where
  "out_map s = {x. \<exists>c k q. sel_prog_at s c k q \<and> x \<in> prog_out_map c k (info q)}"

text \<open>The table can be built when no channel counts past its row and no selected program
  maps to an output past \<^verbatim>\<open>NULL_PID\<close>.\<close>

definition outs_in_range :: "fp_state \<Rightarrow> bool" where
  "outs_in_range s \<longleftrightarrow> (\<forall>x \<in> out_map s. snd x \<le> NULL_PID)"

lemma build_entry_total:
  assumes "io_ok c (pt_in e)" "sel \<Longrightarrow> pt_out e \<le> NULL_PID"
  shows "\<exists>t'. build_entry c sel i t e = Some t'"
  using assms by (cases "i = 0"; cases sel) (auto simp: build_entry_def io_modify_def Let_def)

lemma build_entries_total:
  "c < CHANNEL_MAX_NUM \<Longrightarrow>
   (sel \<Longrightarrow> \<forall>e \<in> set es. prog_pid_val_isvalid (pt_in e) \<longrightarrow> pt_out e \<le> NULL_PID) \<Longrightarrow>
   \<exists>t'. build_entries c sel i t es = Some t'"
proof (induction es arbitrary: i t)
  case (Cons e es)
  show ?case
  proof (cases "prog_pid_val_isvalid (pt_in e)")
    case True
    with Cons.prems obtain t1 where "build_entry c sel i t e = Some t1"
      using build_entry_total [of c e sel i t] by (auto dest: isvalid_le_NULL_PID)
    with True Cons.IH [of "Suc i" t1] Cons.prems show ?thesis by auto
  qed simp
qed simp

lemma build_io_table_total:
  assumes "fp_wf s" "fp_bounded s" "outs_in_range s"
  shows "\<exists>t. build_io_table s = Some t"
proof -
  have prog: "\<exists>t'. build_program s c t k = Some t' \<and> True"
    if "c < CHANNEL_MAX_NUM" "k < chan_nprogs s c" for c t k
  proof -
    from that assms(2) have "k < PROGRAM_MAX_NUM" by (auto simp: fp_bounded_def)
    from prog_index_less [OF that(1) this] assms(1)
    have i: "prog_index c k < length (g_prog_info_table s)" by (simp add: fp_wf_def)
    let ?q = "g_prog_info_table s ! prog_index c k"
    have "pt_out e \<le> NULL_PID" if sel: "FP_PROG_SELECTED ?q" and
      e: "e \<in> set (prog_entries (info ?q))" "prog_pid_val_isvalid (pt_in e)" for e
    proof -
      have "sel_prog_at s c k ?q"
        using \<open>c < CHANNEL_MAX_NUM\<close> \<open>k < chan_nprogs s c\<close> i sel by (simp add: sel_prog_at_def prog_at_def)
      moreover obtain x where "x \<in> prog_out_map c k (info ?q)" "snd x = pt_out e"
        using prog_out_map_covers [OF e, of c k] by auto
      ultimately have "x \<in> out_map s" unfolding out_map_def by blast
      with assms(3) \<open>snd x = pt_out e\<close> show ?thesis by (auto simp: outs_in_range_def)
    qed
    then have "\<exists>t'. build_entries c (FP_PROG_SELECTED ?q) 0 t (prog_entries (info ?q)) = Some t'"
      by (intro build_entries_total that(1)) blast
    with i show ?thesis by (simp add: build_program_def prog_at_def)
  qed
  have "\<exists>t'. build_channel s t c = Some t' \<and> True" if "c < CHANNEL_MAX_NUM" for c t
    unfolding build_channel_def
    by (rule foldM_total) (use that prog in auto)
  from foldM_total [where P = "\<lambda>_. True" and f = "build_channel s" and s = io_empty
      and xs = "[0..<CHANNEL_MAX_NUM]", OF TrueI this]
  show ?thesis by (auto simp: build_io_table_def)
qed

section \<open>Free output PIDs\<close>

lemma find_cases:
  "(\<exists>x \<in> set xs. P x \<and> List.find P xs = Some x)
     \<or> (\<forall>x \<in> set xs. \<not> P x) \<and> List.find P xs = None"
  by (induction xs) auto

lemma pick_free_pid_cases:
  obtains (free) "out_pid_is_free t (pick_free_pid t)" "pick_free_pid t \<in> set pid_range"
  | (full) "pick_free_pid t = NULL_PID" "\<forall>p \<in> set pid_range. \<not> out_pid_is_free t p"
  using find_cases [of pid_range "out_pid_is_free t"] that
  by (auto simp: pick_free_pid_def)

text \<open>The PIDs a table hands out: the outputs of selected inputs and the extra PMT outputs.\<close>

definition used_outs :: "io_table \<Rightarrow> u16 set" where
  "used_outs t = {out_pid (t c p) |c p. c < CHANNEL_MAX_NUM \<and> p \<in> set pid_range \<and> is_selected (t c p)}
     \<union> {p. \<exists>c < CHANNEL_MAX_NUM. is_pmt_out (t c p)}"

lemma used_outsI:
  "c < CHANNEL_MAX_NUM \<Longrightarrow> p \<in> set pid_range \<Longrightarrow> is_selected (t c p) \<Longrightarrow> out_pid (t c p) \<in> used_outs t"
  "c < CHANNEL_MAX_NUM \<Longrightarrow> is_pmt_out (t c x) \<Longrightarrow> x \<in> used_outs t"
  unfolding used_outs_def by blast+

lemma used_outsE:
  assumes "x \<in> used_outs t"
  obtains (mapped) c p where "c < CHANNEL_MAX_NUM" "p \<in> set pid_range" "is_selected (t c p)"
      "x = out_pid (t c p)"
  | (pmt) c where "c < CHANNEL_MAX_NUM" "is_pmt_out (t c x)"
  using assms unfolding used_outs_def by blast

lemma is_out_pid_usable_fresh:
  assumes "is_out_pid_usable t c p out = Some True" "\<not> is_selected (t c p)"
  shows "out \<notin> used_outs t"
proof
  from assms have no_pmt: "\<not> list_ex (\<lambda>c. is_pmt_out (t c out)) [0..<CHANNEL_MAX_NUM]"
    and none: "\<not> list_ex (\<lambda>c'. list_ex (\<lambda>p'. out_pid_mapped t c' p' out
        \<and> \<not> (c' = c \<and> p' = p \<and> \<not> is_pmt (t c' p'))) pid_range) [0..<CHANNEL_MAX_NUM]"
    by (auto simp: is_out_pid_usable_def bind_Some_iff io_read_def 
        split: if_splits)
  assume "out \<in> used_outs t"
  then consider (sel) c' p' where "c' < CHANNEL_MAX_NUM" "p' \<in> set pid_range" "out_pid_mapped t c' p' out"
    | (pmt) c' where "c' < CHANNEL_MAX_NUM" "is_pmt_out (t c' out)"
    by (auto simp: used_outs_def out_pid_mapped_def)
  then show False
  proof cases
    case sel
    then have "\<not> (c' = c \<and> p' = p)" using assms(2) by (auto simp: out_pid_mapped_def)
    with sel none show False by (auto simp: list_ex_iff)
  next
    case pmt
    with no_pmt show False by (auto simp: list_ex_iff)
  qed
qed

lemma free_flags_not_pmt_out: "flags e = 0 \<Longrightarrow> \<not> is_pmt_out e"
  by (simp add: is_pmt_out_def)

lemma out_pid_is_free_fresh: "out_pid_is_free t out \<Longrightarrow> out \<notin> used_outs t"
  by (auto simp: out_pid_is_free_def used_outs_def out_pid_mapped_def list_all_iff
      free_flags_not_pmt_out)

section \<open>The table assigns output PIDs\<close>

definition io_lookup :: "nat \<Rightarrow> io_table \<Rightarrow> u16 \<Rightarrow> u16 option" where
  "io_lookup idx t p = (if is_selected (t (prog_chan idx) p) then Some (out_pid (t (prog_chan idx) p))
     else None)"

definition io_key_ok :: "nat \<Rightarrow> u16 \<Rightarrow> bool" where
  "io_key_ok idx p \<longleftrightarrow> prog_chan idx < CHANNEL_MAX_NUM \<and> p \<in> set pid_range"

lemma io_table_set_pid_Some:
  assumes "io_table_set_pid idx p x t = Some t'"
  shows "prog_chan idx < CHANNEL_MAX_NUM" "is_selected (t' (prog_chan idx) p)"
    "out_pid (t' (prog_chan idx) p) = x"
    "(c', p') \<noteq> (prog_chan idx, p) \<Longrightarrow> t' c' p' = t c' p'"
    "is_pmt_out (t' c' p') = is_pmt_out (t c' p')"
    "is_pmt (t' c' p') = is_pmt (t c' p')"
  using assms
  by (auto simp: io_table_set_pid_def io_modify_Some_iff flag_simps Let_def)

lemma io_lookup_set_pid:
  assumes "io_table_set_pid idx p x t = Some t'"
  shows "io_lookup idx t' p' = (if p' = p then Some x else io_lookup idx t p')"
  using io_table_set_pid_Some [OF assms] by (auto simp: io_lookup_def)

lemma used_outs_set_pid:
  assumes "io_table_set_pid idx p x t = Some t'" "p \<in> set pid_range"
    and "io_lookup idx t p = None \<or> io_lookup idx t p = Some x"
  shows "insert x (used_outs t) \<subseteq> used_outs t'"
proof
  note set = io_table_set_pid_Some [OF assms(1)]
  fix y assume "y \<in> insert x (used_outs t)"
  then consider "y = x"
    | c p' where "c < CHANNEL_MAX_NUM" "p' \<in> set pid_range" "is_selected (t c p')" "y = out_pid (t c p')"
    | c where "c < CHANNEL_MAX_NUM" "is_pmt_out (t c y)"
    by (auto simp: used_outs_def)
  then show "y \<in> used_outs t'"
  proof cases
    case 1
    with set(1-3) assms(2) show ?thesis by (auto simp: used_outs_def)
  next
    case 2
    show ?thesis
    proof (cases "(c, p') = (prog_chan idx, p)")
      case True
      with 2 assms(3) have "y = x" by (auto simp: io_lookup_def)
      with set(1-3) assms(2) show ?thesis by (auto simp: used_outs_def)
    next
      case False
      with 2 set(4) [OF False] show ?thesis by (force simp: used_outs_def)
    qed
  next
    case 3
    with set(5) show ?thesis by (auto simp: used_outs_def)
  qed
qed

lemma pick_free_pid_fresh: "pick_free_pid t \<noteq> NULL_PID \<Longrightarrow> pick_free_pid t \<notin> used_outs t"
  by (cases t rule: pick_free_pid_cases) (auto dest: out_pid_is_free_fresh)

lemma get_out_pid_fresh:
  assumes "io_table_get_out_pid idx p t = Some x" "io_lookup idx t p = None" "x \<noteq> NULL_PID"
  shows "x \<notin> used_outs t"
  using assms
  by (auto simp: io_table_get_out_pid_def io_lookup_def bind_Some_iff io_read_def
      dest: is_out_pid_usable_fresh pick_free_pid_fresh split: if_splits)

interpretation io: pid_assigner "io_lookup idx" used_outs "io_table_get_out_pid idx"
  "io_table_set_pid idx" "io_key_ok idx" NULL_PID for idx
proof unfold_locales
  fix p x t t' p'
  assume "io_key_ok idx p" and put: "io_table_set_pid idx p x t = Some t'"
  then show "io_lookup idx t' p' = (if p' = p then Some x else io_lookup idx t p')"
    by (intro io_lookup_set_pid)
  assume "io_lookup idx t p = None \<or> io_lookup idx t p = Some x"
  with put \<open>io_key_ok idx p\<close> show "insert x (used_outs t) \<subseteq> used_outs t'"
    by (intro used_outs_set_pid) (simp_all add: io_key_ok_def)
next
  fix p x y t
  assume "io_table_get_out_pid idx p t = Some x" "io_lookup idx t p = Some y"
  then show "x = y"
    by (auto simp: io_table_get_out_pid_def io_lookup_def bind_Some_iff io_read_def split: if_splits)
next
  fix p x t
  assume "io_table_get_out_pid idx p t = Some x" "io_lookup idx t p = None" "x \<noteq> NULL_PID"
  then show "x \<notin> used_outs t" by (rule get_out_pid_fresh)
next
  fix p x t
  assume "io_key_ok idx p" "io_lookup idx t p = Some x"
  then show "x \<in> used_outs t"
    by (auto simp: io_key_ok_def io_lookup_def used_outs_def split: if_splits)
qed

section \<open>Properties\<close>

text \<open>The rebuilt table says exactly what is selected: an input PID of a channel is marked
  selected when it is one of the entries, up to the first without a PID, of a selected program of
  that channel, and marked as PMT when it is the PMT of some program of the channel.\<close>

theorem build_io_table_marks:
  assumes "build_io_table s = Some t" and "c < CHANNEL_MAX_NUM"
  shows "(is_selected (t c p) \<longleftrightarrow> (\<exists>q. channel_program s c q \<and> FP_PROG_SELECTED q
           \<and> p \<in> set (takeWhile prog_pid_val_isvalid (map pt_in (prog_entries (info q))))))
       \<and> (is_pmt (t c p) \<longleftrightarrow> (\<exists>q. channel_program s c q \<and> p = pt_in (pmt (info q))
           \<and> prog_pid_val_isvalid p))"
  using build_io_table_selected [OF assms] build_io_table_pmt [OF assms]
  by (simp_all add: visited_ins_def)

lemma example_out_map:
  "out_map (example_state st) = (if has_flag st 1 then prog_out_map 0 0 example_info else {})"
proof -
  have "sel_prog_at (example_state st) c k q \<longleftrightarrow> c = 0 \<and> k = 0 \<and> q = example_prog st \<and> has_flag st 1" for c k q
    using example_nprogs [of c st] example_prog_at [of st] example_status [of st]
    by (auto simp: sel_prog_at_def prog_index_def limit_simps split: if_splits)
  then show ?thesis by (auto simp: out_map_def example_prog_def)
qed

lemma example_outs_in_range: "outs_in_range (example_state st)"
  by (auto simp: outs_in_range_def example_out_map prog_out_map_def pcr_entries_def example_info_def
      NULL_PID_def pad_entry_def prog_pid_val_isvalid_def defProgPidMin_def DATA_PID_PAD_VALUE_def)

theorem build_io_table_marks_witness:
  "\<exists>t. build_io_table (example_state 1) = Some t \<and> is_selected (t 0 0x101) \<and> is_pmt (t 0 0x100)"
proof -
  from build_io_table_total [OF example_wf(2) example_bounded example_outs_in_range] obtain t where
    t: "build_io_table (example_state 1) = Some t" by blast
  have c: "0 < CHANNEL_MAX_NUM" by (simp add: limit_simps)
  have prog: "channel_program (example_state 1) 0 (example_prog 1)"
    using example_nprogs [OF c, of 1] example_prog_at [of 1]
    by (auto simp: channel_program_def prog_index_def)
  have "FP_PROG_SELECTED (example_prog 1)" by (simp add: example_status) (simp add: has_flag_def)
  moreover have "0x101 \<in> set (takeWhile prog_pid_val_isvalid (map pt_in (prog_entries (info (example_prog 1)))))"
    by (simp add: prog_entries_def example_prog_def example_info_def prog_pid_val_isvalid_def
        defProgPidMin_def defProgPidMax_def NULL_PID_def)
  moreover have "0x100 = pt_in (pmt (info (example_prog 1)))" "prog_pid_val_isvalid 0x100"
    by (simp_all add: example_prog_def example_info_def prog_pid_val_isvalid_def
        defProgPidMin_def defProgPidMax_def NULL_PID_def)
  ultimately show ?thesis
    using t prog build_io_table_marks [OF t c, of "0x101"] build_io_table_marks [OF t c, of "0x100"]
    by blast
qed

text \<open>The PID picked as free is a valid PID that no channel has as input or extra PMT output and
  that no selected input is mapped to; \<^verbatim>\<open>NULL_PID\<close> is returned exactly when there is none.\<close>

theorem pick_free_pid_spec:
  "if \<exists>p \<in> set pid_range. out_pid_is_free t p
   then prog_pid_val_isvalid (pick_free_pid t) \<and> pick_free_pid t \<notin> used_outs t
     \<and> (\<forall>c < CHANNEL_MAX_NUM. flags (t c (pick_free_pid t)) = 0)
     \<and> (\<forall>p \<in> set pid_range. out_pid_is_free t p \<longrightarrow> pick_free_pid t \<le> p)
   else pick_free_pid t = NULL_PID"
proof (cases t rule: pick_free_pid_cases)
  case free
  have first: "pick_free_pid t \<le> p" if "p \<in> set pid_range" "out_pid_is_free t p" for p
  proof -
    from find_first_sorted [of unat pid_range p "out_pid_is_free t", OF sorted_pid_range that] show ?thesis
      by (auto simp: pick_free_pid_def word_le_nat_alt split: option.splits)
  qed
  from free show ?thesis
    using out_pid_is_free_fresh [OF free(1)] first
    by (auto simp: isvalid_iff_pid_range out_pid_is_free_def list_all_iff)
next
  case full
  then show ?thesis by auto
qed

lemma io_empty_free: "p \<in> set pid_range \<Longrightarrow> out_pid_is_free io_empty p"
  by (simp add: out_pid_is_free_def out_pid_mapped_def list_all_iff) (simp add: io_empty_def)

theorem pick_free_pid_spec_witness:
  "pick_free_pid io_empty \<le> 0x20 \<and> prog_pid_val_isvalid (pick_free_pid io_empty)"
proof -
  have "0x20 \<in> set pid_range" by (simp add: set_pid_range NULL_PID_def)
  with pick_free_pid_spec [of io_empty] io_empty_free [of "0x20"] show ?thesis
    by (auto split: if_splits)
qed

end
