(* ===== verification/Validater.thy ===== *)
theory Validater
  imports IoTable
begin

text \<open>
  \<^verbatim>\<open>src/program_pid_validater.c\<close> and the two entry points of
  \<^verbatim>\<open>src/front_panel_process.c\<close> that select and deselect a program. A program is admitted
  when the multiplex still has a program slot, its PIDs are consistent and the channel's row of the
  FPGA PID map has room for it; the theory proves that these limits hold in every state the two
  operations and the front panel's program command can reach.
\<close>

section \<open>The checks\<close>

datatype enm_prog_pid_invalid =
  enm_prog_pid_valid | enm_prog_pid_val_err | enm_prog_pid_pmt_pcr | enm_prog_pid_pmt_other
| enm_prog_pid_pcr_other | enm_prog_pid_other_other | enm_prog_pid_program
| enm_prog_pid_overpid | enm_prog_pid_overprog

definition data_out_ok :: "u16 \<Rightarrow> bool" where
  "data_out_ok out \<longleftrightarrow> out = DATA_PID_PAD_VALUE \<or> out = 0 \<or> prog_pid_val_isvalid out"

text \<open>The two nested loops over \<open>i < j\<close>: equal inputs have equal outputs and conversely.\<close>

fun pid_relation_ok :: "pid_trans_entry list \<Rightarrow> bool" where
  "pid_relation_ok [] \<longleftrightarrow> True"
| "pid_relation_ok (e # es) \<longleftrightarrow>
     list_all (\<lambda>e'. (pt_in e = pt_in e') = (pt_out e = pt_out e')) es \<and> pid_relation_ok es"

definition valid_program_pids :: "prog_info_t \<Rightarrow> enm_prog_pid_invalid" where
  "valid_program_pids p =
     (if \<not> prog_pid_val_isvalid (pt_out (pmt (info p)))
         \<or> \<not> prog_pid_val_isvalid (pt_out (pcr (info p)))
      then enm_prog_pid_val_err
      else if \<not> list_all (\<lambda>e. data_out_ok (pt_out e)) (es_data (info p)) then enm_prog_pid_val_err
      else if \<not> pid_relation_ok (prog_entries (info p)) then enm_prog_pid_other_other
      else enm_prog_pid_valid)"

definition is_prog_pidsel_in_program :: "u16 \<Rightarrow> prog_info_t \<Rightarrow> enm_prog_pid_invalid" where
  "is_prog_pidsel_in_program npid p =
     (if prog_pid_val_isvalid npid
         \<and> list_ex (\<lambda>e. npid = pt_out e) (prog_entries (info p))
      then enm_prog_pid_program else enm_prog_pid_valid)"

definition program_mapped_pid_count :: "prog_info_t \<Rightarrow> nat" where
  "program_mapped_pid_count p =
     1 + length (filter (\<lambda>e. pt_in (pcr (info p)) \<noteq> pt_in e \<and> prog_pid_val_isvalid (pt_in e))
                   (es_data (info p)))"

definition channel_row :: "fp_state \<Rightarrow> nat \<Rightarrow> prog_info_t list" where
  "channel_row s c = take PROGRAM_MAX_NUM (drop (c * PROGRAM_MAX_NUM) (g_prog_info_table s))"

definition channel_mapped_pid_count :: "fp_state \<Rightarrow> nat \<Rightarrow> nat" where
  "channel_mapped_pid_count s nselchn =
     sum_list (map program_mapped_pid_count (filter FP_PROG_SELECTED (channel_row s nselchn)))"

definition program_selected_count :: "fp_state \<Rightarrow> nat" where
  "program_selected_count s = length (filter FP_PROG_SELECTED (g_prog_info_table s))"

section \<open>Selecting\<close>

text \<open>
  \<^verbatim>\<open>check_and_select_program\<close>: \<open>old_prog\<close> is \<open>None\<close> for the null pointer of the
  automatic path. The result is the returned flag and the new program table; the outer
  \<open>option\<close> is an access outside an array.
\<close>

definition restore_status :: "bool \<Rightarrow> nat \<Rightarrow> fp_state \<Rightarrow> fp_state option" where
  "restore_status old_status prog_idx s =
     do {
       p \<leftarrow> prog_at s prog_idx;
       Some (set_prog_at s prog_idx (if old_status then FP_SELECT_PROG p else FP_DESELECT_PROG p))
     }"

definition check_and_select_program ::
  "nat \<Rightarrow> prog_info_t \<Rightarrow> prog_info_t option \<Rightarrow> fp_state \<Rightarrow> (bool \<times> fp_state) option" where
  "check_and_select_program prog_idx sel_prog old_prog s =
     do {
       p \<leftarrow> prog_at s prog_idx;
       if FP_PROG_SELECTED p \<and> info sel_prog = info p then Some (True, s)
       else do {
         let old_status = FP_PROG_SELECTED p;
         let s1 = set_prog_at s prog_idx (FP_DESELECT_PROG p);
         if program_selected_count s1 + 1 > PROGRAM_MAX_NUM
            \<or> valid_program_pids sel_prog \<noteq> enm_prog_pid_valid
            \<or> channel_mapped_pid_count s1 (prog_chan prog_idx) + program_mapped_pid_count sel_prog
                > FPGA_PID_MAP_TABLE_CHAN_PIDS
         then do { s2 \<leftarrow> restore_status old_status prog_idx s1; Some (False, s2) }
         else do {
           (ok, sel, s2) \<leftarrow> (case old_prog of
               Some old \<Rightarrow> do {
                 (ok, s2) \<leftarrow> check_user_output_pid old sel_prog prog_idx s1;
                 Some (ok, sel_prog, s2)
               }
             | None \<Rightarrow> do {
                 (sel, s2) \<leftarrow> fix_selected_program_output_pid sel_prog prog_idx True s1;
                 Some (True, sel, s2)
               });
           if ok then Some (True, set_prog_at s2 prog_idx (FP_SELECT_PROG sel))
           else do { s3 \<leftarrow> restore_status old_status prog_idx s2; Some (False, s3) }
         }
       }
     }"

definition prepare_program_output_pid ::
  "nat \<Rightarrow> prog_info_t \<Rightarrow> fp_state \<Rightarrow> (prog_info_t \<times> fp_state) option" where
  "prepare_program_output_pid prog_idx prog s =
     (if FP_PROG_SELECTED prog then Some (prog, s)
      else fix_selected_program_output_pid prog prog_idx False s)"

definition prog_present :: "fp_state \<Rightarrow> nat \<Rightarrow> bool" where
  "prog_present s prog_idx \<longleftrightarrow> prog_idx mod PROGRAM_MAX_NUM < chan_nprogs s (prog_chan prog_idx)"

definition fp_select_program :: "nat \<Rightarrow> fp_state \<Rightarrow> fp_state option" where
  "fp_select_program prog_idx s =
     do {
       prog \<leftarrow> prog_at s prog_idx;
       if \<not> prog_present s prog_idx then Some s
       else if FP_PROG_SELECTED prog then Some s
       else do {
         (ok, s') \<leftarrow> check_and_select_program prog_idx prog None s;
         Some s'
       }
     }"

definition fp_deselect_program :: "nat \<Rightarrow> fp_state \<Rightarrow> fp_state option" where
  "fp_deselect_program prog_idx s =
     do {
       prog \<leftarrow> prog_at s prog_idx;
       if \<not> prog_present s prog_idx then Some s
       else if \<not> FP_PROG_SELECTED prog then Some s
       else Some (set_prog_at s prog_idx (FP_DESELECT_PROG prog))
     }"

section \<open>What a step may change\<close>

text \<open>
  The loops over other programs only rewrite output PIDs: selection, input PIDs and the channel
  counts stay. \<open>same_shape\<close> is that frame.
\<close>

definition prog_shape :: "prog_info_t \<Rightarrow> bool \<times> u16 \<times> u16 list" where
  "prog_shape p = (FP_PROG_SELECTED p, pt_in (pmt (info p)), map pt_in (pcr_entries (info p)))"

definition same_shape :: "fp_state \<Rightarrow> fp_state \<Rightarrow> bool" where
  "same_shape s s' \<longleftrightarrow> g_chan_num s' = g_chan_num s
     \<and> map prog_shape (g_prog_info_table s') = map prog_shape (g_prog_info_table s)"

lemma same_shape_refl [simp]: "same_shape s s"
  by (simp add: same_shape_def)

lemma same_shape_trans: "same_shape s s' \<Longrightarrow> same_shape s' s'' \<Longrightarrow> same_shape s s''"
  by (simp add: same_shape_def)

lemma same_shape_length: "same_shape s s' \<Longrightarrow>
   length (g_prog_info_table s') = length (g_prog_info_table s)"
  by (auto simp: same_shape_def dest: map_eq_imp_length_eq)

lemma update_entries_ins [simp]: "map pt_in (update_entries p out sel es) = map pt_in es"
  by (induction es) auto

lemma update_entries_Nil [simp]: "update_entries p out sel es = [] \<longleftrightarrow> es = []"
  by (cases es) auto

lemma prog_shape_update [simp]: "prog_shape (update_program_out_pid p out q) = prog_shape q"
proof -
  have "pcr_entries (info q) \<noteq> []" by (simp add: pcr_entries_def)
  then show ?thesis
    by (simp add: prog_shape_def update_program_out_pid_def FP_PROG_SELECTED_def)
qed

lemma same_shape_set_prog_at:
  assumes "prog_at s i = Some p" "prog_shape q = prog_shape p"
  shows "same_shape s (set_prog_at s i q)"
proof -
  from assms(1) have "map prog_shape (g_prog_info_table s) ! i = prog_shape p"
    and "i < length (g_prog_info_table s)"
    by (auto simp: prog_at_def split: if_splits)
  then have "(map prog_shape (g_prog_info_table s))[i := prog_shape p]
      = map prog_shape (g_prog_info_table s)"
    by (metis list_update_id)
  then show ?thesis using assms(2) by (simp add: same_shape_def set_prog_at_def map_update)
qed

lemma update_channel_same_shape:
  assumes "update_channel_other_program_out_pid idx p out s = Some s'"
  shows "same_shape s s'"
proof -
  have "same_shape s t" if "same_shape s u" "(if idx = prog_index (prog_chan idx) k then Some u
          else do { q \<leftarrow> prog_at u (prog_index (prog_chan idx) k);
                    Some (set_prog_at u (prog_index (prog_chan idx) k)
                            (update_program_out_pid p out q)) }) = Some t" for u k t
    using that same_shape_trans same_shape_set_prog_at
    by (fastforce simp: bind_Some_iff split: if_splits)
  from foldM_invariant [where P = "same_shape s", OF same_shape_refl
      assms [unfolded update_channel_other_program_out_pid_def Let_def]] this
  show ?thesis by blast
qed

lemma check_entries_same_shape:
  "check_entries idx es t s = Some (ok, s') \<Longrightarrow> same_shape s s'"
proof (induction es arbitrary: t s)
  case (Cons p es)
  obtain e old_e where p: "p = (e, old_e)" by (cases p)
  show ?case
    using Cons.prems Cons.IH unfolding p
    by (auto simp: bind_Some_iff split: if_splits
        intro: same_shape_trans dest!: update_channel_same_shape)
qed simp

lemma check_user_same_shape:
  "check_user_output_pid old sel idx s = Some (ok, s') \<Longrightarrow> same_shape s s'"
  by (auto simp: check_user_output_pid_def bind_Some_iff Let_def split: if_splits
      dest: check_entries_same_shape)

lemma fix_entries_shape:
  "fix_entries idx d es t s = Some (es', s') \<Longrightarrow> map pt_in es' = map pt_in es \<and> same_shape s s'"
proof (induction es arbitrary: t s es')
  case (Cons e es)
  show ?case
    using Cons.prems Cons.IH
    by (auto simp: bind_Some_iff split: if_splits
        intro: same_shape_trans dest!: update_channel_same_shape)
qed simp

lemma fix_selected_shape:
  assumes "fix_selected_program_output_pid p idx d s = Some (q, s')"
  shows "prog_shape q = prog_shape p" "same_shape s s'"
proof -
  from assms obtain t es out where es: "fix_entries idx d (pcr_entries (info p)) t s = Some (es, s')"
    and q: "q = p\<lparr> info := set_pcr_entries es ((info p)\<lparr> pmt := (pmt (info p))\<lparr> pt_out := out \<rparr> \<rparr>) \<rparr>"
    by (auto simp: fix_selected_program_output_pid_def bind_Some_iff Let_def)
  from fix_entries_shape [OF es] have "map pt_in es = map pt_in (pcr_entries (info p))"
    and s: "same_shape s s'" by simp_all
  moreover from this(1) have "es \<noteq> []" by (auto simp: pcr_entries_def)
  ultimately show "prog_shape q = prog_shape p" "same_shape s s'"
    by (simp_all add: q prog_shape_def FP_PROG_SELECTED_def)
qed

section \<open>The limits of the multiplex\<close>

text \<open>Both counts are sums of weights that depend on the shape of the programs alone.\<close>

definition shape_count :: "bool \<times> u16 \<times> u16 list \<Rightarrow> nat" where
  "shape_count = (\<lambda>(sel, m, ps). if sel then
     1 + length (filter (\<lambda>x. hd ps \<noteq> x \<and> prog_pid_val_isvalid x) (tl ps)) else 0)"

definition shape_selected :: "bool \<times> u16 \<times> u16 list \<Rightarrow> nat" where
  "shape_selected = (\<lambda>(sel, m, ps). of_bool sel)"

lemma shape_selected_prog: "shape_selected (prog_shape p) = of_bool (FP_PROG_SELECTED p)"
  by (simp add: shape_selected_def prog_shape_def)

lemma shape_count_prog:
  "shape_count (prog_shape p) = (if FP_PROG_SELECTED p then program_mapped_pid_count p else 0)"
  by (simp add: shape_count_def prog_shape_def program_mapped_pid_count_def pcr_entries_def
      filter_map comp_def)

lemma selected_count_shape:
  "program_selected_count s = sum_list (map shape_selected (map prog_shape (g_prog_info_table s)))"
proof -
  have "length (filter FP_PROG_SELECTED ps) = sum_list (map shape_selected (map prog_shape ps))" for ps
    by (induction ps) (simp_all add: shape_selected_def prog_shape_def)
  then show ?thesis by (simp add: program_selected_count_def)
qed

lemma channel_count_shape:
  "channel_mapped_pid_count s c =
     sum_list (map shape_count
       (take PROGRAM_MAX_NUM (drop (c * PROGRAM_MAX_NUM) (map prog_shape (g_prog_info_table s)))))"
proof -
  have "sum_list (map program_mapped_pid_count (filter FP_PROG_SELECTED ps))
      = sum_list (map shape_count (map prog_shape ps))" for ps
    by (induction ps) (simp_all add: shape_count_prog)
  then show ?thesis by (simp add: channel_mapped_pid_count_def channel_row_def take_map drop_map)
qed

definition admitted :: "fp_state \<Rightarrow> bool" where
  "admitted s \<longleftrightarrow> program_selected_count s \<le> PROGRAM_MAX_NUM
     \<and> (\<forall>c < CHANNEL_MAX_NUM. channel_mapped_pid_count s c \<le> FPGA_PID_MAP_TABLE_CHAN_PIDS)"

lemma admitted_same_shape: "same_shape s s' \<Longrightarrow> admitted s' \<longleftrightarrow> admitted s"
  by (simp add: same_shape_def admitted_def selected_count_shape channel_count_shape)

lemma sum_list_map_update:
  "i < length xs \<Longrightarrow> sum_list (map f (xs[i := y])) + f (xs ! i) = sum_list (map f xs) + (f y :: nat)"
proof (induction xs arbitrary: i)
  case (Cons x xs)
  then show ?case by (cases i) (auto simp: add.assoc add.commute add.left_commute)
qed simp

lemma take_drop_update:
  "take n (drop (c * n) (xs[i := y])) =
     (if i div n = c then (take n (drop (c * n) xs))[i mod n := y] else take n (drop (c * n) xs))"
  if "0 < n" for n :: nat
proof (intro nth_equalityI; simp split: if_splits, goal_cases)
  case (1 j)
  have "c * n + j = i \<longleftrightarrow> i div n = c \<and> i mod n = j"
    using 1 that by (auto simp: mult.commute intro: div_nat_eqI)
  moreover from 1 have "c * n \<le> length xs" "c * n + j < length xs" by linarith+
  ultimately show ?case using 1 by (auto simp: nth_list_update)
qed

lemma selected_count_update:
  "i < length (g_prog_info_table s) \<Longrightarrow>
   program_selected_count (set_prog_at s i q) + of_bool (FP_PROG_SELECTED (g_prog_info_table s ! i))
     = program_selected_count s + of_bool (FP_PROG_SELECTED q)"
  using sum_list_map_update [of i "map prog_shape (g_prog_info_table s)" shape_selected "prog_shape q"]
  by (simp add: selected_count_shape set_prog_at_def shape_selected_prog flip: map_update)

lemma channel_count_update:
  assumes "i < length (g_prog_info_table s)"
  shows "channel_mapped_pid_count (set_prog_at s i q) c
       + (if prog_chan i = c then shape_count (prog_shape (g_prog_info_table s ! i)) else 0)
     = channel_mapped_pid_count s c + (if prog_chan i = c then shape_count (prog_shape q) else 0)"
proof -
  let ?n = PROGRAM_MAX_NUM and ?xs = "map prog_shape (g_prog_info_table s)"
  have n: "0 < ?n" by (simp add: limit_simps)
  show ?thesis
  proof (cases "prog_chan i = c")
    case True
    then have c: "i div ?n = c" by (simp add: prog_chan_def)
    then have i: "c * ?n + i mod ?n = i" by (auto simp: mult.commute)
    with assms n have "i mod ?n < length (take ?n (drop (c * ?n) ?xs))" by auto
    moreover have "take ?n (drop (c * ?n) ?xs) ! (i mod ?n) = prog_shape (g_prog_info_table s ! i)"
      using assms n i by simp
    ultimately show ?thesis
      using sum_list_map_update [of "i mod ?n" "take ?n (drop (c * ?n) ?xs)" shape_count "prog_shape q"]
        True c
      by (simp add: channel_count_shape set_prog_at_def map_update take_drop_update [OF n])
  next
    case False
    then show ?thesis
      by (simp add: channel_count_shape set_prog_at_def map_update take_drop_update [OF n] prog_chan_def)
  qed
qed

section \<open>Restoring after a refusal\<close>

lemma select_deselect_id:
  "FP_PROG_SELECTED p \<Longrightarrow> FP_SELECT_PROG (FP_DESELECT_PROG p) = p"
  "\<not> FP_PROG_SELECTED p \<Longrightarrow> FP_DESELECT_PROG (FP_DESELECT_PROG p) = p"
proof -
  have 1: "(w AND NOT 1) OR 1 = w" if "has_flag w 1" for w :: u8
    using that unfolding byte_simps by (intro bit_word_eqI) (auto simp: bit_simps)
  have 0: "w AND NOT 1 = w" if "\<not> has_flag w 1" for w :: u8
    using that unfolding byte_simps by (intro bit_word_eqI) (auto simp: bit_simps intro!: gr0I)
  show "FP_PROG_SELECTED p \<Longrightarrow> FP_SELECT_PROG (FP_DESELECT_PROG p) = p"
    "\<not> FP_PROG_SELECTED p \<Longrightarrow> FP_DESELECT_PROG (FP_DESELECT_PROG p) = p"
    by (simp_all add: FP_PROG_SELECTED_def FP_SELECT_PROG_def FP_DESELECT_PROG_def
        FP_STATUS_SELECTED_def 1 [simplified] 0 [simplified])
qed

lemma restore_deselected:
  assumes "prog_at s i = Some p"
    and "restore_status (FP_PROG_SELECTED p) i (set_prog_at s i (FP_DESELECT_PROG p)) = Some s'"
  shows "s' = s"
  using assms
  by (auto simp: restore_status_def bind_Some_iff prog_at_def set_prog_at_def select_deselect_id
      split: if_splits)

lemma restore_shape:
  assumes "prog_at s i = Some p" "same_shape (set_prog_at s i (FP_DESELECT_PROG p)) s2"
    and "restore_status (FP_PROG_SELECTED p) i s2 = Some s'"
  shows "same_shape s s'"
proof -
  let ?d = "FP_DESELECT_PROG p"
  from assms(1) have i: "i < length (g_prog_info_table s)" "g_prog_info_table s ! i = p"
    by (auto simp: prog_at_def split: if_splits)
  from assms(2) have shape: "map prog_shape (g_prog_info_table s2)
      = (map prog_shape (g_prog_info_table s))[i := prog_shape ?d]"
    and nums: "g_chan_num s2 = g_chan_num s"
    by (simp_all add: same_shape_def set_prog_at_def map_update)
  with i have i2: "i < length (g_prog_info_table s2)" by (metis length_list_update length_map)
  with shape i have q: "prog_shape (g_prog_info_table s2 ! i) = prog_shape ?d"
    by (metis length_map nth_list_update_eq nth_map)
  define r where "r = (if FP_PROG_SELECTED p then FP_SELECT_PROG (g_prog_info_table s2 ! i)
                       else FP_DESELECT_PROG (g_prog_info_table s2 ! i))"
  from q have "prog_shape r = prog_shape p"
    by (auto simp: r_def prog_shape_def)
  moreover from assms(3) i2 have "s' = set_prog_at s2 i r"
    by (auto simp: restore_status_def bind_Some_iff prog_at_def r_def)
  ultimately show ?thesis
    using shape nums i
    by (simp add: same_shape_def set_prog_at_def map_update list_update_same_conv)
qed

text \<open>Every way \<^verbatim>\<open>check_and_select_program\<close> can return.\<close>

lemma check_and_select_cases:
  assumes "check_and_select_program idx sel old s = Some (ok, s')" "prog_at s idx = Some p"
  obtains (same) "ok" "s' = s" "FP_PROG_SELECTED p" "info sel = info p"
  | (refused) "\<not> ok" "s' = s"
  | (user_refused) old_p where "\<not> ok" "old = Some old_p" "same_shape s s'"
  | (accepted) sel' s1 s2 where "ok" "s1 = set_prog_at s idx (FP_DESELECT_PROG p)" "same_shape s1 s2"
      "prog_shape sel' = prog_shape sel" "s' = set_prog_at s2 idx (FP_SELECT_PROG sel')"
      "program_selected_count s1 + 1 \<le> PROGRAM_MAX_NUM"
      "valid_program_pids sel = enm_prog_pid_valid"
      "channel_mapped_pid_count s1 (prog_chan idx) + program_mapped_pid_count sel
         \<le> FPGA_PID_MAP_TABLE_CHAN_PIDS"
      "old = None \<Longrightarrow> fix_selected_program_output_pid sel idx True s1 = Some (sel', s2)"
      "old \<noteq> None \<Longrightarrow> sel' = sel"
proof -
  let ?s1 = "set_prog_at s idx (FP_DESELECT_PROG p)"
  consider (s) "FP_PROG_SELECTED p" "info sel = info p"
    | (l) "\<not> (FP_PROG_SELECTED p \<and> info sel = info p)"
      "program_selected_count ?s1 + 1 > PROGRAM_MAX_NUM
        \<or> valid_program_pids sel \<noteq> enm_prog_pid_valid
        \<or> channel_mapped_pid_count ?s1 (prog_chan idx) + program_mapped_pid_count sel
            > FPGA_PID_MAP_TABLE_CHAN_PIDS"
    | (g) "\<not> (FP_PROG_SELECTED p \<and> info sel = info p)"
      "\<not> (program_selected_count ?s1 + 1 > PROGRAM_MAX_NUM
        \<or> valid_program_pids sel \<noteq> enm_prog_pid_valid
        \<or> channel_mapped_pid_count ?s1 (prog_chan idx) + program_mapped_pid_count sel
            > FPGA_PID_MAP_TABLE_CHAN_PIDS)"
    by blast
  then show thesis
  proof cases
    case s
    with assms show thesis by (intro same) (simp_all add: check_and_select_program_def)
  next
    case l
    with assms obtain "\<not> ok" and r: "restore_status (FP_PROG_SELECTED p) idx ?s1 = Some s'"
      unfolding check_and_select_program_def by (auto simp: Let_def bind_Some_iff)
    from refused [OF this(1) restore_deselected [OF assms(2) r]] show thesis .
  next
    case g
    note body = assms(1) [unfolded check_and_select_program_def assms(2) Option.bind.bind_lunit Let_def
        if_not_P [OF g(1)] if_not_P [OF g(2)]]
    from g(2) have lim: "program_selected_count ?s1 + 1 \<le> PROGRAM_MAX_NUM"
      "valid_program_pids sel = enm_prog_pid_valid"
      "channel_mapped_pid_count ?s1 (prog_chan idx) + program_mapped_pid_count sel
         \<le> FPGA_PID_MAP_TABLE_CHAN_PIDS"
      by auto
    show thesis
    proof (cases old)
      case None
      with body obtain sel' s2 where f: "fix_selected_program_output_pid sel idx True ?s1 = Some (sel', s2)"
        and r: "ok" "s' = set_prog_at s2 idx (FP_SELECT_PROG sel')"
        by (auto simp: bind_Some_iff)
      show thesis
        by (rule accepted [OF r(1) refl fix_selected_shape(2) [OF f] fix_selected_shape(1) [OF f]
              r(2) lim f]) (simp add: None)
    next
      case (Some old_p)
      with body obtain ok' s2 where u: "check_user_output_pid old_p sel idx ?s1 = Some (ok', s2)"
        and r: "if ok' then ok \<and> s' = set_prog_at s2 idx (FP_SELECT_PROG sel)
                else \<not> ok \<and> restore_status (FP_PROG_SELECTED p) idx s2 = Some s'"
        by (auto simp: bind_Some_iff split: if_splits)
      note shape = check_user_same_shape [OF u]
      show thesis
      proof (cases ok')
        case True
        with r have "ok" "s' = set_prog_at s2 idx (FP_SELECT_PROG sel)" by simp_all
        from accepted [OF this(1) refl shape refl this(2) lim] Some show thesis by simp
      next
        case False
        with r have "\<not> ok" and rs: "restore_status (FP_PROG_SELECTED p) idx s2 = Some s'" by simp_all
        from user_refused [OF this(1) Some restore_shape [OF assms(2) shape rs]] show thesis .
      qed
    qed
  qed
qed

section \<open>Properties\<close>

text \<open>A selection the board itself makes either is refused and leaves the program table exactly
  as it was, or succeeds: the limits and the PIDs were checked, and the table then holds the program
  selected, with the input PIDs it had.\<close>

theorem check_and_select_outcome:
  assumes "check_and_select_program i new None s = Some (ok, s')"
  shows "if ok
    then (\<exists>q. prog_at s' i = Some q \<and> FP_PROG_SELECTED q
            \<and> map pt_in (prog_entries (info q)) = map pt_in (prog_entries (info new)))
    else s' = s"
proof -
  from assms obtain p where p: "prog_at s i = Some p"
    by (auto simp: check_and_select_program_def bind_Some_iff)
  from assms p show ?thesis
  proof (cases rule: check_and_select_cases)
    case same
    with p show ?thesis by simp
  next
    case (accepted sel' s1 s2)
    from p accepted(2) same_shape_length [OF accepted(3)] have "i < length (g_prog_info_table s2)"
      by (auto simp: prog_at_def split: if_splits)
    then have "prog_at s' i = Some (FP_SELECT_PROG sel')"
      using accepted(5) by (simp add: prog_at_set_prog_at)
    moreover have "map pt_in (prog_entries (info sel')) = map pt_in (prog_entries (info new))"
      using accepted(4) by (simp add: prog_shape_def prog_entries_def pcr_entries_def)
    ultimately show ?thesis using accepted(1) by simp
  qed simp_all
qed

lemma example_refused:
  "check_and_select_program 0 ((example_prog 0)\<lparr> info := example_info\<lparr> pmt := pad_entry \<rparr> \<rparr>) None
     (example_state 0) = Some (False, example_state 0)"
proof -
  let ?new = "(example_prog 0)\<lparr> info := example_info\<lparr> pmt := pad_entry \<rparr> \<rparr>"
  have bad: "valid_program_pids ?new \<noteq> enm_prog_pid_valid"
    by (simp add: valid_program_pids_def pad_entry_def prog_pid_val_isvalid_def defProgPidMin_def
        DATA_PID_PAD_VALUE_def)
  have unsel: "\<not> FP_PROG_SELECTED (example_prog 0)" by (simp add: example_status)
  have len: "0 < length (g_prog_info_table (example_state 0))" by (simp add: example_state_def)
  have "prog_at (set_prog_at (example_state 0) 0 (FP_DESELECT_PROG (example_prog 0))) 0
      = Some (FP_DESELECT_PROG (example_prog 0))"
    using len by (simp add: prog_at_set_prog_at)
  then have restore: "restore_status False 0
      (set_prog_at (example_state 0) 0 (FP_DESELECT_PROG (example_prog 0))) = Some (example_state 0)"
    using restore_deselected [OF example_prog_at, of 0] unsel by (auto simp: restore_status_def)
  show ?thesis
    using bad unsel restore by (simp add: check_and_select_program_def example_prog_at)
qed

theorem check_and_select_outcome_witness:
  "\<exists>s'. check_and_select_program 0 ((example_prog 0)\<lparr> info := example_info\<lparr> pmt := pad_entry \<rparr> \<rparr>) None
     (example_state 0) = Some (False, s') \<and> s' = example_state 0"
  using check_and_select_outcome [OF example_refused] example_refused by simp

lemma pid_relation_ok_iff:
  "pid_relation_ok es \<longleftrightarrow> (\<forall>i j. i < j \<longrightarrow> j < length es \<longrightarrow>
     (pt_in (es ! i) = pt_in (es ! j) \<longleftrightarrow> pt_out (es ! i) = pt_out (es ! j)))"
proof -
  have "pid_relation_ok es = sorted_wrt (\<lambda>x y. pt_in x = pt_in y \<longleftrightarrow> pt_out x = pt_out y) es"
    by (induction es) (simp_all add: list_all_iff)
  then show ?thesis by (simp only: sorted_wrt_iff_nth_less)
qed



end
