(* ===== verification/Selection.thy ===== *)
theory Selection
  imports Validater
begin

text \<open>
  The program table as a state machine. A step selects or deselects a program from the board
  (\<^verbatim>\<open>fp_select_program\<close>, \<^verbatim>\<open>fp_deselect_program\<close>) or writes the parameters a
  user chose on the front panel, as the write branch of \<^verbatim>\<open>cmd_program_info_handler\<close> does. A
  run starts from a table with nothing selected, which is what a new analysis leaves.
\<close>

section \<open>Steps\<close>

inductive fp_step :: "fp_state \<Rightarrow> fp_state \<Rightarrow> bool" where
  select: "fp_select_program i s = Some s' \<Longrightarrow> fp_step s s'"
| deselect: "fp_deselect_program i s = Some s' \<Longrightarrow> fp_step s s'"
| user_write: "check_and_select_program i new (Some old) s = Some (ok, s') \<Longrightarrow> fp_step s s'"

inductive fp_reachable :: "fp_state \<Rightarrow> bool" where
  init: "\<forall>p \<in> set (g_prog_info_table s). \<not> FP_PROG_SELECTED p \<Longrightarrow> fp_reachable s"
| step: "fp_reachable s \<Longrightarrow> fp_step s s' \<Longrightarrow> fp_reachable s'"

inductive_cases fp_stepE [elim]: "fp_step s s'"

lemma check_and_select_defined:
  "check_and_select_program i new old s = Some r \<Longrightarrow> \<exists>p. prog_at s i = Some p"
  by (auto simp: check_and_select_program_def bind_Some_iff)

text \<open>A table operation is one of the board's own two or one accepted or refused check.\<close>

lemma fp_select_cases:
  assumes "fp_select_program i s = Some s'"
  obtains (stay) "s' = s"
  | (check) p ok where "prog_at s i = Some p" "prog_present s i" "\<not> FP_PROG_SELECTED p"
      "check_and_select_program i p None s = Some (ok, s')"
  using assms by (auto simp: fp_select_program_def bind_Some_iff split: if_splits)

lemma fp_deselect_cases:
  assumes "fp_deselect_program i s = Some s'"
  obtains (stay) "s' = s"
  | (drop) p where "prog_at s i = Some p" "prog_present s i" "FP_PROG_SELECTED p"
      "s' = set_prog_at s i (FP_DESELECT_PROG p)"
  using assms by (auto simp: fp_deselect_program_def bind_Some_iff split: if_splits)

section \<open>The limits hold in every reachable state\<close>

lemma prog_at_SomeD: "prog_at s i = Some p \<Longrightarrow> i < length (g_prog_info_table s) \<and> g_prog_info_table s ! i = p"
  by (simp add: prog_at_def split: if_splits)

lemma deselect_counts:
  assumes "prog_at s i = Some p"
  shows "program_selected_count (set_prog_at s i (FP_DESELECT_PROG p)) \<le> program_selected_count s"
    and "channel_mapped_pid_count (set_prog_at s i (FP_DESELECT_PROG p)) c \<le> channel_mapped_pid_count s c"
proof -
  from prog_at_SomeD [OF assms] have i: "i < length (g_prog_info_table s)" "g_prog_info_table s ! i = p"
    by simp_all
  show "program_selected_count (set_prog_at s i (FP_DESELECT_PROG p)) \<le> program_selected_count s"
    using selected_count_update [OF i(1), of "FP_DESELECT_PROG p"] by simp
  show "channel_mapped_pid_count (set_prog_at s i (FP_DESELECT_PROG p)) c \<le> channel_mapped_pid_count s c"
    using channel_count_update [OF i(1), of "FP_DESELECT_PROG p" c]
    by (simp add: shape_count_prog split: if_splits)
qed

lemma admitted_deselect:
  "admitted s \<Longrightarrow> prog_at s i = Some p \<Longrightarrow> admitted (set_prog_at s i (FP_DESELECT_PROG p))"
  using deselect_counts by (meson admitted_def order_trans)

lemma shape_count_select:
  "prog_shape q = prog_shape p \<Longrightarrow> shape_count (prog_shape (FP_SELECT_PROG q)) = program_mapped_pid_count p"
proof -
  assume "prog_shape q = prog_shape p"
  then have "prog_shape (FP_SELECT_PROG q) = prog_shape (FP_SELECT_PROG p)"
    by (simp add: prog_shape_def)
  moreover have "program_mapped_pid_count (FP_SELECT_PROG p) = program_mapped_pid_count p"
    by (simp add: program_mapped_pid_count_def)
  ultimately show ?thesis by (simp add: shape_count_prog)
qed

lemma check_and_select_admitted:
  assumes "check_and_select_program i new old s = Some (ok, s')" "admitted s"
  shows "admitted s'"
proof -
  from check_and_select_defined [OF assms(1)] obtain p where p: "prog_at s i = Some p" by blast
  from assms(1) p show ?thesis
  proof (cases rule: check_and_select_cases)
    case same
    with assms(2) show ?thesis by simp
  next
    case refused
    with assms(2) show ?thesis by simp
  next
    case user_refused
    with assms(2) show ?thesis by (simp add: admitted_same_shape)
  next
    case (accepted sel' s1 s2)
    from admitted_deselect [OF assms(2) p] accepted(2) have s1: "admitted s1" by simp
    from prog_at_SomeD [OF p] accepted(2,3) have i: "i < length (g_prog_info_table s1)"
      "i < length (g_prog_info_table s2)"
      by (simp_all add: same_shape_length)
    have "map prog_shape (g_prog_info_table s2) ! i = map prog_shape (g_prog_info_table s1) ! i"
      using accepted(3) by (simp add: same_shape_def)
    then have "prog_shape (g_prog_info_table s2 ! i) = prog_shape (FP_DESELECT_PROG p)"
      using i prog_at_SomeD [OF p] by (simp add: accepted(2) set_prog_at_def)
    then have off: "\<not> FP_PROG_SELECTED (g_prog_info_table s2 ! i)"
      by (simp add: prog_shape_def)
    have counts: "program_selected_count s2 = program_selected_count s1"
      "channel_mapped_pid_count s2 c = channel_mapped_pid_count s1 c" for c
      using accepted(3) by (simp_all add: same_shape_def selected_count_shape channel_count_shape)
    have "program_selected_count s' \<le> PROGRAM_MAX_NUM"
      using selected_count_update [OF i(2), of "FP_SELECT_PROG sel'"] off counts accepted(5,6) by simp
    moreover have "channel_mapped_pid_count s' c \<le> FPGA_PID_MAP_TABLE_CHAN_PIDS"
      if "c < CHANNEL_MAX_NUM" for c
      using channel_count_update [OF i(2), of "FP_SELECT_PROG sel'" c] off counts(2) [of c] accepted(4,5,8)
        s1 that
      by (auto simp: admitted_def shape_count_select shape_count_prog [of "g_prog_info_table s2 ! i"]
          split: if_splits)
    ultimately show ?thesis by (simp add: admitted_def)
  qed
qed

lemma fp_step_admitted: "fp_step s s' \<Longrightarrow> admitted s \<Longrightarrow> admitted s'"
  by (auto elim!: fp_stepE fp_select_cases fp_deselect_cases
      dest: check_and_select_admitted admitted_deselect)

lemma unselected_admitted:
  assumes "\<forall>p \<in> set (g_prog_info_table s). \<not> FP_PROG_SELECTED p"
  shows "admitted s"
proof -
  have "filter FP_PROG_SELECTED (channel_row s c) = []" for c
    using assms by (auto simp: filter_empty_conv channel_row_def dest: in_set_takeD in_set_dropD)
  then show ?thesis
    using assms by (simp add: admitted_def program_selected_count_def channel_mapped_pid_count_def)
qed

lemma reachable_admitted: "fp_reachable s \<Longrightarrow> admitted s"
  by (induction rule: fp_reachable.induct) (auto intro: unselected_admitted fp_step_admitted)

section \<open>The selected programs\<close>

definition selected_at :: "fp_state \<Rightarrow> nat \<Rightarrow> nat \<Rightarrow> bool" where
  "selected_at s c k \<longleftrightarrow> (case prog_at s (prog_index c k) of Some q \<Rightarrow> FP_PROG_SELECTED q | None \<Rightarrow> False)"

definition selected_programs :: "fp_state \<Rightarrow> (nat \<times> nat) list" where
  "selected_programs s =
     concat (map (\<lambda>c. map (Pair c) (filter (selected_at s c) [0..<chan_nprogs s c])) [0..<CHANNEL_MAX_NUM])"

lemma selected_programs_iff:
  "(c, k) \<in> set (selected_programs s) \<longleftrightarrow> (\<exists>q. sel_prog_at s c k q)"
proof -
  have "(c, k) \<in> set (selected_programs s)
      \<longleftrightarrow> c < CHANNEL_MAX_NUM \<and> k < chan_nprogs s c \<and> selected_at s c k"
    by (auto simp: selected_programs_def image_iff)
  then show ?thesis by (auto simp: selected_at_def sel_prog_at_def split: option.splits)
qed

lemma distinct_selected_programs: "distinct (selected_programs s)"
  unfolding selected_programs_def by (rule distinct_concat_Pair) simp_all

lemma selected_programs_bound:
  assumes "fp_bounded s"
  shows "length (selected_programs s) \<le> program_selected_count s"
proof -
  let ?ix = "\<lambda>(c, k). prog_index c k"
  have range: "c < CHANNEL_MAX_NUM \<and> k < PROGRAM_MAX_NUM" if "(c, k) \<in> set (selected_programs s)" for c k
    using that assms
    by (auto simp: selected_programs_iff sel_prog_at_def fp_bounded_def intro: order_less_le_trans)
  have "inj_on ?ix (set (selected_programs s))"
    by (rule inj_onI) (use range prog_index_inj in fastforce)
  then have "length (selected_programs s) = card (?ix ` set (selected_programs s))"
    by (simp add: card_image distinct_card distinct_selected_programs)
  also have "\<dots> \<le> card {i. i < length (g_prog_info_table s) \<and> FP_PROG_SELECTED (g_prog_info_table s ! i)}"
    by (rule card_mono)
       (auto simp: selected_programs_iff sel_prog_at_def dest: prog_at_SomeD)
  also have "\<dots> = program_selected_count s"
    by (simp add: program_selected_count_def length_filter_conv_card)
  finally show ?thesis .
qed

section \<open>The tables keep their form\<close>

lemma info_wf_update: "info_wf (info q) \<Longrightarrow> info_wf (info (update_program_out_pid p x q))"
proof -
  assume "info_wf (info q)"
  moreover have "length (update_entries p x sel es) = length es" for sel es
    by (rule map_eq_imp_length_eq [OF update_entries_ins])
  ultimately show ?thesis
    by (simp add: info_wf_def update_program_out_pid_def set_pcr_entries_def pcr_entries_def)
qed

lemma shape_info_wf:
  "prog_shape q = prog_shape p \<Longrightarrow> info_wf (info q) \<longleftrightarrow> info_wf (info p)"
  by (auto simp: prog_shape_def info_wf_def pcr_entries_def dest: map_eq_imp_length_eq)

lemma same_shape_wf: "same_shape s s' \<Longrightarrow> fp_wf s \<Longrightarrow> fp_wf s'"
proof -
  assume a: "same_shape s s'" and wf: "fp_wf s"
  have "info_wf (info p)" if "p \<in> set (g_prog_info_table s')" for p
  proof -
    from that a have "prog_shape p \<in> prog_shape ` set (g_prog_info_table s)"
      by (metis image_eqI list.set_map same_shape_def)
    with wf show ?thesis by (auto simp: fp_wf_def dest: shape_info_wf)
  qed
  with a wf show ?thesis by (simp add: fp_wf_def same_shape_length) (simp add: same_shape_def)
qed

lemma same_shape_bounded: "same_shape s s' \<Longrightarrow> fp_bounded s' \<longleftrightarrow> fp_bounded s"
  by (simp add: same_shape_def fp_bounded_def chan_nprogs_def)

section \<open>Properties\<close>

text \<open>C4: Whatever programs the board selects and deselects and whatever a user writes on the front
  panel, the multiplex never has more than 64 programs and no channel more mapped PIDs than the 32
  its row of the FPGA table holds.\<close>

theorem fp_reachable_limits:
  assumes "fp_reachable s" and "c < CHANNEL_MAX_NUM"
  shows "program_selected_count s \<le> PROGRAM_MAX_NUM
       \<and> channel_mapped_pid_count s c \<le> FPGA_PID_MAP_TABLE_CHAN_PIDS"
  using reachable_admitted [OF assms(1)] assms(2) by (simp add: admitted_def)

theorem fp_reachable_limits_witness:
  "program_selected_count (example_state 0) \<le> PROGRAM_MAX_NUM
     \<and> channel_mapped_pid_count (example_state 0) 0 \<le> FPGA_PID_MAP_TABLE_CHAN_PIDS"
  by (rule fp_reachable_limits [OF fp_reachable.init [OF example_unselected]]) (simp add: limit_simps)

end
