(* ===== verification/OutPids.thy ===== *)
theory OutPids
  imports Selection
begin

text \<open>
  The output side of a selection: in every state the board reaches by selecting and deselecting
  programs, two sources of the multiplex have the same output PID only if they are the same source.
  The proof relates the table \<^verbatim>\<open>build_io_table\<close> computes to \<open>out_map\<close> of the
  selected programs and runs \<^verbatim>\<open>fix_selected_program_output_pid\<close> as a client of the
  assigner interface.
\<close>

section \<open>Sources\<close>

definition visible :: "fp_state \<Rightarrow> nat \<Rightarrow> nat \<Rightarrow> prog_info_t \<Rightarrow> bool" where
  "visible s c k q \<longleftrightarrow> c < CHANNEL_MAX_NUM \<and> k < chan_nprogs s c
     \<and> prog_at s (prog_index c k) = Some q"

lemma sel_prog_at_visible: "sel_prog_at s c k q \<longleftrightarrow> visible s c k q \<and> FP_PROG_SELECTED q"
  by (auto simp: sel_prog_at_def visible_def)

text \<open>
  What the input streams must look like: the PMT has a PID, no entry with a PID stands behind one
  without (the table builder stops at the first), and no elementary stream of a channel is on the
  PID of a PMT of that channel.
\<close>

definition streams_ok :: "fp_state \<Rightarrow> bool" where
  "streams_ok s \<longleftrightarrow> (\<forall>c k q. visible s c k q \<longrightarrow>
     prog_pid_val_isvalid (pt_in (pmt (info q)))
     \<and> visited_ins (prog_entries (info q))
         = filter prog_pid_val_isvalid (map pt_in (prog_entries (info q)))
     \<and> (\<forall>k' q' e. visible s c k' q' \<longrightarrow> e \<in> set (pcr_entries (info q')) \<longrightarrow>
           pt_in e \<noteq> pt_in (pmt (info q))))"

definition conflict_free :: "fp_state \<Rightarrow> bool" where
  "conflict_free s \<longleftrightarrow> (\<forall>x \<in> out_map s. \<forall>y \<in> out_map s. snd x = snd y \<longleftrightarrow> fst x = fst y)"

lemma out_map_EsD:
  assumes "(Es c p, x) \<in> out_map s"
  obtains k q e where "sel_prog_at s c k q" "e \<in> set (pcr_entries (info q))"
    "prog_pid_val_isvalid p" "pt_in e = p" "pt_out e = x"
  using assms by (auto simp: out_map_def prog_out_map_def)

lemma out_map_EsI:
  "sel_prog_at s c k q \<Longrightarrow> e \<in> set (pcr_entries (info q)) \<Longrightarrow> prog_pid_val_isvalid (pt_in e) \<Longrightarrow>
   (Es c (pt_in e), pt_out e) \<in> out_map s"
  unfolding out_map_def prog_out_map_def by blast

lemma out_map_PmtD:
  "(Pmt c k, x) \<in> out_map s \<Longrightarrow> \<exists>q. sel_prog_at s c k q \<and> x = pt_out (pmt (info q))"
  by (auto simp: out_map_def prog_out_map_def)

section \<open>The table holds the sources\<close>

lemma build_entry_origin:
  assumes "build_entry c sel i t e = Some t'" "is_selected (t' c' p)"
  shows "is_selected (t c' p) \<and> out_pid (t' c' p) = out_pid (t c' p)
    \<or> (c' = c \<and> sel \<and> pt_in e = p \<and> pt_out e = out_pid (t' c' p))"
  using assms
  by (auto simp: build_entry_def bind_Some_iff io_modify_Some_iff flag_simps split: if_splits)

lemma build_entries_origin:
  "build_entries c sel i t es = Some t' \<Longrightarrow> is_selected (t' c' p) \<Longrightarrow>
   is_selected (t c' p) \<and> out_pid (t' c' p) = out_pid (t c' p)
   \<or> (c' = c \<and> sel \<and> (\<exists>e \<in> set es. prog_pid_val_isvalid (pt_in e) \<and> pt_in e = p
        \<and> pt_out e = out_pid (t' c' p)))"
proof (induction c sel i t es rule: build_entries.induct)
  case (2 c sel i t e es)
  show ?case
  proof (cases "prog_pid_val_isvalid (pt_in e)")
    case True
    with "2.prems"(1) obtain t1 where t1: "build_entry c sel i t e = Some t1"
      "build_entries c sel (Suc i) t1 es = Some t'" by (auto simp: bind_Some_iff)
    from True have "\<not> \<not> prog_pid_val_isvalid (pt_in e)" by simp
    from "2.IH" [OF this t1 "2.prems"(2)] True build_entry_origin [OF t1(1), of c' p]
    show ?thesis by fastforce
  next
    case False
    with "2.prems" show ?thesis by simp
  qed
qed simp

text \<open>Whatever holds of the finished table and not of the empty one was put there by a program.\<close>

lemma build_io_table_trace:
  assumes "build_io_table s = Some t" "Q t" "\<not> Q io_empty"
    and step: "\<And>c sel t es t'. build_entries c sel 0 t es = Some t' \<Longrightarrow> Q t' \<Longrightarrow> Q t \<or> R c sel es"
  obtains c k q where "visible s c k q" "R c (FP_PROG_SELECTED q) (prog_entries (info q))"
proof -
  define P where "P t \<longleftrightarrow> (Q t \<longrightarrow> (\<exists>c k q. visible s c k q
      \<and> R c (FP_PROG_SELECTED q) (prog_entries (info q))))" for t
  have prog: "P t'" if "P t" "build_program s c t k = Some t'" "c < CHANNEL_MAX_NUM" "k < chan_nprogs s c"
    for t t' c k
    using that step unfolding build_program_def bind_Some_iff P_def visible_def by blast
  have "P t'" if "P t" "build_channel s t c = Some t'" "c < CHANNEL_MAX_NUM" for t t' c
    by (rule foldM_invariant [where P = P, OF that(1) that(2) [unfolded build_channel_def]])
       (use prog that(3) in auto)
  moreover have "P io_empty" using assms(3) by (simp add: P_def)
  ultimately have "P t"
    using foldM_invariant [where P = P, OF _ assms(1) [unfolded build_io_table_def]] by simp
  with assms(2) that show thesis unfolding P_def by blast
qed

lemma build_io_table_origin:
  assumes "build_io_table s = Some t" "is_selected (t c p)"
  obtains k q e where "sel_prog_at s c k q" "e \<in> set (prog_entries (info q))"
    "prog_pid_val_isvalid p" "pt_in e = p" "pt_out e = out_pid (t c p)"
proof -
  define Q where "Q u \<longleftrightarrow> is_selected (u c p) \<and> out_pid (u c p) = out_pid (t c p)" for u :: io_table
  define R where "R c' sel es \<longleftrightarrow> c = c' \<and> sel \<and> (\<exists>e \<in> set es. prog_pid_val_isvalid (pt_in e)
      \<and> pt_in e = p \<and> pt_out e = out_pid (t c p))" for c' sel and es :: "pid_trans_entry list"
  have step: "Q u \<or> R c' sel es" if "build_entries c' sel 0 v es = Some u'" "Q u'" "u = v"
    for c' sel v es u' u
    using build_entries_origin [OF that(1), of c p] that(2,3) by (auto simp: Q_def R_def)
  obtain c' k q where "visible s c' k q" "R c' (FP_PROG_SELECTED q) (prog_entries (info q))"
    by (rule build_io_table_trace [where Q = Q and R = R, OF assms(1) _ _ step])
       (use assms(2) in \<open>auto simp: Q_def\<close>)
  then show thesis using that by (auto simp: sel_prog_at_visible R_def)
qed

definition pmt_cover :: "io_table \<Rightarrow> nat \<Rightarrow> u16 \<Rightarrow> u16 \<Rightarrow> bool" where
  "pmt_cover t c p x \<longleftrightarrow>
     is_pmt (t c p) \<and> is_selected (t c p) \<and> out_pid (t c p) = x \<or> is_pmt_out (t c x)"

lemma build_entry_pmt_cover:
  assumes "build_entry c' sel i t e = Some t'"
  shows "pmt_cover t c p x \<Longrightarrow> pmt_cover t' c p x"
    "i = 0 \<Longrightarrow> sel \<Longrightarrow> pmt_cover t' c' (pt_in e) (pt_out e)"
  using assms
  by (auto simp: pmt_cover_def build_entry_def bind_Some_iff io_modify_Some_iff flag_simps
      split: if_splits)

lemma build_entries_pmt_cover:
  "build_entries c' sel i t es = Some t' \<Longrightarrow> pmt_cover t c p x \<Longrightarrow> pmt_cover t' c p x"
proof (induction es arbitrary: i t)
  case (Cons e es)
  then show ?case
    by (cases "prog_pid_val_isvalid (pt_in e)")
       (auto simp: bind_Some_iff dest: build_entry_pmt_cover(1))
qed simp

lemma build_entries_pmt_cover_first:
  assumes "build_entries c True 0 t (e # es) = Some t'" "prog_pid_val_isvalid (pt_in e)"
  shows "pmt_cover t' c (pt_in e) (pt_out e)"
  using assms build_entry_pmt_cover(2) [of c True 0 t e]
  by (auto simp: bind_Some_iff intro: build_entries_pmt_cover)

lemma build_program_pmt_cover:
  "build_program s c' t k = Some t' \<Longrightarrow> pmt_cover t c p x \<Longrightarrow> pmt_cover t' c p x"
  by (auto simp: build_program_def bind_Some_iff intro: build_entries_pmt_cover)

lemma build_channel_pmt_cover:
  "build_channel s t c' = Some t' \<Longrightarrow> pmt_cover t c p x \<Longrightarrow> pmt_cover t' c p x"
  unfolding build_channel_def
  by (rule foldM_invariant [where P = "\<lambda>t. pmt_cover t c p x"]) (auto intro: build_program_pmt_cover)

lemma build_io_table_pmt_cover:
  assumes "build_io_table s = Some t" "sel_prog_at s c k q" "prog_pid_val_isvalid (pt_in (pmt (info q)))"
  shows "pmt_cover t c (pt_in (pmt (info q))) (pt_out (pmt (info q)))"
proof -
  let ?P = "\<lambda>t. pmt_cover t c (pt_in (pmt (info q))) (pt_out (pmt (info q)))"
  from assms(2) have q: "c < CHANNEL_MAX_NUM" "k < chan_nprogs s c"
    "prog_at s (prog_index c k) = Some q" "FP_PROG_SELECTED q" by (auto simp: sel_prog_at_def)
  have prog: "?P v" if "build_program s c u k = Some v" for u v
    using that q(3,4) build_entries_pmt_cover_first [OF _ assms(3)]
    by (simp add: build_program_def prog_entries_def del: build_entries.simps)
  have chan: "?P v" if "build_channel s u c = Some v" for u v
    by (rule foldM_establish [OF that [unfolded build_channel_def], of k])
       (use q(2) prog build_program_pmt_cover in auto)
  show ?thesis
    by (rule foldM_establish [OF assms(1) [unfolded build_io_table_def], of c])
       (use q(1) chan build_channel_pmt_cover in auto)
qed

lemma pmt_cover_used:
  "pmt_cover t c p x \<Longrightarrow> c < CHANNEL_MAX_NUM \<Longrightarrow> p \<in> set pid_range \<Longrightarrow> x \<in> used_outs t"
  by (auto simp: pmt_cover_def used_outs_def)

section \<open>Lookups are the sources' outputs\<close>

definition es_of_channel :: "fp_state \<Rightarrow> nat \<Rightarrow> u16 \<Rightarrow> bool" where
  "es_of_channel s c p \<longleftrightarrow> (\<exists>k q e. visible s c k q \<and> e \<in> set (pcr_entries (info q)) \<and> pt_in e = p)"

lemma selected_es_out_map:
  assumes "build_io_table s = Some t" "streams_ok s" "is_selected (t c p)" "es_of_channel s c p"
  shows "(Es c p, out_pid (t c p)) \<in> out_map s"
proof -
  from build_io_table_origin [OF assms(1,3)] obtain k q e where
    e: "sel_prog_at s c k q" "e \<in> set (prog_entries (info q))" "prog_pid_val_isvalid p"
      "pt_in e = p" "pt_out e = out_pid (t c p)" .
  from e(1) have "visible s c k q" by (simp add: sel_prog_at_visible)
  with assms(2,4) e(4) have "pt_in e \<noteq> pt_in (pmt (info q))"
    by (auto simp: streams_ok_def es_of_channel_def)
  with e(2) have "e \<in> set (pcr_entries (info q))" by (auto simp: prog_entries_def pcr_entries_def)
  from out_map_EsI [OF e(1) this] e(3,4,5) show ?thesis by simp
qed

lemma out_map_lookup:
  assumes "build_io_table s = Some t" "streams_ok s" "conflict_free s" "(Es c p, x) \<in> out_map s"
  shows "is_selected (t c p)" "out_pid (t c p) = x" "c < CHANNEL_MAX_NUM" "p \<in> set pid_range"
proof -
  from assms(4) obtain k q e where e: "sel_prog_at s c k q" "e \<in> set (pcr_entries (info q))"
    "prog_pid_val_isvalid p" "pt_in e = p" "pt_out e = x" by (rule out_map_EsD)
  from e(1) have vis: "visible s c k q" and c: "c < CHANNEL_MAX_NUM" and sel: "FP_PROG_SELECTED q"
    by (auto simp: sel_prog_at_def visible_def)
  have "p \<in> set (visited_ins (prog_entries (info q)))"
    using assms(2) vis e(2,3,4) by (auto simp: streams_ok_def prog_entries_def pcr_entries_def)
  then show sel_t: "is_selected (t c p)"
    using build_io_table_selected [OF assms(1) c, of p] vis sel
    by (auto simp: channel_program_def visible_def)
  have "es_of_channel s c p" using vis e(2,4) by (auto simp: es_of_channel_def)
  from selected_es_out_map [OF assms(1,2) sel_t this] assms(3,4)
  show "out_pid (t c p) = x" by (force simp: conflict_free_def)
  show "c < CHANNEL_MAX_NUM" "p \<in> set pid_range" using c e(3) by (simp_all add: isvalid_iff_pid_range)
qed

lemma out_map_used:
  assumes "build_io_table s = Some t" "streams_ok s" "conflict_free s" "(\<kappa>, x) \<in> out_map s"
  shows "x \<in> used_outs t"
proof (cases \<kappa>)
  case (Es c p)
  with out_map_lookup [OF assms(1-3)] assms(4) show ?thesis
    unfolding used_outs_def by blast
next
  case (Pmt c k)
  with out_map_PmtD assms(4) obtain q where q: "sel_prog_at s c k q" "x = pt_out (pmt (info q))" by blast
  then have valid: "prog_pid_val_isvalid (pt_in (pmt (info q)))" and c: "c < CHANNEL_MAX_NUM"
    using assms(2) by (auto simp: streams_ok_def sel_prog_at_visible visible_def)
  from build_io_table_pmt_cover [OF assms(1) q(1) valid] c valid q(2) show ?thesis
    by (simp add: pmt_cover_used isvalid_iff_pid_range)
qed

section \<open>Other programs are left alone\<close>

lemma update_entries_id:
  "(\<And>e. e \<in> set es \<Longrightarrow> sel \<Longrightarrow> prog_pid_val_isvalid (pt_in e) \<Longrightarrow> pt_in e = p \<Longrightarrow> pt_out e = x) \<Longrightarrow>
   update_entries p x sel es = es"
proof (induction es)
  case (Cons e es)
  have "(if sel \<and> pt_in e = p then e\<lparr> pt_out := x \<rparr> else e) = e" if "prog_pid_val_isvalid (pt_in e)"
  proof (cases "sel \<and> pt_in e = p")
    case True
    with Cons.prems [of e] that have "pt_out e = x" by simp
    then have "e\<lparr> pt_out := x \<rparr> = e" by (cases e) simp
    with True show ?thesis by simp
  next
    case False
    then show ?thesis by (simp only: if_False)
  qed
  moreover have "update_entries p x sel es = es" 
    by (rule Cons.IH) (rule Cons.prems, simp_all)
  ultimately show ?case unfolding update_entries.simps by (simp only: if_cancel simp_thms) simp
qed simp

lemma update_program_id:
  assumes "\<And>e. e \<in> set (pcr_entries (info q)) \<Longrightarrow> FP_PROG_SELECTED q \<Longrightarrow>
      prog_pid_val_isvalid (pt_in e) \<Longrightarrow> pt_in e = p \<Longrightarrow> pt_out e = x"
  shows "update_program_out_pid p x q = q"
proof -
  have "update_entries p x (FP_PROG_SELECTED q) (pcr_entries (info q)) = pcr_entries (info q)"
    by (rule update_entries_id) (rule assms)
  then show ?thesis
    by (simp add: update_program_out_pid_def set_pcr_entries_def pcr_entries_def)
qed

lemma set_prog_at_id: "prog_at s i = Some q \<Longrightarrow> set_prog_at s i q = s"
  by (auto simp: prog_at_def set_prog_at_def split: if_splits)

lemma update_channel_id:
  assumes "update_channel_other_program_out_pid idx p x s = Some s'" "prog_chan idx < CHANNEL_MAX_NUM"
    and "\<And>y. (Es (prog_chan idx) p, y) \<in> out_map s \<Longrightarrow> y = x"
  shows "s' = s"
proof -
  let ?c = "prog_chan idx"
  note run = assms(1) [unfolded update_channel_other_program_out_pid_def Let_def]
  have "t = s" if "u = s" "k \<in> set [0..<chan_nprogs s ?c]"
    "(if idx = prog_index ?c k then Some u
      else do { q \<leftarrow> prog_at u (prog_index ?c k);
                Some (set_prog_at u (prog_index ?c k) (update_program_out_pid p x q)) }) = Some t"
    for u k t
  proof (cases "idx = prog_index ?c k")
    case True
    with that show ?thesis by simp
  next
    case False
    with that(3) obtain q where q: "prog_at u (prog_index ?c k) = Some q"
      and t: "t = set_prog_at u (prog_index ?c k) (update_program_out_pid p x q)"
      by (auto simp: bind_Some_iff)
    have "update_program_out_pid p x q = q"
    proof (rule update_program_id)
      fix e assume e: "e \<in> set (pcr_entries (info q))" "FP_PROG_SELECTED q"
        "prog_pid_val_isvalid (pt_in e)" "pt_in e = p"
      from q e(2) that(1,2) assms(2) have "sel_prog_at s ?c k q" by (simp add: sel_prog_at_def)
      from out_map_EsI [OF this e(1,3)] e(4) assms(3) show "pt_out e = x" by simp
    qed
    with t q that(1) show ?thesis by (simp add: set_prog_at_id)
  qed
  then show ?thesis
    by (intro foldM_invariant [where P = "\<lambda>u. u = s", OF refl run]) blast
qed

section \<open>The loop over the entries is a run of the assigner\<close>

abbreviation entry_pairs :: "pid_trans_entry list \<Rightarrow> (u16 \<times> u16) list" where
  "entry_pairs es \<equiv> map (\<lambda>e. (pt_in e, pt_out e)) (filter (\<lambda>e. prog_pid_val_isvalid (pt_in e)) es)"

lemma fix_entries_run:
  assumes "fix_entries idx d es t s = Some (es', s')"
    and "\<And>p y. (Es (prog_chan idx) p, y) \<in> out_map s \<Longrightarrow> io_lookup idx t p = Some y"
  shows "s' = s \<and> map pt_in es' = map pt_in es \<and> (\<exists>t'. io.run idx t (entry_pairs es') t')"
  using assms
proof (induction es arbitrary: t es' s')
  case Nil
  then show ?case by (auto intro!: exI [of _ t] io.run.nil)
next
  case (Cons e es)
  show ?case
  proof (cases "prog_pid_val_isvalid (pt_in e)")
    case False
    with Cons show ?thesis by (auto simp: bind_Some_iff)
  next
    case True
    let ?c = "prog_chan idx" and ?p = "pt_in e"
    from True Cons.prems(1) obtain x u s1 fs where x: "io_table_get_out_pid idx ?p t = Some x"
      and u: "io_table_set_pid idx ?p x t = Some u"
      and s1: "(if d then update_channel_other_program_out_pid idx ?p x s else Some s) = Some s1"
      and fs: "fix_entries idx d es u s1 = Some (fs, s')" and es': "es' = e\<lparr> pt_out := x \<rparr> # fs"
      by (auto simp: bind_Some_iff)
    from io_table_set_pid_Some(1) [OF u] have c: "?c < CHANNEL_MAX_NUM" .
    with True have key: "io_key_ok idx ?p" by (simp add: io_key_ok_def isvalid_iff_pid_range)
    have "s1 = s"
    proof (cases d)
      case True
      with s1 have "update_channel_other_program_out_pid idx ?p x s = Some s1" by simp
      from update_channel_id [OF this c] Cons.prems(2) io.get_known [OF key x]
      show ?thesis by blast
    qed (use s1 in simp)
    have keep: "io_lookup idx u p = Some y" if "(Es ?c p, y) \<in> out_map s" for p y
    proof -
      from that have "prog_pid_val_isvalid p" by (rule out_map_EsD)
      with c have "io_key_ok idx p" by (simp add: io_key_ok_def isvalid_iff_pid_range)
      from io.step_keeps(2) [OF key x u this Cons.prems(2) [OF that]] show ?thesis .
    qed
    from Cons.IH [OF fs [unfolded \<open>s1 = s\<close>] keep] obtain t' where
      "s' = s" "map pt_in fs = map pt_in es" "io.run idx u (entry_pairs fs) t'" by blast
    with io.run.assign [OF key x u] True es' show ?thesis by auto
  qed
qed

lemma set_pmt_pid_selected:
  assumes "io_table_set_pmt_pid idx p x t = Some t'" "is_selected (t (prog_chan idx) p)"
  shows "prog_chan idx < CHANNEL_MAX_NUM" "is_pmt_out (t' (prog_chan idx) x)"
    "is_selected (t' c q) = is_selected (t c q)" "out_pid (t' c q) = out_pid (t c q)"
    "is_pmt_out (t c q) \<Longrightarrow> is_pmt_out (t' c q)"
  using assms
  by (simp_all add: io_table_set_pmt_pid_def io_read_def io_modify_Some_iff flag_simps Let_def
      split: if_splits)

lemma set_pmt_pid_unselected:
  assumes "io_table_set_pmt_pid idx p x t = Some t'" "\<not> is_selected (t (prog_chan idx) p)"
  shows "prog_chan idx < CHANNEL_MAX_NUM" "is_selected (t' (prog_chan idx) p)"
    "out_pid (t' (prog_chan idx) p) = x" "(c, q) \<noteq> (prog_chan idx, p) \<Longrightarrow> t' c q = t c q"
    "is_pmt_out (t' c q) = is_pmt_out (t c q)"
  using assms
  by (auto simp: io_table_set_pmt_pid_def io_read_def io_modify_Some_iff flag_simps Let_def
      split: if_splits)

lemma set_pmt_pid_keeps:
  assumes "io_table_set_pmt_pid idx p x t = Some t'"
  shows "q \<noteq> p \<Longrightarrow> io_lookup idx t' q = io_lookup idx t q"
    "p \<in> set pid_range \<Longrightarrow> insert x (used_outs t) \<subseteq> used_outs t'"
proof -
  let ?c = "prog_chan idx"
  note sel = set_pmt_pid_selected [OF assms] and unsel = set_pmt_pid_unselected [OF assms]
  show "q \<noteq> p \<Longrightarrow> io_lookup idx t' q = io_lookup idx t q"
    by (cases "is_selected (t ?c p)") (simp_all add: io_lookup_def sel unsel(4))
  show "insert x (used_outs t) \<subseteq> used_outs t'" if "p \<in> set pid_range"
  proof
    fix y assume "y \<in> insert x (used_outs t)"
    then consider (new) "y = x"
      | (mapped) c q where "c < CHANNEL_MAX_NUM" "q \<in> set pid_range" "is_selected (t c q)" "y = out_pid (t c q)"
      | (pmt) c where "c < CHANNEL_MAX_NUM" "is_pmt_out (t c y)"
      by (auto simp: used_outs_def)
    then show "y \<in> used_outs t'"
    proof (cases, goal_cases)
      case 1
      show ?case
      proof (cases "is_selected (t ?c p)")
        case True
        with sel(1,2) 1 show ?thesis unfolding used_outs_def by blast
      next
        case False
        with unsel(1-3) 1 that show ?thesis unfolding used_outs_def by blast
      qed
    next
      case (2 c q)
      show ?case
      proof (cases "is_selected (t ?c p)")
        case True
        with sel(3,4) 2 have "is_selected (t' c q)" "y = out_pid (t' c q)" by simp_all
        with 2 used_outsI(1) [of c q t'] show ?thesis by simp
      next
        case False
        with 2 have "(c, q) \<noteq> (?c, p)" by auto
        with unsel(4) False have "t' c q = t c q" by blast
        with 2 used_outsI(1) [of c q t'] show ?thesis by simp
      qed
    next
      case (3 c)
      then have "is_pmt_out (t' c y)" using sel(5) unsel(5) by blast
      with 3 show ?case unfolding used_outs_def by blast
    qed
  qed
qed

section \<open>A selection adds sources without conflict\<close>

lemma get_pmt_out_pid_fresh:
  assumes "io_table_get_pmt_out_pid idx p t = Some x" "x \<noteq> NULL_PID"
  shows "x \<notin> used_outs t"
  using assms
  by (auto simp: io_table_get_pmt_out_pid_def bind_Some_iff io_read_def
      dest: is_out_pid_usable_fresh pick_free_pid_fresh split: if_splits)

lemma prog_chan_index [simp]:
  "k < PROGRAM_MAX_NUM \<Longrightarrow> prog_chan (prog_index c k) = c"
  by (simp add: prog_chan_def prog_index_def limit_simps)

lemma prog_out_map_entries:
  "prog_out_map c k i = insert (Pmt c k, pt_out (pmt i)) ((\<lambda>(p, x). (Es c p, x)) ` set (entry_pairs (pcr_entries i)))"
  by (auto simp: prog_out_map_def image_iff)

lemma fix_selected_run:
  assumes fixed: "fix_selected_program_output_pid q (prog_index c k) d s = Some (q', s')"
    and k: "k < PROGRAM_MAX_NUM" and str: "streams_ok s" and cf: "conflict_free s"
    and vis: "visible s c k q"
  obtains t t1 t2 where "build_io_table s = Some t" "s' = s"
    "io_table_get_pmt_out_pid (prog_index c k) (pt_in (pmt (info q))) t = Some (pt_out (pmt (info q')))"
    "insert (pt_out (pmt (info q'))) (used_outs t) \<subseteq> used_outs t1"
    "\<forall>p. p \<noteq> pt_in (pmt (info q)) \<longrightarrow> io_lookup (prog_index c k) t1 p = io_lookup (prog_index c k) t p"
    "io.run (prog_index c k) t1 (entry_pairs (pcr_entries (info q'))) t2"
    "map pt_in (pcr_entries (info q')) = map pt_in (pcr_entries (info q))"
proof -
  let ?idx = "prog_index c k" and ?pin = "pt_in (pmt (info q))"
  from fixed obtain t x t1 es where t: "build_io_table s = Some t"
    and x: "io_table_get_pmt_out_pid ?idx ?pin t = Some x"
    and t1: "io_table_set_pmt_pid ?idx ?pin x t = Some t1"
    and es: "fix_entries ?idx d (pcr_entries (info q)) t1 s = Some (es, s')"
    and q': "q' = q\<lparr> info := set_pcr_entries es ((info q)\<lparr> pmt := (pmt (info q))\<lparr> pt_out := x \<rparr> \<rparr>) \<rparr>"
    by (auto simp: fix_selected_program_output_pid_def bind_Some_iff Let_def)
  have pin: "?pin \<in> set pid_range"
    using str vis by (auto simp: streams_ok_def isvalid_iff_pid_range)
  note keep = set_pmt_pid_keeps [OF t1]
  have known: "io_lookup ?idx t1 p = Some y" if "(Es (prog_chan ?idx) p, y) \<in> out_map s" for p y
  proof -
    from that k have mem: "(Es c p, y) \<in> out_map s" by simp
    then obtain k' q2 e where "sel_prog_at s c k' q2" "e \<in> set (pcr_entries (info q2))" "pt_in e = p"
      by (rule out_map_EsD)
    with str vis have "p \<noteq> ?pin" unfolding streams_ok_def sel_prog_at_visible by blast
    with keep(1) out_map_lookup(1,2) [OF t str cf mem] k show ?thesis by (simp add: io_lookup_def)
  qed
  from fix_entries_run [OF es known] obtain t2 where
    r: "s' = s" "map pt_in es = map pt_in (pcr_entries (info q))" "io.run ?idx t1 (entry_pairs es) t2"
    by blast
  from r(2) have "es \<noteq> []" by (auto simp: pcr_entries_def)
  then have "pcr_entries (info q') = es" "pt_out (pmt (info q')) = x" by (simp_all add: q')
  with that [OF t r(1)] x keep pin r(2,3) show thesis by simp
qed

lemma fix_selected_new_source:
  assumes fixed: "fix_selected_program_output_pid q (prog_index c k) d s = Some (q', s')"
    and k: "k < PROGRAM_MAX_NUM" and str: "streams_ok s" and cf: "conflict_free s"
    and vis: "visible s c k q" and unsel: "\<not> FP_PROG_SELECTED q"
    and nn: "\<forall>x \<in> prog_out_map c k (info q'). snd x \<noteq> NULL_PID"
    and new: "x \<in> prog_out_map c k (info q')" and any: "y \<in> out_map s \<union> prog_out_map c k (info q')"
  shows "snd x = snd y \<longleftrightarrow> fst x = fst y"
proof -
  obtain t t1 t2 where
    t: "build_io_table s = Some t" "s' = s"
    and pmt: "io_table_get_pmt_out_pid (prog_index c k) (pt_in (pmt (info q))) t = Some (pt_out (pmt (info q')))"
    and used: "insert (pt_out (pmt (info q'))) (used_outs t) \<subseteq> used_outs t1"
    and lk: "\<forall>p. p \<noteq> pt_in (pmt (info q)) \<longrightarrow> io_lookup (prog_index c k) t1 p = io_lookup (prog_index c k) t p"
    and run: "io.run (prog_index c k) t1 (entry_pairs (pcr_entries (info q'))) t2"
    and ins: "map pt_in (pcr_entries (info q')) = map pt_in (pcr_entries (info q))"
    by (rule fix_selected_run [OF fixed k str cf vis])
  let ?new = "set (entry_pairs (pcr_entries (info q')))"
  have pmt_new: "pt_out (pmt (info q')) \<notin> used_outs t"
    using get_pmt_out_pid_fresh [OF pmt] nn by (auto simp: prog_out_map_entries)
  have es_new: "(Es c p, v) \<in> out_map s \<or> v \<notin> used_outs t1 \<and> (\<forall>w. (Es c p, w) \<notin> out_map s)"
    if "(p, v) \<in> ?new" for p v
  proof -
    from that have "p \<in> set (map pt_in (pcr_entries (info q')))" by auto
    with ins have "p \<in> set (map pt_in (pcr_entries (info q)))" by simp
    with vis have ch: "es_of_channel s c p" by (auto simp: es_of_channel_def)
    with str vis have p: "p \<noteq> pt_in (pmt (info q))"
      unfolding streams_ok_def es_of_channel_def by blast
    from that nn have "v \<noteq> NULL_PID" by (auto simp: prog_out_map_entries)
    from io.run_origin [OF run that this] lk p
    consider "io_lookup (prog_index c k) t p = Some v"
      | "io_lookup (prog_index c k) t p = None" "v \<notin> used_outs t1" by auto
    then show ?thesis
    proof cases
      case 1
      then have "is_selected (t c p)" "out_pid (t c p) = v"
        using k by (simp_all add: io_lookup_def split: if_splits)
      with selected_es_out_map [OF t(1) str _ ch] show ?thesis by simp
    next
      case 2
      then have "\<not> is_selected (t c p)" using k by (simp add: io_lookup_def split: if_splits)
      with out_map_lookup(1) [OF t(1) str cf] 2 show ?thesis by blast
    qed
  qed
  have old_used: "v \<in> used_outs t" "v \<in> used_outs t1" if "(\<kappa>, v) \<in> out_map s" for \<kappa> v
    using out_map_used [OF t(1) str cf that] used by auto
  have no_pmt: "(Pmt c k, v) \<notin> out_map s" for v
    using out_map_PmtD [of c k v s] vis unsel by (auto simp: sel_prog_at_visible visible_def)
  have cfD: "a = b \<longleftrightarrow> \<kappa> = \<kappa>'" if "(\<kappa>, a) \<in> out_map s" "(\<kappa>', b) \<in> out_map s" for \<kappa> \<kappa>' a b
    using cf that by (force simp: conflict_free_def)
  have es_es: "v = w \<longleftrightarrow> p = p'" if "(p, v) \<in> ?new" "(p', w) \<in> ?new" for p v p' w
  proof
    assume "v = w"
    show "p = p'"
    proof (rule ccontr)
      assume "p \<noteq> p'"
      from that(1) nn have "v \<noteq> NULL_PID" by (auto simp: prog_out_map_entries)
      from io.run_distinct [OF run that(1) _ \<open>p \<noteq> p'\<close> this] that(2) \<open>v = w\<close>
      have "io_lookup (prog_index c k) t1 p = Some v" "io_lookup (prog_index c k) t1 p' = Some v" by auto
      then have "v \<in> used_outs t1"
        using io.lookup_used io.run_key_ok [OF run that(1)] by blast
      with es_new that \<open>v = w\<close> have "(Es c p, v) \<in> out_map s" "(Es c p', v) \<in> out_map s" by blast+
      from cfD [OF this] \<open>p \<noteq> p'\<close> show False by simp
    qed
  next
    assume "p = p'"
    with io.run_lookup [OF run that(1)] io.run_lookup [OF run that(2)] show "v = w" by simp
  qed
  from new consider (pmt) "x = (Pmt c k, pt_out (pmt (info q')))"
    | (es) p v where "x = (Es c p, v)" "(p, v) \<in> ?new"
    by (auto simp: prog_out_map_entries)
  then show ?thesis
  proof cases
    case pmt
    from any consider "y \<in> out_map s" | "y = (Pmt c k, pt_out (pmt (info q')))"
      | p w where "y = (Es c p, w)" "(p, w) \<in> ?new"
      by (auto simp: prog_out_map_entries)
    then show ?thesis
    proof cases
      case 1
      with pmt pmt_new old_used(1) no_pmt show ?thesis by (cases y) auto
    next
      case 2
      with pmt show ?thesis by simp
    next
      case 3
      with es_new [OF 3(2)] pmt pmt_new old_used(1) used show ?thesis by auto
    qed
  next
    case es
    from any consider "y \<in> out_map s" | "y = (Pmt c k, pt_out (pmt (info q')))"
      | p w where "y = (Es c p, w)" "(p, w) \<in> ?new"
      by (auto simp: prog_out_map_entries)
    then show ?thesis
    proof cases
      case 1
      from es_new [OF es(2)] show ?thesis
      proof
        assume "(Es c p, v) \<in> out_map s"
        with cfD [of "Es c p" v "fst y" "snd y"] 1 es(1) show ?thesis by simp
      next
        assume "v \<notin> used_outs t1 \<and> (\<forall>w. (Es c p, w) \<notin> out_map s)"
        with old_used(2) [of "fst y" "snd y"] 1 es(1) show ?thesis by (cases y) auto
      qed
    next
      case 2
      with es_new [OF es(2)] es(1) pmt_new old_used(1) used show ?thesis by auto
    next
      case 3
      with es_es [OF es(2) 3(2)] es(1) show ?thesis by simp
    qed
  qed
qed

section \<open>There is always a free PID\<close>

definition blocked :: "io_table \<Rightarrow> u16 set" where
  "blocked t = {p. \<exists>c < CHANNEL_MAX_NUM. flags (t c p) \<noteq> 0} \<union> used_outs t"

definition input_pids :: "fp_state \<Rightarrow> u16 set" where
  "input_pids s = {p. \<exists>c k q. visible s c k q
     \<and> p \<in> set (filter prog_pid_val_isvalid (map pt_in (prog_entries (info q))))}"

lemma add_flags_nonzero: "flags (add_flags m e) \<noteq> 0 \<longleftrightarrow> m \<noteq> 0 \<or> flags e \<noteq> 0"
  by (auto simp: add_flags_def or_flag_nonzero)

lemma build_entry_touched:
  assumes "build_entry c sel i t e = Some t'"
  shows "flags (t' c' p) \<noteq> 0 \<Longrightarrow> flags (t c' p) \<noteq> 0 \<or> p = pt_in e \<or> sel \<and> p = pt_out e"
    "is_pmt_out (t' c' p) \<Longrightarrow> is_pmt_out (t c' p) \<or> sel \<and> p = pt_out e"
  using assms
  by (auto simp: build_entry_def bind_Some_iff io_modify_Some_iff flag_simps add_flags_nonzero
      split: if_splits)

lemma build_entries_touched:
  "build_entries c sel i t es = Some t' \<Longrightarrow>
   (flags (t' c' p) \<noteq> 0 \<longrightarrow> flags (t c' p) \<noteq> 0
      \<or> (\<exists>e \<in> set es. prog_pid_val_isvalid (pt_in e) \<and> (p = pt_in e \<or> sel \<and> p = pt_out e))) \<and>
   (is_pmt_out (t' c' p) \<longrightarrow> is_pmt_out (t c' p)
      \<or> (\<exists>e \<in> set es. prog_pid_val_isvalid (pt_in e) \<and> sel \<and> p = pt_out e))"
proof (induction es arbitrary: i t)
  case (Cons e es)
  show ?case
  proof (cases "prog_pid_val_isvalid (pt_in e)")
    case True
    with Cons.prems obtain t1 where t1: "build_entry c sel i t e = Some t1"
      "build_entries c sel (Suc i) t1 es = Some t'" by (auto simp: bind_Some_iff)
    from Cons.IH [OF t1(2)] build_entry_touched [OF t1(1), of c' p] True show ?thesis by auto
  qed (use Cons.prems in simp)
qed simp

lemma selected_out_in_map:
  assumes "visible s c k q" "FP_PROG_SELECTED q" "e \<in> set (prog_entries (info q))"
    "prog_pid_val_isvalid (pt_in e)"
  shows "pt_out e \<in> snd ` out_map s"
proof -
  from assms(1,2) have "prog_out_map c k (info q) \<subseteq> out_map s"
    unfolding out_map_def sel_prog_at_visible by blast
  with prog_out_map_covers [OF assms(3,4), of c k] show ?thesis by blast
qed

lemma used_outs_build:
  assumes "build_io_table s = Some t"
  shows "used_outs t \<subseteq> snd ` out_map s"
proof
  fix x assume "x \<in> used_outs t"
  then show "x \<in> snd ` out_map s"
  proof (cases rule: used_outsE)
    case (mapped c p)
    from build_io_table_origin [OF assms mapped(3)] show ?thesis
      using mapped(4) selected_out_in_map by (metis sel_prog_at_visible)
  next
    case (pmt c)
    define R where "R c' sel es \<longleftrightarrow> sel \<and> (\<exists>e \<in> set es. prog_pid_val_isvalid (pt_in e) \<and> x = pt_out e)"
      for c' :: nat and sel and es :: "pid_trans_entry list"
    have step: "is_pmt_out (v c x) \<or> R c' sel es"
      if "build_entries c' sel 0 v es = Some u" "is_pmt_out (u c x)" for c' sel v es u
      using build_entries_touched [OF that(1), of c x] that(2) by (auto simp: R_def)
    obtain c' k q where "visible s c' k q" "R c' (FP_PROG_SELECTED q) (prog_entries (info q))"
      by (rule build_io_table_trace [where Q = "\<lambda>u. is_pmt_out (u c x)" and R = R, OF assms], goal_cases)
         (simp add: pmt(2), simp, (use step in blast)+)
    with selected_out_in_map show ?thesis unfolding R_def by blast
  qed
qed

lemma blocked_build:
  assumes "build_io_table s = Some t"
  shows "blocked t \<subseteq> input_pids s \<union> snd ` out_map s"
proof
  fix x assume "x \<in> blocked t"
  then consider (flagged) c where "c < CHANNEL_MAX_NUM" "flags (t c x) \<noteq> 0" | (used) "x \<in> used_outs t"
    unfolding blocked_def by blast
  then show "x \<in> input_pids s \<union> snd ` out_map s"
  proof cases
    case flagged
    define R where "R c' sel es \<longleftrightarrow> (\<exists>e \<in> set es. prog_pid_val_isvalid (pt_in e)
        \<and> (x = pt_in e \<or> sel \<and> x = pt_out e))" for c' :: nat and sel and es :: "pid_trans_entry list"
    have step: "flags (v c x) \<noteq> 0 \<or> R c' sel es"
      if "build_entries c' sel 0 v es = Some u" "flags (u c x) \<noteq> 0" for c' sel v es u
      using build_entries_touched [OF that(1), of c x] that(2) unfolding R_def by blast
    obtain c' k q where vis: "visible s c' k q" and R: "R c' (FP_PROG_SELECTED q) (prog_entries (info q))"
      by (rule build_io_table_trace [where Q = "\<lambda>u. flags (u c x) \<noteq> 0" and R = R, OF assms], goal_cases)
         (simp add: flagged(2), simp add: io_empty_def, (use step in blast)+)
    from R obtain e where "e \<in> set (prog_entries (info q))" "prog_pid_val_isvalid (pt_in e)"
      "x = pt_in e \<or> FP_PROG_SELECTED q \<and> x = pt_out e" unfolding R_def by blast
    then show ?thesis
      using selected_out_in_map [OF vis] vis unfolding input_pids_def by auto
  next
    case used
    with used_outs_build [OF assms] show ?thesis by blast
  qed
qed

lemma pick_free_pid_exists:
  assumes "blocked t \<subseteq> B" "finite B" "card B < length pid_range"
  shows "pick_free_pid t \<noteq> NULL_PID"
proof -
  from find_None_pigeonhole [OF assms(2) distinct_pid_range assms(3)] obtain p where
    p: "p \<in> set pid_range" "p \<notin> blocked t" using assms(1) by blast
  then have "out_pid_is_free t p"
    by (auto simp: blocked_def out_pid_is_free_def out_pid_mapped_def list_all_iff intro: used_outsI)
  with p(1) show ?thesis
    by (cases t rule: pick_free_pid_cases) (auto simp: set_pid_range)
qed

lemma set_pid_blocked:
  assumes "io_table_set_pid idx p x t = Some u"
  shows "used_outs u \<subseteq> insert x (used_outs t)" "blocked u \<subseteq> insert p (insert x (blocked t))"
proof -
  note set = io_table_set_pid_Some [OF assms]
  show used: "used_outs u \<subseteq> insert x (used_outs t)"
  proof
    fix y assume "y \<in> used_outs u"
    then show "y \<in> insert x (used_outs t)"
    proof (cases rule: used_outsE)
      case (mapped c q)
      then show ?thesis
        using set(3,4) used_outsI(1) [of c q t] by (cases "(c, q) = (prog_chan idx, p)") auto
    next
      case (pmt c)
      then show ?thesis using set(5) used_outsI(2) [of c t y] by simp
    qed
  qed
  have "flags (t c q) \<noteq> 0 \<or> q = p" if "flags (u c q) \<noteq> 0" for c q
    using that set(4) [of c q] by (cases "(c, q) = (prog_chan idx, p)") auto
  with used show "blocked u \<subseteq> insert p (insert x (blocked t))"
    unfolding blocked_def by blast
qed

lemma set_pmt_pid_blocked:
  assumes "io_table_set_pmt_pid idx p x t = Some u"
  shows "used_outs u \<subseteq> insert x (used_outs t)" "blocked u \<subseteq> insert p (insert x (blocked t))"
proof -
  have flags: "flags (t c q) \<noteq> 0 \<or> q = p \<or> q = x" if "flags (u c q) \<noteq> 0" for c q
    using assms that
    by (auto simp: io_table_set_pmt_pid_def bind_Some_iff io_read_def io_modify_Some_iff Let_def
        split: if_splits)
  have pmt: "is_pmt_out (t c q) \<or> q = x" if "is_pmt_out (u c q)" for c q
    using assms that
    by (auto simp: io_table_set_pmt_pid_def bind_Some_iff io_read_def io_modify_Some_iff Let_def flag_simps
        split: if_splits)
  have mapped: "is_selected (t c q) \<and> out_pid (u c q) = out_pid (t c q) \<or> out_pid (u c q) = x"
    if "is_selected (u c q)" for c q
    using assms that
    by (auto simp: io_table_set_pmt_pid_def bind_Some_iff io_read_def io_modify_Some_iff Let_def flag_simps
        split: if_splits)
  show used: "used_outs u \<subseteq> insert x (used_outs t)"
  proof
    fix y assume "y \<in> used_outs u"
    then show "y \<in> insert x (used_outs t)"
    proof (cases rule: used_outsE)
      case m: (mapped c q)
      with mapped [OF m(3)] used_outsI(1) [of c q t] show ?thesis by auto
    next
      case p: (pmt c)
      with pmt [OF p(2)] used_outsI(2) [of c t y] show ?thesis by auto
    qed
  qed
  with flags show "blocked u \<subseteq> insert p (insert x (blocked t))" unfolding blocked_def by blast
qed

lemma valid_not_NULL: "prog_pid_val_isvalid p \<Longrightarrow> p \<noteq> NULL_PID"
  by (auto simp: isvalid_iff_pid_range set_pid_range)

lemma pick_free_pid_valid:
  "blocked t \<subseteq> B \<Longrightarrow> finite B \<Longrightarrow> card B < length pid_range \<Longrightarrow> prog_pid_val_isvalid (pick_free_pid t)"
  using pick_free_pid_exists by (cases t rule: pick_free_pid_cases) (auto simp: isvalid_iff_pid_range)

lemma get_out_pid_valid:
  assumes "io_table_get_out_pid idx p t = Some x" "prog_pid_val_isvalid p" "prog_chan idx < CHANNEL_MAX_NUM"
    and "\<forall>y \<in> used_outs t. prog_pid_val_isvalid y" "blocked t \<subseteq> B" "finite B" "card B < length pid_range"
  shows "prog_pid_val_isvalid x"
proof (cases "is_selected (t (prog_chan idx) p)")
  case True
  with assms(1) have "x = out_pid (t (prog_chan idx) p)"
    by (auto simp: io_table_get_out_pid_def bind_Some_iff io_read_def split: if_splits)
  with True assms(2-4) used_outsI(1) [of "prog_chan idx" p t] show ?thesis
    by (simp add: isvalid_iff_pid_range)
next
  case False
  with assms(1) have "x = p \<or> x = pick_free_pid t"
    by (auto simp: io_table_get_out_pid_def bind_Some_iff io_read_def split: if_splits)
  with pick_free_pid_valid [OF assms(5-7)] assms(2) show ?thesis by auto
qed

lemma get_pmt_out_pid_valid:
  assumes "io_table_get_pmt_out_pid idx p t = Some x" "prog_pid_val_isvalid p"
    and "blocked t \<subseteq> B" "finite B" "card B < length pid_range"
  shows "prog_pid_val_isvalid x"
proof -
  from assms(1) have "x = p \<or> x = pick_free_pid t"
    by (auto simp: io_table_get_pmt_out_pid_def bind_Some_iff io_read_def split: if_splits)
  with pick_free_pid_valid [OF assms(3-5)] assms(2) show ?thesis by auto
qed

lemma fix_entries_valid:
  assumes "fix_entries idx d es t s = Some (es', s')" "\<forall>y \<in> used_outs t. prog_pid_val_isvalid y"
    "blocked t \<subseteq> B" "finite B" "card B + length es < length pid_range"
    "\<And>e. e \<in> set es \<Longrightarrow> prog_pid_val_isvalid (pt_in e) \<Longrightarrow> pt_in e \<in> B"
  shows "\<forall>(p, x) \<in> set (entry_pairs es'). prog_pid_val_isvalid x"
  using assms
proof (induction es arbitrary: t s es' B)
  case (Cons e es)
  show ?case
  proof (cases "prog_pid_val_isvalid (pt_in e)")
    case False
    with Cons.prems(1) obtain fs where "fix_entries idx d es t s = Some (fs, s')" "es' = e # fs"
      by (auto simp: bind_Some_iff)
    with Cons.IH [OF this(1) Cons.prems(2-4)] Cons.prems(5,6) False show ?thesis by auto
  next
    case True
    from True Cons.prems(1) obtain x u s1 fs where x: "io_table_get_out_pid idx (pt_in e) t = Some x"
      and u: "io_table_set_pid idx (pt_in e) x t = Some u"
      and fs: "fix_entries idx d es u s1 = Some (fs, s')" and es': "es' = e\<lparr> pt_out := x \<rparr> # fs"
      by (auto simp: bind_Some_iff)
    have "card B < length pid_range" using Cons.prems(5) by simp
    from get_out_pid_valid [OF x True io_table_set_pid_Some(1) [OF u] Cons.prems(2-4) this]
    have nn: "prog_pid_val_isvalid x" .
    note bl = set_pid_blocked [OF u]
    have B: "\<forall>y \<in> used_outs u. prog_pid_val_isvalid y" "blocked u \<subseteq> insert x B" "finite (insert x B)"
      using bl Cons.prems(2-4,6) True nn by auto
    have "card (insert x B) + length es < length pid_range"
      using Cons.prems(4,5) by (simp add: card_insert_if)
    from Cons.IH [OF fs B this] Cons.prems(6) nn es' show ?thesis by auto
  qed
qed simp

section \<open>The board's steps\<close>

inductive board_step :: "fp_state \<Rightarrow> fp_state \<Rightarrow> bool" where
  select: "fp_select_program i s = Some s' \<Longrightarrow> board_step s s'"
| deselect: "fp_deselect_program i s = Some s' \<Longrightarrow> board_step s s'"

inductive_cases board_stepE [elim]: "board_step s s'"

text \<open>
  Selecting changes no input PID. \<open>input_bound\<close> leaves room for the outputs: at most 64 selected
  programs of 16 entries each, in the 8159 PIDs from \<^verbatim>\<open>0x20\<close> to \<^verbatim>\<open>NULL_PID - 1\<close>.
\<close>

definition input_bound :: nat where "input_bound = 7100"

definition board_ok :: "fp_state \<Rightarrow> bool" where
  "board_ok s \<longleftrightarrow> fp_wf s \<and> fp_bounded s \<and> admitted s \<and> streams_ok s
     \<and> finite (input_pids s) \<and> card (input_pids s) \<le> input_bound
     \<and> conflict_free s \<and> (\<forall>x \<in> out_map s. prog_pid_val_isvalid (snd x))"

definition same_ins :: "fp_state \<Rightarrow> fp_state \<Rightarrow> bool" where
  "same_ins s s' \<longleftrightarrow> g_chan_num s' = g_chan_num s
     \<and> map (snd \<circ> prog_shape) (g_prog_info_table s') = map (snd \<circ> prog_shape) (g_prog_info_table s)"

lemma prog_entries_ins: "map pt_in (prog_entries i) = pt_in (pmt i) # map pt_in (pcr_entries i)"
  by (simp add: prog_entries_def pcr_entries_def)

lemma same_ins_visible:
  assumes "same_ins s s'" "visible s' c k q"
  obtains p where "visible s c k p" "map pt_in (prog_entries (info p)) = map pt_in (prog_entries (info q))"
proof -
  let ?i = "prog_index c k"
  from assms have len: "length (g_prog_info_table s') = length (g_prog_info_table s)"
    by (auto simp: same_ins_def dest: map_eq_imp_length_eq)
  moreover from assms(2) have i: "?i < length (g_prog_info_table s')" "g_prog_info_table s' ! ?i = q"
    by (auto simp: visible_def dest: prog_at_SomeD)
  moreover from assms(1) have "map (snd \<circ> prog_shape) (g_prog_info_table s') ! ?i
      = map (snd \<circ> prog_shape) (g_prog_info_table s) ! ?i" by (simp add: same_ins_def)
  ultimately have "map pt_in (prog_entries (info (g_prog_info_table s ! ?i)))
      = map pt_in (prog_entries (info q))" by (simp add: prog_shape_def prog_entries_ins)
  moreover have "visible s c k (g_prog_info_table s ! ?i)"
    using assms len i by (simp add: visible_def prog_at_def same_ins_def chan_nprogs_def)
  ultimately show thesis using that by blast
qed

lemma same_ins_sym: "same_ins s s' \<Longrightarrow> same_ins s' s"
  by (simp add: same_ins_def)

lemma same_ins_streams:
  assumes "same_ins s s'" "streams_ok s"
  shows "streams_ok s'"
  unfolding streams_ok_def
proof (intro allI impI conjI)
  fix c k q assume "visible s' c k q"
  with assms(1) obtain p where p: "visible s c k p"
    "map pt_in (prog_entries (info p)) = map pt_in (prog_entries (info q))" by (rule same_ins_visible)
  from p(2) have pmt: "pt_in (pmt (info p)) = pt_in (pmt (info q))" by (simp add: prog_entries_ins)
  from p(1) assms(2) have "prog_pid_val_isvalid (pt_in (pmt (info p)))"
    "visited_ins (prog_entries (info p)) = filter prog_pid_val_isvalid (map pt_in (prog_entries (info p)))"
    unfolding streams_ok_def by blast+
  with p(2) pmt show "prog_pid_val_isvalid (pt_in (pmt (info q)))"
    "visited_ins (prog_entries (info q)) = filter prog_pid_val_isvalid (map pt_in (prog_entries (info q)))"
    by (simp_all only: visited_ins_def)
  fix k' q' e assume "visible s' c k' q'" and e: "e \<in> set (pcr_entries (info q'))"
  from assms(1) this(1) obtain p' where p': "visible s c k' p'"
    "map pt_in (prog_entries (info p')) = map pt_in (prog_entries (info q'))" by (rule same_ins_visible)
  from p'(2) have "map pt_in (pcr_entries (info p')) = map pt_in (pcr_entries (info q'))"
    by (simp add: prog_entries_ins)
  with e have "pt_in e \<in> pt_in ` set (pcr_entries (info p'))" by (metis image_eqI list.set_map)
  with assms(2) p(1) p'(1) pmt show "pt_in e \<noteq> pt_in (pmt (info q))"
    unfolding streams_ok_def by (metis imageE)
qed

lemma same_ins_input_pids: "same_ins s s' \<Longrightarrow> input_pids s' \<subseteq> input_pids s"
proof
  fix x assume same: "same_ins s s'" and "x \<in> input_pids s'"
  then obtain c k q where "visible s' c k q"
    and x: "x \<in> set (filter prog_pid_val_isvalid (map pt_in (prog_entries (info q))))"
    unfolding input_pids_def by blast
  from same this(1) obtain p where "visible s c k p"
    "map pt_in (prog_entries (info p)) = map pt_in (prog_entries (info q))" by (rule same_ins_visible)
  moreover from x this(2) have "x \<in> set (filter prog_pid_val_isvalid (map pt_in (prog_entries (info p))))"
    by (simp only:)
  ultimately show "x \<in> input_pids s" unfolding input_pids_def by blast
qed

lemma out_map_card:
  assumes "fp_wf s" "fp_bounded s"
  shows "finite (out_map s)" "card (out_map s) \<le> 16 * program_selected_count s"
proof -
  let ?M = "\<lambda>(c, k). prog_out_map c k (info (the (prog_at s (prog_index c k))))"
  have eq: "out_map s = (\<Union>x \<in> set (selected_programs s). ?M x)"
  proof (intro set_eqI iffI)
    fix x assume "x \<in> out_map s"
    then obtain c k q where q: "sel_prog_at s c k q" "x \<in> prog_out_map c k (info q)"
      unfolding out_map_def by blast
    then have "(c, k) \<in> set (selected_programs s)" "x \<in> ?M (c, k)"
      by (auto simp: selected_programs_iff sel_prog_at_def)
    then show "x \<in> (\<Union>x \<in> set (selected_programs s). ?M x)" by blast
  next
    fix x assume "x \<in> (\<Union>x \<in> set (selected_programs s). ?M x)"
    then obtain c k where ck: "(c, k) \<in> set (selected_programs s)" "x \<in> ?M (c, k)" by auto
    then obtain q where "sel_prog_at s c k q" by (auto simp: selected_programs_iff)
    moreover from this have "prog_at s (prog_index c k) = Some q" by (simp add: sel_prog_at_def)
    ultimately show "x \<in> out_map s" using ck(2) unfolding out_map_def by auto
  qed
  have fin: "finite (prog_out_map c k i)" for c k i by (simp add: prog_out_map_entries)
  have card16: "card (?M x) \<le> 16" if "x \<in> set (selected_programs s)" for x
  proof -
    obtain c k where x: "x = (c, k)" by (cases x)
    with that obtain q where q: "prog_at s (prog_index c k) = Some q"
      by (auto simp: selected_programs_iff sel_prog_at_def)
    then have wf: "info_wf (info q)"
      using assms(1) prog_at_SomeD [OF q] by (auto simp: fp_wf_def)
    have "card (prog_out_map c k (info q)) \<le> Suc (card ((\<lambda>(p, x). (Es c p, x)) ` set (entry_pairs (pcr_entries (info q)))))"
      by (simp add: prog_out_map_entries card_insert_if)
    also have "\<dots> \<le> Suc (length (entry_pairs (pcr_entries (info q))))"
      by (intro Suc_leI le_imp_less_Suc order_trans [OF card_image_le card_length]) simp
    also have "\<dots> \<le> Suc (length (pcr_entries (info q)))" by simp
    finally show ?thesis using wf q x by (simp add: pcr_entries_def info_wf_def limit_simps)
  qed
  show "finite (out_map s)" unfolding eq using fin by auto
  have "card (out_map s) \<le> (\<Sum>x \<in> set (selected_programs s). card (?M x))"
    unfolding eq by (rule card_UN_le) simp
  also have "\<dots> \<le> (\<Sum>x \<in> set (selected_programs s). 16)" by (rule sum_mono) (rule card16)
  also have "\<dots> = 16 * length (selected_programs s)"
    by (simp add: distinct_card distinct_selected_programs)
  finally show "card (out_map s) \<le> 16 * program_selected_count s"
    using selected_programs_bound [OF assms(2)] by linarith
qed

lemma visible_set_prog_at:
  assumes "fp_bounded s" "visible s c k p"
  shows "visible (set_prog_at s (prog_index c k) q) c' k' r \<longleftrightarrow>
    (if c' = c \<and> k' = k then r = q else visible s c' k' r)"
proof -
  have k: "k' < PROGRAM_MAX_NUM" if "k' < chan_nprogs s c'" "c' < CHANNEL_MAX_NUM" for c' k'
    using that assms(1) by (auto simp: fp_bounded_def intro: order_less_le_trans)
  from assms(2) have "prog_index c k < length (g_prog_info_table s)"
    by (auto simp: visible_def dest: prog_at_SomeD)
  with assms(2) k prog_index_inj show ?thesis
    unfolding visible_def by (auto simp: prog_at_set_prog_at)
qed

lemma out_map_visible:
  "out_map s = {x. \<exists>c k q. visible s c k q \<and> FP_PROG_SELECTED q \<and> x \<in> prog_out_map c k (info q)}"
  by (simp add: out_map_def sel_prog_at_visible)

lemma out_map_select:
  assumes "fp_bounded s" "visible s c k p" "\<not> FP_PROG_SELECTED p"
  shows "out_map (set_prog_at s (prog_index c k) (FP_SELECT_PROG q)) = out_map s \<union> prog_out_map c k (info q)"
proof -
  have uniq: "r = p" if "visible s c k r" for r using that assms(2) by (simp add: visible_def)
  show ?thesis
    unfolding out_map_visible visible_set_prog_at [OF assms(1,2)]
  proof (intro set_eqI iffI)
    fix x
    assume "x \<in> {x. \<exists>c' k' r. (if c' = c \<and> k' = k then r = FP_SELECT_PROG q else visible s c' k' r)
        \<and> FP_PROG_SELECTED r \<and> x \<in> prog_out_map c' k' (info r)}"
    then show "x \<in> {x. \<exists>c k q. visible s c k q \<and> FP_PROG_SELECTED q \<and> x \<in> prog_out_map c k (info q)}
        \<union> prog_out_map c k (info q)"
      by (auto split: if_splits)
  next
    fix x
    assume "x \<in> {x. \<exists>c k q. visible s c k q \<and> FP_PROG_SELECTED q \<and> x \<in> prog_out_map c k (info q)}
        \<union> prog_out_map c k (info q)"
    then show "x \<in> {x. \<exists>c' k' r. (if c' = c \<and> k' = k then r = FP_SELECT_PROG q else visible s c' k' r)
        \<and> FP_PROG_SELECTED r \<and> x \<in> prog_out_map c' k' (info r)}"
    proof
      assume "x \<in> {x. \<exists>c k q. visible s c k q \<and> FP_PROG_SELECTED q \<and> x \<in> prog_out_map c k (info q)}"
      then obtain c' k' r where r: "visible s c' k' r" "FP_PROG_SELECTED r" "x \<in> prog_out_map c' k' (info r)"
        by blast
      with uniq assms(3) have "\<not> (c' = c \<and> k' = k)" by auto
      with r show ?thesis by (intro CollectI exI [of _ c'] exI [of _ k'] exI [of _ r]) auto
    next
      assume "x \<in> prog_out_map c k (info q)"
      then have "x \<in> prog_out_map c k (info (FP_SELECT_PROG q))" by simp
      then show ?thesis using FP_PROG_SELECTED_select by (metis (mono_tags, lifting) mem_Collect_eq)
    qed
  qed
qed

lemma out_map_deselect:
  assumes "fp_bounded s" "visible s c k p"
  shows "out_map (set_prog_at s (prog_index c k) (FP_DESELECT_PROG p)) \<subseteq> out_map s"
  unfolding out_map_visible visible_set_prog_at [OF assms] by (auto split: if_splits)

lemma prog_index_div_mod: "prog_index (i div PROGRAM_MAX_NUM) (i mod PROGRAM_MAX_NUM) = i"
  by (simp add: prog_index_def)

lemma present_visible:
  assumes "fp_wf s" "prog_at s i = Some p" "prog_present s i"
  obtains c k where "i = prog_index c k" "visible s c k p" "k < PROGRAM_MAX_NUM"
proof -
  let ?c = "i div PROGRAM_MAX_NUM" and ?k = "i mod PROGRAM_MAX_NUM"
  from assms(1,2) have "i < CHANNEL_MAX_NUM * PROGRAM_MAX_NUM"
    by (auto simp: fp_wf_def dest: prog_at_SomeD)
  then have "?c < CHANNEL_MAX_NUM" by (simp add: less_mult_imp_div_less)
  moreover have "?k < PROGRAM_MAX_NUM" by (simp add: limit_simps)
  ultimately show thesis
    using that [of ?c ?k] assms(2,3)
    by (simp add: visible_def prog_index_div_mod prog_present_def prog_chan_def)
qed

lemma same_ins_set_prog_at:
  assumes "prog_at s i = Some p" "snd (prog_shape q) = snd (prog_shape p)"
  shows "same_ins s (set_prog_at s i q)"
proof -
  from prog_at_SomeD [OF assms(1)] have i: "i < length (g_prog_info_table s)" "g_prog_info_table s ! i = p" by auto
  then have "map (snd \<circ> prog_shape) (g_prog_info_table s) ! i = snd (prog_shape p)" by simp
  with i show ?thesis
    using assms(2) list_update_id [of "map (snd \<circ> prog_shape) (g_prog_info_table s)" i]
    by (simp add: same_ins_def set_prog_at_def map_update)
qed

lemma fix_selected_valid:
  assumes fixed: "fix_selected_program_output_pid q (prog_index c k) True s = Some (q', s')"
    and ok: "board_ok s" and vis: "visible s c k q" and k: "k < PROGRAM_MAX_NUM"
    and count: "program_selected_count s + 1 \<le> PROGRAM_MAX_NUM"
  shows "\<forall>x \<in> prog_out_map c k (info q'). prog_pid_val_isvalid (snd x)"
proof -
  let ?idx = "prog_index c k" and ?pin = "pt_in (pmt (info q))"
  from fixed obtain t x t1 es where t: "build_io_table s = Some t"
    and x: "io_table_get_pmt_out_pid ?idx ?pin t = Some x"
    and t1: "io_table_set_pmt_pid ?idx ?pin x t = Some t1"
    and es: "fix_entries ?idx True (pcr_entries (info q)) t1 s = Some (es, s')"
    and q': "q' = q\<lparr> info := set_pcr_entries es ((info q)\<lparr> pmt := (pmt (info q))\<lparr> pt_out := x \<rparr> \<rparr>) \<rparr>"
    by (auto simp: fix_selected_program_output_pid_def bind_Some_iff Let_def)
  define B where "B = input_pids s \<union> snd ` out_map s"
  from ok have wf: "fp_wf s" "fp_bounded s" and fin: "finite (input_pids s)" "card (input_pids s) \<le> input_bound"
    and null: "\<forall>x \<in> out_map s. prog_pid_val_isvalid (snd x)" by (auto simp: board_ok_def)
  note om = out_map_card [OF wf]
  have finB: "finite B" using fin(1) om(1) by (simp add: B_def)
  have "card B \<le> card (input_pids s) + card (out_map s)"
    unfolding B_def using card_Un_le card_image_le [OF om(1), of snd] by (meson add_left_mono order_trans)
  with fin(2) om(2) count have cardB: "card B + 16 < length pid_range"
    by (simp add: length_pid_range input_bound_def limit_simps)
  have valid: "prog_pid_val_isvalid ?pin"
    using ok vis by (auto simp: board_ok_def streams_ok_def)
  have inB: "p \<in> B" if "p \<in> set (map pt_in (prog_entries (info q)))" "prog_pid_val_isvalid p" for p
    using that vis unfolding B_def input_pids_def by auto
  from blocked_build [OF t] have blB: "blocked t \<subseteq> B" by (simp add: B_def)
  have xnn: "prog_pid_val_isvalid x"
    by (rule get_pmt_out_pid_valid [OF x valid blB finB]) (use cardB in simp)
  have "prog_pid_val_isvalid y" if "y \<in> used_outs t1" for y
  proof (cases "y = x")
    case False
    with set_pmt_pid_blocked(1) [OF t1] that have "y \<in> used_outs t" by (metis insertE subsetD)
    with used_outs_build [OF t] have "y \<in> snd ` out_map s" by (rule subsetD)
    with null show ?thesis by (metis imageE)
  qed (use xnn in simp)
  then have "\<forall>y \<in> used_outs t1. prog_pid_val_isvalid y" by blast
  moreover have "?pin \<in> B" by (rule inB) (simp_all add: valid prog_entries_def)
  then have "blocked t1 \<subseteq> insert x B" using set_pmt_pid_blocked(2) [OF t1] blB by auto
  moreover have "length (pcr_entries (info q)) = 15"
    using wf(1) vis prog_at_SomeD [of s ?idx q]
    by (auto simp: fp_wf_def visible_def info_wf_def pcr_entries_def limit_simps)
  then have "card (insert x B) + length (pcr_entries (info q)) < length pid_range"
    using cardB finB by (simp add: card_insert_if)
  ultimately have "\<forall>(p, x) \<in> set (entry_pairs es). prog_pid_val_isvalid x"
    using fix_entries_valid [OF es, of "insert x B"] finB inB
    by (auto simp: prog_entries_ins)
  moreover from fix_entries_shape [OF es] have "es \<noteq> []" by (auto simp: pcr_entries_def)
  ultimately show ?thesis using xnn by (auto simp: q' prog_out_map_entries)
qed

lemma deselect_unselected: "\<not> FP_PROG_SELECTED p \<Longrightarrow> FP_DESELECT_PROG p = p"
proof -
  assume unsel: "\<not> FP_PROG_SELECTED p"
  have "w AND NOT 1 = w" if "\<not> has_flag w 1" for w :: u8
    using that unfolding byte_simps by (intro bit_word_eqI) (auto simp: bit_simps intro!: gr0I)
  from this [of "status p"] unsel show ?thesis
    by (simp add: FP_DESELECT_PROG_def FP_PROG_SELECTED_def FP_STATUS_SELECTED_def)
qed

lemma board_okI:
  "fp_wf s \<Longrightarrow> fp_bounded s \<Longrightarrow> admitted s \<Longrightarrow> streams_ok s \<Longrightarrow> finite (input_pids s) \<Longrightarrow>
   card (input_pids s) \<le> input_bound \<Longrightarrow> conflict_free s \<Longrightarrow> \<forall>x \<in> out_map s. prog_pid_val_isvalid (snd x) \<Longrightarrow>
   board_ok s"
  by (simp add: board_ok_def)

lemma board_ok_inputs:
  assumes "board_ok s" "same_ins s s'"
  shows "streams_ok s'" "finite (input_pids s')" "card (input_pids s') \<le> input_bound"
proof -
  note sub = same_ins_input_pids [OF assms(2)]
  from assms(1) have str: "streams_ok s" and fin: "finite (input_pids s)"
    and card: "card (input_pids s) \<le> input_bound" by (simp_all add: board_ok_def)
  show "streams_ok s'" by (rule same_ins_streams [OF assms(2) str])
  show "finite (input_pids s')" by (rule finite_subset [OF sub fin])
  show "card (input_pids s') \<le> input_bound" using card card_mono [OF fin sub] by simp
qed

lemma board_select_ok:
  assumes sel: "fp_select_program i s = Some s'" and ok: "board_ok s"
  shows "board_ok s'"
  using sel
proof (cases rule: fp_select_cases)
  case stay
  with ok show ?thesis by simp
next
  case (check p r)
  from ok have wf: "fp_wf s" "fp_bounded s" and str: "streams_ok s" and cf: "conflict_free s"
    and adm: "admitted s" by (auto simp: board_ok_def)
  obtain c k where i: "i = prog_index c k" and vis: "visible s c k p" and k: "k < PROGRAM_MAX_NUM"
    by (rule present_visible [OF wf(1) check(1,2)])
  from check(4,1) show ?thesis
  proof (cases rule: check_and_select_cases)
    case (accepted q s1 s2)
    have s1: "s1 = s" using accepted(2) check(1,3) by (simp add: deselect_unselected set_prog_at_id)
    from accepted(9) s1 i have fixed: "fix_selected_program_output_pid p (prog_index c k) True s = Some (q, s2)"
      by simp
    have valid: "\<forall>x \<in> prog_out_map c k (info q). prog_pid_val_isvalid (snd x)"
      using fix_selected_valid [OF fixed ok vis k] accepted(6) s1 by simp
    then have nn: "\<forall>x \<in> prog_out_map c k (info q). snd x \<noteq> NULL_PID" using valid_not_NULL by blast
    obtain t t1 t2 where "s2 = s" by (rule fix_selected_run [OF fixed k str cf vis])
    with accepted(5) i have s': "s' = set_prog_at s (prog_index c k) (FP_SELECT_PROG q)" by simp
    have om: "out_map s' = out_map s \<union> prog_out_map c k (info q)"
      unfolding s' by (rule out_map_select [OF wf(2) vis check(3)])
    note new = fix_selected_new_source [OF fixed k str cf vis check(3) nn]
    have "snd x = snd y \<longleftrightarrow> fst x = fst y" if "x \<in> out_map s'" "y \<in> out_map s'" for x y
      using that cf new [of x y] new [of y x] unfolding om conflict_free_def by auto
    then have "conflict_free s'" by (simp add: conflict_free_def)
    moreover have "\<forall>x \<in> out_map s'. prog_pid_val_isvalid (snd x)"
      using valid ok unfolding om board_ok_def by blast
    moreover have si: "same_ins s s'"
      unfolding s' using check(1) accepted(4) i
      by (intro same_ins_set_prog_at [of s _ p]) (simp_all add: prog_shape_def)
    note board_ok_inputs [OF ok si]
    moreover have "info_wf (info p)" using wf(1) prog_at_SomeD [OF check(1)] by (auto simp: fp_wf_def)
    then have "info_wf (info q)" using shape_info_wf [OF accepted(4)] by simp
    then have "fp_wf s'" unfolding s' using wf(1) by (simp add: fp_wf_set_prog_at)
    moreover have "fp_bounded s'" using wf(2) by (simp add: s' fp_bounded_def)
    moreover have "admitted s'" by (rule check_and_select_admitted [OF check(4) adm])
    ultimately show ?thesis by (intro board_okI)
  qed (use ok in simp_all)
qed

lemma board_deselect_ok:
  assumes sel: "fp_deselect_program i s = Some s'" and ok: "board_ok s"
  shows "board_ok s'"
  using sel
proof (cases rule: fp_deselect_cases)
  case stay
  with ok show ?thesis by simp
next
  case (drop p)
  from ok have wf: "fp_wf s" "fp_bounded s" and str: "streams_ok s" by (auto simp: board_ok_def)
  obtain c k where i: "i = prog_index c k" and vis: "visible s c k p" and k: "k < PROGRAM_MAX_NUM"
    by (rule present_visible [OF wf(1) drop(1,2)])
  have sub: "out_map s' \<subseteq> out_map s"
    unfolding drop(4) i by (rule out_map_deselect [OF wf(2) vis])
  have si: "same_ins s s'"
    unfolding drop(4) by (rule same_ins_set_prog_at [OF drop(1)]) (simp add: prog_shape_def)
  note board_ok_inputs [OF ok si]
  moreover have "fp_wf s'" unfolding drop(4) using wf(1) prog_at_SomeD [OF drop(1)]
    by (intro fp_wf_set_prog_at) (auto simp: fp_wf_def)
  moreover have "fp_bounded s'" using wf(2) by (simp add: drop(4) fp_bounded_def)
  moreover have "admitted s'" unfolding drop(4) using ok drop(1)
    by (intro admitted_deselect) (simp_all add: board_ok_def)
  moreover have "conflict_free s'" using sub ok unfolding conflict_free_def board_ok_def by blast
  moreover have "\<forall>x \<in> out_map s'. prog_pid_val_isvalid (snd x)" using sub ok unfolding board_ok_def by blast
  ultimately show ?thesis by (intro board_okI)
qed

lemma board_step_ok: "board_step s s' \<Longrightarrow> board_ok s \<Longrightarrow> board_ok s'"
  by (auto elim!: board_stepE intro: board_select_ok board_deselect_ok)

section \<open>No step leaves its arrays\<close>

lemma is_out_pid_usable_total:
  "io_ok c p \<Longrightarrow> out \<le> NULL_PID \<Longrightarrow> \<exists>b. is_out_pid_usable t c p out = Some b"
  by (auto simp: is_out_pid_usable_def io_read_def)

lemma get_out_pid_total:
  assumes "io_ok (prog_chan idx) p"
  shows "\<exists>x. io_table_get_out_pid idx p t = Some x" "\<exists>x. io_table_get_pmt_out_pid idx p t = Some x"
  using assms is_out_pid_usable_total [of "prog_chan idx" p p t]
  by (auto simp: io_table_get_out_pid_def io_table_get_pmt_out_pid_def io_read_def)

lemma update_channel_total:
  assumes "fp_wf s" "fp_bounded s" "prog_chan idx < CHANNEL_MAX_NUM"
  shows "\<exists>s'. update_channel_other_program_out_pid idx p x s = Some s'"
proof -
  let ?c = "prog_chan idx"
  let ?P = "\<lambda>u. length (g_prog_info_table u) = CHANNEL_MAX_NUM * PROGRAM_MAX_NUM"
  have "\<exists>u'. (if idx = prog_index ?c k then Some u
      else do { q \<leftarrow> prog_at u (prog_index ?c k);
                Some (set_prog_at u (prog_index ?c k) (update_program_out_pid p x q)) }) = Some u' \<and> ?P u'"
    if "k \<in> set [0..<chan_nprogs s ?c]" "?P u" for u k
  proof -
    from that(1) assms(2,3) have "k < PROGRAM_MAX_NUM" by (auto simp: fp_bounded_def intro: order_less_le_trans)
    from prog_index_less [OF assms(3) this] that(2) show ?thesis by (auto simp: prog_at_def)
  qed
  moreover have "?P s" using assms(1) by (simp add: fp_wf_def)
  ultimately have "\<exists>s'. foldM (\<lambda>u k. if idx = prog_index ?c k then Some u
      else do { q \<leftarrow> prog_at u (prog_index ?c k);
                Some (set_prog_at u (prog_index ?c k) (update_program_out_pid p x q)) })
      s [0..<chan_nprogs s ?c] = Some s' \<and> ?P s'"
    by (intro foldM_total)
  then show ?thesis by (auto simp: update_channel_other_program_out_pid_def Let_def)
qed

lemma fix_entries_total:
  "fp_wf s \<Longrightarrow> fp_bounded s \<Longrightarrow> prog_chan idx < CHANNEL_MAX_NUM \<Longrightarrow>
   \<exists>r. fix_entries idx d es t s = Some r"
proof (induction es arbitrary: t s)
  case (Cons e es)
  show ?case
  proof (cases "prog_pid_val_isvalid (pt_in e)")
    case True
    then have io: "io_ok (prog_chan idx) (pt_in e)" using Cons.prems(3) by (simp add: isvalid_le_NULL_PID)
    from get_out_pid_total(1) [OF io] obtain x where x: "io_table_get_out_pid idx (pt_in e) t = Some x" by blast
    from io obtain u where u: "io_table_set_pid idx (pt_in e) x t = Some u"
      by (auto simp: io_table_set_pid_def io_modify_def)
    from update_channel_total [OF Cons.prems] obtain s1 where
      s1: "update_channel_other_program_out_pid idx (pt_in e) x s = Some s1" by blast
    have s2: "\<exists>r. fix_entries idx d es u (if d then s1 else s) = Some r"
      using Cons.IH Cons.prems same_shape_wf [OF update_channel_same_shape [OF s1]]
        same_shape_bounded [OF update_channel_same_shape [OF s1]] by simp
    show ?thesis using True x u s1 s2 by (cases d) auto
  next
    case False
    with Cons.IH [OF Cons.prems, of t] show ?thesis by auto
  qed
qed simp

lemma fix_selected_total:
  assumes "board_ok s" "visible s c k q" "k < PROGRAM_MAX_NUM" "program_selected_count s + 1 \<le> PROGRAM_MAX_NUM"
  shows "\<exists>r. fix_selected_program_output_pid q (prog_index c k) d s = Some r"
proof -
  let ?idx = "prog_index c k" and ?pin = "pt_in (pmt (info q))"
  from assms(1) have wf: "fp_wf s" "fp_bounded s" and valid: "prog_pid_val_isvalid ?pin"
    and outs: "\<forall>x \<in> out_map s. prog_pid_val_isvalid (snd x)"
    and fin: "finite (input_pids s)" "card (input_pids s) \<le> input_bound"
    using assms(2) by (auto simp: board_ok_def streams_ok_def)
  have c: "prog_chan ?idx < CHANNEL_MAX_NUM" using assms(2,3) by (simp add: visible_def)
  have "outs_in_range s" using outs by (auto simp: outs_in_range_def isvalid_le_NULL_PID)
  from build_io_table_total [OF wf this] obtain t where t: "build_io_table s = Some t" by blast
  have io: "io_ok (prog_chan ?idx) ?pin" using c valid by (simp add: isvalid_le_NULL_PID)
  from get_out_pid_total(2) [OF io] obtain x where x: "io_table_get_pmt_out_pid ?idx ?pin t = Some x" by blast
  define B where "B = input_pids s \<union> snd ` out_map s"
  note om = out_map_card [OF wf]
  have "card B \<le> card (input_pids s) + card (out_map s)"
    unfolding B_def using card_Un_le card_image_le [OF om(1), of snd] by (meson add_left_mono order_trans)
  then have "card B < length pid_range"
    using fin(2) om(2) assms(4) by (simp add: length_pid_range input_bound_def limit_simps)
  from get_pmt_out_pid_valid [OF x valid _ _ this] blocked_build [OF t] fin(1) om(1)
  have "x \<le> NULL_PID" by (simp add: B_def isvalid_le_NULL_PID)
  with io have "\<exists>u. io_table_set_pmt_pid ?idx ?pin x t = Some u"
    by (auto simp: io_table_set_pmt_pid_def io_read_def io_modify_def)
  then obtain u where u: "io_table_set_pmt_pid ?idx ?pin x t = Some u" by blast
  from fix_entries_total [OF wf c] obtain r where
    "fix_entries ?idx d (pcr_entries (info q)) u s = Some r" by blast
  with t x u show ?thesis by (cases r) (auto simp: fix_selected_program_output_pid_def Let_def)
qed

lemma board_select_total:
  assumes ok: "board_ok s" and i: "i < CHANNEL_MAX_NUM * PROGRAM_MAX_NUM"
  shows "\<exists>s'. fp_select_program i s = Some s'"
proof -
  from ok have wf: "fp_wf s" by (simp add: board_ok_def)
  with i obtain p where p: "prog_at s i = Some p" by (simp add: fp_wf_def prog_at_def)
  show ?thesis
  proof (cases "prog_present s i \<and> \<not> FP_PROG_SELECTED p")
    case False
    with p show ?thesis by (auto simp: fp_select_program_def)
  next
    case True
    obtain c k where ck: "i = prog_index c k" and vis: "visible s c k p" and k: "k < PROGRAM_MAX_NUM"
      by (rule present_visible [OF wf p]) (use True in simp)
    have s1: "set_prog_at s i (FP_DESELECT_PROG p) = s"
      using True p by (simp add: deselect_unselected set_prog_at_id)
    have restore: "\<exists>s2. restore_status False i s = Some s2" using p by (simp add: restore_status_def)
    show ?thesis
    proof (cases "program_selected_count s + 1 > PROGRAM_MAX_NUM
        \<or> valid_program_pids p \<noteq> enm_prog_pid_valid
        \<or> channel_mapped_pid_count s (prog_chan i) + program_mapped_pid_count p
            > FPGA_PID_MAP_TABLE_CHAN_PIDS")
      case lim: True
      with p True s1 restore have "\<exists>s2. check_and_select_program i p None s = Some (False, s2)"
        by (auto simp: check_and_select_program_def)
      with p True show ?thesis by (auto simp: fp_select_program_def)
    next
      case False
      then have "program_selected_count s + 1 \<le> PROGRAM_MAX_NUM" by simp
      from fix_selected_total [OF ok vis k this, of True] ck obtain q s2 where
        f: "fix_selected_program_output_pid p i True s = Some (q, s2)" by auto
      from p True s1 False f have "\<exists>s3. check_and_select_program i p None s = Some (True, s3)"
        by (auto simp: check_and_select_program_def)
      with p True show ?thesis by (auto simp: fp_select_program_def)
    qed
  qed
qed

section \<open>Properties\<close>

lemma initial_board_ok:
  assumes "fp_wf s" "fp_bounded s" "streams_ok s" "card (input_pids s) \<le> input_bound"
    and "\<forall>p \<in> set (g_prog_info_table s). \<not> FP_PROG_SELECTED p"
  shows "board_ok s"
proof -
  have "\<not> sel_prog_at s c k q" for c k q
    using assms(5) by (auto simp: sel_prog_at_def dest: prog_at_SomeD)
  then have "out_map s = {}" by (simp add: out_map_def)
  with assms show ?thesis by (simp add: board_ok_def conflict_free_def unselected_admitted)
qed

lemma board_run_ok: "board_step\<^sup>*\<^sup>* s s' \<Longrightarrow> board_ok s \<Longrightarrow> board_ok s'"
  by (induction rule: rtranclp_induct) (auto intro: board_step_ok)

lemma example_visible:
  "visible (example_state st) c k q \<longleftrightarrow> c = 0 \<and> k = 0 \<and> q = example_prog st"
  using example_nprogs [of c st] example_prog_at [of st]
  by (auto simp: visible_def prog_index_def limit_simps split: if_splits)

lemma example_ins:
  "map pt_in (prog_entries example_info) = 0x100 # 0x101 # 0x101 # 0x102 # replicate 12 0xF"
  by (simp add: prog_entries_def example_info_def pad_entry_def DATA_PID_PAD_VALUE_def)

lemma isvalid_numerals:
  "prog_pid_val_isvalid 0x100" "prog_pid_val_isvalid 0x101" "prog_pid_val_isvalid 0x102"
  "\<not> prog_pid_val_isvalid 0xF"
  by (simp_all add: prog_pid_val_isvalid_def defProgPidMin_def defProgPidMax_def NULL_PID_def)

lemma example_streams: "streams_ok (example_state st)" "input_pids (example_state st) \<subseteq> {0x100, 0x101, 0x102}"
proof -
  have pcr: "map pt_in (pcr_entries example_info) = 0x101 # 0x101 # 0x102 # replicate 12 0xF"
    using example_ins by (simp add: prog_entries_ins)
  have "pt_in e \<noteq> 0x100" if "e \<in> set (pcr_entries example_info)" for e
  proof -
    from that have "pt_in e \<in> set (map pt_in (pcr_entries example_info))" by simp
    then show ?thesis unfolding pcr by auto
  qed
  moreover have "pt_in (pmt example_info) = 0x100" by (simp add: example_info_def)
  ultimately show "streams_ok (example_state st)"
    by (simp add: streams_ok_def example_visible example_prog_def example_ins visited_ins_def isvalid_numerals
        takeWhile_replicate filter_replicate)
  show "input_pids (example_state st) \<subseteq> {0x100, 0x101, 0x102}"
  proof -
    have "filter prog_pid_val_isvalid (map pt_in (prog_entries example_info)) = [0x100, 0x101, 0x101, 0x102]"
      unfolding example_ins by (simp add: isvalid_numerals filter_replicate)
    then show ?thesis
      by (auto simp: input_pids_def example_visible example_prog_def simp del: set_filter)
  qed
qed

lemma example_input_bound: "card (input_pids (example_state st)) \<le> input_bound"
proof -
  have "card (input_pids (example_state st)) \<le> card (set [0x100, 0x101, 0x102 :: u16])"
    using example_streams(2) by (intro card_mono) simp_all
  also have "\<dots> \<le> 3" by (rule order_trans [OF card_length]) simp
  finally show ?thesis by (simp add: input_bound_def)
qed

lemma example_board_ok: "board_ok (example_state 0)"
  by (intro initial_board_ok example_wf example_bounded example_streams example_input_bound example_unselected)



text \<open>In every state the board reaches, selecting any of the 512 programs is defined: the code
  stays inside the program table and the input/output table, whatever it decides.\<close>

theorem board_select_defined:
  assumes "fp_wf s" and "fp_bounded s" and "streams_ok s" and "card (input_pids s) \<le> input_bound"
    and "\<forall>p \<in> set (g_prog_info_table s). \<not> FP_PROG_SELECTED p"
    and "board_step\<^sup>*\<^sup>* s s'" and "i < CHANNEL_MAX_NUM * PROGRAM_MAX_NUM"
  shows "\<exists>s''. fp_select_program i s' = Some s'' \<and> conflict_free s''"
proof -
  note ok = board_run_ok [OF assms(6) initial_board_ok [OF assms(1-5)]]
  from board_select_total [OF ok assms(7)] obtain s'' where "fp_select_program i s' = Some s''" by blast
  moreover from board_select_ok [OF this ok] have "conflict_free s''" by (simp add: board_ok_def)
  ultimately show ?thesis by blast
qed

theorem board_select_defined_witness:
  "\<exists>s''. fp_select_program 0 (example_state 0) = Some s'' \<and> conflict_free s''"
  by (rule board_select_defined [OF example_wf(2) example_bounded example_streams(1) example_input_bound
      example_unselected rtranclp.rtrancl_refl]) (simp add: limit_simps)

end
