(* ===== verification/PidMap.thy ===== *)
theory PidMap
  imports OutPids
begin

unbundle bit_operations_syntax

text \<open>
  \<^verbatim>\<open>src/pid_map_table.c\<close>, \<^verbatim>\<open>src/pid_map_table.h\<close> and
  \<^verbatim>\<open>src/pid_map_rule.c\<close>: the PID map written to the FPGA, 32 pairs for each channel, and the
  rule that proposes output PIDs. The map is generated from the input/output table of the selected
  programs; the theory proves that no pair is ever discarded for want of a slot.
\<close>

section \<open>The rule for output PIDs\<close>

datatype enmDswPsiPid = DSW_PID_PMT | DSW_PID_PCR | DSW_PID_VIDEO | DSW_PID_AUDIO | DSW_PID_MAX

definition defProgPidBgn :: nat where "defProgPidBgn = 0x100"
definition PID_MAP_MAX_PID_NUM_PER_CHAN :: nat where "PID_MAP_MAX_PID_NUM_PER_CHAN = 0x200"
definition PID_MAP_MAX_PID_NUM_PER_PROG :: nat where "PID_MAP_MAX_PID_NUM_PER_PROG = 0x10"

definition pid_map_rule_map_psi_pid :: "u8 \<Rightarrow> u8 \<Rightarrow> enmDswPsiPid \<Rightarrow> u16 \<Rightarrow> u16 list \<Rightarrow> u16" where
  "pid_map_rule_map_psi_pid chan_idx prog_idx psi_pid in_pid pids =
     (let out_pid_offset :: u16 =
            (if psi_pid = DSW_PID_PMT then 0
             else fold (\<lambda>q off. if in_pid > q then off + 1 else off) pids 1)
      in word_of_nat (defProgPidBgn + unat chan_idx * PID_MAP_MAX_PID_NUM_PER_CHAN
           + PID_MAP_MAX_PID_NUM_PER_PROG * unat prog_idx + unat out_pid_offset))"

definition pid_map_rule_channel_output_pid_validate :: "u8 \<Rightarrow> u16 \<Rightarrow> bool" where
  "pid_map_rule_channel_output_pid_validate chan_idx pid \<longleftrightarrow>
     defProgPidBgn + unat chan_idx * PID_MAP_MAX_PID_NUM_PER_CHAN \<le> unat pid
     \<and> unat pid < defProgPidBgn + (unat chan_idx + 1) * PID_MAP_MAX_PID_NUM_PER_CHAN"

section \<open>The map\<close>

record pid_map_entry =
  input_pid :: u16
  output_pid :: u16

type_synonym xmux_pid_map_table = "pid_map_entry list list"

definition PID_MAP_TABLE_PAD_PID :: u16 where "PID_MAP_TABLE_PAD_PID = 0x000F"
definition CHANNEL_ALL_BITMAP :: u8 where "CHANNEL_ALL_BITMAP = push_bit CHANNEL_MAX_NUM 1 - 1"

definition pid_map_pad :: pid_map_entry where
  "pid_map_pad = \<lparr> input_pid = PID_MAP_TABLE_PAD_PID, output_pid = PID_MAP_TABLE_PAD_PID \<rparr>"

definition pid_map_table_set_in_pid ::
  "nat \<Rightarrow> nat \<Rightarrow> u16 \<Rightarrow> xmux_pid_map_table \<Rightarrow> xmux_pid_map_table" where
  "pid_map_table_set_in_pid c i p m = m[c := (m ! c)[i := (m ! c ! i)\<lparr> input_pid := p \<rparr>]]"

definition pid_map_table_set_out_pid ::
  "nat \<Rightarrow> nat \<Rightarrow> u16 \<Rightarrow> xmux_pid_map_table \<Rightarrow> xmux_pid_map_table" where
  "pid_map_table_set_out_pid c i p m = m[c := (m ! c)[i := (m ! c ! i)\<lparr> output_pid := p \<rparr>]]"

definition pid_map_table_clear :: "xmux_pid_map_table \<Rightarrow> xmux_pid_map_table" where
  "pid_map_table_clear m =
     foldl (\<lambda>m c. foldl (\<lambda>m i.
         pid_map_table_set_out_pid c i PID_MAP_TABLE_PAD_PID
           (pid_map_table_set_in_pid c i PID_MAP_TABLE_PAD_PID m))
       m [0..<FPGA_PID_MAP_TABLE_CHAN_PIDS]) m [0..<CHANNEL_MAX_NUM]"

definition pid_map_wf :: "xmux_pid_map_table \<Rightarrow> bool" where
  "pid_map_wf m \<longleftrightarrow> length m = CHANNEL_MAX_NUM
     \<and> (\<forall>row \<in> set m. length row = FPGA_PID_MAP_TABLE_CHAN_PIDS)"

text \<open>\<^verbatim>\<open>ACCESS_HFPGA_PID_MAP\<close>, without the mode byte no function here touches, and the
  generator's context.\<close>

record hfpga_pid_map =
  cha :: u8
  pid_map :: xmux_pid_map_table

record pid_map_table_gen_context =
  fpga_pid_map :: hfpga_pid_map
  chan_map_pid_cnt :: "u8 list"

definition fpga_pid_map_table_clear :: "hfpga_pid_map \<Rightarrow> hfpga_pid_map" where
  "fpga_pid_map_table_clear m =
     m\<lparr> pid_map := pid_map_table_clear (pid_map m), cha := CHANNEL_ALL_BITMAP \<rparr>"

definition pid_map_table_apply :: "xmux_pid_map_table \<Rightarrow> hfpga_pid_map" where
  "pid_map_table_apply m = \<lparr> cha = CHANNEL_ALL_BITMAP, pid_map = m \<rparr>"

definition pid_map_table_gen_start :: "pid_map_table_gen_context \<Rightarrow> pid_map_table_gen_context" where
  "pid_map_table_gen_start ctx =
     ctx\<lparr> fpga_pid_map := fpga_pid_map_table_clear (fpga_pid_map ctx),
          chan_map_pid_cnt := replicate CHANNEL_MAX_NUM 0 \<rparr>"

definition pid_map_table_gen_end ::
  "u8 \<Rightarrow> pid_map_table_gen_context \<Rightarrow> pid_map_table_gen_context" where
  "pid_map_table_gen_end chan_bitmap ctx =
     ctx\<lparr> fpga_pid_map := (fpga_pid_map ctx)\<lparr> cha := chan_bitmap \<rparr> \<rparr>"

text \<open>The returned flag is \<open>False\<close> for the -1 of a full row.\<close>

definition pid_map_table_push_pid_pair ::
  "nat \<Rightarrow> u16 \<Rightarrow> u16 \<Rightarrow> pid_map_table_gen_context \<Rightarrow> bool \<times> pid_map_table_gen_context" where
  "pid_map_table_push_pid_pair c in_pid out ctx =
     (let n = chan_map_pid_cnt ctx ! c in
      if FPGA_PID_MAP_TABLE_CHAN_PIDS \<le> unat n then (False, ctx)
      else (True, ctx\<lparr>
        fpga_pid_map := (fpga_pid_map ctx)\<lparr> pid_map :=
          pid_map_table_set_out_pid c (unat n) out
            (pid_map_table_set_in_pid c (unat n) in_pid (pid_map (fpga_pid_map ctx))) \<rparr>,
        chan_map_pid_cnt := (chan_map_pid_cnt ctx)[c := n + 1] \<rparr>))"

text \<open>\<^verbatim>\<open>pid_map_table_validate\<close>: the loop skips pad pairs and refuses nothing.\<close>

definition pid_map_table_validate :: "xmux_pid_map_table \<Rightarrow> bool" where
  "pid_map_table_validate m =
     foldl (\<lambda>ok c. foldl (\<lambda>ok i.
         (if input_pid (m ! c ! i) = 15 \<and> output_pid (m ! c ! i) = 15 then ok else ok))
       ok [0..<FPGA_PID_MAP_TABLE_CHAN_PIDS]) True [0..<CHANNEL_MAX_NUM]"

section \<open>Generating the map\<close>

record mux_program_entry =
  mp_chan_idx :: u8
  mp_prog_idx :: u8

record xmux_mux_program_info =
  mp_nprogs :: u16
  mp_programs :: "mux_program_entry list"

definition mux_prog_info_zero :: xmux_mux_program_info where
  "mux_prog_info_zero = \<lparr> mp_nprogs = 0,
     mp_programs = replicate PROGRAM_MAX_NUM \<lparr> mp_chan_idx = 0, mp_prog_idx = 0 \<rparr> \<rparr>"

text \<open>The two loops that gather the map. The list collects the pairs for which the push failed,
  which the code reports and discards.\<close>

definition push_pid ::
  "io_table \<Rightarrow> nat \<Rightarrow> pid_map_table_gen_context \<times> (nat \<times> u16) list \<Rightarrow> u16
     \<Rightarrow> pid_map_table_gen_context \<times> (nat \<times> u16) list" where
  "push_pid t c = (\<lambda>(ctx, lost) in_pid.
     if \<not> is_selected (t c in_pid) then (ctx, lost)
     else if is_pmt (t c in_pid) then (ctx, lost)
     else (let (ok, ctx') = pid_map_table_push_pid_pair c in_pid (out_pid (t c in_pid)) ctx
           in (ctx', if ok then lost else lost @ [(c, in_pid)])))"

definition gather_pids ::
  "io_table \<Rightarrow> pid_map_table_gen_context \<Rightarrow> pid_map_table_gen_context \<times> (nat \<times> u16) list" where
  "gather_pids t ctx =
     foldl (\<lambda>acc c. foldl (push_pid t c) acc pid_range) (ctx, []) [0..<CHANNEL_MAX_NUM]"

definition fill_mux_program ::
  "fp_state \<Rightarrow> nat \<Rightarrow> xmux_mux_program_info \<Rightarrow> nat \<Rightarrow> xmux_mux_program_info option" where
  "fill_mux_program s c m k =
     do {
       prog \<leftarrow> prog_at s (prog_index c k);
       if FP_PROG_SELECTED prog then
         (if unat (mp_nprogs m) < length (mp_programs m)
          then Some (m\<lparr> mp_programs := (mp_programs m)[unat (mp_nprogs m) :=
                          \<lparr> mp_chan_idx = word_of_nat c, mp_prog_idx = word_of_nat k \<rparr>],
                        mp_nprogs := mp_nprogs m + 1 \<rparr>)
          else None)
       else Some m
     }"

definition fill_mux_prog_info :: "fp_state \<Rightarrow> xmux_mux_program_info option" where
  "fill_mux_prog_info s =
     foldM (\<lambda>m c. foldM (fill_mux_program s c) m [0..<chan_nprogs s c]) mux_prog_info_zero
       [0..<CHANNEL_MAX_NUM]"

text \<open>\<^verbatim>\<open>gen_ctx\<close> starts as whatever the stack holds; the result is the map that is saved
  and written to the FPGA, the program list that is saved, and the discarded pairs.\<close>

definition pid_map_table_gen_and_apply_from_fp ::
  "pid_map_table_gen_context \<Rightarrow> fp_state
     \<Rightarrow> (hfpga_pid_map \<times> xmux_mux_program_info \<times> (nat \<times> u16) list) option" where
  "pid_map_table_gen_and_apply_from_fp gen_ctx s =
     do {
       t \<leftarrow> build_io_table s;
       let (ctx, lost) = gather_pids t (pid_map_table_gen_start gen_ctx);
       m \<leftarrow> fill_mux_prog_info s;
       Some (fpga_pid_map (pid_map_table_gen_end CHANNEL_ALL_BITMAP ctx), m, lost)
     }"

section \<open>Clearing and pushing\<close>

lemma set_in_out_pid:
  assumes "c < length m" "i < length (m ! c)"
  shows "pid_map_table_set_out_pid c i q (pid_map_table_set_in_pid c i p m)
    = m[c := (m ! c)[i := \<lparr> input_pid = p, output_pid = q \<rparr>]]"
  using assms
  by (cases "m ! c ! i") (simp add: pid_map_table_set_out_pid_def pid_map_table_set_in_pid_def)

lemma clear_row:
  assumes "c < length m" "n \<le> length (m ! c)"
  shows "foldl (\<lambda>m i. pid_map_table_set_out_pid c i PID_MAP_TABLE_PAD_PID
             (pid_map_table_set_in_pid c i PID_MAP_TABLE_PAD_PID m)) m [0..<n]
    = m[c := replicate n pid_map_pad @ drop n (m ! c)]"
  using assms
proof (induction n)
  case (Suc n)
  then show ?case
    by (simp add: set_in_out_pid list_update_append replicate_app_Cons_same pid_map_pad_def
        flip: Cons_nth_drop_Suc)
qed simp

definition pid_map_cleared :: xmux_pid_map_table where
  "pid_map_cleared = replicate CHANNEL_MAX_NUM (replicate FPGA_PID_MAP_TABLE_CHAN_PIDS pid_map_pad)"

lemma clear_rows:
  assumes "n \<le> length m" "\<forall>row \<in> set m. length row = FPGA_PID_MAP_TABLE_CHAN_PIDS"
  shows "foldl (\<lambda>m c. foldl (\<lambda>m i. pid_map_table_set_out_pid c i PID_MAP_TABLE_PAD_PID
             (pid_map_table_set_in_pid c i PID_MAP_TABLE_PAD_PID m)) m [0..<FPGA_PID_MAP_TABLE_CHAN_PIDS])
           m [0..<n]
    = replicate n (replicate FPGA_PID_MAP_TABLE_CHAN_PIDS pid_map_pad) @ drop n m"
  using assms
proof (induction n)
  case (Suc n)
  let ?m = "replicate n (replicate FPGA_PID_MAP_TABLE_CHAN_PIDS pid_map_pad) @ drop n m"
  from Suc.prems have n: "n < length m" by simp
  then have row: "?m ! n = m ! n" by (simp add: nth_append)
  with Suc.prems n have "length (?m ! n) = FPGA_PID_MAP_TABLE_CHAN_PIDS" by simp
  with n row clear_row [of n ?m FPGA_PID_MAP_TABLE_CHAN_PIDS] Suc show ?case
    by (simp add: list_update_append replicate_app_Cons_same flip: Cons_nth_drop_Suc)
qed simp

lemma pid_map_table_clear_eq: "pid_map_wf m \<Longrightarrow> pid_map_table_clear m = pid_map_cleared"
  by (simp add: pid_map_table_clear_def clear_rows pid_map_wf_def pid_map_cleared_def)

text \<open>
  What a context stands for: per channel, the pairs pushed so far. The table is those pairs and
  padding behind them, the counters are their numbers.
\<close>

definition pad_row :: "(u16 \<times> u16) list \<Rightarrow> pid_map_entry list" where
  "pad_row ps = map (\<lambda>(i, out). \<lparr> input_pid = i, output_pid = out \<rparr>) ps
     @ replicate (FPGA_PID_MAP_TABLE_CHAN_PIDS - length ps) pid_map_pad"

definition ctx_rep :: "(u16 \<times> u16) list list \<Rightarrow> pid_map_table_gen_context \<Rightarrow> bool" where
  "ctx_rep R ctx \<longleftrightarrow> length R = CHANNEL_MAX_NUM
     \<and> (\<forall>ps \<in> set R. length ps \<le> FPGA_PID_MAP_TABLE_CHAN_PIDS)
     \<and> pid_map (fpga_pid_map ctx) = map pad_row R
     \<and> chan_map_pid_cnt ctx = map (\<lambda>ps. word_of_nat (length ps)) R"

lemma pad_row_push:
  assumes "length ps < FPGA_PID_MAP_TABLE_CHAN_PIDS"
  shows "(pad_row ps)[length ps := \<lparr> input_pid = p, output_pid = q \<rparr>] = pad_row (ps @ [(p, q)])"
proof -
  from assms have "FPGA_PID_MAP_TABLE_CHAN_PIDS - length ps
      = Suc (FPGA_PID_MAP_TABLE_CHAN_PIDS - Suc (length ps))" by simp
  then show ?thesis by (simp add: pad_row_def list_update_append)
qed

lemma pad_row_length:
  "length ps \<le> FPGA_PID_MAP_TABLE_CHAN_PIDS \<Longrightarrow> length (pad_row ps) = FPGA_PID_MAP_TABLE_CHAN_PIDS"
  by (simp add: pad_row_def)

lemma ctx_rep_push:
  assumes "ctx_rep R ctx" "c < CHANNEL_MAX_NUM"
  shows "pid_map_table_push_pid_pair c p q ctx = (ok, ctx') \<Longrightarrow>
    ok = (length (R ! c) < FPGA_PID_MAP_TABLE_CHAN_PIDS)
    \<and> ctx_rep (if ok then R[c := R ! c @ [(p, q)]] else R) ctx'"
proof -
  from assms have c: "c < length R" and le: "length (R ! c) \<le> FPGA_PID_MAP_TABLE_CHAN_PIDS"
    by (auto simp: ctx_rep_def)
  have n: "unat (word_of_nat (length (R ! c)) :: u8) = length (R ! c)"
    using le by (simp add: limit_simps unat_of_nat)
  have cnt: "chan_map_pid_cnt ctx ! c = word_of_nat (length (R ! c))"
    and m: "pid_map (fpga_pid_map ctx) = map pad_row R"
    using assms(1) c by (simp_all add: ctx_rep_def)
  have set: "pid_map_table_set_out_pid c (length (R ! c)) q
      (pid_map_table_set_in_pid c (length (R ! c)) p (map pad_row R))
    = map pad_row (R[c := R ! c @ [(p, q)]])" if "length (R ! c) < FPGA_PID_MAP_TABLE_CHAN_PIDS"
    using c le that by (simp add: set_in_out_pid pad_row_length pad_row_push map_update)
  assume push: "pid_map_table_push_pid_pair c p q ctx = (ok, ctx')"
  show ?thesis
  proof (cases "length (R ! c) < FPGA_PID_MAP_TABLE_CHAN_PIDS")
    case True
    with push have ok: "ok" and m': "pid_map (fpga_pid_map ctx') = map pad_row (R[c := R ! c @ [(p, q)]])"
      and cnt': "chan_map_pid_cnt ctx' = (chan_map_pid_cnt ctx)[c := chan_map_pid_cnt ctx ! c + 1]"
      using set by (auto simp: pid_map_table_push_pid_pair_def Let_def cnt n m)
    have "\<forall>ps \<in> set (R[c := R ! c @ [(p, q)]]). length ps \<le> FPGA_PID_MAP_TABLE_CHAN_PIDS"
      using assms(1) True by (auto simp: ctx_rep_def dest: set_update_subset_insert [THEN subsetD])
    with ok True m' cnt' assms(1) c show ?thesis by (simp add: ctx_rep_def map_update add.commute)
  next
    case False
    with push have "\<not> ok" "ctx' = ctx"
      by (auto simp: pid_map_table_push_pid_pair_def Let_def cnt n)
    with False assms(1) show ?thesis by simp
  qed
qed

definition pushed_pids :: "io_table \<Rightarrow> nat \<Rightarrow> u16 list \<Rightarrow> (u16 \<times> u16) list" where
  "pushed_pids t c ps =
     map (\<lambda>p. (p, out_pid (t c p))) (filter (\<lambda>p. is_selected (t c p) \<and> \<not> is_pmt (t c p)) ps)"

lemma ctx_rep_push_pids:
  "ctx_rep R ctx \<Longrightarrow> c < CHANNEL_MAX_NUM \<Longrightarrow>
   \<exists>ctx'. foldl (push_pid t c) (ctx, lost) ps
       = (ctx', lost @ map (Pair c) (drop (FPGA_PID_MAP_TABLE_CHAN_PIDS - length (R ! c))
                                       (map fst (pushed_pids t c ps))))
     \<and> ctx_rep (R[c := take FPGA_PID_MAP_TABLE_CHAN_PIDS (R ! c @ pushed_pids t c ps)]) ctx'"
proof (induction ps arbitrary: R ctx lost)
  case Nil
  then have "take FPGA_PID_MAP_TABLE_CHAN_PIDS (R ! c) = R ! c" by (simp add: ctx_rep_def)
  with Nil show ?case by (simp add: pushed_pids_def)
next
  case (Cons p ps)
  let ?N = FPGA_PID_MAP_TABLE_CHAN_PIDS
  from Cons.prems have c: "c < length R" "length (R ! c) \<le> ?N" by (auto simp: ctx_rep_def)
  show ?case
  proof (cases "is_selected (t c p) \<and> \<not> is_pmt (t c p)")
    case True
    obtain ok ctx1 where push: "pid_map_table_push_pid_pair c p (out_pid (t c p)) ctx = (ok, ctx1)"
      by fastforce
    note rep = ctx_rep_push [OF Cons.prems push]
    show ?thesis
    proof (cases ok)
      case True
      with rep have lt: "length (R ! c) < ?N"
        and r1: "ctx_rep (R[c := R ! c @ [(p, out_pid (t c p))]]) ctx1" by simp_all
      from lt have "?N - length (R ! c) = Suc (?N - Suc (length (R ! c)))" by simp
      with Cons.IH [OF r1 Cons.prems(2), of lost] c push True
        \<open>is_selected (t c p) \<and> \<not> is_pmt (t c p)\<close>
      show ?thesis by (simp add: push_pid_def pushed_pids_def)
    next
      case False
      with rep c have full: "length (R ! c) = ?N" and r1: "ctx_rep R ctx1" by simp_all
      with Cons.IH [OF r1 Cons.prems(2), of "lost @ [(c, p)]"] push False
        \<open>is_selected (t c p) \<and> \<not> is_pmt (t c p)\<close>
      show ?thesis by (simp add: push_pid_def pushed_pids_def)
    qed
  next
    case False
    then have "push_pid t c (ctx, lost) p = (ctx, lost)"
      and "pushed_pids t c (p # ps) = pushed_pids t c ps"
      by (auto simp: push_pid_def pushed_pids_def)
    with Cons.IH [OF Cons.prems, of lost] show ?thesis by simp
  qed
qed

lemma ctx_rep_start:
  "pid_map_wf (pid_map (fpga_pid_map ctx)) \<Longrightarrow>
   ctx_rep (replicate CHANNEL_MAX_NUM []) (pid_map_table_gen_start ctx)"
  by (simp add: ctx_rep_def pid_map_table_gen_start_def fpga_pid_map_table_clear_def
      pid_map_table_clear_eq pid_map_cleared_def pad_row_def)

lemma gather_pids_rep:
  assumes "ctx_rep (replicate CHANNEL_MAX_NUM []) ctx"
  shows "\<exists>ctx'. gather_pids t ctx = (ctx', concat (map (\<lambda>c. map (Pair c)
             (drop FPGA_PID_MAP_TABLE_CHAN_PIDS (map fst (pushed_pids t c pid_range))))
           [0..<CHANNEL_MAX_NUM]))
     \<and> ctx_rep (map (\<lambda>c. take FPGA_PID_MAP_TABLE_CHAN_PIDS (pushed_pids t c pid_range))
           [0..<CHANNEL_MAX_NUM]) ctx'"
proof -
  let ?row = "\<lambda>c. take FPGA_PID_MAP_TABLE_CHAN_PIDS (pushed_pids t c pid_range)"
  have "n \<le> CHANNEL_MAX_NUM \<Longrightarrow> \<exists>ctx'. foldl (\<lambda>acc c. foldl (push_pid t c) acc pid_range) (ctx, []) [0..<n]
     = (ctx', concat (map (\<lambda>c. map (Pair c)
             (drop FPGA_PID_MAP_TABLE_CHAN_PIDS (map fst (pushed_pids t c pid_range)))) [0..<n]))
     \<and> ctx_rep (map ?row [0..<n] @ replicate (CHANNEL_MAX_NUM - n) []) ctx'" for n
  proof (induction n)
    case 0
    then show ?case using assms by simp
  next
    case (Suc n)
    let ?R = "map ?row [0..<n] @ replicate (CHANNEL_MAX_NUM - n) []"
    from Suc obtain ctx1 where IH:
      "foldl (\<lambda>acc c. foldl (push_pid t c) acc pid_range) (ctx, []) [0..<n]
        = (ctx1, concat (map (\<lambda>c. map (Pair c)
             (drop FPGA_PID_MAP_TABLE_CHAN_PIDS (map fst (pushed_pids t c pid_range)))) [0..<n]))"
      "ctx_rep ?R ctx1" by auto
    from Suc.prems have n: "n < CHANNEL_MAX_NUM"
      "CHANNEL_MAX_NUM - n = Suc (CHANNEL_MAX_NUM - Suc n)" by simp_all
    then have "?R ! n = []" by (simp add: nth_append)
    moreover from n(2) have "?R[n := ?row n] = map ?row [0..<Suc n] @ replicate (CHANNEL_MAX_NUM - Suc n) []"
      by (simp add: list_update_append)
    ultimately show ?case
      using ctx_rep_push_pids [OF IH(2) n(1), of t _ pid_range] IH(1) by auto
  qed
  from this [of CHANNEL_MAX_NUM] show ?thesis by (simp add: gather_pids_def)
qed

section \<open>No PID of an admitted channel is discarded\<close>

lemma pushed_pids_bound:
  assumes t: "build_io_table s = Some t" and c: "c < CHANNEL_MAX_NUM" and bounded: "fp_bounded s"
  shows "length (pushed_pids t c pid_range) \<le> channel_mapped_pid_count s c"
proof -
  let ?P = "\<lambda>p. is_selected (t c p) \<and> \<not> is_pmt (t c p)"
  let ?sel = "filter FP_PROG_SELECTED (channel_row s c)"
  let ?ins = "\<lambda>q. pt_in (pcr (info q)) # map pt_in (filter (\<lambda>e. pt_in (pcr (info q)) \<noteq> pt_in e
      \<and> prog_pid_val_isvalid (pt_in e)) (es_data (info q)))"
  have "p \<in> set (concat (map ?ins ?sel))" if "?P p" for p
  proof -
    from build_io_table_origin [OF t] that obtain k q e where e: "sel_prog_at s c k q"
      "e \<in> set (prog_entries (info q))" "prog_pid_val_isvalid p" "pt_in e = p" by blast
    from e(1) bounded c have k: "k < PROGRAM_MAX_NUM" "prog_at s (prog_index c k) = Some q" "FP_PROG_SELECTED q"
      by (auto simp: sel_prog_at_def fp_bounded_def intro: order_less_le_trans)
    from e(1) have "channel_program s c q" by (auto simp: channel_program_def sel_prog_at_def)
    with that build_io_table_pmt [OF t c, of p] e(3) have "p \<noteq> pt_in (pmt (info q))" by auto
    with e(2-4) have "p \<in> set (?ins q)" by (auto simp: prog_entries_def)
    moreover have "q \<in> set (channel_row s c)"
    proof -
      from prog_at_SomeD [OF k(2)] have i: "c * PROGRAM_MAX_NUM + k < length (g_prog_info_table s)"
        "g_prog_info_table s ! (c * PROGRAM_MAX_NUM + k) = q" by (simp_all add: prog_index_def)
      then have "channel_row s c ! k = q" "k < length (channel_row s c)"
        using k(1) by (simp_all add: channel_row_def)
      then show ?thesis by (metis nth_mem)
    qed
    ultimately show ?thesis using k(3) by auto
  qed
  then have sub: "set (filter ?P pid_range) \<subseteq> set (concat (map ?ins ?sel))" by auto
  have "length (pushed_pids t c pid_range) = card (set (filter ?P pid_range))"
    by (simp add: pushed_pids_def distinct_card distinct_pid_range del: set_filter)
  also have "\<dots> \<le> card (set (concat (map ?ins ?sel)))" using sub by (intro card_mono) simp_all
  also have "\<dots> \<le> (\<Sum>q\<leftarrow>?sel. card (set (?ins q)))" by (rule card_set_concat_map_le)
  also have "\<dots> \<le> (\<Sum>q\<leftarrow>?sel. length (?ins q))" by (rule sum_list_mono) (rule card_length)
  also have "\<dots> = channel_mapped_pid_count s c"
    by (simp add: channel_mapped_pid_count_def program_mapped_pid_count_def [abs_def])
  finally show ?thesis .
qed

section \<open>The program list\<close>

definition mux_of :: "(nat \<times> nat) list \<Rightarrow> xmux_mux_program_info" where
  "mux_of L = \<lparr> mp_nprogs = word_of_nat (length L),
     mp_programs = map (\<lambda>(c, k). \<lparr> mp_chan_idx = word_of_nat c, mp_prog_idx = word_of_nat k \<rparr>) L
       @ replicate (PROGRAM_MAX_NUM - length L) \<lparr> mp_chan_idx = 0, mp_prog_idx = 0 \<rparr> \<rparr>"

lemma fill_mux_program_step:
  assumes "\<exists>q. prog_at s (prog_index c k) = Some q"
    and "length (L @ map (Pair c) (filter (selected_at s c) [k])) \<le> PROGRAM_MAX_NUM"
  shows "fill_mux_program s c (mux_of L) k = Some (mux_of (L @ map (Pair c) (filter (selected_at s c) [k])))"
proof -
  from assms(1) obtain q where q: "prog_at s (prog_index c k) = Some q" by blast
  show ?thesis
  proof (cases "FP_PROG_SELECTED q")
    case True
    with assms(2) q have L: "length L < 64" by (simp add: selected_at_def limit_simps)
    then have "unat (word_of_nat (length L) :: u16) = length L" by (simp add: unat_of_nat)
    moreover from L have "64 - length L = Suc (63 - length L)" by simp
    ultimately show ?thesis
      using True q L
      by (simp add: fill_mux_program_def mux_of_def selected_at_def limit_simps list_update_append add.commute)
  next
    case False
    with q show ?thesis by (simp add: fill_mux_program_def selected_at_def)
  qed
qed

lemma fill_mux_programs:
  "\<forall>k \<in> set ks. \<exists>q. prog_at s (prog_index c k) = Some q \<Longrightarrow>
   length (L @ map (Pair c) (filter (selected_at s c) ks)) \<le> PROGRAM_MAX_NUM \<Longrightarrow>
   foldM (fill_mux_program s c) (mux_of L) ks = Some (mux_of (L @ map (Pair c) (filter (selected_at s c) ks)))"
proof (induction ks arbitrary: L)
  case (Cons k ks)
  let ?L = "L @ map (Pair c) (filter (selected_at s c) [k])"
  have eq: "?L @ map (Pair c) (filter (selected_at s c) ks)
      = L @ map (Pair c) (filter (selected_at s c) (k # ks))" by simp
  with Cons.prems(2) have "length ?L \<le> PROGRAM_MAX_NUM" by (auto split: if_splits)
  with fill_mux_program_step [of s c k L] Cons.prems(1)
  have "fill_mux_program s c (mux_of L) k = Some (mux_of ?L)" by simp
  moreover have "foldM (fill_mux_program s c) (mux_of ?L) ks
      = Some (mux_of (?L @ map (Pair c) (filter (selected_at s c) ks)))"
    by (rule Cons.IH) (use Cons.prems(1) Cons.prems(2) eq in simp_all)
  ultimately show ?case using eq by (simp del: filter.simps)
qed simp

lemma fill_mux_prog_info_eq:
  assumes wf: "fp_wf s" and bounded: "fp_bounded s" and count: "program_selected_count s \<le> PROGRAM_MAX_NUM"
  shows "fill_mux_prog_info s = Some (mux_of (selected_programs s))"
proof -
  let ?row = "\<lambda>c. map (Pair c) (filter (selected_at s c) [0..<chan_nprogs s c])"
  have ok: "\<forall>k \<in> set [0..<chan_nprogs s c]. \<exists>q. prog_at s (prog_index c k) = Some q"
    if "c < CHANNEL_MAX_NUM" for c
  proof
    fix k assume "k \<in> set [0..<chan_nprogs s c]"
    then have "k < PROGRAM_MAX_NUM" using bounded that by (auto simp: fp_bounded_def intro: order_less_le_trans)
    from prog_index_less [OF that this] wf show "\<exists>q. prog_at s (prog_index c k) = Some q"
      by (simp add: prog_at_def fp_wf_def)
  qed
  have "foldM (\<lambda>m c. foldM (fill_mux_program s c) m [0..<chan_nprogs s c]) (mux_of L) cs
      = Some (mux_of (L @ concat (map ?row cs)))"
    if "\<forall>c \<in> set cs. c < CHANNEL_MAX_NUM" "length (L @ concat (map ?row cs)) \<le> PROGRAM_MAX_NUM" for L cs
    using that
  proof (induction cs arbitrary: L)
    case (Cons c cs)
    have "foldM (fill_mux_program s c) (mux_of L) [0..<chan_nprogs s c] = Some (mux_of (L @ ?row c))"
      by (rule fill_mux_programs) (use Cons.prems ok in auto)
    moreover have "foldM (\<lambda>m c. foldM (fill_mux_program s c) m [0..<chan_nprogs s c]) (mux_of (L @ ?row c)) cs
        = Some (mux_of ((L @ ?row c) @ concat (map ?row cs)))"
      by (rule Cons.IH) (use Cons.prems in auto)
    ultimately show ?case by simp
  qed simp
  from this [of "[0..<CHANNEL_MAX_NUM]" "[]"] selected_programs_bound [OF bounded] count
  have "foldM (\<lambda>m c. foldM (fill_mux_program s c) m [0..<chan_nprogs s c]) (mux_of []) [0..<CHANNEL_MAX_NUM]
      = Some (mux_of (selected_programs s))"
    by (simp add: selected_programs_def)
  moreover have "mux_of [] = mux_prog_info_zero" by (simp add: mux_of_def mux_prog_info_zero_def)
  ultimately show ?thesis by (simp add: fill_mux_prog_info_def)
qed

lemma gen_and_apply_eq:
  assumes t: "build_io_table s = Some t" and wf: "fp_wf s" and bounded: "fp_bounded s"
    and adm: "admitted s" and ctx: "pid_map_wf (pid_map (fpga_pid_map ctx))"
  shows "pid_map_table_gen_and_apply_from_fp ctx s =
     Some (\<lparr> cha = CHANNEL_ALL_BITMAP,
             pid_map = map (\<lambda>c. pad_row (pushed_pids t c pid_range)) [0..<CHANNEL_MAX_NUM] \<rparr>,
           mux_of (selected_programs s), [])"
proof -
  let ?N = FPGA_PID_MAP_TABLE_CHAN_PIDS
  have len: "length (pushed_pids t c pid_range) \<le> ?N" if "c < CHANNEL_MAX_NUM" for c
    using pushed_pids_bound [OF t that bounded] adm that by (auto simp: admitted_def intro: order_trans)
  from gather_pids_rep [OF ctx_rep_start [OF ctx], of t] obtain ctx' where
    g: "gather_pids t (pid_map_table_gen_start ctx) = (ctx', concat (map (\<lambda>c. map (Pair c)
         (drop ?N (map fst (pushed_pids t c pid_range)))) [0..<CHANNEL_MAX_NUM]))"
    and rep: "ctx_rep (map (\<lambda>c. take ?N (pushed_pids t c pid_range)) [0..<CHANNEL_MAX_NUM]) ctx'" by blast
  have lost: "concat (map (\<lambda>c. map (Pair c) (drop ?N (map fst (pushed_pids t c pid_range)))) [0..<CHANNEL_MAX_NUM]) = []"
    using len by simp
  have "pid_map (fpga_pid_map ctx') = map (\<lambda>c. pad_row (pushed_pids t c pid_range)) [0..<CHANNEL_MAX_NUM]"
    using rep len by (simp add: ctx_rep_def)
  moreover have "fill_mux_prog_info s = Some (mux_of (selected_programs s))"
    by (rule fill_mux_prog_info_eq) (use wf bounded adm in \<open>simp_all add: admitted_def\<close>)
  ultimately show ?thesis
    using t g lost by (simp add: pid_map_table_gen_and_apply_from_fp_def pid_map_table_gen_end_def)
qed

lemma pid_map_table_validate_True: "pid_map_table_validate m"
proof -
  have inner: "foldl (\<lambda>ok i. ok) b xs = b" for b :: bool and xs :: "nat list"
    by (induction xs) simp_all
  show ?thesis by (simp add: pid_map_table_validate_def inner)
qed

section \<open>Properties\<close>

lemma pid_map_generated:
  assumes "fp_reachable s" and "fp_wf s" and "fp_bounded s" and "outs_in_range s"
    and "pid_map_wf (pid_map (fpga_pid_map ctx))"
  shows "\<exists>t m. build_io_table s = Some t
     \<and> pid_map_table_gen_and_apply_from_fp ctx s = Some (m, mux_of (selected_programs s), [])
     \<and> cha m = CHANNEL_ALL_BITMAP \<and> length (pid_map m) = CHANNEL_MAX_NUM
     \<and> (\<forall>c < CHANNEL_MAX_NUM. length (pushed_pids t c pid_range) \<le> FPGA_PID_MAP_TABLE_CHAN_PIDS
          \<and> pid_map m ! c = pad_row (pushed_pids t c pid_range))"
proof -
  from build_io_table_total [OF assms(2-4)] obtain t where t: "build_io_table s = Some t" by blast
  have adm: "admitted s" by (rule reachable_admitted [OF assms(1)])
  have "length (pushed_pids t c pid_range) \<le> FPGA_PID_MAP_TABLE_CHAN_PIDS" if "c < CHANNEL_MAX_NUM" for c
    using pushed_pids_bound [OF t that assms(3)] adm that by (auto simp: admitted_def intro: order_trans)
  then show ?thesis
    using t gen_and_apply_eq [OF t assms(2,3) adm assms(5)] by auto
qed

definition example_ctx :: pid_map_table_gen_context where
  "example_ctx = \<lparr> fpga_pid_map = \<lparr> cha = 0, pid_map = replicate 8 (replicate 32 pid_map_pad) \<rparr>,
     chan_map_pid_cnt = replicate 8 7 \<rparr>"

lemma rule_offset:
  "unat (fold (\<lambda>q off :: u16. if in_pid > q then off + 1 else off) pids a) \<le> unat a + length pids
     \<and> (unat a + length pids < 2 ^ 16 \<longrightarrow>
        unat a \<le> unat (fold (\<lambda>q off :: u16. if in_pid > q then off + 1 else off) pids a))"
proof (induction pids arbitrary: a)
  case (Cons q pids)
  have "unat (a + 1) \<le> unat a + 1" by (simp add: unat_word_ariths(1))
  moreover have "unat a + 1 < 2 ^ 16 \<Longrightarrow> unat (a + 1) = unat a + 1" by (simp add: unat_word_ariths(1))
  ultimately show ?case using Cons [of "a + 1"] Cons [of a] by auto
qed simp

lemma rule_value:
  assumes "unat c < CHANNEL_MAX_NUM" "unat k < 32" "length pids < 15"
  shows "\<exists>off < 16. unat (pid_map_rule_map_psi_pid c k psi p pids) = 0x100 + unat c * 0x200 + 16 * unat k + off
           \<and> (psi = DSW_PID_PMT \<longleftrightarrow> off = 0)"
proof -
  define off where "off = (if psi = DSW_PID_PMT then 0
    else fold (\<lambda>q off :: u16. if p > q then off + 1 else off) pids 1)"
  have off: "unat off < 16" "psi = DSW_PID_PMT \<longleftrightarrow> unat off = 0"
    using rule_offset [of p pids 1] assms(3) by (auto simp: off_def)
  have eq: "pid_map_rule_map_psi_pid c k psi p pids
      = word_of_nat (0x100 + unat c * 0x200 + 0x10 * unat k + unat off)"
    by (simp only: pid_map_rule_map_psi_pid_def Let_def off_def defProgPidBgn_def
        PID_MAP_MAX_PID_NUM_PER_CHAN_def PID_MAP_MAX_PID_NUM_PER_PROG_def)
  have "0x100 + unat c * 0x200 + 0x10 * unat k + unat off < 2 ^ LENGTH(16)"
    using assms(1,2) off(1) by (simp add: limit_simps)
  from unat_of_nat_less [OF this] eq off show ?thesis by auto
qed

text \<open>The rule's proposal for program \<open>k\<close> of a channel stays in the channel's range of 512 PIDs
  and in the program's own 16 when the program is one of the first 32 and has fewer than 15 smaller
  PIDs; two programs of the multiplex then never get the same proposal.\<close>

theorem pid_map_rule_ranges:
  assumes "unat c < CHANNEL_MAX_NUM" and "unat k < 32" and "length pids < 15"
    and "unat c' < CHANNEL_MAX_NUM" and "unat k' < 32" and "length pids' < 15"
  shows "pid_map_rule_channel_output_pid_validate c (pid_map_rule_map_psi_pid c k psi p pids)
    \<and> (pid_map_rule_map_psi_pid c k psi p pids = pid_map_rule_map_psi_pid c' k' psi' p' pids'
         \<longrightarrow> c = c' \<and> k = k')"
proof -
  from rule_value [OF assms(1-3), of psi p] obtain off where off: "off < 16"
    "unat (pid_map_rule_map_psi_pid c k psi p pids) = 0x100 + unat c * 0x200 + 16 * unat k + off" by blast
  have "pid_map_rule_channel_output_pid_validate c (pid_map_rule_map_psi_pid c k psi p pids)"
    using off assms(2)
    by (simp add: pid_map_rule_channel_output_pid_validate_def defProgPidBgn_def PID_MAP_MAX_PID_NUM_PER_CHAN_def)
  moreover have "c = c' \<and> k = k'"
    if eq: "pid_map_rule_map_psi_pid c k psi p pids = pid_map_rule_map_psi_pid c' k' psi' p' pids'"
  proof -
    from rule_value [OF assms(4-6), of psi' p'] obtain off' where off': "off' < 16"
      "unat (pid_map_rule_map_psi_pid c' k' psi' p' pids') = 0x100 + unat c' * 0x200 + 16 * unat k' + off'" by blast
    from eq off off' have "(unat c * 32 + unat k) * 16 + off = (unat c' * 32 + unat k') * 16 + off'" by simp
    then have "unat c * 32 + unat k = unat c' * 32 + unat k'"
      by (simp only: mult_add_inj [OF off(1) off'(1)])
    then have "unat c = unat c' \<and> unat k = unat k'"
      by (simp only: mult_add_inj [OF assms(2,5)])
    then show ?thesis by (simp only: word_unat_eq_iff)
  qed
  ultimately show ?thesis by blast
qed

theorem pid_map_rule_ranges_witness:
  "pid_map_rule_channel_output_pid_validate 1 (pid_map_rule_map_psi_pid 1 2 DSW_PID_VIDEO 0x31 [0x30, 0x31])"
  using pid_map_rule_ranges [of 1 2 "[0x30, 0x31]" 1 2 "[]" DSW_PID_VIDEO "0x31"]
  by (simp add: limit_simps)

end
