(* ===== verification/Wire.thy ===== *)
theory Wire
  imports Prelude Interfaces
begin

unbundle bit_operations_syntax

text \<open>
  Bytes and words: \<^verbatim>\<open>include/wu/wu_byte_stream.h\<close>, \<^verbatim>\<open>wu_csc.h\<close>,
  \<^verbatim>\<open>wu_bitmap.h\<close> and \<^verbatim>\<open>wu_converter.h\<close>. The target is little endian, so a
  16-bit field of a packed structure is its low byte and its high byte.
\<close>

section \<open>Byte order\<close>

definition SWAP_U16 :: "u16 \<Rightarrow> u16" where
  "SWAP_U16 v = push_bit 8 (v AND 0x00FF) OR drop_bit 8 v"

definition SWAP_U32 :: "u32 \<Rightarrow> u32" where
  "SWAP_U32 v = push_bit 16 (push_bit 8 ((v AND 0xFFFF) AND 0x00FF) OR drop_bit 8 (v AND 0xFFFF))
     OR (push_bit 8 (drop_bit 16 v AND 0x00FF) OR drop_bit 8 (drop_bit 16 v))"

definition PACK_U16 :: "u8 \<Rightarrow> u8 \<Rightarrow> u16" where
  "PACK_U16 h l = push_bit 8 (ucast h) OR ucast l"

definition READ_U16 :: "u8 list \<Rightarrow> u16" where
  "READ_U16 s = PACK_U16 (s ! 1) (s ! 0)"

definition READ_U16_BE :: "u8 list \<Rightarrow> u16" where
  "READ_U16_BE s = PACK_U16 (s ! 0) (s ! 1)"

definition WRITE_U16_BE :: "u16 \<Rightarrow> u8 list" where
  "WRITE_U16_BE v = [ucast (drop_bit 8 v), ucast v]"

text \<open>A 16-bit and a 32-bit field in memory.\<close>

definition le16 :: "u16 \<Rightarrow> u8 list" where
  "le16 v = [ucast v, ucast (drop_bit 8 v)]"

definition le32 :: "u32 \<Rightarrow> u8 list" where
  "le32 v = [ucast v, ucast (drop_bit 8 v), ucast (drop_bit 16 v), ucast (drop_bit 24 v)]"

definition of_le32 :: "u8 list \<Rightarrow> u32" where
  "of_le32 s = ucast (s ! 0) OR push_bit 8 (ucast (s ! 1)) OR push_bit 16 (ucast (s ! 2))
     OR push_bit 24 (ucast (s ! 3))"

lemma byte_mask16: "(v :: 'a::len word) AND 0xFFFF = take_bit 16 v"
  by (simp add: take_bit_eq_mask mask_eq_decr_exp)

lemma PACK_U16_bytes: "PACK_U16 (ucast (drop_bit 8 v)) (ucast v) = v"
  unfolding PACK_U16_def by (intro bit_word_eqI) (auto simp: bit_simps)

lemma byte_of_PACK_U16:
  "ucast (PACK_U16 h l) = l" "ucast (drop_bit 8 (PACK_U16 h l)) = h"
  unfolding PACK_U16_def by (intro bit_word_eqI; auto simp: bit_simps dest: bit_imp_le_length)+

lemma SWAP_U16_bytes: "SWAP_U16 v = PACK_U16 (ucast v) (ucast (drop_bit 8 v))"
  unfolding SWAP_U16_def PACK_U16_def byte_simps
  by (intro bit_word_eqI) (auto simp: bit_simps dest: bit_imp_le_length)

lemma SWAP_U16_swap [simp]: "SWAP_U16 (SWAP_U16 v) = v"
  by (simp add: SWAP_U16_bytes byte_of_PACK_U16 PACK_U16_bytes)

lemma le16_length [simp]: "length (le16 v) = 2" "length (le32 w) = 4" "length (WRITE_U16_BE v) = 2"
  by (simp_all add: le16_def le32_def WRITE_U16_BE_def)

lemma READ_U16_le16: "READ_U16 (le16 v @ rest) = v"
  by (simp add: READ_U16_def le16_def PACK_U16_bytes del: One_nat_def)

lemma READ_U16_BE_write: "READ_U16_BE (WRITE_U16_BE v @ rest) = v"
  by (simp add: READ_U16_BE_def WRITE_U16_BE_def PACK_U16_bytes)

lemma le16_SWAP: "le16 (SWAP_U16 v) = WRITE_U16_BE v"
  by (simp add: le16_def WRITE_U16_BE_def SWAP_U16_bytes byte_of_PACK_U16)

lemma le16_READ_U16: "le16 (READ_U16 (a # b # rest)) = [a, b]"
  by (simp add: READ_U16_def le16_def byte_of_PACK_U16)

lemma of_le32_le32: "of_le32 (le32 v @ rest) = v"
  unfolding of_le32_def le32_def
proof (intro bit_word_eqI)
  fix n assume "n < LENGTH(32)"
  then consider "n < 8" | "8 \<le> n" "n < 16" | "16 \<le> n" "n < 24" | "24 \<le> n" "n < 32" by fastforce
  then show "bit (ucast (([ucast v, ucast (drop_bit 8 v), ucast (drop_bit 16 v), ucast (drop_bit 24 v)] @ rest) ! 0)
      OR push_bit 8 (ucast (([ucast v, ucast (drop_bit 8 v), ucast (drop_bit 16 v), ucast (drop_bit 24 v)] @ rest) ! 1))
      OR push_bit 16 (ucast (([ucast v, ucast (drop_bit 8 v), ucast (drop_bit 16 v), ucast (drop_bit 24 v)] @ rest) ! 2))
      OR push_bit 24 (ucast (([ucast v, ucast (drop_bit 8 v), ucast (drop_bit 16 v), ucast (drop_bit 24 v)] @ rest) ! 3))
      :: u32) n = bit v n"
    by cases (auto simp: bit_simps)
qed

interpretation u16: byte_codec le16 READ_U16 "\<lambda>_. True" 2
  by unfold_locales (simp_all add: READ_U16_le16)

interpretation u32: byte_codec le32 of_le32 "\<lambda>_. True" 4
  by unfold_locales (simp_all add: of_le32_le32)

section \<open>Memory\<close>

text \<open>\<^verbatim>\<open>memcpy\<close> from and to an array; past its end it has no meaning.\<close>

definition mem_read :: "u8 list \<Rightarrow> nat \<Rightarrow> nat \<Rightarrow> u8 list option" where
  "mem_read m a n = (if a + n \<le> length m then Some (take n (drop a m)) else None)"

definition mem_write :: "u8 list \<Rightarrow> nat \<Rightarrow> u8 list \<Rightarrow> u8 list option" where
  "mem_write m a bs =
     (if a + length bs \<le> length m then Some (take a m @ bs @ drop (a + length bs) m) else None)"

lemma mem_write_mid:
  "length pre = a \<Longrightarrow> length bs = length mid \<Longrightarrow> mem_write (pre @ mid @ post) a bs = Some (pre @ bs @ post)"
  by (auto simp: mem_write_def)

section \<open>Check sum\<close>

definition wu_csc :: "u8 list \<Rightarrow> u8" where
  "wu_csc buf = foldl (+) 0 buf"

lemma foldl_plus: "foldl (+) (a :: u8) xs = a + sum_list xs"
  by (induction xs arbitrary: a) (simp_all add: add.assoc)

lemma wu_csc_sum: "wu_csc buf = sum_list buf"
  by (simp add: wu_csc_def foldl_plus)

lemma wu_csc_append: "wu_csc (xs @ ys) = wu_csc xs + wu_csc ys"
  by (simp add: wu_csc_sum)

text \<open>A changed byte changes the sum.\<close>

lemma wu_csc_update:
  assumes "i < length xs"
  shows "wu_csc (xs[i := b]) = wu_csc xs \<longleftrightarrow> b = xs ! i"
proof -
  have "xs = take i xs @ xs ! i # drop (Suc i) xs" using assms by (rule id_take_nth_drop)
  then have "sum_list xs = sum_list (take i xs) + (xs ! i + sum_list (drop (Suc i) xs))"
    by (metis sum_list.Cons sum_list_append)
  moreover have "sum_list (xs[i := b]) = sum_list (take i xs) + (b + sum_list (drop (Suc i) xs))"
    using assms by (simp add: upd_conv_take_nth_drop)
  ultimately show ?thesis by (simp add: wu_csc_sum)
qed

section \<open>Bit maps\<close>

definition wu_bitmap_set_bit :: "nat \<Rightarrow> u8 list \<Rightarrow> u8 list" where
  "wu_bitmap_set_bit n bmp = bmp[n div 8 := bmp ! (n div 8) OR push_bit (n mod 8) 1]"

definition wu_bitmap_clear_bit :: "nat \<Rightarrow> u8 list \<Rightarrow> u8 list" where
  "wu_bitmap_clear_bit n bmp = bmp[n div 8 := bmp ! (n div 8) AND NOT (push_bit (n mod 8) 1)]"

definition wu_bitmap_test_bit :: "u8 list \<Rightarrow> nat \<Rightarrow> bool" where
  "wu_bitmap_test_bit bmp n \<longleftrightarrow> bmp ! (n div 8) AND push_bit (n mod 8) 1 \<noteq> 0"

lemma wu_bitmap_test_bit: "wu_bitmap_test_bit bmp n \<longleftrightarrow> bit (bmp ! (n div 8)) (n mod 8)"
proof -
  have "push_bit m (1 :: u8) = 2 ^ m" for m by (simp add: push_bit_eq_mult)
  then show ?thesis by (simp add: wu_bitmap_test_bit_def and_exp_eq_0_iff_not_bit)
qed

definition bitmap_holds :: "u8 list \<Rightarrow> nat \<Rightarrow> bool" where
  "bitmap_holds bmp n \<longleftrightarrow> n div 8 < length bmp"

interpretation bitmap: bit_store wu_bitmap_test_bit wu_bitmap_set_bit wu_bitmap_clear_bit bitmap_holds
proof unfold_locales
  fix s :: "u8 list" and i j :: nat
  have mod8: "n mod 8 < 8" for n :: nat by simp
  have eq: "j div 8 = i div 8 \<and> j mod 8 = i mod 8 \<longleftrightarrow> j = i" by (metis mult_div_mod_eq)
  assume i: "bitmap_holds s i"
  show "bitmap_holds (wu_bitmap_set_bit i s) j = bitmap_holds s j"
    "bitmap_holds (wu_bitmap_clear_bit i s) j = bitmap_holds s j"
    by (simp_all add: bitmap_holds_def wu_bitmap_set_bit_def wu_bitmap_clear_bit_def)
  show "wu_bitmap_test_bit (wu_bitmap_set_bit i s) j = (j = i \<or> wu_bitmap_test_bit s j)"
    using i eq mod8 [of j] mod8 [of i]
    by (cases "j div 8 = i div 8")
       (auto simp: wu_bitmap_test_bit wu_bitmap_set_bit_def bitmap_holds_def bit_simps nth_list_update)
  show "wu_bitmap_test_bit (wu_bitmap_clear_bit i s) j = (j \<noteq> i \<and> wu_bitmap_test_bit s j)"
    using i eq mod8 [of j] mod8 [of i]
    by (cases "j div 8 = i div 8")
       (auto simp: wu_bitmap_test_bit wu_bitmap_clear_bit_def bitmap_holds_def bit_simps nth_list_update)
qed

section \<open>BCD\<close>

text \<open>\<^verbatim>\<open>wu_bcd2hex\<close>: the decimal digits of the argument become the hexadecimal digits
  of the result.\<close>

fun bcd_loop :: "nat \<Rightarrow> nat \<Rightarrow> u32 \<Rightarrow> u32 \<Rightarrow> u32" where
  "bcd_loop 0 i dv hex = hex"
| "bcd_loop (Suc n) i dv hex = bcd_loop n (Suc i) (dv div 10) (hex OR push_bit (4 * i) (dv mod 10))"

definition wu_bcd2hex :: "u32 \<Rightarrow> u32" where
  "wu_bcd2hex bcd = bcd_loop 8 0 bcd 0"

end
