(* ===== verification/ProgWire.thy ===== *)
theory ProgWire
  imports ProgInfo Wire
begin

text \<open>
  Programs as bytes: the packed layout of \<^verbatim>\<open>struct xmux_program_info\<close> and
  \<^verbatim>\<open>PROG_INFO_T\<close> in memory, and the byte swapping of
  \<^verbatim>\<open>src/front_panel_data_churning.c\<close> that turns it into the big-endian form of the
  front panel's messages and back.
\<close>

section \<open>The layout in memory\<close>

definition entry_mem :: "pid_trans_entry \<Rightarrow> u8 list" where
  "entry_mem e = pt_type e # le16 (pt_in e) @ le16 (pt_out e)"

definition entry_of_mem :: "u8 list \<Rightarrow> pid_trans_entry" where
  "entry_of_mem bs = \<lparr> pt_type = bs ! 0, pt_in = READ_U16 (drop 1 bs), pt_out = READ_U16 (drop 3 bs) \<rparr>"

interpretation entry: byte_codec entry_mem entry_of_mem "\<lambda>_. True" 5
proof unfold_locales
  fix e :: pid_trans_entry and rest
  show "length (entry_mem e) = 5" by (simp add: entry_mem_def)
  have "drop 3 (entry_mem e @ rest) = le16 (pt_out e) @ rest"
    by (simp add: entry_mem_def le16_def)
  then show "entry_of_mem (entry_mem e @ rest) = e"
    by (simp add: entry_of_mem_def) (simp add: entry_mem_def READ_U16_le16)
qed

text \<open>A program name is two fields of 33 bytes.\<close>

definition info_mem :: "xmux_program_info \<Rightarrow> u8 list" where
  "info_mem i = le16 (prog_num i) @ entry_mem (pmt i) @ entry_mem (pcr i)
     @ concat (map entry_mem (es_data i)) @ concat (prog_name i)"

definition info_of_mem :: "u8 list \<Rightarrow> xmux_program_info" where
  "info_of_mem bs = \<lparr> prog_num = READ_U16 bs, pmt = entry_of_mem (drop 2 bs), pcr = entry_of_mem (drop 7 bs),
     es_data = map (\<lambda>i. entry_of_mem (drop (12 + i * 5) bs)) [0..<PROGRAM_DATA_PID_MAX_NUM],
     prog_name = [take PROGRAM_NAME_SIZE (drop 82 bs), take PROGRAM_NAME_SIZE (drop 115 bs)] \<rparr>"

definition info_bytes_wf :: "xmux_program_info \<Rightarrow> bool" where
  "info_bytes_wf i \<longleftrightarrow> info_wf i \<and> map length (prog_name i) = [PROGRAM_NAME_SIZE, PROGRAM_NAME_SIZE]"

definition INFO_SIZE :: nat where "INFO_SIZE = 148"

lemma info_mem_length: "info_bytes_wf i \<Longrightarrow> length (info_mem i) = INFO_SIZE"
  by (auto simp: info_mem_def info_bytes_wf_def info_wf_def entry.enc_length entry.concat_length
      INFO_SIZE_def limit_simps Cons_eq_map_conv)

lemma info_of_mem_info_mem:
  assumes "info_bytes_wf i"
  shows "info_of_mem (info_mem i @ rest) = i"
proof -
  from assms obtain n0 n1 where names: "prog_name i = [n0, n1]" "length n0 = 33" "length n1 = 33"
    and es: "length (es_data i) = 14"
    by (auto simp: info_bytes_wf_def info_wf_def limit_simps Cons_eq_map_conv)
  let ?tail = "n0 @ n1 @ rest"
  let ?data = "concat (map entry_mem (es_data i)) @ ?tail"
  have mem: "info_mem i @ rest = le16 (prog_num i) @ entry_mem (pmt i) @ entry_mem (pcr i) @ ?data"
    by (simp add: info_mem_def names)
  have d2: "drop 2 (info_mem i @ rest) = entry_mem (pmt i) @ entry_mem (pcr i) @ ?data"
    unfolding mem by simp
  have d7: "drop 7 (info_mem i @ rest) = entry_mem (pcr i) @ ?data"
    unfolding mem by (simp add: entry.enc_length)
  have d12: "drop (12 + k) (info_mem i @ rest) = drop k ?data" for k
    unfolding mem by (simp add: entry.enc_length)
  have d82: "drop 82 (info_mem i @ rest) = ?tail"
    using d12 [of 70] es by (simp add: entry.concat_length)
  have d115: "drop 115 (info_mem i @ rest) = n1 @ rest"
    using d12 [of 103] es names by (simp add: entry.concat_length)
  have data: "map (\<lambda>k. entry_of_mem (drop (12 + k * 5) (info_mem i @ rest))) [0..<14] = es_data i"
    unfolding d12 using entry.dec_array [of "es_data i" ?tail] es by simp
  have "READ_U16 (info_mem i @ rest) = prog_num i" unfolding mem by (rule READ_U16_le16)
  with d2 d7 d82 d115 data names show ?thesis
    by (simp add: info_of_mem_def entry.dec_enc limit_simps)
qed

interpretation info: byte_codec info_mem info_of_mem info_bytes_wf INFO_SIZE
  by unfold_locales (simp_all add: info_mem_length info_of_mem_info_mem)

definition prog_mem :: "prog_info_t \<Rightarrow> u8 list" where
  "prog_mem p = status p # info_mem (info p)"

definition prog_of_mem :: "u8 list \<Rightarrow> prog_info_t" where
  "prog_of_mem bs = \<lparr> status = bs ! 0, info = info_of_mem (drop 1 bs) \<rparr>"

definition PROG_SIZE :: nat where "PROG_SIZE = 149"

interpretation prog: byte_codec prog_mem prog_of_mem "\<lambda>p. info_bytes_wf (info p)" PROG_SIZE
  by unfold_locales
     (simp_all add: prog_mem_def prog_of_mem_def info.enc_length info.dec_enc PROG_SIZE_def INFO_SIZE_def)

lemma info_of_mem_wf: "INFO_SIZE \<le> length bs \<Longrightarrow> info_bytes_wf (info_of_mem bs)"
  by (simp add: info_of_mem_def info_bytes_wf_def info_wf_def INFO_SIZE_def limit_simps)

section \<open>Byte order of the front panel\<close>

definition churn_entry :: "pid_trans_entry \<Rightarrow> pid_trans_entry" where
  "churn_entry e = e\<lparr> pt_in := SWAP_U16 (pt_in e), pt_out := SWAP_U16 (pt_out e) \<rparr>"

definition churning_xmux_program_info :: "xmux_program_info \<Rightarrow> xmux_program_info" where
  "churning_xmux_program_info i =
     i\<lparr> prog_num := SWAP_U16 (prog_num i), pmt := churn_entry (pmt i), pcr := churn_entry (pcr i),
        es_data := map churn_entry (es_data i) \<rparr>"

definition buf_2_prog_info :: "u8 list \<Rightarrow> prog_info_t" where
  "buf_2_prog_info buf =
     (let p = prog_of_mem buf in p\<lparr> info := churning_xmux_program_info (info p) \<rparr>)"

definition prog_info_2_buf :: "prog_info_t \<Rightarrow> u8 list" where
  "prog_info_2_buf p = prog_mem (p\<lparr> info := churning_xmux_program_info (info p) \<rparr>)"

definition pid_2_buf :: "u16 \<Rightarrow> u8 list" where
  "pid_2_buf pid = WRITE_U16_BE (if pid = 0 then DATA_PID_PAD_VALUE else pid)"

record out_rate_t =
  or_rate :: u32
  or_len :: u8

definition out_rate_mem :: "out_rate_t \<Rightarrow> u8 list" where
  "out_rate_mem r = le32 (or_rate r) @ [or_len r]"

definition out_rate_of_mem :: "u8 list \<Rightarrow> out_rate_t" where
  "out_rate_of_mem bs = \<lparr> or_rate = of_le32 bs, or_len = bs ! 4 \<rparr>"

definition buf_2_out_rate :: "u8 list \<Rightarrow> out_rate_t" where
  "buf_2_out_rate buf = (let r = out_rate_of_mem buf in r\<lparr> or_rate := SWAP_U32 (or_rate r) \<rparr>)"

lemma churn_churn [simp]:
  "churn_entry (churn_entry e) = e"
  "churning_xmux_program_info (churning_xmux_program_info i) = i"
  by (simp_all add: churn_entry_def churning_xmux_program_info_def comp_def)

lemma churn_wf [simp]: "info_bytes_wf (churning_xmux_program_info i) = info_bytes_wf i"
  by (simp add: info_bytes_wf_def info_wf_def churning_xmux_program_info_def)

interpretation fp_prog: byte_codec prog_info_2_buf buf_2_prog_info "\<lambda>p. info_bytes_wf (info p)" PROG_SIZE
  by unfold_locales (simp_all add: prog_info_2_buf_def buf_2_prog_info_def prog.enc_length prog.dec_enc Let_def)

text \<open>In the message every number is big endian.\<close>

lemma entry_mem_churn:
  "entry_mem (churn_entry e) = pt_type e # WRITE_U16_BE (pt_in e) @ WRITE_U16_BE (pt_out e)"
  by (simp add: entry_mem_def churn_entry_def le16_SWAP)

lemma SWAP_U32_bytes: "SWAP_U32 v = of_le32 (rev (le32 v))"
  unfolding SWAP_U32_def of_le32_def le32_def byte_simps
proof (intro bit_word_eqI)
  fix n assume "n < LENGTH(32)"
  then consider "n < 8" | "8 \<le> n" "n < 16" | "16 \<le> n" "n < 24" | "24 \<le> n" "n < 32" by fastforce
  then show "bit (push_bit 16 (push_bit 8 (take_bit 8 (v AND 0xFFFF)) OR drop_bit 8 (v AND 0xFFFF))
      OR (push_bit 8 (take_bit 8 (drop_bit 16 v)) OR drop_bit 8 (drop_bit 16 v))) n =
    bit (ucast (rev [ucast v, ucast (drop_bit 8 v), ucast (drop_bit 16 v), ucast (drop_bit 24 v)] ! 0 :: u8)
      OR push_bit 8 (ucast (rev [ucast v, ucast (drop_bit 8 v), ucast (drop_bit 16 v), ucast (drop_bit 24 v)] ! 1 :: u8))
      OR push_bit 16 (ucast (rev [ucast v, ucast (drop_bit 8 v), ucast (drop_bit 16 v), ucast (drop_bit 24 v)] ! 2 :: u8))
      OR push_bit 24 (ucast (rev [ucast v, ucast (drop_bit 8 v), ucast (drop_bit 16 v), ucast (drop_bit 24 v)] ! 3 :: u8))
      :: u32) n"
    by cases (auto simp: bit_simps byte_mask16 dest: bit_imp_le_length)
qed

end
