(* ===== verification/PidTransInfo.thy ===== *)
theory PidTransInfo
  imports ProgWire
begin

unbundle bit_operations_syntax

text \<open>
  The PID translation record of a channel, as the EEPROM and the SNMP tree hold it
  (\<^verbatim>\<open>struct pid_trans_info_snmp_data\<close>): how the program table is saved to it and loaded
  from it (\<^verbatim>\<open>src/front_panel_data_churning.c\<close>), its validation, and the eight SNMP nodes
  that transfer it in pieces (\<^verbatim>\<open>src/pid_trans_info.c\<close>).
\<close>

section \<open>The record\<close>

record xmux_program_info_with_csc =
  pc_info :: xmux_program_info
  pc_csc :: u8

record pid_trans_info_snmp_data =
  data_len :: u16
  update_flag_and_chan_num :: u8
  nprogs :: u8
  sel_status :: "u8 list"
  programs :: "xmux_program_info_with_csc list"

definition with_csc_mem :: "xmux_program_info_with_csc \<Rightarrow> u8 list" where
  "with_csc_mem p = info_mem (pc_info p) @ [pc_csc p]"

definition with_csc_of_mem :: "u8 list \<Rightarrow> xmux_program_info_with_csc" where
  "with_csc_of_mem bs = \<lparr> pc_info = info_of_mem bs, pc_csc = bs ! INFO_SIZE \<rparr>"

definition WITH_CSC_SIZE :: nat where "WITH_CSC_SIZE = 149"

interpretation with_csc: byte_codec with_csc_mem with_csc_of_mem "\<lambda>p. info_bytes_wf (pc_info p)" WITH_CSC_SIZE
proof unfold_locales
  fix p :: xmux_program_info_with_csc and rest
  assume wf: "info_bytes_wf (pc_info p)"
  show "length (with_csc_mem p) = WITH_CSC_SIZE"
    using wf by (simp add: with_csc_mem_def info.enc_length WITH_CSC_SIZE_def INFO_SIZE_def)
  have "(with_csc_mem p @ rest) ! INFO_SIZE = pc_csc p"
    using wf by (simp add: with_csc_mem_def nth_append info.enc_length)
  moreover have "info_of_mem (with_csc_mem p @ rest) = pc_info p"
    using info.dec_enc [OF wf, of "pc_csc p # rest"] by (simp add: with_csc_mem_def)
  ultimately show "with_csc_of_mem (with_csc_mem p @ rest) = p" by (simp add: with_csc_of_mem_def)
qed

definition PROGRAMS_OFFSET :: nat where "PROGRAMS_OFFSET = 12"
definition PID_TRANS_INFO_SIZE :: nat where "PID_TRANS_INFO_SIZE = 9548"

definition trans_mem :: "pid_trans_info_snmp_data \<Rightarrow> u8 list" where
  "trans_mem d = le16 (data_len d) @ [update_flag_and_chan_num d, nprogs d] @ sel_status d
     @ concat (map with_csc_mem (programs d))"

definition trans_of_mem :: "u8 list \<Rightarrow> pid_trans_info_snmp_data" where
  "trans_of_mem bs = \<lparr> data_len = READ_U16 bs, update_flag_and_chan_num = bs ! 2, nprogs = bs ! 3,
     sel_status = take 8 (drop 4 bs),
     programs = map (\<lambda>i. with_csc_of_mem (drop (PROGRAMS_OFFSET + i * WITH_CSC_SIZE) bs)) [0..<PROGRAM_MAX_NUM] \<rparr>"

definition trans_wf :: "pid_trans_info_snmp_data \<Rightarrow> bool" where
  "trans_wf d \<longleftrightarrow> length (sel_status d) = 8 \<and> length (programs d) = PROGRAM_MAX_NUM
     \<and> (\<forall>p \<in> set (programs d). info_bytes_wf (pc_info p))"

interpretation trans: byte_codec trans_mem trans_of_mem trans_wf PID_TRANS_INFO_SIZE
proof unfold_locales
  fix d :: pid_trans_info_snmp_data and rest
  assume wf: "trans_wf d"
  then have sel: "length (sel_status d) = 8" and n: "length (programs d) = 64"
    and ok: "\<forall>p \<in> set (programs d). info_bytes_wf (pc_info p)"
    by (simp_all add: trans_wf_def limit_simps)
  show "length (trans_mem d) = PID_TRANS_INFO_SIZE"
    using sel n with_csc.concat_length [OF ok]
    by (simp add: trans_mem_def PID_TRANS_INFO_SIZE_def WITH_CSC_SIZE_def)
  let ?ps = "concat (map with_csc_mem (programs d)) @ rest"
  have mem: "trans_mem d @ rest = le16 (data_len d) @ update_flag_and_chan_num d # nprogs d # sel_status d @ ?ps"
    by (simp add: trans_mem_def)
  have "drop 12 (trans_mem d @ rest) = ?ps"
    unfolding mem using sel by (simp add: le16_def)
  then have d: "drop (12 + k) (trans_mem d @ rest) = drop k ?ps" for k
    by (metis add.commute drop_drop)
  have sl: "take 8 (drop 4 (trans_mem d @ rest)) = sel_status d"
    unfolding mem using sel by (simp add: le16_def)
  have hd: "READ_U16 (trans_mem d @ rest) = data_len d" "(trans_mem d @ rest) ! 2 = update_flag_and_chan_num d"
    "(trans_mem d @ rest) ! 3 = nprogs d"
    unfolding mem by (simp_all add: READ_U16_le16) (simp_all add: le16_def)
  have "map (\<lambda>k. with_csc_of_mem (drop (12 + k * WITH_CSC_SIZE) (trans_mem d @ rest))) [0..<64] = programs d"
    unfolding d using with_csc.dec_array [OF ok, of rest] n by simp
  with hd sl show "trans_of_mem (trans_mem d @ rest) = d"
    by (simp add: trans_of_mem_def PROGRAMS_OFFSET_def limit_simps)
qed

section \<open>Validation\<close>

text \<open>\<open>None\<close> is the read of a program past the 64 the record holds.\<close>

fun check_cscs :: "xmux_program_info_with_csc list \<Rightarrow> nat list \<Rightarrow> bool option" where
  "check_cscs ps [] = Some True"
| "check_cscs ps (k # ks) =
     (if length ps \<le> k then None
      else if pc_csc (ps ! k) \<noteq> wu_csc (info_mem (pc_info (ps ! k))) then Some False
      else check_cscs ps ks)"

definition pid_trans_info_validate :: "pid_trans_info_snmp_data \<Rightarrow> bool option" where
  "pid_trans_info_validate d =
     (if data_len d \<noteq> 0 \<and> unat (data_len d) > PID_TRANS_INFO_SIZE - 2 then Some False
      else check_cscs (programs d) [0..<unat (nprogs d)])"

section \<open>Saving and loading the program table\<close>

definition save_program ::
  "fp_state \<Rightarrow> nat \<Rightarrow> pid_trans_info_snmp_data \<Rightarrow> nat \<Rightarrow> pid_trans_info_snmp_data option" where
  "save_program s c d k =
     do {
       prog \<leftarrow> prog_at s (prog_index c k);
       if length (programs d) \<le> k then None
       else Some (d\<lparr> sel_status := (if FP_PROG_SELECTED prog then wu_bitmap_set_bit k (sel_status d)
                                    else wu_bitmap_clear_bit k (sel_status d)),
                     programs := (programs d)[k := \<lparr> pc_info = info prog, pc_csc = wu_csc (info_mem (info prog)) \<rparr>] \<rparr>)
     }"

definition prog_info_2_pid_trans_info_of_channel ::
  "nat \<Rightarrow> fp_state \<Rightarrow> pid_trans_info_snmp_data \<Rightarrow> pid_trans_info_snmp_data option" where
  "prog_info_2_pid_trans_info_of_channel c s d =
     (let d = d\<lparr> data_len := 0, update_flag_and_chan_num := word_of_nat c, nprogs := g_chan_num s ! c \<rparr>
      in if nprogs d = 0 then Some d
         else do {
           d \<leftarrow> foldM (save_program s c) d [0..<unat (nprogs d)];
           Some (d\<lparr> data_len := word_of_nat (PROGRAMS_OFFSET - 2 + WITH_CSC_SIZE * unat (nprogs d)) \<rparr>)
         })"

definition prog_zero :: prog_info_t where
  "prog_zero = prog_of_mem (replicate PROG_SIZE 0)"

definition load_program ::
  "pid_trans_info_snmp_data \<Rightarrow> nat \<Rightarrow> fp_state \<Rightarrow> nat \<Rightarrow> fp_state option" where
  "load_program d c s k =
     do {
       prog \<leftarrow> prog_at s (prog_index c k);
       if length (programs d) \<le> k then None
       else (let prog = (if wu_bitmap_test_bit (sel_status d) k then FP_SELECT_PROG prog
                         else FP_DESELECT_PROG prog)
             in Some (set_prog_at s (prog_index c k) (prog\<lparr> info := pc_info (programs d ! k) \<rparr>)))
     }"

definition pid_trans_info_2_prog_info_of_channel ::
  "nat \<Rightarrow> pid_trans_info_snmp_data \<Rightarrow> fp_state \<Rightarrow> fp_state option" where
  "pid_trans_info_2_prog_info_of_channel c d s =
     (let s = s\<lparr> g_chan_num := (g_chan_num s)[c := nprogs d] \<rparr>
      in if nprogs d = 0 then
           Some (foldl (\<lambda>s k. set_prog_at s (prog_index c k) prog_zero) s [0..<PROGRAM_MAX_NUM])
         else foldM (load_program d c) s [0..<unat (nprogs d)])"

text \<open>All channels; the EEPROM image holds one record per channel.\<close>

definition prog_info_2_pid_trans_info ::
  "fp_state \<Rightarrow> pid_trans_info_snmp_data list \<Rightarrow> pid_trans_info_snmp_data list option" where
  "prog_info_2_pid_trans_info s table =
     foldM (\<lambda>t c. do { d \<leftarrow> prog_info_2_pid_trans_info_of_channel c s (t ! c); Some (t[c := d]) })
       table [0..<CHANNEL_MAX_NUM]"

definition pid_trans_info_2_prog_info ::
  "pid_trans_info_snmp_data list \<Rightarrow> fp_state \<Rightarrow> fp_state option" where
  "pid_trans_info_2_prog_info table s =
     foldM (\<lambda>s c. pid_trans_info_2_prog_info_of_channel c (table ! c) s) s [0..<CHANNEL_MAX_NUM]"

section \<open>The SNMP nodes\<close>

text \<open>
  The records of all channels are one array, so its memory is one byte list; a node is a piece of
  1194 bytes of the record of its channel. A read or write past the array is \<open>None\<close>.
\<close>

definition NODE_NUM :: nat where "NODE_NUM = 8"
definition NODE_MAX_SIZE :: nat where "NODE_MAX_SIZE = 1194"

definition node_offset :: "nat \<Rightarrow> nat" where
  "node_offset trans_idx =
     trans_idx div NODE_NUM * PID_TRANS_INFO_SIZE + trans_idx mod NODE_NUM * NODE_MAX_SIZE"

definition node_size :: "u8 list \<Rightarrow> nat \<Rightarrow> nat" where
  "node_size m trans_idx =
     (let mib_data_len = unat (READ_U16 (drop (trans_idx div NODE_NUM * PID_TRANS_INFO_SIZE) m) + 2)
      in if trans_idx mod NODE_NUM < mib_data_len div NODE_MAX_SIZE then NODE_MAX_SIZE
         else mib_data_len mod NODE_MAX_SIZE)"

definition pid_trans_info_read_data_snmp :: "u8 list \<Rightarrow> nat \<Rightarrow> u8 list option" where
  "pid_trans_info_read_data_snmp m trans_idx = mem_read m (node_offset trans_idx) (node_size m trans_idx)"

text \<open>The last piece is validated; the result of that is only reported.\<close>

definition pid_trans_info_write_data_snmp :: "nat \<Rightarrow> u8 list \<Rightarrow> u8 list \<Rightarrow> u8 list option" where
  "pid_trans_info_write_data_snmp trans_idx v m =
     do {
       m \<leftarrow> (if trans_idx mod NODE_NUM = 0
            then mem_write m (trans_idx div NODE_NUM * PID_TRANS_INFO_SIZE) (replicate PID_TRANS_INFO_SIZE 0)
            else Some m);
       m \<leftarrow> mem_write m (node_offset trans_idx) v;
       if length v < NODE_MAX_SIZE \<or> trans_idx mod NODE_NUM = NODE_NUM - 1
       then do {
         ok \<leftarrow> pid_trans_info_validate
                (trans_of_mem (drop (trans_idx div NODE_NUM * PID_TRANS_INFO_SIZE) m));
         Some m
       }
       else Some m
     }"

definition pid_trans_info_request_save ::
  "u8 list \<Rightarrow> pid_trans_info_snmp_data list" where
  "pid_trans_info_request_save m =
     map (\<lambda>c. trans_of_mem (drop (c * PID_TRANS_INFO_SIZE) m)) [0..<CHANNEL_MAX_NUM]"

section \<open>Saving validates and loads back\<close>

lemma check_cscs_True:
  "(\<And>k. k \<in> set ks \<Longrightarrow> k < length ps \<and> pc_csc (ps ! k) = wu_csc (info_mem (pc_info (ps ! k)))) \<Longrightarrow>
   check_cscs ps ks = Some True"
  by (induction ks) (auto simp: not_le)

text \<open>The loop of the save, over any list of distinct indices.\<close>

lemma save_programs:
  assumes "foldM (save_program s c) d ks = Some d'" "distinct ks"
  shows "length (programs d') = length (programs d) \<and> nprogs d' = nprogs d
    \<and> data_len d' = data_len d \<and> update_flag_and_chan_num d' = update_flag_and_chan_num d
    \<and> (\<forall>k. k \<in> set ks \<longrightarrow> (\<exists>p. prog_at s (prog_index c k) = Some p \<and> k < length (programs d)
          \<and> programs d' ! k = \<lparr> pc_info = info p, pc_csc = wu_csc (info_mem (info p)) \<rparr>))
    \<and> (\<forall>k. k \<notin> set ks \<longrightarrow> programs d' ! k = programs d ! k)"
  using assms
proof (induction ks arbitrary: d)
  case (Cons k ks)
  from Cons.prems obtain d1 where d1: "save_program s c d k = Some d1" "foldM (save_program s c) d1 ks = Some d'"
    by (auto simp: bind_Some_iff)
  from d1(1) obtain p where p: "prog_at s (prog_index c k) = Some p" "k < length (programs d)"
    and d1': "programs d1 = (programs d)[k := \<lparr> pc_info = info p, pc_csc = wu_csc (info_mem (info p)) \<rparr>]"
      "nprogs d1 = nprogs d" "data_len d1 = data_len d"
      "update_flag_and_chan_num d1 = update_flag_and_chan_num d"
    by (auto simp: save_program_def bind_Some_iff split: if_splits)
  from Cons.prems(2) have ks: "k \<notin> set ks" "distinct ks" by simp_all
  note IH = Cons.IH [OF d1(2) ks(2)]
  have "programs d' ! k = \<lparr> pc_info = info p, pc_csc = wu_csc (info_mem (info p)) \<rparr>"
    using IH ks(1) p(2) by (simp add: d1')
  moreover have "programs d' ! j = programs d ! j" if "j \<notin> set (k # ks)" for j
    using IH that by (simp add: d1')
  ultimately show ?case using IH p by (auto simp: d1')
qed simp

lemma save_programs_sel:
  assumes "foldM (save_program s c) d ks = Some d'" "\<forall>k \<in> set ks. k < 8 * length (sel_status d)"
  shows "length (sel_status d') = length (sel_status d)"
    and "wu_bitmap_test_bit (sel_status d') j = (if j \<in> set ks
         then (case prog_at s (prog_index c j) of Some p \<Rightarrow> FP_PROG_SELECTED p | None \<Rightarrow> False)
         else wu_bitmap_test_bit (sel_status d) j)"
proof -
  let ?f = "\<lambda>k. case prog_at s (prog_index c k) of Some p \<Rightarrow> FP_PROG_SELECTED p | None \<Rightarrow> False"
  have fold: "sel_status d' = foldl (\<lambda>b k. if ?f k then wu_bitmap_set_bit k b else wu_bitmap_clear_bit k b)
      (sel_status d) ks"
    using assms(1)
    by (induction ks arbitrary: d) (auto simp: bind_Some_iff save_program_def split: if_splits)
  have "length (foldl (\<lambda>b k. if f k then wu_bitmap_set_bit k b else wu_bitmap_clear_bit k b) b xs) = length b"
    for f b xs
    by (induction xs arbitrary: b) (auto simp: wu_bitmap_set_bit_def wu_bitmap_clear_bit_def)
  then show "length (sel_status d') = length (sel_status d)" unfolding fold .
  have "\<forall>k \<in> set ks. bitmap_holds (sel_status d) k"
    using assms(2) by (auto simp: bitmap_holds_def less_mult_imp_div_less mult.commute)
  from bitmap.write_all(1) [OF this, of ?f j] show
    "wu_bitmap_test_bit (sel_status d') j = (if j \<in> set ks then ?f j else wu_bitmap_test_bit (sel_status d) j)"
    unfolding fold .
qed

lemma save_programs_total:
  assumes "\<forall>k \<in> set ks. k < length (programs d) \<and> (\<exists>p. prog_at s (prog_index c k) = Some p)"
  shows "\<exists>d'. foldM (save_program s c) d ks = Some d'"
proof -
  have "\<exists>d'. foldM (save_program s c) d ks = Some d' \<and> length (programs d') = length (programs d)"
    by (rule foldM_total [where P = "\<lambda>d'. length (programs d') = length (programs d)"])
       (use assms in \<open>auto simp: save_program_def\<close>)
  then show ?thesis by blast
qed


lemma trans_no_of_nat: "n \<le> 64 \<Longrightarrow> unat (word_of_nat (10 + 149 * n) :: u16) = 10 + 149 * n"
  by (rule unat_of_nat_less) simp

text \<open>A channel that has no more programs than the record holds can be saved, and the record
  says what the table says.\<close>

lemma save_channel:
  assumes "fp_wf s" "fp_bounded s" "c < CHANNEL_MAX_NUM" "trans_wf d"
  shows "\<exists>d'. prog_info_2_pid_trans_info_of_channel c s d = Some d' \<and> nprogs d' = g_chan_num s ! c
    \<and> length (programs d') = 64
    \<and> data_len d' = (if nprogs d' = 0 then 0 else word_of_nat (10 + 149 * unat (nprogs d')))
    \<and> (\<forall>k < chan_nprogs s c. \<exists>p. prog_at s (prog_index c k) = Some p
         \<and> programs d' ! k = \<lparr> pc_info = info p, pc_csc = wu_csc (info_mem (info p)) \<rparr>
         \<and> wu_bitmap_test_bit (sel_status d') k = FP_PROG_SELECTED p)"
proof (cases "g_chan_num s ! c = 0")
  case True
  with assms show ?thesis
    by (simp add: prog_info_2_pid_trans_info_of_channel_def chan_nprogs_def trans_wf_def limit_simps)
next
  case False
  let ?n = "unat (g_chan_num s ! c)"
  let ?d = "d\<lparr> data_len := 0, update_flag_and_chan_num := word_of_nat c, nprogs := g_chan_num s ! c \<rparr>"
  have n: "?n \<le> 64" using assms(2,3) by (simp add: fp_bounded_def chan_nprogs_def limit_simps)
  have len: "length (programs ?d) = 64" "length (sel_status ?d) = 8"
    using assms(4) by (simp_all add: trans_wf_def limit_simps)
  have at: "\<exists>p. prog_at s (prog_index c k) = Some p" if "k < ?n" for k
    using that n assms(1,3) prog_index_less [of c k] by (auto simp: prog_at_def fp_wf_def limit_simps)
  have "\<exists>d'. foldM (save_program s c) ?d [0..<?n] = Some d'"
    by (rule save_programs_total) (use at n len in auto)
  then obtain d1 where d1: "foldM (save_program s c) ?d [0..<?n] = Some d1" by blast
  note progs = save_programs [OF d1 distinct_upt]
  have sel: "wu_bitmap_test_bit (sel_status d1) k = FP_PROG_SELECTED p"
    if "k < ?n" "prog_at s (prog_index c k) = Some p" for k p
    using save_programs_sel(2) [OF d1, of k] that n len by simp
  show ?thesis
    using False d1 progs sel len
    by (auto simp: prog_info_2_pid_trans_info_of_channel_def chan_nprogs_def PROGRAMS_OFFSET_def
        WITH_CSC_SIZE_def)
qed

text \<open>What the manager saves of a channel is a record that its own validation accepts, with
  the length the SNMP transfer needs.\<close>

theorem saved_channel_validates:
  assumes "fp_wf s" "fp_bounded s" "c < CHANNEL_MAX_NUM" "trans_wf d"
  shows "\<exists>d'. prog_info_2_pid_trans_info_of_channel c s d = Some d'
    \<and> pid_trans_info_validate d' = Some True
    \<and> unat (data_len d') = (if chan_nprogs s c = 0 then 0 else 10 + 149 * chan_nprogs s c)"
proof -
  from save_channel [OF assms] obtain d' where d': "prog_info_2_pid_trans_info_of_channel c s d = Some d'"
    and n: "nprogs d' = g_chan_num s ! c" and len: "length (programs d') = 64"
    and dl: "data_len d' = (if nprogs d' = 0 then 0 else word_of_nat (10 + 149 * unat (nprogs d')))"
    and progs: "\<forall>k < chan_nprogs s c. \<exists>p. prog_at s (prog_index c k) = Some p
       \<and> programs d' ! k = \<lparr> pc_info = info p, pc_csc = wu_csc (info_mem (info p)) \<rparr>
       \<and> wu_bitmap_test_bit (sel_status d') k = FP_PROG_SELECTED p" by blast
  have le: "unat (nprogs d') \<le> 64"
    using assms(2,3) n by (simp add: fp_bounded_def chan_nprogs_def limit_simps)
  have dl': "unat (data_len d') = (if chan_nprogs s c = 0 then 0 else 10 + 149 * chan_nprogs s c)"
    using dl trans_no_of_nat [OF le] by (simp add: chan_nprogs_def n [symmetric] unat_eq_0)
  have "check_cscs (programs d') [0..<unat (nprogs d')] = Some True"
    by (rule check_cscs_True) (use progs n le len in \<open>auto simp: chan_nprogs_def\<close>)
  moreover have "unat (data_len d') \<le> PID_TRANS_INFO_SIZE - 2"
    using dl' n le by (simp add: PID_TRANS_INFO_SIZE_def chan_nprogs_def)
  ultimately show ?thesis using d' dl' by (auto simp: pid_trans_info_validate_def)
qed

definition trans_zero :: pid_trans_info_snmp_data where
  "trans_zero = \<lparr> data_len = 0, update_flag_and_chan_num = 0, nprogs = 0, sel_status = replicate 8 0,
     programs = replicate 64 \<lparr> pc_info = example_info\<lparr> prog_name := [replicate 33 0, replicate 33 0] \<rparr>,
       pc_csc = 0 \<rparr> \<rparr>"

lemma trans_zero_wf: "trans_wf trans_zero"
  by (auto simp: trans_wf_def trans_zero_def info_bytes_wf_def info_wf_def example_info_def limit_simps)

theorem saved_channel_validates_witness:
  "\<exists>d'. prog_info_2_pid_trans_info_of_channel 0 (example_state 1) trans_zero = Some d'
    \<and> pid_trans_info_validate d' = Some True \<and> unat (data_len d') = 159"
  using saved_channel_validates [OF example_wf(2) [of 1] example_bounded [of 1] _ trans_zero_wf, of 0]
  by (simp add: example_nprogs CHANNEL_MAX_NUM_def)

section \<open>Loading\<close>

lemma selected_info_update [simp]: "FP_PROG_SELECTED (p\<lparr> info := i \<rparr>) = FP_PROG_SELECTED p"
  by (simp add: FP_PROG_SELECTED_def)

lemma load_program_step:
  assumes "load_program d c s k = Some s1"
  obtains p where "s1 = set_prog_at s (prog_index c k) p" "prog_index c k < length (g_prog_info_table s)"
    "k < length (programs d)" "info p = pc_info (programs d ! k)"
    "FP_PROG_SELECTED p \<longleftrightarrow> wu_bitmap_test_bit (sel_status d) k"
proof -
  from assms obtain q where q: "prog_at s (prog_index c k) = Some q" "k < length (programs d)"
    by (auto simp: load_program_def bind_Some_iff split: if_splits)
  let ?q = "if wu_bitmap_test_bit (sel_status d) k then FP_SELECT_PROG q else FP_DESELECT_PROG q"
  show thesis
    by (rule that [of "?q\<lparr> info := pc_info (programs d ! k) \<rparr>"])
       (use assms q in \<open>auto simp: load_program_def prog_at_def split: if_splits\<close>)
qed

lemma load_programs:
  assumes "foldM (load_program d c) s ks = Some s'" "distinct ks" "\<forall>k \<in> set ks. k < PROGRAM_MAX_NUM"
  shows "g_chan_num s' = g_chan_num s
    \<and> length (g_prog_info_table s') = length (g_prog_info_table s)
    \<and> (\<forall>k \<in> set ks. \<exists>p. prog_at s' (prog_index c k) = Some p
        \<and> info p = pc_info (programs d ! k)
        \<and> (FP_PROG_SELECTED p \<longleftrightarrow> wu_bitmap_test_bit (sel_status d) k))
    \<and> (\<forall>i. (\<forall>k \<in> set ks. i \<noteq> prog_index c k) \<longrightarrow> prog_at s' i = prog_at s i)"
  using assms
proof (induction ks arbitrary: s)
  case (Cons k ks)
  from Cons.prems(1) obtain s1 where s1: "load_program d c s k = Some s1"
    and run: "foldM (load_program d c) s1 ks = Some s'"
    by (auto simp: bind_Some_iff)
  from load_program_step [OF s1] obtain p where p: "s1 = set_prog_at s (prog_index c k) p"
    "prog_index c k < length (g_prog_info_table s)" "info p = pc_info (programs d ! k)"
    "FP_PROG_SELECTED p \<longleftrightarrow> wu_bitmap_test_bit (sel_status d) k" .
  have ks: "distinct ks" "\<forall>k \<in> set ks. k < PROGRAM_MAX_NUM" using Cons.prems by simp_all
  note IH = Cons.IH [OF run ks]
  have "prog_index c k \<noteq> prog_index c j" if "j \<in> set ks" for j
    using that Cons.prems by (auto simp: prog_index_inj)
  with IH p(1,2) have at: "prog_at s' (prog_index c k) = Some p"
    by (simp add: prog_at_set_prog_at)
  show ?case
  proof (intro conjI ballI allI impI)
    show "g_chan_num s' = g_chan_num s" "length (g_prog_info_table s') = length (g_prog_info_table s)"
      using IH by (simp_all add: p(1))
  next
    fix j assume "j \<in> set (k # ks)"
    then show "\<exists>q. prog_at s' (prog_index c j) = Some q \<and> info q = pc_info (programs d ! j)
        \<and> (FP_PROG_SELECTED q \<longleftrightarrow> wu_bitmap_test_bit (sel_status d) j)"
      using IH at p(3,4) by auto
  next
    fix i assume "\<forall>j \<in> set (k # ks). i \<noteq> prog_index c j"
    then show "prog_at s' i = prog_at s i" using IH by (simp add: p(1) prog_at_set_prog_at)
  qed
qed simp


text \<open>What the table holds of channel \<open>c\<close> after its record was loaded.\<close>

definition loaded :: "nat \<Rightarrow> pid_trans_info_snmp_data \<Rightarrow> fp_state \<Rightarrow> bool" where
  "loaded c d s \<longleftrightarrow> g_chan_num s ! c = nprogs d
     \<and> (\<forall>k < unat (nprogs d). \<exists>p. prog_at s (prog_index c k) = Some p
          \<and> info p = pc_info (programs d ! k)
          \<and> (FP_PROG_SELECTED p \<longleftrightarrow> wu_bitmap_test_bit (sel_status d) k))"

lemma prog_at_chan_num [simp]: "prog_at (s\<lparr> g_chan_num := x \<rparr>) i = prog_at s i"
  by (simp add: prog_at_def)

lemma load_channel:
  assumes "pid_trans_info_2_prog_info_of_channel c d s = Some s'" "unat (nprogs d) \<le> PROGRAM_MAX_NUM"
  shows "g_chan_num s' = (g_chan_num s)[c := nprogs d]"
    and "length (g_prog_info_table s') = length (g_prog_info_table s)"
    and "c < length (g_chan_num s) \<Longrightarrow> loaded c d s'"
    and "(\<forall>k < PROGRAM_MAX_NUM. i \<noteq> prog_index c k) \<Longrightarrow> prog_at s' i = prog_at s i"
proof -
  let ?s = "s\<lparr> g_chan_num := (g_chan_num s)[c := nprogs d] \<rparr>"
  have "g_chan_num s' = (g_chan_num s)[c := nprogs d]
    \<and> length (g_prog_info_table s') = length (g_prog_info_table s)
    \<and> (c < length (g_chan_num s) \<longrightarrow> loaded c d s')
    \<and> ((\<forall>k < PROGRAM_MAX_NUM. i \<noteq> prog_index c k) \<longrightarrow> prog_at s' i = prog_at s i)"
  proof (cases "nprogs d = 0")
    case True
    let ?clear = "foldl (\<lambda>s k. set_prog_at s (prog_index c k) prog_zero)"
    have *: "g_chan_num (?clear u ks) = g_chan_num u
        \<and> length (g_prog_info_table (?clear u ks)) = length (g_prog_info_table u)
        \<and> ((\<forall>k \<in> set ks. i \<noteq> prog_index c k) \<longrightarrow> prog_at (?clear u ks) i = prog_at u i)" for u ks
      by (induction ks arbitrary: u) (simp_all add: prog_at_set_prog_at)
    have "s' = ?clear ?s [0..<PROGRAM_MAX_NUM]"
      using assms(1) True by (simp add: pid_trans_info_2_prog_info_of_channel_def)
    with * [of ?s "[0..<PROGRAM_MAX_NUM]"] True show ?thesis
      by (simp add: loaded_def)
  next
    case False
    with assms(1) have run: "foldM (load_program d c) ?s [0..<unat (nprogs d)] = Some s'"
      by (simp add: pid_trans_info_2_prog_info_of_channel_def)
    have "\<forall>k \<in> set [0..<unat (nprogs d)]. k < PROGRAM_MAX_NUM" using assms(2) by simp
    from load_programs [OF run distinct_upt this] assms(2) show ?thesis
      by (auto simp: loaded_def)
  qed
  then show "g_chan_num s' = (g_chan_num s)[c := nprogs d]"
    "length (g_prog_info_table s') = length (g_prog_info_table s)"
    "c < length (g_chan_num s) \<Longrightarrow> loaded c d s'"
    "(\<forall>k < PROGRAM_MAX_NUM. i \<noteq> prog_index c k) \<Longrightarrow> prog_at s' i = prog_at s i" by blast+
qed

lemma load_channel_total:
  fixes s :: fp_state
  assumes "length (g_prog_info_table s) = 512" "c < CHANNEL_MAX_NUM" "length (programs d) = 64"
    "unat (nprogs d) \<le> 64"
  shows "\<exists>s'. pid_trans_info_2_prog_info_of_channel c d s = Some s'"
proof -
  let ?s = "s\<lparr> g_chan_num := (g_chan_num s)[c := nprogs d] \<rparr>"
  have "\<exists>s'. foldM (load_program d c) ?s [0..<unat (nprogs d)] = Some s'
      \<and> length (g_prog_info_table s') = 512"
  proof (rule foldM_total)
    fix u :: fp_state and k
    assume "k \<in> set [0..<unat (nprogs d)]" "length (g_prog_info_table u) = 512"
    with assms show "\<exists>t. load_program d c u k = Some t \<and> length (g_prog_info_table t) = 512"
      using prog_index_less [of c k] by (auto simp: load_program_def prog_at_def limit_simps Let_def)
  qed (use assms in simp)
  then show ?thesis by (auto simp: pid_trans_info_2_prog_info_of_channel_def Let_def)
qed

lemma load_channel_frame:
  assumes "pid_trans_info_2_prog_info_of_channel c d s = Some s'" "unat (nprogs d) \<le> PROGRAM_MAX_NUM"
    and "c' \<noteq> c" "unat (nprogs d') \<le> PROGRAM_MAX_NUM" "loaded c' d' s"
  shows "loaded c' d' s'"
proof -
  have "prog_at s' (prog_index c' k) = prog_at s (prog_index c' k)" if "k < PROGRAM_MAX_NUM" for k
    by (rule load_channel(4) [OF assms(1,2)]) (use that assms(3) in \<open>auto simp: prog_index_inj\<close>)
  then show ?thesis using assms(3-5) load_channel(1) [OF assms(1,2)] by (auto simp: loaded_def)
qed

lemma load_all:
  fixes s :: fp_state
  assumes "length (g_prog_info_table s) = 512" "length (g_chan_num s) = 8"
    and "\<forall>c < CHANNEL_MAX_NUM. length (programs (table ! c)) = 64 \<and> unat (nprogs (table ! c)) \<le> PROGRAM_MAX_NUM"
  shows "\<exists>s'. pid_trans_info_2_prog_info table s = Some s' \<and> length (g_chan_num s') = 8
    \<and> (\<forall>c < CHANNEL_MAX_NUM. loaded c (table ! c) s')"
proof -
  let ?f = "\<lambda>s c. pid_trans_info_2_prog_info_of_channel c (table ! c) s"
  have n: "unat (nprogs (table ! c)) \<le> PROGRAM_MAX_NUM" if "c \<in> set [0..<CHANNEL_MAX_NUM]" for c
    using that assms(3) by simp
  have "\<exists>s'. foldM ?f s [0..<CHANNEL_MAX_NUM] = Some s'
      \<and> length (g_prog_info_table s') = 512 \<and> length (g_chan_num s') = 8"
  proof (rule foldM_total)
    fix u :: fp_state and c
    assume c: "c \<in> set [0..<CHANNEL_MAX_NUM]"
      and u: "length (g_prog_info_table u) = 512 \<and> length (g_chan_num u) = 8"
    then obtain v where v: "?f u c = Some v"
      using load_channel_total [of u c "table ! c"] assms(3) by (auto simp: limit_simps)
    with load_channel [OF v n [OF c]] u
    show "\<exists>v. ?f u c = Some v \<and> length (g_prog_info_table v) = 512 \<and> length (g_chan_num v) = 8"
      by simp
  qed (use assms in simp)
  then obtain s' where s': "foldM ?f s [0..<CHANNEL_MAX_NUM] = Some s'" "length (g_chan_num s') = 8"
    by blast
  have "loaded c (table ! c) s'" if c: "c \<in> set [0..<CHANNEL_MAX_NUM]" for c
  proof -
    have "c < length (g_chan_num s') \<longrightarrow> loaded c (table ! c) s'"
    proof (rule foldM_establish [OF s'(1) c])
      show "c < length (g_chan_num v) \<longrightarrow> loaded c (table ! c) v" if "?f u c = Some v" for u v
        using load_channel(1,3) [OF that n [OF c]] by simp
      show "c < length (g_chan_num v) \<longrightarrow> loaded c (table ! c) v"
        if "y \<in> set [0..<CHANNEL_MAX_NUM]" "c < length (g_chan_num u) \<longrightarrow> loaded c (table ! c) u"
          "?f u y = Some v" for u v y
        using load_channel(1,3) [OF that(3) n [OF that(1)]] that(2)
          load_channel_frame [OF that(3) n [OF that(1)] _ n [OF c]]
        by (cases "y = c") auto
    qed
    with s'(2) c show ?thesis by (simp add: limit_simps)
  qed
  with s' show ?thesis by (auto simp: pid_trans_info_2_prog_info_def)
qed

lemma foldM_cells:
  assumes "distinct cs" "\<forall>c \<in> set cs. c < length t \<and> f c (t ! c) = Some (g c)"
  shows "\<exists>t'. foldM (\<lambda>t c. do { d \<leftarrow> f c (t ! c); Some (t[c := d]) }) t cs = Some t'
    \<and> length t' = length t \<and> (\<forall>c \<in> set cs. t' ! c = g c) \<and> (\<forall>c. c \<notin> set cs \<longrightarrow> t' ! c = t ! c)"
  using assms
proof (induction cs arbitrary: t)
  case (Cons c cs)
  let ?t = "t[c := g c]"
  have "\<forall>x \<in> set cs. x < length ?t \<and> f x (?t ! x) = Some (g x)"
    using Cons.prems by (auto simp: nth_list_update)
  from Cons.IH [OF _ this] Cons.prems obtain t' where
    "foldM (\<lambda>t c. do { d \<leftarrow> f c (t ! c); Some (t[c := d]) }) ?t cs = Some t'"
    "length t' = length ?t" "\<forall>x \<in> set cs. t' ! x = g x" "\<forall>x. x \<notin> set cs \<longrightarrow> t' ! x = ?t ! x" by auto
  with Cons.prems show ?case by (intro exI [of _ t']) auto
qed simp

text \<open>C12: Saving the program table to the records and loading these into any table restores the
  program counts, and of every program its information and whether it is selected.\<close>

theorem save_load_programs:
  assumes "fp_wf s" "fp_bounded s" "length table = CHANNEL_MAX_NUM" "\<forall>d \<in> set table. trans_wf d" "fp_wf s0"
  shows "\<exists>table' s'. prog_info_2_pid_trans_info s table = Some table'
    \<and> pid_trans_info_2_prog_info table' s0 = Some s' \<and> g_chan_num s' = g_chan_num s
    \<and> (\<forall>c < CHANNEL_MAX_NUM. \<forall>k < chan_nprogs s c. \<exists>p p'.
         prog_at s (prog_index c k) = Some p \<and> prog_at s' (prog_index c k) = Some p'
         \<and> info p' = info p \<and> FP_PROG_SELECTED p' = FP_PROG_SELECTED p)"
proof -
  have "\<forall>c < CHANNEL_MAX_NUM. \<exists>d'. prog_info_2_pid_trans_info_of_channel c s (table ! c) = Some d'"
    using save_channel [OF assms(1,2)] assms(3,4) by (metis nth_mem)
  then obtain g where g: "\<forall>c < CHANNEL_MAX_NUM. prog_info_2_pid_trans_info_of_channel c s (table ! c) = Some (g c)"
    by metis
  have "\<exists>t'. prog_info_2_pid_trans_info s table = Some t' \<and> length t' = length table
      \<and> (\<forall>c \<in> set [0..<CHANNEL_MAX_NUM]. t' ! c = g c)
      \<and> (\<forall>c. c \<notin> set [0..<CHANNEL_MAX_NUM] \<longrightarrow> t' ! c = table ! c)"
    unfolding prog_info_2_pid_trans_info_def by (rule foldM_cells) (use g assms(3) in auto)
  then obtain t' where t': "prog_info_2_pid_trans_info s table = Some t'"
    "\<forall>c < CHANNEL_MAX_NUM. t' ! c = g c" by auto
  have rec: "nprogs (t' ! c) = g_chan_num s ! c \<and> length (programs (t' ! c)) = 64
      \<and> (\<forall>k < chan_nprogs s c. \<exists>p. prog_at s (prog_index c k) = Some p
           \<and> pc_info (programs (t' ! c) ! k) = info p
           \<and> wu_bitmap_test_bit (sel_status (t' ! c)) k = FP_PROG_SELECTED p)"
    if "c < CHANNEL_MAX_NUM" for c
    using save_channel [OF assms(1,2) that, of "table ! c"] that g t'(2) assms(3,4) by fastforce
  have "\<exists>s'. pid_trans_info_2_prog_info t' s0 = Some s' \<and> length (g_chan_num s') = 8
      \<and> (\<forall>c < CHANNEL_MAX_NUM. loaded c (t' ! c) s')"
    by (rule load_all) (use rec assms in \<open>auto simp: fp_wf_def fp_bounded_def chan_nprogs_def limit_simps\<close>)
  then obtain s' where s': "pid_trans_info_2_prog_info t' s0 = Some s'"
    "length (g_chan_num s') = 8" "\<forall>c < CHANNEL_MAX_NUM. loaded c (t' ! c) s'" by blast
  with rec assms(1) have "g_chan_num s' = g_chan_num s"
    by (intro nth_equalityI) (auto simp: loaded_def fp_wf_def limit_simps)
  with t'(1) s' rec show ?thesis by (fastforce simp: loaded_def chan_nprogs_def)
qed


theorem save_load_programs_witness:
  "\<exists>table' s'. prog_info_2_pid_trans_info (example_state 1) (replicate 8 trans_zero) = Some table'
    \<and> pid_trans_info_2_prog_info table' (example_state 0) = Some s'
    \<and> g_chan_num s' = g_chan_num (example_state 1)"
  using save_load_programs [OF example_wf(2) [of 1] example_bounded [of 1], of "replicate 8 trans_zero",
      OF _ _ example_wf(2) [of 0]] trans_zero_wf
  by (auto simp: CHANNEL_MAX_NUM_def)

section \<open>The transfer over SNMP\<close>

text \<open>
  The manager reads the nodes of a channel from the first one on, until a piece is shorter than a
  node, and a peer writes the pieces in that order.
\<close>

definition trans_length :: "u8 list \<Rightarrow> nat \<Rightarrow> nat" where
  "trans_length m c = unat (READ_U16 (drop (c * PID_TRANS_INFO_SIZE) m) + 2)"

definition transfer_nodes :: "u8 list \<Rightarrow> nat \<Rightarrow> nat list" where
  "transfer_nodes m c = map (\<lambda>i. c * NODE_NUM + i) [0..<Suc (trans_length m c div NODE_MAX_SIZE)]"

definition transfer :: "u8 list \<Rightarrow> nat \<Rightarrow> u8 list \<Rightarrow> u8 list option" where
  "transfer m c dst =
     foldM (\<lambda>dst trans_idx. do { v \<leftarrow> pid_trans_info_read_data_snmp m trans_idx;
                                 pid_trans_info_write_data_snmp trans_idx v dst })
       dst (transfer_nodes m c)"

lemma node_of: "i < NODE_NUM \<Longrightarrow> (c * NODE_NUM + i) div NODE_NUM = c \<and> (c * NODE_NUM + i) mod NODE_NUM = i"
  by (simp add: NODE_NUM_def)

lemma read_node:
  assumes "i \<le> trans_length m c div NODE_MAX_SIZE" "trans_length m c \<le> PID_TRANS_INFO_SIZE"
    "c < CHANNEL_MAX_NUM" "length m = CHANNEL_MAX_NUM * PID_TRANS_INFO_SIZE"
  shows "pid_trans_info_read_data_snmp m (c * NODE_NUM + i) =
    Some (take (min NODE_MAX_SIZE (trans_length m c - i * NODE_MAX_SIZE))
            (drop (c * PID_TRANS_INFO_SIZE + i * NODE_MAX_SIZE) m))"
proof -
  have i: "i < NODE_NUM" using assms(1,2)
    by (simp add: NODE_NUM_def NODE_MAX_SIZE_def PID_TRANS_INFO_SIZE_def)
  have size: "node_size m (c * NODE_NUM + i) = min NODE_MAX_SIZE (trans_length m c - i * NODE_MAX_SIZE)"
  proof (cases "i < trans_length m c div NODE_MAX_SIZE")
    case True
    then have "Suc i * NODE_MAX_SIZE \<le> trans_length m c"
      by (metis Suc_leI less_eq_div_iff_mult_less_eq NODE_MAX_SIZE_def zero_less_numeral)
    with True i show ?thesis by (simp add: node_size_def node_of [OF i] trans_length_def [symmetric])
  next
    case False
    with assms(1) have eq: "i = trans_length m c div NODE_MAX_SIZE" by simp
    have "trans_length m c mod NODE_MAX_SIZE = trans_length m c - i * NODE_MAX_SIZE"
      unfolding eq by (simp add: modulo_nat_def)
    moreover have "trans_length m c mod NODE_MAX_SIZE < NODE_MAX_SIZE" by (simp add: NODE_MAX_SIZE_def)
    ultimately show ?thesis
      using eq i by (simp add: node_size_def Let_def node_of [OF i] trans_length_def [symmetric])
  qed
  have "c * PID_TRANS_INFO_SIZE + PID_TRANS_INFO_SIZE \<le> length m"
    using assms(3,4) by (simp add: limit_simps PID_TRANS_INFO_SIZE_def)
  moreover have "i * NODE_MAX_SIZE + min NODE_MAX_SIZE (trans_length m c - i * NODE_MAX_SIZE) \<le> trans_length m c"
    using assms(1) by (simp add: min_def NODE_MAX_SIZE_def) (use less_eq_div_iff_mult_less_eq [of 1194 i] in auto)
  ultimately show ?thesis
    using assms(2)
    by (simp add: pid_trans_info_read_data_snmp_def node_offset_def node_of [OF i] size mem_read_def i)
qed


lemma check_cscs_total: "\<forall>k \<in> set ks. k < length ps \<Longrightarrow> \<exists>b. check_cscs ps ks = Some b"
  by (induction ks) auto

lemma validate_total: "unat (bs ! 3) \<le> 64 \<Longrightarrow> \<exists>b. pid_trans_info_validate (trans_of_mem bs) = Some b"
  using check_cscs_total [of "[0..<unat (bs ! 3)]" "programs (trans_of_mem bs)"]
  by (auto simp: pid_trans_info_validate_def trans_of_mem_def limit_simps)

text \<open>The peer's record after the first \<open>n\<close> pieces of \<open>sent\<close>.\<close>

definition received :: "u8 list \<Rightarrow> nat \<Rightarrow> u8 list \<Rightarrow> nat \<Rightarrow> u8 list" where
  "received dst c sent n = take (c * PID_TRANS_INFO_SIZE) dst @ take (n * NODE_MAX_SIZE) sent
     @ replicate (PID_TRANS_INFO_SIZE - min (n * NODE_MAX_SIZE) (length sent)) 0
     @ drop (c * PID_TRANS_INFO_SIZE + PID_TRANS_INFO_SIZE) dst"

lemma received_nprogs:
  assumes "length sent \<le> PID_TRANS_INFO_SIZE" "c * PID_TRANS_INFO_SIZE \<le> length dst"
  shows "drop (c * PID_TRANS_INFO_SIZE) (received dst c sent n) ! 3
    = (if 3 < min (n * NODE_MAX_SIZE) (length sent) then sent ! 3 else 0)"
  using assms by (auto simp: received_def nth_append PID_TRANS_INFO_SIZE_def)

lemma write_node:
  assumes n: "n \<le> length sent div NODE_MAX_SIZE" and len: "length sent \<le> PID_TRANS_INFO_SIZE"
    and c: "c < CHANNEL_MAX_NUM" and dst: "length dst = CHANNEL_MAX_NUM * PID_TRANS_INFO_SIZE"
    and np: "3 < length sent \<Longrightarrow> unat (sent ! 3) \<le> 64"
  shows "pid_trans_info_write_data_snmp (c * NODE_NUM + n) (take NODE_MAX_SIZE (drop (n * NODE_MAX_SIZE) sent))
      (if n = 0 then dst else received dst c sent n) = Some (received dst c sent (Suc n))"
proof -
  let ?v = "take NODE_MAX_SIZE (drop (n * NODE_MAX_SIZE) sent)"
  let ?base = "c * PID_TRANS_INFO_SIZE"
  have i: "n < NODE_NUM" using n len by (simp add: NODE_NUM_def NODE_MAX_SIZE_def PID_TRANS_INFO_SIZE_def)
  have base: "?base + PID_TRANS_INFO_SIZE \<le> length dst"
    using c dst by (simp add: limit_simps PID_TRANS_INFO_SIZE_def)
  have nN: "n * NODE_MAX_SIZE \<le> length sent"
    using n less_eq_div_iff_mult_less_eq [of NODE_MAX_SIZE n] by (simp add: NODE_MAX_SIZE_def)
  have clear: "(if n = 0 then mem_write dst ?base (replicate PID_TRANS_INFO_SIZE 0)
      else Some (received dst c sent n)) = Some (received dst c sent n)"
    using base by (simp add: mem_write_def received_def)
  let ?pre = "take ?base dst @ take (n * NODE_MAX_SIZE) sent"
  let ?left = "PID_TRANS_INFO_SIZE - n * NODE_MAX_SIZE - length ?v"
  let ?post = "replicate ?left 0 @ drop (?base + PID_TRANS_INFO_SIZE) dst"
  have "length ?v \<le> PID_TRANS_INFO_SIZE - n * NODE_MAX_SIZE" using len by simp
  then have "received dst c sent n = ?pre @ replicate (length ?v) 0 @ ?post"
    using nN by (simp add: received_def min_absorb1 replicate_add [symmetric])
  moreover have "length ?pre = ?base + n * NODE_MAX_SIZE" using nN base by simp
  ultimately have write0: "mem_write (received dst c sent n) (?base + n * NODE_MAX_SIZE) ?v
      = Some (?pre @ ?v @ ?post)"
    by (metis mem_write_mid length_replicate)
  have left: "?left = PID_TRANS_INFO_SIZE - min (Suc n * NODE_MAX_SIZE) (length sent)"
    using nN by (auto simp: min_def)
  have "take (n * NODE_MAX_SIZE) sent @ ?v = take (Suc n * NODE_MAX_SIZE) sent"
    by (simp add: take_add add.commute [of NODE_MAX_SIZE])
  then have "?pre @ ?v @ ?post = received dst c sent (Suc n)"
    unfolding received_def left by simp
  with write0 have wr: "mem_write (received dst c sent n) (?base + n * NODE_MAX_SIZE) ?v
      = Some (received dst c sent (Suc n))" by simp
  have "unat (drop ?base (received dst c sent (Suc n)) ! 3) \<le> 64"
    using received_nprogs [OF len, of c dst "Suc n"] base np by simp
  from validate_total [OF this] wr clear i show ?thesis
    by (cases "n = 0") (auto simp: pid_trans_info_write_data_snmp_def node_of [OF i] node_offset_def)
qed


lemma transfer_loop:
  assumes "m' = Suc (length sent div NODE_MAX_SIZE)" "length sent \<le> PID_TRANS_INFO_SIZE"
    "c < CHANNEL_MAX_NUM" "length dst = CHANNEL_MAX_NUM * PID_TRANS_INFO_SIZE"
    "3 < length sent \<Longrightarrow> unat (sent ! 3) \<le> 64" "n \<le> m'" "0 < n"
  shows "foldM (\<lambda>d i. pid_trans_info_write_data_snmp (c * NODE_NUM + i)
      (take NODE_MAX_SIZE (drop (i * NODE_MAX_SIZE) sent)) d) dst [0..<n] = Some (received dst c sent n)"
  using assms(6,7)
proof (induction n)
  case (Suc n)
  have n: "n \<le> length sent div NODE_MAX_SIZE" using Suc.prems(1) assms(1) by simp
  show ?case
    using write_node [OF n assms(2-5)] Suc
    by (cases "n = 0") (simp_all add: foldM_append)
qed simp

lemma foldM_cong:
  "(\<And>s x. x \<in> set xs \<Longrightarrow> f s x = g s x) \<Longrightarrow> foldM f s xs = foldM g s xs"
  by (induction xs arbitrary: s) (auto split: Option.bind_splits)

lemma foldM_map: "foldM f s (map h xs) = foldM (\<lambda>s x. f s (h x)) s xs"
  by (induction xs arbitrary: s) (auto split: Option.bind_splits)

text \<open>C13: Reading the nodes of a channel one after the other and writing the pieces to a peer
  copies exactly the length the record announces, clears the rest of the peer's record and leaves
  the other channels of the peer alone.\<close>

theorem transfer_copies:
  assumes "length m = CHANNEL_MAX_NUM * PID_TRANS_INFO_SIZE" "length dst = CHANNEL_MAX_NUM * PID_TRANS_INFO_SIZE"
    and "c < CHANNEL_MAX_NUM" "trans_length m c \<le> PID_TRANS_INFO_SIZE"
    and "unat (m ! (c * PID_TRANS_INFO_SIZE + 3)) \<le> PROGRAM_MAX_NUM"
  shows "transfer m c dst = Some (take (c * PID_TRANS_INFO_SIZE) dst
    @ take (trans_length m c) (drop (c * PID_TRANS_INFO_SIZE) m)
    @ replicate (PID_TRANS_INFO_SIZE - trans_length m c) 0
    @ drop (Suc c * PID_TRANS_INFO_SIZE) dst)"
proof -
  let ?L = "trans_length m c" and ?base = "c * PID_TRANS_INFO_SIZE"
  let ?sent = "take ?L (drop ?base m)"
  have fit: "?base + PID_TRANS_INFO_SIZE \<le> length m"
    using assms(1,3) by (simp add: limit_simps PID_TRANS_INFO_SIZE_def)
  then have len: "length ?sent = ?L" using assms(4) by simp
  have "pid_trans_info_read_data_snmp m (c * NODE_NUM + i) = Some (take NODE_MAX_SIZE (drop (i * NODE_MAX_SIZE) ?sent))"
    if "i \<in> set [0..<Suc (?L div NODE_MAX_SIZE)]" for i
  proof -
    from that have "i \<le> ?L div NODE_MAX_SIZE" by auto
    from read_node [OF this assms(4,3,1)] show ?thesis
      by (simp add: drop_take add.commute drop_drop)
  qed
  then have "transfer m c dst = foldM (\<lambda>d i. pid_trans_info_write_data_snmp (c * NODE_NUM + i)
      (take NODE_MAX_SIZE (drop (i * NODE_MAX_SIZE) ?sent)) d) dst [0..<Suc (?L div NODE_MAX_SIZE)]"
    unfolding transfer_def transfer_nodes_def foldM_map by (intro foldM_cong) simp
  also have "\<dots> = Some (received dst c ?sent (Suc (?L div NODE_MAX_SIZE)))"
  proof (rule transfer_loop [where m' = "Suc (?L div NODE_MAX_SIZE)", OF _ _ assms(3,2)])
    show "unat (?sent ! 3) \<le> 64" if "3 < length ?sent"
      using that assms(5) fit by (simp add: limit_simps)
  qed (use len assms(4) in \<open>simp_all only: le_refl zero_less_Suc\<close>)
  also have "?L \<le> Suc (?L div NODE_MAX_SIZE) * NODE_MAX_SIZE"
    by (metis NODE_MAX_SIZE_def dividend_less_div_times less_imp_le mult_Suc add.commute zero_less_numeral)
  then have "received dst c ?sent (Suc (?L div NODE_MAX_SIZE)) = take ?base dst @ ?sent
      @ replicate (PID_TRANS_INFO_SIZE - ?L) 0 @ drop (Suc c * PID_TRANS_INFO_SIZE) dst"
    unfolding received_def len by (simp add: min_absorb2 add.commute del: mult_Suc)
       (simp add: add.commute)
  finally show ?thesis .
qed

theorem transfer_copies_witness:
  "transfer (replicate 76384 0) 2 (replicate 76384 1) = Some (take (2 * PID_TRANS_INFO_SIZE) (replicate 76384 1)
    @ take 2 (drop (2 * PID_TRANS_INFO_SIZE) (replicate 76384 0))
    @ replicate (PID_TRANS_INFO_SIZE - 2) 0 @ drop (3 * PID_TRANS_INFO_SIZE) (replicate 76384 1))"
proof -
  have L: "trans_length (replicate 76384 0) 2 = 2"
    by (simp add: trans_length_def READ_U16_def PACK_U16_def PID_TRANS_INFO_SIZE_def)
  show ?thesis
    using transfer_copies [of "replicate 76384 0" "replicate 76384 1" 2]
    by (simp add: L CHANNEL_MAX_NUM_def PID_TRANS_INFO_SIZE_def)
qed

text \<open>A peer that writes a full last node of a channel runs four bytes into the record of the
  next channel: its length, flags and program count are overwritten.\<close>

theorem last_node_overruns:
  assumes "length m = CHANNEL_MAX_NUM * PID_TRANS_INFO_SIZE" "Suc c < CHANNEL_MAX_NUM"
    "length v = NODE_MAX_SIZE" "unat (m ! (c * PID_TRANS_INFO_SIZE + 3)) \<le> PROGRAM_MAX_NUM"
  shows "\<exists>m'. pid_trans_info_write_data_snmp (c * NODE_NUM + 7) v m = Some m'
    \<and> take 4 (drop (Suc c * PID_TRANS_INFO_SIZE) m') = drop 1190 v"
proof -
  let ?a = "c * PID_TRANS_INFO_SIZE + 7 * NODE_MAX_SIZE"
  let ?m = "take ?a m @ v @ drop (?a + length v) m"
  have fit: "?a + length v \<le> length m"
    using assms(1-3) by (simp add: limit_simps PID_TRANS_INFO_SIZE_def NODE_MAX_SIZE_def)
  then have wr: "mem_write m ?a v = Some ?m" by (simp add: mem_write_def)
  have "drop (c * PID_TRANS_INFO_SIZE) ?m ! 3 = m ! (c * PID_TRANS_INFO_SIZE + 3)"
    using fit by (simp add: nth_append NODE_MAX_SIZE_def)
  then have "unat (drop (c * PID_TRANS_INFO_SIZE) ?m ! 3) \<le> 64"
    using assms(4) by (simp only: PROGRAM_MAX_NUM_def)
  from validate_total [OF this] obtain ok where
    "pid_trans_info_validate (trans_of_mem (drop (c * PID_TRANS_INFO_SIZE) ?m)) = Some ok" ..
  with wr have "pid_trans_info_write_data_snmp (c * NODE_NUM + 7) v m = Some ?m"
    by (simp add: pid_trans_info_write_data_snmp_def NODE_NUM_def node_offset_def)
  moreover have "drop (Suc c * PID_TRANS_INFO_SIZE) ?m = drop 1190 v @ drop (?a + length v) m"
    using fit assms(3) by (simp add: PID_TRANS_INFO_SIZE_def NODE_MAX_SIZE_def)
  ultimately show ?thesis using assms(3) by (auto simp: NODE_MAX_SIZE_def)
qed

theorem last_node_overruns_witness:
  "\<exists>m'. pid_trans_info_write_data_snmp (1 * NODE_NUM + 7) (replicate 1194 9) (replicate 76384 0) = Some m'
    \<and> take 4 (drop (Suc 1 * PID_TRANS_INFO_SIZE) m') = drop 1190 (replicate 1194 9)"
  by (rule last_node_overruns)
     (simp_all add: CHANNEL_MAX_NUM_def PID_TRANS_INFO_SIZE_def NODE_MAX_SIZE_def)

end
