(* ===== verification/FpProto.thy ===== *)
theory FpProto
  imports ProgWire
begin

unbundle bit_operations_syntax

text \<open>
  The frames of the front panel's serial line: a five-byte header (sync byte, command with the read
  flag, length; both numbers big endian), the parameters and a check sum byte. Building and
  validating them is in \<^verbatim>\<open>src/front_panel_process.c\<close>, the byte order of the header in
  \<^verbatim>\<open>src/front_panel_data_churning.c\<close>.
\<close>

section \<open>Header\<close>

record fp_cmd_header =
  sync :: u8
  seq :: u16
  len :: u16

definition HEADER_SIZE :: nat where "HEADER_SIZE = 5"
definition FP_MSG_CRC_SIZE :: nat where "FP_MSG_CRC_SIZE = 1"
definition FP_RECV_MSG_MAX_SIZE :: nat where "FP_RECV_MSG_MAX_SIZE = 1200"
definition defMcuSyncFlag :: u8 where "defMcuSyncFlag = 0x74"

lemmas frame_sizes = HEADER_SIZE_def FP_MSG_CRC_SIZE_def

definition header_mem :: "fp_cmd_header \<Rightarrow> u8 list" where
  "header_mem h = sync h # le16 (seq h) @ le16 (len h)"

definition header_of_mem :: "u8 list \<Rightarrow> fp_cmd_header" where
  "header_of_mem bs = \<lparr> sync = bs ! 0, seq = READ_U16 (drop 1 bs), len = READ_U16 (drop 3 bs) \<rparr>"

definition buf_2_fp_cmd_header :: "u8 list \<Rightarrow> fp_cmd_header" where
  "buf_2_fp_cmd_header buf =
     (let hdr = header_of_mem buf in hdr\<lparr> len := SWAP_U16 (len hdr), seq := SWAP_U16 (seq hdr) \<rparr>)"

definition fp_cmd_header_2_buf :: "fp_cmd_header \<Rightarrow> u8 list" where
  "fp_cmd_header_2_buf hdr = header_mem (hdr\<lparr> len := SWAP_U16 (len hdr), seq := SWAP_U16 (seq hdr) \<rparr>)"

lemma header_of_mem_mem: "header_of_mem (header_mem h @ rest) = h"
proof -
  have "drop 3 (header_mem h @ rest) = le16 (len h) @ rest" by (simp add: header_mem_def le16_def)
  then show ?thesis
    by (simp add: header_of_mem_def) (simp add: header_mem_def READ_U16_le16)
qed

interpretation header: byte_codec fp_cmd_header_2_buf buf_2_fp_cmd_header "\<lambda>_. True" HEADER_SIZE
proof unfold_locales
  fix h :: fp_cmd_header and rest
  show "length (fp_cmd_header_2_buf h) = HEADER_SIZE"
    by (simp add: fp_cmd_header_2_buf_def header_mem_def HEADER_SIZE_def)
  show "buf_2_fp_cmd_header (fp_cmd_header_2_buf h @ rest) = h"
    by (simp add: fp_cmd_header_2_buf_def buf_2_fp_cmd_header_def header_of_mem_mem)
qed

section \<open>Frames\<close>

text \<open>The bytes a function writes to its buffer are its result, the returned length is theirs.\<close>

definition fp_create_response_cmd :: "fp_cmd_header \<Rightarrow> u8 list \<Rightarrow> u8 list" where
  "fp_create_response_cmd req_cmd_header param =
     (let body = fp_cmd_header_2_buf (req_cmd_header\<lparr> len := word_of_nat (length param) \<rparr>) @ param
      in body @ [wu_csc body])"

definition fp_build_cmd :: "bool \<Rightarrow> u16 \<Rightarrow> u8 list \<Rightarrow> u8 list" where
  "fp_build_cmd is_read cmd param =
     fp_create_response_cmd \<lparr> sync = defMcuSyncFlag, seq = (if is_read then push_bit 15 1 OR cmd else cmd),
       len = word_of_nat (length param) \<rparr> param"

definition fp_validate_cmd :: "u8 list \<Rightarrow> nat \<Rightarrow> nat \<Rightarrow> bool" where
  "fp_validate_cmd buf sz expect_param_size =
     (if sz < HEADER_SIZE + 1 then False
      else (let hdr = buf_2_fp_cmd_header buf in
        if HEADER_SIZE + unat (len hdr) + 1 \<noteq> sz then False
        else if unat (len hdr) \<noteq> expect_param_size then False
        else if wu_csc (take (sz - 1) buf) \<noteq> buf ! (sz - 1) then False
        else True))"

text \<open>The size of a frame by its header, and the copy of a frame of that size.\<close>

definition FP_CMD_SIZE :: "u8 list \<Rightarrow> nat" where
  "FP_CMD_SIZE cmd = HEADER_SIZE + unat (SWAP_U16 (len (header_of_mem cmd))) + FP_MSG_CRC_SIZE"

definition fp_cmd_copy :: "u8 list \<Rightarrow> u8 list \<Rightarrow> u8 list option" where
  "fp_cmd_copy dst src =
     (let n = FP_CMD_SIZE src
      in if n \<le> length dst \<and> n \<le> length src then Some (take n src @ drop n dst) else None)"

section \<open>Frames that are built are valid\<close>

lemma response_length: "length (fp_create_response_cmd hdr param) = HEADER_SIZE + length param + 1"
  by (simp add: fp_create_response_cmd_def Let_def header.enc_length)

lemma response_header:
  "buf_2_fp_cmd_header (fp_create_response_cmd hdr param @ rest) = hdr\<lparr> len := word_of_nat (length param) \<rparr>"
  by (simp add: fp_create_response_cmd_def Let_def header.dec_enc)

lemma response_param:
  "take (length param) (drop HEADER_SIZE (fp_create_response_cmd hdr param)) = param"
  by (simp add: fp_create_response_cmd_def Let_def header.enc_length)

lemma response_csc:
  "wu_csc (butlast (fp_create_response_cmd hdr param)) = last (fp_create_response_cmd hdr param)"
  by (simp add: fp_create_response_cmd_def Let_def butlast_append)

lemma response_valid:
  assumes "length param < 2 ^ 16"
  shows "fp_validate_cmd (fp_create_response_cmd hdr param)
    (length (fp_create_response_cmd hdr param)) (length param)"
proof -
  let ?f = "fp_create_response_cmd hdr param"
  have len: "unat (word_of_nat (length param) :: u16) = length param"
    using assms by (intro unat_of_nat_less) simp
  have "buf_2_fp_cmd_header ?f = hdr\<lparr> len := word_of_nat (length param) \<rparr>"
    using response_header [of hdr param "[]"] by simp
  moreover have "take (length ?f - 1) ?f = butlast ?f" by (simp add: butlast_conv_take)
  moreover have "?f ! (length ?f - 1) = last ?f"
    using response_length [of hdr param] by (intro last_conv_nth [symmetric]) auto
  ultimately show ?thesis
    using len response_csc [of hdr param]
    by (simp add: fp_validate_cmd_def response_length)
qed

text \<open>A frame whose check sum holds loses it when a byte is changed.\<close>

lemma csc_detects:
  assumes "bs \<noteq> []" "wu_csc (butlast bs) = last bs" "i < length bs" "b \<noteq> bs ! i"
  shows "wu_csc (butlast (bs[i := b])) \<noteq> last (bs[i := b])"
proof (cases "i = length bs - 1")
  case True
  with assms have "butlast (bs[i := b]) = butlast bs" "last (bs[i := b]) = b"
    by (simp_all add: butlast_list_update last_list_update)
  with assms True show ?thesis by (simp add: last_conv_nth)
next
  case False
  with assms have i: "i < length (butlast bs)" by simp
  have "butlast (bs[i := b]) = (butlast bs)[i := b]" "last (bs[i := b]) = last bs"
    using assms False by (simp_all add: butlast_list_update last_list_update)
  moreover have "b \<noteq> butlast bs ! i" using assms(4) i by (simp add: nth_butlast)
  ultimately show ?thesis using wu_csc_update [OF i, of b] assms(2) by simp
qed

text \<open>A command the manager builds is accepted by the validation of the receiver, which reads
  back the sync byte, the command with its read flag, and the parameters.\<close>

theorem fp_build_validate:
  assumes "length param < 2 ^ 16"
  shows "fp_validate_cmd (fp_build_cmd is_read cmd param) (length (fp_build_cmd is_read cmd param)) (length param)
    \<and> sync (buf_2_fp_cmd_header (fp_build_cmd is_read cmd param)) = defMcuSyncFlag
    \<and> seq (buf_2_fp_cmd_header (fp_build_cmd is_read cmd param)) = (if is_read then push_bit 15 1 OR cmd else cmd)
    \<and> take (length param) (drop HEADER_SIZE (fp_build_cmd is_read cmd param)) = param"
  using response_header [where rest = "[]"] response_valid [OF assms]
  by (simp add: fp_build_cmd_def response_param)

theorem fp_build_validate_witness:
  "fp_validate_cmd (fp_build_cmd True 0x201 [1, 2]) (length (fp_build_cmd True 0x201 [1, 2])) (length [1, 2 :: u8])
    \<and> sync (buf_2_fp_cmd_header (fp_build_cmd True 0x201 [1, 2])) = defMcuSyncFlag
    \<and> seq (buf_2_fp_cmd_header (fp_build_cmd True 0x201 [1, 2])) = push_bit 15 1 OR 0x201
    \<and> take (length [1, 2 :: u8]) (drop HEADER_SIZE (fp_build_cmd True 0x201 [1, 2])) = [1, 2]"
  using fp_build_validate [of "[1, 2]" True "0x201"] by simp

text \<open>A frame with one byte changed on the line, be it of the header, the parameters or the
  check sum, is rejected.\<close>

theorem fp_corruption_detected:
  assumes "i < length (fp_build_cmd is_read cmd param)" "b \<noteq> fp_build_cmd is_read cmd param ! i"
  shows "\<not> fp_validate_cmd ((fp_build_cmd is_read cmd param)[i := b]) (length (fp_build_cmd is_read cmd param))
    expect_size"
proof -
  let ?f = "fp_build_cmd is_read cmd param"
  have ne: "?f \<noteq> []" using assms(1) by auto
  have "wu_csc (butlast ?f) = last ?f" by (simp add: fp_build_cmd_def response_csc)
  from csc_detects [OF ne this assms] have "wu_csc (butlast (?f[i := b])) \<noteq> last (?f[i := b])" .
  moreover have "take (length ?f - 1) (?f[i := b]) = butlast (?f[i := b])" by (simp add: butlast_conv_take)
  moreover have "?f[i := b] ! (length ?f - 1) = last (?f[i := b])"
    using ne last_conv_nth [of "?f[i := b]"] by simp
  ultimately show ?thesis by (auto simp: fp_validate_cmd_def Let_def)
qed

theorem fp_corruption_detected_witness:
  "\<not> fp_validate_cmd ((fp_build_cmd False 3 [7])[5 := 8]) (length (fp_build_cmd False 3 [7])) 1"
proof (rule fp_corruption_detected)
  show L: "5 < length (fp_build_cmd False 3 [7])"
    by (simp add: fp_build_cmd_def response_length HEADER_SIZE_def)
  have "take 1 (drop HEADER_SIZE (fp_build_cmd False 3 [7])) = [7]"
    using response_param [of "[7]"] by (simp add: fp_build_cmd_def)
  then have "take 1 (drop HEADER_SIZE (fp_build_cmd False 3 [7])) ! 0 = 7" by simp
  then have "fp_build_cmd False 3 [7] ! 5 = 7" using L by (simp add: HEADER_SIZE_def)
  then show "8 \<noteq> fp_build_cmd False 3 [7] ! 5" by simp
qed

end
