(* ===== verification/OutputPsi.thy ===== *)
theory OutputPsi
  imports Section Wire
begin

unbundle bit_operations_syntax

text \<open>
  The packets of the tables the multiplexer broadcasts (\<^verbatim>\<open>src/output_psi_data.c\<close>): a directory of
  eight table types over one area of packets. The generators fill it in the order of the types, it is
  validated when it is loaded, its packets are sorted into the repetition buffers of the FPGA, and
  its sections are copied back for the SNMP manager.
\<close>

section \<open>The area\<close>

record output_psi_data_entry =
  offset :: u8
  nr_ts_pkts :: u8

record xmux_output_psi_data =
  pkt_nr :: u32
  psi_ents :: "output_psi_data_entry list"
  ts_area :: "u8 list"

definition OUTPUT_PSI_AREA_SIZE :: nat where "OUTPUT_PSI_AREA_SIZE = 16384"
definition OUTPUT_PSI_TYPE_MAX_NUM :: nat where "OUTPUT_PSI_TYPE_MAX_NUM = 8"
definition OUTPUT_PSI_TS_DATA_SIZE :: nat where "OUTPUT_PSI_TS_DATA_SIZE = OUTPUT_PSI_AREA_SIZE - 20"
definition OUTPUT_PSI_PACKET_MAX_NUM :: nat where
  "OUTPUT_PSI_PACKET_MAX_NUM = OUTPUT_PSI_TS_DATA_SIZE div TS_PACKET_BYTES"

lemmas psi_sizes = OUTPUT_PSI_AREA_SIZE_def OUTPUT_PSI_TYPE_MAX_NUM_def OUTPUT_PSI_TS_DATA_SIZE_def
  OUTPUT_PSI_PACKET_MAX_NUM_def TS_PACKET_BYTES_def

definition PSI_TYPE_PAT :: nat where "PSI_TYPE_PAT = 0"
definition PSI_TYPE_PMT :: nat where "PSI_TYPE_PMT = 1"
definition PSI_TYPE_CAT :: nat where "PSI_TYPE_CAT = 2"
definition PSI_TYPE_SDT :: nat where "PSI_TYPE_SDT = 3"
definition PSI_TYPE_NIT :: nat where "PSI_TYPE_NIT = 4"

lemmas psi_types = PSI_TYPE_PAT_def PSI_TYPE_PMT_def PSI_TYPE_CAT_def PSI_TYPE_SDT_def PSI_TYPE_NIT_def

definition psi_wf :: "xmux_output_psi_data \<Rightarrow> bool" where
  "psi_wf psi \<longleftrightarrow> length (psi_ents psi) = OUTPUT_PSI_TYPE_MAX_NUM
     \<and> length (ts_area psi) = OUTPUT_PSI_TS_DATA_SIZE"

definition ent_zero :: output_psi_data_entry where
  "ent_zero = \<lparr> offset = 0, nr_ts_pkts = 0 \<rparr>"

definition psi_zero :: xmux_output_psi_data where
  "psi_zero = \<lparr> pkt_nr = 0, psi_ents = replicate OUTPUT_PSI_TYPE_MAX_NUM ent_zero,
     ts_area = replicate OUTPUT_PSI_TS_DATA_SIZE 0 \<rparr>"

definition output_psi_data_clear :: "xmux_output_psi_data \<Rightarrow> xmux_output_psi_data" where
  "output_psi_data_clear psi = psi_zero"

section \<open>Validation\<close>

fun psi_ents_validate :: "nat \<Rightarrow> output_psi_data_entry list \<Rightarrow> bool" where
  "psi_ents_validate next_expect_offset [] = True"
| "psi_ents_validate next_expect_offset (e # es) =
     (if offset e = 0 \<and> nr_ts_pkts e = 0 then psi_ents_validate next_expect_offset es
      else if unat (offset e) \<noteq> next_expect_offset then False
      else if unat (offset e) + unat (nr_ts_pkts e) \<ge> OUTPUT_PSI_PACKET_MAX_NUM then False
      else psi_ents_validate (unat (offset e) + unat (nr_ts_pkts e)) es)"

definition output_psi_data_validate :: "xmux_output_psi_data \<Rightarrow> bool" where
  "output_psi_data_validate psi = psi_ents_validate 0 (psi_ents psi)"

section \<open>Filling\<close>

text \<open>The second component is the static \<^verbatim>\<open>pkt_offset\<close>.\<close>

definition begin_fill_output_psi_data :: "xmux_output_psi_data \<Rightarrow> xmux_output_psi_data \<times> nat" where
  "begin_fill_output_psi_data psi = (psi\<lparr> psi_ents := replicate OUTPUT_PSI_TYPE_MAX_NUM ent_zero \<rparr>, 0)"

definition fill_output_psi_data ::
  "nat \<Rightarrow> u8 list \<Rightarrow> xmux_output_psi_data \<times> nat \<Rightarrow> (xmux_output_psi_data \<times> nat) option" where
  "fill_output_psi_data psi_type ts_buf = (\<lambda>(psi, pkt_offset).
     if length (psi_ents psi) \<le> psi_type then None
     else do {
       let e = psi_ents psi ! psi_type;
       let e = (if nr_ts_pkts e = 0 then e\<lparr> offset := word_of_nat pkt_offset \<rparr> else e);
       let e = e\<lparr> nr_ts_pkts := nr_ts_pkts e + word_of_nat (length ts_buf div TS_PACKET_BYTES) \<rparr>;
       area \<leftarrow> mem_write (ts_area psi) (pkt_offset * TS_PACKET_BYTES) ts_buf;
       let pkt_offset' = pkt_offset + length ts_buf div TS_PACKET_BYTES;
       Some (\<lparr> pkt_nr = word_of_nat pkt_offset', psi_ents = (psi_ents psi)[psi_type := e], ts_area = area \<rparr>,
             pkt_offset')
     })"

definition fill_all ::
  "(nat \<times> u8 list) list \<Rightarrow> xmux_output_psi_data \<times> nat \<Rightarrow> (xmux_output_psi_data \<times> nat) option" where
  "fill_all log st = foldM (\<lambda>st (ty, buf). fill_output_psi_data ty buf st) st log"

text \<open>The packets \<^verbatim>\<open>ts_pkts[i] .. ts_pkts[i + n - 1]\<close>.\<close>

definition pkt_at :: "xmux_output_psi_data \<Rightarrow> nat \<Rightarrow> u8 list" where
  "pkt_at psi i = take TS_PACKET_BYTES (drop (i * TS_PACKET_BYTES) (ts_area psi))"

definition ent_pkts :: "xmux_output_psi_data \<Rightarrow> output_psi_data_entry \<Rightarrow> u8 list list option" where
  "ent_pkts psi e =
     (if (unat (offset e) + unat (nr_ts_pkts e)) * TS_PACKET_BYTES \<le> length (ts_area psi)
      then Some (map (\<lambda>i. pkt_at psi (unat (offset e) + i)) [0..<unat (nr_ts_pkts e)])
      else None)"

section \<open>Sorting the packets into the buffers of the FPGA\<close>

definition PSISI_40MS :: nat where "PSISI_40MS = 0"
definition PSISI_2SEC :: nat where "PSISI_2SEC = 1"
definition PSISI_NIT :: nat where "PSISI_NIT = 2"
definition PSISI_MUL_PKT_0 :: nat where "PSISI_MUL_PKT_0 = 3"
definition PSISI_MUL_PKT_3 :: nat where "PSISI_MUL_PKT_3 = 6"
definition PSISI_MAX_NUM :: nat where "PSISI_MAX_NUM = 7"

lemmas psisi = PSISI_40MS_def PSISI_2SEC_def PSISI_NIT_def PSISI_MUL_PKT_0_def PSISI_MUL_PKT_3_def
  PSISI_MAX_NUM_def

definition psi_type_2_howto :: "nat \<Rightarrow> nat" where
  "psi_type_2_howto ty =
     (if ty = PSI_TYPE_NIT then PSISI_NIT
      else if PSI_TYPE_PAT \<le> ty \<and> ty \<le> PSI_TYPE_CAT then PSISI_40MS
      else PSISI_2SEC)"

definition WRITE_INFO_SIZE :: nat where "WRITE_INFO_SIZE = TS_PACKET_BYTES * 128"

definition put_pkts :: "nat \<Rightarrow> u8 list \<Rightarrow> u8 list list \<Rightarrow> u8 list list option" where
  "put_pkts howto bytes write_info =
     (if length (write_info ! howto) + length bytes \<le> WRITE_INFO_SIZE
      then Some (write_info[howto := write_info ! howto @ bytes]) else None)"

text \<open>The loop over the packets of a 40 ms type. A packet whose neighbour has its PID belongs to a
  table of several packets, which gets a buffer of its own while there is one.\<close>

fun put_40ms :: "u16 \<Rightarrow> u8 list list \<Rightarrow> nat \<times> u8 list list \<Rightarrow> (nat \<times> u8 list list) option" where
  "put_40ms last_pid [] st = Some st"
| "put_40ms last_pid (ts # rest) (mul_pkt_off, write_info) =
     (let p = GET_PID ts;
          next_pid = (case rest of [] \<Rightarrow> 0xFFFF | q # _ \<Rightarrow> GET_PID q);
          (howto, mul) =
            (if p = last_pid \<or> p = next_pid then
               (let mul = (if p \<noteq> last_pid then mul_pkt_off + 1 else mul_pkt_off)
                in (if mul \<le> PSISI_MUL_PKT_3 then mul else PSISI_40MS, mul))
             else (PSISI_40MS, mul_pkt_off))
      in do { wi \<leftarrow> put_pkts howto ts write_info; put_40ms p rest (mul, wi) })"

definition put_type ::
  "xmux_output_psi_data \<Rightarrow> nat \<times> u8 list list \<Rightarrow> nat \<Rightarrow> (nat \<times> u8 list list) option" where
  "put_type psi = (\<lambda>(mul_pkt_off, write_info) psi_type.
     (let ent = psi_ents psi ! psi_type; howto = psi_type_2_howto psi_type
      in if nr_ts_pkts ent = 0 then Some (mul_pkt_off, write_info)
         else do {
           pkts \<leftarrow> ent_pkts psi ent;
           if howto = PSISI_40MS then put_40ms 0xFFFF pkts (mul_pkt_off, write_info)
           else do {
             wi \<leftarrow> put_pkts howto (concat pkts) write_info;
             Some (mul_pkt_off, wi)
           }
         }))"

text \<open>The writes to the FPGA: the buffer number and its bytes.\<close>

definition psi_apply_from_output_psi :: "xmux_output_psi_data \<Rightarrow> (nat \<times> u8 list) list option" where
  "psi_apply_from_output_psi psi =
     do {
       (mul_pkt_off, write_info) \<leftarrow> foldM (put_type psi)
         (PSISI_MUL_PKT_0 - 1, replicate PSISI_MAX_NUM []) [0..<OUTPUT_PSI_TYPE_MAX_NUM];
       Some (filter (\<lambda>(howto, bytes). bytes \<noteq> []) (enumerate 0 write_info))
     }"

section \<open>The sections for the SNMP manager\<close>

text \<open>The section arrays of \<^verbatim>\<open>src/psi_parse.c\<close>: row 8 is the output.\<close>

record psi_mib =
  sg_mib_pat :: "u8 list list"
  sg_mib_pmt :: "u8 list list list"
  sg_mib_cat :: "u8 list list"
  sg_mib_nit :: "u8 list list"
  sg_mib_sdt :: "u8 list list list"
  sg_mib_eit :: "u8 list list list"

definition SDT_SECTION_NUM :: nat where "SDT_SECTION_NUM = 5"
definition EIT_SECTION_NUM :: nat where "EIT_SECTION_NUM = 8"

definition section_row :: "u8 list \<Rightarrow> bool" where
  "section_row r \<longleftrightarrow> length r = SECTION_MAX_SIZE"

definition mib_wf :: "psi_mib \<Rightarrow> bool" where
  "mib_wf m \<longleftrightarrow>
     (\<forall>t \<in> {sg_mib_pat m, sg_mib_cat m, sg_mib_nit m}. length t = CHANNEL_MAX_NUM + 1 \<and> list_all section_row t)
     \<and> length (sg_mib_pmt m) = CHANNEL_MAX_NUM + 1
     \<and> (\<forall>t \<in> set (sg_mib_pmt m). length t = PROGRAM_MAX_NUM \<and> list_all section_row t)
     \<and> length (sg_mib_sdt m) = CHANNEL_MAX_NUM + 1
     \<and> (\<forall>t \<in> set (sg_mib_sdt m). length t = SDT_SECTION_NUM \<and> list_all section_row t)
     \<and> length (sg_mib_eit m) = CHANNEL_MAX_NUM + 1
     \<and> (\<forall>t \<in> set (sg_mib_eit m). length t = EIT_SECTION_NUM \<and> list_all section_row t)"

text \<open>A popped section goes behind the two length bytes of its row.\<close>

definition put_section :: "nat \<Rightarrow> u8 list \<Rightarrow> u8 list \<Rightarrow> u8 list option" where
  "put_section n sec row =
     do { row \<leftarrow> mem_write row 2 sec; mem_write row 0 (le16 (word_of_nat n)) }"

lemma ts_pop_loop_shorter: "length (snd (snd (ts_pop_loop st ts))) \<le> length ts - 1"
proof (induction ts arbitrary: st)
  case (Cons t ts)
  have "length (snd (snd (ts_pop_loop st' ts))) \<le> length ts" for st'
    using Cons.IH [of st'] by simp
  then show ?case by (simp add: Let_def)
qed simp

function pop_sections :: "u8 list list \<Rightarrow> (nat \<times> u8 list) list" where
  "pop_sections ts =
     (if ts = [] then []
      else (let (n, sec, rest) = ts_pop_section ts in (n, sec) # pop_sections rest))"
  by pat_completeness auto
termination
proof (relation "measure length")
  fix ts :: "u8 list list" and x n y sec rest
  assume "ts \<noteq> []" "x = ts_pop_section ts" "(n, y) = x" "(sec, rest) = y"
  then have "ts_pop_section ts = (n, sec, rest)" by simp
  then have "length rest \<le> length ts - 1"
    using ts_pop_loop_shorter [of pop_init ts] by (simp add: ts_pop_section_def)
  with \<open>ts \<noteq> []\<close> show "(rest, ts) \<in> measure length" by (cases ts) auto
qed simp

declare pop_sections.simps [simp del]

text \<open>The loops write one row after the other, past the last one if there are more sections.\<close>

definition put_sections :: "(nat \<times> u8 list) list \<Rightarrow> u8 list list \<Rightarrow> u8 list list option" where
  "put_sections secs rows =
     foldM (\<lambda>rows (i, n, sec). if length rows \<le> i then None
              else do { row \<leftarrow> put_section n sec (rows ! i); Some (rows[i := row]) })
       rows (enumerate 0 secs)"

definition put_first ::
  "u8 list list \<Rightarrow> u8 list list \<Rightarrow> u8 list list option" where
  "put_first pkts rows =
     (let (n, sec, rest) = ts_pop_section pkts
      in do { row \<leftarrow> put_section n sec (rows ! CHANNEL_MAX_NUM); Some (rows[CHANNEL_MAX_NUM := row]) })"

definition type_2_snmp_section :: "xmux_output_psi_data \<Rightarrow> psi_mib \<Rightarrow> nat \<Rightarrow> psi_mib option" where
  "type_2_snmp_section psi m psi_type =
     (let ent = psi_ents psi ! psi_type
      in if nr_ts_pkts ent = 0 then Some m
         else do {
           pkts \<leftarrow> ent_pkts psi ent;
           if psi_type = PSI_TYPE_PAT then do {
             t \<leftarrow> put_first pkts (sg_mib_pat m); Some (m\<lparr> sg_mib_pat := t \<rparr>) }
           else if psi_type = PSI_TYPE_PMT then do {
             rows \<leftarrow> put_sections (pop_sections pkts) (sg_mib_pmt m ! CHANNEL_MAX_NUM);
             Some (m\<lparr> sg_mib_pmt := (sg_mib_pmt m)[CHANNEL_MAX_NUM := rows] \<rparr>) }
           else if psi_type = PSI_TYPE_CAT then do {
             t \<leftarrow> put_first pkts (sg_mib_cat m); Some (m\<lparr> sg_mib_cat := t \<rparr>) }
           else if psi_type = PSI_TYPE_SDT then do {
             rows \<leftarrow> put_sections (pop_sections pkts) (sg_mib_sdt m ! CHANNEL_MAX_NUM);
             Some (m\<lparr> sg_mib_sdt := (sg_mib_sdt m)[CHANNEL_MAX_NUM := rows] \<rparr>) }
           else if psi_type = PSI_TYPE_NIT then do {
             t \<leftarrow> put_first pkts (sg_mib_nit m); Some (m\<lparr> sg_mib_nit := t \<rparr>) }
           else Some m
         })"

definition output_psi_2_snmp_section :: "xmux_output_psi_data \<Rightarrow> psi_mib \<Rightarrow> psi_mib option" where
  "output_psi_2_snmp_section psi m = foldM (type_2_snmp_section psi) m [0..<OUTPUT_PSI_TYPE_MAX_NUM]"


section \<open>A filled area is valid\<close>

text \<open>A run of packets as bytes.\<close>

interpretation packet: byte_codec "\<lambda>p. p" "take TS_PACKET_BYTES" "\<lambda>p. length p = TS_PACKET_BYTES" TS_PACKET_BYTES
  by unfold_locales simp_all

lemma pkt_of_concat:
  assumes "\<forall>p \<in> set ps. length p = TS_PACKET_BYTES" "i < length ps"
  shows "take TS_PACKET_BYTES (drop (i * TS_PACKET_BYTES) (concat ps @ rest)) = ps ! i"
  using packet.drop_concat [OF assms, of rest] assms by (simp del: drop_append)

text \<open>The fills as a log of types and packets; the packets of a type, and of the types before it.\<close>

type_synonym psi_log = "(nat \<times> u8 list list) list"

definition log_pkts :: "(nat \<Rightarrow> bool) \<Rightarrow> psi_log \<Rightarrow> u8 list list" where
  "log_pkts P log = concat (map snd (filter (P \<circ> fst) log))"

abbreviation all_pkts :: "psi_log \<Rightarrow> u8 list list" where
  "all_pkts log \<equiv> concat (map snd log)"

definition log_ok :: "psi_log \<Rightarrow> bool" where
  "log_ok log \<longleftrightarrow> sorted (map fst log) \<and> (\<forall>(ty, ps) \<in> set log. ty < OUTPUT_PSI_TYPE_MAX_NUM)
     \<and> (\<forall>p \<in> set (all_pkts log). length p = TS_PACKET_BYTES)"

definition log_bufs :: "psi_log \<Rightarrow> (nat \<times> u8 list) list" where
  "log_bufs log = map (\<lambda>(ty, ps). (ty, concat ps)) log"

lemma log_pkts_append: "log_pkts P (log @ log') = log_pkts P log @ log_pkts P log'"
  by (simp add: log_pkts_def)

lemma log_pkts_single: "log_pkts P [(ty, ps)] = (if P ty then ps else [])"
  by (simp add: log_pkts_def)

lemma log_pkts_Cons: "log_pkts P ((ty, ps) # log) = (if P ty then ps else []) @ log_pkts P log"
  by (simp add: log_pkts_def)

lemma log_pkts_Nil [simp]: "log_pkts P [] = []"
  by (simp add: log_pkts_def)

lemma log_pkts_none: "\<forall>ty \<in> fst ` set log. \<not> P ty \<Longrightarrow> log_pkts P log = []"
  by (auto simp: log_pkts_def filter_empty_conv)

lemma log_pkts_all: "\<forall>ty \<in> fst ` set log. P ty \<Longrightarrow> log_pkts P log = all_pkts log"
  by (auto simp: log_pkts_def filter_id_conv intro!: arg_cong [where f = "\<lambda>l. concat (map snd l)"])

lemma sorted_log_split:
  "sorted (map fst log) \<Longrightarrow>
   all_pkts log = log_pkts (\<lambda>t. t < ty) log @ log_pkts ((=) ty) log @ log_pkts (\<lambda>t. ty < t) log"
proof (induction log)
  case (Cons e log)
  obtain t ps where e: "e = (t, ps)" by (cases e)
  consider "t < ty" | "t = ty" | "ty < t" by linarith
  then show ?case
  proof cases
    case 2
    with Cons.prems e have "log_pkts (\<lambda>t. t < ty) log = []" by (intro log_pkts_none) auto
    with 2 Cons e show ?thesis by (simp add: log_pkts_Cons)
  next
    case 3
    with Cons.prems e have "log_pkts (\<lambda>t. t < ty) log = []" "log_pkts ((=) ty) log = []"
      by (auto intro!: log_pkts_none)
    with 3 Cons e show ?thesis by (simp add: log_pkts_Cons)
  qed (use Cons e in \<open>simp add: log_pkts_Cons\<close>)
qed simp

lemma concat_pkts_length:
  "\<forall>p \<in> set ps. length p = TS_PACKET_BYTES \<Longrightarrow> length (concat ps) = length ps * TS_PACKET_BYTES"
  by (induction ps) auto

text \<open>The area after a log of fills.\<close>

definition filled :: "psi_log \<Rightarrow> xmux_output_psi_data \<times> nat \<Rightarrow> bool" where
  "filled log = (\<lambda>(psi, pkt_offset). psi_wf psi \<and> pkt_offset = length (all_pkts log)
     \<and> take (pkt_offset * TS_PACKET_BYTES) (ts_area psi) = concat (all_pkts log)
     \<and> (\<forall>ty < OUTPUT_PSI_TYPE_MAX_NUM. psi_ents psi ! ty =
          \<lparr> offset = (if ty \<in> fst ` set log then word_of_nat (length (log_pkts (\<lambda>t. t < ty) log)) else 0),
            nr_ts_pkts = word_of_nat (length (log_pkts ((=) ty) log)) \<rparr>))"

lemma begin_filled: "psi_wf psi \<Longrightarrow> filled [] (begin_fill_output_psi_data psi)"
  by (simp add: filled_def begin_fill_output_psi_data_def psi_wf_def ent_zero_def)

lemma fill_filled:
  assumes "filled log (psi, n)" "log_ok (log @ [(ty, ps)])"
    and fit: "length (all_pkts (log @ [(ty, ps)])) \<le> OUTPUT_PSI_PACKET_MAX_NUM"
  shows "\<exists>st. fill_output_psi_data ty (concat ps) (psi, n) = Some st \<and> filled (log @ [(ty, ps)]) st"
proof -
  have len: "length (concat ps) = length ps * TS_PACKET_BYTES"
    using assms(2) by (intro concat_pkts_length) (auto simp: log_ok_def)
  have ty: "ty < OUTPUT_PSI_TYPE_MAX_NUM" "\<forall>t \<in> fst ` set log. t \<le> ty"
    using assms(2) by (auto simp: log_ok_def sorted_append)
  from assms(1) have wf: "psi_wf psi" and n: "n = length (all_pkts log)"
    and area: "take (n * TS_PACKET_BYTES) (ts_area psi) = concat (all_pkts log)"
    and ents: "\<And>ty. ty < OUTPUT_PSI_TYPE_MAX_NUM \<Longrightarrow> psi_ents psi ! ty =
          \<lparr> offset = (if ty \<in> fst ` set log then word_of_nat (length (log_pkts (\<lambda>t. t < ty) log)) else 0),
            nr_ts_pkts = word_of_nat (length (log_pkts ((=) ty) log)) \<rparr>"
    by (auto simp: filled_def)
  have fits: "n * TS_PACKET_BYTES + length (concat ps) \<le> length (ts_area psi)"
    using fit wf by (simp add: len n psi_wf_def psi_sizes)
  have all: "length (concat (all_pkts log)) = n * TS_PACKET_BYTES"
    using arg_cong [OF area, of length] fits by simp
  let ?e = "\<lparr> offset = word_of_nat (length (log_pkts (\<lambda>t. t < ty) log)),
    nr_ts_pkts = word_of_nat (length (log_pkts ((=) ty) (log @ [(ty, ps)]))) \<rparr>"
  have small: "length (log_pkts ((=) ty) log) < 256"
  proof -
    have "length (log_pkts ((=) ty) log) \<le> n"
      using sorted_log_split [of log ty] assms(2) n by (simp add: log_ok_def sorted_append)
    with fit n show ?thesis by (simp add: psi_sizes)
  qed
  have none: "n = length (log_pkts (\<lambda>t. t < ty) log)" if "log_pkts ((=) ty) log = []"
  proof -
    have "log_pkts (\<lambda>t. ty < t) log = []" by (rule log_pkts_none) (use ty(2) in fastforce)
    with that sorted_log_split [of log ty] assms(2) n show ?thesis
      by (simp add: log_ok_def sorted_append)
  qed
  have nr: "(word_of_nat (length (log_pkts ((=) ty) log)) :: u8) = 0 \<longleftrightarrow> log_pkts ((=) ty) log = []"
    using small by (simp add: word_of_nat_eq_0_iff nat_dvd_not_less) (metis length_0_conv neq0_conv nat_dvd_not_less dvd_0_right)
  have mem: "ty \<in> fst ` set log" if "log_pkts ((=) ty) log \<noteq> []"
    using that log_pkts_none [of log "(=) ty"] by blast
  let ?old = "psi_ents psi ! ty"
  let ?new = "(if nr_ts_pkts ?old = 0 then ?old\<lparr> offset := word_of_nat n \<rparr> else ?old)"
  have e: "?new\<lparr> nr_ts_pkts := nr_ts_pkts ?new + word_of_nat (length (concat ps) div TS_PACKET_BYTES) \<rparr> = ?e"
    using ents [OF ty(1)] nr none mem
    by (simp add: len log_pkts_append log_pkts_single TS_PACKET_BYTES_def)
  let ?area = "take (n * TS_PACKET_BYTES) (ts_area psi) @ concat ps
    @ drop (n * TS_PACKET_BYTES + length (concat ps)) (ts_area psi)"
  let ?n = "n + length ps"
  let ?psi = "\<lparr> pkt_nr = word_of_nat ?n, psi_ents = (psi_ents psi)[ty := ?e], ts_area = ?area \<rparr>"
  have "fill_output_psi_data ty (concat ps) (psi, n) = Some (?psi, ?n)"
    using wf ty(1) fits e
    by (simp add: fill_output_psi_data_def psi_wf_def mem_write_def Let_def len TS_PACKET_BYTES_def)
  moreover have "filled (log @ [(ty, ps)]) (?psi, ?n)"
    unfolding filled_def prod.case
  proof (intro conjI allI impI)
    show "psi_wf ?psi" using wf fits by (simp add: psi_wf_def)
    show "?n = length (all_pkts (log @ [(ty, ps)]))" using n by simp
    show "take (?n * TS_PACKET_BYTES) (ts_area ?psi) = concat (all_pkts (log @ [(ty, ps)]))"
      using area fits by (simp add: add_mult_distrib len all)
  next
    fix t assume t: "t < OUTPUT_PSI_TYPE_MAX_NUM"
    show "psi_ents ?psi ! t =
      \<lparr> offset = (if t \<in> fst ` set (log @ [(ty, ps)])
          then word_of_nat (length (log_pkts (\<lambda>u. u < t) (log @ [(ty, ps)]))) else 0),
        nr_ts_pkts = word_of_nat (length (log_pkts ((=) t) (log @ [(ty, ps)]))) \<rparr>"
    proof (cases "t = ty")
      case True
      with wf ty(1) show ?thesis by (simp add: psi_wf_def log_pkts_append log_pkts_single)
    next
      case False
      with ty(2) have "t \<in> fst ` set log \<Longrightarrow> t < ty" by fastforce
      with False ents [OF t] show ?thesis
        by (cases "t \<in> fst ` set log") (simp_all add: log_pkts_append log_pkts_single)
    qed
  qed
  ultimately show ?thesis by blast
qed

lemma log_ok_prefix: "log_ok (log @ log') \<Longrightarrow> log_ok log"
  by (auto simp: log_ok_def sorted_append)

lemma fill_all_filled:
  assumes "filled log st" "log_ok (log @ log')"
    and "length (all_pkts (log @ log')) \<le> OUTPUT_PSI_PACKET_MAX_NUM"
  shows "\<exists>st'. fill_all (log_bufs log') st = Some st' \<and> filled (log @ log') st'"
  using assms
proof (induction log' arbitrary: log st)
  case Nil
  then show ?case by (auto simp: fill_all_def log_bufs_def)
next
  case (Cons e log')
  obtain ty ps where e: "e = (ty, ps)" by (cases e)
  obtain psi n where st: "st = (psi, n)" by (cases st)
  have ok: "log_ok (log @ [(ty, ps)])" using Cons.prems(2) log_ok_prefix [of "log @ [e]" log'] e by simp
  obtain st1 where st1: "fill_output_psi_data ty (concat ps) st = Some st1" "filled (log @ [(ty, ps)]) st1"
    using fill_filled [OF _ ok, of psi n] Cons.prems e st by auto
  have "\<exists>st'. fill_all (log_bufs log') st1 = Some st' \<and> filled ((log @ [(ty, ps)]) @ log') st'"
    by (rule Cons.IH [OF st1(2)]) (use Cons.prems e in simp_all)
  with st1(1) show ?case by (auto simp: fill_all_def log_bufs_def e)
qed

lemma psi_ents_validate_filled:
  assumes "\<forall>i < length es. es ! i = \<lparr> offset = (if k + i \<in> fst ` set log
        then word_of_nat (length (log_pkts (\<lambda>t. t < k + i) log)) else 0),
      nr_ts_pkts = word_of_nat (length (log_pkts ((=) (k + i)) log)) \<rparr>"
    and "sorted (map fst log)" "length (all_pkts log) < OUTPUT_PSI_PACKET_MAX_NUM"
  shows "psi_ents_validate (length (log_pkts (\<lambda>t. t < k) log)) es"
  using assms(1)
proof (induction es arbitrary: k)
  case (Cons e es)
  let ?b = "\<lambda>k. length (log_pkts (\<lambda>t. t < k) log)" and ?n = "length (log_pkts ((=) k) log)"
  have e: "e = \<lparr> offset = (if k \<in> fst ` set log then word_of_nat (?b k) else 0), nr_ts_pkts = word_of_nat ?n \<rparr>"
    using Cons.prems [THEN spec [of _ 0]] by simp
  have sum: "?b k + ?n + length (log_pkts (\<lambda>t. k < t) log) = length (all_pkts log)"
    using sorted_log_split [OF assms(2), of k] by simp
  have "sorted (map fst log) \<Longrightarrow> ?b (Suc k) = ?b k + ?n"
    by (induction log) (auto simp: log_pkts_Cons less_Suc_eq)
  with assms(2) have nxt: "?b (Suc k) = ?b k + ?n" by simp
  have small: "?b k < 2 ^ 8" "?n < 2 ^ 8" using sum assms(3) by (simp_all add: psi_sizes)
  then have un: "unat (word_of_nat (?b k) :: u8) = ?b k" "unat (word_of_nat ?n :: u8) = ?n"
    by (simp_all add: unat_of_nat_less)
  have zero: "?n = 0" if "k \<notin> fst ` set log"
    using that log_pkts_none [of log "(=) k"] by auto
  have rest: "psi_ents_validate (?b (Suc k)) es"
  proof (rule Cons.IH, intro allI impI)
    fix i assume "i < length es"
    with Cons.prems [THEN spec [of _ "Suc i"]] show "es ! i = \<lparr> offset = (if Suc k + i \<in> fst ` set log
        then word_of_nat (length (log_pkts (\<lambda>t. t < Suc k + i) log)) else 0),
      nr_ts_pkts = word_of_nat (length (log_pkts ((=) (Suc k + i)) log)) \<rparr>" by simp
  qed
  show ?case
  proof (cases "offset e = 0 \<and> nr_ts_pkts e = 0")
    case True
    then have "?n = 0" using un(2) e by simp
    with rest nxt True show ?thesis by simp
  next
    case False
    with e zero have "k \<in> fst ` set log" by (cases "k \<in> fst ` set log") simp_all
    then have "unat (offset e) = ?b k" "unat (nr_ts_pkts e) = ?n" using e un by simp_all
    with False rest nxt sum assms(3) show ?thesis by auto
  qed
qed simp

lemma fill_log_area:
  assumes "psi_wf psi" "log_ok log" "length (all_pkts log) < OUTPUT_PSI_PACKET_MAX_NUM"
  shows "\<exists>psi' n. fill_all (log_bufs log) (begin_fill_output_psi_data psi) = Some (psi', n)
    \<and> output_psi_data_validate psi'
    \<and> (\<forall>ty < OUTPUT_PSI_TYPE_MAX_NUM. ent_pkts psi' (psi_ents psi' ! ty) = Some (log_pkts ((=) ty) log))"
proof -
  obtain psi' n where st: "fill_all (log_bufs log) (begin_fill_output_psi_data psi) = Some (psi', n)"
    "filled log (psi', n)"
    using fill_all_filled [OF begin_filled [OF assms(1)], of log] assms(2,3) by fastforce
  have sorted: "sorted (map fst log)" using assms(2) by (simp add: log_ok_def)
  have wf: "psi_wf psi'" and area: "take (n * TS_PACKET_BYTES) (ts_area psi') = concat (all_pkts log)"
    and n: "n = length (all_pkts log)"
    using st(2) unfolding filled_def prod.case by blast+
  have "psi_ents_validate (length (log_pkts (\<lambda>t. t < 0) log)) (psi_ents psi')"
    by (rule psi_ents_validate_filled) (use st(2) sorted assms(3) in \<open>auto simp: filled_def psi_wf_def\<close>)
  then have "output_psi_data_validate psi'" by (simp add: output_psi_data_validate_def log_pkts_def)
  moreover have "ent_pkts psi' (psi_ents psi' ! ty) = Some (log_pkts ((=) ty) log)"
    if ty: "ty < OUTPUT_PSI_TYPE_MAX_NUM" for ty
  proof -
    let ?b = "log_pkts (\<lambda>t. t < ty) log" and ?p = "log_pkts ((=) ty) log" and ?a = "log_pkts (\<lambda>t. ty < t) log"
    have split: "all_pkts log = ?b @ ?p @ ?a" by (rule sorted_log_split [OF sorted])
    have lens: "\<forall>p \<in> set (all_pkts log). length p = TS_PACKET_BYTES"
      using assms(2) by (simp add: log_ok_def)
    have "ts_area psi' = concat (all_pkts log) @ drop (n * TS_PACKET_BYTES) (ts_area psi')"
      using area append_take_drop_id by metis
    then have at: "pkt_at psi' i = all_pkts log ! i" if "i < n" for i
      using pkt_of_concat [OF lens, of i] that n by (metis pkt_at_def)
    let ?e = "psi_ents psi' ! ty"
    have e: "?e = \<lparr> offset = (if ty \<in> fst ` set log then word_of_nat (length ?b) else 0),
        nr_ts_pkts = word_of_nat (length ?p) \<rparr>"
      using st(2) ty by (simp add: filled_def)
    have sum: "length ?b + length ?p + length ?a = n" unfolding n split by simp
    have small: "length ?b < 2 ^ 8" "length ?p < 2 ^ 8" using sum n assms(3) by (simp_all add: psi_sizes)
    have p: "unat (nr_ts_pkts ?e) = length ?p" using small by (simp add: e unat_of_nat_less)
    have o: "unat (offset ?e) = length ?b" if "?p \<noteq> []"
    proof -
      have "ty \<in> fst ` set log" using that log_pkts_none [of log "(=) ty"] by blast
      then show ?thesis using small by (simp add: e unat_of_nat_less)
    qed
    have "(unat (offset ?e) + unat (nr_ts_pkts ?e)) * TS_PACKET_BYTES \<le> length (ts_area psi')"
    proof -
      have "unat (offset ?e) \<le> length ?b" using small by (simp add: e unat_of_nat_less)
      then show ?thesis using sum n assms(3) wf p by (simp add: psi_wf_def psi_sizes)
    qed
    moreover have "map (\<lambda>i. pkt_at psi' (unat (offset ?e) + i)) [0..<unat (nr_ts_pkts ?e)] = ?p"
    proof (cases "?p = []")
      case False
      show ?thesis
      proof (rule nth_equalityI)
        fix i assume "i < length (map (\<lambda>i. pkt_at psi' (unat (offset ?e) + i)) [0..<unat (nr_ts_pkts ?e)])"
        then have i: "i < length ?p" using p by simp
        with at [of "length ?b + i"] sum split have "pkt_at psi' (length ?b + i) = ?p ! i"
          by (simp add: nth_append)
        with i p o [OF False] show "map (\<lambda>i. pkt_at psi' (unat (offset ?e) + i)) [0..<unat (nr_ts_pkts ?e)] ! i = ?p ! i"
          by simp
      qed (use p in simp)
    qed (use p in simp)
    ultimately show ?thesis by (simp add: ent_pkts_def)
  qed
  ultimately show ?thesis using st(1) by blast
qed

text \<open>Filling the area with the packets of the tables, type after type, gives a directory that
  the validation accepts as long as a packet is left, and a type's entry names exactly its packets.\<close>

theorem filled_area_validates:
  assumes "psi_wf psi" "log_ok log" "length (all_pkts log) < OUTPUT_PSI_PACKET_MAX_NUM"
  shows "\<exists>psi' n. fill_all (log_bufs log) (begin_fill_output_psi_data psi) = Some (psi', n)
    \<and> output_psi_data_validate psi'
    \<and> (\<forall>ty < OUTPUT_PSI_TYPE_MAX_NUM. ent_pkts psi' (psi_ents psi' ! ty) = Some (log_pkts ((=) ty) log))"
  by (rule fill_log_area [OF assms])

theorem filled_area_validates_witness:
  "\<exists>psi' n. fill_all (log_bufs [(0, [replicate 188 1]), (1, [replicate 188 2, replicate 188 3])])
      (begin_fill_output_psi_data psi_zero) = Some (psi', n) \<and> output_psi_data_validate psi'"
proof -
  let ?log = "[(0, [replicate 188 1]), (1, [replicate 188 2, replicate 188 3])] :: psi_log"
  have "psi_wf psi_zero" by (simp add: psi_wf_def psi_zero_def)
  moreover have "log_ok ?log" by (simp add: log_ok_def psi_sizes)
  moreover have "length (all_pkts ?log) < OUTPUT_PSI_PACKET_MAX_NUM" by (simp add: psi_sizes)
  ultimately show ?thesis using filled_area_validates [of psi_zero ?log] by blast
qed

section \<open>Every packet reaches one buffer\<close>

text \<open>The buffers hold the packets a log assigns to them.\<close>

definition buffers :: "psi_log \<Rightarrow> u8 list list" where
  "buffers A = map (\<lambda>h. concat (log_pkts ((=) h) A)) [0..<PSISI_MAX_NUM]"

lemma log_pkts_length: "length (log_pkts P A) \<le> length (all_pkts A)"
  by (induction A) (auto simp: log_pkts_Cons)

lemma log_pkts_set: "set (log_pkts P A) \<subseteq> set (all_pkts A)"
  by (auto simp: log_pkts_def)

lemma put_pkts_buffers:
  assumes "h < PSISI_MAX_NUM" "\<forall>p \<in> set (all_pkts A @ ps). length p = TS_PACKET_BYTES"
    "length (all_pkts A) + length ps \<le> 128"
  shows "put_pkts h (concat ps) (buffers A) = Some (buffers (A @ [(h, ps)]))"
proof -
  have nth: "buffers A ! i = concat (log_pkts ((=) i) A)" if "i < PSISI_MAX_NUM" for i A
    using that by (simp add: buffers_def)
  have len: "length (buffers A) = PSISI_MAX_NUM" for A by (simp add: buffers_def)
  have "length (concat (log_pkts ((=) h) A)) = length (log_pkts ((=) h) A) * TS_PACKET_BYTES"
    by (rule concat_pkts_length) (use assms(2) log_pkts_set [of "(=) h" A] in auto)
  also have "\<dots> \<le> length (all_pkts A) * TS_PACKET_BYTES" using log_pkts_length by simp
  finally have "length (concat (log_pkts ((=) h) A)) + length (concat ps) \<le> WRITE_INFO_SIZE"
    using assms(2,3) concat_pkts_length [of ps] by (simp add: WRITE_INFO_SIZE_def TS_PACKET_BYTES_def)
  moreover have "(buffers A)[h := buffers A ! h @ concat ps] = buffers (A @ [(h, ps)])"
    by (rule nth_equalityI)
       (auto simp: len nth nth_list_update log_pkts_append log_pkts_single assms(1))
  ultimately show ?thesis by (simp add: put_pkts_def nth assms(1))
qed

text \<open>The buffers for tables of several packets hold one table each.\<close>

definition one_pid :: "psi_log \<Rightarrow> nat \<Rightarrow> bool" where
  "one_pid A mul \<longleftrightarrow> 2 \<le> mul \<and> (\<forall>h \<ge> 3. log_pkts ((=) h) A \<noteq> [] \<longrightarrow> h \<le> mul
     \<and> (\<forall>p \<in> set (log_pkts ((=) h) A). \<forall>q \<in> set (log_pkts ((=) h) A). GET_PID p = GET_PID q))"

lemma one_pidD:
  assumes "one_pid A mul" "3 \<le> h" "log_pkts ((=) h) A \<noteq> []"
  shows "h \<le> mul" "p \<in> set (log_pkts ((=) h) A) \<Longrightarrow> q \<in> set (log_pkts ((=) h) A) \<Longrightarrow> GET_PID p = GET_PID q"
proof -
  from assms(1) have "\<forall>h \<ge> 3. log_pkts ((=) h) A \<noteq> [] \<longrightarrow> h \<le> mul
      \<and> (\<forall>p \<in> set (log_pkts ((=) h) A). \<forall>q \<in> set (log_pkts ((=) h) A). GET_PID p = GET_PID q)"
    unfolding one_pid_def by (rule conjunct2)
  from this [THEN spec, THEN mp, THEN mp, OF assms(2,3)] show "h \<le> mul"
    "p \<in> set (log_pkts ((=) h) A) \<Longrightarrow> q \<in> set (log_pkts ((=) h) A) \<Longrightarrow> GET_PID p = GET_PID q" by blast+
qed

lemma one_pidI:
  assumes "2 \<le> mul" "\<And>h. 3 \<le> h \<Longrightarrow> log_pkts ((=) h) A \<noteq> [] \<Longrightarrow> h \<le> mul"
    "\<And>h p q. 3 \<le> h \<Longrightarrow> p \<in> set (log_pkts ((=) h) A) \<Longrightarrow> q \<in> set (log_pkts ((=) h) A) \<Longrightarrow> GET_PID p = GET_PID q"
  shows "one_pid A mul"
  unfolding one_pid_def using assms by blast

lemma one_pid_other:
  assumes "one_pid A mul" "h < 3"
  shows "one_pid (A @ [(h, ps)]) mul"
proof -
  have eq: "log_pkts ((=) k) (A @ [(h, ps)]) = log_pkts ((=) k) A" if "3 \<le> k" for k
    using that assms(2) by (simp add: log_pkts_append log_pkts_single)
  show ?thesis
  proof (rule one_pidI)
    show "2 \<le> mul" using assms(1) by (simp add: one_pid_def)
    show "k \<le> mul" if "3 \<le> k" "log_pkts ((=) k) (A @ [(h, ps)]) \<noteq> []" for k
      using that(2) unfolding eq [OF that(1)] by (rule one_pidD(1) [OF assms(1) that(1)])
    show "GET_PID p = GET_PID q" if "3 \<le> k" "p \<in> set (log_pkts ((=) k) (A @ [(h, ps)]))"
      "q \<in> set (log_pkts ((=) k) (A @ [(h, ps)]))" for k p q
    proof -
      from that(2) have p: "p \<in> set (log_pkts ((=) k) A)" unfolding eq [OF that(1)] .
      from that(3) have q: "q \<in> set (log_pkts ((=) k) A)" unfolding eq [OF that(1)] .
      from p have "log_pkts ((=) k) A \<noteq> []" by (cases "log_pkts ((=) k) A") simp_all
      from one_pidD(2) [OF assms(1) that(1) this p q] show ?thesis .
    qed
  qed
qed

lemma GET_PID_small: "GET_PID bs \<noteq> 0xFFFF"
proof
  assume "GET_PID bs = 0xFFFF"
  then have "bit (GET_PID bs) 15 = bit (0xFFFF :: u16) 15" by simp
  moreover have "\<not> bit (GET_PID bs) 15"
    unfolding GET_PID_def byte_simps by (auto simp: bit_simps dest: bit_imp_le_length)
  ultimately show False by (simp add: bit_numeral_rec)
qed

lemma put_40ms_buffers:
  assumes "one_pid A mul" "\<forall>p \<in> set (all_pkts A @ ps). length p = TS_PACKET_BYTES"
    "length (all_pkts A) + length ps \<le> 128"
    and "\<And>p rest. ps = p # rest \<Longrightarrow> GET_PID p = last_pid \<Longrightarrow>
      3 \<le> mul \<and> (\<forall>q \<in> set (log_pkts ((=) mul) A). GET_PID q = last_pid)"
  shows "\<exists>A' mul'. put_40ms last_pid ps (mul, buffers A) = Some (mul', buffers (A @ A'))
    \<and> all_pkts A' = ps \<and> one_pid (A @ A') mul' \<and> (\<forall>h \<in> fst ` set A'. h = PSISI_40MS \<or> 3 \<le> h)"
  using assms
proof (induction ps arbitrary: A mul last_pid)
  case Nil
  then show ?case by (intro exI [of _ "[]"]) simp
next
  case (Cons ts rest)
  let ?p = "GET_PID ts" and ?next = "case rest of [] \<Rightarrow> 0xFFFF | q # _ \<Rightarrow> GET_PID q"
  define mul' where "mul' = (if (?p = last_pid \<or> ?p = ?next) \<and> ?p \<noteq> last_pid then mul + 1 else mul)"
  define h where "h = (if ?p = last_pid \<or> ?p = ?next then if mul' \<le> 6 then mul' else 0 else 0)"
  let ?A = "A @ [(h, [ts])]"
  have mul: "2 \<le> mul" using Cons.prems(1) by (simp add: one_pid_def)
  have cont: "3 \<le> mul \<and> (\<forall>q \<in> set (log_pkts ((=) mul) A). GET_PID q = last_pid)" if "?p = last_pid"
    using Cons.prems(4) [of ts rest] that by simp
  have h: "h < PSISI_MAX_NUM" "h = 0 \<or> 3 \<le> h"
    using mul cont by (auto simp: h_def mul'_def psisi)
  have put: "put_pkts h ts (buffers A) = Some (buffers ?A)"
    using put_pkts_buffers [OF h(1), of A "[ts]"] Cons.prems(2,3) by simp
  have fresh: "log_pkts ((=) (Suc mul)) A = []"
  proof (rule ccontr)
    assume "log_pkts ((=) (Suc mul)) A \<noteq> []"
    with Cons.prems(1) mul have "Suc mul \<le> mul"
      unfolding one_pid_def by (elim conjE allE [of _ "Suc mul"]) simp
    then show False by simp
  qed
  have same: "3 \<le> mul' \<and> (\<forall>q \<in> set (log_pkts ((=) mul') A). GET_PID q = ?p)" if "?p = last_pid \<or> ?p = ?next"
  proof (cases "?p = last_pid")
    case True
    with cont show ?thesis by (simp add: mul'_def)
  next
    case False
    with that fresh mul show ?thesis by (simp add: mul'_def)
  qed
  have one: "one_pid ?A mul'"
  proof -
    have "k \<le> mul' \<and> (\<forall>p \<in> set (log_pkts ((=) k) ?A). \<forall>q \<in> set (log_pkts ((=) k) ?A). GET_PID p = GET_PID q)"
      if k: "3 \<le> k" "log_pkts ((=) k) ?A \<noteq> []" for k
    proof (cases "k = h")
      case True
      then have "h \<noteq> 0" using k(1) by simp
      then have "h = mul'" "?p = last_pid \<or> ?p = ?next" by (auto simp: h_def split: if_splits)
      with same True show ?thesis by (auto simp: log_pkts_append log_pkts_single)
    next
      case False
      then have eq: "log_pkts ((=) k) ?A = log_pkts ((=) k) A" by (simp add: log_pkts_append log_pkts_single)
      with k(2) have ne: "log_pkts ((=) k) A \<noteq> []" by simp
      have le: "mul \<le> mul'" by (simp add: mul'_def)
      show ?thesis
        unfolding eq
      proof (intro conjI ballI)
        show "k \<le> mul'" using one_pidD(1) [OF Cons.prems(1) k(1) ne] le by (rule order_trans)
      qed (rule one_pidD(2) [OF Cons.prems(1) k(1) ne])
    qed
    moreover have "2 \<le> mul'" using mul by (simp add: mul'_def)
    ultimately show ?thesis unfolding one_pid_def by blast
  qed
  have next_ok: "3 \<le> mul' \<and> (\<forall>q \<in> set (log_pkts ((=) mul') ?A). GET_PID q = ?p)"
    if "rest = q # rest'" "GET_PID q = ?p" for q rest'
  proof -
    have "?p = ?next" using that by simp
    with same have "3 \<le> mul'" "\<forall>q \<in> set (log_pkts ((=) mul') A). GET_PID q = ?p" by blast+
    then show ?thesis by (simp add: log_pkts_append log_pkts_single ball_Un)
  qed
  have "\<exists>A' m. put_40ms ?p rest (mul', buffers ?A) = Some (m, buffers (?A @ A'))
      \<and> all_pkts A' = rest \<and> one_pid (?A @ A') m \<and> (\<forall>h \<in> fst ` set A'. h = PSISI_40MS \<or> 3 \<le> h)"
  proof (rule Cons.IH [OF one])
    show "\<forall>p \<in> set (all_pkts ?A @ rest). length p = TS_PACKET_BYTES" using Cons.prems(2) by simp
    show "length (all_pkts ?A) + length rest \<le> 128" using Cons.prems(3) by simp
  qed (rule next_ok)
  then obtain A' m where A': "put_40ms ?p rest (mul', buffers ?A) = Some (m, buffers (?A @ A'))"
    "all_pkts A' = rest" "one_pid (?A @ A') m" "\<forall>h \<in> fst ` set A'. h = PSISI_40MS \<or> 3 \<le> h" by blast
  let ?choice = "if ?p = last_pid \<or> ?p = ?next then
      (let mul = (if ?p \<noteq> last_pid then mul + 1 else mul)
       in (if mul \<le> PSISI_MUL_PKT_3 then mul else PSISI_40MS, mul))
    else (PSISI_40MS, mul)"
  have choice: "?choice = (h, mul')" by (simp add: h_def mul'_def psisi Let_def)
  have "put_40ms last_pid (ts # rest) (mul, buffers A) =
      (case ?choice of (howto, m) \<Rightarrow> do { wi \<leftarrow> put_pkts howto ts (buffers A); put_40ms ?p rest (m, wi) })"
    by (simp only: put_40ms.simps Let_def)
  then have "put_40ms last_pid (ts # rest) (mul, buffers A) = put_40ms ?p rest (mul', buffers ?A)"
    unfolding choice using put by simp
  with A' h(2) show ?case by (intro exI [of _ "(h, [ts]) # A'"] exI [of _ m]) (simp add: psisi)
qed


lemma ents_validate_sum:
  "psi_ents_validate k es \<Longrightarrow> k < OUTPUT_PSI_PACKET_MAX_NUM \<Longrightarrow>
   k + sum_list (map (\<lambda>e. unat (nr_ts_pkts e)) es) < OUTPUT_PSI_PACKET_MAX_NUM
   \<and> (\<forall>e \<in> set es. unat (offset e) + unat (nr_ts_pkts e) < OUTPUT_PSI_PACKET_MAX_NUM)"
  by (induction es arbitrary: k) (fastforce split: if_splits)+

definition type_pkts :: "xmux_output_psi_data \<Rightarrow> nat \<Rightarrow> u8 list list" where
  "type_pkts psi ty =
     (let e = psi_ents psi ! ty in map (\<lambda>i. pkt_at psi (unat (offset e) + i)) [0..<unat (nr_ts_pkts e)])"

lemma put_types:
  assumes wf: "psi_wf psi" and "output_psi_data_validate psi" and n: "n \<le> OUTPUT_PSI_TYPE_MAX_NUM"
  shows "\<exists>A mul. foldM (put_type psi) (PSISI_MUL_PKT_0 - 1, replicate PSISI_MAX_NUM []) [0..<n]
      = Some (mul, buffers A)
    \<and> all_pkts A = concat (map (type_pkts psi) [0..<n]) \<and> one_pid A mul
    \<and> (\<forall>h \<in> {PSISI_2SEC, PSISI_NIT}.
         log_pkts ((=) h) A = concat (map (type_pkts psi) (filter (\<lambda>ty. psi_type_2_howto ty = h) [0..<n])))"
  using n
proof (induction n)
  case 0
  have "replicate PSISI_MAX_NUM [] = buffers []"
    by (rule nth_equalityI) (simp_all add: buffers_def)
  then show ?case by (intro exI [of _ "[]"] exI [of _ 2]) (simp add: one_pid_def psisi)
next
  case (Suc n)
  then obtain A mul where run: "foldM (put_type psi) (PSISI_MUL_PKT_0 - 1, replicate PSISI_MAX_NUM []) [0..<n]
      = Some (mul, buffers A)"
    and A: "all_pkts A = concat (map (type_pkts psi) [0..<n])" "one_pid A mul"
    and fixed: "\<forall>h \<in> {PSISI_2SEC, PSISI_NIT}.
         log_pkts ((=) h) A = concat (map (type_pkts psi) (filter (\<lambda>ty. psi_type_2_howto ty = h) [0..<n]))"
    by auto
  let ?e = "psi_ents psi ! n" and ?ps = "type_pkts psi n" and ?h = "psi_type_2_howto n"
  have es: "length (psi_ents psi) = 8" using wf by (simp add: psi_wf_def psi_sizes)
  have sum: "sum_list (map (\<lambda>e. unat (nr_ts_pkts e)) (psi_ents psi)) < 87"
    and bound: "\<forall>e \<in> set (psi_ents psi). unat (offset e) + unat (nr_ts_pkts e) < 87"
    using ents_validate_sum [of 0 "psi_ents psi"] assms(2)
    by (auto simp: output_psi_data_validate_def psi_sizes)
  have e: "?e \<in> set (psi_ents psi)" using Suc.prems es by (simp add: psi_sizes)
  have pkts: "ent_pkts psi ?e = Some ?ps"
    using bound e wf by (auto simp: ent_pkts_def type_pkts_def Let_def psi_wf_def psi_sizes)
  have "length (concat (map (type_pkts psi) [0..<Suc n]))
      = sum_list (map (\<lambda>ty. unat (nr_ts_pkts (psi_ents psi ! ty))) [0..<Suc n])"
    by (simp add: length_concat comp_def type_pkts_def Let_def del: upt_Suc)
  also have "map (\<lambda>ty. unat (nr_ts_pkts (psi_ents psi ! ty))) [0..<Suc n]
      = take (Suc n) (map (\<lambda>e. unat (nr_ts_pkts e)) (psi_ents psi))"
    using Suc.prems es by (intro nth_equalityI) (simp_all add: psi_sizes del: upt_Suc)
  also have "sum_list \<dots> \<le> sum_list (map (\<lambda>e. unat (nr_ts_pkts e)) (psi_ents psi))"
    by (metis append_take_drop_id le_add1 sum_list_append)
  finally have "length (concat (map (type_pkts psi) [0..<Suc n])) < 87" using sum by simp
  then have total: "length (all_pkts A) + length ?ps \<le> 128" using A(1) by simp
  have "length (pkt_at psi (unat (offset (psi_ents psi ! ty)) + i)) = TS_PACKET_BYTES"
    if "ty \<le> n" "i < unat (nr_ts_pkts (psi_ents psi ! ty))" for ty i
  proof -
    have "psi_ents psi ! ty \<in> set (psi_ents psi)" using that(1) Suc.prems es by (simp add: psi_sizes)
    with bound that(2) wf show ?thesis by (force simp: pkt_at_def psi_wf_def psi_sizes)
  qed
  then have lens: "\<forall>p \<in> set (all_pkts A @ ?ps). length p = TS_PACKET_BYTES"
    unfolding A(1) by (auto simp: type_pkts_def Let_def)
  have nil: "?ps = []" if "nr_ts_pkts ?e = 0" using that by (simp add: type_pkts_def)
  have step: "\<exists>A' mul'. put_type psi (mul, buffers A) n = Some (mul', buffers (A @ A'))
      \<and> all_pkts A' = ?ps \<and> one_pid (A @ A') mul'
      \<and> (\<forall>h \<in> {PSISI_2SEC, PSISI_NIT}. log_pkts ((=) h) A' = (if ?h = h then ?ps else []))"
  proof (cases "nr_ts_pkts ?e = 0")
    case True
    then show ?thesis using nil A(2)
      by (intro exI [of _ "[]"] exI [of _ mul]) (simp add: put_type_def Let_def)
  next
    case ne: False
    show ?thesis
    proof (cases "?h = PSISI_40MS")
      case True
      have "\<exists>A' mul'. put_40ms 0xFFFF ?ps (mul, buffers A) = Some (mul', buffers (A @ A'))
          \<and> all_pkts A' = ?ps \<and> one_pid (A @ A') mul' \<and> (\<forall>h \<in> fst ` set A'. h = PSISI_40MS \<or> 3 \<le> h)"
        by (rule put_40ms_buffers [OF A(2) lens total]) (use GET_PID_small in blast)
      then obtain A' mul' where A': "put_40ms 0xFFFF ?ps (mul, buffers A) = Some (mul', buffers (A @ A'))"
        "all_pkts A' = ?ps" "one_pid (A @ A') mul'" "\<forall>h \<in> fst ` set A'. h = PSISI_40MS \<or> 3 \<le> h" by blast
      have "log_pkts ((=) h) A' = []" if "h \<in> {PSISI_2SEC, PSISI_NIT}" for h
        by (rule log_pkts_none) (use A'(4) that in \<open>auto simp: psisi\<close>)
      with A' True ne pkts show ?thesis
        by (intro exI [of _ A'] exI [of _ mul']) (auto simp: put_type_def Let_def psisi)
    next
      case False
      then have h: "?h = PSISI_2SEC \<or> ?h = PSISI_NIT" by (auto simp: psi_type_2_howto_def)
      then have "put_pkts ?h (concat ?ps) (buffers A) = Some (buffers (A @ [(?h, ?ps)]))"
        by (intro put_pkts_buffers lens total) (auto simp: psisi)
      moreover have "one_pid (A @ [(?h, ?ps)]) mul"
        using one_pid_other [OF A(2), of ?h ?ps] h by (auto simp: psisi)
      ultimately show ?thesis using False ne pkts
        by (intro exI [of _ "[(?h, ?ps)]"] exI [of _ mul])
           (auto simp: put_type_def Let_def log_pkts_single)
    qed
  qed
  then obtain A' mul' where A': "put_type psi (mul, buffers A) n = Some (mul', buffers (A @ A'))"
    "all_pkts A' = ?ps" "one_pid (A @ A') mul'"
    "\<forall>h \<in> {PSISI_2SEC, PSISI_NIT}. log_pkts ((=) h) A' = (if ?h = h then ?ps else [])" by blast
  show ?case
  proof (intro exI conjI)
    show "foldM (put_type psi) (PSISI_MUL_PKT_0 - 1, replicate PSISI_MAX_NUM []) [0..<Suc n]
        = Some (mul', buffers (A @ A'))"
      using run A'(1) by (simp add: foldM_append)
    show "all_pkts (A @ A') = concat (map (type_pkts psi) [0..<Suc n])" using A(1) A'(2) by simp
    show "one_pid (A @ A') mul'" by (rule A'(3))
    show "\<forall>h \<in> {PSISI_2SEC, PSISI_NIT}. log_pkts ((=) h) (A @ A')
        = concat (map (type_pkts psi) (filter (\<lambda>ty. psi_type_2_howto ty = h) [0..<Suc n]))"
      using fixed A'(4) by (auto simp: log_pkts_append)
  qed
qed


text \<open>C11: Applying a valid area writes every packet of every type to exactly one repetition buffer,
  in order: the network and the service tables to theirs, every other to the 40 ms buffer or to one of
  the four buffers for tables of several packets, which never mix two PIDs.\<close>

theorem psi_apply_distributes:
  assumes "psi_wf psi" "output_psi_data_validate psi"
  shows "\<exists>A. psi_apply_from_output_psi psi = Some (filter (\<lambda>(howto, bytes). bytes \<noteq> []) (enumerate 0 (buffers A)))
    \<and> all_pkts A = concat (map (type_pkts psi) [0..<OUTPUT_PSI_TYPE_MAX_NUM])
    \<and> log_pkts ((=) PSISI_NIT) A = type_pkts psi PSI_TYPE_NIT
    \<and> log_pkts ((=) PSISI_2SEC) A = concat (map (type_pkts psi) [PSI_TYPE_SDT, 5, 6, 7])
    \<and> (\<forall>h \<in> {PSISI_MUL_PKT_0..PSISI_MUL_PKT_3}. \<forall>p \<in> set (log_pkts ((=) h) A). \<forall>q \<in> set (log_pkts ((=) h) A).
         GET_PID p = GET_PID q)"
proof -
  obtain A mul where A: "foldM (put_type psi) (PSISI_MUL_PKT_0 - 1, replicate PSISI_MAX_NUM [])
      [0..<OUTPUT_PSI_TYPE_MAX_NUM] = Some (mul, buffers A)"
    "all_pkts A = concat (map (type_pkts psi) [0..<OUTPUT_PSI_TYPE_MAX_NUM])" "one_pid A mul"
    "\<forall>h \<in> {PSISI_2SEC, PSISI_NIT}. log_pkts ((=) h) A
       = concat (map (type_pkts psi) (filter (\<lambda>ty. psi_type_2_howto ty = h) [0..<OUTPUT_PSI_TYPE_MAX_NUM]))"
    using put_types [OF assms le_refl] by blast
  have upt8: "[0..<8] = [0, 1, 2, 3, 4, 5, 6, 7]" by (simp add: upt_rec)
  have "GET_PID p = GET_PID q" if "h \<in> {PSISI_MUL_PKT_0..PSISI_MUL_PKT_3}" "p \<in> set (log_pkts ((=) h) A)"
    "q \<in> set (log_pkts ((=) h) A)" for h p q
  proof -
    have "3 \<le> h" "log_pkts ((=) h) A \<noteq> []" using that by (auto simp: psisi)
    from one_pidD(2) [OF A(3) this] that show ?thesis by blast
  qed
  moreover have "log_pkts ((=) PSISI_NIT) A = type_pkts psi PSI_TYPE_NIT"
    "log_pkts ((=) PSISI_2SEC) A = concat (map (type_pkts psi) [PSI_TYPE_SDT, 5, 6, 7])"
    using A(4) unfolding OUTPUT_PSI_TYPE_MAX_NUM_def upt8
    by (simp_all add: psi_type_2_howto_def psi_types psisi)
  moreover have "psi_apply_from_output_psi psi
      = Some (filter (\<lambda>(howto, bytes). bytes \<noteq> []) (enumerate 0 (buffers A)))"
    unfolding psi_apply_from_output_psi_def A(1) by simp
  ultimately show ?thesis using A(2) by blast
qed

lemma zero_ents_validate: "psi_ents_validate k (replicate n ent_zero)"
  by (induction n) (simp_all add: ent_zero_def)

theorem psi_apply_distributes_witness:
  "\<exists>A. psi_apply_from_output_psi psi_zero = Some (filter (\<lambda>(howto, bytes). bytes \<noteq> []) (enumerate 0 (buffers A)))
    \<and> all_pkts A = concat (map (type_pkts psi_zero) [0..<OUTPUT_PSI_TYPE_MAX_NUM])"
proof -
  have "psi_wf psi_zero" by (simp add: psi_wf_def psi_zero_def)
  moreover have "output_psi_data_validate psi_zero"
    by (simp add: output_psi_data_validate_def psi_zero_def zero_ents_validate)
  ultimately show ?thesis using psi_apply_distributes by blast
qed


section \<open>The sections come back\<close>

type_synonym section_job = "u8 list \<times> u16 \<times> u8"

definition job_pkts :: "section_job \<Rightarrow> u8 list list" where
  "job_pkts = (\<lambda>(sec, pid, cc). ts_pkts (section_to_ts sec pid cc))"

definition job_ok :: "section_job \<Rightarrow> bool" where
  "job_ok j \<longleftrightarrow> section_wf (fst j) \<and> length (fst j) \<le> 183"

lemma pop_sections_jobs:
  "\<forall>j \<in> set jobs. job_ok j \<Longrightarrow>
   pop_sections (concat (map job_pkts jobs)) = map (\<lambda>j. (length (fst j), fst j)) jobs"
proof (induction jobs)
  case Nil
  then show ?case by (simp add: pop_sections.simps)
next
  case (Cons j jobs)
  obtain sec pid cc where j: "j = (sec, pid, cc)" by (cases j)
  have pop: "ts_pop_section (job_pkts j @ concat (map job_pkts jobs)) = (length sec, sec, concat (map job_pkts jobs))"
    using Cons.prems ts_pop_short_section [of sec pid cc] by (simp add: job_ok_def job_pkts_def j)
  have "job_pkts j \<noteq> []"
  proof -
    have "sec \<noteq> []" using Cons.prems by (auto simp: job_ok_def j section_wf_def)
    then show ?thesis using section_to_ts_first [of sec pid cc] by (simp add: job_pkts_def j)
  qed
  then show ?case using pop Cons by (subst pop_sections.simps) (simp add: j)
qed

lemma put_section_row:
  assumes "section_row row" "length sec \<le> 183"
  shows "put_section n sec row = Some (le16 (word_of_nat n) @ sec @ drop (2 + length sec) row)"
proof -
  have row: "length row = 1024" using assms(1) by (simp add: section_row_def limit_simps)
  then have "mem_write row 2 sec = Some (take 2 row @ sec @ drop (2 + length sec) row)"
    using assms(2) by (simp add: mem_write_def)
  moreover have "mem_write (take 2 row @ sec @ drop (2 + length sec) row) 0 (le16 (word_of_nat n))
      = Some (le16 (word_of_nat n) @ sec @ drop (2 + length sec) row)"
    using row assms(2) by (simp add: mem_write_def)
  ultimately show ?thesis by (simp add: put_section_def)
qed

lemma put_sections_rows:
  assumes "\<forall>s \<in> set secs. length (snd s) \<le> 183" "length secs \<le> length rows" "list_all section_row rows"
  shows "put_sections secs rows = Some (map (\<lambda>((n, sec), row). le16 (word_of_nat n) @ sec @ drop (2 + length sec) row)
      (zip secs rows) @ drop (length secs) rows)"
  using assms(1,2)
proof (induction secs rule: rev_induct)
  case Nil
  then show ?case by (simp add: put_sections_def)
next
  case (snoc s secs)
  obtain n sec where s: "s = (n, sec)" by (cases s)
  let ?k = "length secs"
  let ?f = "\<lambda>((n, sec), row). le16 (word_of_nat n) @ sec @ drop (2 + length sec) row"
  let ?done = "map ?f (zip secs rows)"
  have k: "?k < length rows" using snoc.prems(2) by simp
  have IH: "put_sections secs rows = Some (?done @ drop ?k rows)" using snoc by simp
  have len: "length ?done = ?k" using k by simp
  have row: "(?done @ drop ?k rows) ! ?k = rows ! ?k" using k len by (simp add: nth_append)
  have "section_row (rows ! ?k)" using assms(3) k by (simp add: list_all_length)
  then have put: "put_section n sec (rows ! ?k) = Some (?f (s, rows ! ?k))"
    using put_section_row [of "rows ! ?k" sec n] snoc.prems(1) by (simp add: s)
  have "put_sections (secs @ [s]) rows = Some ((?done @ drop ?k rows)[?k := ?f (s, rows ! ?k)])"
    using IH put k row len
    by (simp add: put_sections_def enumerate_append_eq foldM_append s del: length_map)
  also have "(?done @ drop ?k rows)[?k := ?f (s, rows ! ?k)] = ?done @ ?f (s, rows ! ?k) # drop (Suc ?k) rows"
    using len k by (simp add: list_update_append Cons_nth_drop_Suc [symmetric])
  also have "\<dots> = map ?f (zip (secs @ [s]) rows) @ drop (length (secs @ [s])) rows"
  proof -
    have "zip (secs @ [s]) rows = zip secs rows @ [(s, rows ! ?k)]"
      by (rule nth_equalityI) (use k in \<open>auto simp: nth_append less_Suc_eq\<close>)
    then show ?thesis by simp
  qed
  finally show ?case .
qed

text \<open>The PMT sections the generator filled into the area are handed to the SNMP manager whole:
  row after row with its length in front, the rest of the row as it was.\<close>

theorem snmp_gets_pmt_sections:
  assumes "psi_wf psi" "mib_wf m"
    and "\<forall>ty < OUTPUT_PSI_TYPE_MAX_NUM. ty \<noteq> PSI_TYPE_PMT \<longrightarrow> nr_ts_pkts (psi_ents psi ! ty) = 0"
    and "ent_pkts psi (psi_ents psi ! PSI_TYPE_PMT) = Some (concat (map job_pkts jobs))"
    and "\<forall>j \<in> set jobs. job_ok j" "length jobs \<le> PROGRAM_MAX_NUM" "nr_ts_pkts (psi_ents psi ! PSI_TYPE_PMT) \<noteq> 0"
  shows "\<exists>m'. output_psi_2_snmp_section psi m = Some m'
    \<and> (\<forall>i < length jobs. sg_mib_pmt m' ! CHANNEL_MAX_NUM ! i
        = le16 (word_of_nat (length (fst (jobs ! i)))) @ fst (jobs ! i)
          @ drop (2 + length (fst (jobs ! i))) (sg_mib_pmt m ! CHANNEL_MAX_NUM ! i))"
proof -
  let ?rows = "sg_mib_pmt m ! CHANNEL_MAX_NUM"
  have row: "?rows \<in> set (sg_mib_pmt m)" "CHANNEL_MAX_NUM < length (sg_mib_pmt m)"
    using assms(2) by (simp_all add: mib_wf_def)
  then have rows: "length ?rows = PROGRAM_MAX_NUM" "list_all section_row ?rows"
    using assms(2) by (simp_all add: mib_wf_def)
  let ?secs = "map (\<lambda>j. (length (fst j), fst j)) jobs"
  let ?new = "map (\<lambda>((n, sec), row). le16 (word_of_nat n) @ sec @ drop (2 + length sec) row)
      (zip ?secs ?rows) @ drop (length ?secs) ?rows"
  have put: "put_sections ?secs ?rows = Some ?new"
    by (rule put_sections_rows) (use assms(5,6) rows in \<open>auto simp: job_ok_def\<close>)
  let ?m = "m\<lparr> sg_mib_pmt := (sg_mib_pmt m)[CHANNEL_MAX_NUM := ?new] \<rparr>"
  have pmt: "type_2_snmp_section psi m PSI_TYPE_PMT = Some ?m"
    using assms(4,7) pop_sections_jobs [OF assms(5)] put
    by (simp add: type_2_snmp_section_def psi_types Let_def)
  have other: "type_2_snmp_section psi m' ty = Some m'"
    if "ty < OUTPUT_PSI_TYPE_MAX_NUM" "ty \<noteq> PSI_TYPE_PMT" for ty m'
    using assms(3) that by (simp add: type_2_snmp_section_def)
  have upt8: "[0..<8] = [0, 1, 2, 3, 4, 5, 6, 7]" by (simp add: upt_rec)
  have "output_psi_2_snmp_section psi m = Some ?m"
    unfolding output_psi_2_snmp_section_def OUTPUT_PSI_TYPE_MAX_NUM_def upt8
    using pmt other by (simp add: psi_types OUTPUT_PSI_TYPE_MAX_NUM_def)
  moreover have "sg_mib_pmt ?m ! CHANNEL_MAX_NUM ! i
        = le16 (word_of_nat (length (fst (jobs ! i)))) @ fst (jobs ! i)
          @ drop (2 + length (fst (jobs ! i))) (?rows ! i)" if "i < length jobs" for i
    using that row(2) rows(1) assms(6) by (simp add: nth_append)
  ultimately show ?thesis by blast
qed


theorem snmp_gets_pmt_sections_witness:
  "\<exists>psi m m'. output_psi_2_snmp_section psi m = Some m'
    \<and> sg_mib_pmt m' ! CHANNEL_MAX_NUM ! 0 = le16 4 @ [2, 0xB0, 1, 7] @ replicate 1018 0"
proof -
  let ?job = "([2, 0xB0, 1, 7], 0x100, 0) :: section_job"
  let ?row = "replicate 1024 0 :: u8 list"
  let ?m = "\<lparr> sg_mib_pat = replicate 9 ?row, sg_mib_pmt = replicate 9 (replicate 64 ?row),
    sg_mib_cat = replicate 9 ?row, sg_mib_nit = replicate 9 ?row,
    sg_mib_sdt = replicate 9 (replicate 5 ?row), sg_mib_eit = replicate 9 (replicate 8 ?row) \<rparr>"
  let ?pkt = "section_ts_packet 0x100 0 0 [2, 0xB0, 1, 7]"
  let ?psi = "\<lparr> pkt_nr = 1, psi_ents = ent_zero # \<lparr> offset = 0, nr_ts_pkts = 1 \<rparr> # replicate 6 ent_zero,
    ts_area = ?pkt @ replicate 16176 0 \<rparr>"
  have ok: "job_ok ?job" by (simp add: job_ok_def section_wf_def)
  have pkts: "job_pkts ?job = [?pkt]"
    using section_to_ts_first [of "[2, 0xB0, 1, 7]" "0x100" 0] by (simp add: job_pkts_def)
  have "psi_wf ?psi" by (simp add: psi_wf_def psi_sizes)
  moreover have "mib_wf ?m" by (simp add: mib_wf_def section_row_def SDT_SECTION_NUM_def EIT_SECTION_NUM_def
      limit_simps list_all_iff)
  moreover have "nr_ts_pkts (psi_ents ?psi ! ty) = 0" if "ty < OUTPUT_PSI_TYPE_MAX_NUM" "ty \<noteq> PSI_TYPE_PMT" for ty
    using that by (auto simp: psi_sizes psi_types nth_Cons ent_zero_def split: nat.splits)
  moreover have "ent_pkts ?psi (psi_ents ?psi ! PSI_TYPE_PMT) = Some (concat (map job_pkts [?job]))"
    by (simp add: ent_pkts_def pkts psi_types pkt_at_def TS_PACKET_BYTES_def)
  ultimately have "\<exists>m'. output_psi_2_snmp_section ?psi ?m = Some m' \<and> (\<forall>i < length [?job].
      sg_mib_pmt m' ! CHANNEL_MAX_NUM ! i = le16 (word_of_nat (length (fst ([?job] ! i)))) @ fst ([?job] ! i)
          @ drop (2 + length (fst ([?job] ! i))) (sg_mib_pmt ?m ! CHANNEL_MAX_NUM ! i))"
    by (intro snmp_gets_pmt_sections) (use ok in \<open>auto simp: psi_types limit_simps\<close>)
  then show ?thesis by (auto simp: CHANNEL_MAX_NUM_def)
qed

end
