(* ===== verification/Params.thy ===== *)
theory Params
  imports PidTransInfo OutputPsi PidMap
begin

unbundle bit_operations_syntax

text \<open>
  The parameters the manager keeps in its EEPROM (\<^verbatim>\<open>struct xmux_eeprom_param\<close> of
  \<^verbatim>\<open>include/xmux.h\<close>): each part as a record and as bytes, its place in the EEPROM, and the
  validation and the defaults of the system, network and user parameters
  (\<^verbatim>\<open>src/xmux_misc.c\<close>, \<^verbatim>\<open>src/xmux_net.c\<close>).
\<close>

section \<open>The parts\<close>

record xmux_system_param =
  output_bitrate :: u32
  format :: u8
  vendor_info :: "u8 list"
  version :: u32
  update_time :: u32

record xmux_net_param =
  server_ip :: u32
  ip :: u32
  netmask :: u32
  gateway :: u32
  mac :: "u8 list"
  net_csc :: u8

record xmux_user_param =
  user_len :: u8
  user :: "u8 list"
  password_len :: u8
  password :: "u8 list"
  user_csc :: u8
  reserved :: u8

record ci_info_param =
  ci_max_descramble_num :: u8
  ci_name :: "u8 list"

record xmux_misc_param =
  mng_mode :: u8
  sel_src :: u8
  ci_info :: ci_info_param

record xmux_eeprom_param =
  p_sys :: xmux_system_param
  p_net :: xmux_net_param
  p_user :: xmux_user_param
  p_misc :: xmux_misc_param
  p_mux_prog_info :: xmux_mux_program_info
  p_pid_map_table :: xmux_pid_map_table
  p_output_psi :: xmux_output_psi_data
  p_pid_trans_info :: "pid_trans_info_snmp_data list"

section \<open>The parts as bytes\<close>

definition sys_mem :: "xmux_system_param \<Rightarrow> u8 list" where
  "sys_mem p = le32 (output_bitrate p) @ format p # vendor_info p @ le32 (version p) @ le32 (update_time p)"

definition sys_of_mem :: "u8 list \<Rightarrow> xmux_system_param" where
  "sys_of_mem bs = \<lparr> output_bitrate = of_le32 bs, format = bs ! 4, vendor_info = take 8 (drop 5 bs),
     version = of_le32 (drop 13 bs), update_time = of_le32 (drop 17 bs) \<rparr>"

definition net_mem :: "xmux_net_param \<Rightarrow> u8 list" where
  "net_mem p = le32 (server_ip p) @ le32 (ip p) @ le32 (netmask p) @ le32 (gateway p) @ mac p @ [net_csc p]"

definition net_of_mem :: "u8 list \<Rightarrow> xmux_net_param" where
  "net_of_mem bs = \<lparr> server_ip = of_le32 bs, ip = of_le32 (drop 4 bs), netmask = of_le32 (drop 8 bs),
     gateway = of_le32 (drop 12 bs), mac = take 6 (drop 16 bs), net_csc = bs ! 22 \<rparr>"

definition user_mem :: "xmux_user_param \<Rightarrow> u8 list" where
  "user_mem p = user_len p # user p @ password_len p # password p @ [user_csc p, reserved p]"

definition user_of_mem :: "u8 list \<Rightarrow> xmux_user_param" where
  "user_of_mem bs = \<lparr> user_len = bs ! 0, user = take 16 (drop 1 bs), password_len = bs ! 17,
     password = take 16 (drop 18 bs), user_csc = bs ! 34, reserved = bs ! 35 \<rparr>"

definition ci_mem :: "ci_info_param \<Rightarrow> u8 list" where
  "ci_mem p = ci_max_descramble_num p # ci_name p"

definition ci_of_mem :: "u8 list \<Rightarrow> ci_info_param" where
  "ci_of_mem bs = \<lparr> ci_max_descramble_num = bs ! 0, ci_name = take 20 (drop 1 bs) \<rparr>"

definition misc_mem :: "xmux_misc_param \<Rightarrow> u8 list" where
  "misc_mem p = mng_mode p # sel_src p # ci_mem (ci_info p)"

definition misc_of_mem :: "u8 list \<Rightarrow> xmux_misc_param" where
  "misc_of_mem bs = \<lparr> mng_mode = bs ! 0, sel_src = bs ! 1, ci_info = ci_of_mem (drop 2 bs) \<rparr>"

definition mux_mem :: "xmux_mux_program_info \<Rightarrow> u8 list" where
  "mux_mem p = le16 (mp_nprogs p) @ concat (map (\<lambda>e. [mp_chan_idx e, mp_prog_idx e]) (mp_programs p))"

definition mux_of_mem :: "u8 list \<Rightarrow> xmux_mux_program_info" where
  "mux_of_mem bs = \<lparr> mp_nprogs = READ_U16 bs,
     mp_programs = map (\<lambda>i. (\<lambda>b. \<lparr> mp_chan_idx = b ! 0, mp_prog_idx = b ! 1 \<rparr>) (drop (i * 2) (drop 2 bs)))
       [0..<PROGRAM_MAX_NUM] \<rparr>"

definition map_entry_mem :: "pid_map_entry \<Rightarrow> u8 list" where
  "map_entry_mem e = le16 (input_pid e) @ le16 (output_pid e)"

definition map_entry_of_mem :: "u8 list \<Rightarrow> pid_map_entry" where
  "map_entry_of_mem bs = \<lparr> input_pid = READ_U16 bs, output_pid = READ_U16 (drop 2 bs) \<rparr>"

definition map_row_mem :: "pid_map_entry list \<Rightarrow> u8 list" where
  "map_row_mem r = concat (map map_entry_mem r)"

definition map_row_of_mem :: "u8 list \<Rightarrow> pid_map_entry list" where
  "map_row_of_mem bs = map (\<lambda>i. map_entry_of_mem (drop (i * 4) bs)) [0..<FPGA_PID_MAP_TABLE_CHAN_PIDS]"

definition map_mem :: "xmux_pid_map_table \<Rightarrow> u8 list" where
  "map_mem m = concat (map map_row_mem m)"

definition map_of_mem :: "u8 list \<Rightarrow> xmux_pid_map_table" where
  "map_of_mem bs = map (\<lambda>c. map_row_of_mem (drop (c * 128) bs)) [0..<CHANNEL_MAX_NUM]"

definition ent_mem :: "output_psi_data_entry \<Rightarrow> u8 list" where
  "ent_mem e = [offset e, nr_ts_pkts e]"

definition ent_of_mem :: "u8 list \<Rightarrow> output_psi_data_entry" where
  "ent_of_mem bs = \<lparr> offset = bs ! 0, nr_ts_pkts = bs ! 1 \<rparr>"

definition psi_mem :: "xmux_output_psi_data \<Rightarrow> u8 list" where
  "psi_mem p = le32 (pkt_nr p) @ concat (map ent_mem (psi_ents p)) @ ts_area p"

definition psi_of_mem :: "u8 list \<Rightarrow> xmux_output_psi_data" where
  "psi_of_mem bs = \<lparr> pkt_nr = of_le32 bs,
     psi_ents = map (\<lambda>i. ent_of_mem (drop (i * 2) (drop 4 bs))) [0..<OUTPUT_PSI_TYPE_MAX_NUM],
     ts_area = take OUTPUT_PSI_TS_DATA_SIZE (drop 20 bs) \<rparr>"

definition SYS_SIZE :: nat where "SYS_SIZE = 21"
definition NET_SIZE :: nat where "NET_SIZE = 23"
definition USER_SIZE :: nat where "USER_SIZE = 36"
definition MISC_SIZE :: nat where "MISC_SIZE = 23"
definition MUX_SIZE :: nat where "MUX_SIZE = 130"
definition MAP_SIZE :: nat where "MAP_SIZE = 1024"

lemmas part_sizes = SYS_SIZE_def NET_SIZE_def USER_SIZE_def MISC_SIZE_def MUX_SIZE_def MAP_SIZE_def

interpretation sys: byte_codec sys_mem sys_of_mem "\<lambda>p. length (vendor_info p) = 8" SYS_SIZE
proof unfold_locales
  fix p :: xmux_system_param and rest
  assume v: "length (vendor_info p) = 8"
  show "length (sys_mem p) = SYS_SIZE" using v by (simp add: sys_mem_def SYS_SIZE_def)
  have "drop 13 (sys_mem p @ rest) = le32 (version p) @ le32 (update_time p) @ rest"
    "drop 17 (sys_mem p @ rest) = le32 (update_time p) @ rest"
    "drop 5 (sys_mem p @ rest) = vendor_info p @ le32 (version p) @ le32 (update_time p) @ rest"
    using v by (simp_all add: sys_mem_def)
  moreover have "of_le32 (sys_mem p @ rest) = output_bitrate p" "(sys_mem p @ rest) ! 4 = format p"
    by (simp_all add: sys_mem_def of_le32_le32) (simp add: nth_append)
  ultimately show "sys_of_mem (sys_mem p @ rest) = p" using v by (simp add: sys_of_mem_def of_le32_le32)
qed

interpretation net: byte_codec net_mem net_of_mem "\<lambda>p. length (mac p) = 6" NET_SIZE
proof unfold_locales
  fix p :: xmux_net_param and rest
  assume v: "length (mac p) = 6"
  show "length (net_mem p) = NET_SIZE" using v by (simp add: net_mem_def NET_SIZE_def)
  have "drop 4 (net_mem p @ rest) = le32 (ip p) @ drop 8 (net_mem p @ rest)"
    "drop 8 (net_mem p @ rest) = le32 (netmask p) @ drop 12 (net_mem p @ rest)"
    "drop 12 (net_mem p @ rest) = le32 (gateway p) @ drop 16 (net_mem p @ rest)"
    "drop 16 (net_mem p @ rest) = mac p @ net_csc p # rest" "(net_mem p @ rest) ! 22 = net_csc p"
    using v by (simp_all add: net_mem_def nth_append)
  moreover have "of_le32 (net_mem p @ rest) = server_ip p" by (simp add: net_mem_def of_le32_le32)
  ultimately show "net_of_mem (net_mem p @ rest) = p"
    using v by (simp only: net_of_mem_def of_le32_le32) simp
qed

interpretation user: byte_codec user_mem user_of_mem "\<lambda>p. length (user p) = 16 \<and> length (password p) = 16" USER_SIZE
  by unfold_locales (auto simp: user_mem_def user_of_mem_def USER_SIZE_def nth_append)

interpretation ci: byte_codec ci_mem ci_of_mem "\<lambda>p. length (ci_name p) = 20" 21
  by unfold_locales (simp_all add: ci_mem_def ci_of_mem_def)

interpretation misc: byte_codec misc_mem misc_of_mem "\<lambda>p. length (ci_name (ci_info p)) = 20" MISC_SIZE
  by unfold_locales (simp_all add: misc_mem_def misc_of_mem_def MISC_SIZE_def ci.enc_length ci.dec_enc)

interpretation mux_entry: byte_codec "\<lambda>e. [mp_chan_idx e, mp_prog_idx e]"
  "\<lambda>b. \<lparr> mp_chan_idx = b ! 0, mp_prog_idx = b ! 1 \<rparr>" "\<lambda>_. True" 2
  by unfold_locales simp_all

interpretation mux: byte_codec mux_mem mux_of_mem "\<lambda>p. length (mp_programs p) = PROGRAM_MAX_NUM" MUX_SIZE
proof unfold_locales
  fix p :: xmux_mux_program_info and rest
  assume v: "length (mp_programs p) = PROGRAM_MAX_NUM"
  show "length (mux_mem p) = MUX_SIZE"
    using v mux_entry.concat_length [of "mp_programs p"] by (simp add: mux_mem_def MUX_SIZE_def limit_simps)
  have "drop 2 (mux_mem p @ rest) = concat (map (\<lambda>e. [mp_chan_idx e, mp_prog_idx e]) (mp_programs p)) @ rest"
    by (simp add: mux_mem_def)
  moreover have "READ_U16 (mux_mem p @ rest) = mp_nprogs p" by (simp add: mux_mem_def READ_U16_le16)
  ultimately show "mux_of_mem (mux_mem p @ rest) = p"
    using mux_entry.dec_array [of "mp_programs p" rest] v
    by (simp only: mux_of_mem_def) (simp del: One_nat_def)
qed

text \<open>An entry of the PID map is two numbers, a row an array of entries, the map an array of rows.\<close>

interpretation u16s: two_codecs le16 READ_U16 "\<lambda>_. True" 2 le16 READ_U16 "\<lambda>_. True" 2 ..

interpretation map_entry: byte_codec map_entry_mem map_entry_of_mem "\<lambda>_. True" 4
proof unfold_locales
  fix e :: pid_map_entry and rest
  show "length (map_entry_mem e) = 4" by (simp add: map_entry_mem_def)
  show "map_entry_of_mem (map_entry_mem e @ rest) = e"
    using u16s.pair.dec_enc [of "(input_pid e, output_pid e)" rest]
    by (simp add: map_entry_mem_def map_entry_of_mem_def del: drop_append)
qed

definition map_row_wf :: "pid_map_entry list \<Rightarrow> bool" where
  "map_row_wf r \<longleftrightarrow> length r = FPGA_PID_MAP_TABLE_CHAN_PIDS"

interpretation map_row: byte_codec map_row_mem map_row_of_mem map_row_wf 128
proof unfold_locales
  fix r rest
  assume "map_row_wf r"
  then have r: "length r = FPGA_PID_MAP_TABLE_CHAN_PIDS" by (simp add: map_row_wf_def)
  show "length (map_row_mem r) = 128"
    using r map_entry.concat_length [of r] by (simp add: map_row_mem_def limit_simps)
  show "map_row_of_mem (map_row_mem r @ rest) = r"
    unfolding map_row_mem_def map_row_of_mem_def r [symmetric] by (rule map_entry.dec_array) simp
qed

definition map_wf :: "xmux_pid_map_table \<Rightarrow> bool" where
  "map_wf m \<longleftrightarrow> length m = CHANNEL_MAX_NUM \<and> (\<forall>r \<in> set m. map_row_wf r)"

interpretation map: byte_codec map_mem map_of_mem map_wf MAP_SIZE
proof unfold_locales
  fix m rest
  assume "map_wf m"
  then have m: "length m = CHANNEL_MAX_NUM" and rows: "\<forall>r \<in> set m. map_row_wf r" by (simp_all add: map_wf_def)
  show "length (map_mem m) = MAP_SIZE"
    using m map_row.concat_length [OF rows] by (simp add: map_mem_def MAP_SIZE_def limit_simps)
  show "map_of_mem (map_mem m @ rest) = m"
    unfolding map_mem_def map_of_mem_def m [symmetric] by (rule map_row.dec_array [OF rows])
qed

interpretation ent: byte_codec ent_mem ent_of_mem "\<lambda>_. True" 2
  by unfold_locales (simp_all add: ent_mem_def ent_of_mem_def)

interpretation psi: byte_codec psi_mem psi_of_mem psi_wf OUTPUT_PSI_AREA_SIZE
proof unfold_locales
  fix p :: xmux_output_psi_data and rest
  assume "psi_wf p"
  then have es: "length (psi_ents p) = 8" and ts: "length (ts_area p) = 16364"
    by (simp_all add: psi_wf_def psi_sizes)
  have ents: "length (concat (map ent_mem (psi_ents p))) = 16"
    using es ent.concat_length [of "psi_ents p"] by simp
  show "length (psi_mem p) = OUTPUT_PSI_AREA_SIZE" using ents ts by (simp add: psi_mem_def psi_sizes)
  have "drop 4 (psi_mem p @ rest) = concat (map ent_mem (psi_ents p)) @ ts_area p @ rest"
    by (simp add: psi_mem_def)
  moreover have "drop 20 (psi_mem p @ rest) = ts_area p @ rest" using ents by (simp add: psi_mem_def)
  moreover have "of_le32 (psi_mem p @ rest) = pkt_nr p" by (simp add: psi_mem_def of_le32_le32)
  moreover have "map (\<lambda>i. ent_of_mem (drop (i * 2) (concat (map ent_mem (psi_ents p)) @ ts_area p @ rest))) [0..<8]
      = psi_ents p"
    using ent.dec_array [of "psi_ents p" "ts_area p @ rest"] es by (simp del: drop_append)
  ultimately show "psi_of_mem (psi_mem p @ rest) = p"
    using ts unfolding psi_of_mem_def OUTPUT_PSI_TYPE_MAX_NUM_def by (simp add: psi_sizes)
qed


section \<open>Validation and defaults\<close>

definition FORMAT_BC :: u8 where "FORMAT_BC = 0xBC"
definition FORMAT_CC :: u8 where "FORMAT_CC = 0xCC"
definition XMUX_DEFAULT_OUTPUT_BITRATE :: u32 where "XMUX_DEFAULT_OUTPUT_BITRATE = 38000"
definition XMUX_VENDOR :: "u8 list" where "XMUX_VENDOR = [0x53, 0x4F, 0x55, 0x4B, 0x41]"
definition XMUX_VERSION_NUM :: u32 where "XMUX_VERSION_NUM = push_bit 16 1 OR 10"
definition XMUX_UPDATE_TIME :: u32 where "XMUX_UPDATE_TIME = push_bit 16 2012 OR push_bit 8 6 OR 8"

text \<open>\<^verbatim>\<open>snprintf(buf, n, "%s", s)\<close>: at most \<open>n - 1\<close> bytes and the terminating zero.\<close>

definition snprintf_s :: "nat \<Rightarrow> u8 list \<Rightarrow> u8 list \<Rightarrow> u8 list" where
  "snprintf_s n s buf = take (n - 1) s @ 0 # drop (Suc (min (n - 1) (length s))) buf"

text \<open>\<^verbatim>\<open>inet_addr\<close> gives the address in network order, so its first byte is the first number.\<close>

definition inet_addr :: "u8 \<Rightarrow> u8 \<Rightarrow> u8 \<Rightarrow> u8 \<Rightarrow> u32" where
  "inet_addr a b c d = of_le32 [a, b, c, d]"

definition xmux_system_param_validate :: "xmux_system_param \<Rightarrow> bool" where
  "xmux_system_param_validate sys =
     (if version sys \<noteq> XMUX_VERSION_NUM then False
      else if update_time sys \<noteq> XMUX_UPDATE_TIME then False
      else if format sys \<noteq> FORMAT_BC \<and> format sys \<noteq> FORMAT_CC then False
      else True)"

definition xmux_system_param_default :: "xmux_system_param \<Rightarrow> xmux_system_param" where
  "xmux_system_param_default sys =
     sys\<lparr> output_bitrate := XMUX_DEFAULT_OUTPUT_BITRATE, format := FORMAT_BC,
          vendor_info := snprintf_s 8 XMUX_VENDOR (vendor_info sys),
          version := XMUX_VERSION_NUM, update_time := XMUX_UPDATE_TIME \<rparr>"

definition user_sum :: "xmux_user_param \<Rightarrow> u8" where
  "user_sum u = wu_csc (take 34 (user_mem u))"

definition xmux_user_param_validate :: "xmux_user_param \<Rightarrow> bool" where
  "xmux_user_param_validate u =
     (if user_csc u \<noteq> user_sum u then False
      else if user_len u \<le> 0 \<or> user_len u > 16 then False
      else True)"

definition root_name :: "u8 list" where "root_name = [0x72, 0x6F, 0x6F, 0x74]"

definition xmux_user_param_default :: "xmux_user_param \<Rightarrow> xmux_user_param" where
  "xmux_user_param_default u =
     (let u = u\<lparr> user_len := word_of_nat (length root_name), user := snprintf_s 16 root_name (user u) \<rparr>;
          u = u\<lparr> password_len := word_of_nat (length root_name), password := snprintf_s 16 root_name (password u) \<rparr>
      in u\<lparr> user_csc := user_sum u \<rparr>)"

definition net_sum :: "xmux_net_param \<Rightarrow> u8" where
  "net_sum n = wu_csc (take 22 (net_mem n))"

definition xmux_net_param_validate :: "xmux_net_param \<Rightarrow> bool" where
  "xmux_net_param_validate n =
     (if net_csc n \<noteq> net_sum n then False
      else if list_ex (\<lambda>b. b \<noteq> 0x00 \<and> b \<noteq> 0xFF) (le32 (netmask n)) then False
      else if mac n ! 0 \<noteq> 0x00 then False
      else if ip n = 0x00000000 then False
      else True)"

definition xmux_net_param_init_default :: "xmux_net_param \<Rightarrow> xmux_net_param" where
  "xmux_net_param_init_default n =
     (let n = n\<lparr> ip := inet_addr 192 168 0 125, netmask := inet_addr 255 255 255 0,
               server_ip := inet_addr 192 168 0 100, gateway := inet_addr 192 168 0 1,
               mac := [0x00, 0x09, 0x30, 0x28, 0x12, 0x22] \<rparr>
      in n\<lparr> net_csc := net_sum n \<rparr>)"

text \<open>The sums do not cover the byte they are stored in.\<close>

lemma net_sum_csc [simp]: "length (mac n) = 6 \<Longrightarrow> net_sum (n\<lparr> net_csc := x \<rparr>) = net_sum n"
  by (simp add: net_sum_def net_mem_def)

lemma user_sum_csc [simp]:
  "length (user u) = 16 \<Longrightarrow> length (password u) = 16 \<Longrightarrow> user_sum (u\<lparr> user_csc := x \<rparr>) = user_sum u"
  by (simp add: user_sum_def user_mem_def)

lemma snprintf_s_length: "length s < n \<Longrightarrow> length (snprintf_s n s buf) = max (Suc (length s)) (length buf)"
  by (auto simp: snprintf_s_def max_def)

lemma le32_of_le32: "le32 (of_le32 [a, b, c, d]) = [a, b, c, d]"
  unfolding le32_def of_le32_def list.inject
  by (intro conjI bit_word_eqI; auto simp: bit_simps dest: bit_imp_le_length)

lemma system_default_valid: "xmux_system_param_validate (xmux_system_param_default p)"
  by (simp add: xmux_system_param_validate_def xmux_system_param_default_def)

lemma user_default_lengths:
  "length (user p) = 16 \<Longrightarrow> length (user (xmux_user_param_default p)) = 16"
  "length (password p) = 16 \<Longrightarrow> length (password (xmux_user_param_default p)) = 16"
  by (simp_all add: xmux_user_param_default_def Let_def snprintf_s_length root_name_def)

lemma user_default_valid:
  assumes "length (user p) = 16" "length (password p) = 16"
  shows "xmux_user_param_validate (xmux_user_param_default p)"
  using assms
  by (simp add: xmux_user_param_validate_def xmux_user_param_default_def Let_def snprintf_s_length root_name_def)

lemma net_default_valid: "xmux_net_param_validate (xmux_net_param_init_default p)"
proof -
  have "inet_addr 192 168 0 125 \<noteq> 0" by (simp add: inet_addr_def of_le32_def)
  then show ?thesis
    by (simp add: xmux_net_param_validate_def xmux_net_param_init_default_def Let_def le32_of_le32
        inet_addr_def)
qed

end
