(* ===== verification/Config.thy ===== *)
theory Config
  imports Params
begin

unbundle bit_operations_syntax

text \<open>
  The configuration store: the EEPROM as a map from addresses to bytes, the place of each parameter
  in it, validation and defaults (\<^verbatim>\<open>src/xmux_misc.c\<close>, \<^verbatim>\<open>src/xmux_net.c\<close>), saving and
  loading (\<^verbatim>\<open>src/xmux_config.c\<close>), and the writer that retries until the device holds what was
  written (\<^verbatim>\<open>src/imp/eeprom.c\<close>). Saved parameters survive a restart; whatever the device holds,
  what is loaded is valid.
\<close>

section \<open>The device\<close>

type_synonym eeprom = "nat \<Rightarrow> u8"

definition eeprom_read :: "nat \<Rightarrow> nat \<Rightarrow> eeprom \<Rightarrow> u8 list" where
  "eeprom_read off n m = map (\<lambda>i. m (off + i)) [0..<n]"

definition eeprom_store :: "nat \<Rightarrow> u8 list \<Rightarrow> eeprom \<Rightarrow> eeprom" where
  "eeprom_store off buf m = (\<lambda>a. if off \<le> a \<and> a < off + length buf then buf ! (a - off) else m a)"

interpretation eeprom: byte_store eeprom_read eeprom_store
proof unfold_locales
  fix a b n k :: nat and m :: eeprom and bs :: "u8 list"
  show "length (eeprom_read a n m) = n" by (simp add: eeprom_read_def)
  show "eeprom_read a (k + n) m = eeprom_read a k m @ eeprom_read (a + k) n m"
    by (rule nth_equalityI) (auto simp: eeprom_read_def nth_append add.assoc)
  show "eeprom_read a (length bs) (eeprom_store a bs m) = bs"
    by (rule nth_equalityI) (simp_all add: eeprom_read_def eeprom_store_def)
  show "eeprom_read a n (eeprom_store b bs m) = eeprom_read a n m"
    if "a + n \<le> b \<or> b + length bs \<le> a"
    using that by (auto simp: eeprom_read_def eeprom_store_def)
qed

text \<open>
  \<^verbatim>\<open>eeprom_write\<close> repeats a write that does not read back, four times in all. The driver is
  the parameter \<open>dev\<close>: what its \<open>k\<close>-th attempt makes of the device.
\<close>

type_synonym eeprom_driver = "nat \<Rightarrow> nat \<Rightarrow> u8 list \<Rightarrow> eeprom \<Rightarrow> eeprom"

function write_again :: "eeprom_driver \<Rightarrow> nat \<Rightarrow> u8 list \<Rightarrow> nat \<Rightarrow> eeprom \<Rightarrow> eeprom" where
  "write_again dev off buf try_cnt m =
     (let m = dev try_cnt off buf m
      in if eeprom_read off (length buf) m = buf then m
         else if try_cnt + 1 > 3 then m
         else write_again dev off buf (try_cnt + 1) m)"
  by pat_completeness auto
termination by (relation "measure (\<lambda>(_, _, _, try_cnt, _). 4 - try_cnt)") auto

declare write_again.simps [simp del]

definition eeprom_write :: "eeprom_driver \<Rightarrow> nat \<Rightarrow> u8 list \<Rightarrow> eeprom \<Rightarrow> eeprom" where
  "eeprom_write dev off buf m = write_again dev off buf 0 m"

text \<open>An attempt stores the bytes, or garbles only the bytes it was to store.\<close>

definition stores :: "eeprom_driver \<Rightarrow> nat \<Rightarrow> bool" where
  "stores dev k \<longleftrightarrow> (\<forall>off buf m. dev k off buf m = eeprom_store off buf m)"

definition garbles_inside :: "eeprom_driver \<Rightarrow> nat \<Rightarrow> bool" where
  "garbles_inside dev k \<longleftrightarrow> (\<forall>off buf m. \<exists>junk. length junk = length buf \<and> dev k off buf m = eeprom_store off junk m)"

lemma store_store:
  "length xs = length ys \<Longrightarrow> eeprom_store off ys (eeprom_store off xs m) = eeprom_store off ys m"
  by (auto simp: eeprom_store_def)

lemma store_junk_read:
  assumes "length junk = length buf" "eeprom_read off (length buf) (eeprom_store off junk m) = buf"
  shows "eeprom_store off junk m = eeprom_store off buf m"
  using assms eeprom.rd_wr [of off junk m] by simp



section \<open>The layout\<close>

text \<open>Every area starts on a page of its own; a page of slack follows each group.\<close>

definition EEPROM_SIZE :: nat where "EEPROM_SIZE = 1024 * 128"
definition EEPROM_PAGE_SIZE :: nat where "EEPROM_PAGE_SIZE = 64"

definition page_align :: "nat \<Rightarrow> nat" where
  "page_align a = (a + EEPROM_PAGE_SIZE - 1) div EEPROM_PAGE_SIZE * EEPROM_PAGE_SIZE"

definition EEPROM_OFF_SYS :: nat where "EEPROM_OFF_SYS = 0"
definition EEPROM_OFF_NET :: nat where "EEPROM_OFF_NET = page_align (EEPROM_OFF_SYS + SYS_SIZE)"
definition EEPROM_OFF_USER :: nat where "EEPROM_OFF_USER = page_align (EEPROM_OFF_NET + NET_SIZE)"
definition EEPROM_OFF_MISC :: nat where "EEPROM_OFF_MISC = page_align (EEPROM_OFF_USER + USER_SIZE)"
definition EEPROM_OFF_MUX_PROG_INFO :: nat where
  "EEPROM_OFF_MUX_PROG_INFO = page_align (EEPROM_OFF_MISC + MISC_SIZE)"
definition EEPROM_MISC_PARAM_SIZE :: nat where
  "EEPROM_MISC_PARAM_SIZE = EEPROM_OFF_MUX_PROG_INFO + MUX_SIZE"
definition EEPROM_OFF_PID_MAP_TABLE :: nat where
  "EEPROM_OFF_PID_MAP_TABLE = page_align (EEPROM_MISC_PARAM_SIZE + EEPROM_PAGE_SIZE)"
definition EEPROM_OFF_OUTPUT_PSI :: nat where
  "EEPROM_OFF_OUTPUT_PSI = page_align (EEPROM_OFF_PID_MAP_TABLE + MAP_SIZE + EEPROM_PAGE_SIZE)"
definition EEPROM_OFF_PID_TRANS_INFO :: nat where
  "EEPROM_OFF_PID_TRANS_INFO = page_align (EEPROM_OFF_OUTPUT_PSI + OUTPUT_PSI_AREA_SIZE + EEPROM_PAGE_SIZE)"
definition EEPROM_PID_TRANS_SIZE :: nat where
  "EEPROM_PID_TRANS_SIZE = page_align (PID_TRANS_INFO_SIZE + EEPROM_PAGE_SIZE)"

definition trans_off :: "nat \<Rightarrow> nat" where
  "trans_off c = EEPROM_OFF_PID_TRANS_INFO + EEPROM_PID_TRANS_SIZE * c"

lemma eeprom_offs:
  "EEPROM_OFF_SYS = 0" "EEPROM_OFF_NET = 64" "EEPROM_OFF_USER = 128" "EEPROM_OFF_MISC = 192"
  "EEPROM_OFF_MUX_PROG_INFO = 256" "EEPROM_MISC_PARAM_SIZE = 386" "EEPROM_OFF_PID_MAP_TABLE = 512"
  "EEPROM_OFF_OUTPUT_PSI = 1600" "EEPROM_OFF_PID_TRANS_INFO = 18048" "EEPROM_PID_TRANS_SIZE = 9664"
  by (simp_all add: EEPROM_OFF_SYS_def EEPROM_OFF_NET_def EEPROM_OFF_USER_def EEPROM_OFF_MISC_def
      EEPROM_OFF_MUX_PROG_INFO_def EEPROM_MISC_PARAM_SIZE_def EEPROM_OFF_PID_MAP_TABLE_def
      EEPROM_OFF_OUTPUT_PSI_def EEPROM_OFF_PID_TRANS_INFO_def EEPROM_PID_TRANS_SIZE_def
      page_align_def EEPROM_PAGE_SIZE_def part_sizes OUTPUT_PSI_AREA_SIZE_def PID_TRANS_INFO_SIZE_def)

definition eeprom_areas :: "(nat \<times> nat) list" where
  "eeprom_areas = [(EEPROM_OFF_SYS, SYS_SIZE), (EEPROM_OFF_NET, NET_SIZE), (EEPROM_OFF_USER, USER_SIZE),
     (EEPROM_OFF_MISC, MISC_SIZE), (EEPROM_OFF_MUX_PROG_INFO, MUX_SIZE), (EEPROM_OFF_PID_MAP_TABLE, MAP_SIZE),
     (EEPROM_OFF_OUTPUT_PSI, OUTPUT_PSI_AREA_SIZE)]
     @ map (\<lambda>c. (trans_off c, PID_TRANS_INFO_SIZE)) [0..<CHANNEL_MAX_NUM]"

fun areas_follow :: "nat \<Rightarrow> (nat \<times> nat) list \<Rightarrow> bool" where
  "areas_follow a [] \<longleftrightarrow> a \<le> EEPROM_SIZE"
| "areas_follow a ((off, n) # rest) \<longleftrightarrow> a \<le> off \<and> off mod EEPROM_PAGE_SIZE = 0 \<and> areas_follow (off + n) rest"

text \<open>The areas of the parameters follow one another without overlap, each starts on a page of its
  own, and the last one ends inside the device.\<close>

theorem eeprom_layout: "areas_follow 0 eeprom_areas"
  by (simp add: eeprom_areas_def trans_off_def eeprom_offs part_sizes OUTPUT_PSI_AREA_SIZE_def
      PID_TRANS_INFO_SIZE_def CHANNEL_MAX_NUM_def EEPROM_SIZE_def EEPROM_PAGE_SIZE_def upt_rec)


section \<open>The state of the store\<close>

definition MANAGEMENT_MODE_SNMP :: u8 where "MANAGEMENT_MODE_SNMP = 0x55"
definition MANAGEMENT_MODE_FP :: u8 where "MANAGEMENT_MODE_FP = 0xAA"

record xmux_param_management_info =
  eeprom_pid_trans_info_version :: u32
  eeprom_pid_map_table_version :: u32
  snmp_pid_trans_info_version :: u32
  snmp_pid_map_table_version :: u32

text \<open>The globals of the store; later theories extend the record with the rest of the manager.\<close>

record xmux =
  g_eeprom_param :: xmux_eeprom_param
  eeprom :: eeprom
  management_mode :: u8
  g_param_mng_info :: xmux_param_management_info
  request_save_output_psi :: bool

definition param_wf :: "xmux_eeprom_param \<Rightarrow> bool" where
  "param_wf p \<longleftrightarrow> length (vendor_info (p_sys p)) = 8 \<and> length (mac (p_net p)) = 6
     \<and> length (user (p_user p)) = 16 \<and> length (password (p_user p)) = 16
     \<and> length (ci_name (ci_info (p_misc p))) = 20 \<and> length (mp_programs (p_mux_prog_info p)) = PROGRAM_MAX_NUM
     \<and> map_wf (p_pid_map_table p) \<and> psi_wf (p_output_psi p)
     \<and> length (p_pid_trans_info p) = CHANNEL_MAX_NUM \<and> (\<forall>d \<in> set (p_pid_trans_info p). trans_wf d)"

definition write_eeprom :: "nat \<Rightarrow> u8 list \<Rightarrow> 'a xmux_scheme \<Rightarrow> 'a xmux_scheme" where
  "write_eeprom off buf s = s\<lparr> eeprom := eeprom_store off buf (eeprom s) \<rparr>"

definition upd_param :: "(xmux_eeprom_param \<Rightarrow> xmux_eeprom_param) \<Rightarrow> 'a xmux_scheme \<Rightarrow> 'a xmux_scheme" where
  "upd_param f s = s\<lparr> g_eeprom_param := f (g_eeprom_param s) \<rparr>"

section \<open>Saving\<close>

definition save_sys :: "'a xmux_scheme \<Rightarrow> 'a xmux_scheme" where
  "save_sys s = write_eeprom EEPROM_OFF_SYS (sys_mem (p_sys (g_eeprom_param s))) s"

definition xmux_config_save_output_bitrate :: "u32 \<Rightarrow> 'a xmux_scheme \<Rightarrow> 'a xmux_scheme" where
  "xmux_config_save_output_bitrate bitrate s =
     save_sys (upd_param (\<lambda>p. p\<lparr> p_sys := (p_sys p)\<lparr> output_bitrate := bitrate \<rparr> \<rparr>) s)"

definition xmux_config_save_packet_format :: "u8 \<Rightarrow> 'a xmux_scheme \<Rightarrow> 'a xmux_scheme" where
  "xmux_config_save_packet_format fmt s =
     save_sys (upd_param (\<lambda>p. p\<lparr> p_sys := (p_sys p)\<lparr> format := fmt \<rparr> \<rparr>) s)"

text \<open>The mode is kept in the parameters but not written.\<close>

definition xmux_config_save_management_mode :: "'a xmux_scheme \<Rightarrow> 'a xmux_scheme" where
  "xmux_config_save_management_mode s =
     upd_param (\<lambda>p. p\<lparr> p_misc := (p_misc p)\<lparr> mng_mode := management_mode s \<rparr> \<rparr>) s"

definition xmux_config_save_misc_param :: "'a xmux_scheme \<Rightarrow> 'a xmux_scheme" where
  "xmux_config_save_misc_param s = write_eeprom EEPROM_OFF_MISC (misc_mem (p_misc (g_eeprom_param s))) s"

definition xmux_config_save_ci_info :: "ci_info_param \<Rightarrow> 'a xmux_scheme \<Rightarrow> 'a xmux_scheme" where
  "xmux_config_save_ci_info ci s =
     xmux_config_save_misc_param (upd_param (\<lambda>p. p\<lparr> p_misc := (p_misc p)\<lparr> ci_info := ci \<rparr> \<rparr>) s)"

text \<open>A channel whose record does not validate is skipped.\<close>

definition save_trans_channel :: "'a xmux_scheme \<Rightarrow> nat \<Rightarrow> 'a xmux_scheme option" where
  "save_trans_channel s c =
     do {
       let d = p_pid_trans_info (g_eeprom_param s) ! c;
       ok \<leftarrow> pid_trans_info_validate d;
       Some (if ok then write_eeprom (trans_off c) (take (unat (data_len d) + 2) (trans_mem d)) s else s)
     }"

definition xmux_config_save_pid_trans_info_all :: "'a xmux_scheme \<Rightarrow> 'a xmux_scheme option" where
  "xmux_config_save_pid_trans_info_all s = foldM save_trans_channel s [0..<CHANNEL_MAX_NUM]"

definition xmux_config_save_output_psi_data :: "'a xmux_scheme \<Rightarrow> 'a xmux_scheme" where
  "xmux_config_save_output_psi_data s = s\<lparr> request_save_output_psi := True \<rparr>"

definition psi_used_size :: "u32 \<Rightarrow> nat" where
  "psi_used_size n = min OUTPUT_PSI_AREA_SIZE (unat (20 + n * word_of_nat TS_PACKET_BYTES))"

definition check_and_save_output_psi_data :: "'a xmux_scheme \<Rightarrow> 'a xmux_scheme" where
  "check_and_save_output_psi_data s =
     (if \<not> request_save_output_psi s then s
      else (let psi = p_output_psi (g_eeprom_param s)
            in write_eeprom EEPROM_OFF_OUTPUT_PSI (take (psi_used_size (pkt_nr psi)) (psi_mem psi))
                 (s\<lparr> request_save_output_psi := False \<rparr>)))"

definition xmux_config_save_pid_map_table :: "xmux_pid_map_table \<Rightarrow> 'a xmux_scheme \<Rightarrow> 'a xmux_scheme" where
  "xmux_config_save_pid_map_table t s =
     (if \<not> pid_map_table_validate t then s
      else write_eeprom EEPROM_OFF_PID_MAP_TABLE (map_mem t) (upd_param (\<lambda>p. p\<lparr> p_pid_map_table := t \<rparr>) s))"

definition xmux_config_save_net_param :: "xmux_net_param \<Rightarrow> 'a xmux_scheme \<Rightarrow> 'a xmux_scheme" where
  "xmux_config_save_net_param n s =
     (let n = n\<lparr> net_csc := net_sum n \<rparr>
      in write_eeprom EEPROM_OFF_NET (net_mem n) (upd_param (\<lambda>p. p\<lparr> p_net := n \<rparr>) s))"

definition xmux_config_save_mux_program_info :: "xmux_mux_program_info \<Rightarrow> 'a xmux_scheme \<Rightarrow> 'a xmux_scheme" where
  "xmux_config_save_mux_program_info i s = write_eeprom EEPROM_OFF_MUX_PROG_INFO (mux_mem i) s"

text \<open>The defaults are saved with the parameters they replace.\<close>

definition xmux_system_param_init_default :: "'a xmux_scheme \<Rightarrow> 'a xmux_scheme" where
  "xmux_system_param_init_default s =
     save_sys (upd_param (\<lambda>p. p\<lparr> p_sys := xmux_system_param_default (p_sys p) \<rparr>) s)"

definition save_user :: "'a xmux_scheme \<Rightarrow> 'a xmux_scheme" where
  "save_user s = write_eeprom EEPROM_OFF_USER (user_mem (p_user (g_eeprom_param s))) s"

definition xmux_user_param_init_default :: "'a xmux_scheme \<Rightarrow> 'a xmux_scheme" where
  "xmux_user_param_init_default s =
     save_user (upd_param (\<lambda>p. p\<lparr> p_user := xmux_user_param_default (p_user p) \<rparr>) s)"

section \<open>Loading\<close>

definition load_misc_params :: "eeprom \<Rightarrow> xmux_eeprom_param \<Rightarrow> xmux_eeprom_param" where
  "load_misc_params m p =
     (let bs = eeprom_read 0 EEPROM_MISC_PARAM_SIZE m
      in p\<lparr> p_sys := sys_of_mem (drop EEPROM_OFF_SYS bs), p_net := net_of_mem (drop EEPROM_OFF_NET bs),
            p_user := user_of_mem (drop EEPROM_OFF_USER bs), p_misc := misc_of_mem (drop EEPROM_OFF_MISC bs),
            p_mux_prog_info := mux_of_mem (drop EEPROM_OFF_MUX_PROG_INFO bs) \<rparr>)"

text \<open>Of a channel's record only the announced length is read, over what the memory holds.\<close>

definition read_trans_channel :: "eeprom \<Rightarrow> nat \<Rightarrow> pid_trans_info_snmp_data \<Rightarrow> pid_trans_info_snmp_data" where
  "read_trans_channel m c d =
     (let data_len = unat (READ_U16 (eeprom_read (trans_off c) 2 m));
          bs = eeprom_read (trans_off c) (min (data_len + 2) PID_TRANS_INFO_SIZE) m
      in trans_of_mem (bs @ drop (length bs) (trans_mem d)))"

definition load_trans_channel :: "eeprom \<Rightarrow> pid_trans_info_snmp_data list \<Rightarrow> nat \<Rightarrow> pid_trans_info_snmp_data list" where
  "load_trans_channel m table c = table[c := read_trans_channel m c (table ! c)]"

definition overlay_psi :: "u8 list \<Rightarrow> xmux_output_psi_data \<Rightarrow> xmux_output_psi_data" where
  "overlay_psi bs psi = psi_of_mem (bs @ drop (length bs) (psi_mem psi))"

definition load_output_psi :: "eeprom \<Rightarrow> xmux_output_psi_data \<Rightarrow> xmux_output_psi_data" where
  "load_output_psi m psi =
     (let psi = overlay_psi (eeprom_read EEPROM_OFF_OUTPUT_PSI 20 m) psi
      in overlay_psi (eeprom_read EEPROM_OFF_OUTPUT_PSI (psi_used_size (pkt_nr psi)) m) psi)"

definition trans_cleared :: pid_trans_info_snmp_data where
  "trans_cleared = trans_of_mem (replicate PID_TRANS_INFO_SIZE 0)"

definition validate_trans :: "pid_trans_info_snmp_data list \<Rightarrow> nat \<Rightarrow> pid_trans_info_snmp_data list option" where
  "validate_trans table c =
     do { ok \<leftarrow> pid_trans_info_validate (table ! c);
          Some (if ok then table else table[c := trans_cleared]) }"

definition xmux_eeprom_param_validate :: "'a xmux_scheme \<Rightarrow> 'a xmux_scheme option" where
  "xmux_eeprom_param_validate s =
     do {
       let s = s\<lparr> management_mode := MANAGEMENT_MODE_SNMP \<rparr>;
       table \<leftarrow> foldM validate_trans (p_pid_trans_info (g_eeprom_param s)) [0..<CHANNEL_MAX_NUM];
       let s = upd_param (\<lambda>p. p\<lparr> p_pid_trans_info := table \<rparr>) s;
       let s = (if pid_map_table_validate (p_pid_map_table (g_eeprom_param s)) then s
                else upd_param (\<lambda>p. p\<lparr> p_pid_map_table := pid_map_table_clear (p_pid_map_table p) \<rparr>) s);
       let s = (if output_psi_data_validate (p_output_psi (g_eeprom_param s)) then s
                else upd_param (\<lambda>p. p\<lparr> p_output_psi := output_psi_data_clear (p_output_psi p) \<rparr>) s);
       let s = (if xmux_system_param_validate (p_sys (g_eeprom_param s)) then s
                else xmux_system_param_init_default s);
       let s = (if xmux_net_param_validate (p_net (g_eeprom_param s)) then s
                else (let n = xmux_net_param_init_default (p_net (g_eeprom_param s))
                      in write_eeprom EEPROM_OFF_NET (net_mem n) (upd_param (\<lambda>p. p\<lparr> p_net := n \<rparr>) s)));
       Some (if xmux_user_param_validate (p_user (g_eeprom_param s)) then s
             else xmux_user_param_init_default s)
     }"

definition load_params :: "eeprom \<Rightarrow> xmux_eeprom_param \<Rightarrow> xmux_eeprom_param" where
  "load_params m p =
     (let p = load_misc_params m p;
          p = p\<lparr> p_pid_trans_info := foldl (load_trans_channel m) (p_pid_trans_info p) [0..<CHANNEL_MAX_NUM] \<rparr>;
          p = p\<lparr> p_pid_map_table := map_of_mem (eeprom_read EEPROM_OFF_PID_MAP_TABLE MAP_SIZE m) \<rparr>;
          p = p\<lparr> p_output_psi := load_output_psi m (p_output_psi p) \<rparr>
      in p\<lparr> p_misc := (p_misc p)\<lparr> mng_mode := MANAGEMENT_MODE_SNMP \<rparr> \<rparr>)"

definition xmux_config_load_from_eeprom :: "'a xmux_scheme \<Rightarrow> 'a xmux_scheme option" where
  "xmux_config_load_from_eeprom s =
     do {
       s \<leftarrow> xmux_eeprom_param_validate (upd_param (load_params (eeprom s)) s);
       let i = g_param_mng_info s;
       Some (s\<lparr> g_param_mng_info := i\<lparr>
           eeprom_pid_trans_info_version := eeprom_pid_trans_info_version i + 1,
           eeprom_pid_map_table_version := eeprom_pid_map_table_version i + 1 \<rparr> \<rparr>)
     }"

end
