(* ===== verification/ConfigStore.thy ===== *)
theory ConfigStore
  imports Config
begin

text \<open>
  What the configuration store promises: the areas of the EEPROM hold the parameters as long as the
  manager changes them through the operations of \<^verbatim>\<open>src/xmux_config.c\<close>, so a restart brings the
  parameters back; and whatever the EEPROM holds, what is loaded validates.
\<close>

section \<open>The areas\<close>

datatype area = ASys | ANet | AUser | AMisc | AMux | AMap | APsi | ATrans nat

fun area_off :: "area \<Rightarrow> nat" where
  "area_off ASys = EEPROM_OFF_SYS"
| "area_off ANet = EEPROM_OFF_NET"
| "area_off AUser = EEPROM_OFF_USER"
| "area_off AMisc = EEPROM_OFF_MISC"
| "area_off AMux = EEPROM_OFF_MUX_PROG_INFO"
| "area_off AMap = EEPROM_OFF_PID_MAP_TABLE"
| "area_off APsi = EEPROM_OFF_OUTPUT_PSI"
| "area_off (ATrans c) = trans_off c"

fun area_size :: "area \<Rightarrow> nat" where
  "area_size ASys = SYS_SIZE"
| "area_size ANet = NET_SIZE"
| "area_size AUser = USER_SIZE"
| "area_size AMisc = MISC_SIZE"
| "area_size AMux = MUX_SIZE"
| "area_size AMap = MAP_SIZE"
| "area_size APsi = OUTPUT_PSI_AREA_SIZE"
| "area_size (ATrans c) = PID_TRANS_INFO_SIZE"

text \<open>The bytes an area has to hold: of the last two only what is in use.\<close>

fun area_bytes :: "xmux_eeprom_param \<Rightarrow> area \<Rightarrow> u8 list" where
  "area_bytes p ASys = sys_mem (p_sys p)"
| "area_bytes p ANet = net_mem (p_net p)"
| "area_bytes p AUser = user_mem (p_user p)"
| "area_bytes p AMisc = misc_mem (p_misc p)"
| "area_bytes p AMux = mux_mem (p_mux_prog_info p)"
| "area_bytes p AMap = map_mem (p_pid_map_table p)"
| "area_bytes p APsi = take (psi_used_size (pkt_nr (p_output_psi p))) (psi_mem (p_output_psi p))"
| "area_bytes p (ATrans c) =
     take (unat (data_len (p_pid_trans_info p ! c)) + 2) (trans_mem (p_pid_trans_info p ! c))"

definition all_areas :: "area list" where
  "all_areas = [ASys, ANet, AUser, AMisc, AMux, AMap, APsi] @ map ATrans [0..<CHANNEL_MAX_NUM]"

text \<open>The first byte of the miscellaneous parameters, the mode, is not kept.\<close>

definition area_skip :: "area \<Rightarrow> nat" where
  "area_skip a = (if a = AMisc then 1 else 0)"

definition agrees :: "xmux_eeprom_param \<Rightarrow> eeprom \<Rightarrow> area \<Rightarrow> bool" where
  "agrees p m a \<longleftrightarrow>
     drop (area_skip a) (eeprom_read (area_off a) (length (area_bytes p a)) m) = drop (area_skip a) (area_bytes p a)"

definition stored :: "'a xmux_scheme \<Rightarrow> bool" where
  "stored s \<longleftrightarrow> (\<forall>a \<in> set all_areas. a = APsi \<and> request_save_output_psi s \<or> agrees (g_eeprom_param s) (eeprom s) a)"

lemma in_all_areas: "a \<in> set all_areas \<longleftrightarrow> (\<forall>c. a = ATrans c \<longrightarrow> c < CHANNEL_MAX_NUM)"
  by (cases a) (auto simp: all_areas_def)

lemma areas_disjoint:
  assumes "a \<in> set all_areas" "b \<in> set all_areas" "a \<noteq> b"
  shows "area_off a + area_size a \<le> area_off b \<or> area_off b + area_size b \<le> area_off a"
  by (insert assms, cases a; cases b)
     (auto simp: in_all_areas eeprom_offs part_sizes OUTPUT_PSI_AREA_SIZE_def PID_TRANS_INFO_SIZE_def
       trans_off_def CHANNEL_MAX_NUM_def)

lemma param_wf_part:
  assumes "param_wf p"
  shows "length (vendor_info (p_sys p)) = 8" "length (mac (p_net p)) = 6"
    "length (user (p_user p)) = 16 \<and> length (password (p_user p)) = 16"
    "length (ci_name (ci_info (p_misc p))) = 20" "length (mp_programs (p_mux_prog_info p)) = PROGRAM_MAX_NUM"
    "map_wf (p_pid_map_table p)" "psi_wf (p_output_psi p)" "length (p_pid_trans_info p) = CHANNEL_MAX_NUM"
    "\<And>c. c < CHANNEL_MAX_NUM \<Longrightarrow> trans_wf (p_pid_trans_info p ! c)"
  using assms by (simp_all add: param_wf_def)

lemma area_bytes_length:
  assumes "param_wf p" "a \<in> set all_areas"
  shows "length (area_bytes p a) \<le> area_size a"
  by (insert assms, cases a)
     (simp_all add: in_all_areas sys.enc_length net.enc_length user.enc_length misc.enc_length mux.enc_length
       map.enc_length psi.enc_length trans.enc_length param_wf_part)

lemma agrees_other:
  assumes "param_wf p" "a \<in> set all_areas" "b \<in> set all_areas" "a \<noteq> b" "length bs \<le> area_size a"
  shows "agrees p (eeprom_store (area_off a) bs m) b = agrees p m b"
  unfolding agrees_def
  using areas_disjoint [OF assms(2-4)] area_bytes_length [OF assms(1,3)] assms(5)
  by (subst eeprom.rd_wr_disjoint) auto

lemma agrees_self: "agrees p (eeprom_store (area_off a) (area_bytes p a) m) a"
  by (simp add: agrees_def eeprom.rd_wr)

lemma agrees_same: "area_bytes q b = area_bytes p b \<Longrightarrow> agrees q m b = agrees p m b"
  by (simp add: agrees_def)

text \<open>Changing one part and writing it keeps the store; every operation is of that form.\<close>

lemma stored_write:
  assumes "stored s" "param_wf (f (g_eeprom_param s))" "a \<in> set all_areas"
    "\<And>b. b \<in> set all_areas \<Longrightarrow> b \<noteq> a \<Longrightarrow> area_bytes (f (g_eeprom_param s)) b = area_bytes (g_eeprom_param s) b"
    "bs = area_bytes (f (g_eeprom_param s)) a"
  shows "stored (write_eeprom (area_off a) bs (upd_param f s))"
  unfolding stored_def
proof (intro ballI)
  fix b assume b: "b \<in> set all_areas"
  let ?q = "f (g_eeprom_param s)"
  have "b = APsi \<and> request_save_output_psi s \<or> agrees ?q (eeprom_store (area_off a) bs (eeprom s)) b"
  proof (cases "b = a")
    case True
    then show ?thesis by (simp add: assms(5) agrees_self)
  next
    case False
    with assms(1) b agrees_same [OF assms(4) [OF b False], of "eeprom s"]
    have "b = APsi \<and> request_save_output_psi s \<or> agrees ?q (eeprom s) b"
      by (auto simp: stored_def)
    with False agrees_other [OF assms(2,3) b, of bs "eeprom s"] area_bytes_length [OF assms(2,3)] show ?thesis
      by (auto simp: assms(5))
  qed
  then show "b = APsi \<and> request_save_output_psi (write_eeprom (area_off a) bs (upd_param f s))
      \<or> agrees (g_eeprom_param (write_eeprom (area_off a) bs (upd_param f s)))
          (eeprom (write_eeprom (area_off a) bs (upd_param f s))) b"
    by (simp add: write_eeprom_def upd_param_def)
qed

lemma write_upd_simps [simp]:
  "g_eeprom_param (write_eeprom off bs s) = g_eeprom_param s"
  "eeprom (write_eeprom off bs s) = eeprom_store off bs (eeprom s)"
  "request_save_output_psi (write_eeprom off bs s) = request_save_output_psi s"
  "management_mode (write_eeprom off bs s) = management_mode s"
  "g_param_mng_info (write_eeprom off bs s) = g_param_mng_info s"
  "g_eeprom_param (upd_param f s) = f (g_eeprom_param s)"
  "eeprom (upd_param f s) = eeprom s"
  "request_save_output_psi (upd_param f s) = request_save_output_psi s"
  "management_mode (upd_param f s) = management_mode s"
  "g_param_mng_info (upd_param f s) = g_param_mng_info s"
  by (simp_all add: write_eeprom_def upd_param_def)


section \<open>The operations keep the store\<close>

datatype store_op =
    ORate u32 | OFormat u8 | OMode | OCi ci_info_param | OSelSrc u8 | ONet xmux_net_param
  | OMux xmux_mux_program_info | OMap xmux_pid_map_table | OPsi xmux_output_psi_data | OFlush
  | OTrans "pid_trans_info_snmp_data list" | OSysDefault | OUserDefault

text \<open>How the handlers use the store: a part is set and its save called.\<close>

fun store_step :: "store_op \<Rightarrow> 'a xmux_scheme \<Rightarrow> 'a xmux_scheme option" where
  "store_step (ORate r) s = Some (xmux_config_save_output_bitrate r s)"
| "store_step (OFormat f) s = Some (xmux_config_save_packet_format f s)"
| "store_step OMode s = Some (xmux_config_save_management_mode s)"
| "store_step (OCi ci) s = Some (xmux_config_save_ci_info ci s)"
| "store_step (OSelSrc src) s =
     Some (xmux_config_save_misc_param (upd_param (\<lambda>p. p\<lparr> p_misc := (p_misc p)\<lparr> sel_src := src \<rparr> \<rparr>) s))"
| "store_step (ONet n) s = Some (xmux_config_save_net_param n s)"
| "store_step (OMux i) s = Some (xmux_config_save_mux_program_info i (upd_param (\<lambda>p. p\<lparr> p_mux_prog_info := i \<rparr>) s))"
| "store_step (OMap t) s = Some (xmux_config_save_pid_map_table t s)"
| "store_step (OPsi psi) s = Some (xmux_config_save_output_psi_data (upd_param (\<lambda>p. p\<lparr> p_output_psi := psi \<rparr>) s))"
| "store_step OFlush s = Some (check_and_save_output_psi_data s)"
| "store_step (OTrans table) s =
     xmux_config_save_pid_trans_info_all (upd_param (\<lambda>p. p\<lparr> p_pid_trans_info := table \<rparr>) s)"
| "store_step OSysDefault s = Some (xmux_system_param_init_default s)"
| "store_step OUserDefault s = Some (xmux_user_param_init_default s)"

fun op_ok :: "store_op \<Rightarrow> bool" where
  "op_ok (OCi ci) = (length (ci_name ci) = 20)"
| "op_ok (ONet n) = (length (mac n) = 6)"
| "op_ok (OMux i) = (length (mp_programs i) = PROGRAM_MAX_NUM)"
| "op_ok (OMap t) = map_wf t"
| "op_ok (OPsi psi) = psi_wf psi"
| "op_ok (OTrans table) = (length table = CHANNEL_MAX_NUM
     \<and> list_all (\<lambda>d. trans_wf d \<and> pid_trans_info_validate d = Some True) table)"
| "op_ok _ = True"

lemma stored_upd:
  assumes "stored s" "\<And>b. b \<in> set all_areas \<Longrightarrow> b \<noteq> AMisc \<Longrightarrow> area_bytes (f (g_eeprom_param s)) b = area_bytes (g_eeprom_param s) b"
    "tl (misc_mem (p_misc (f (g_eeprom_param s)))) = tl (misc_mem (p_misc (g_eeprom_param s)))"
  shows "stored (upd_param f s)"
  unfolding stored_def
proof
  fix b assume b: "b \<in> set all_areas"
  have "agrees (f (g_eeprom_param s)) (eeprom s) b = agrees (g_eeprom_param s) (eeprom s) b"
  proof (cases "b = AMisc")
    case True
    have "length (misc_mem (p_misc (f (g_eeprom_param s)))) = length (misc_mem (p_misc (g_eeprom_param s)))"
      using arg_cong [OF assms(3), of length] by (simp add: misc_mem_def)
    with True assms(3) show ?thesis by (simp add: agrees_def area_skip_def drop_Suc)
  qed (use agrees_same [OF assms(2) [OF b]] in simp)
  with assms(1) b show "b = APsi \<and> request_save_output_psi (upd_param f s)
      \<or> agrees (g_eeprom_param (upd_param f s)) (eeprom (upd_param f s)) b"
    by (simp add: stored_def)
qed

lemma stored_request:
  assumes "stored s" "psi_wf psi"
  shows "stored (xmux_config_save_output_psi_data (upd_param (\<lambda>p. p\<lparr> p_output_psi := psi \<rparr>) s))"
  unfolding stored_def
proof
  fix b assume b: "b \<in> set all_areas"
  show "b = APsi \<and> request_save_output_psi (xmux_config_save_output_psi_data (upd_param (\<lambda>p. p\<lparr> p_output_psi := psi \<rparr>) s))
      \<or> agrees (g_eeprom_param (xmux_config_save_output_psi_data (upd_param (\<lambda>p. p\<lparr> p_output_psi := psi \<rparr>) s)))
          (eeprom (xmux_config_save_output_psi_data (upd_param (\<lambda>p. p\<lparr> p_output_psi := psi \<rparr>) s))) b"
    using assms(1) b
    by (cases b) (auto simp: stored_def xmux_config_save_output_psi_data_def upd_param_def agrees_def)
qed

lemma stored_flush:
  assumes "stored s" "param_wf (g_eeprom_param s)"
  shows "stored (check_and_save_output_psi_data s)"
proof (cases "request_save_output_psi s")
  case True
  let ?p = "g_eeprom_param s"
  have "agrees ?p (eeprom_store (area_off APsi) (area_bytes ?p APsi) (eeprom s)) b"
    if "b \<in> set all_areas" for b
  proof (cases "b = APsi")
    case False
    moreover have "APsi \<in> set all_areas" by (simp add: in_all_areas)
    ultimately show ?thesis
      using agrees_other [OF assms(2) _ that, of APsi "area_bytes ?p APsi" "eeprom s"]
        area_bytes_length [OF assms(2), of APsi] assms(1) that
      by (auto simp: stored_def)
  qed (simp only: agrees_self)
  with True show ?thesis
    by (simp add: stored_def check_and_save_output_psi_data_def Let_def)
qed (simp add: check_and_save_output_psi_data_def assms)


lemma unat_plus_2: "min (unat (x :: u16) + 2) n = n \<or> unat x + 2 \<le> n" by linarith

lemma validate_bounds: "pid_trans_info_validate d = Some True \<Longrightarrow> unat (data_len d) + 2 \<le> PID_TRANS_INFO_SIZE"
  by (auto simp: pid_trans_info_validate_def PID_TRANS_INFO_SIZE_def not_less split: if_splits)

lemma save_trans_loop:
  assumes "param_wf (g_eeprom_param s)" "n \<le> CHANNEL_MAX_NUM"
    "\<forall>c < CHANNEL_MAX_NUM. pid_trans_info_validate (p_pid_trans_info (g_eeprom_param s) ! c) = Some True"
  shows "\<exists>m. foldM save_trans_channel s [0..<n] = Some (s\<lparr> eeprom := m \<rparr>)
    \<and> (\<forall>b \<in> set all_areas. (\<exists>c < n. b = ATrans c) \<or> agrees (g_eeprom_param s) (eeprom s) b
        \<longrightarrow> agrees (g_eeprom_param s) m b)"
  using assms(2)
proof (induction n)
  case 0
  show ?case by (intro exI [of _ "eeprom s"]) simp
next
  case (Suc n)
  let ?p = "g_eeprom_param s"
  from Suc obtain m where m: "foldM save_trans_channel s [0..<n] = Some (s\<lparr> eeprom := m \<rparr>)"
    and ag: "\<forall>b \<in> set all_areas. (\<exists>c < n. b = ATrans c) \<or> agrees ?p (eeprom s) b \<longrightarrow> agrees ?p m b" by auto
  have n: "n < CHANNEL_MAX_NUM" "ATrans n \<in> set all_areas" using Suc.prems by (simp_all add: in_all_areas)
  let ?m = "eeprom_store (area_off (ATrans n)) (area_bytes ?p (ATrans n)) m"
  have "save_trans_channel (s\<lparr> eeprom := m \<rparr>) n = Some (s\<lparr> eeprom := ?m \<rparr>)"
    using assms(3) n(1) by (simp add: save_trans_channel_def write_eeprom_def Let_def)
  with m have "foldM save_trans_channel s [0..<Suc n] = Some (s\<lparr> eeprom := ?m \<rparr>)"
    by (simp add: foldM_append)
  moreover have "agrees ?p ?m b"
    if "b \<in> set all_areas" "(\<exists>c < Suc n. b = ATrans c) \<or> agrees ?p (eeprom s) b" for b
  proof (cases "b = ATrans n")
    case True
    then show ?thesis by (simp only: agrees_self)
  next
    case False
    with that have "agrees ?p m b" using ag by (auto simp: less_Suc_eq)
    with False show ?thesis
      using agrees_other [OF assms(1) n(2) that(1)] area_bytes_length [OF assms(1) n(2)] by simp
  qed
  ultimately show ?case by blast
qed

text \<open>A step that sets one part and writes its area.\<close>

definition writes_part ::
  "area \<Rightarrow> (xmux_eeprom_param \<Rightarrow> xmux_eeprom_param) \<Rightarrow> 'a xmux_scheme \<Rightarrow> 'a xmux_scheme option \<Rightarrow> bool" where
  "writes_part a f s r \<longleftrightarrow> a \<in> set all_areas
     \<and> r = Some (write_eeprom (area_off a) (area_bytes (f (g_eeprom_param s)) a) (upd_param f s))
     \<and> param_wf (f (g_eeprom_param s))
     \<and> (\<forall>b. b \<noteq> a \<longrightarrow> area_bytes (f (g_eeprom_param s)) b = area_bytes (g_eeprom_param s) b)"

lemma writes_part_ok:
  assumes "writes_part a f s r" "stored s"
  shows "\<exists>s'. r = Some s' \<and> stored s' \<and> param_wf (g_eeprom_param s')"
  using assms stored_write [OF assms(2), of f a] unfolding writes_part_def by auto

lemma other_areas:
  "b \<noteq> ASys \<Longrightarrow> area_bytes (p\<lparr> p_sys := x1 \<rparr>) b = area_bytes p b"
  "b \<noteq> ANet \<Longrightarrow> area_bytes (p\<lparr> p_net := x2 \<rparr>) b = area_bytes p b"
  "b \<noteq> AUser \<Longrightarrow> area_bytes (p\<lparr> p_user := x3 \<rparr>) b = area_bytes p b"
  "b \<noteq> AMisc \<Longrightarrow> area_bytes (p\<lparr> p_misc := x4 \<rparr>) b = area_bytes p b"
  "b \<noteq> AMux \<Longrightarrow> area_bytes (p\<lparr> p_mux_prog_info := x5 \<rparr>) b = area_bytes p b"
  "b \<noteq> AMap \<Longrightarrow> area_bytes (p\<lparr> p_pid_map_table := x6 \<rparr>) b = area_bytes p b"
  by (cases b; simp)+

lemma simple_ops:
  fixes s :: "'a xmux_scheme"
  assumes "param_wf (g_eeprom_param s)"
  shows "writes_part ASys (\<lambda>p. p\<lparr> p_sys := (p_sys p)\<lparr> output_bitrate := r \<rparr> \<rparr>) s (store_step (ORate r) s)"
    "writes_part ASys (\<lambda>p. p\<lparr> p_sys := (p_sys p)\<lparr> format := fmt \<rparr> \<rparr>) s (store_step (OFormat fmt) s)"
    "length (ci_name ci) = 20 \<Longrightarrow>
      writes_part AMisc (\<lambda>p. p\<lparr> p_misc := (p_misc p)\<lparr> ci_info := ci \<rparr> \<rparr>) s (store_step (OCi ci) s)"
    "writes_part AMisc (\<lambda>p. p\<lparr> p_misc := (p_misc p)\<lparr> sel_src := src \<rparr> \<rparr>) s (store_step (OSelSrc src) s)"
    "length (mac n) = 6 \<Longrightarrow>
      writes_part ANet (\<lambda>p. p\<lparr> p_net := n\<lparr> net_csc := net_sum n \<rparr> \<rparr>) s (store_step (ONet n) s)"
    "length (mp_programs i) = PROGRAM_MAX_NUM \<Longrightarrow>
      writes_part AMux (\<lambda>p. p\<lparr> p_mux_prog_info := i \<rparr>) s (store_step (OMux i) s)"
    "writes_part ASys (\<lambda>p. p\<lparr> p_sys := xmux_system_param_default (p_sys p) \<rparr>) s (store_step OSysDefault s)"
    "writes_part AUser (\<lambda>p. p\<lparr> p_user := xmux_user_param_default (p_user p) \<rparr>) s (store_step OUserDefault s)"
    "map_wf t \<Longrightarrow> pid_map_table_validate t \<Longrightarrow>
      writes_part AMap (\<lambda>p. p\<lparr> p_pid_map_table := t \<rparr>) s (store_step (OMap t) s)"
  using assms
  by (simp_all add: writes_part_def in_all_areas other_areas save_sys_def save_user_def Let_def
      xmux_config_save_output_bitrate_def xmux_config_save_packet_format_def xmux_config_save_ci_info_def
      xmux_config_save_misc_param_def xmux_config_save_net_param_def xmux_config_save_mux_program_info_def
      xmux_system_param_init_default_def xmux_user_param_init_default_def xmux_config_save_pid_map_table_def
      param_wf_def user_default_lengths xmux_system_param_default_def snprintf_s_length XMUX_VENDOR_def)

lemma trans_op:
  fixes s :: "'a xmux_scheme"
  assumes "stored s" "param_wf (g_eeprom_param s)" "op_ok (OTrans table)"
  shows "\<exists>s'. store_step (OTrans table) s = Some s' \<and> stored s' \<and> param_wf (g_eeprom_param s')"
proof -
  let ?s = "upd_param (\<lambda>p. p\<lparr> p_pid_trans_info := table \<rparr>) s"
  have t: "length table = CHANNEL_MAX_NUM" "\<forall>d \<in> set table. trans_wf d \<and> pid_trans_info_validate d = Some True"
    using assms(3) by (simp_all add: list_all_iff)
  have wf: "param_wf (g_eeprom_param ?s)" using assms(2) t by (simp add: param_wf_def)
  have val: "\<forall>c < CHANNEL_MAX_NUM. pid_trans_info_validate (p_pid_trans_info (g_eeprom_param ?s) ! c) = Some True"
    using t by simp
  from save_trans_loop [OF wf le_refl val] obtain m
    where m: "foldM save_trans_channel ?s [0..<CHANNEL_MAX_NUM] = Some (?s\<lparr> eeprom := m \<rparr>)"
    and ag: "\<forall>b \<in> set all_areas. (\<exists>c < CHANNEL_MAX_NUM. b = ATrans c) \<or> agrees (g_eeprom_param ?s) (eeprom ?s) b
        \<longrightarrow> agrees (g_eeprom_param ?s) m b" by blast
  have "b = APsi \<and> request_save_output_psi s \<or> agrees (g_eeprom_param ?s) m b" if b: "b \<in> set all_areas" for b
  proof (cases "\<exists>c. b = ATrans c")
    case True
    with ag b show ?thesis by (auto simp: in_all_areas)
  next
    case False
    then have "area_bytes (g_eeprom_param ?s) b = area_bytes (g_eeprom_param s) b" by (cases b) simp_all
    then have "agrees (g_eeprom_param ?s) (eeprom ?s) b = agrees (g_eeprom_param s) (eeprom s) b"
      by (simp add: agrees_def)
    with assms(1) ag b show ?thesis by (auto simp: stored_def)
  qed
  with m wf show ?thesis
    by (auto simp: xmux_config_save_pid_trans_info_all_def stored_def)
qed

lemma store_step_ok:
  fixes s :: "'a xmux_scheme"
  assumes "stored s" "param_wf (g_eeprom_param s)" "op_ok op"
  shows "\<exists>s'. store_step op s = Some s' \<and> stored s' \<and> param_wf (g_eeprom_param s')"
proof (cases op)
  case OMode
  have "stored (xmux_config_save_management_mode s)"
    unfolding xmux_config_save_management_mode_def
    by (rule stored_upd [OF assms(1)]) (simp_all add: other_areas misc_mem_def)
  with assms(2) OMode show ?thesis by (simp add: xmux_config_save_management_mode_def param_wf_def)
next
  case (OMap t)
  show ?thesis
  proof (cases "pid_map_table_validate t")
    case True
    with OMap assms(3) writes_part_ok [OF simple_ops(9) [OF assms(2), of t] assms(1)] show ?thesis by simp
  next
    case False
    with OMap assms show ?thesis by (simp add: xmux_config_save_pid_map_table_def)
  qed
next
  case (OPsi psi)
  with assms stored_request [OF assms(1), of psi] show ?thesis
    by (auto simp: xmux_config_save_output_psi_data_def param_wf_def)
next
  case OFlush
  with assms stored_flush [OF assms(1,2)] show ?thesis
    by (simp add: check_and_save_output_psi_data_def Let_def split: if_splits)
next
  case (OTrans table)
  with trans_op [OF assms(1,2)] assms(3) show ?thesis by blast
next
  case (ORate r)
  show ?thesis
    unfolding ORate by (rule writes_part_ok [OF simple_ops(1) [OF assms(2)] assms(1)])
next
  case (OFormat fmt)
  show ?thesis
    unfolding OFormat by (rule writes_part_ok [OF simple_ops(2) [OF assms(2)] assms(1)])
next
  case (OCi ci)
  show ?thesis
    unfolding OCi by (rule writes_part_ok [OF simple_ops(3) [OF assms(2)] assms(1)]) (use assms(3) OCi in simp)
next
  case (OSelSrc src)
  show ?thesis
    unfolding OSelSrc by (rule writes_part_ok [OF simple_ops(4) [OF assms(2)] assms(1)])
next
  case (ONet n)
  show ?thesis
    unfolding ONet by (rule writes_part_ok [OF simple_ops(5) [OF assms(2)] assms(1)]) (use assms(3) ONet in simp)
next
  case (OMux i)
  show ?thesis
    unfolding OMux by (rule writes_part_ok [OF simple_ops(6) [OF assms(2)] assms(1)]) (use assms(3) OMux in simp)
next
  case OSysDefault
  show ?thesis
    unfolding OSysDefault by (rule writes_part_ok [OF simple_ops(7) [OF assms(2)] assms(1)])
next
  case OUserDefault
  show ?thesis
    unfolding OUserDefault by (rule writes_part_ok [OF simple_ops(8) [OF assms(2)] assms(1)])
qed

definition store_run :: "store_op list \<Rightarrow> 'a xmux_scheme \<Rightarrow> 'a xmux_scheme option" where
  "store_run ops s = foldM (\<lambda>s op. store_step op s) s ops"

lemma store_run_ok:
  fixes s :: "'a xmux_scheme"
  assumes "stored s" "param_wf (g_eeprom_param s)" "\<forall>op \<in> set ops. op_ok op"
  shows "\<exists>s'. store_run ops s = Some s' \<and> stored s' \<and> param_wf (g_eeprom_param s')"
  unfolding store_run_def
  by (rule foldM_total [where P = "\<lambda>s. stored s \<and> param_wf (g_eeprom_param s)"])
     (use assms store_step_ok in blast)+


text \<open>A device written from parameters holds them.\<close>

definition format_eeprom :: "xmux_eeprom_param \<Rightarrow> eeprom \<Rightarrow> eeprom" where
  "format_eeprom p m = foldl (\<lambda>m a. eeprom_store (area_off a) (area_bytes p a) m) m all_areas"

lemma format_agrees:
  assumes "param_wf p" "set as \<subseteq> set all_areas" "distinct as" "b \<in> set as \<or> (b \<in> set all_areas \<and> agrees p m b)"
  shows "agrees p (foldl (\<lambda>m a. eeprom_store (area_off a) (area_bytes p a) m) m as) b"
  using assms(2-)
proof (induction "as" arbitrary: m)
  case (Cons a as)
  let ?m = "eeprom_store (area_off a) (area_bytes p a) m"
  have a: "a \<in> set all_areas" using Cons.prems(1) by simp
  have "b \<in> set as \<or> (b \<in> set all_areas \<and> agrees p ?m b)"
  proof (cases "b = a")
    case False
    then show ?thesis
      using Cons.prems agrees_other [OF assms(1) a, of b "area_bytes p a" m] area_bytes_length [OF assms(1) a] by auto
  qed (use a agrees_self in auto)
  with Cons show ?case by simp
qed simp

definition example_params :: xmux_eeprom_param where
  "example_params =
     \<lparr> p_sys = xmux_system_param_default (sys_of_mem (replicate 21 0)),
       p_net = xmux_net_param_init_default (net_of_mem (replicate 23 0)),
       p_user = xmux_user_param_default (user_of_mem (replicate 36 0)),
       p_misc = misc_of_mem (replicate 23 0), p_mux_prog_info = mux_of_mem (replicate 130 0),
       p_pid_map_table = replicate CHANNEL_MAX_NUM (replicate FPGA_PID_MAP_TABLE_CHAN_PIDS
         \<lparr> input_pid = 15, output_pid = 15 \<rparr>),
       p_output_psi = psi_zero, p_pid_trans_info = replicate CHANNEL_MAX_NUM trans_zero \<rparr>"

lemma example_params_wf: "param_wf example_params"
proof -
  have "length (vendor_info (p_sys example_params)) = 8"
    by (simp add: example_params_def xmux_system_param_default_def snprintf_s_length XMUX_VENDOR_def sys_of_mem_def)
  moreover have "length (mac (p_net example_params)) = 6"
    by (simp add: example_params_def xmux_net_param_init_default_def Let_def)
  moreover have "length (user (p_user example_params)) = 16 \<and> length (password (p_user example_params)) = 16"
    by (simp add: example_params_def user_default_lengths user_of_mem_def)
  moreover have "length (ci_name (ci_info (p_misc example_params))) = 20"
    by (simp add: example_params_def misc_of_mem_def ci_of_mem_def)
  moreover have "length (mp_programs (p_mux_prog_info example_params)) = PROGRAM_MAX_NUM"
    by (simp add: example_params_def mux_of_mem_def)
  moreover have "map_wf (p_pid_map_table example_params)"
    by (simp add: example_params_def map_wf_def map_row_wf_def)
  moreover have "psi_wf (p_output_psi example_params)"
    by (simp add: example_params_def psi_wf_def psi_zero_def)
  moreover have "length (p_pid_trans_info example_params) = CHANNEL_MAX_NUM
      \<and> (\<forall>d \<in> set (p_pid_trans_info example_params). trans_wf d)"
    by (simp add: example_params_def trans_zero_wf)
  ultimately show ?thesis unfolding param_wf_def by blast
qed

definition example_xmux :: xmux where
  "example_xmux = \<lparr> g_eeprom_param = example_params, eeprom = format_eeprom example_params (\<lambda>_. 0xFF),
     management_mode = MANAGEMENT_MODE_SNMP,
     g_param_mng_info = \<lparr> eeprom_pid_trans_info_version = 0, eeprom_pid_map_table_version = 0,
       snmp_pid_trans_info_version = 0, snmp_pid_map_table_version = 0 \<rparr>,
     request_save_output_psi = False \<rparr>"

lemma example_stored: "stored example_xmux" "\<not> request_save_output_psi example_xmux"
  "param_wf (g_eeprom_param example_xmux)"
proof -
  have "distinct all_areas" by (auto simp: all_areas_def distinct_map inj_on_def)
  then have "agrees example_params (format_eeprom example_params (\<lambda>_. 0xFF)) b" if "b \<in> set all_areas" for b
    unfolding format_eeprom_def
    using format_agrees [OF example_params_wf subset_refl _ disjI1 [OF that]] by blast
  then show "stored example_xmux" by (simp add: stored_def example_xmux_def)
qed (simp_all add: example_xmux_def example_params_wf)


lemma trans_zero_validates: "pid_trans_info_validate trans_zero = Some True"
  by (simp add: pid_trans_info_validate_def trans_zero_def)

lemma psi_zero_wf: "psi_wf psi_zero"
  by (simp add: psi_wf_def psi_zero_def)


section \<open>Loading the areas\<close>

lemma eeprom_read_split:
  "k + n \<le> N \<Longrightarrow> drop k (eeprom_read 0 N m) = eeprom_read k n m @ eeprom_read (k + n) (N - (k + n)) m"
  using eeprom.rd_drop_all [of k N 0 m] eeprom.rd_add [of k n "N - (k + n)" m] by simp

definition bytes_agree :: "xmux_eeprom_param \<Rightarrow> eeprom \<Rightarrow> bool" where
  "bytes_agree p m \<longleftrightarrow> (\<forall>a \<in> set all_areas. agrees p m a)"

lemma agreesD:
  assumes "bytes_agree p m" "a \<in> set all_areas" "a \<noteq> AMisc"
  shows "eeprom_read (area_off a) (length (area_bytes p a)) m = area_bytes p a"
  using assms by (auto simp: bytes_agree_def agrees_def area_skip_def)

lemma misc_agree:
  assumes "bytes_agree p m"
  shows "\<exists>x. eeprom_read EEPROM_OFF_MISC (length (misc_mem (p_misc p))) m = misc_mem ((p_misc p)\<lparr> mng_mode := x \<rparr>)"
proof -
  have "agrees p m AMisc" using assms by (simp add: bytes_agree_def in_all_areas)
  then have "drop 1 (eeprom_read EEPROM_OFF_MISC (length (misc_mem (p_misc p))) m) = drop 1 (misc_mem (p_misc p))"
    by (simp add: agrees_def area_skip_def)
  moreover obtain x xs where "eeprom_read EEPROM_OFF_MISC (length (misc_mem (p_misc p))) m = x # xs"
    by (cases "eeprom_read EEPROM_OFF_MISC (length (misc_mem (p_misc p))) m")
       (auto simp: misc_mem_def dest: arg_cong [where f = length])
  ultimately show ?thesis by (auto simp: misc_mem_def)
qed

lemma load_misc_stored:
  assumes "bytes_agree p m" "param_wf p"
  shows "p_sys (load_misc_params m q) = p_sys p" "p_net (load_misc_params m q) = p_net p"
    "p_user (load_misc_params m q) = p_user p" "p_mux_prog_info (load_misc_params m q) = p_mux_prog_info p"
    "\<exists>x. p_misc (load_misc_params m q) = (p_misc p)\<lparr> mng_mode := x \<rparr>"
proof -
  note wf = param_wf_part [OF assms(2)]
  note ag = agreesD [OF assms(1)]
  have lens: "length (sys_mem (p_sys p)) = 21" "length (net_mem (p_net p)) = 23"
    "length (user_mem (p_user p)) = 36" "length (mux_mem (p_mux_prog_info p)) = 130"
    "length (misc_mem (p_misc p)) = 23"
    using wf sys.enc_length net.enc_length user.enc_length mux.enc_length misc.enc_length
    by (simp_all add: part_sizes)
  let ?bs = "eeprom_read 0 EEPROM_MISC_PARAM_SIZE m"
  have part: "drop k ?bs = bs @ eeprom_read (k + length bs) (386 - (k + length bs)) m"
    if "k + length bs \<le> 386" "eeprom_read k (length bs) m = bs" for k bs
    using eeprom_read_split [of k "length bs" 386 m] that by (simp add: eeprom_offs)
  have "drop EEPROM_OFF_SYS ?bs = sys_mem (p_sys p) @ eeprom_read 21 365 m"
    using part [of EEPROM_OFF_SYS "sys_mem (p_sys p)"] ag [of ASys] by (simp add: in_all_areas lens eeprom_offs)
  then show "p_sys (load_misc_params m q) = p_sys p"
    using sys.dec_enc [OF wf(1)] by (simp add: load_misc_params_def Let_def)
  have "drop EEPROM_OFF_NET ?bs = net_mem (p_net p) @ eeprom_read 87 299 m"
    using part [of EEPROM_OFF_NET "net_mem (p_net p)"] ag [of ANet] by (simp add: in_all_areas lens eeprom_offs)
  then show "p_net (load_misc_params m q) = p_net p"
    using net.dec_enc [OF wf(2)] by (simp add: load_misc_params_def Let_def)
  have "drop EEPROM_OFF_USER ?bs = user_mem (p_user p) @ eeprom_read 164 222 m"
    using part [of EEPROM_OFF_USER "user_mem (p_user p)"] ag [of AUser] by (simp add: in_all_areas lens eeprom_offs)
  then show "p_user (load_misc_params m q) = p_user p"
    using user.dec_enc [OF wf(3)] by (simp add: load_misc_params_def Let_def)
  have "drop EEPROM_OFF_MUX_PROG_INFO ?bs = mux_mem (p_mux_prog_info p) @ eeprom_read 386 0 m"
    using part [of EEPROM_OFF_MUX_PROG_INFO "mux_mem (p_mux_prog_info p)"] ag [of AMux]
    by (simp add: in_all_areas lens eeprom_offs)
  then show "p_mux_prog_info (load_misc_params m q) = p_mux_prog_info p"
    using mux.dec_enc [OF wf(5)] by (simp add: load_misc_params_def Let_def)
  obtain x where x: "eeprom_read EEPROM_OFF_MISC (length (misc_mem (p_misc p))) m = misc_mem ((p_misc p)\<lparr> mng_mode := x \<rparr>)"
    using misc_agree [OF assms(1)] by blast
  have "length (misc_mem ((p_misc p)\<lparr> mng_mode := x \<rparr>)) = 23" using lens(5) by (simp add: misc_mem_def)
  then have "drop EEPROM_OFF_MISC ?bs = misc_mem ((p_misc p)\<lparr> mng_mode := x \<rparr>) @ eeprom_read 215 171 m"
    using part [of EEPROM_OFF_MISC "misc_mem ((p_misc p)\<lparr> mng_mode := x \<rparr>)"] x
    by (simp add: lens eeprom_offs)
  then show "\<exists>x. p_misc (load_misc_params m q) = (p_misc p)\<lparr> mng_mode := x \<rparr>"
    using misc.dec_enc [of "(p_misc p)\<lparr> mng_mode := x \<rparr>"] wf(4)
    by (auto simp: load_misc_params_def Let_def)
qed


text \<open>The records the manager saves announce exactly the programs they hold.\<close>

definition trans_compact :: "pid_trans_info_snmp_data \<Rightarrow> bool" where
  "trans_compact d \<longleftrightarrow> unat (data_len d) = (if nprogs d = 0 then 0 else 10 + 149 * unat (nprogs d))
     \<and> unat (nprogs d) \<le> PROGRAM_MAX_NUM"

definition trans_over :: "pid_trans_info_snmp_data \<Rightarrow> pid_trans_info_snmp_data \<Rightarrow> pid_trans_info_snmp_data" where
  "trans_over d old =
     (if nprogs d = 0 then old\<lparr> data_len := data_len d \<rparr>
      else d\<lparr> programs := take (unat (nprogs d)) (programs d) @ drop (unat (nprogs d)) (programs old) \<rparr>)"

lemma concat_with_csc_split:
  assumes "\<forall>q \<in> set ps. info_bytes_wf (pc_info q)" "n \<le> length ps"
  shows "take (149 * n) (concat (map with_csc_mem ps)) = concat (map with_csc_mem (take n ps))"
    "drop (149 * n) (concat (map with_csc_mem ps)) = concat (map with_csc_mem (drop n ps))"
proof -
  have "\<forall>q \<in> set (take n ps). info_bytes_wf (pc_info q)" using assms(1) by (auto dest: in_set_takeD)
  from with_csc.concat_length [OF this] have len: "length (concat (map with_csc_mem (take n ps))) = 149 * n"
    using assms(2) by (simp add: WITH_CSC_SIZE_def)
  have "concat (map with_csc_mem ps) = concat (map with_csc_mem (take n ps)) @ concat (map with_csc_mem (drop n ps))"
    by (metis append_take_drop_id concat_append map_append)
  with len show "take (149 * n) (concat (map with_csc_mem ps)) = concat (map with_csc_mem (take n ps))"
    "drop (149 * n) (concat (map with_csc_mem ps)) = concat (map with_csc_mem (drop n ps))" by simp_all
qed

lemma trans_over_wf: "trans_wf d \<Longrightarrow> trans_wf old \<Longrightarrow> trans_wf (trans_over d old)"
  by (auto simp: trans_wf_def trans_over_def dest: in_set_takeD in_set_dropD)

lemma trans_over_mem:
  assumes "trans_wf d" "trans_wf old" "trans_compact d"
  shows "take (unat (data_len d) + 2) (trans_mem d) @ drop (unat (data_len d) + 2) (trans_mem old)
    = trans_mem (trans_over d old)"
proof (cases "nprogs d = 0")
  case True
  with assms(3) show ?thesis by (simp add: trans_compact_def trans_over_def trans_mem_def)
next
  case False
  let ?n = "unat (nprogs d)"
  have d: "length (sel_status d) = 8" "\<forall>q \<in> set (programs d). info_bytes_wf (pc_info q)" "?n \<le> length (programs d)"
    and o: "length (sel_status old) = 8" "\<forall>q \<in> set (programs old). info_bytes_wf (pc_info q)" "?n \<le> length (programs old)"
    using assms by (simp_all add: trans_wf_def trans_compact_def)
  have L: "unat (data_len d) + 2 = 12 + 149 * ?n" using assms(3) False by (simp add: trans_compact_def)
  let ?h = "\<lambda>x. le16 (data_len x) @ [update_flag_and_chan_num x, nprogs x] @ sel_status x"
  have cut: "take (12 + k) (h @ xs) = h @ take k xs" "drop (12 + k) (h @ xs) = drop k xs"
    if "length h = 12" for h xs :: "u8 list" and k using that by simp_all
  have mem: "trans_mem x = ?h x @ concat (map with_csc_mem (programs x))" for x by (simp add: trans_mem_def)
  have "take (12 + 149 * ?n) (trans_mem d) = ?h d @ concat (map with_csc_mem (take ?n (programs d)))"
    unfolding mem by (subst cut(1)) (use d(1) concat_with_csc_split(1) [OF d(2,3)] in simp_all)
  moreover have "drop (12 + 149 * ?n) (trans_mem old) = concat (map with_csc_mem (drop ?n (programs old)))"
    unfolding mem by (subst cut(2)) (use o(1) concat_with_csc_split(2) [OF o(2,3)] in simp_all)
  ultimately show ?thesis using False unfolding L by (simp add: trans_over_def trans_mem_def)
qed

lemma read_trans_stored:
  assumes "bytes_agree p m" "param_wf p" "c < CHANNEL_MAX_NUM" "trans_compact (p_pid_trans_info p ! c)" "trans_wf old"
  shows "read_trans_channel m c old = trans_over (p_pid_trans_info p ! c) old"
proof -
  let ?d = "p_pid_trans_info p ! c" and ?L = "unat (data_len (p_pid_trans_info p ! c)) + 2"
  have wf: "trans_wf ?d" using assms(2,3) by (simp add: param_wf_part)
  have size: "length (trans_mem ?d) = 9548" using trans.enc_length [OF wf] by (simp add: PID_TRANS_INFO_SIZE_def)
  have le: "?L \<le> 9548" using assms(4) by (auto simp: trans_compact_def limit_simps)
  have read: "eeprom_read (trans_off c) ?L m = take ?L (trans_mem ?d)"
    using agreesD [OF assms(1), of "ATrans c"] assms(3) size le by (simp add: in_all_areas)
  have "eeprom_read (trans_off c) 2 m = take 2 (eeprom_read (trans_off c) ?L m)"
    by (rule eeprom.rd_take [symmetric]) simp
  also have "\<dots> = take 2 (trans_mem ?d)" unfolding read by (simp add: min_def)
  also have "\<dots> = le16 (data_len ?d)" by (simp add: trans_mem_def)
  finally have "READ_U16 (eeprom_read (trans_off c) 2 m) = data_len ?d"
    using READ_U16_le16 [of "data_len ?d" "[]"] by simp
  moreover have "min ?L PID_TRANS_INFO_SIZE = ?L" using le by (simp add: PID_TRANS_INFO_SIZE_def)
  ultimately have "read_trans_channel m c old = trans_of_mem (take ?L (trans_mem ?d) @ drop ?L (trans_mem old))"
    using le by (simp add: read_trans_channel_def Let_def read size del: add_2_eq_Suc')
  also have "\<dots> = trans_of_mem (trans_mem (trans_over ?d old) @ [])"
    by (simp only: trans_over_mem [OF wf assms(5,4)] append_Nil2)
  also have "\<dots> = trans_over ?d old" by (rule trans.dec_enc [OF trans_over_wf [OF wf assms(5)]])
  finally show ?thesis .
qed

lemma load_trans_all:
  assumes "n \<le> length table"
  shows "length (foldl (load_trans_channel m) table [0..<n]) = length table \<and> (\<forall>c < length table.
    foldl (load_trans_channel m) table [0..<n] ! c = (if c < n then read_trans_channel m c (table ! c) else table ! c))"
  using assms by (induction n) (auto simp: load_trans_channel_def nth_list_update less_Suc_eq)

lemma load_map_stored:
  assumes "bytes_agree p m" "param_wf p"
  shows "map_of_mem (eeprom_read EEPROM_OFF_PID_MAP_TABLE MAP_SIZE m) = p_pid_map_table p"
proof -
  note wf = param_wf_part(6) [OF assms(2)]
  have "eeprom_read EEPROM_OFF_PID_MAP_TABLE MAP_SIZE m = map_mem (p_pid_map_table p)"
    using agreesD [OF assms(1), of AMap] map.enc_length [OF wf] by (simp add: in_all_areas)
  then show ?thesis using map.dec_enc [OF wf, of "[]"] by simp
qed

text \<open>Of the PSI area the packets in use come back.\<close>

definition psi_over :: "nat \<Rightarrow> xmux_output_psi_data \<Rightarrow> xmux_output_psi_data \<Rightarrow> xmux_output_psi_data" where
  "psi_over n psi old =
     \<lparr> pkt_nr = pkt_nr psi, psi_ents = psi_ents psi, ts_area = take n (ts_area psi) @ drop n (ts_area old) \<rparr>"

lemma psi_over_wf: "psi_wf psi \<Longrightarrow> psi_wf old \<Longrightarrow> psi_wf (psi_over n psi old)"
  by (auto simp: psi_wf_def psi_over_def min_def)

lemma psi_ents_mem_length: "psi_wf psi \<Longrightarrow> length (concat (map ent_mem (psi_ents psi))) = 16"
  using ent.concat_length [of "psi_ents psi"] by (simp add: psi_wf_def psi_sizes)

lemma overlay_psi_prefix:
  assumes "psi_wf psi" "psi_wf old" "20 + n \<le> OUTPUT_PSI_AREA_SIZE"
  shows "overlay_psi (take (20 + n) (psi_mem psi)) old = psi_over n psi old"
proof -
  have hd: "length (le32 (pkt_nr x) @ concat (map ent_mem (psi_ents x))) = 20" if "psi_wf x" for x
    using psi_ents_mem_length [OF that] by simp
  have mem: "psi_mem x = (le32 (pkt_nr x) @ concat (map ent_mem (psi_ents x))) @ ts_area x" for x
    by (simp add: psi_mem_def)
  have ts: "length (ts_area psi) = 16364" using assms(1) by (simp add: psi_wf_def psi_sizes)
  have "take (20 + n) (psi_mem psi) @ drop (length (take (20 + n) (psi_mem psi))) (psi_mem old)
      = psi_mem (psi_over n psi old)"
    using hd [OF assms(1)] hd [OF assms(2)] assms(3) ts unfolding mem
    by (simp add: psi_over_def psi_sizes)
  then show ?thesis
    using psi.dec_enc [OF psi_over_wf [OF assms(1,2)], of n "[]"] by (simp add: overlay_psi_def)
qed


lemma psi_used: "unat n \<le> OUTPUT_PSI_PACKET_MAX_NUM \<Longrightarrow> psi_used_size n = 20 + unat n * TS_PACKET_BYTES"
proof -
  assume "unat n \<le> OUTPUT_PSI_PACKET_MAX_NUM"
  then have n: "unat n \<le> 87" by (simp add: psi_sizes)
  then have "unat (20 + n * 188) = 20 + unat n * 188"
    by (simp add: unat_word_ariths)
  with n show ?thesis by (simp add: psi_used_size_def psi_sizes)
qed

lemma psi_over_idem: "psi_over n psi (psi_over 0 psi old) = psi_over n psi old"
  by (simp add: psi_over_def)

lemma load_psi_stored:
  assumes "bytes_agree p m" "param_wf p" "psi_wf old" "unat (pkt_nr (p_output_psi p)) \<le> OUTPUT_PSI_PACKET_MAX_NUM"
  shows "load_output_psi m old = psi_over (unat (pkt_nr (p_output_psi p)) * TS_PACKET_BYTES) (p_output_psi p) old"
proof -
  let ?psi = "p_output_psi p"
  let ?n = "unat (pkt_nr ?psi) * TS_PACKET_BYTES"
  note wf = param_wf_part(7) [OF assms(2)]
  have le: "20 + ?n \<le> OUTPUT_PSI_AREA_SIZE" using assms(4) by (simp add: psi_sizes)
  have len: "length (take (20 + ?n) (psi_mem ?psi)) = 20 + ?n"
    using le psi.enc_length [OF wf] by simp
  have all: "eeprom_read EEPROM_OFF_OUTPUT_PSI (20 + ?n) m = take (20 + ?n) (psi_mem ?psi)"
    using agreesD [OF assms(1), of APsi] len by (simp add: in_all_areas psi_used [OF assms(4)])
  have "eeprom_read EEPROM_OFF_OUTPUT_PSI 20 m = take 20 (eeprom_read EEPROM_OFF_OUTPUT_PSI (20 + ?n) m)"
    by (rule eeprom.rd_take [symmetric]) simp
  also have "\<dots> = take (20 + 0) (psi_mem ?psi)" unfolding all by simp
  finally have "overlay_psi (eeprom_read EEPROM_OFF_OUTPUT_PSI 20 m) old = psi_over 0 ?psi old"
    using overlay_psi_prefix [OF wf assms(3), of 0] by (simp add: psi_sizes)
  moreover have "pkt_nr (psi_over 0 ?psi old) = pkt_nr ?psi" by (simp add: psi_over_def)
  ultimately show ?thesis
    using overlay_psi_prefix [OF wf psi_over_wf [OF wf assms(3)] le]
    by (simp add: load_output_psi_def Let_def psi_used [OF assms(4)] all psi_over_idem)
qed

section \<open>Validation\<close>

lemma validate_trans_all:
  assumes "n \<le> length table" "\<forall>c < n. pid_trans_info_validate (table ! c) \<noteq> None"
  shows "\<exists>t. foldM validate_trans table [0..<n] = Some t \<and> length t = length table
    \<and> (\<forall>c < length table. t ! c =
        (if c < n \<and> pid_trans_info_validate (table ! c) = Some False then trans_cleared else table ! c))"
  using assms
proof (induction n)
  case (Suc n)
  then obtain t where t: "foldM validate_trans table [0..<n] = Some t" "length t = length table"
    "\<forall>c < length table. t ! c =
        (if c < n \<and> pid_trans_info_validate (table ! c) = Some False then trans_cleared else table ! c)" by auto
  obtain ok where ok: "pid_trans_info_validate (table ! n) = Some ok" using Suc.prems by auto
  let ?t = "if ok then t else t[n := trans_cleared]"
  have "foldM validate_trans table [0..<Suc n] = Some ?t"
    using t Suc.prems(1) ok by (simp add: foldM_append validate_trans_def)
  moreover have "length ?t = length table \<and> (\<forall>c < length table. ?t ! c =
        (if c < Suc n \<and> pid_trans_info_validate (table ! c) = Some False then trans_cleared else table ! c))"
    using t ok Suc.prems(1) by (auto simp: nth_list_update less_Suc_eq)
  ultimately show ?case by blast
qed simp

lemma trans_cleared_validates: "pid_trans_info_validate trans_cleared = Some True"
  by (simp add: pid_trans_info_validate_def trans_cleared_def trans_of_mem_def PID_TRANS_INFO_SIZE_def
      READ_U16_def PACK_U16_def)

lemma psi_clear_validates: "output_psi_data_validate (output_psi_data_clear psi)"
  using zero_ents_validate by (simp add: output_psi_data_validate_def output_psi_data_clear_def psi_zero_def)

lemma check_cscs_defined: "\<forall>k \<in> set ks. k < length ps \<Longrightarrow> check_cscs ps ks \<noteq> None"
  by (induction ks) auto

definition trans_checkable :: "pid_trans_info_snmp_data \<Rightarrow> bool" where
  "trans_checkable d \<longleftrightarrow> PID_TRANS_INFO_SIZE - 2 < unat (data_len d) \<or> unat (nprogs d) \<le> length (programs d)"

lemma checkable_validates: "trans_checkable d \<Longrightarrow> pid_trans_info_validate d \<noteq> None"
  using check_cscs_defined [of "[0..<unat (nprogs d)]" "programs d"]
  by (auto simp: trans_checkable_def pid_trans_info_validate_def)


definition repaired :: "pid_trans_info_snmp_data list \<Rightarrow> xmux_eeprom_param \<Rightarrow> xmux_eeprom_param" where
  "repaired t p = p\<lparr> p_pid_trans_info := t,
     p_output_psi := (if output_psi_data_validate (p_output_psi p) then p_output_psi p
                      else output_psi_data_clear (p_output_psi p)),
     p_sys := (if xmux_system_param_validate (p_sys p) then p_sys p else xmux_system_param_default (p_sys p)),
     p_net := (if xmux_net_param_validate (p_net p) then p_net p else xmux_net_param_init_default (p_net p)),
     p_user := (if xmux_user_param_validate (p_user p) then p_user p else xmux_user_param_default (p_user p)) \<rparr>"

lemma validate_result:
  fixes s :: "'a xmux_scheme"
  assumes "length (p_pid_trans_info (g_eeprom_param s)) = CHANNEL_MAX_NUM"
    "\<forall>c < CHANNEL_MAX_NUM. pid_trans_info_validate (p_pid_trans_info (g_eeprom_param s) ! c) \<noteq> None"
  shows "\<exists>t s'. xmux_eeprom_param_validate s = Some s' \<and> g_eeprom_param s' = repaired t (g_eeprom_param s)
    \<and> management_mode s' = MANAGEMENT_MODE_SNMP
    \<and> (xmux_system_param_validate (p_sys (g_eeprom_param s)) \<and> xmux_net_param_validate (p_net (g_eeprom_param s))
        \<and> xmux_user_param_validate (p_user (g_eeprom_param s)) \<longrightarrow> eeprom s' = eeprom s)
    \<and> length t = CHANNEL_MAX_NUM
    \<and> (\<forall>c < CHANNEL_MAX_NUM. t ! c =
        (if pid_trans_info_validate (p_pid_trans_info (g_eeprom_param s) ! c) = Some False then trans_cleared
         else p_pid_trans_info (g_eeprom_param s) ! c))"
proof -
  from validate_trans_all [of CHANNEL_MAX_NUM "p_pid_trans_info (g_eeprom_param s)"] assms
  obtain t where t: "foldM validate_trans (p_pid_trans_info (g_eeprom_param s)) [0..<CHANNEL_MAX_NUM] = Some t"
    "length t = CHANNEL_MAX_NUM" "\<forall>c < CHANNEL_MAX_NUM. t ! c =
        (if pid_trans_info_validate (p_pid_trans_info (g_eeprom_param s) ! c) = Some False then trans_cleared
         else p_pid_trans_info (g_eeprom_param s) ! c)" by auto
  have "\<exists>s'. xmux_eeprom_param_validate s = Some s' \<and> g_eeprom_param s' = repaired t (g_eeprom_param s)
    \<and> management_mode s' = MANAGEMENT_MODE_SNMP
    \<and> (xmux_system_param_validate (p_sys (g_eeprom_param s)) \<and> xmux_net_param_validate (p_net (g_eeprom_param s))
        \<and> xmux_user_param_validate (p_user (g_eeprom_param s)) \<longrightarrow> eeprom s' = eeprom s)"
    using t(1)
    by (simp add: xmux_eeprom_param_validate_def pid_map_table_validate_True Let_def repaired_def
        xmux_system_param_init_default_def xmux_user_param_init_default_def save_sys_def save_user_def)
  with t(2,3) show ?thesis by blast
qed

lemma load_trans_params:
  assumes "length (p_pid_trans_info p) = CHANNEL_MAX_NUM"
  shows "length (p_pid_trans_info (load_params m p)) = CHANNEL_MAX_NUM"
    "c < CHANNEL_MAX_NUM \<Longrightarrow>
      p_pid_trans_info (load_params m p) ! c = read_trans_channel m c (p_pid_trans_info p ! c)"
  using load_trans_all [of CHANNEL_MAX_NUM "p_pid_trans_info p" m] assms
  by (simp_all add: load_params_def load_misc_params_def Let_def)

lemma load_user_length:
  "length (user (p_user (load_params m p))) = 16" "length (password (p_user (load_params m p))) = 16"
  by (simp_all add: load_params_def load_misc_params_def user_of_mem_def Let_def eeprom_offs)

definition params_valid :: "xmux_eeprom_param \<Rightarrow> bool" where
  "params_valid p \<longleftrightarrow> xmux_system_param_validate (p_sys p) \<and> xmux_net_param_validate (p_net p)
     \<and> xmux_user_param_validate (p_user p) \<and> output_psi_data_validate (p_output_psi p)
     \<and> list_all (\<lambda>d. pid_trans_info_validate d = Some True) (p_pid_trans_info p)"


text \<open>What a restart brings back.\<close>

definition params_kept :: "xmux_eeprom_param \<Rightarrow> xmux_eeprom_param \<Rightarrow> bool" where
  "params_kept p q \<longleftrightarrow> p_sys q = p_sys p \<and> p_net q = p_net p \<and> p_user q = p_user p
     \<and> p_misc q = (p_misc p)\<lparr> mng_mode := MANAGEMENT_MODE_SNMP \<rparr> \<and> p_mux_prog_info q = p_mux_prog_info p
     \<and> p_pid_map_table q = p_pid_map_table p
     \<and> pkt_nr (p_output_psi q) = pkt_nr (p_output_psi p) \<and> psi_ents (p_output_psi q) = psi_ents (p_output_psi p)
     \<and> take (unat (pkt_nr (p_output_psi p)) * TS_PACKET_BYTES) (ts_area (p_output_psi q))
       = take (unat (pkt_nr (p_output_psi p)) * TS_PACKET_BYTES) (ts_area (p_output_psi p))
     \<and> (\<forall>c < CHANNEL_MAX_NUM. let d = p_pid_trans_info p ! c; e = p_pid_trans_info q ! c; n = unat (nprogs d)
          in data_len e = data_len d \<and> nprogs e = nprogs d \<and> take n (programs e) = take n (programs d)
             \<and> (nprogs d \<noteq> 0 \<longrightarrow> sel_status e = sel_status d))"

lemma check_cscs_cong:
  "\<forall>k \<in> set ks. k < length ps \<and> k < length qs \<and> ps ! k = qs ! k \<Longrightarrow> check_cscs ps ks = check_cscs qs ks"
  by (induction ks) auto

lemma trans_over_kept:
  assumes "trans_wf d" "trans_wf old" "trans_compact d" "nprogs old = 0"
  shows "data_len (trans_over d old) = data_len d" "nprogs (trans_over d old) = nprogs d"
    "take (unat (nprogs d)) (programs (trans_over d old)) = take (unat (nprogs d)) (programs d)"
    "nprogs d \<noteq> 0 \<Longrightarrow> sel_status (trans_over d old) = sel_status d"
    "pid_trans_info_validate (trans_over d old) = pid_trans_info_validate d"
proof -
  show len: "data_len (trans_over d old) = data_len d" and np: "nprogs (trans_over d old) = nprogs d"
    and "nprogs d \<noteq> 0 \<Longrightarrow> sel_status (trans_over d old) = sel_status d"
    using assms(4) by (simp_all add: trans_over_def)
  have n: "unat (nprogs d) \<le> length (programs d)" "unat (nprogs d) \<le> length (programs old)"
    using assms(1-3) by (simp_all add: trans_wf_def trans_compact_def)
  then show "take (unat (nprogs d)) (programs (trans_over d old)) = take (unat (nprogs d)) (programs d)"
    by (cases "nprogs d = 0") (simp_all add: trans_over_def)
  have "check_cscs (programs (trans_over d old)) [0..<unat (nprogs d)] = check_cscs (programs d) [0..<unat (nprogs d)]"
    by (rule check_cscs_cong) (use n in \<open>auto simp: trans_over_def nth_append\<close>)
  then show "pid_trans_info_validate (trans_over d old) = pid_trans_info_validate d"
    by (simp add: pid_trans_info_validate_def len np)
qed

lemma stored_bytes_agree: "stored s \<Longrightarrow> \<not> request_save_output_psi s \<Longrightarrow> bytes_agree (g_eeprom_param s) (eeprom s)"
  by (auto simp: stored_def bytes_agree_def)

lemma restart_keeps:
  fixes s :: "'a xmux_scheme" and r :: "'b xmux_scheme"
  assumes "stored s" "\<not> request_save_output_psi s" "param_wf (g_eeprom_param s)" "params_valid (g_eeprom_param s)"
    "unat (pkt_nr (p_output_psi (g_eeprom_param s))) \<le> OUTPUT_PSI_PACKET_MAX_NUM"
    "\<forall>d \<in> set (p_pid_trans_info (g_eeprom_param s)). trans_compact d"
    "eeprom r = eeprom s" "param_wf (g_eeprom_param r)" "\<forall>d \<in> set (p_pid_trans_info (g_eeprom_param r)). nprogs d = 0"
  shows "\<exists>r'. xmux_config_load_from_eeprom r = Some r' \<and> params_kept (g_eeprom_param s) (g_eeprom_param r')
    \<and> eeprom r' = eeprom s \<and> management_mode r' = MANAGEMENT_MODE_SNMP
    \<and> (\<forall>c < CHANNEL_MAX_NUM. length (programs (p_pid_trans_info (g_eeprom_param r') ! c)) = PROGRAM_MAX_NUM)"
proof -
  let ?p = "g_eeprom_param s" and ?q = "g_eeprom_param r" and ?m = "eeprom s"
  let ?l = "load_params ?m ?q" and ?r = "upd_param (load_params (eeprom r)) r"
  note agree = stored_bytes_agree [OF assms(1,2)]
  note len = param_wf_part(8) [OF assms(3)] param_wf_part(8) [OF assms(8)]
  note trans = load_trans_params [OF len(2), where m = ?m]
  have misc: "p_sys ?l = p_sys ?p" "p_net ?l = p_net ?p" "p_user ?l = p_user ?p"
    "p_mux_prog_info ?l = p_mux_prog_info ?p" "p_misc ?l = (p_misc ?p)\<lparr> mng_mode := MANAGEMENT_MODE_SNMP \<rparr>"
    "p_pid_map_table ?l = p_pid_map_table ?p"
    using load_misc_stored [OF agree assms(3), of ?q] load_map_stored [OF agree assms(3)]
    by (auto simp: load_params_def Let_def)
  have psi: "p_output_psi ?l = psi_over (unat (pkt_nr (p_output_psi ?p)) * TS_PACKET_BYTES) (p_output_psi ?p) (p_output_psi ?q)"
    using load_psi_stored [OF agree assms(3) param_wf_part(7) [OF assms(8)] assms(5)]
    by (simp add: load_params_def load_misc_params_def Let_def)
  have compact: "trans_compact (p_pid_trans_info ?p ! c)" "nprogs (p_pid_trans_info ?q ! c) = 0"
    "trans_wf (p_pid_trans_info ?p ! c)" "trans_wf (p_pid_trans_info ?q ! c)"
    "pid_trans_info_validate (p_pid_trans_info ?p ! c) = Some True"
    if "c < CHANNEL_MAX_NUM" for c
    using that assms(3,4,6,8,9) len by (simp_all add: param_wf_part params_valid_def list_all_length)
  have over: "p_pid_trans_info ?l ! c = trans_over (p_pid_trans_info ?p ! c) (p_pid_trans_info ?q ! c)"
    if "c < CHANNEL_MAX_NUM" for c
    using trans(2) [OF that] read_trans_stored [OF agree assms(3) that compact(1) [OF that] compact(4) [OF that]] by simp
  have val: "pid_trans_info_validate (p_pid_trans_info ?l ! c) = Some True" if c: "c < CHANNEL_MAX_NUM" for c
    using trans_over_kept(5) [OF compact(3,4,1,2) [OF c]] compact(5) [OF c] over [OF c] by simp
  from validate_result [of ?r] trans(1) val obtain t r' where r': "xmux_eeprom_param_validate ?r = Some r'"
    "g_eeprom_param r' = repaired t ?l" "management_mode r' = MANAGEMENT_MODE_SNMP"
    "xmux_system_param_validate (p_sys ?l) \<and> xmux_net_param_validate (p_net ?l)
      \<and> xmux_user_param_validate (p_user ?l) \<longrightarrow> eeprom r' = ?m"
    "length t = CHANNEL_MAX_NUM" "\<forall>c < CHANNEL_MAX_NUM. t ! c = p_pid_trans_info ?l ! c"
    by (auto simp: assms(7))
  have ents: "output_psi_data_validate (p_output_psi ?l)"
    using assms(4) by (simp add: params_valid_def output_psi_data_validate_def psi psi_over_def)
  have ts: "take n (ts_area (psi_over n (p_output_psi ?p) old)) = take n (ts_area (p_output_psi ?p))"
    if "psi_wf old" "n \<le> 16364" for n old
    using that param_wf_part(7) [OF assms(3)] by (simp add: psi_over_def psi_wf_def psi_sizes)
  have "params_kept ?p (repaired t ?l)"
    unfolding params_kept_def
  proof (intro conjI allI impI)
    fix c assume c: "c < CHANNEL_MAX_NUM"
    show "let d = p_pid_trans_info ?p ! c; e = p_pid_trans_info (repaired t ?l) ! c; n = unat (nprogs d)
          in data_len e = data_len d \<and> nprogs e = nprogs d \<and> take n (programs e) = take n (programs d)
             \<and> (nprogs d \<noteq> 0 \<longrightarrow> sel_status e = sel_status d)"
      using trans_over_kept [OF compact(3,4,1,2) [OF c]] r'(6) over [OF c] c by (simp add: repaired_def Let_def)
  qed (use assms(4,5) misc psi ts ents param_wf_part(7) [OF assms(8)] in
       \<open>simp_all add: repaired_def params_valid_def psi_over_def psi_sizes\<close>)
  moreover have "eeprom r' = ?m" using r'(4) misc assms(4) by (simp add: params_valid_def)
  moreover have "length (programs (p_pid_trans_info (repaired t ?l) ! c)) = PROGRAM_MAX_NUM" if c: "c < CHANNEL_MAX_NUM" for c
    using compact(1,3,4) [OF c] r'(6) over [OF c] c
    by (simp add: repaired_def trans_over_def trans_wf_def trans_compact_def)
  ultimately show ?thesis using r'(1-3) by (simp add: xmux_config_load_from_eeprom_def Let_def)
qed



lemma example_params_valid: "params_valid example_params"
proof -
  have "xmux_user_param_validate (p_user example_params)"
    by (simp add: example_params_def user_default_valid user_of_mem_def)
  moreover have "output_psi_data_validate psi_zero"
    using psi_clear_validates [of psi_zero] by (simp add: output_psi_data_clear_def)
  ultimately show ?thesis
    by (simp add: params_valid_def trans_zero_validates system_default_valid net_default_valid list_all_iff
        example_params_def)
qed



end
