(* ===== verification/PsiGen.thy ===== *)
theory PsiGen
  imports ProgInfo OutputPsi
begin

unbundle bit_operations_syntax

text \<open>
  The tables the multiplexer broadcasts: the program numbers and the contents of PAT, PMT, SDT and NIT
  for the programs selected on the board (\<^verbatim>\<open>src/front_panel_psi_gen.c\<close>, \<^verbatim>\<open>src/psi_gen.c\<close>),
  and the packets cut from the sections the SNMP manager sends. The encoder that turns the
  contents into packets is a library outside the sources: it is the parameter \<open>enc\<close>, which gives
  the buffers it hands to the write hook.
\<close>

section \<open>What the encoder is given\<close>

text \<open>The structures of \<^verbatim>\<open>imp/uvPSI/include/gen_dvb_si_api.h\<close>; a count and a pointer are a list.\<close>

record uv_descriptor =
  d_tag :: u8
  d_length :: u16
  d_data :: "u8 list"

record uv_pat_pid_data =
  pg_num :: u16
  pg_pid :: u16

record uv_pmt_data =
  pmt_pg_num :: u16
  pmt_pid :: u16
  pmt_pcr_pid :: u16
  pmt_descr :: "uv_descriptor list"

record uv_pmt_es_data =
  es_pid :: u16
  es_type :: u8
  es_descr :: "uv_descriptor list"

record uv_sdt_data =
  sdt_table_id :: u8
  sdt_tran_stream_id :: u16
  sdt_orig_net_id :: u16

record uv_sdt_serv_data =
  serv_id :: u16
  serv_eit_pres_foll_flag :: u8
  serv_eit_sched_flag :: u8
  serv_free_ca_mode :: u8
  serv_running_status :: u8
  serv_descr :: "uv_descriptor list"

record uv_nit_data =
  nit_table_id :: u8
  nit_net_id :: u16
  nit_descr :: "uv_descriptor list"

record uv_nit_stream_data =
  str_tran_stream_id :: u16
  str_orig_net_id :: u16
  str_descr :: "uv_descriptor list"

record si_encoder =
  dvbSI_Gen_PAT :: "u16 \<Rightarrow> uv_pat_pid_data list \<Rightarrow> u8 list list"
  dvbSI_Gen_PMT :: "uv_pmt_data \<Rightarrow> uv_pmt_es_data list \<Rightarrow> u8 list list"
  dvbSI_Gen_SDT :: "uv_sdt_data \<Rightarrow> uv_sdt_serv_data list \<Rightarrow> u8 list list"
  dvbSI_Gen_NIT :: "uv_nit_data \<Rightarrow> uv_nit_stream_data list \<Rightarrow> u8 list list"

section \<open>Program numbers\<close>

text \<open>
  \<^verbatim>\<open>pick_free_prog_num\<close>: the 16-bit counter never exceeds \<^verbatim>\<open>0xFFFF\<close>, so the loop ends only
  at a free number; \<open>None\<close> is the loop that does not end.
\<close>

partial_function (option) pick_free_from :: "u16 list \<Rightarrow> u16 \<Rightarrow> u16 option" where
  "pick_free_from prog_num_table i =
     (if i \<notin> set prog_num_table then Some i else pick_free_from prog_num_table (i + 1))"

definition pick_free_prog_num :: "u16 list \<Rightarrow> u16 option" where
  "pick_free_prog_num prog_num_table = pick_free_from prog_num_table 1"

definition fix_and_push_program_number :: "u16 list \<Rightarrow> u16 \<Rightarrow> u16 list option" where
  "fix_and_push_program_number prog_num_table num =
     (if num \<in> set prog_num_table
      then do { new_num \<leftarrow> pick_free_prog_num prog_num_table; Some (prog_num_table @ [new_num]) }
      else Some (prog_num_table @ [num]))"

fun build_numbers :: "u16 list \<Rightarrow> prog_info_t list \<Rightarrow> u16 list option" where
  "build_numbers prog_num_table [] = Some prog_num_table"
| "build_numbers prog_num_table (prog # progs) =
     do {
       prog_num_table \<leftarrow> (if FP_PROG_SELECTED prog
          then fix_and_push_program_number prog_num_table (prog_num (info prog)) else Some prog_num_table);
       if length prog_num_table \<ge> PROGRAM_MAX_NUM then Some prog_num_table
       else build_numbers prog_num_table progs
     }"

definition build_program_number_table :: "fp_state \<Rightarrow> u16 list option" where
  "build_program_number_table s = build_numbers [] (g_prog_info_table s)"

section \<open>PAT\<close>

record pat_prog_info =
  pp_prog_num :: u16
  pp_pmt_pid :: u16

record pat_gen_context =
  pat_nprogs :: nat
  pat_tran_stream_id :: u16
  tpid_data :: "uv_pat_pid_data list"
  pat_programs :: "pat_prog_info list"

definition pat_gen_context_init :: "pat_gen_context \<Rightarrow> pat_gen_context" where
  "pat_gen_context_init ctx = ctx\<lparr> pat_nprogs := 0, pat_tran_stream_id := 0x123 \<rparr>"

definition pat_gen_context_add_program :: "pat_gen_context \<Rightarrow> u16 \<Rightarrow> u16 \<Rightarrow> pat_gen_context option" where
  "pat_gen_context_add_program ctx n pid =
     (if length (pat_programs ctx) \<le> pat_nprogs ctx then None
      else Some (ctx\<lparr> pat_programs := (pat_programs ctx)[pat_nprogs ctx := \<lparr> pp_prog_num = n, pp_pmt_pid = pid \<rparr>],
                      pat_nprogs := pat_nprogs ctx + 1 \<rparr>))"

definition pat_gen_context_pack :: "pat_gen_context \<Rightarrow> pat_gen_context" where
  "pat_gen_context_pack ctx =
     ctx\<lparr> tpid_data := map (\<lambda>i. \<lparr> pg_num = pp_prog_num i, pg_pid = pp_pmt_pid i \<rparr>) (pat_programs ctx)
                         @ drop (length (pat_programs ctx)) (tpid_data ctx) \<rparr>"

text \<open>The loops over the program table count the selected programs in \<^verbatim>\<open>nProgSel\<close> and stop at 64.\<close>

fun gen_loop :: "(nat \<Rightarrow> prog_info_t \<Rightarrow> 'c \<Rightarrow> 'c option) \<Rightarrow> nat \<Rightarrow> prog_info_t list \<Rightarrow> 'c \<Rightarrow> 'c option" where
  "gen_loop f nProgSel [] ctx = Some ctx"
| "gen_loop f nProgSel (pProg # progs) ctx =
     (if FP_PROG_SELECTED pProg then do {
        ctx \<leftarrow> f nProgSel pProg ctx;
        if nProgSel + 1 \<ge> PROGRAM_MAX_NUM then Some ctx else gen_loop f (nProgSel + 1) progs ctx
      } else gen_loop f nProgSel progs ctx)"

definition number_at :: "u16 list \<Rightarrow> nat \<Rightarrow> u16 option" where
  "number_at prog_num_table n = (if n < length prog_num_table then Some (prog_num_table ! n) else None)"

definition gen_pat_from_fp ::
  "si_encoder \<Rightarrow> pat_gen_context \<Rightarrow> u16 list \<Rightarrow> prog_info_t list \<Rightarrow> u8 list list option" where
  "gen_pat_from_fp enc ctx prog_num_table progs =
     do {
       ctx \<leftarrow> gen_loop (\<lambda>k pProg ctx. do {
           n \<leftarrow> number_at prog_num_table k;
           pat_gen_context_add_program ctx n (pt_out (pmt (info pProg))) }) 0 progs (pat_gen_context_init ctx);
       let ctx = pat_gen_context_pack ctx;
       Some (dvbSI_Gen_PAT enc (pat_tran_stream_id ctx) (take (pat_nprogs ctx) (tpid_data ctx)))
     }"

section \<open>PMT\<close>

record pmt_gen_context =
  tpmt :: uv_pmt_data
  tes :: "uv_pmt_es_data list"

definition pmt_gen_context_init :: "pmt_gen_context" where
  "pmt_gen_context_init = \<lparr> tpmt = \<lparr> pmt_pg_num = 0, pmt_pid = 0, pmt_pcr_pid = 0, pmt_descr = [] \<rparr>, tes = [] \<rparr>"

definition pmt_gen_context_add_program_info ::
  "pmt_gen_context \<Rightarrow> u16 \<Rightarrow> u16 \<Rightarrow> u16 \<Rightarrow> pmt_gen_context" where
  "pmt_gen_context_add_program_info ctx n pid pcr_pid =
     ctx\<lparr> tpmt := \<lparr> pmt_pg_num = n, pmt_pid = pid, pmt_pcr_pid = pcr_pid, pmt_descr = [] \<rparr> \<rparr>"

definition pmt_gen_context_add_es :: "pmt_gen_context \<Rightarrow> u16 \<Rightarrow> u8 \<Rightarrow> pmt_gen_context option" where
  "pmt_gen_context_add_es ctx pid ty =
     (if PROGRAM_MAX_NUM \<le> length (tes ctx) then None
      else Some (ctx\<lparr> tes := tes ctx @ [\<lparr> es_pid = pid, es_type = ty, es_descr = [] \<rparr>] \<rparr>))"

definition gen_pmt_of_program :: "u16 \<Rightarrow> prog_info_t \<Rightarrow> pmt_gen_context option" where
  "gen_pmt_of_program n pProg =
     foldM (\<lambda>ctx e. if pt_out e \<noteq> 0x00 \<and> pt_out e \<noteq> DATA_PID_PAD_VALUE
                    then pmt_gen_context_add_es ctx (pt_out e) (pt_type e) else Some ctx)
       (pmt_gen_context_add_program_info pmt_gen_context_init n (pt_out (pmt (info pProg))) (pt_out (pcr (info pProg))))
       (es_data (info pProg))"

definition gen_pmt_from_fp :: "si_encoder \<Rightarrow> u16 list \<Rightarrow> prog_info_t list \<Rightarrow> u8 list list option" where
  "gen_pmt_from_fp enc prog_num_table progs =
     gen_loop (\<lambda>k pProg bufs. do {
         n \<leftarrow> number_at prog_num_table k;
         ctx \<leftarrow> gen_pmt_of_program n pProg;
         Some (bufs @ dvbSI_Gen_PMT enc (tpmt ctx) (tes ctx)) }) 0 progs []"

section \<open>SDT\<close>

record sdt_service_info =
  service_id :: int
  svc_name :: "u8 list"
  svc_provider :: "u8 list"

record sdt_gen_context =
  sdt_desc_num :: nat
  sdt_data :: uv_sdt_data
  serv_info :: "sdt_service_info list"

definition sdt_gen_context_init :: sdt_gen_context where
  "sdt_gen_context_init = \<lparr> sdt_desc_num = 1,
     sdt_data = \<lparr> sdt_table_id = 0x42, sdt_tran_stream_id = 0x1234, sdt_orig_net_id = 0xEAEA \<rparr>, serv_info = [] \<rparr>"

text \<open>The text of a C string; \<open>None\<close> when there is no terminating zero.\<close>

definition c_string :: "u8 list \<Rightarrow> u8 list option" where
  "c_string buf = (if 0 \<in> set buf then Some (takeWhile (\<lambda>b. b \<noteq> 0) buf) else None)"

text \<open>\<^verbatim>\<open>defProviderDsw\<close>: souka.\<close>

definition defProviderDsw :: "u8 list" where "defProviderDsw = [0x73, 0x6F, 0x75, 0x6B, 0x61]"

definition sdt_gen_context_add_service ::
  "sdt_gen_context \<Rightarrow> u8 list \<Rightarrow> int \<Rightarrow> u8 list \<Rightarrow> sdt_gen_context option" where
  "sdt_gen_context_add_service ctx serv_name serv provider =
     do {
       name \<leftarrow> c_string serv_name;
       if PROGRAM_MAX_NUM \<le> length (serv_info ctx) \<or> PROGRAM_NAME_SIZE < length name then None
       else Some (ctx\<lparr> serv_info := serv_info ctx @
              [\<lparr> service_id = serv, svc_name = name, svc_provider = provider \<rparr>] \<rparr>)
     }"

definition sdt_descriptor :: "sdt_service_info \<Rightarrow> uv_descriptor" where
  "sdt_descriptor i =
     \<lparr> d_tag = 0x48, d_length = word_of_nat (3 + length (svc_provider i) + length (svc_name i)),
       d_data = 0x01 # word_of_nat (length (svc_provider i)) # svc_provider i
                @ word_of_nat (length (svc_name i)) # svc_name i \<rparr>"

definition sdt_gen_context_pack :: "sdt_gen_context \<Rightarrow> uv_sdt_serv_data list" where
  "sdt_gen_context_pack ctx =
     map (\<lambda>i. \<lparr> serv_id = word_of_int (service_id i), serv_eit_pres_foll_flag = 0, serv_eit_sched_flag = 0, serv_free_ca_mode = 0,
               serv_running_status = 1, serv_descr = replicate (sdt_desc_num ctx) (sdt_descriptor i) \<rparr>)
       (serv_info ctx)"

text \<open>
  The name is copied into a buffer that is cleared once, before the loop: \<^verbatim>\<open>memcpy\<close> of the
  announced length, no terminating zero.
\<close>

definition copy_name :: "xmux_program_info \<Rightarrow> u8 list \<Rightarrow> u8 list option" where
  "copy_name i name =
     do { src \<leftarrow> mem_read (prog_name i ! 1) 1 (unat (prog_name i ! 1 ! 0)); mem_write name 0 src }"

definition gen_sdt_services :: "u16 list \<Rightarrow> prog_info_t list \<Rightarrow> sdt_gen_context option" where
  "gen_sdt_services prog_num_table progs =
     do {
       (name, ctx) \<leftarrow> gen_loop (\<lambda>k pProg (name, ctx). do {
           name \<leftarrow> copy_name (info pProg) name;
           n \<leftarrow> number_at prog_num_table k;
           ctx \<leftarrow> sdt_gen_context_add_service ctx name (uint n) defProviderDsw;
           Some (name, ctx) }) 0 progs (replicate PROGRAM_NAME_SIZE 0, sdt_gen_context_init);
       Some ctx
     }"

definition gen_sdt_from_fp :: "si_encoder \<Rightarrow> u16 list \<Rightarrow> prog_info_t list \<Rightarrow> u8 list list option" where
  "gen_sdt_from_fp enc prog_num_table progs =
     do { ctx \<leftarrow> gen_sdt_services prog_num_table progs;
          Some (dvbSI_Gen_SDT enc (sdt_data ctx) (sdt_gen_context_pack ctx)) }"

section \<open>NIT and CAT\<close>

definition formdescr_cable :: "u32 \<Rightarrow> u8 \<Rightarrow> u8 \<Rightarrow> u32 \<Rightarrow> u8 \<Rightarrow> u8 list" where
  "formdescr_cable frequency FEC_outer modulation sym_rate FEC_inner =
     (let freqH = wu_bcd2hex frequency; rateH = wu_bcd2hex sym_rate
      in [ucast (drop_bit 24 freqH), ucast (drop_bit 16 freqH), ucast (drop_bit 8 freqH), ucast freqH,
          0xFF, 0xF0 OR FEC_outer, modulation,
          ucast (drop_bit 20 rateH), ucast (drop_bit 12 rateH), ucast (drop_bit 4 rateH),
          push_bit 4 (0x0F AND ucast rateH) OR (0x0F AND FEC_inner)])"

text \<open>The literals of the code begin with a zero: \<^verbatim>\<open>03100000\<close> is the octal 819200 and
  \<^verbatim>\<open>0274500\<close> the octal 96576.\<close>

definition nit_gen_context_init :: uv_nit_data where
  "nit_gen_context_init = \<lparr> nit_table_id = 0x40, nit_net_id = 0x1234,
     nit_descr = [\<lparr> d_tag = 0x44, d_length = 11, d_data = formdescr_cable 819200 1 0x02 96576 0xF \<rparr>] \<rparr>"

definition nit_gen_context_add_stream ::
  "uv_nit_stream_data list \<Rightarrow> u32 \<Rightarrow> nat \<Rightarrow> uv_nit_stream_data list" where
  "nit_gen_context_add_stream streams tsid stream_desc_num =
     streams @ [\<lparr> str_tran_stream_id = ucast tsid, str_orig_net_id = 0x123,
       str_descr = map (\<lambda>j. let freqCr = wu_bcd2hex (word_of_nat (280 + 10 * length streams + j))
          in \<lparr> d_tag = 0x62, d_length = 5, d_data = 0xFE # [ucast (drop_bit 24 freqCr), ucast (drop_bit 16 freqCr),
                 ucast (drop_bit 8 freqCr), ucast freqCr] \<rparr>) [0..<stream_desc_num] \<rparr>]"

definition gen_nit_from_fp :: "si_encoder \<Rightarrow> u8 list list" where
  "gen_nit_from_fp enc =
     dvbSI_Gen_NIT enc nit_gen_context_init
       (foldl (\<lambda>streams i. nit_gen_context_add_stream streams (word_of_nat (i + 1)) 1) [] [0..<2])"

definition cat_gen_context_add_ca_system :: "uv_descriptor list \<Rightarrow> u16 \<Rightarrow> u16 \<Rightarrow> uv_descriptor list" where
  "cat_gen_context_add_ca_system descs ca_system_id ca_pid =
     descs @ [\<lparr> d_tag = 0x09, d_length = 4,
       d_data = [ucast (drop_bit 8 ca_system_id), ucast (ca_system_id AND 0xFF), ucast (drop_bit 8 ca_pid),
                 ucast (ca_pid AND 0xFF)] \<rparr>]"

section \<open>Generating and applying\<close>

text \<open>The hook fills every buffer into the area of the output, under the current type.\<close>

definition write_hook_psi ::
  "nat \<Rightarrow> u8 list list \<Rightarrow> xmux_output_psi_data \<times> nat \<Rightarrow> (xmux_output_psi_data \<times> nat) option" where
  "write_hook_psi psi_type bufs st = fill_all (map (\<lambda>buf. (psi_type, buf)) bufs) st"

definition psi_gen_area ::
  "si_encoder \<Rightarrow> pat_gen_context \<Rightarrow> fp_state \<Rightarrow> xmux_output_psi_data \<Rightarrow> xmux_output_psi_data option" where
  "psi_gen_area enc ctx s psi =
     do {
       prog_num_table \<leftarrow> build_program_number_table s;
       let st = begin_fill_output_psi_data psi;
       bufs \<leftarrow> gen_pat_from_fp enc ctx prog_num_table (g_prog_info_table s);
       st \<leftarrow> write_hook_psi PSI_TYPE_PAT bufs st;
       bufs \<leftarrow> gen_pmt_from_fp enc prog_num_table (g_prog_info_table s);
       st \<leftarrow> write_hook_psi PSI_TYPE_PMT bufs st;
       bufs \<leftarrow> gen_sdt_from_fp enc prog_num_table (g_prog_info_table s);
       st \<leftarrow> write_hook_psi PSI_TYPE_SDT bufs st;
       st \<leftarrow> write_hook_psi PSI_TYPE_NIT (gen_nit_from_fp enc) st;
       Some (fst st)
     }"

text \<open>The result: the new area and the buffers written to the FPGA.\<close>

definition psi_gen_and_apply_from_fp ::
  "si_encoder \<Rightarrow> pat_gen_context \<Rightarrow> fp_state \<Rightarrow> xmux_output_psi_data
   \<Rightarrow> (xmux_output_psi_data \<times> (nat \<times> u8 list) list) option" where
  "psi_gen_and_apply_from_fp enc ctx s psi =
     do { psi \<leftarrow> psi_gen_area enc ctx s psi; writes \<leftarrow> psi_apply_from_output_psi psi; Some (psi, writes) }"

section \<open>From the sections of the SNMP manager\<close>

record apply_psi_snmp_data =
  magic :: u16
  other_table_flag :: u8
  pmt_flag :: "u8 list"
  pmt_pid_table :: "u16 list"

definition PAT_FLAG_SHIFT :: nat where "PAT_FLAG_SHIFT = 7"
definition CAT_FLAG_SHIFT :: nat where "CAT_FLAG_SHIFT = 6"
definition NIT_FLAG_SHIFT :: nat where "NIT_FLAG_SHIFT = 5"
definition SDT_FLAG_SHIFT :: nat where "SDT_FLAG_SHIFT = 0"

definition PAT_PID :: u16 where "PAT_PID = 0x00"
definition CAT_PID :: u16 where "CAT_PID = 0x01"
definition NIT_PID :: u16 where "NIT_PID = 0x10"
definition SDT_PID :: u16 where "SDT_PID = 0x11"

definition sg_mib_xxx_len :: "u8 list \<Rightarrow> nat" where
  "sg_mib_xxx_len sg_mib_xxx = min (unat (READ_U16 sg_mib_xxx)) SECTION_MAX_SIZE"

type_synonym fill_state = "(xmux_output_psi_data \<times> nat) \<times> u8"

definition fill_row :: "nat \<Rightarrow> u16 \<Rightarrow> u8 list \<Rightarrow> fill_state \<Rightarrow> fill_state option" where
  "fill_row psi_type pid row = (\<lambda>(st, cc).
     do {
       sec \<leftarrow> mem_read row 2 (sg_mib_xxx_len row);
       let out = section_to_ts sec pid cc;
       st \<leftarrow> fill_output_psi_data psi_type (concat (ts_pkts out)) st;
       Some (st, ts_cc out)
     })"

definition fill_flagged ::
  "bool \<Rightarrow> nat \<Rightarrow> u16 \<Rightarrow> u8 list list \<Rightarrow> xmux_output_psi_data \<times> nat \<Rightarrow> (xmux_output_psi_data \<times> nat) option" where
  "fill_flagged flag psi_type pid rows st =
     (if flag then do { (st, cc) \<leftarrow> foldM (\<lambda>st row. fill_row psi_type pid row st) (st, 0) rows; Some st }
      else Some st)"

definition psi_gen_output_psi_from_sections ::
  "apply_psi_snmp_data \<Rightarrow> psi_mib \<Rightarrow> xmux_output_psi_data \<Rightarrow> (xmux_output_psi_data \<times> nat) option" where
  "psi_gen_output_psi_from_sections a m psi =
     do {
       let flag = (\<lambda>k. other_table_flag a AND push_bit k 1 \<noteq> 0);
       st \<leftarrow> fill_flagged (flag PAT_FLAG_SHIFT) PSI_TYPE_PAT PAT_PID [sg_mib_pat m ! CHANNEL_MAX_NUM]
              (begin_fill_output_psi_data psi);
       (st, cc) \<leftarrow> foldM (\<lambda>st bit. if wu_bitmap_test_bit (pmt_flag a) bit
                then fill_row PSI_TYPE_PMT (pmt_pid_table a ! bit) (sg_mib_pmt m ! CHANNEL_MAX_NUM ! bit) st
                else Some st) (st, 0) [0..<PROGRAM_MAX_NUM];
       st \<leftarrow> fill_flagged (flag CAT_FLAG_SHIFT) PSI_TYPE_CAT CAT_PID [sg_mib_cat m ! CHANNEL_MAX_NUM] st;
       st \<leftarrow> fill_flagged (flag SDT_FLAG_SHIFT) PSI_TYPE_SDT SDT_PID
              (take SDT_SECTION_NUM (sg_mib_sdt m ! CHANNEL_MAX_NUM)) st;
       fill_flagged (flag NIT_FLAG_SHIFT) PSI_TYPE_NIT NIT_PID [sg_mib_nit m ! CHANNEL_MAX_NUM] st
     }"


section \<open>Program numbers are distinct\<close>

definition numbered_programs :: "prog_info_t list \<Rightarrow> prog_info_t list" where
  "numbered_programs progs = take PROGRAM_MAX_NUM (filter FP_PROG_SELECTED progs)"

text \<open>With at most 64 numbers in use the search ends, at the least free number.\<close>

lemma pick_free_from_least:
  assumes "k \<notin> set tbl" "\<forall>j. i \<le> j \<and> j < k \<longrightarrow> j \<in> set tbl" "i \<le> (k :: u16)"
  shows "pick_free_from tbl i = Some k"
  using assms(2,3)
proof (induction "unat k - unat i" arbitrary: i)
  case 0
  then have "i = k" by (simp add: word_le_nat_alt word_unat_eq_iff)
  with assms(1) show ?case by (subst pick_free_from.simps) simp
next
  case (Suc d)
  then have "i < k" by (simp add: word_less_nat_alt word_le_nat_alt)
  have "unat k < 2 ^ 16" by (rule order_less_le_trans [OF unsigned_less]) simp
  with \<open>i < k\<close> have "unat i + 1 < 2 ^ 16" unfolding word_less_nat_alt by linarith
  then have "unat (i + 1) = unat i + 1" by (simp add: unat_word_ariths)
  with \<open>i < k\<close> have inc: "unat (i + 1) = unat i + 1" "i + 1 \<le> k"
    by (simp_all add: word_less_nat_alt word_le_nat_alt)
  have "pick_free_from tbl (i + 1) = Some k"
  proof (rule Suc.hyps(1))
    show "d = unat k - unat (i + 1)" using Suc.hyps(2) inc by simp
    show "\<forall>j. i + 1 \<le> j \<and> j < k \<longrightarrow> j \<in> set tbl"
      using Suc.prems(1) inc(1) by (auto simp: word_le_nat_alt)
  qed (rule inc(2))
  moreover have "i \<in> set tbl" using Suc.prems(1) \<open>i < k\<close> by simp
  ultimately show ?case by (subst pick_free_from.simps) simp
qed


lemma pick_free_prog_num_some:
  assumes "length tbl < 2 ^ 16 - 1"
  shows "\<exists>k. pick_free_prog_num tbl = Some k \<and> k \<notin> set tbl \<and> 1 \<le> k \<and> unat k \<le> length tbl + 1"
proof -
  let ?free = "\<lambda>m. 1 \<le> m \<and> m \<notin> unat ` set tbl"
  have "\<not> {1..length tbl + 1} \<subseteq> unat ` set tbl"
  proof
    assume "{1..length tbl + 1} \<subseteq> unat ` set tbl"
    then have "card {1..length tbl + 1} \<le> card (unat ` set tbl)" by (intro card_mono) simp_all
    also have "\<dots> \<le> length tbl" using card_image_le [of "set tbl" unat] card_length [of tbl] by simp
    finally show False by simp
  qed
  then obtain m where "m \<in> {1..length tbl + 1}" "m \<notin> unat ` set tbl" by blast
  then have m: "?free m" "m \<le> length tbl + 1" by simp_all
  let ?m = "LEAST m. ?free m"
  have least: "?free ?m" using m(1) by (rule LeastI)
  have "?m \<le> m" using m(1) by (rule Least_le)
  let ?k = "word_of_nat ?m :: u16"
  have k: "unat ?k = ?m" using \<open>?m \<le> m\<close> m(2) assms by (intro unat_of_nat_less) simp
  have notin: "?k \<notin> set tbl"
  proof
    assume "?k \<in> set tbl"
    then have "unat ?k \<in> unat ` set tbl" by (rule imageI)
    with least show False by (simp only: k)
  qed
  have used: "j \<in> set tbl" if "1 \<le> j" "j < ?k" for j
  proof -
    from that k have "1 \<le> unat j" "unat j < ?m" by (simp_all add: word_le_nat_alt word_less_nat_alt)
    then have "unat j \<in> unat ` set tbl" using not_less_Least by blast
    then show ?thesis by (auto simp: word_unat_eq_iff [symmetric])
  qed
  have one: "1 \<le> ?k" using least k by (simp add: word_le_nat_alt)
  have "pick_free_prog_num tbl = Some ?k"
    unfolding pick_free_prog_num_def by (rule pick_free_from_least [OF notin _ one]) (use used in blast)
  moreover have "unat ?k \<le> length tbl + 1" using k \<open>?m \<le> m\<close> m(2) by linarith
  ultimately show ?thesis using notin one by blast
qed

text \<open>What the table says after \<open>n\<close> selected programs.\<close>

definition numbers_ok :: "u16 list \<Rightarrow> prog_info_t list \<Rightarrow> bool" where
  "numbers_ok nums progs \<longleftrightarrow> distinct nums \<and> length nums = length progs
     \<and> (\<forall>i < length progs. nums ! i = prog_num (info (progs ! i))
          \<or> (prog_num (info (progs ! i)) \<in> set (take i nums) \<and> 1 \<le> nums ! i \<and> unat (nums ! i) \<le> i + 1))"

lemma fix_and_push_ok:
  assumes "numbers_ok nums progs" "length nums < 64"
  shows "\<exists>n. fix_and_push_program_number nums (prog_num (info p)) = Some (nums @ [n])
    \<and> numbers_ok (nums @ [n]) (progs @ [p])"
proof (cases "prog_num (info p) \<in> set nums")
  case True
  have "length nums < 2 ^ 16 - 1" using assms(2) by simp
  from pick_free_prog_num_some [OF this] obtain k where
    "pick_free_prog_num nums = Some k" "k \<notin> set nums" "1 \<le> k" "unat k \<le> length nums + 1" by blast
  with True assms(1) show ?thesis
    by (auto simp: fix_and_push_program_number_def numbers_ok_def nth_append less_Suc_eq)
next
  case False
  with assms(1) show ?thesis
    by (auto simp: fix_and_push_program_number_def numbers_ok_def nth_append less_Suc_eq)
qed

lemma build_numbers_ok:
  assumes "numbers_ok nums done_progs" "length nums < PROGRAM_MAX_NUM"
  shows "\<exists>nums'. build_numbers nums progs = Some nums'
    \<and> numbers_ok nums' (take PROGRAM_MAX_NUM (done_progs @ filter FP_PROG_SELECTED progs))"
  using assms
proof (induction progs arbitrary: nums done_progs)
  case Nil
  then show ?case by (simp add: numbers_ok_def limit_simps)
next
  case (Cons p progs)
  show ?case
  proof (cases "FP_PROG_SELECTED p")
    case True
    from Cons.prems fix_and_push_ok [of nums done_progs p] obtain n where n:
      "fix_and_push_program_number nums (prog_num (info p)) = Some (nums @ [n])"
      "numbers_ok (nums @ [n]) (done_progs @ [p])" by (auto simp: limit_simps)
    show ?thesis
    proof (cases "length (nums @ [n]) \<ge> PROGRAM_MAX_NUM")
      case full: True
      then have "length (done_progs @ [p]) = PROGRAM_MAX_NUM"
        using Cons.prems by (simp add: numbers_ok_def)
      then have "take PROGRAM_MAX_NUM (done_progs @ filter FP_PROG_SELECTED (p # progs)) = done_progs @ [p]"
        using True by (simp add: take_Cons' flip: append_Cons)
      with n True full show ?thesis by simp
    next
      case False
      with n True Cons.IH [OF n(2)] show ?thesis by simp
    qed
  next
    case False
    with Cons.IH [OF Cons.prems] Cons.prems(2) show ?thesis by simp
  qed
qed

lemma program_numbers_ok:
  "\<exists>nums. build_program_number_table s = Some nums \<and> numbers_ok nums (numbered_programs (g_prog_info_table s))"
  using build_numbers_ok [of "[]" "[]" "g_prog_info_table s"]
  by (simp add: build_program_number_table_def numbered_programs_def numbers_ok_def limit_simps)

text \<open>C21: Numbering the selected programs ends, with one number for each of the first 64, all
  different; a program loses its own number only to a program before it that has that number, and
  then gets a small one that is not zero.\<close>

theorem program_numbers_distinct:
  "\<exists>nums. build_program_number_table s = Some nums \<and> distinct nums
    \<and> length nums = length (numbered_programs (g_prog_info_table s))
    \<and> (\<forall>i. i < length nums \<longrightarrow> nums ! i = prog_num (info (numbered_programs (g_prog_info_table s) ! i))
        \<or> (prog_num (info (numbered_programs (g_prog_info_table s) ! i)) \<in> set (take i nums)
           \<and> 1 \<le> nums ! i \<and> unat (nums ! i) \<le> i + 1))"
  using program_numbers_ok [of s] unfolding numbers_ok_def by metis

section \<open>What the encoder gets\<close>

text \<open>The loop visits the first 64 selected programs in the order of the table, numbered from 0.\<close>

lemma gen_loop_foldM:
  "k < PROGRAM_MAX_NUM \<Longrightarrow> gen_loop f k progs ctx =
     foldM (\<lambda>ctx (i, p). f i p ctx) ctx (enumerate k (take (PROGRAM_MAX_NUM - k) (filter FP_PROG_SELECTED progs)))"
proof (induction progs arbitrary: k ctx)
  case (Cons p progs)
  show ?case
  proof (cases "FP_PROG_SELECTED p")
    case True
    show ?thesis
    proof (cases "k + 1 \<ge> PROGRAM_MAX_NUM")
      case full: True
      then have "PROGRAM_MAX_NUM - k = Suc 0" using Cons.prems by linarith
      with True full show ?thesis by (simp split: Option.bind_splits)
    next
      case False
      then have "PROGRAM_MAX_NUM - k = Suc (PROGRAM_MAX_NUM - (k + 1))" by linarith
      with True False Cons.IH [of "k + 1"] show ?thesis by (simp split: Option.bind_splits)
    qed
  qed (use Cons in simp)
qed simp

lemma gen_loop_from_0:
  "gen_loop f 0 progs ctx = foldM (\<lambda>ctx (i, p). f i p ctx) ctx (enumerate 0 (numbered_programs progs))"
  by (simp add: gen_loop_foldM numbered_programs_def limit_simps)


definition pat_info :: "u16 \<Rightarrow> prog_info_t \<Rightarrow> pat_prog_info" where
  "pat_info n p = \<lparr> pp_prog_num = n, pp_pmt_pid = pt_out (pmt (info p)) \<rparr>"

definition pat_entry :: "u16 \<Rightarrow> prog_info_t \<Rightarrow> uv_pat_pid_data" where
  "pat_entry n p = \<lparr> pg_num = n, pg_pid = pt_out (pmt (info p)) \<rparr>"

lemma pat_loop:
  assumes "pat_nprogs ctx = k" "k + length ps \<le> length (pat_programs ctx)" "k + length ps \<le> length nums"
  shows "\<exists>ctx'. foldM (\<lambda>ctx (i, p). do { n \<leftarrow> number_at nums i;
        pat_gen_context_add_program ctx n (pt_out (pmt (info p))) }) ctx (enumerate k ps) = Some ctx'
    \<and> pat_nprogs ctx' = k + length ps \<and> pat_tran_stream_id ctx' = pat_tran_stream_id ctx
    \<and> length (pat_programs ctx') = length (pat_programs ctx)
    \<and> take (k + length ps) (pat_programs ctx') = take k (pat_programs ctx) @ map2 pat_info (drop k nums) ps"
  using assms
proof (induction ps arbitrary: k ctx)
  case (Cons p ps)
  let ?ctx = "ctx\<lparr> pat_programs := (pat_programs ctx)[k := pat_info (nums ! k) p], pat_nprogs := k + 1 \<rparr>"
  have "drop k nums = nums ! k # drop (k + 1) nums" using Cons.prems(3) by (simp add: Cons_nth_drop_Suc)
  moreover have "take (k + 1) (pat_programs ?ctx) = take k (pat_programs ctx) @ [pat_info (nums ! k) p]"
    using Cons.prems(2) by (simp add: take_Suc_conv_app_nth)
  moreover have "do { n \<leftarrow> number_at nums k; pat_gen_context_add_program ctx n (pt_out (pmt (info p))) } = Some ?ctx"
    using Cons.prems by (simp add: number_at_def pat_gen_context_add_program_def pat_info_def)
  ultimately show ?case using Cons.IH [of ?ctx "k + 1"] Cons.prems by simp
qed simp

lemma gen_pat_from_fp_eq:
  assumes "length (pat_programs ctx) = PROGRAM_MAX_NUM" "length nums = length (numbered_programs progs)"
  shows "gen_pat_from_fp enc ctx nums progs
    = Some (dvbSI_Gen_PAT enc 0x123 (map2 pat_entry nums (numbered_programs progs)))"
proof -
  let ?sel = "numbered_programs progs"
  have sel: "length ?sel \<le> PROGRAM_MAX_NUM" by (simp add: numbered_programs_def)
  from pat_loop [of "pat_gen_context_init ctx" 0 ?sel nums] assms sel obtain ctx' where
    "gen_loop (\<lambda>k p ctx. do { n \<leftarrow> number_at nums k; pat_gen_context_add_program ctx n (pt_out (pmt (info p))) })
      0 progs (pat_gen_context_init ctx) = Some ctx'"
    "pat_nprogs ctx' = length ?sel" "pat_tran_stream_id ctx' = 0x123" "length (pat_programs ctx') = 64"
    "take (length ?sel) (pat_programs ctx') = map2 pat_info nums ?sel"
    by (auto simp: gen_loop_from_0 pat_gen_context_init_def limit_simps)
  moreover have "(\<lambda>i. \<lparr> pg_num = pp_prog_num i, pg_pid = pp_pmt_pid i \<rparr>) \<circ> (\<lambda>(n, p). pat_info n p) = (\<lambda>(n, p). pat_entry n p)"
    by (auto simp: pat_info_def pat_entry_def)
  ultimately show ?thesis
    using sel by (simp add: gen_pat_from_fp_def pat_gen_context_pack_def take_map limit_simps)
qed

definition pmt_es :: "pid_trans_entry list \<Rightarrow> uv_pmt_es_data list" where
  "pmt_es es = map (\<lambda>e. \<lparr> es_pid = pt_out e, es_type = pt_type e, es_descr = [] \<rparr>)
     (filter (\<lambda>e. pt_out e \<noteq> 0x00 \<and> pt_out e \<noteq> DATA_PID_PAD_VALUE) es)"

definition pmt_head :: "u16 \<Rightarrow> prog_info_t \<Rightarrow> uv_pmt_data" where
  "pmt_head n p = \<lparr> pmt_pg_num = n, pmt_pid = pt_out (pmt (info p)), pmt_pcr_pid = pt_out (pcr (info p)), pmt_descr = [] \<rparr>"

lemma pmt_es_loop:
  "length (tes ctx) + length es \<le> PROGRAM_MAX_NUM \<Longrightarrow>
   foldM (\<lambda>ctx e. if pt_out e \<noteq> 0x00 \<and> pt_out e \<noteq> DATA_PID_PAD_VALUE
                  then pmt_gen_context_add_es ctx (pt_out e) (pt_type e) else Some ctx) ctx es
   = Some (ctx\<lparr> tes := tes ctx @ pmt_es es \<rparr>)"
  by (induction es arbitrary: ctx) (auto simp: pmt_es_def pmt_gen_context_add_es_def)

lemma gen_pmt_of_program_eq:
  assumes "info_wf (info p)"
  shows "gen_pmt_of_program n p = Some \<lparr> tpmt = pmt_head n p, tes = pmt_es (es_data (info p)) \<rparr>"
  using assms
  by (simp add: gen_pmt_of_program_def pmt_es_loop pmt_gen_context_add_program_info_def pmt_gen_context_init_def
      pmt_head_def info_wf_def limit_simps)

lemma pmt_loop:
  assumes "\<forall>p \<in> set ps. info_wf (info p)" "k + length ps \<le> length nums"
  shows "foldM (\<lambda>bufs (i, p). do { n \<leftarrow> number_at nums i; ctx \<leftarrow> gen_pmt_of_program n p;
        Some (bufs @ dvbSI_Gen_PMT enc (tpmt ctx) (tes ctx)) }) bufs (enumerate k ps)
    = Some (bufs @ concat (map2 (\<lambda>n p. dvbSI_Gen_PMT enc (pmt_head n p) (pmt_es (es_data (info p)))) (drop k nums) ps))"
  using assms
proof (induction ps arbitrary: k bufs)
  case (Cons p ps)
  have "drop k nums = nums ! k # drop (k + 1) nums" using Cons.prems(2) by (simp add: Cons_nth_drop_Suc)
  moreover have "info_wf (info p)" using Cons.prems(1) by simp
  ultimately show ?case
    using Cons.IH [of "k + 1"] Cons.prems by (simp add: number_at_def gen_pmt_of_program_eq)
qed simp

lemma numbered_subset: "set (numbered_programs progs) \<subseteq> set progs"
  by (auto simp: numbered_programs_def dest: in_set_takeD)

lemma gen_pmt_from_fp_eq:
  assumes "\<forall>p \<in> set progs. info_wf (info p)" "length nums = length (numbered_programs progs)"
  shows "gen_pmt_from_fp enc nums progs = Some (concat (map2
    (\<lambda>n p. dvbSI_Gen_PMT enc (pmt_head n p) (pmt_es (es_data (info p)))) nums (numbered_programs progs)))"
  using pmt_loop [of "numbered_programs progs" 0 nums enc "[]"] assms numbered_subset [of progs]
  by (auto simp: gen_pmt_from_fp_def gen_loop_from_0)

text \<open>C22: The PAT lists the selected programs, at most 64, in the order of the table, each under its number
  with the output PID of its PMT; there is one PMT per listed program, with the same number, its PCR and
  its elementary streams but for pads. No other program reaches the encoder.\<close>

theorem pat_and_pmt_agree:
  assumes "fp_wf s" "length (pat_programs ctx) = PROGRAM_MAX_NUM"
  shows "\<exists>nums. build_program_number_table s = Some nums \<and> distinct nums
    \<and> gen_pat_from_fp enc ctx nums (g_prog_info_table s)
      = Some (dvbSI_Gen_PAT enc 0x123 (map2 pat_entry nums (numbered_programs (g_prog_info_table s))))
    \<and> gen_pmt_from_fp enc nums (g_prog_info_table s)
      = Some (concat (map2 (\<lambda>n p. dvbSI_Gen_PMT enc (pmt_head n p) (pmt_es (es_data (info p))))
          nums (numbered_programs (g_prog_info_table s))))"
proof -
  obtain nums where n: "build_program_number_table s = Some nums" "numbers_ok nums (numbered_programs (g_prog_info_table s))"
    using program_numbers_ok by blast
  then have "distinct nums" "length nums = length (numbered_programs (g_prog_info_table s))"
    by (simp_all add: numbers_ok_def)
  with n(1) assms gen_pat_from_fp_eq [OF assms(2)] gen_pmt_from_fp_eq [of "g_prog_info_table s" nums enc]
  show ?thesis by (auto simp: fp_wf_def)
qed

section \<open>Service names\<close>

definition name_row_ok :: "xmux_program_info \<Rightarrow> bool" where
  "name_row_ok i \<longleftrightarrow> length (prog_name i ! 1) = PROGRAM_NAME_SIZE \<and> unat (prog_name i ! 1 ! 0) < PROGRAM_NAME_SIZE"

definition the_name :: "xmux_program_info \<Rightarrow> u8 list" where
  "the_name i = take (unat (prog_name i ! 1 ! 0)) (drop 1 (prog_name i ! 1))"

lemma the_name_length: "name_row_ok i \<Longrightarrow> length (the_name i) = unat (prog_name i ! 1 ! 0)"
  by (simp add: name_row_ok_def the_name_def limit_simps)

lemma copy_name_eq:
  assumes "name_row_ok i" "length buf = PROGRAM_NAME_SIZE"
  shows "copy_name i buf = Some (the_name i @ drop (length (the_name i)) buf)"
  using assms the_name_length [OF assms(1)]
  by (simp add: copy_name_def mem_read_def mem_write_def the_name_def name_row_ok_def limit_simps)

definition name_buf :: "u8 list \<Rightarrow> bool" where
  "name_buf buf \<longleftrightarrow> length buf = PROGRAM_NAME_SIZE \<and> last buf = 0"

lemma copy_name_buf:
  assumes "name_row_ok i" "name_buf buf"
  shows "name_buf (the_name i @ drop (length (the_name i)) buf)"
  using assms the_name_length [OF assms(1)]
  by (auto simp: name_buf_def name_row_ok_def last_append last_drop limit_simps)

lemma c_string_name_buf:
  assumes "name_buf buf"
  shows "c_string buf = Some (takeWhile (\<lambda>b. b \<noteq> 0) buf)" "length (takeWhile (\<lambda>b. b \<noteq> 0) buf) \<le> PROGRAM_NAME_SIZE"
proof -
  have "buf \<noteq> []" using assms by (auto simp: name_buf_def limit_simps)
  then have "0 \<in> set buf" using assms last_in_set [of buf] by (simp add: name_buf_def)
  then show "c_string buf = Some (takeWhile (\<lambda>b. b \<noteq> 0) buf)" by (simp add: c_string_def)
  show "length (takeWhile (\<lambda>b. b \<noteq> 0) buf) \<le> PROGRAM_NAME_SIZE"
    using assms length_takeWhile_le [of _ buf] by (simp add: name_buf_def)
qed

text \<open>The names in the order of the programs, each over what the buffer held.\<close>

fun sent_names :: "u8 list \<Rightarrow> xmux_program_info list \<Rightarrow> u8 list list" where
  "sent_names buf [] = []"
| "sent_names buf (i # is) =
     (let buf = the_name i @ drop (length (the_name i)) buf
      in takeWhile (\<lambda>b. b \<noteq> 0) buf # sent_names buf is)"

lemma sdt_loop:
  assumes "\<forall>p \<in> set ps. name_row_ok (info p)" "name_buf buf" "k + length ps \<le> length nums"
    "length (serv_info ctx) + length ps \<le> PROGRAM_MAX_NUM"
  shows "\<exists>buf'. foldM (\<lambda>st (i, p). case st of (name, ctx) \<Rightarrow> do {
           name \<leftarrow> copy_name (info p) name;
           n \<leftarrow> number_at nums i;
           ctx \<leftarrow> sdt_gen_context_add_service ctx name (uint n) defProviderDsw;
           Some (name, ctx) }) (buf, ctx) (enumerate k ps)
    = Some (buf', ctx\<lparr> serv_info := serv_info ctx @ map2 (\<lambda>n name. \<lparr> service_id = uint n, svc_name = name,
        svc_provider = defProviderDsw \<rparr>) (drop k nums) (sent_names buf (map info ps)) \<rparr>)"
  using assms
proof (induction ps arbitrary: k buf ctx)
  case (Cons p ps)
  let ?buf = "the_name (info p) @ drop (length (the_name (info p))) buf"
  have ok: "name_row_ok (info p)" and buf: "name_buf ?buf" "length buf = PROGRAM_NAME_SIZE"
    using Cons.prems(1,2) copy_name_buf by (simp_all add: name_buf_def)
  have nums: "drop k nums = nums ! k # drop (k + 1) nums" using Cons.prems(3) by (simp add: Cons_nth_drop_Suc)
  let ?svc = "\<lparr> service_id = uint (nums ! k), svc_name = takeWhile (\<lambda>b. b \<noteq> 0) ?buf, svc_provider = defProviderDsw \<rparr>"
  let ?ctx = "ctx\<lparr> serv_info := serv_info ctx @ [?svc] \<rparr>"
  have add: "sdt_gen_context_add_service ctx ?buf (uint (nums ! k)) defProviderDsw = Some ?ctx"
    using c_string_name_buf [OF buf(1)] Cons.prems(4)
    unfolding sdt_gen_context_add_service_def by (simp add: not_less not_le)
  have "\<exists>buf'. foldM (\<lambda>st (i, p). case st of (name, ctx) \<Rightarrow> do {
           name \<leftarrow> copy_name (info p) name;
           n \<leftarrow> number_at nums i;
           ctx \<leftarrow> sdt_gen_context_add_service ctx name (uint n) defProviderDsw;
           Some (name, ctx) }) (?buf, ?ctx) (enumerate (k + 1) ps)
    = Some (buf', ?ctx\<lparr> serv_info := serv_info ?ctx @ map2 (\<lambda>n name. \<lparr> service_id = uint n, svc_name = name,
        svc_provider = defProviderDsw \<rparr>) (drop (k + 1) nums) (sent_names ?buf (map info ps)) \<rparr>)"
    by (rule Cons.IH) (use Cons.prems buf in simp_all)
  then show ?case
    using copy_name_eq [OF ok buf(2)] add nums Cons.prems(3) by (simp add: number_at_def Let_def)
qed auto

lemma gen_sdt_services_eq:
  assumes "\<forall>p \<in> set progs. name_row_ok (info p)" "length nums = length (numbered_programs progs)"
  shows "gen_sdt_services nums progs = Some (sdt_gen_context_init\<lparr> serv_info :=
    map2 (\<lambda>n name. \<lparr> service_id = uint n, svc_name = name, svc_provider = defProviderDsw \<rparr>) nums
      (sent_names (replicate PROGRAM_NAME_SIZE 0) (map info (numbered_programs progs))) \<rparr>)"
proof -
  have "name_buf (replicate PROGRAM_NAME_SIZE 0)" by (simp add: name_buf_def limit_simps)
  moreover have "length (numbered_programs progs) \<le> PROGRAM_MAX_NUM" by (simp add: numbered_programs_def)
  moreover have "\<forall>p \<in> set (numbered_programs progs). name_row_ok (info p)"
    using assms(1) numbered_subset [of progs] by blast
  moreover have "serv_info sdt_gen_context_init = []" by (simp add: sdt_gen_context_init_def)
  ultimately show ?thesis
    using sdt_loop [of "numbered_programs progs" "replicate PROGRAM_NAME_SIZE 0" 0 nums sdt_gen_context_init] assms(2)
    unfolding gen_sdt_services_def gen_loop_from_0 by auto
qed

text \<open>A service name shorter than the one before it keeps the tail of the buffer: of two services, the
  second is announced with its own name followed by the end of the first.\<close>

theorem sdt_name_keeps_tail:
  assumes "filter FP_PROG_SELECTED (g_prog_info_table s) = [p, q]"
    and "\<forall>p \<in> set (g_prog_info_table s). name_row_ok (info p)" "length nums = 2"
    and "0 \<notin> set (the_name (info p))" "0 \<notin> set (the_name (info q))"
    and "length (the_name (info q)) \<le> length (the_name (info p))"
  shows "\<exists>ctx. gen_sdt_services nums (g_prog_info_table s) = Some ctx
    \<and> map svc_name (serv_info ctx)
      = [the_name (info p), the_name (info q) @ drop (length (the_name (info q))) (the_name (info p))]"
proof -
  obtain n m where nums: "nums = [n, m]" using assms(3) by (auto simp: length_Suc_conv numeral_2_eq_2)
  have sel: "numbered_programs (g_prog_info_table s) = [p, q]" by (simp add: numbered_programs_def assms(1) limit_simps)
  let ?a = "the_name (info p)" and ?b = "the_name (info q)"
  have "p \<in> set (g_prog_info_table s)" using sel numbered_subset [of "g_prog_info_table s"] by simp
  then have "length ?a < PROGRAM_NAME_SIZE"
    using assms(2) the_name_length [of "info p"] by (simp add: name_row_ok_def)
  then have z: "\<exists>m. drop (length ?a) (replicate PROGRAM_NAME_SIZE 0) = (0 :: u8) # replicate m 0"
    by (simp add: drop_replicate) (metis Suc_diff_Suc replicate_Suc)
  have tw: "takeWhile (\<lambda>b. b \<noteq> 0) (xs @ 0 # ys) = xs" if "0 \<notin> set xs" for xs ys :: "u8 list"
    using that by (induction xs) auto
  have "0 \<notin> set (?b @ drop (length ?b) ?a)" using assms(4,5) by (auto dest: in_set_dropD)
  from tw [OF this] tw [OF assms(4)] z assms(6)
  have "sent_names (replicate PROGRAM_NAME_SIZE 0) [info p, info q] = [?a, ?b @ drop (length ?b) ?a]"
    by (auto simp: Let_def)
  with gen_sdt_services_eq [of "g_prog_info_table s" nums] assms(2,3) sel nums show ?thesis by simp
qed


definition named_prog :: "u8 list \<Rightarrow> prog_info_t" where
  "named_prog n = \<lparr> status = 1, info = example_info\<lparr> prog_name :=
     [replicate 33 0, word_of_nat (length n) # n @ replicate (32 - length n) 0] \<rparr> \<rparr>"

lemma named_prog:
  "FP_PROG_SELECTED (named_prog n)"
  "length n \<le> 32 \<Longrightarrow> the_name (info (named_prog n)) = n"
  "length n \<le> 32 \<Longrightarrow> name_row_ok (info (named_prog n))"
  using unat_of_nat_less [where 'a = 8, of "length n"]
  by (simp_all add: named_prog_def FP_PROG_SELECTED_def has_flag_def FP_STATUS_SELECTED_def the_name_def
      name_row_ok_def limit_simps)

theorem sdt_name_keeps_tail_witness:
  "\<exists>ctx. gen_sdt_services [1, 2] [named_prog [0x4E, 0x65, 0x77, 0x73], named_prog [0x54, 0x56]] = Some ctx
    \<and> map svc_name (serv_info ctx) = [[0x4E, 0x65, 0x77, 0x73], [0x54, 0x56, 0x77, 0x73]]"
  using sdt_name_keeps_tail [of "\<lparr> g_prog_info_table = [named_prog [0x4E, 0x65, 0x77, 0x73], named_prog [0x54, 0x56]],
      g_chan_num = [] \<rparr>" "named_prog [0x4E, 0x65, 0x77, 0x73]" "named_prog [0x54, 0x56]" "[1, 2]"]
  by (simp add: named_prog)

theorem program_numbers_distinct_witness:
  "\<exists>a b. build_program_number_table \<lparr> g_prog_info_table = [named_prog [0x54, 0x56], named_prog [0x54]],
      g_chan_num = [] \<rparr> = Some [a, b] \<and> a \<noteq> b"
  using program_numbers_distinct [of "\<lparr> g_prog_info_table = [named_prog [0x54, 0x56], named_prog [0x54]],
      g_chan_num = [] \<rparr>"]
  by (auto simp: numbered_programs_def named_prog limit_simps length_Suc_conv numeral_2_eq_2)

theorem pat_and_pmt_agree_witness:
  "\<exists>nums. build_program_number_table (example_state 1) = Some nums \<and> distinct nums"
proof -
  let ?pp = "\<lparr> pp_prog_num = 0, pp_pmt_pid = 0 \<rparr>" and ?pd = "\<lparr> pg_num = 0, pg_pid = 0 \<rparr>"
  show ?thesis
    using pat_and_pmt_agree [OF example_wf(2) [of 1],
        of "\<lparr> pat_nprogs = 0, pat_tran_stream_id = 0, tpid_data = replicate 65 ?pd, pat_programs = replicate 64 ?pp \<rparr>"]
    by (auto simp: limit_simps)
qed

text \<open>The cable delivery descriptor of the NIT announces 81.92 MHz and the symbol rate 0.96576: the
  literals, meant as the decimal 310 MHz, are octal.\<close>

theorem nit_literals_are_octal:
  "map d_data (nit_descr nit_gen_context_init) =
     [[0x00, 0x81, 0x92, 0x00, 0xFF, 0xF1, 0x02, 0x00, 0x96, 0x57, 0x6F]]
   \<and> take 4 (formdescr_cable 3100000 1 0x02 274500 0xF) = [0x03, 0x10, 0x00, 0x00]"
proof -
  have "wu_bcd2hex 819200 = 0x00819200" "wu_bcd2hex 96576 = 0x00096576" "wu_bcd2hex 3100000 = 0x03100000"
    by code_simp+
  then show ?thesis by (simp add: nit_gen_context_init_def formdescr_cable_def Let_def)
qed


section \<open>The generated area\<close>

definition pkts_of :: "u8 list \<Rightarrow> u8 list list" where
  "pkts_of buf = map (\<lambda>i. take TS_PACKET_BYTES (drop (i * TS_PACKET_BYTES) buf)) [0..<length buf div TS_PACKET_BYTES]"

lemma pkts_of_concat:
  assumes "TS_PACKET_BYTES dvd length buf"
  shows "concat (pkts_of buf) = buf" "\<forall>p \<in> set (pkts_of buf). length p = TS_PACKET_BYTES"
proof -
  obtain n where n: "length buf = n * 188" using assms by (auto simp: limit_simps elim: dvdE)
  have "concat (map (\<lambda>i. take 188 (drop (i * 188) buf)) [0..<n]) = buf \<and>
      (\<forall>i < n. length (take 188 (drop (i * 188) buf)) = 188)" if "length buf = n * 188" for n and buf :: "u8 list"
    using that
  proof (induction n arbitrary: buf)
    case (Suc n)
    from Suc.IH [of "drop 188 buf"] Suc.prems
    have IH: "concat (map (\<lambda>i. take 188 (drop (i * 188) (drop 188 buf))) [0..<n]) = drop 188 buf" by simp
    have "[0..<Suc n] = 0 # map Suc [0..<n]" by (simp add: map_Suc_upt upt_conv_Cons)
    then have "concat (map (\<lambda>i. take 188 (drop (i * 188) buf)) [0..<Suc n]) = take 188 buf @ drop 188 buf"
      using IH by (simp add: o_def add.commute)
    moreover have "length (take 188 (drop (i * 188) buf)) = 188" if "i < Suc n" for i
    proof -
      have "i * 188 + 188 \<le> Suc n * 188" using that by simp
      then show ?thesis using Suc.prems by simp
    qed
    ultimately show ?case by simp
  qed simp
  from this [OF n] show "concat (pkts_of buf) = buf" "\<forall>p \<in> set (pkts_of buf). length p = TS_PACKET_BYTES"
    using n by (auto simp: pkts_of_def limit_simps)
qed

text \<open>Every buffer the encoder hands to the hook, under its type, for the numbered programs.\<close>

definition encoder_bufs :: "si_encoder \<Rightarrow> u16 list \<Rightarrow> prog_info_t list \<Rightarrow> (nat \<times> u8 list) list" where
  "encoder_bufs enc nums sel =
     map (Pair PSI_TYPE_PAT) (dvbSI_Gen_PAT enc 0x123 (map2 pat_entry nums sel))
     @ map (Pair PSI_TYPE_PMT) (concat (map2 (\<lambda>n p. dvbSI_Gen_PMT enc (pmt_head n p) (pmt_es (es_data (info p)))) nums sel))
     @ map (Pair PSI_TYPE_SDT) (dvbSI_Gen_SDT enc (sdt_data sdt_gen_context_init) (sdt_gen_context_pack
         (sdt_gen_context_init\<lparr> serv_info := map2 (\<lambda>n name. \<lparr> service_id = uint n, svc_name = name,
            svc_provider = defProviderDsw \<rparr>) nums (sent_names (replicate PROGRAM_NAME_SIZE 0) (map info sel)) \<rparr>)))
     @ map (Pair PSI_TYPE_NIT) (gen_nit_from_fp enc)"

definition bufs_of_type :: "nat \<Rightarrow> (nat \<times> u8 list) list \<Rightarrow> u8 list" where
  "bufs_of_type ty bufs = concat (map snd (filter (\<lambda>b. fst b = ty) bufs))"

lemma fill_all_append: "fill_all (xs @ ys) st = do { st \<leftarrow> fill_all xs st; fill_all ys st }"
  by (simp add: fill_all_def foldM_append)

lemma psi_gen_area_fills:
  assumes "fp_wf s" "length (pat_programs ctx) = PROGRAM_MAX_NUM" "\<forall>p \<in> set (g_prog_info_table s). name_row_ok (info p)"
    and "build_program_number_table s = Some nums"
  shows "psi_gen_area enc ctx s psi = map_option fst
    (fill_all (encoder_bufs enc nums (numbered_programs (g_prog_info_table s))) (begin_fill_output_psi_data psi))"
proof -
  have len: "length nums = length (numbered_programs (g_prog_info_table s))"
    using program_numbers_ok [of s] assms(4) by (simp add: numbers_ok_def)
  have wf: "\<forall>p \<in> set (g_prog_info_table s). info_wf (info p)" using assms(1) by (simp add: fp_wf_def)
  show ?thesis
    by (simp add: psi_gen_area_def assms(4) gen_pat_from_fp_eq [OF assms(2) len] gen_pmt_from_fp_eq [OF wf len]
        gen_sdt_from_fp_def gen_sdt_services_eq [OF assms(3) len] encoder_bufs_def write_hook_psi_def
        fill_all_append sdt_gen_context_init_def map_option_bind Let_def comp_def
        split: Option.bind_splits)
qed

lemma log_of_bufs:
  assumes "\<forall>(ty, buf) \<in> set bufs. TS_PACKET_BYTES dvd length buf"
  shows "log_bufs (map (\<lambda>(ty, buf). (ty, pkts_of buf)) bufs) = bufs"
    and "\<forall>p \<in> set (all_pkts (map (\<lambda>(ty, buf). (ty, pkts_of buf)) bufs)). length p = TS_PACKET_BYTES"
    and "concat (log_pkts ((=) ty) (map (\<lambda>(ty, buf). (ty, pkts_of buf)) bufs)) = bufs_of_type ty bufs"
    and "length (all_pkts (map (\<lambda>(ty, buf). (ty, pkts_of buf)) bufs)) = sum_list (map (\<lambda>(ty, buf). length buf div TS_PACKET_BYTES) bufs)"
proof -
  have bufs: "concat (pkts_of (snd b)) = snd b" "\<forall>p \<in> set (pkts_of (snd b)). length p = TS_PACKET_BYTES"
    if "b \<in> set bufs" for b
    using pkts_of_concat [of "snd b"] assms that by auto
  show "log_bufs (map (\<lambda>(ty, buf). (ty, pkts_of buf)) bufs) = bufs"
    using bufs(1) by (simp add: log_bufs_def case_prod_beta map_idI)
  show "\<forall>p \<in> set (all_pkts (map (\<lambda>(ty, buf). (ty, pkts_of buf)) bufs)). length p = TS_PACKET_BYTES"
    using bufs(2) by auto
  show "concat (log_pkts ((=) ty) (map (\<lambda>(ty, buf). (ty, pkts_of buf)) bufs)) = bufs_of_type ty bufs"
    using bufs(1)
    by (induction bufs) (auto simp: log_pkts_Cons bufs_of_type_def case_prod_beta)
  show "length (all_pkts (map (\<lambda>(ty, buf). (ty, pkts_of buf)) bufs)) = sum_list (map (\<lambda>(ty, buf). length buf div TS_PACKET_BYTES) bufs)"
    by (induction bufs) (auto simp: pkts_of_def)
qed





section \<open>The area filled from sections\<close>

text \<open>The sections of some rows, each with its PID and the continuity counter it starts from.\<close>

fun row_jobs :: "(u16 \<times> u8 list) list \<Rightarrow> u8 \<Rightarrow> section_job list" where
  "row_jobs [] cc = []"
| "row_jobs ((pid, row) # rows) cc =
     (let sec = take (sg_mib_xxx_len row) (drop 2 row)
      in (sec, pid, cc) # row_jobs rows (ts_cc (section_to_ts sec pid cc)))"

definition row_ok :: "u8 list \<Rightarrow> bool" where
  "row_ok row \<longleftrightarrow> 2 + sg_mib_xxx_len row \<le> length row"

definition jobs_log :: "nat \<Rightarrow> section_job list \<Rightarrow> psi_log" where
  "jobs_log ty jobs = map (\<lambda>j. (ty, job_pkts j)) jobs"

lemma fill_rows:
  assumes "\<forall>(pid, row) \<in> set rows. row_ok row"
  shows "\<exists>cc'. foldM (\<lambda>st (pid, row). fill_row ty pid row st) (st, cc) rows
    = map_option (\<lambda>st'. (st', cc')) (fill_all (log_bufs (jobs_log ty (row_jobs rows cc))) st)"
  using assms
proof (induction rows arbitrary: st cc)
  case Nil
  then show ?case by (simp add: jobs_log_def log_bufs_def fill_all_def)
next
  case (Cons r rows)
  obtain pid row where r: "r = (pid, row)" by (cases r)
  let ?sec = "take (sg_mib_xxx_len row) (drop 2 row)"
  let ?out = "section_to_ts ?sec pid cc"
  have read: "mem_read row 2 (sg_mib_xxx_len row) = Some ?sec"
    using Cons.prems r by (simp add: row_ok_def mem_read_def)
  show ?case
  proof (cases "fill_output_psi_data ty (concat (ts_pkts ?out)) st")
    case None
    then show ?thesis
      using read r by (simp add: fill_row_def jobs_log_def log_bufs_def fill_all_def job_pkts_def Let_def)
  next
    case (Some st1)
    have "\<forall>(pid, row) \<in> set rows. row_ok row" using Cons.prems by simp
    from Cons.IH [OF this, of st1 "ts_cc ?out"] obtain cc' where
      "foldM (\<lambda>st (pid, row). fill_row ty pid row st) (st1, ts_cc ?out) rows
       = map_option (\<lambda>st'. (st', cc')) (fill_all (log_bufs (jobs_log ty (row_jobs rows (ts_cc ?out)))) st1)" by blast
    with Some read r show ?thesis
      by (intro exI [of _ cc']) (simp add: fill_row_def jobs_log_def log_bufs_def fill_all_def job_pkts_def Let_def)
  qed
qed

lemma fill_rows_bind:
  assumes "\<forall>(pid, row) \<in> set rows. row_ok row"
  shows "do { (st, cc) \<leftarrow> foldM (\<lambda>st (pid, row). fill_row ty pid row st) (st, cc) rows; F st }
    = do { st \<leftarrow> fill_all (log_bufs (jobs_log ty (row_jobs rows cc))) st; F st }"
proof -
  obtain cc' where "foldM (\<lambda>st (pid, row). fill_row ty pid row st) (st, cc) rows
    = map_option (\<lambda>st'. (st', cc')) (fill_all (log_bufs (jobs_log ty (row_jobs rows cc))) st)"
    using fill_rows [OF assms, of ty st cc] by blast
  then show ?thesis by (cases "fill_all (log_bufs (jobs_log ty (row_jobs rows cc))) st") auto
qed

text \<open>The rows the request names, type by type.\<close>

definition flagged_rows :: "bool \<Rightarrow> u16 \<Rightarrow> u8 list list \<Rightarrow> (u16 \<times> u8 list) list" where
  "flagged_rows flag pid rows = (if flag then map (Pair pid) rows else [])"

definition pmt_rows :: "apply_psi_snmp_data \<Rightarrow> psi_mib \<Rightarrow> (u16 \<times> u8 list) list" where
  "pmt_rows a m = map (\<lambda>bit. (pmt_pid_table a ! bit, sg_mib_pmt m ! CHANNEL_MAX_NUM ! bit))
     (filter (wu_bitmap_test_bit (pmt_flag a)) [0..<PROGRAM_MAX_NUM])"

definition section_rows :: "apply_psi_snmp_data \<Rightarrow> psi_mib \<Rightarrow> (nat \<times> (u16 \<times> u8 list) list) list" where
  "section_rows a m = (let flag = (\<lambda>k. other_table_flag a AND push_bit k 1 \<noteq> 0) in
     [(PSI_TYPE_PAT, flagged_rows (flag PAT_FLAG_SHIFT) PAT_PID [sg_mib_pat m ! CHANNEL_MAX_NUM]),
      (PSI_TYPE_PMT, pmt_rows a m),
      (PSI_TYPE_CAT, flagged_rows (flag CAT_FLAG_SHIFT) CAT_PID [sg_mib_cat m ! CHANNEL_MAX_NUM]),
      (PSI_TYPE_SDT, flagged_rows (flag SDT_FLAG_SHIFT) SDT_PID (take SDT_SECTION_NUM (sg_mib_sdt m ! CHANNEL_MAX_NUM))),
      (PSI_TYPE_NIT, flagged_rows (flag NIT_FLAG_SHIFT) NIT_PID [sg_mib_nit m ! CHANNEL_MAX_NUM])])"

definition sections_log :: "apply_psi_snmp_data \<Rightarrow> psi_mib \<Rightarrow> psi_log" where
  "sections_log a m = concat (map (\<lambda>(ty, rows). jobs_log ty (row_jobs rows 0)) (section_rows a m))"

lemma fill_flagged_eq:
  assumes "\<forall>(pid, row) \<in> set (flagged_rows flag pid rows). row_ok row"
  shows "fill_flagged flag ty pid rows st
    = fill_all (log_bufs (jobs_log ty (row_jobs (flagged_rows flag pid rows) 0))) st"
proof (cases flag)
  case True
  have rows: "foldM (\<lambda>st row. fill_row ty pid row st) st' rows
      = foldM (\<lambda>st (pid, row). fill_row ty pid row st) st' (map (Pair pid) rows)" for st'
    by (induction rows arbitrary: st') (auto split: Option.bind_splits)
  have ok: "\<forall>(pid, row) \<in> set (map (Pair pid) rows). row_ok row"
    using assms True by (simp add: flagged_rows_def)
  from True show ?thesis
    unfolding fill_flagged_def rows flagged_rows_def by (simp only: if_True fill_rows_bind [OF ok]) simp
qed (simp add: fill_flagged_def flagged_rows_def jobs_log_def log_bufs_def fill_all_def)

lemma fill_pmt_eq:
  assumes "\<forall>(pid, row) \<in> set (pmt_rows a m). row_ok row"
  shows "do { (st, cc) \<leftarrow> foldM (\<lambda>st bit. if wu_bitmap_test_bit (pmt_flag a) bit
                then fill_row PSI_TYPE_PMT (pmt_pid_table a ! bit) (sg_mib_pmt m ! CHANNEL_MAX_NUM ! bit) st
                else Some st) (st, 0) [0..<PROGRAM_MAX_NUM]; F st }
    = do { st \<leftarrow> fill_all (log_bufs (jobs_log PSI_TYPE_PMT (row_jobs (pmt_rows a m) 0))) st; F st }"
proof -
  have flagged: "foldM (\<lambda>st bit. if P bit then fill_row ty (f bit) (g bit) st else Some st) st' bits
      = foldM (\<lambda>st (pid, row). fill_row ty pid row st) st' (map (\<lambda>bit. (f bit, g bit)) (filter P bits))"
    for P f g ty st' bits
    by (induction bits arbitrary: st') (auto split: Option.bind_splits)
  show ?thesis
    unfolding flagged by (simp only: pmt_rows_def [symmetric] fill_rows_bind [OF assms])
qed

lemma from_sections_eq:
  assumes "\<forall>(ty, rows) \<in> set (section_rows a m). \<forall>(pid, row) \<in> set rows. row_ok row"
  shows "psi_gen_output_psi_from_sections a m psi = fill_all (log_bufs (sections_log a m)) (begin_fill_output_psi_data psi)"
proof -
  have bufs: "log_bufs (xs @ ys) = log_bufs xs @ log_bufs ys" for xs ys by (simp add: log_bufs_def)
  have "\<forall>(pid, row) \<in> set (pmt_rows a m). row_ok row"
    using assms unfolding section_rows_def Let_def by simp
  note pmt = fill_pmt_eq [OF this]
  have rest: "fill_flagged flag ty pid rows = fill_all (log_bufs (jobs_log ty (row_jobs (flagged_rows flag pid rows) 0)))"
    if "(ty, flagged_rows flag pid rows) \<in> set (section_rows a m)" for flag ty pid rows
    by (rule ext, rule fill_flagged_eq) (use assms that in fastforce)
  show ?thesis
    unfolding psi_gen_output_psi_from_sections_def Let_def pmt
    by (simp add: rest section_rows_def Let_def sections_log_def bufs fill_all_append)
qed

lemma section_ts_packets: "p \<in> set (ts_pkts (section_to_ts sec pid cc)) \<Longrightarrow> length p = TS_PACKET_BYTES"
  using section_ts_loop_lengths by (simp add: section_to_ts_def case_prod_beta limit_simps)

lemma sections_log_types: "map fst (sections_log a m) = concat (map (\<lambda>(ty, rows). replicate (length rows) ty) (section_rows a m))"
proof -
  have len: "length (row_jobs rows cc) = length rows" for rows cc
    by (induction rows cc rule: row_jobs.induct) (simp_all add: Let_def)
  have "map fst (jobs_log ty (row_jobs rows 0)) = replicate (length rows) ty" for ty rows
    by (simp add: jobs_log_def comp_def map_replicate_const len)
  then show ?thesis by (simp add: sections_log_def map_concat comp_def case_prod_unfold)
qed

text \<open>The area built from the sections of an apply request holds, type after type, the packets of
  exactly the named rows, each section cut with the PID the request gives and counters that run on
  within the type; with fewer than 87 packets the directory validates.\<close>

theorem sections_fill_area:
  assumes "psi_wf psi" "\<forall>(ty, rows) \<in> set (section_rows a m). \<forall>(pid, row) \<in> set rows. row_ok row"
    and "length (all_pkts (sections_log a m)) < OUTPUT_PSI_PACKET_MAX_NUM"
  shows "\<exists>psi' n. psi_gen_output_psi_from_sections a m psi = Some (psi', n) \<and> output_psi_data_validate psi'
    \<and> (\<forall>(ty, rows) \<in> set (section_rows a m). ent_pkts psi' (psi_ents psi' ! ty)
        = Some (concat (map job_pkts (row_jobs rows 0))))"
proof -
  let ?log = "sections_log a m"
  have types: "map fst (section_rows a m) = [0, 1, 2, 3, 4]" by (simp add: section_rows_def Let_def psi_types)
  have "sorted (map fst ?log)"
    unfolding sections_log_types
    by (auto simp: section_rows_def Let_def sorted_append psi_types set_replicate_conv_if)
  moreover have "\<forall>ty \<in> set (map fst ?log). ty < OUTPUT_PSI_TYPE_MAX_NUM"
    unfolding sections_log_types by (auto simp: section_rows_def Let_def psi_types psi_sizes)
  moreover have "\<forall>p \<in> set (all_pkts ?log). length p = TS_PACKET_BYTES"
    by (auto simp: sections_log_def jobs_log_def job_pkts_def intro: section_ts_packets)
  ultimately have "log_ok ?log" by (auto simp: log_ok_def)
  from fill_log_area [OF assms(1) this assms(3)] from_sections_eq [OF assms(2), of psi]
  obtain psi' n where "psi_gen_output_psi_from_sections a m psi = Some (psi', n)" "output_psi_data_validate psi'"
    and ents: "\<forall>ty < OUTPUT_PSI_TYPE_MAX_NUM. ent_pkts psi' (psi_ents psi' ! ty) = Some (log_pkts ((=) ty) ?log)"
    by auto
  moreover have "ent_pkts psi' (psi_ents psi' ! ty) = Some (concat (map job_pkts (row_jobs rows 0)))"
    if "(ty, rows) \<in> set (section_rows a m)" for ty rows
  proof -
    have one: "log_pkts ((=) ty) (jobs_log ty' jobs) = (if ty = ty' then concat (map job_pkts jobs) else [])" for ty' jobs
      by (simp add: log_pkts_def jobs_log_def comp_def filter_map)
    have all: "log_pkts P (concat (map (\<lambda>(ty, rows). jobs_log ty (row_jobs rows 0)) rs))
        = concat (map (\<lambda>(ty, rows). log_pkts P (jobs_log ty (row_jobs rows 0))) rs)" for P rs
      by (induction rs) (auto simp: log_pkts_append)
    have "log_pkts ((=) ty) ?log = concat (map (\<lambda>(ty', rows). if ty = ty' then concat (map job_pkts (row_jobs rows 0)) else [])
        (section_rows a m))"
      unfolding sections_log_def all one by simp
    also have "\<dots> = concat (map job_pkts (row_jobs rows 0))"
      using that by (auto simp: section_rows_def Let_def psi_types)
    finally show ?thesis using ents that types by (auto simp: section_rows_def Let_def psi_types psi_sizes)
  qed
  ultimately show ?thesis by blast
qed


definition one_pmt_mib :: psi_mib where
  "one_pmt_mib = (let row = replicate 1024 0; pmt = le16 4 @ [2, 0xB0, 1, 7] @ replicate 1018 0 in
     \<lparr> sg_mib_pat = replicate 9 row, sg_mib_pmt = replicate 9 (pmt # replicate 63 row), sg_mib_cat = replicate 9 row,
       sg_mib_nit = replicate 9 row, sg_mib_sdt = replicate 9 (replicate 5 row),
       sg_mib_eit = replicate 9 (replicate 8 row) \<rparr>)"

theorem sections_fill_area_witness:
  "\<exists>psi' n. psi_gen_output_psi_from_sections
      \<lparr> magic = 0xAA55, other_table_flag = 0, pmt_flag = [1, 0, 0, 0, 0, 0, 0, 0], pmt_pid_table = replicate 64 0x100 \<rparr>
      one_pmt_mib psi_zero = Some (psi', n)
    \<and> ent_pkts psi' (psi_ents psi' ! PSI_TYPE_PMT) = Some [section_ts_packet 0x100 0 0 [2, 0xB0, 1, 7]]"
proof -
  let ?a = "\<lparr> magic = 0xAA55, other_table_flag = 0, pmt_flag = [1, 0, 0, 0, 0, 0, 0, 0], pmt_pid_table = replicate 64 0x100 \<rparr>"
  let ?row = "le16 4 @ [2, 0xB0, 1, 7] @ replicate 1018 (0 :: u8)"
  have "filter (wu_bitmap_test_bit [1, 0, 0, 0, 0, 0, 0, 0]) [0..<64] = [0]" by code_simp
  then have pmt: "pmt_rows ?a one_pmt_mib = [(0x100, ?row)]"
    by (simp add: pmt_rows_def one_pmt_mib_def Let_def limit_simps)
  have rows: "section_rows ?a one_pmt_mib = [(0, []), (1, [(0x100, ?row)]), (2, []), (3, []), (4, [])]"
    by (simp add: section_rows_def Let_def flagged_rows_def pmt psi_types)
  have len: "sg_mib_xxx_len ?row = 4"
    by (simp add: sg_mib_xxx_len_def READ_U16_def le16_def PACK_U16_def limit_simps)
  then have jobs: "row_jobs [(0x100, ?row)] 0 = [([2, 0xB0, 1, 7], 0x100, 0)]" by (simp add: le16_def)
  have pkts: "job_pkts ([2, 0xB0, 1, 7], 0x100, 0) = [section_ts_packet 0x100 0 0 [2, 0xB0, 1, 7]]"
    using section_to_ts_first [of "[2, 0xB0, 1, 7]" "0x100" 0] by (simp add: job_pkts_def)
  have "row_ok ?row" using len by (simp add: row_ok_def)
  moreover have "length (all_pkts (sections_log ?a one_pmt_mib)) < OUTPUT_PSI_PACKET_MAX_NUM"
    using jobs pkts by (simp add: sections_log_def rows jobs_log_def psi_sizes)
  moreover have "psi_wf psi_zero" by (simp add: psi_wf_def psi_zero_def)
  ultimately have "\<exists>psi' n. psi_gen_output_psi_from_sections ?a one_pmt_mib psi_zero = Some (psi', n) \<and> output_psi_data_validate psi'
    \<and> (\<forall>(ty, rows) \<in> set (section_rows ?a one_pmt_mib). ent_pkts psi' (psi_ents psi' ! ty)
        = Some (concat (map job_pkts (row_jobs rows 0))))"
    by (intro sections_fill_area) (simp_all add: rows)
  then show ?thesis using jobs pkts by (auto simp: rows psi_types)
qed

end
