(* ===== verification/PsiParse.thy ===== *)
theory PsiParse
  imports OutputPsi
begin

unbundle bit_operations_syntax

text \<open>
  Analysing the input streams for the SNMP manager (\<^verbatim>\<open>src/psi_parse.c\<close>): the raw sections of
  every channel are kept in the section arrays, with a state that says which channels are done. The
  decoder is a library outside the sources: its answers, and the status of the inputs, are the
  parameter \<open>dec\<close>.
\<close>

section \<open>The decoder\<close>

text \<open>
  Every decoding function says whether it succeeded (return value 0). The section fields give the
  bytes a call leaves in the buffers it was handed, two length bytes first; \<open>sec_SDT\<close> has one entry
  for each row, empty where the row was not written. Service descriptions are decoded from pushed
  sections: a service is its number and the bytes of its first descriptor.
\<close>

record si_decoder =
  hfpga_get_ts_status :: "nat \<Rightarrow> int"
  dvbSI_Dec_PAT :: "nat \<Rightarrow> bool \<times> (u16 \<times> u16) list"
  dvbSI_Dec_PMT :: "nat \<Rightarrow> u16 \<Rightarrow> u16 \<Rightarrow> bool \<times> u16 \<times> (u8 \<times> u16) list"
  dvbSI_Dec_SDT :: "nat \<Rightarrow> bool"
  dvbpsi_decode_sdt :: "u8 list list \<Rightarrow> (u16 \<times> u8 list) list"
  sec_PAT :: "nat \<Rightarrow> u8 list"
  sec_PMT :: "nat \<Rightarrow> u16 \<Rightarrow> u16 \<Rightarrow> u8 list"
  sec_CAT :: "nat \<Rightarrow> u8 list"
  sec_SDT :: "nat \<Rightarrow> u8 list list"
  sec_NIT :: "nat \<Rightarrow> u8 list"

section \<open>The sections for the SNMP manager\<close>

definition clear_len :: "u8 list \<Rightarrow> u8 list" where
  "clear_len row = 0 # 0 # drop 2 row"

text \<open>
  The SDT index is \<^verbatim>\<open>SDT_SECTION_NUM\<close> in every turn of the loop: the row after the last one of the
  channel, which is the first of the next channel.
\<close>

definition clear_channel_section_data :: "psi_mib \<Rightarrow> nat \<Rightarrow> psi_mib" where
  "clear_channel_section_data m c =
     m\<lparr> sg_mib_pat := (sg_mib_pat m)[c := clear_len (sg_mib_pat m ! c)],
        sg_mib_sdt := (sg_mib_sdt m)[c + 1 := (sg_mib_sdt m ! (c + 1))[0 := clear_len (sg_mib_sdt m ! (c + 1) ! 0)]],
        sg_mib_cat := (sg_mib_cat m)[c := clear_len (sg_mib_cat m ! c)],
        sg_mib_nit := (sg_mib_nit m)[c := clear_len (sg_mib_nit m ! c)],
        sg_mib_pmt := (sg_mib_pmt m)[c := map clear_len (sg_mib_pmt m ! c)],
        sg_mib_eit := (sg_mib_eit m)[c := (sg_mib_eit m ! c)[0 := clear_len (sg_mib_eit m ! c ! 0)]] \<rparr>"

record uv_cha_si_stat =
  ch_s :: u8
  tbl_s :: "u8 list list"

record psi_parse_state =
  mib :: psi_mib
  All_Channel_Psi_Status :: uv_cha_si_stat
  had_nit :: bool
  request_stop_parse :: bool
  snmp_connection_check :: bool

definition clear_section_data :: "psi_parse_state \<Rightarrow> psi_parse_state" where
  "clear_section_data st =
     st\<lparr> All_Channel_Psi_Status := \<lparr> ch_s = 0, tbl_s = replicate 8 (replicate (1 + PROGRAM_MAX_NUM div 8) 0) \<rparr>,
         mib := foldl clear_channel_section_data (mib st) [0..<CHANNEL_MAX_NUM] \<rparr>"

definition channel_done :: "nat \<Rightarrow> psi_parse_state \<Rightarrow> psi_parse_state" where
  "channel_done k st =
     st\<lparr> All_Channel_Psi_Status := (All_Channel_Psi_Status st)\<lparr>
       ch_s := ch_s (All_Channel_Psi_Status st) OR push_bit k 0x01 \<rparr> \<rparr>"

definition put_row :: "u8 list list \<Rightarrow> nat \<Rightarrow> u8 list \<Rightarrow> u8 list list option" where
  "put_row rows k bs =
     (if length rows \<le> k then None else do { row \<leftarrow> mem_write (rows ! k) 0 bs; Some (rows[k := row]) })"

text \<open>The PMTs: state bits for the sections that came, copied to the channel's status.\<close>

fun parse_pmt_loop ::
  "si_decoder \<Rightarrow> nat \<Rightarrow> (u16 \<times> u16) list \<Rightarrow> nat \<times> u8 list \<times> psi_parse_state \<Rightarrow> (nat \<times> u8 list \<times> psi_parse_state) option" where
  "parse_pmt_loop dec c [] st = Some st"
| "parse_pmt_loop dec c ((pg, pid) # pat) (cnt, pmt_state, st) =
     (if pg = 0x00 then parse_pmt_loop dec c pat (cnt, pmt_state, st\<lparr> had_nit := True \<rparr>)
      else if \<not> fst (dvbSI_Dec_PMT dec c pg pid) then parse_pmt_loop dec c pat (cnt, pmt_state, st)
      else do {
        sg_mib_curpmt \<leftarrow> mem_write (replicate SECTION_MAX_SIZE 0) 0 (sec_PMT dec c pg pid);
        let n = unat (READ_U16 sg_mib_curpmt);
        if n > 0
        then do {
          bs \<leftarrow> mem_read sg_mib_curpmt 0 (n + 2);
          rows \<leftarrow> put_row (sg_mib_pmt (mib st) ! c) cnt bs;
          parse_pmt_loop dec c pat (cnt + 1, wu_bitmap_set_bit cnt pmt_state,
            st\<lparr> mib := (mib st)\<lparr> sg_mib_pmt := (sg_mib_pmt (mib st))[c := rows] \<rparr> \<rparr>)
        }
        else parse_pmt_loop dec c pat (cnt + 1, pmt_state, st)
      })"

definition parse_pmt :: "si_decoder \<Rightarrow> nat \<Rightarrow> (u16 \<times> u16) list \<Rightarrow> psi_parse_state \<Rightarrow> psi_parse_state option" where
  "parse_pmt dec c pat st =
     do {
       (cnt, pmt_state, st) \<leftarrow> parse_pmt_loop dec c pat (0, replicate (PROGRAM_MAX_NUM div 8) 0, st\<lparr> had_nit := False \<rparr>);
       let stat = All_Channel_Psi_Status st;
       Some (st\<lparr> All_Channel_Psi_Status := stat\<lparr>
         tbl_s := (tbl_s stat)[c := (tbl_s stat ! c ! 0) # pmt_state] \<rparr> \<rparr>)
     }"

definition parse_sdt :: "si_decoder \<Rightarrow> nat \<Rightarrow> psi_mib \<Rightarrow> psi_mib option" where
  "parse_sdt dec c m =
     do {
       rows \<leftarrow> foldM (\<lambda>rows (i, bs). put_row rows i bs) (sg_mib_sdt m ! c) (enumerate 0 (sec_SDT dec c));
       Some (m\<lparr> sg_mib_sdt := (sg_mib_sdt m)[c := rows] \<rparr>)
     }"

definition parse_tables :: "si_decoder \<Rightarrow> nat \<Rightarrow> psi_parse_state \<Rightarrow> psi_parse_state option" where
  "parse_tables dec c st =
     do {
       t \<leftarrow> put_row (sg_mib_pat (mib st)) c (sec_PAT dec c);
       let st = st\<lparr> mib := (mib st)\<lparr> sg_mib_pat := t \<rparr> \<rparr>;
       let (ok, pat) = dvbSI_Dec_PAT dec c;
       if \<not> ok then Some st
       else do {
         st \<leftarrow> parse_pmt dec c pat st;
         t \<leftarrow> put_row (sg_mib_cat (mib st)) c (sec_CAT dec c);
         let st = st\<lparr> mib := (mib st)\<lparr> sg_mib_cat := t \<rparr> \<rparr>;
         m \<leftarrow> parse_sdt dec c (mib st);
         let st = st\<lparr> mib := m \<rparr>;
         if \<not> had_nit st then Some st
         else do {
           t \<leftarrow> put_row (sg_mib_nit (mib st)) c (sec_NIT dec c);
           Some (st\<lparr> mib := (mib st)\<lparr> sg_mib_nit := t \<rparr> \<rparr>)
         }
       }
     }"

text \<open>
  \<open>stop k\<close> says whether a stop was requested when channel \<open>k\<close> is reached; the channels
  left are marked done.
\<close>

fun parse_channels :: "si_decoder \<Rightarrow> (nat \<Rightarrow> bool) \<Rightarrow> nat list \<Rightarrow> psi_parse_state \<Rightarrow> psi_parse_state option" where
  "parse_channels dec stop [] st = Some st"
| "parse_channels dec stop (k # ks) st =
     (if request_stop_parse st \<or> stop k then Some (foldl (\<lambda>st k. channel_done k st) st (k # ks))
      else if hfpga_get_ts_status dec k \<le> 0 then parse_channels dec stop ks (channel_done k st)
      else do { st \<leftarrow> parse_tables dec k st; parse_channels dec stop ks (channel_done k st) })"

definition uvSI_psi_parse :: "si_decoder \<Rightarrow> (nat \<Rightarrow> bool) \<Rightarrow> psi_parse_state \<Rightarrow> psi_parse_state option" where
  "uvSI_psi_parse dec stop st =
     do {
       st \<leftarrow> parse_channels dec stop [0..<CHANNEL_MAX_NUM] (clear_section_data (st\<lparr> snmp_connection_check := False \<rparr>));
       Some (st\<lparr> request_stop_parse := False, snmp_connection_check := True \<rparr>)
     }"

definition uvSI_psi_parse_stop :: "psi_parse_state \<Rightarrow> psi_parse_state" where
  "uvSI_psi_parse_stop st = st\<lparr> request_stop_parse := True \<rparr>"

text \<open>
  The service descriptions for the board: the rows up to the first empty one are pushed into the
  decoder. \<open>None\<close> in the result is the error return.
\<close>

fun pushed_sections :: "u8 list list \<Rightarrow> u8 list list option" where
  "pushed_sections [] = Some []"
| "pushed_sections (row # rows) =
     (let n = unat (READ_U16 row)
      in if n = 0 then Some []
         else do { sec \<leftarrow> mem_read row 2 n; secs \<leftarrow> pushed_sections rows; Some (sec # secs) })"

definition parse_sdt_section_and_decode ::
  "si_decoder \<Rightarrow> nat \<Rightarrow> psi_mib \<Rightarrow> (psi_mib \<times> (u16 \<times> u8 list) list option) option" where
  "parse_sdt_section_and_decode dec c m =
     do {
       m \<leftarrow> parse_sdt dec c m;
       if \<not> dvbSI_Dec_SDT dec c then Some (m, None)
       else do {
         secs \<leftarrow> pushed_sections (sg_mib_sdt m ! c);
         Some (m, Some (dvbpsi_decode_sdt dec secs))
       }
     }"

section \<open>The parse timer\<close>

record psi_timer =
  psi_parse_timeouted :: bool
  alarm_pending :: "nat option"

definition psi_parse_timer_is_timeouted :: "psi_parse_state \<Rightarrow> psi_timer \<Rightarrow> bool" where
  "psi_parse_timer_is_timeouted st t = (if request_stop_parse st then True else psi_parse_timeouted t)"

definition psi_parse_timer_start :: "nat \<Rightarrow> psi_timer \<Rightarrow> psi_timer" where
  "psi_parse_timer_start timeout_sec t = t\<lparr> psi_parse_timeouted := False, alarm_pending := Some timeout_sec \<rparr>"

definition sig_alarm :: "psi_timer \<Rightarrow> psi_timer" where
  "sig_alarm t = t\<lparr> psi_parse_timeouted := True, alarm_pending := None \<rparr>"

definition psi_parse_timer_stop :: "psi_timer \<Rightarrow> psi_timer" where
  "psi_parse_timer_stop t = t\<lparr> alarm_pending := None, psi_parse_timeouted := False \<rparr>"

section \<open>Rows\<close>

definition section_rows :: "nat \<Rightarrow> u8 list list \<Rightarrow> bool" where
  "section_rows n rows \<longleftrightarrow> length rows = n \<and> list_all section_row rows"

text \<open>What the decoder leaves in a buffer: nothing, or a section that fits behind its length.\<close>

definition section_bytes :: "u8 list \<Rightarrow> bool" where
  "section_bytes bs \<longleftrightarrow> bs = [] \<or> length bs \<le> SECTION_MAX_SIZE \<and> unat (READ_U16 bs) + 2 \<le> length bs"

lemma section_bytes_length: "section_bytes bs \<Longrightarrow> length bs \<le> SECTION_MAX_SIZE"
  by (auto simp: section_bytes_def)

lemma put_row_rows:
  assumes "section_rows n rows" "k < n" "section_bytes bs"
  shows "\<exists>rows'. put_row rows k bs = Some rows' \<and> section_rows n rows'"
proof -
  have "length (rows ! k) = SECTION_MAX_SIZE"
    using assms by (auto simp: section_rows_def list_all_length section_row_def)
  with section_bytes_length [OF assms(3)] assms(1,2) show ?thesis
    by (auto simp: put_row_def mem_write_def section_rows_def section_row_def list_all_length nth_list_update)
qed

lemma put_rows:
  assumes "section_rows n rows" "k + length bss \<le> n" "\<forall>bs \<in> set bss. section_bytes bs"
  shows "\<exists>rows'. foldM (\<lambda>rows (i, bs). put_row rows i bs) rows (enumerate k bss) = Some rows' \<and> section_rows n rows'"
proof (rule foldM_total [where P = "section_rows n", OF assms(1)])
  fix rows x
  assume "x \<in> set (enumerate k bss)" and rows: "section_rows n rows"
  define i where "i = fst x - k"
  with \<open>x \<in> _\<close> have "x = (k + i, bss ! i)" "i < length bss" by (auto simp: in_set_enumerate_eq prod_eq_iff)
  with put_row_rows [OF rows, of "k + i" "bss ! i"] assms(2,3)
  show "\<exists>t. (case x of (i, bs) \<Rightarrow> put_row rows i bs) = Some t \<and> section_rows n t" by simp
qed

lemma mib_wf_rows:
  assumes "mib_wf m"
  shows "section_rows (CHANNEL_MAX_NUM + 1) (sg_mib_pat m)" "section_rows (CHANNEL_MAX_NUM + 1) (sg_mib_cat m)"
    "section_rows (CHANNEL_MAX_NUM + 1) (sg_mib_nit m)"
    "c \<le> CHANNEL_MAX_NUM \<Longrightarrow> section_rows PROGRAM_MAX_NUM (sg_mib_pmt m ! c)"
    "c \<le> CHANNEL_MAX_NUM \<Longrightarrow> section_rows SDT_SECTION_NUM (sg_mib_sdt m ! c)"
    "c \<le> CHANNEL_MAX_NUM \<Longrightarrow> section_rows EIT_SECTION_NUM (sg_mib_eit m ! c)"
  using assms by (auto simp: mib_wf_def section_rows_def)

lemma mib_wf_update:
  assumes "mib_wf m"
  shows "section_rows (CHANNEL_MAX_NUM + 1) t \<Longrightarrow> mib_wf (m\<lparr> sg_mib_pat := t \<rparr>)"
    "section_rows (CHANNEL_MAX_NUM + 1) t \<Longrightarrow> mib_wf (m\<lparr> sg_mib_cat := t \<rparr>)"
    "section_rows (CHANNEL_MAX_NUM + 1) t \<Longrightarrow> mib_wf (m\<lparr> sg_mib_nit := t \<rparr>)"
    "section_rows PROGRAM_MAX_NUM rows \<Longrightarrow> mib_wf (m\<lparr> sg_mib_pmt := (sg_mib_pmt m)[c := rows] \<rparr>)"
    "section_rows SDT_SECTION_NUM rows \<Longrightarrow> mib_wf (m\<lparr> sg_mib_sdt := (sg_mib_sdt m)[c := rows] \<rparr>)"
    "section_rows EIT_SECTION_NUM rows \<Longrightarrow> mib_wf (m\<lparr> sg_mib_eit := (sg_mib_eit m)[c := rows] \<rparr>)"
  using assms
  by (auto simp: mib_wf_def section_rows_def dest!: set_update_subset_insert [THEN subsetD])

lemma clear_len_row: "section_row row \<Longrightarrow> section_row (clear_len row)"
  by (simp add: section_row_def clear_len_def SECTION_MAX_SIZE_def)

lemma clear_len_rows:
  "section_rows n rows \<Longrightarrow> i < n \<Longrightarrow> section_rows n (rows[i := clear_len (rows ! i)])"
  "section_rows n rows \<Longrightarrow> section_rows n (map clear_len rows)"
  by (auto simp: section_rows_def list_all_length nth_list_update clear_len_row)

lemma clear_channel_wf:
  assumes "mib_wf m" "c < CHANNEL_MAX_NUM"
  shows "mib_wf (clear_channel_section_data m c)"
proof -
  have le: "c < CHANNEL_MAX_NUM + 1" "c \<le> CHANNEL_MAX_NUM" "c + 1 \<le> CHANNEL_MAX_NUM"
    "0 < SDT_SECTION_NUM" "0 < EIT_SECTION_NUM"
    using assms(2) by (simp_all add: SDT_SECTION_NUM_def EIT_SECTION_NUM_def)
  note rows = mib_wf_rows [OF assms(1)]
  note h1 = mib_wf_update(1) [OF assms(1) clear_len_rows(1) [OF rows(1) le(1)]]
  note h2 = mib_wf_update(5) [OF h1 clear_len_rows(1) [OF rows(5) [OF le(3)] le(4)], of "c + 1"]
  note h3 = mib_wf_update(2) [OF h2 clear_len_rows(1) [OF rows(2) le(1)]]
  note h4 = mib_wf_update(3) [OF h3 clear_len_rows(1) [OF rows(3) le(1)]]
  note h5 = mib_wf_update(4) [OF h4 clear_len_rows(2) [OF rows(4) [OF le(2)]], of c]
  from mib_wf_update(6) [OF h5 clear_len_rows(1) [OF rows(6) [OF le(2)] le(5)], of c]
  show ?thesis by (simp add: clear_channel_section_data_def)
qed

lemma foldl_keeps: "(\<And>x s. x \<in> set xs \<Longrightarrow> P s \<Longrightarrow> P (f s x)) \<Longrightarrow> P s \<Longrightarrow> P (foldl f s xs)"
  by (induction xs arbitrary: s) auto

lemma clear_section_wf: "mib_wf (mib st) \<Longrightarrow> mib_wf (mib (clear_section_data st))"
  by (simp add: clear_section_data_def, rule foldl_keeps [where P = mib_wf])
     (simp_all add: clear_channel_wf)

section \<open>The analysis ends\<close>

definition decoder_fits :: "si_decoder \<Rightarrow> nat \<Rightarrow> bool" where
  "decoder_fits dec c \<longleftrightarrow>
     section_bytes (sec_PAT dec c) \<and> section_bytes (sec_CAT dec c) \<and> section_bytes (sec_NIT dec c)
     \<and> length (sec_SDT dec c) \<le> SDT_SECTION_NUM \<and> (\<forall>bs \<in> set (sec_SDT dec c). section_bytes bs)
     \<and> (\<forall>pg pid. section_bytes (sec_PMT dec c pg pid))
     \<and> length (filter (\<lambda>(pg, pid). pg \<noteq> 0) (snd (dvbSI_Dec_PAT dec c))) \<le> PROGRAM_MAX_NUM"

text \<open>A status bit of a PMT is set only when its row holds a section.\<close>

definition bits_ok :: "u8 list \<Rightarrow> u8 list list \<Rightarrow> bool" where
  "bits_ok bm rows \<longleftrightarrow> length bm = PROGRAM_MAX_NUM div 8
     \<and> (\<forall>i < PROGRAM_MAX_NUM. wu_bitmap_test_bit bm i \<longrightarrow> READ_U16 (rows ! i) \<noteq> 0)"

definition parse_inv :: "psi_parse_state \<Rightarrow> bool" where
  "parse_inv st \<longleftrightarrow> mib_wf (mib st) \<and> length (tbl_s (All_Channel_Psi_Status st)) = 8
     \<and> (\<forall>c < 8. bits_ok (tl (tbl_s (All_Channel_Psi_Status st) ! c)) (sg_mib_pmt (mib st) ! c))"

text \<open>What an operation leaves alone: everything but the rows and the table states.\<close>

definition keeps_control :: "psi_parse_state \<Rightarrow> psi_parse_state \<Rightarrow> bool" where
  "keeps_control st st' \<longleftrightarrow> ch_s (All_Channel_Psi_Status st') = ch_s (All_Channel_Psi_Status st)
     \<and> request_stop_parse st' = request_stop_parse st \<and> snmp_connection_check st' = snmp_connection_check st"

lemma keeps_control_trans: "keeps_control a b \<Longrightarrow> keeps_control b c \<Longrightarrow> keeps_control a c"
  by (simp add: keeps_control_def)

lemma bits_ok_zero: "bits_ok (replicate 8 0) rows"
  by (auto simp: bits_ok_def limit_simps wu_bitmap_test_bit less_mult_imp_div_less)

lemma bits_ok_set:
  assumes "bits_ok bm rows" "section_rows PROGRAM_MAX_NUM rows" "READ_U16 row \<noteq> 0"
  shows "bits_ok bm (rows[k := row])" "k < PROGRAM_MAX_NUM \<Longrightarrow> bits_ok (wu_bitmap_set_bit k bm) (rows[k := row])"
proof -
  show 1: "bits_ok bm (rows[k := row])"
    using assms
    by (cases "k < length rows") (auto simp: bits_ok_def section_rows_def nth_list_update list_update_beyond)
  assume k: "k < PROGRAM_MAX_NUM"
  then have "bitmap_holds bm k"
    using assms(1) by (simp add: bits_ok_def bitmap_holds_def limit_simps less_mult_imp_div_less)
  from bitmap.test_set [OF this] 1 k assms show "bits_ok (wu_bitmap_set_bit k bm) (rows[k := row])"
    by (auto simp: bits_ok_def section_rows_def nth_list_update wu_bitmap_set_bit_def)
qed

lemma curpmt_row:
  assumes "section_bytes sec"
  obtains cur where "mem_write (replicate SECTION_MAX_SIZE 0) 0 sec = Some cur"
    "length cur = SECTION_MAX_SIZE" "unat (READ_U16 cur) + 2 \<le> SECTION_MAX_SIZE"
proof
  let ?cur = "sec @ replicate (SECTION_MAX_SIZE - length sec) 0"
  note len = section_bytes_length [OF assms]
  show "mem_write (replicate SECTION_MAX_SIZE 0) 0 sec = Some ?cur" "length ?cur = SECTION_MAX_SIZE"
    using len by (simp_all add: mem_write_def)
  show "unat (READ_U16 ?cur) + 2 \<le> SECTION_MAX_SIZE"
  proof (cases "sec = []")
    case True
    then show ?thesis by (simp add: READ_U16_def PACK_U16_def SECTION_MAX_SIZE_def)
  next
    case False
    with assms have "unat (READ_U16 sec) + 2 \<le> length sec" by (simp add: section_bytes_def)
    moreover from this have "READ_U16 ?cur = READ_U16 sec"
      by (cases sec; cases "tl sec") (simp_all add: READ_U16_def nth_append)
    ultimately show ?thesis using len by simp
  qed
qed

lemma parse_pmt_loop_ok:
  assumes "parse_inv st" "bits_ok bm (sg_mib_pmt (mib st) ! c)" "c < CHANNEL_MAX_NUM" "decoder_fits dec c"
    and "cnt + length (filter (\<lambda>(pg, pid). pg \<noteq> 0) pat) \<le> PROGRAM_MAX_NUM"
  shows "\<exists>cnt' bm' st'. parse_pmt_loop dec c pat (cnt, bm, st) = Some (cnt', bm', st')
    \<and> parse_inv st' \<and> bits_ok bm' (sg_mib_pmt (mib st') ! c) \<and> keeps_control st st'"
  using assms(1,2,5)
proof (induction pat arbitrary: cnt bm st)
  case Nil
  then show ?case by (simp add: keeps_control_def)
next
  case (Cons e pat)
  obtain pg pid where e: "e = (pg, pid)" by (cases e)
  let ?sec = "sec_PMT dec c pg pid"
  show ?case
  proof (cases "pg = 0")
    case True
    from Cons.prems have "parse_inv (st\<lparr> had_nit := True \<rparr>)" by (simp add: parse_inv_def)
    from Cons.IH [OF this] Cons.prems e True show ?thesis by (simp add: keeps_control_def)
  next
    case False
    from assms(4) have "section_bytes ?sec" by (simp add: decoder_fits_def)
    then obtain cur where cur: "mem_write (replicate SECTION_MAX_SIZE 0) 0 ?sec = Some cur"
      "length cur = SECTION_MAX_SIZE" "unat (READ_U16 cur) + 2 \<le> SECTION_MAX_SIZE" by (rule curpmt_row)
    consider (skip) "\<not> fst (dvbSI_Dec_PMT dec c pg pid)" | (empty) "fst (dvbSI_Dec_PMT dec c pg pid)" "unat (READ_U16 cur) = 0"
      | (row) "fst (dvbSI_Dec_PMT dec c pg pid)" "unat (READ_U16 cur) > 0" by auto
    then show ?thesis
    proof cases
      case skip
      then show ?thesis using Cons e False by simp
    next
      case empty
      then show ?thesis using Cons.IH [OF Cons.prems(1,2), of "cnt + 1"] Cons.prems(3) e False cur(1) by simp
    next
      case row
      let ?bs = "take (unat (READ_U16 cur) + 2) cur"
      let ?rows = "sg_mib_pmt (mib st) ! c"
      have cnt: "cnt < PROGRAM_MAX_NUM" using Cons.prems(3) e False by simp
      have wf: "mib_wf (mib st)" using Cons.prems(1) by (simp add: parse_inv_def)
      have rows: "section_rows PROGRAM_MAX_NUM ?rows" using mib_wf_rows(4) [OF wf, of c] assms(3) by simp
      have read: "mem_read cur 0 (unat (READ_U16 cur) + 2) = Some ?bs" using cur by (simp add: mem_read_def)
      have bs: "READ_U16 (?bs @ ys) = READ_U16 cur" for ys
        using cur(2,3) by (cases cur; cases "tl cur") (simp_all add: READ_U16_def)
      obtain new where new: "put_row ?rows cnt ?bs = Some new" "section_rows PROGRAM_MAX_NUM new"
        using put_row_rows [OF rows cnt, of ?bs] cur(2,3) bs [of "[]"] by (auto simp: section_bytes_def)
      then obtain row' where row': "new = ?rows[cnt := row']" "READ_U16 row' \<noteq> 0"
        using bs row(2) cnt rows by (auto simp: put_row_def bind_Some_iff mem_write_def section_rows_def
            unat_gt_0 split: if_splits)
      define st1 where "st1 = st\<lparr> mib := (mib st)\<lparr> sg_mib_pmt := (sg_mib_pmt (mib st))[c := new] \<rparr> \<rparr>"
      have c: "c < length (sg_mib_pmt (mib st))" using wf assms(3) by (simp add: mib_wf_def)
      have "parse_inv st1"
        using Cons.prems(1) mib_wf_update(4) [OF wf new(2), of c] bits_ok_set(1) [OF _ rows row'(2)] c
        by (auto simp: parse_inv_def st1_def row'(1) nth_list_update)
      moreover have "bits_ok (wu_bitmap_set_bit cnt bm) (sg_mib_pmt (mib st1) ! c)"
        using bits_ok_set(2) [OF Cons.prems(2) rows row'(2) cnt] c by (simp add: st1_def row'(1))
      moreover have "keeps_control st st1" by (simp add: keeps_control_def st1_def)
      ultimately show ?thesis
        using Cons.IH [of st1 "wu_bitmap_set_bit cnt bm" "cnt + 1"] Cons.prems(3) e False cur(1) row read new(1)
        by (auto simp: Let_def st1_def intro: keeps_control_trans)
    qed
  qed
qed

lemma parse_pmt_ok:
  assumes "parse_inv st" "c < CHANNEL_MAX_NUM" "decoder_fits dec c" "snd (dvbSI_Dec_PAT dec c) = pat"
  shows "\<exists>st'. parse_pmt dec c pat st = Some st' \<and> parse_inv st' \<and> keeps_control st st'"
proof -
  have "parse_inv (st\<lparr> had_nit := False \<rparr>)" using assms(1) by (simp add: parse_inv_def)
  moreover have "0 + length (filter (\<lambda>(pg, pid). pg \<noteq> 0) pat) \<le> PROGRAM_MAX_NUM"
    using assms(3,4) by (simp add: decoder_fits_def)
  ultimately obtain cnt bm st1 where st1:
    "parse_pmt_loop dec c pat (0, replicate (PROGRAM_MAX_NUM div 8) 0, st\<lparr> had_nit := False \<rparr>) = Some (cnt, bm, st1)"
    "parse_inv st1" "bits_ok bm (sg_mib_pmt (mib st1) ! c)" "keeps_control (st\<lparr> had_nit := False \<rparr>) st1"
    using parse_pmt_loop_ok [of "st\<lparr> had_nit := False \<rparr>" "replicate (PROGRAM_MAX_NUM div 8) 0" c dec 0 pat]
      assms(2,3) bits_ok_zero by (auto simp: limit_simps)
  have "c < length (tbl_s (All_Channel_Psi_Status st1))"
    using st1(2) assms(2) by (simp add: parse_inv_def limit_simps)
  with st1 show ?thesis
    by (auto simp: parse_pmt_def Let_def parse_inv_def keeps_control_def nth_list_update)
qed

lemma parse_sdt_ok:
  assumes "mib_wf m" "c < CHANNEL_MAX_NUM" "decoder_fits dec c"
  shows "\<exists>m'. parse_sdt dec c m = Some m' \<and> mib_wf m' \<and> sg_mib_pmt m' = sg_mib_pmt m"
proof -
  have "section_rows SDT_SECTION_NUM (sg_mib_sdt m ! c)" using mib_wf_rows(5) [OF assms(1), of c] assms(2) by simp
  then obtain rows where
    "foldM (\<lambda>rows (i, bs). put_row rows i bs) (sg_mib_sdt m ! c) (enumerate 0 (sec_SDT dec c)) = Some rows"
    "section_rows SDT_SECTION_NUM rows"
    using put_rows [of SDT_SECTION_NUM "sg_mib_sdt m ! c" 0 "sec_SDT dec c"] assms(3) by (auto simp: decoder_fits_def)
  with mib_wf_update(5) [OF assms(1)] show ?thesis by (auto simp: parse_sdt_def)
qed

text \<open>A table of one row for each channel.\<close>

lemma put_table:
  assumes "mib_wf m" "c < CHANNEL_MAX_NUM" "decoder_fits dec c"
  shows "\<exists>t. put_row (sg_mib_pat m) c (sec_PAT dec c) = Some t \<and> mib_wf (m\<lparr> sg_mib_pat := t \<rparr>)"
    "\<exists>t. put_row (sg_mib_cat m) c (sec_CAT dec c) = Some t \<and> mib_wf (m\<lparr> sg_mib_cat := t \<rparr>)"
    "\<exists>t. put_row (sg_mib_nit m) c (sec_NIT dec c) = Some t \<and> mib_wf (m\<lparr> sg_mib_nit := t \<rparr>)"
proof -
  have c: "c < CHANNEL_MAX_NUM + 1" using assms(2) by simp
  have secs: "section_bytes (sec_PAT dec c)" "section_bytes (sec_CAT dec c)" "section_bytes (sec_NIT dec c)"
    using assms(3) by (simp_all add: decoder_fits_def)
  show "\<exists>t. put_row (sg_mib_pat m) c (sec_PAT dec c) = Some t \<and> mib_wf (m\<lparr> sg_mib_pat := t \<rparr>)"
    using put_row_rows [OF mib_wf_rows(1) [OF assms(1)] c secs(1)] mib_wf_update(1) [OF assms(1)] by blast
  show "\<exists>t. put_row (sg_mib_cat m) c (sec_CAT dec c) = Some t \<and> mib_wf (m\<lparr> sg_mib_cat := t \<rparr>)"
    using put_row_rows [OF mib_wf_rows(2) [OF assms(1)] c secs(2)] mib_wf_update(2) [OF assms(1)] by blast
  show "\<exists>t. put_row (sg_mib_nit m) c (sec_NIT dec c) = Some t \<and> mib_wf (m\<lparr> sg_mib_nit := t \<rparr>)"
    using put_row_rows [OF mib_wf_rows(3) [OF assms(1)] c secs(3)] mib_wf_update(3) [OF assms(1)] by blast
qed

lemma parse_inv_mib:
  "parse_inv st \<Longrightarrow> mib_wf m \<Longrightarrow> sg_mib_pmt m = sg_mib_pmt (mib st) \<Longrightarrow> parse_inv (st\<lparr> mib := m \<rparr>)"
  by (simp add: parse_inv_def)

lemma parse_inv_wf: "parse_inv st \<Longrightarrow> mib_wf (mib st)"
  by (simp add: parse_inv_def)

lemma parse_tables_ok:
  assumes "parse_inv st" "c < CHANNEL_MAX_NUM" "decoder_fits dec c"
  shows "\<exists>st'. parse_tables dec c st = Some st' \<and> parse_inv st' \<and> keeps_control st st'"
proof -
  obtain t1 where t1: "put_row (sg_mib_pat (mib st)) c (sec_PAT dec c) = Some t1"
    "mib_wf ((mib st)\<lparr> sg_mib_pat := t1 \<rparr>)"
    using put_table(1) [OF parse_inv_wf [OF assms(1)] assms(2,3)] by blast
  define st1 where "st1 = st\<lparr> mib := (mib st)\<lparr> sg_mib_pat := t1 \<rparr> \<rparr>"
  have inv1: "parse_inv st1" using parse_inv_mib [OF assms(1) t1(2)] by (simp add: st1_def)
  obtain ok pat where pat: "dvbSI_Dec_PAT dec c = (ok, pat)" by fastforce
  obtain st2 where st2: "parse_pmt dec c pat st1 = Some st2" "parse_inv st2" "keeps_control st1 st2"
    using parse_pmt_ok [OF inv1 assms(2,3)] pat by auto
  obtain t3 where t3: "put_row (sg_mib_cat (mib st2)) c (sec_CAT dec c) = Some t3"
    "mib_wf ((mib st2)\<lparr> sg_mib_cat := t3 \<rparr>)"
    using put_table(2) [OF parse_inv_wf [OF st2(2)] assms(2,3)] by blast
  obtain m4 where m4: "parse_sdt dec c ((mib st2)\<lparr> sg_mib_cat := t3 \<rparr>) = Some m4" "mib_wf m4"
    "sg_mib_pmt m4 = sg_mib_pmt (mib st2)"
    using parse_sdt_ok [OF t3(2) assms(2,3)] by auto
  have inv4: "parse_inv (st2\<lparr> mib := m4 \<rparr>)" by (rule parse_inv_mib [OF st2(2) m4(2,3)])
  obtain t5 where t5: "put_row (sg_mib_nit m4) c (sec_NIT dec c) = Some t5" "mib_wf (m4\<lparr> sg_mib_nit := t5 \<rparr>)"
    using put_table(3) [OF m4(2) assms(2,3)] by blast
  have inv5: "parse_inv (st2\<lparr> mib := m4\<lparr> sg_mib_nit := t5 \<rparr> \<rparr>)"
    by (rule parse_inv_mib [OF st2(2) t5(2)]) (simp add: m4(3))
  show ?thesis
    using t1(1) pat st2(1,3) t3(1) m4(1) inv1 inv4 t5(1) inv5
    by (auto simp: parse_tables_def Let_def st1_def keeps_control_def)
qed

definition mark_done :: "u8 \<Rightarrow> nat \<Rightarrow> u8" where
  "mark_done b k = b OR push_bit k 0x01"

lemma channel_done_simps:
  "parse_inv st \<Longrightarrow> parse_inv (channel_done k st)"
  "ch_s (All_Channel_Psi_Status (channel_done k st)) = mark_done (ch_s (All_Channel_Psi_Status st)) k"
  "request_stop_parse (channel_done k st) = request_stop_parse st"
  "snmp_connection_check (channel_done k st) = snmp_connection_check st"
  by (simp_all add: channel_done_def parse_inv_def mark_done_def)

lemma channels_left:
  "parse_inv st \<Longrightarrow> parse_inv (foldl (\<lambda>st k. channel_done k st) st ks)
     \<and> ch_s (All_Channel_Psi_Status (foldl (\<lambda>st k. channel_done k st) st ks))
         = foldl mark_done (ch_s (All_Channel_Psi_Status st)) ks"
  by (induction ks arbitrary: st) (simp_all add: channel_done_simps)

lemma parse_channels_ok:
  assumes "parse_inv st" "set ks \<subseteq> {0..<CHANNEL_MAX_NUM}" "\<forall>c < CHANNEL_MAX_NUM. decoder_fits dec c"
  shows "\<exists>st'. parse_channels dec stop ks st = Some st' \<and> parse_inv st'
    \<and> ch_s (All_Channel_Psi_Status st') = foldl mark_done (ch_s (All_Channel_Psi_Status st)) ks"
  using assms(1,2)
proof (induction ks arbitrary: st)
  case (Cons k ks)
  obtain st1 where st1: "parse_tables dec k st = Some st1" "parse_inv st1" "keeps_control st st1"
    using parse_tables_ok [OF Cons.prems(1), of k dec] Cons.prems(2) assms(3) by auto
  show ?case
    using Cons.IH [OF channel_done_simps(1) [OF st1(2), of k]] Cons.IH [OF channel_done_simps(1) [OF Cons.prems(1), of k]]
      st1(1,3) Cons.prems(2) channels_left [OF Cons.prems(1), of "k # ks"]
    by (auto simp: channel_done_simps keeps_control_def)
qed simp

lemma parse_inv_clear: "mib_wf (mib st) \<Longrightarrow> parse_inv (clear_section_data st)"
  using clear_section_wf [of st]
  by (simp add: parse_inv_def bits_ok_zero) (simp add: clear_section_data_def limit_simps bits_ok_zero [simplified limit_simps])

text \<open>C8: An analysis for the SNMP manager always ends: wherever a stop request arrives, every channel
  is marked done, the request is cleared, the connection check is back on, and a channel reports a PMT
  only when the row of that PMT holds a section.\<close>

theorem psi_parse_always_finishes:
  assumes "mib_wf (mib st)" "\<forall>c < CHANNEL_MAX_NUM. decoder_fits dec c"
  shows "\<exists>st'. uvSI_psi_parse dec stop st = Some st' \<and> mib_wf (mib st')
    \<and> ch_s (All_Channel_Psi_Status st') = 0xFF \<and> \<not> request_stop_parse st' \<and> snmp_connection_check st'
    \<and> (\<forall>c < CHANNEL_MAX_NUM. \<forall>i < PROGRAM_MAX_NUM.
         wu_bitmap_test_bit (tl (tbl_s (All_Channel_Psi_Status st') ! c)) i
           \<longrightarrow> READ_U16 (sg_mib_pmt (mib st') ! c ! i) \<noteq> 0)"
proof -
  let ?st = "clear_section_data (st\<lparr> snmp_connection_check := False \<rparr>)"
  have "parse_inv ?st" by (rule parse_inv_clear) (simp add: assms(1))
  then obtain st' where st': "parse_channels dec stop [0..<CHANNEL_MAX_NUM] ?st = Some st'" "parse_inv st'"
    "ch_s (All_Channel_Psi_Status st') = foldl mark_done (ch_s (All_Channel_Psi_Status ?st)) [0..<CHANNEL_MAX_NUM]"
    using parse_channels_ok [OF _ _ assms(2), of ?st "[0..<CHANNEL_MAX_NUM]" stop] by auto
  have "foldl mark_done 0 [0..<CHANNEL_MAX_NUM] = 0xFF" by code_simp
  with st'(3) have "ch_s (All_Channel_Psi_Status st') = 0xFF" by (simp add: clear_section_data_def)
  with st'(1,2) show ?thesis
    by (auto simp: uvSI_psi_parse_def parse_inv_def bits_ok_def CHANNEL_MAX_NUM_def)
qed

section \<open>Examples\<close>

definition zero_row :: "u8 list" where "zero_row = replicate SECTION_MAX_SIZE 0"

definition zero_mib :: psi_mib where
  "zero_mib = \<lparr> sg_mib_pat = replicate (CHANNEL_MAX_NUM + 1) zero_row,
     sg_mib_pmt = replicate (CHANNEL_MAX_NUM + 1) (replicate PROGRAM_MAX_NUM zero_row),
     sg_mib_cat = replicate (CHANNEL_MAX_NUM + 1) zero_row, sg_mib_nit = replicate (CHANNEL_MAX_NUM + 1) zero_row,
     sg_mib_sdt = replicate (CHANNEL_MAX_NUM + 1) (replicate SDT_SECTION_NUM zero_row),
     sg_mib_eit = replicate (CHANNEL_MAX_NUM + 1) (replicate EIT_SECTION_NUM zero_row) \<rparr>"

text \<open>
  Inputs 0 and 2 have a stream with two programs and the network PID; input 2 does not send its
  second PMT.
\<close>

definition example_decoder :: si_decoder where
  "example_decoder = \<lparr>
     hfpga_get_ts_status = (\<lambda>c. if c = 0 \<or> c = 2 then 1 else 0),
     dvbSI_Dec_PAT = (\<lambda>c. (True, [(0, 0x10), (1, 0x100), (2, 0x200)])),
     dvbSI_Dec_PMT = (\<lambda>c pg pid. if pg = 1 then (True, 0x101, [(2, 0x101), (4, 0x102)])
         else (c = 0, 0x201, [(2, 0x201), (4, 0x202)])),
     dvbSI_Dec_SDT = (\<lambda>c. True),
     dvbpsi_decode_sdt = (\<lambda>secs. if secs = [] then [] else [(2, [0x48, 1, 0x41, 2, 0x42, 0x43])]),
     sec_PAT = (\<lambda>c. [2, 0, 0, 0xB0]), sec_PMT = (\<lambda>c pg pid. [3, 0, 2, 0xB0, 0]), sec_CAT = (\<lambda>c. []),
     sec_SDT = (\<lambda>c. [[1, 0, 0x42]]), sec_NIT = (\<lambda>c. [1, 0, 0x40]) \<rparr>"

definition example_parse_state :: psi_parse_state where
  "example_parse_state = \<lparr> mib = zero_mib, All_Channel_Psi_Status = \<lparr> ch_s = 0, tbl_s = [] \<rparr>,
     had_nit = False, request_stop_parse = False, snmp_connection_check = True \<rparr>"

lemma zero_mib_wf: "mib_wf zero_mib"
  by (simp add: mib_wf_def zero_mib_def zero_row_def section_row_def SDT_SECTION_NUM_def EIT_SECTION_NUM_def
      limit_simps list_all_iff)

lemma example_decoder_fits: "decoder_fits example_decoder c"
  by (simp add: decoder_fits_def example_decoder_def section_bytes_def READ_U16_def PACK_U16_def limit_simps
      SDT_SECTION_NUM_def)

theorem psi_parse_always_finishes_witness:
  "\<exists>st'. uvSI_psi_parse example_decoder (\<lambda>k. k = 1) example_parse_state = Some st'
     \<and> ch_s (All_Channel_Psi_Status st') = 0xFF"
  using psi_parse_always_finishes [of example_parse_state example_decoder "\<lambda>k. k = 1"]
    zero_mib_wf example_decoder_fits by (auto simp: example_parse_state_def)

section \<open>The lengths that are not cleared\<close>

lemma cleared_sdt:
  "sg_mib_sdt (foldl clear_channel_section_data m ks)
     = foldl (\<lambda>t c. t[c + 1 := (t ! (c + 1))[0 := clear_len (t ! (c + 1) ! 0)]]) (sg_mib_sdt m) ks"
  by (induction ks arbitrary: m) (simp_all add: clear_channel_section_data_def)

lemma cleared_sdt_first:
  "foldl (\<lambda>t c. t[c + 1 := (t ! (c + 1))[0 := clear_len (t ! (c + 1) ! 0)]]) t ks ! 0 = t ! 0"
  by (induction ks arbitrary: t) simp_all

lemma cleared_sdt_last:
  assumes "length t = CHANNEL_MAX_NUM + 1"
  shows "foldl (\<lambda>t c. t[c + 1 := (t ! (c + 1))[0 := clear_len (t ! (c + 1) ! 0)]]) t [0..<CHANNEL_MAX_NUM] ! CHANNEL_MAX_NUM
     = (t ! CHANNEL_MAX_NUM)[0 := clear_len (t ! CHANNEL_MAX_NUM ! 0)]"
proof -
  have "[0..<8] = [0, 1, 2, 3, 4, 5, 6, 7]" by (simp add: upt_rec)
  with assms show ?thesis by (simp add: CHANNEL_MAX_NUM_def)
qed

text \<open>C24: Before an analysis the section lengths are to be cleared, but the SDT rows are addressed one
  channel too far: when the first channel sends no SDT, the services decoded are those of the sections
  an earlier analysis left, and the first row of the output SDT is cleared although it is no input.\<close>

theorem stale_services:
  assumes "mib_wf (mib st)" "sec_SDT dec 0 = []" "dvbSI_Dec_SDT dec 0"
    and "pushed_sections (sg_mib_sdt (mib st) ! 0) = Some secs"
  shows "(let m = mib (clear_section_data st)
      in parse_sdt_section_and_decode dec 0 m = Some (m, Some (dvbpsi_decode_sdt dec secs))
         \<and> take 2 (sg_mib_sdt m ! CHANNEL_MAX_NUM ! 0) = [0, 0])"
proof -
  define m where "m = mib (clear_section_data st)"
  have len: "length (sg_mib_sdt (mib st)) = CHANNEL_MAX_NUM + 1" using assms(1) by (simp add: mib_wf_def)
  have sdt: "sg_mib_sdt m = foldl (\<lambda>t c. t[c + 1 := (t ! (c + 1))[0 := clear_len (t ! (c + 1) ! 0)]])
      (sg_mib_sdt (mib st)) [0..<CHANNEL_MAX_NUM]"
    by (simp add: m_def clear_section_data_def cleared_sdt)
  have first: "sg_mib_sdt m ! 0 = sg_mib_sdt (mib st) ! 0" unfolding sdt by (rule cleared_sdt_first)
  have "sg_mib_sdt m ! CHANNEL_MAX_NUM = (sg_mib_sdt (mib st) ! CHANNEL_MAX_NUM)
      [0 := clear_len (sg_mib_sdt (mib st) ! CHANNEL_MAX_NUM ! 0)]"
    unfolding sdt by (rule cleared_sdt_last [OF len])
  moreover have "length (sg_mib_sdt (mib st) ! CHANNEL_MAX_NUM) = SDT_SECTION_NUM"
    using mib_wf_rows(5) [OF assms(1), of CHANNEL_MAX_NUM] by (simp add: section_rows_def)
  ultimately have last: "take 2 (sg_mib_sdt m ! CHANNEL_MAX_NUM ! 0) = [0, 0]"
    by (simp add: SDT_SECTION_NUM_def clear_len_def)
  have "parse_sdt dec 0 m = Some m"
    by (simp add: parse_sdt_def assms(2) list_update_id)
  with assms(3,4) first last show ?thesis
    by (simp add: Let_def parse_sdt_section_and_decode_def flip: m_def)
qed

definition stale_state :: psi_parse_state where
  "stale_state = example_parse_state\<lparr> mib := zero_mib\<lparr>
     sg_mib_sdt := (sg_mib_sdt zero_mib)[0 := (1 # 0 # 0x42 # replicate 1021 0) # replicate 4 zero_row] \<rparr> \<rparr>"

theorem stale_services_witness:
  "\<exists>m. parse_sdt_section_and_decode (example_decoder\<lparr> sec_SDT := (\<lambda>c. []) \<rparr>) 0 (mib (clear_section_data stale_state))
     = Some (m, Some [(2, [0x48, 1, 0x41, 2, 0x42, 0x43])])"
proof -
  let ?rows = "(1 # 0 # 0x42 # replicate 1021 0) # replicate 4 zero_row"
  have "section_rows SDT_SECTION_NUM ?rows"
    by (simp add: section_rows_def section_row_def zero_row_def SDT_SECTION_NUM_def limit_simps list_all_iff)
  from mib_wf_update(5) [OF zero_mib_wf this, of 0] have wf: "mib_wf (mib stale_state)"
    by (simp add: stale_state_def)
  have rows: "sg_mib_sdt (mib stale_state) ! 0 = ?rows" by (simp add: stale_state_def zero_mib_def)
  have "READ_U16 zero_row = 0" by (simp add: READ_U16_def PACK_U16_def zero_row_def SECTION_MAX_SIZE_def)
  then have "pushed_sections ?rows = Some [[0x42]]"
    by (simp add: READ_U16_def PACK_U16_def mem_read_def numeral_eq_Suc)
  then have "pushed_sections (sg_mib_sdt (mib stale_state) ! 0) = Some [[0x42]]" by (simp only: rows)
  from stale_services [OF wf _ _ this, of "example_decoder\<lparr> sec_SDT := (\<lambda>c. []) \<rparr>"] show ?thesis
    by (auto simp: Let_def example_decoder_def)
qed

end
