(* ===== verification/FpPsiParse.thy ===== *)
theory FpPsiParse
  imports PidTransInfo PidMap PsiParse
begin

unbundle bit_operations_syntax

text \<open>
  Analysing the input streams for the board (\<^verbatim>\<open>src/front_panel_psi_parse.c\<close>): the tables of every
  channel become the program table, and the PIDs of the inputs are counted.
\<close>

section \<open>The program table\<close>

definition entry_clear :: "u8 \<Rightarrow> pid_trans_entry" where
  "entry_clear ty = \<lparr> pt_type = ty, pt_in = DATA_PID_PAD_VALUE, pt_out = DATA_PID_PAD_VALUE \<rparr>"

definition prog_clear :: prog_info_t where
  "prog_clear = prog_zero\<lparr> info := (info prog_zero)\<lparr> pmt := entry_clear PID_TYPE_PMT, pcr := entry_clear PID_TYPE_PCR,
     es_data := replicate PROGRAM_DATA_PID_MAX_NUM (entry_clear PID_TYPE_PAD) \<rparr> \<rparr>"

definition clear_prog_info_table :: "fp_state \<Rightarrow> fp_state" where
  "clear_prog_info_table s = s\<lparr> g_prog_info_table := replicate (CHANNEL_MAX_NUM * PROGRAM_MAX_NUM) prog_clear \<rparr>"

section \<open>A channel for the board\<close>

definition scan_program_pids :: "u16 \<Rightarrow> (u8 \<times> u16) list \<Rightarrow> u16 list" where
  "scan_program_pids pcr_pid es = pcr_pid # filter (\<lambda>p. p \<noteq> pcr_pid) (map snd es)"

definition set_program :: "nat \<Rightarrow> nat \<Rightarrow> u16 \<Rightarrow> u16 \<Rightarrow> prog_info_t \<Rightarrow> prog_info_t" where
  "set_program chan_idx k pg pid prog =
     prog\<lparr> info := (info prog)\<lparr>
       pmt := (pmt (info prog))\<lparr> pt_in := pid,
         pt_out := pid_map_rule_map_psi_pid (word_of_nat chan_idx) (word_of_nat k) DSW_PID_PMT pid [] \<rparr>,
       prog_num := pg \<rparr> \<rparr>"

definition set_es :: "nat \<Rightarrow> nat \<Rightarrow> u16 list \<Rightarrow> xmux_program_info \<Rightarrow> nat \<times> u8 \<times> u16 \<Rightarrow> xmux_program_info" where
  "set_es chan_idx k pids i = (\<lambda>(j, ty, pid).
     if pid \<noteq> pt_in (pcr i)
     then i\<lparr> es_data := (es_data i)[j := \<lparr> pt_type = ty, pt_in = pid,
            pt_out = pid_map_rule_map_psi_pid (word_of_nat chan_idx) (word_of_nat k) DSW_PID_VIDEO pid pids \<rparr>] \<rparr>
     else i\<lparr> es_data := (es_data i)[j := \<lparr> pt_type = ty, pt_in = pid, pt_out = pt_out (pcr i) \<rparr>],
            pcr := (pcr i)\<lparr> pt_type := (if es_is_video ty then PID_TYPE_PCR_VIDEO else PID_TYPE_PCR_AUDIO) \<rparr> \<rparr>)"

definition set_streams :: "nat \<Rightarrow> nat \<Rightarrow> u16 \<Rightarrow> (u8 \<times> u16) list \<Rightarrow> prog_info_t \<Rightarrow> prog_info_t" where
  "set_streams chan_idx k pcr_pid es prog =
     (let es = take PROGRAM_DATA_PID_MAX_NUM es;
          pids = scan_program_pids pcr_pid es;
          i = (info prog)\<lparr> pcr := \<lparr> pt_type = PID_TYPE_PCR, pt_in = pcr_pid,
                pt_out = pid_map_rule_map_psi_pid (word_of_nat chan_idx) (word_of_nat k) DSW_PID_PCR pcr_pid pids \<rparr> \<rparr>
      in prog\<lparr> info := foldl (set_es chan_idx k pids) i (enumerate 0 es) \<rparr>)"

text \<open>The programs of a channel: the count is \<open>None\<close> when a PMT was not decoded.\<close>

fun parse_pmts ::
  "si_decoder \<Rightarrow> nat \<Rightarrow> (u16 \<times> u16) list \<Rightarrow> nat \<Rightarrow> fp_state \<Rightarrow> (fp_state \<times> nat option) option" where
  "parse_pmts dec c [] prog_cnt s = Some (s, Some prog_cnt)"
| "parse_pmts dec c ((pg, pid) # pat) prog_cnt s =
     (if pg = 0x00 then parse_pmts dec c pat prog_cnt s
      else do {
        prog \<leftarrow> prog_at s (prog_index c prog_cnt);
        let prog = set_program c prog_cnt pg pid prog;
        let s = set_prog_at s (prog_index c prog_cnt) prog;
        let (ok, pcr_pid, es) = dvbSI_Dec_PMT dec c pg pid;
        if \<not> ok then Some (s, None)
        else parse_pmts dec c pat (prog_cnt + 1)
               (set_prog_at s (prog_index c prog_cnt) (set_streams c prog_cnt pcr_pid es prog))
      })"

text \<open>The name is written through both rows; beyond them it would run into the next program.\<close>

definition extract_program_name :: "u8 list \<Rightarrow> u8 list list \<Rightarrow> u8 list list option" where
  "extract_program_name desc_content rows =
     do {
       plen \<leftarrow> mem_read desc_content 1 1;
       let provid_name_len = unat (plen ! 0);
       provide \<leftarrow> mem_read desc_content 1 provid_name_len;
       nlen \<leftarrow> mem_read desc_content (1 + 1 + provid_name_len) 1;
       let prog_name_len = nlen ! 0;
       name \<leftarrow> mem_read desc_content (3 + provid_name_len) (unat prog_name_len);
       bs \<leftarrow> mem_write (concat rows) 0 (prog_name_len # name @ [0]);
       Some [take PROGRAM_NAME_SIZE bs, take PROGRAM_NAME_SIZE bs]
     }"

definition name_service :: "nat \<Rightarrow> nat \<Rightarrow> fp_state \<Rightarrow> u16 \<times> u8 list \<Rightarrow> fp_state option" where
  "name_service c prog_cnt s = (\<lambda>(serv, desc).
     case find (\<lambda>i. map_option (prog_num \<circ> info) (prog_at s (prog_index c i)) = Some serv) [0..<prog_cnt] of
       None \<Rightarrow> Some s
     | Some i \<Rightarrow> do {
         prog \<leftarrow> prog_at s (prog_index c i);
         rows \<leftarrow> extract_program_name desc (prog_name (info prog));
         Some (set_prog_at s (prog_index c i) (prog\<lparr> info := (info prog)\<lparr> prog_name := rows \<rparr> \<rparr>))
       })"

definition do_parse_channel ::
  "si_decoder \<Rightarrow> nat \<Rightarrow> fp_state \<Rightarrow> psi_mib \<Rightarrow> (fp_state \<times> psi_mib \<times> u8) option" where
  "do_parse_channel dec c s m =
     (let (ok, pat) = dvbSI_Dec_PAT dec c
      in if \<not> ok then Some (s, m, 0)
         else do {
           (s, r) \<leftarrow> parse_pmts dec c pat 0 s;
           case r of
             None \<Rightarrow> Some (s, m, 0)
           | Some prog_cnt \<Rightarrow> do {
               (m, r) \<leftarrow> parse_sdt_section_and_decode dec c m;
               case r of
                 None \<Rightarrow> Some (s, m, word_of_nat prog_cnt)
               | Some services \<Rightarrow> do {
                   s \<leftarrow> foldM (name_service c prog_cnt) s services;
                   Some (s, m, word_of_nat prog_cnt)
                 }
             }
         })"

definition parse_channel ::
  "si_decoder \<Rightarrow> nat \<Rightarrow> fp_state \<Rightarrow> psi_mib \<Rightarrow> (fp_state \<times> psi_mib \<times> u8) option" where
  "parse_channel dec c s m =
     (if hfpga_get_ts_status dec c > 0
      then do { (s, m, n) \<leftarrow> do_parse_channel dec c s m;
                Some (s\<lparr> g_chan_num := (g_chan_num s)[c := n] \<rparr>, m, n) }
      else Some (s, m, 0))"

text \<open>How often each PID occurs in the input; a PID past the table is a write outside it.\<close>

definition count_pid :: "u16 list \<Rightarrow> u16 \<Rightarrow> u16 list option" where
  "count_pid t pid = (if unat pid < length t then Some (t[unat pid := t ! unat pid + 1]) else None)"

definition program_input_pids :: "xmux_program_info \<Rightarrow> u16 list" where
  "program_input_pids i =
     (if prog_num i = 0 then []
      else filter (\<lambda>p. p \<noteq> DATA_PID_PAD_VALUE) [pt_in (pmt i), pt_in (pcr i)]
           @ takeWhile (\<lambda>p. p \<noteq> DATA_PID_PAD_VALUE) (map pt_in (es_data i)))"

definition fp_build_program_input_pid_table :: "fp_state \<Rightarrow> u16 list option" where
  "fp_build_program_input_pid_table s =
     foldM count_pid (replicate (unat NULL_PID + 1) 0)
       (concat (map (program_input_pids \<circ> info) (g_prog_info_table s)))"

definition parse_next ::
  "si_decoder \<Rightarrow> fp_state \<times> psi_mib \<times> nat \<Rightarrow> nat \<Rightarrow> (fp_state \<times> psi_mib \<times> nat) option" where
  "parse_next dec = (\<lambda>(s, m, total) c. do {
     (s, m, n) \<leftarrow> parse_channel dec c s m;
     Some (s, m, total + unat n)
   })"

text \<open>
  The whole analysis: the program table, the state of the SNMP side, the table of input PIDs and the
  number of programs.
\<close>

definition fp_psi_parse ::
  "si_decoder \<Rightarrow> fp_state \<Rightarrow> psi_parse_state \<Rightarrow> (fp_state \<times> psi_parse_state \<times> u16 list \<times> nat) option" where
  "fp_psi_parse dec s st =
     (let s = clear_prog_info_table (s\<lparr> g_chan_num := replicate CHANNEL_MAX_NUM 0 \<rparr>);
          st = clear_section_data st
      in do {
        (s, m, total) \<leftarrow> foldM (parse_next dec) (s, mib st, 0) [0..<CHANNEL_MAX_NUM];
        t \<leftarrow> fp_build_program_input_pid_table s;
        Some (s, st\<lparr> mib := m \<rparr>, t, total)
      })"

section \<open>What the decoder is relied on for\<close>

definition programs_of :: "si_decoder \<Rightarrow> nat \<Rightarrow> (u16 \<times> u16) list" where
  "programs_of dec c = filter (\<lambda>(pg, pid). pg \<noteq> 0) (snd (dvbSI_Dec_PAT dec c))"

text \<open>A service descriptor whose two lengths stay inside it, with a name that fits the program.\<close>

definition service_descriptor :: "u8 list \<Rightarrow> bool" where
  "service_descriptor d \<longleftrightarrow> 2 \<le> length d \<and>
     (let p = unat (d ! 1)
      in p + 2 < length d \<and> (let n = unat (d ! (p + 2)) in p + 3 + n \<le> length d \<and> n + 2 \<le> 2 * PROGRAM_NAME_SIZE))"

definition decoder_sound :: "si_decoder \<Rightarrow> nat \<Rightarrow> bool" where
  "decoder_sound dec c \<longleftrightarrow> decoder_fits dec c
     \<and> (\<forall>(pg, pid) \<in> set (snd (dvbSI_Dec_PAT dec c)). pid \<le> NULL_PID)
     \<and> (\<forall>pg pid. case dvbSI_Dec_PMT dec c pg pid of (ok, pcr_pid, es) \<Rightarrow> pcr_pid \<le> NULL_PID \<and> (\<forall>e \<in> set es. snd e \<le> NULL_PID))
     \<and> (\<forall>secs. \<forall>(serv, d) \<in> set (dvbpsi_decode_sdt dec secs). service_descriptor d)"

definition pmts_decoded :: "si_decoder \<Rightarrow> nat \<Rightarrow> (u16 \<times> u16) list \<Rightarrow> bool" where
  "pmts_decoded dec c = list_all (\<lambda>(pg, pid). fst (dvbSI_Dec_PMT dec c pg pid))"

text \<open>The channel has a stream and all its PMTs are decoded.\<close>

definition complete :: "si_decoder \<Rightarrow> nat \<Rightarrow> bool" where
  "complete dec c \<longleftrightarrow> hfpga_get_ts_status dec c > 0 \<and> fst (dvbSI_Dec_PAT dec c)
     \<and> pmts_decoded dec c (programs_of dec c)"

section \<open>Programs stay well shaped\<close>

definition prog_ok :: "prog_info_t \<Rightarrow> bool" where
  "prog_ok p \<longleftrightarrow> info_bytes_wf (info p) \<and> \<not> FP_PROG_SELECTED p
     \<and> (\<forall>e \<in> set (prog_entries (info p)). pt_in e \<le> NULL_PID)"

definition table_ok :: "fp_state \<Rightarrow> bool" where
  "table_ok s \<longleftrightarrow> length (g_prog_info_table s) = CHANNEL_MAX_NUM * PROGRAM_MAX_NUM
     \<and> length (g_chan_num s) = CHANNEL_MAX_NUM \<and> list_all prog_ok (g_prog_info_table s)"

lemma pad_le_NULL_PID: "DATA_PID_PAD_VALUE \<le> NULL_PID"
  by (simp add: DATA_PID_PAD_VALUE_def NULL_PID_def)

lemma prog_clear_ok: "prog_ok prog_clear"
proof -
  have "status prog_clear = 0" "map length (prog_name (info prog_clear)) = [33, 33]" by code_simp+
  then show ?thesis
    using pad_le_NULL_PID
    by (simp add: prog_ok_def info_bytes_wf_def info_wf_def FP_PROG_SELECTED_def has_flag_def limit_simps)
       (simp add: prog_clear_def entry_clear_def prog_entries_def set_replicate_conv_if limit_simps)
qed

lemma table_ok_at: "table_ok s \<Longrightarrow> prog_at s j = Some p \<Longrightarrow> prog_ok p"
  by (auto simp: table_ok_def prog_at_def list_all_length split: if_splits)

lemma table_ok_set: "table_ok s \<Longrightarrow> prog_ok p \<Longrightarrow> table_ok (set_prog_at s j p)"
  by (auto simp: table_ok_def set_prog_at_def list_all_iff dest: set_update_subset_insert [THEN subsetD])

lemma table_ok_in: "table_ok s \<Longrightarrow> c < CHANNEL_MAX_NUM \<Longrightarrow> k < PROGRAM_MAX_NUM \<Longrightarrow> \<exists>p. prog_at s (prog_index c k) = Some p"
  using prog_index_less [of c k] by (simp add: table_ok_def prog_at_def)

lemma set_prog_at_twice [simp]: "set_prog_at (set_prog_at s j p) j q = set_prog_at s j q"
  by (simp add: set_prog_at_def)

lemma set_program_ok: "prog_ok p \<Longrightarrow> pid \<le> NULL_PID \<Longrightarrow> prog_ok (set_program c k pg pid p)"
  by (simp add: prog_ok_def set_program_def info_bytes_wf_def info_wf_def FP_PROG_SELECTED_def prog_entries_def)

lemma set_es_apply:
  "set_es c k pids i (j, ty, pid) =
     (if pid \<noteq> pt_in (pcr i)
      then i\<lparr> es_data := (es_data i)[j := \<lparr> pt_type = ty, pt_in = pid,
             pt_out = pid_map_rule_map_psi_pid (word_of_nat c) (word_of_nat k) DSW_PID_VIDEO pid pids \<rparr>] \<rparr>
      else i\<lparr> es_data := (es_data i)[j := \<lparr> pt_type = ty, pt_in = pid, pt_out = pt_out (pcr i) \<rparr>],
             pcr := (pcr i)\<lparr> pt_type := (if es_is_video ty then PID_TYPE_PCR_VIDEO else PID_TYPE_PCR_AUDIO) \<rparr> \<rparr>)"
  by (simp add: set_es_def)

text \<open>The data entries after the loop over the elementary streams.\<close>

lemma set_es_fold:
  assumes "length (es_data i) = PROGRAM_DATA_PID_MAX_NUM" "length es \<le> PROGRAM_DATA_PID_MAX_NUM"
  shows "\<exists>ty. foldl (set_es c k pids) i (enumerate 0 es) =
     i\<lparr> pcr := (pcr i)\<lparr> pt_type := ty \<rparr>,
        es_data := map (\<lambda>(ty, pid). \<lparr> pt_type = ty, pt_in = pid,
            pt_out = (if pid = pt_in (pcr i) then pt_out (pcr i)
                      else pid_map_rule_map_psi_pid (word_of_nat c) (word_of_nat k) DSW_PID_VIDEO pid pids) \<rparr>) es
          @ drop (length es) (es_data i) \<rparr>"
  using assms(2)
proof (induction es rule: rev_induct)
  case Nil
  show ?case by (intro exI [of _ "pt_type (pcr i)"]) simp
next
  case (snoc e es)
  let ?f = "\<lambda>(ty, pid). \<lparr> pt_type = ty, pt_in = pid,
            pt_out = (if pid = pt_in (pcr i) then pt_out (pcr i)
                      else pid_map_rule_map_psi_pid (word_of_nat c) (word_of_nat k) DSW_PID_VIDEO pid pids) \<rparr>"
  obtain ty pid where e: "e = (ty, pid)" by (cases e)
  from snoc obtain pty where IH: "foldl (set_es c k pids) i (enumerate 0 es) =
     i\<lparr> pcr := (pcr i)\<lparr> pt_type := pty \<rparr>, es_data := map ?f es @ drop (length es) (es_data i) \<rparr>" by auto
  have upd: "(map ?f es @ drop (length es) (es_data i))[length es := x]
      = map ?f es @ x # drop (Suc (length es)) (es_data i)" for x
  proof -
    have "drop (length es) (es_data i) = es_data i ! length es # drop (Suc (length es)) (es_data i)"
      by (rule Cons_nth_drop_Suc [symmetric]) (use snoc.prems assms(1) in simp)
    then show ?thesis by (simp add: list_update_append)
  qed
  show ?case
    by (intro exI [of _ "if pid = pt_in (pcr i) then if es_is_video ty then PID_TYPE_PCR_VIDEO else PID_TYPE_PCR_AUDIO
          else pty"])
       (use IH upd in \<open>simp add: enumerate_append_eq e set_es_apply\<close>)
qed

lemma set_streams_ok:
  assumes "prog_ok p" "pcr_pid \<le> NULL_PID" "\<forall>e \<in> set es. snd e \<le> NULL_PID"
  shows "prog_ok (set_streams c k pcr_pid es p)"
proof -
  define i where "i = (info p)\<lparr> pcr := \<lparr> pt_type = PID_TYPE_PCR, pt_in = pcr_pid,
      pt_out = pid_map_rule_map_psi_pid (word_of_nat c) (word_of_nat k) DSW_PID_PCR pcr_pid
        (scan_program_pids pcr_pid (take PROGRAM_DATA_PID_MAX_NUM es)) \<rparr> \<rparr>"
  have len: "length (es_data i) = PROGRAM_DATA_PID_MAX_NUM"
    using assms(1) by (simp add: i_def prog_ok_def info_bytes_wf_def info_wf_def)
  obtain ty where r: "info (set_streams c k pcr_pid es p) =
     i\<lparr> pcr := (pcr i)\<lparr> pt_type := ty \<rparr>,
        es_data := map (\<lambda>(ty, pid). \<lparr> pt_type = ty, pt_in = pid,
            pt_out = (if pid = pt_in (pcr i) then pt_out (pcr i)
                      else pid_map_rule_map_psi_pid (word_of_nat c) (word_of_nat k) DSW_PID_VIDEO pid
                        (scan_program_pids pcr_pid (take PROGRAM_DATA_PID_MAX_NUM es))) \<rparr>) (take PROGRAM_DATA_PID_MAX_NUM es)
          @ drop (length (take PROGRAM_DATA_PID_MAX_NUM es)) (es_data i) \<rparr>"
    using set_es_fold [OF len, of "take PROGRAM_DATA_PID_MAX_NUM es" c k]
    by (simp add: set_streams_def Let_def i_def) blast
  have st: "status (set_streams c k pcr_pid es p) = status p" by (simp add: set_streams_def Let_def)
  have "info_bytes_wf (info (set_streams c k pcr_pid es p))"
    using assms(1) len by (simp add: r info_bytes_wf_def info_wf_def prog_ok_def i_def)
  moreover have "\<forall>e \<in> set (prog_entries (info (set_streams c k pcr_pid es p))). pt_in e \<le> NULL_PID"
    using assms by (auto simp: r prog_entries_def i_def prog_ok_def dest!: in_set_takeD in_set_dropD)
  ultimately show ?thesis using assms(1) st by (simp add: prog_ok_def FP_PROG_SELECTED_def)
qed

section \<open>The programs of a channel\<close>

definition parsed_prog :: "si_decoder \<Rightarrow> nat \<Rightarrow> nat \<Rightarrow> u16 \<times> u16 \<Rightarrow> prog_info_t \<Rightarrow> prog_info_t" where
  "parsed_prog dec c k = (\<lambda>(pg, pid) prog.
     case dvbSI_Dec_PMT dec c pg pid of (ok, pcr_pid, es) \<Rightarrow>
       set_streams c k pcr_pid es (set_program c k pg pid prog))"

lemma decoder_sound_pmt:
  "decoder_sound dec c \<Longrightarrow> dvbSI_Dec_PMT dec c pg pid = (ok, pcr_pid, es) \<Longrightarrow>
     pcr_pid \<le> NULL_PID \<and> (\<forall>e \<in> set es. snd e \<le> NULL_PID)"
  by (auto simp: decoder_sound_def split: prod.splits)

abbreviation real_programs :: "(u16 \<times> u16) list \<Rightarrow> (u16 \<times> u16) list" where
  "real_programs pat \<equiv> filter (\<lambda>(pg, pid). pg \<noteq> 0) pat"

lemma parse_pmts_ok:
  assumes "table_ok s" "c < CHANNEL_MAX_NUM" "cnt + length (real_programs pat) \<le> PROGRAM_MAX_NUM"
    and "decoder_sound dec c" "\<forall>(pg, pid) \<in> set pat. pid \<le> NULL_PID"
  shows "\<exists>s'. parse_pmts dec c pat cnt s = Some (s',
        if pmts_decoded dec c (real_programs pat)
        then Some (cnt + length (real_programs pat)) else None)
    \<and> table_ok s' \<and> g_chan_num s' = g_chan_num s
    \<and> (\<forall>j. j \<notin> prog_index c ` {cnt..<PROGRAM_MAX_NUM} \<longrightarrow> prog_at s' j = prog_at s j)
    \<and> ((pmts_decoded dec c (real_programs pat)) \<longrightarrow>
        (\<forall>k < length (real_programs pat). prog_at s' (prog_index c (cnt + k))
           = map_option (parsed_prog dec c (cnt + k) (real_programs pat ! k)) (prog_at s (prog_index c (cnt + k)))))"
  using assms(1,3,5)
proof (induction pat arbitrary: cnt s)
  case Nil
  then show ?case by (simp add: pmts_decoded_def)
next
  case (Cons e pat)
  obtain pg pid where e: "e = (pg, pid)" by (cases e)
  show ?case
  proof (cases "pg = 0")
    case True
    with Cons.IH [OF Cons.prems(1), of cnt] Cons.prems e show ?thesis
      by (cases "pmts_decoded dec c (real_programs pat)") simp_all
  next
    case False
    have cnt: "cnt < PROGRAM_MAX_NUM" using Cons.prems(2) False e by simp
    obtain p where p: "prog_at s (prog_index c cnt) = Some p"
      using table_ok_in [OF Cons.prems(1) assms(2) cnt] by blast
    obtain ok pcr_pid es where pmt: "dvbSI_Dec_PMT dec c pg pid = (ok, pcr_pid, es)" by (metis prod_cases3)
    note pids = decoder_sound_pmt [OF assms(4) pmt]
    let ?p1 = "set_program c cnt pg pid p"
    let ?p2 = "set_streams c cnt pcr_pid es ?p1"
    have ok1: "prog_ok ?p1" using table_ok_at [OF Cons.prems(1) p] Cons.prems(3) e by (simp add: set_program_ok)
    then have ok2: "prog_ok ?p2" using pids by (simp add: set_streams_ok)
    have idx: "j \<noteq> prog_index c cnt" if "j \<notin> prog_index c ` {cnt..<PROGRAM_MAX_NUM}" for j
      using that cnt by auto
    have len: "prog_index c cnt < length (g_prog_info_table s)" using p by (simp add: prog_at_def split: if_splits)
    show ?thesis
    proof (cases ok)
      case False
      then show ?thesis
        using \<open>pg \<noteq> 0\<close> e p pmt table_ok_set [OF Cons.prems(1) ok1] idx
        by (auto simp: Let_def prog_at_set_prog_at pmts_decoded_def)
    next
      case True
      let ?s = "set_prog_at s (prog_index c cnt) ?p2"
      have fits: "cnt + 1 + length (real_programs pat) \<le> PROGRAM_MAX_NUM" using Cons.prems(2) \<open>pg \<noteq> 0\<close> e by simp
      have tail: "\<forall>(pg, pid) \<in> set pat. pid \<le> NULL_PID" using Cons.prems(3) by simp
      from Cons.IH [OF table_ok_set [OF Cons.prems(1) ok2] fits tail] obtain s' where s':
        "parse_pmts dec c pat (cnt + 1) ?s = Some (s',
          if pmts_decoded dec c (real_programs pat)
          then Some (cnt + 1 + length (real_programs pat)) else None)"
        "table_ok s'" "g_chan_num s' = g_chan_num ?s"
        "\<forall>j. j \<notin> prog_index c ` {cnt + 1..<PROGRAM_MAX_NUM} \<longrightarrow> prog_at s' j = prog_at ?s j"
        "(pmts_decoded dec c (real_programs pat)) \<longrightarrow>
        (\<forall>k < length (real_programs pat). prog_at s' (prog_index c (cnt + 1 + k))
           = map_option (parsed_prog dec c (cnt + 1 + k) (real_programs pat ! k)) (prog_at ?s (prog_index c (cnt + 1 + k))))"
        by blast
      have other: "prog_at ?s (prog_index c (cnt + 1 + k)) = prog_at s (prog_index c (cnt + 1 + k))" for k
        by (simp add: prog_at_set_prog_at prog_index_def)
      have "prog_index c cnt \<notin> prog_index c ` {cnt + 1..<PROGRAM_MAX_NUM}" by (auto simp: prog_index_def)
      with s'(4) len have here: "prog_at s' (prog_index c cnt) = Some ?p2" by (simp add: prog_at_set_prog_at)
      have outside: "prog_at s' j = prog_at s j" if "j \<notin> prog_index c ` {cnt..<PROGRAM_MAX_NUM}" for j
      proof -
        have "j \<notin> prog_index c ` {cnt + 1..<PROGRAM_MAX_NUM}" using that by auto
        with s'(4) idx [OF that] show ?thesis by (simp add: prog_at_set_prog_at)
      qed
      have each: "prog_at s' (prog_index c (cnt + k))
           = map_option (parsed_prog dec c (cnt + k) (real_programs (e # pat) ! k)) (prog_at s (prog_index c (cnt + k)))"
        if "pmts_decoded dec c (real_programs pat)" "k < length (real_programs (e # pat))" for k
      proof (cases k)
        case 0
        then show ?thesis using here p e pmt \<open>pg \<noteq> 0\<close> by (simp add: parsed_prog_def)
      next
        case (Suc k')
        then show ?thesis using s'(5) that other [of k'] e \<open>pg \<noteq> 0\<close> by simp
      qed
      show ?thesis
        using s'(1,2,3) e p pmt True \<open>pg \<noteq> 0\<close> outside each by (simp add: Let_def pmts_decoded_def)
    qed
  qed
qed

section \<open>The services of a channel\<close>

lemma extract_program_name_ok:
  assumes "service_descriptor d" "map length rows = [PROGRAM_NAME_SIZE, PROGRAM_NAME_SIZE]"
  shows "\<exists>rows'. extract_program_name d rows = Some rows' \<and> map length rows' = [PROGRAM_NAME_SIZE, PROGRAM_NAME_SIZE]"
proof -
  define p where "p = unat (d ! 1)"
  define n where "n = unat (d ! (p + 2))"
  have d: "2 \<le> length d" "p + 2 < length d" "p + 3 + n \<le> length d" "n + 2 \<le> 2 * PROGRAM_NAME_SIZE"
    using assms(1) by (simp_all add: service_descriptor_def Let_def p_def n_def)
  have rows: "length (concat rows) = 2 * PROGRAM_NAME_SIZE"
    using assms(2) by (auto simp: Cons_eq_map_conv)
  have one: "mem_read d a 1 = Some [d ! a]" if "a < length d" for a
    using that by (simp add: mem_read_def take_Suc_conv_app_nth)
  have "mem_read d 1 p = Some (take p (drop 1 d))" using d by (simp add: mem_read_def)
  moreover have "mem_read d (3 + p) n = Some (take n (drop (3 + p) d))" using d by (simp add: mem_read_def)
  moreover obtain bs where "mem_write (concat rows) 0 (d ! (p + 2) # take n (drop (3 + p) d) @ [0]) = Some bs"
    "length bs = 2 * PROGRAM_NAME_SIZE"
    using rows d by (auto simp: mem_write_def)
  ultimately show ?thesis
    using one [of 1] one [of "p + 2"] d
    by (simp add: extract_program_name_def Let_def p_def n_def add.commute numeral_2_eq_2 limit_simps)
qed

text \<open>A program without its name.\<close>

definition nameless :: "prog_info_t \<Rightarrow> prog_info_t" where
  "nameless p = p\<lparr> info := (info p)\<lparr> prog_name := [] \<rparr> \<rparr>"

definition same_but_names :: "fp_state \<Rightarrow> fp_state \<Rightarrow> bool" where
  "same_but_names s s' \<longleftrightarrow> g_chan_num s' = g_chan_num s
     \<and> (\<forall>j. map_option nameless (prog_at s' j) = map_option nameless (prog_at s j))"

lemma same_but_names_refl: "same_but_names s s"
  by (simp add: same_but_names_def)

lemma name_service_ok:
  assumes "table_ok s" "service_descriptor d"
  shows "\<exists>s'. name_service c prog_cnt s (serv, d) = Some s' \<and> table_ok s' \<and> same_but_names s s'
    \<and> (\<forall>j. j \<notin> prog_index c ` {0..<prog_cnt} \<longrightarrow> prog_at s' j = prog_at s j)"
proof (cases "find (\<lambda>i. map_option (prog_num \<circ> info) (prog_at s (prog_index c i)) = Some serv) [0..<prog_cnt]")
  case None
  with assms(1) show ?thesis by (simp add: name_service_def same_but_names_refl)
next
  case (Some i)
  then have i: "map_option (prog_num \<circ> info) (prog_at s (prog_index c i)) = Some serv" "i < prog_cnt"
    by (auto simp: find_Some_iff)
  then obtain p where p: "prog_at s (prog_index c i) = Some p" by auto
  with table_ok_at [OF assms(1)] have ok: "prog_ok p" by blast
  then have names: "map length (prog_name (info p)) = [PROGRAM_NAME_SIZE, PROGRAM_NAME_SIZE]"
    by (simp add: prog_ok_def info_bytes_wf_def)
  obtain rows where
    rows: "extract_program_name d (prog_name (info p)) = Some rows" "map length rows = [PROGRAM_NAME_SIZE, PROGRAM_NAME_SIZE]"
    using extract_program_name_ok [OF assms(2) names] that by (elim exE conjE) assumption
  let ?p = "p\<lparr> info := (info p)\<lparr> prog_name := rows \<rparr> \<rparr>"
  have "prog_ok ?p"
    using ok rows(2) by (simp add: prog_ok_def info_bytes_wf_def info_wf_def FP_PROG_SELECTED_def prog_entries_def)
  then have "table_ok (set_prog_at s (prog_index c i) ?p)" by (rule table_ok_set [OF assms(1)])
  moreover have "same_but_names s (set_prog_at s (prog_index c i) ?p)"
    using p by (auto simp: same_but_names_def prog_at_set_prog_at nameless_def)
  ultimately show ?thesis
    using Some p rows(1) i(2)
    by (intro exI [of _ "set_prog_at s (prog_index c i) ?p"])
       (auto simp: name_service_def prog_at_set_prog_at simp del: comp_apply)
qed

lemma name_services_ok:
  assumes "table_ok s" "\<forall>(serv, d) \<in> set services. service_descriptor d"
  shows "\<exists>s'. foldM (name_service c prog_cnt) s services = Some s' \<and> table_ok s' \<and> same_but_names s s'
    \<and> (\<forall>j. j \<notin> prog_index c ` {0..<prog_cnt} \<longrightarrow> prog_at s' j = prog_at s j)"
proof (rule foldM_total [where P = "\<lambda>s'. table_ok s' \<and> same_but_names s s'
    \<and> (\<forall>j. j \<notin> prog_index c ` {0..<prog_cnt} \<longrightarrow> prog_at s' j = prog_at s j)"])
  fix s1 x
  assume x: "x \<in> set services" and inv: "table_ok s1 \<and> same_but_names s s1
    \<and> (\<forall>j. j \<notin> prog_index c ` {0..<prog_cnt} \<longrightarrow> prog_at s1 j = prog_at s j)"
  obtain serv d where d: "x = (serv, d)" by (cases x)
  with x assms(2) have "service_descriptor d" by auto
  from name_service_ok [OF _ this] inv d
  show "\<exists>t. name_service c prog_cnt s1 x = Some t \<and> table_ok t \<and> same_but_names s t
    \<and> (\<forall>j. j \<notin> prog_index c ` {0..<prog_cnt} \<longrightarrow> prog_at t j = prog_at s j)"
    unfolding same_but_names_def by metis
qed (simp add: assms(1) same_but_names_refl)

section \<open>The service sections\<close>

definition sdt_ok :: "psi_mib \<Rightarrow> bool" where
  "sdt_ok m \<longleftrightarrow> mib_wf m
     \<and> (\<forall>c < CHANNEL_MAX_NUM. \<forall>row \<in> set (sg_mib_sdt m ! c). unat (READ_U16 row) + 2 \<le> SECTION_MAX_SIZE)"

lemma pushed_sections_ok:
  "\<forall>row \<in> set rows. section_row row \<and> unat (READ_U16 row) + 2 \<le> SECTION_MAX_SIZE \<Longrightarrow>
     \<exists>secs. pushed_sections rows = Some secs"
  by (induction rows) (auto simp: Let_def mem_read_def section_row_def)

definition row_len_ok :: "u8 list list \<Rightarrow> bool" where
  "row_len_ok rows \<longleftrightarrow> section_rows SDT_SECTION_NUM rows
     \<and> (\<forall>row \<in> set rows. unat (READ_U16 row) + 2 \<le> SECTION_MAX_SIZE)"

lemma put_row_len_ok:
  assumes "row_len_ok rows" "k < SDT_SECTION_NUM" "section_bytes bs"
  shows "\<exists>rows'. put_row rows k bs = Some rows' \<and> row_len_ok rows'"
proof -
  obtain rows' where rows': "put_row rows k bs = Some rows'" "section_rows SDT_SECTION_NUM rows'"
    using put_row_rows [OF _ assms(2,3)] assms(1) by (auto simp: row_len_ok_def)
  then obtain row where row: "mem_write (rows ! k) 0 bs = Some row" "rows' = rows[k := row]" "k < length rows"
    by (auto simp: put_row_def bind_Some_iff split: if_splits)
  have "unat (READ_U16 row) + 2 \<le> SECTION_MAX_SIZE"
  proof (cases "bs = []")
    case True
    with row assms(1) show ?thesis by (auto simp: mem_write_def row_len_ok_def split: if_splits)
  next
    case False
    with assms(3) have bs: "unat (READ_U16 bs) + 2 \<le> length bs" "length bs \<le> SECTION_MAX_SIZE"
      by (auto simp: section_bytes_def)
    then have "READ_U16 row = READ_U16 bs"
      using row(1) by (cases bs; cases "tl bs") (auto simp: mem_write_def READ_U16_def split: if_splits)
    with bs show ?thesis by simp
  qed
  with rows' row assms(1) have "row_len_ok rows'"
    by (auto simp: row_len_ok_def dest!: set_update_subset_insert [THEN subsetD])
  with rows'(1) show ?thesis by blast
qed

lemma sdt_ok_rows: "sdt_ok m \<Longrightarrow> c < CHANNEL_MAX_NUM \<Longrightarrow> row_len_ok (sg_mib_sdt m ! c)"
  using mib_wf_rows(5) [of m c] by (simp add: sdt_ok_def row_len_ok_def)

lemma sdt_ok_update: "sdt_ok m \<Longrightarrow> row_len_ok rows \<Longrightarrow> sdt_ok (m\<lparr> sg_mib_sdt := (sg_mib_sdt m)[c := rows] \<rparr>)"
  using mib_wf_update(5) [of m rows c]
  by (cases "c < length (sg_mib_sdt m)")
     (auto simp: sdt_ok_def row_len_ok_def nth_list_update list_update_beyond)

lemma parse_sdt_section_ok:
  assumes "sdt_ok m" "c < CHANNEL_MAX_NUM" "decoder_fits dec c"
  shows "\<exists>m' r. parse_sdt_section_and_decode dec c m = Some (m', r) \<and> sdt_ok m'
    \<and> (\<forall>services. r = Some services \<longrightarrow> (\<exists>secs. services = dvbpsi_decode_sdt dec secs))"
proof -
  have "\<exists>rows. foldM (\<lambda>rows (i, bs). put_row rows i bs) (sg_mib_sdt m ! c) (enumerate 0 (sec_SDT dec c)) = Some rows
      \<and> row_len_ok rows"
  proof (rule foldM_total [where P = row_len_ok, OF sdt_ok_rows [OF assms(1,2)]])
    fix rows x
    assume "x \<in> set (enumerate 0 (sec_SDT dec c))" and rows: "row_len_ok rows"
    then have x: "fst x < length (sec_SDT dec c)" "sec_SDT dec c ! fst x = snd x"
      by (auto simp: in_set_enumerate_eq)
    then have "snd x \<in> set (sec_SDT dec c)" by (metis nth_mem)
    with x put_row_len_ok [OF rows, of "fst x" "snd x"] assms(3)
    show "\<exists>t. (case x of (i, bs) \<Rightarrow> put_row rows i bs) = Some t \<and> row_len_ok t"
      by (auto simp: decoder_fits_def split_beta)
  qed
  then obtain rows where rows: "foldM (\<lambda>rows (i, bs). put_row rows i bs) (sg_mib_sdt m ! c) (enumerate 0 (sec_SDT dec c)) = Some rows"
    "row_len_ok rows" by blast
  let ?m = "m\<lparr> sg_mib_sdt := (sg_mib_sdt m)[c := rows] \<rparr>"
  have ok: "sdt_ok ?m" by (rule sdt_ok_update [OF assms(1) rows(2)])
  have "c < length (sg_mib_sdt m)" using assms(1,2) by (simp add: sdt_ok_def mib_wf_def)
  moreover obtain secs where "pushed_sections rows = Some secs"
    using pushed_sections_ok [of rows] rows(2) by (auto simp: row_len_ok_def section_rows_def list_all_iff)
  ultimately show ?thesis
    using rows(1) ok by (auto simp: parse_sdt_section_and_decode_def parse_sdt_def)
qed

lemma clear_row_len: "row_len_ok rows \<Longrightarrow> 0 < length rows \<Longrightarrow> row_len_ok (rows[0 := clear_len (rows ! 0)])"
  using clear_len_rows(1) [of SDT_SECTION_NUM rows 0]
  by (auto simp: row_len_ok_def SDT_SECTION_NUM_def READ_U16_def PACK_U16_def clear_len_def limit_simps
      dest!: set_update_subset_insert [THEN subsetD])

lemma clear_channel_sdt_ok: "sdt_ok m \<Longrightarrow> c < CHANNEL_MAX_NUM \<Longrightarrow> sdt_ok (clear_channel_section_data m c)"
proof -
  assume m: "sdt_ok m" and c: "c < CHANNEL_MAX_NUM"
  have wf: "mib_wf (clear_channel_section_data m c)" using m c by (simp add: clear_channel_wf sdt_ok_def)
  show ?thesis
  proof (cases "c + 1 < CHANNEL_MAX_NUM")
    case True
    have rows: "row_len_ok (sg_mib_sdt m ! (c + 1))" by (rule sdt_ok_rows [OF m True])
    then have "row_len_ok ((sg_mib_sdt m ! (c + 1))[0 := clear_len (sg_mib_sdt m ! (c + 1) ! 0)])"
      by (intro clear_row_len) (simp_all add: row_len_ok_def section_rows_def SDT_SECTION_NUM_def)
    from sdt_ok_update [OF m this, of "c + 1"] wf show ?thesis
      by (simp add: sdt_ok_def clear_channel_section_data_def)
  next
    case False
    with m wf c show ?thesis by (auto simp: sdt_ok_def clear_channel_section_data_def)
  qed
qed

section \<open>A whole channel\<close>

definition channel_rows :: "nat \<Rightarrow> nat set" where
  "channel_rows c = prog_index c ` {0..<PROGRAM_MAX_NUM}"

text \<open>What the analysis leaves of a channel that was clear before.\<close>

definition channel_parsed :: "si_decoder \<Rightarrow> nat \<Rightarrow> fp_state \<Rightarrow> bool" where
  "channel_parsed dec c s \<longleftrightarrow>
     chan_nprogs s c = (if complete dec c then length (programs_of dec c) else 0)
     \<and> (complete dec c \<longrightarrow> (\<forall>k < length (programs_of dec c).
          map_option nameless (prog_at s (prog_index c k))
            = Some (nameless (parsed_prog dec c k (programs_of dec c ! k) prog_clear))))"

lemma decoder_sound_programs:
  assumes "decoder_sound dec c"
  shows "length (programs_of dec c) \<le> PROGRAM_MAX_NUM"
  using assms by (simp add: decoder_sound_def decoder_fits_def programs_of_def)

lemma same_but_names_trans: "same_but_names a b \<Longrightarrow> same_but_names b c \<Longrightarrow> same_but_names a c"
  by (simp add: same_but_names_def)

lemma do_parse_channel_ok:
  assumes "table_ok s" "sdt_ok m" "c < CHANNEL_MAX_NUM" "decoder_sound dec c" "hfpga_get_ts_status dec c > 0"
    and "\<forall>k < PROGRAM_MAX_NUM. prog_at s (prog_index c k) = Some prog_clear"
  shows "\<exists>s' m'. do_parse_channel dec c s m
        = Some (s', m', word_of_nat (if complete dec c then length (programs_of dec c) else 0))
    \<and> table_ok s' \<and> sdt_ok m' \<and> g_chan_num s' = g_chan_num s
    \<and> (\<forall>j. j \<notin> channel_rows c \<longrightarrow> prog_at s' j = prog_at s j)
    \<and> (complete dec c \<longrightarrow> (\<forall>k < length (programs_of dec c).
          map_option nameless (prog_at s' (prog_index c k))
            = Some (nameless (parsed_prog dec c k (programs_of dec c ! k) prog_clear))))"
proof -
  obtain ok pat where pat: "dvbSI_Dec_PAT dec c = (ok, pat)" by fastforce
  show ?thesis
  proof (cases ok)
    case False
    with pat assms(1,2) show ?thesis by (auto simp: do_parse_channel_def complete_def)
  next
    case True
    have progs: "programs_of dec c = real_programs pat" by (simp add: programs_of_def pat)
    have fits: "0 + length (real_programs pat) \<le> PROGRAM_MAX_NUM"
      using decoder_sound_programs [OF assms(4)] progs by simp
    have pids: "\<forall>(pg, pid) \<in> set pat. pid \<le> NULL_PID"
      using assms(4) by (simp add: decoder_sound_def pat)
    from parse_pmts_ok [OF assms(1,3) fits assms(4) pids] obtain s1 where s1:
      "parse_pmts dec c pat 0 s = Some (s1, if pmts_decoded dec c (real_programs pat)
          then Some (0 + length (real_programs pat)) else None)"
      "table_ok s1" "g_chan_num s1 = g_chan_num s"
      "\<forall>j. j \<notin> prog_index c ` {0..<PROGRAM_MAX_NUM} \<longrightarrow> prog_at s1 j = prog_at s j"
      "pmts_decoded dec c (real_programs pat) \<longrightarrow> (\<forall>k < length (real_programs pat). prog_at s1 (prog_index c (0 + k))
           = map_option (parsed_prog dec c (0 + k) (real_programs pat ! k)) (prog_at s (prog_index c (0 + k))))"
      by (elim exE conjE) (rule that)
    show ?thesis
    proof (cases "pmts_decoded dec c (real_programs pat)")
      case False
      then have "\<not> complete dec c" by (simp add: complete_def progs)
      with False s1 pat True assms(2) show ?thesis by (simp add: do_parse_channel_def channel_rows_def)
    next
      case dec: True
      then have comp: "complete dec c" using assms(5) pat True by (simp add: complete_def progs)
      have here: "prog_at s1 (prog_index c k) = Some (parsed_prog dec c k (programs_of dec c ! k) prog_clear)"
        if "k < length (programs_of dec c)" for k
        using s1(5) dec that assms(6) fits by (simp add: progs)
      have "decoder_fits dec c" using assms(4) by (simp add: decoder_sound_def)
      from parse_sdt_section_ok [OF assms(2,3) this] obtain m' r where m':
        "parse_sdt_section_and_decode dec c m = Some (m', r)" "sdt_ok m'"
        "\<forall>services. r = Some services \<longrightarrow> (\<exists>secs. services = dvbpsi_decode_sdt dec secs)" by blast
      let ?n = "length (real_programs pat)"
      obtain s2 where s2: "table_ok s2" "same_but_names s1 s2" "\<forall>j. j \<notin> channel_rows c \<longrightarrow> prog_at s2 j = prog_at s1 j"
        "(case r of None \<Rightarrow> Some (s1, m', word_of_nat ?n :: u8)
          | Some services \<Rightarrow> do { s \<leftarrow> foldM (name_service c ?n) s1 services; Some (s, m', word_of_nat ?n) })
          = Some (s2, m', word_of_nat ?n)"
      proof (cases r)
        case None
        then show ?thesis using that [of s1] s1(2) by (simp add: same_but_names_refl)
      next
        case (Some services)
        with m'(3) obtain secs where "services = dvbpsi_decode_sdt dec secs" by blast
        with assms(4) have "\<forall>(serv, d) \<in> set services. service_descriptor d" by (simp add: decoder_sound_def)
        from name_services_ok [OF s1(2) this, of c ?n] obtain s2 where s2:
          "foldM (name_service c ?n) s1 services = Some s2" "table_ok s2" "same_but_names s1 s2"
          "\<forall>j. j \<notin> prog_index c ` {0..<?n} \<longrightarrow> prog_at s2 j = prog_at s1 j" by blast
        have "\<forall>j. j \<notin> channel_rows c \<longrightarrow> prog_at s2 j = prog_at s1 j"
        proof -
          have "prog_index c ` {0..<?n} \<subseteq> channel_rows c" using fits by (auto simp: channel_rows_def)
          with s2(4) show ?thesis by blast
        qed
        with s2 Some show ?thesis using that [of s2] by simp
      qed
      have "do_parse_channel dec c s m = Some (s2, m', word_of_nat ?n)"
        using pat True s1(1) dec m'(1) s2(4) by (simp add: do_parse_channel_def)
      moreover have "\<forall>j. j \<notin> channel_rows c \<longrightarrow> prog_at s2 j = prog_at s j"
        using s2(3) s1(4) by (simp add: channel_rows_def)
      moreover have "g_chan_num s2 = g_chan_num s" using s2(2) s1(3) by (simp add: same_but_names_def)
      moreover have "map_option nameless (prog_at s2 (prog_index c k))
            = Some (nameless (parsed_prog dec c k (programs_of dec c ! k) prog_clear))"
        if "k < length (programs_of dec c)" for k
        using here [OF that] s2(2) by (simp add: same_but_names_def)
      ultimately show ?thesis using comp s2(1) m'(2) by (simp add: progs)
    qed
  qed
qed

lemma parse_channel_ok:
  assumes "table_ok s" "sdt_ok m" "c < CHANNEL_MAX_NUM" "decoder_sound dec c" "g_chan_num s ! c = 0"
    and "\<forall>k < PROGRAM_MAX_NUM. prog_at s (prog_index c k) = Some prog_clear"
  shows "\<exists>s' m' n. parse_channel dec c s m = Some (s', m', n) \<and> table_ok s' \<and> sdt_ok m'
    \<and> channel_parsed dec c s' \<and> unat n = chan_nprogs s' c \<and> unat n \<le> PROGRAM_MAX_NUM
    \<and> g_chan_num s' = (g_chan_num s)[c := n]
    \<and> (\<forall>j. j \<notin> channel_rows c \<longrightarrow> prog_at s' j = prog_at s j)"
proof (cases "hfpga_get_ts_status dec c > 0")
  case False
  then have "\<not> complete dec c" by (simp add: complete_def)
  with False assms show ?thesis
    by (auto simp: parse_channel_def channel_parsed_def chan_nprogs_def intro!: exI [of _ s] list_update_id [symmetric])
      (metis list_update_id)
next
  case True
  let ?n = "if complete dec c then length (programs_of dec c) else 0"
  from do_parse_channel_ok [OF assms(1-4) True assms(6)] obtain s1 m1 where s1:
    "do_parse_channel dec c s m = Some (s1, m1, word_of_nat ?n)" "table_ok s1" "sdt_ok m1" "g_chan_num s1 = g_chan_num s"
    "\<forall>j. j \<notin> channel_rows c \<longrightarrow> prog_at s1 j = prog_at s j"
    "complete dec c \<longrightarrow> (\<forall>k < length (programs_of dec c).
          map_option nameless (prog_at s1 (prog_index c k))
            = Some (nameless (parsed_prog dec c k (programs_of dec c ! k) prog_clear)))"
    by (elim exE conjE) (rule that)
  have n: "?n \<le> PROGRAM_MAX_NUM" using decoder_sound_programs [OF assms(4)] by simp
  then have un: "unat (word_of_nat ?n :: u8) = ?n" by (simp add: unat_of_nat limit_simps)
  define s' where "s' = s1\<lparr> g_chan_num := (g_chan_num s1)[c := word_of_nat ?n] \<rparr>"
  have at: "prog_at s' j = prog_at s1 j" for j by (simp add: s'_def prog_at_def)
  have "c < length (g_chan_num s1)" using s1(2) assms(3) by (simp add: table_ok_def)
  then have cn: "chan_nprogs s' c = ?n" using un by (simp add: chan_nprogs_def s'_def)
  have "table_ok s'" using s1(2) by (simp add: table_ok_def s'_def)
  moreover have "channel_parsed dec c s'" using cn s1(6) by (simp add: channel_parsed_def at)
  moreover have "parse_channel dec c s m = Some (s', m1, word_of_nat ?n)"
    using True s1(1) by (simp add: parse_channel_def s'_def)
  ultimately show ?thesis
    using s1(3,4,5) un n cn at by (intro exI [of _ s'] exI [of _ m1] exI [of _ "word_of_nat ?n"]) (simp add: s'_def)
qed

section \<open>All channels\<close>

definition channel_clear :: "nat \<Rightarrow> fp_state \<Rightarrow> bool" where
  "channel_clear c s \<longleftrightarrow> g_chan_num s ! c = 0 \<and> (\<forall>k < PROGRAM_MAX_NUM. prog_at s (prog_index c k) = Some prog_clear)"

lemma channel_rows_other: "c \<noteq> c' \<Longrightarrow> k < PROGRAM_MAX_NUM \<Longrightarrow> prog_index c k \<notin> channel_rows c'"
  by (auto simp: channel_rows_def prog_index_inj)

text \<open>A channel is left alone by the analysis of another one.\<close>

lemma other_channel:
  assumes "g_chan_num s' = (g_chan_num s)[c := n]" "\<forall>j. j \<notin> channel_rows c \<longrightarrow> prog_at s' j = prog_at s j" "c' \<noteq> c"
  shows "chan_nprogs s' c' = chan_nprogs s c'" "channel_clear c' s' = channel_clear c' s"
    "decoder_sound dec c' \<Longrightarrow> channel_parsed dec c' s' = channel_parsed dec c' s"
proof -
  have at: "prog_at s' (prog_index c' k) = prog_at s (prog_index c' k)" if "k < PROGRAM_MAX_NUM" for k
    using assms(2) channel_rows_other [OF assms(3) that] by blast
  show num: "chan_nprogs s' c' = chan_nprogs s c'" using assms(1,3) by (simp add: chan_nprogs_def)
  show "channel_clear c' s' = channel_clear c' s" using assms(1,3) at by (simp add: channel_clear_def)
  assume "decoder_sound dec c'"
  then have "k < PROGRAM_MAX_NUM" if "k < length (programs_of dec c')" for k
    using decoder_sound_programs that by (meson order_less_le_trans)
  with num at show "channel_parsed dec c' s' = channel_parsed dec c' s" by (simp add: channel_parsed_def)
qed

lemma parse_next_fold:
  assumes "table_ok s" "sdt_ok m" "\<forall>c < CHANNEL_MAX_NUM. channel_clear c s" "\<forall>c < CHANNEL_MAX_NUM. decoder_sound dec c"
    and "n \<le> CHANNEL_MAX_NUM"
  shows "\<exists>s' m' total. foldM (parse_next dec) (s, m, 0) [0..<n] = Some (s', m', total) \<and> table_ok s' \<and> sdt_ok m'
    \<and> total = (\<Sum>c < n. chan_nprogs s' c)
    \<and> (\<forall>c < n. channel_parsed dec c s' \<and> chan_nprogs s' c \<le> PROGRAM_MAX_NUM)
    \<and> (\<forall>c. n \<le> c \<longrightarrow> c < CHANNEL_MAX_NUM \<longrightarrow> channel_clear c s')"
  using assms(5)
proof (induction n)
  case 0
  with assms show ?case by simp
next
  case (Suc n)
  then have n: "n < CHANNEL_MAX_NUM" "n \<le> CHANNEL_MAX_NUM" by simp_all
  from Suc.IH [OF n(2)] obtain s1 m1 total where s1: "foldM (parse_next dec) (s, m, 0) [0..<n] = Some (s1, m1, total)"
    "table_ok s1" "sdt_ok m1" "total = (\<Sum>c < n. chan_nprogs s1 c)"
    "\<forall>c < n. channel_parsed dec c s1 \<and> chan_nprogs s1 c \<le> PROGRAM_MAX_NUM"
    "\<forall>c. n \<le> c \<longrightarrow> c < CHANNEL_MAX_NUM \<longrightarrow> channel_clear c s1" by blast
  have sound: "decoder_sound dec n" using assms(4) n by blast
  have clear: "g_chan_num s1 ! n = 0" "\<forall>k < PROGRAM_MAX_NUM. prog_at s1 (prog_index n k) = Some prog_clear"
    using s1(6) n by (simp_all add: channel_clear_def)
  from parse_channel_ok [OF s1(2,3) n(1) sound clear] obtain s2 m2 k where s2:
    "parse_channel dec n s1 m1 = Some (s2, m2, k)" "table_ok s2" "sdt_ok m2" "channel_parsed dec n s2"
    "unat k = chan_nprogs s2 n" "unat k \<le> PROGRAM_MAX_NUM" "g_chan_num s2 = (g_chan_num s1)[n := k]"
    "\<forall>j. j \<notin> channel_rows n \<longrightarrow> prog_at s2 j = prog_at s1 j" by blast
  note other = other_channel [OF s2(7,8)]
  have "foldM (parse_next dec) (s, m, 0) [0..<Suc n] = Some (s2, m2, total + unat k)"
    using s1(1) s2(1) by (simp add: foldM_append parse_next_def)
  moreover have "total + unat k = (\<Sum>c < Suc n. chan_nprogs s2 c)"
    using s1(4) s2(5) other(1) by simp
  moreover have "channel_parsed dec c s2 \<and> chan_nprogs s2 c \<le> PROGRAM_MAX_NUM" if "c < Suc n" for c
  proof (cases "c = n")
    case True
    with s2 show ?thesis by simp
  next
    case False
    with that n have "c < n" "decoder_sound dec c" using assms(4) by auto
    with s1(5) other(1,3) [OF False] show ?thesis by simp
  qed
  moreover have "channel_clear c s2" if "Suc n \<le> c" "c < CHANNEL_MAX_NUM" for c
    using s1(6) other(2) [of c] that by auto
  ultimately show ?case using s2(2,3) by blast
qed

section \<open>The table of input PIDs\<close>

lemma count_pids:
  assumes "\<forall>p \<in> set ps. unat p < length t"
  shows "\<exists>t'. foldM count_pid t ps = Some t' \<and> length t' = length t
    \<and> (\<forall>i < length t. t' ! i = t ! i + word_of_nat (length (filter (\<lambda>p. unat p = i) ps)))"
  using assms
proof (induction ps arbitrary: t)
  case (Cons p ps)
  let ?t = "t[unat p := t ! unat p + 1]"
  have "\<forall>q \<in> set ps. unat q < length ?t" using Cons.prems by simp
  from Cons.IH [OF this] obtain t' where "foldM count_pid ?t ps = Some t'" "length t' = length t"
    "\<forall>i < length t. t' ! i = ?t ! i + word_of_nat (length (filter (\<lambda>p. unat p = i) ps))" by auto
  with Cons.prems show ?case by (auto simp: count_pid_def [of t p] nth_list_update)
qed simp

definition input_pids :: "fp_state \<Rightarrow> u16 list" where
  "input_pids s = concat (map (program_input_pids \<circ> info) (g_prog_info_table s))"

lemma input_pids_small: "table_ok s \<Longrightarrow> \<forall>p \<in> set (input_pids s). unat p < unat NULL_PID + 1"
proof
  fix p
  assume s: "table_ok s" and "p \<in> set (input_pids s)"
  then obtain q where q: "q \<in> set (g_prog_info_table s)" "p \<in> set (program_input_pids (info q))"
    by (auto simp: input_pids_def)
  then have "p \<in> pt_in ` set (prog_entries (info q))"
    by (auto simp: program_input_pids_def prog_entries_def dest: set_takeWhileD split: if_splits)
  moreover have "prog_ok q" using s q(1) by (simp add: table_ok_def list_all_iff)
  ultimately have "p \<le> NULL_PID" by (auto simp: prog_ok_def)
  then have "unat p \<le> unat NULL_PID" by (simp only: word_le_nat_alt)
  then show "unat p < unat NULL_PID + 1" by linarith
qed

section \<open>The analysis\<close>

lemma cleared_table:
  assumes "s' = clear_prog_info_table (s\<lparr> g_chan_num := replicate CHANNEL_MAX_NUM 0 \<rparr>)"
  shows "table_ok s'" "c < CHANNEL_MAX_NUM \<Longrightarrow> channel_clear c s'"
  using prog_clear_ok prog_index_less [of c]
  by (auto simp: assms table_ok_def clear_prog_info_table_def channel_clear_def prog_at_def list_all_iff)

lemma clear_section_sdt_ok: "sdt_ok (mib st) \<Longrightarrow> sdt_ok (mib (clear_section_data st))"
  by (simp add: clear_section_data_def, rule foldl_keeps [where P = sdt_ok]) (simp_all add: clear_channel_sdt_ok)

lemma table_ok_fp:
  assumes "table_ok s"
  shows "fp_wf s" "fp_reachable s"
proof -
  have all: "prog_ok p" if "p \<in> set (g_prog_info_table s)" for p
    using assms that by (simp add: table_ok_def list_all_iff)
  then show "fp_wf s" using assms by (simp add: fp_wf_def table_ok_def prog_ok_def info_bytes_wf_def)
  show "fp_reachable s" using all by (intro fp_reachable.init) (simp add: prog_ok_def)
qed

lemma fp_psi_parse_ok:
  assumes "sdt_ok (mib st)" "\<forall>c < CHANNEL_MAX_NUM. decoder_sound dec c"
  obtains s' st' t where "fp_psi_parse dec s st = Some (s', st', t, \<Sum>c < CHANNEL_MAX_NUM. chan_nprogs s' c)"
    "table_ok s'" "sdt_ok (mib st')"
    "\<forall>c < CHANNEL_MAX_NUM. channel_parsed dec c s' \<and> chan_nprogs s' c \<le> PROGRAM_MAX_NUM"
    "length t = unat NULL_PID + 1"
    "\<forall>i \<le> unat NULL_PID. t ! i = word_of_nat (length (filter (\<lambda>p. unat p = i) (input_pids s')))"
proof -
  define s0 where "s0 = clear_prog_info_table (s\<lparr> g_chan_num := replicate CHANNEL_MAX_NUM 0 \<rparr>)"
  have clear: "\<forall>c < CHANNEL_MAX_NUM. channel_clear c s0" using cleared_table(2) [OF s0_def] by blast
  from parse_next_fold [OF cleared_table(1) [OF s0_def] clear_section_sdt_ok [OF assms(1)] clear assms(2) order_refl]
  obtain s' m' where s': "foldM (parse_next dec) (s0, mib (clear_section_data st), 0) [0..<CHANNEL_MAX_NUM]
      = Some (s', m', \<Sum>c < CHANNEL_MAX_NUM. chan_nprogs s' c)" "table_ok s'" "sdt_ok m'"
    "\<forall>c < CHANNEL_MAX_NUM. channel_parsed dec c s' \<and> chan_nprogs s' c \<le> PROGRAM_MAX_NUM" by blast
  let ?t = "replicate (unat NULL_PID + 1) 0 :: u16 list"
  have "\<forall>p \<in> set (input_pids s'). unat p < length ?t" using input_pids_small [OF s'(2)] by simp
  from count_pids [OF this] obtain t where t: "foldM count_pid ?t (input_pids s') = Some t"
    "length t = unat NULL_PID + 1"
    "\<forall>i < length ?t. t ! i = ?t ! i + word_of_nat (length (filter (\<lambda>p. unat p = i) (input_pids s')))" by auto
  have "fp_build_program_input_pid_table s' = Some t"
    using t(1) by (simp add: fp_build_program_input_pid_table_def input_pids_def)
  with s'(1) have parsed: "fp_psi_parse dec s st = Some (s', (clear_section_data st)\<lparr> mib := m' \<rparr>, t, \<Sum>c < CHANNEL_MAX_NUM. chan_nprogs s' c)"
    by (simp add: fp_psi_parse_def Let_def flip: s0_def)
  have counts: "\<forall>i \<le> unat NULL_PID. t ! i = word_of_nat (length (filter (\<lambda>p. unat p = i) (input_pids s')))"
    using t(3) by (simp add: less_Suc_eq_le del: replicate_Suc)
  show thesis
    by (rule that [OF parsed s'(2) _ s'(4) t(2) counts]) (simp add: s'(3))
qed


lemma example_decoder_sound: "decoder_sound example_decoder c"
proof -
  have "service_descriptor [0x48, 1, 0x41, 2, 0x42, 0x43]" by code_simp
  moreover have "(0x10 :: u16) \<le> NULL_PID" "(0x100 :: u16) \<le> NULL_PID" "(0x200 :: u16) \<le> NULL_PID"
    "(0x101 :: u16) \<le> NULL_PID" "(0x102 :: u16) \<le> NULL_PID" "(0x201 :: u16) \<le> NULL_PID" "(0x202 :: u16) \<le> NULL_PID"
    by code_simp+
  ultimately show ?thesis
    using example_decoder_fits [of c] by (simp add: decoder_sound_def example_decoder_def)
qed


section \<open>The proposed output PIDs\<close>

lemma rule_fold:
  "unat a + length pids < 2 ^ 16 \<Longrightarrow>
   unat (fold (\<lambda>q off :: u16. if p > q then off + 1 else off) pids a) = unat a + length (filter (\<lambda>q. q < p) pids)"
proof (induction pids arbitrary: a)
  case (Cons q pids)
  then have "unat (a + 1) = unat a + 1" by (simp add: unat_word_ariths(1))
  with Cons.IH [of a] Cons.IH [of "a + 1"] Cons.prems show ?case by simp
qed simp

lemma filter_less_mono:
  fixes p q :: "'a :: linorder"
  assumes "p < q" "p \<in> set pids"
  shows "length (filter (\<lambda>x. x < p) pids) < length (filter (\<lambda>x. x < q) pids)"
proof -
  have le: "length (filter (\<lambda>x. x < p) xs) \<le> length (filter (\<lambda>x. x < q) xs)" for xs
    using assms(1) by (induction xs) auto
  from assms(2) show ?thesis
  proof (induction pids)
    case (Cons x xs)
    with le [of xs] assms(1) show ?case by (cases "x = p") (auto simp: less_Suc_eq_le)
  qed simp
qed

lemma proposed_out:
  assumes "psi \<noteq> DSW_PID_PMT" "c < CHANNEL_MAX_NUM" "k < 32" "length pids \<le> 15" "p \<in> set pids"
  shows "unat (pid_map_rule_map_psi_pid (word_of_nat c) (word_of_nat k) psi p pids)
      = 0x101 + c * 0x200 + 16 * k + length (filter (\<lambda>q. q < p) pids)"
    "length (filter (\<lambda>q. q < p) pids) \<le> 14"
proof -
  have "length (filter (\<lambda>q. q < p) pids) < length pids"
    using assms(5) by (meson length_filter_less less_irrefl)
  with assms(4) show len: "length (filter (\<lambda>q. q < p) pids) \<le> 14" by simp
  have words: "unat (word_of_nat c :: u8) = c" "unat (word_of_nat k :: u8) = k"
    using assms(2,3) by (simp_all add: unat_of_nat limit_simps)
  have "unat (fold (\<lambda>q off :: u16. if p > q then off + 1 else off) pids 1) = 1 + length (filter (\<lambda>q. q < p) pids)"
    using rule_fold [of 1 pids p] assms(4) by simp
  then have "pid_map_rule_map_psi_pid (word_of_nat c) (word_of_nat k) psi p pids
      = word_of_nat (0x101 + c * 0x200 + 16 * k + length (filter (\<lambda>q. q < p) pids))"
    using assms(1) words
    by (simp add: pid_map_rule_map_psi_pid_def defProgPidBgn_def PID_MAP_MAX_PID_NUM_PER_CHAN_def
        PID_MAP_MAX_PID_NUM_PER_PROG_def add.assoc del: of_nat_add of_nat_mult)
  moreover have "0x101 + c * 0x200 + 16 * k + length (filter (\<lambda>q. q < p) pids) < 2 ^ LENGTH(16)"
    using len assms(2,3) by (simp add: limit_simps)
  ultimately show "unat (pid_map_rule_map_psi_pid (word_of_nat c) (word_of_nat k) psi p pids)
      = 0x101 + c * 0x200 + 16 * k + length (filter (\<lambda>q. q < p) pids)"
    by (metis unat_of_nat_less)
qed

lemma proposed_pmt_out:
  assumes "c < CHANNEL_MAX_NUM" "k < 32"
  shows "unat (pid_map_rule_map_psi_pid (word_of_nat c) (word_of_nat k) DSW_PID_PMT p pids) = 0x100 + c * 0x200 + 16 * k"
proof -
  have words: "unat (word_of_nat c :: u8) = c" "unat (word_of_nat k :: u8) = k"
    using assms by (simp_all add: unat_of_nat limit_simps)
  have "pid_map_rule_map_psi_pid (word_of_nat c) (word_of_nat k) DSW_PID_PMT p pids = word_of_nat (0x100 + c * 0x200 + 16 * k)"
    using words by (simp add: pid_map_rule_map_psi_pid_def defProgPidBgn_def PID_MAP_MAX_PID_NUM_PER_CHAN_def
        PID_MAP_MAX_PID_NUM_PER_PROG_def del: of_nat_add of_nat_mult)
  moreover have "0x100 + c * 0x200 + 16 * k < 2 ^ LENGTH(16)" using assms by (simp add: limit_simps)
  ultimately show ?thesis by (metis unat_of_nat_less)
qed

lemma relation_by_function:
  assumes "\<forall>e \<in> set es. pt_out e = f (pt_in e)" "inj_on f (pt_in ` set es)"
  shows "pid_relation_ok es"
  using assms
proof (induction es)
  case (Cons e es)
  have "pid_relation_ok es"
    by (rule Cons.IH) (use Cons.prems(1) inj_on_subset [OF Cons.prems(2)] in \<open>auto simp: subset_insertI\<close>)
  moreover have "(pt_in e = pt_in e') = (pt_out e = pt_out e')" if "e' \<in> set es" for e'
    using inj_on_eq_iff [OF Cons.prems(2), of "pt_in e" "pt_in e'"] Cons.prems(1) that by simp
  ultimately show ?case by (simp add: list_all_iff)
qed simp

definition stream_entry :: "(u16 \<Rightarrow> u16) \<Rightarrow> u8 \<times> u16 \<Rightarrow> pid_trans_entry" where
  "stream_entry out = (\<lambda>(ty, pid). \<lparr> pt_type = ty, pt_in = pid, pt_out = out pid \<rparr>)"

lemma parsed_entries:
  assumes "dvbSI_Dec_PMT dec c pg pid = (ok, pcr_pid, es)"
  shows "\<exists>ty. prog_entries (info (parsed_prog dec c k (pg, pid) prog_clear))
      = \<lparr> pt_type = PID_TYPE_PMT, pt_in = pid,
          pt_out = pid_map_rule_map_psi_pid (word_of_nat c) (word_of_nat k) DSW_PID_PMT pid [] \<rparr>
        # map (stream_entry (\<lambda>p. pid_map_rule_map_psi_pid (word_of_nat c) (word_of_nat k) DSW_PID_VIDEO p
              (scan_program_pids pcr_pid (take PROGRAM_DATA_PID_MAX_NUM es))))
            ((ty, pcr_pid) # take PROGRAM_DATA_PID_MAX_NUM es)
        @ replicate (PROGRAM_DATA_PID_MAX_NUM - length es) pad_entry"
    "prog_num (info (parsed_prog dec c k (pg, pid) prog_clear)) = pg"
proof -
  let ?es = "take PROGRAM_DATA_PID_MAX_NUM es"
  let ?pids = "scan_program_pids pcr_pid ?es"
  define p1 where "p1 = set_program c k pg pid prog_clear"
  define i where "i = (info p1)\<lparr> pcr := \<lparr> pt_type = PID_TYPE_PCR, pt_in = pcr_pid,
      pt_out = pid_map_rule_map_psi_pid (word_of_nat c) (word_of_nat k) DSW_PID_PCR pcr_pid ?pids \<rparr> \<rparr>"
  have len: "length (es_data i) = PROGRAM_DATA_PID_MAX_NUM"
    by (simp add: i_def p1_def set_program_def prog_clear_def)
  have parsed: "info (parsed_prog dec c k (pg, pid) prog_clear) = foldl (set_es c k ?pids) i (enumerate 0 ?es)"
    by (simp add: parsed_prog_def assms set_streams_def Let_def i_def p1_def)
  have same: "pid_map_rule_map_psi_pid a b DSW_PID_PCR q pids = pid_map_rule_map_psi_pid a b DSW_PID_VIDEO q pids" for a b q pids
    by (simp add: pid_map_rule_map_psi_pid_def)
  from set_es_fold [OF len, of ?es c k ?pids] obtain ty where
    "info (parsed_prog dec c k (pg, pid) prog_clear) =
     i\<lparr> pcr := (pcr i)\<lparr> pt_type := ty \<rparr>,
        es_data := map (\<lambda>(ty, pid). \<lparr> pt_type = ty, pt_in = pid,
            pt_out = (if pid = pt_in (pcr i) then pt_out (pcr i)
                      else pid_map_rule_map_psi_pid (word_of_nat c) (word_of_nat k) DSW_PID_VIDEO pid ?pids) \<rparr>) ?es
          @ drop (length ?es) (es_data i) \<rparr>"
    unfolding parsed by auto
  then show "\<exists>ty. prog_entries (info (parsed_prog dec c k (pg, pid) prog_clear))
      = \<lparr> pt_type = PID_TYPE_PMT, pt_in = pid,
          pt_out = pid_map_rule_map_psi_pid (word_of_nat c) (word_of_nat k) DSW_PID_PMT pid [] \<rparr>
        # map (stream_entry (\<lambda>p. pid_map_rule_map_psi_pid (word_of_nat c) (word_of_nat k) DSW_PID_VIDEO p ?pids))
            ((ty, pcr_pid) # ?es) @ replicate (PROGRAM_DATA_PID_MAX_NUM - length es) pad_entry"
    "prog_num (info (parsed_prog dec c k (pg, pid) prog_clear)) = pg"
    by (auto simp: prog_entries_def i_def p1_def set_program_def prog_clear_def entry_clear_def pad_entry_def
        stream_entry_def same min_def)
qed

lemma scan_program_pids_simps:
  "set (scan_program_pids pcr_pid es) = insert pcr_pid (snd ` set es)"
  "length (scan_program_pids pcr_pid es) \<le> length es + 1"
  by (auto simp: scan_program_pids_def intro: length_filter_le [THEN le_trans])

text \<open>The proposals of the rule satisfy the checks a selected program must pass.\<close>

lemma proposals_valid:
  assumes "prog_entries (info p) = \<lparr> pt_type = PID_TYPE_PMT, pt_in = pid,
          pt_out = pid_map_rule_map_psi_pid (word_of_nat c) (word_of_nat k) DSW_PID_PMT pid [] \<rparr>
        # map (stream_entry (\<lambda>p. pid_map_rule_map_psi_pid (word_of_nat c) (word_of_nat k) DSW_PID_VIDEO p
              (scan_program_pids pcr_pid es))) ((ty, pcr_pid) # es) @ replicate n pad_entry"
    and "c < CHANNEL_MAX_NUM" "k < 32" "length es \<le> PROGRAM_DATA_PID_MAX_NUM"
    and "pid \<notin> insert pcr_pid (snd ` set es)" "DATA_PID_PAD_VALUE \<notin> insert pid (insert pcr_pid (snd ` set es))"
  shows "valid_program_pids p = enm_prog_pid_valid"
proof -
  let ?pids = "scan_program_pids pcr_pid es"
  define out where "out = (\<lambda>p. pid_map_rule_map_psi_pid (word_of_nat c) (word_of_nat k) DSW_PID_VIDEO p ?pids)"
  define po where "po = pid_map_rule_map_psi_pid (word_of_nat c) (word_of_nat k) DSW_PID_PMT pid []"
  have len: "length ?pids \<le> 15" using scan_program_pids_simps(2) [of pcr_pid es] assms(4) by (simp add: limit_simps)
  have po: "unat po = 0x100 + c * 0x200 + 16 * k" unfolding po_def by (rule proposed_pmt_out [OF assms(2,3)])
  have out: "unat (out q) = 0x101 + c * 0x200 + 16 * k + length (filter (\<lambda>x. x < q) ?pids)"
    "length (filter (\<lambda>x. x < q) ?pids) \<le> 14" if "q \<in> set ?pids" for q
    using proposed_out [OF _ assms(2,3) len that, of DSW_PID_VIDEO] by (simp_all add: out_def)
  have inj: "inj_on out (set ?pids)"
  proof (rule linorder_inj_onI')
    fix q r
    assume "q \<in> set ?pids" "r \<in> set ?pids" "q < r"
    with out(1) filter_less_mono [of q r ?pids] have "unat (out q) < unat (out r)" by simp
    then show "out q \<noteq> out r" by auto
  qed
  have valid: "prog_pid_val_isvalid x \<and> x \<noteq> DATA_PID_PAD_VALUE" if "x = po \<or> (\<exists>q \<in> set ?pids. x = out q)" for x
  proof -
    have "0x100 \<le> unat x \<and> unat x < 0x1FFE"
      using that
    proof (elim disjE bexE)
      fix q
      assume "q \<in> set ?pids" "x = out q"
      with out [of q] assms(2,3) show ?thesis by (simp add: limit_simps)
    qed (use po assms(2,3) in \<open>simp add: limit_simps\<close>)
    then show ?thesis
      by (auto simp: prog_pid_val_isvalid_def defProgPidMin_def defProgPidMax_def NULL_PID_def
          DATA_PID_PAD_VALUE_def word_le_nat_alt)
  qed
  have entries: "prog_entries (info p) = \<lparr> pt_type = PID_TYPE_PMT, pt_in = pid, pt_out = po \<rparr>
      # stream_entry out (ty, pcr_pid) # map (stream_entry out) es @ replicate n pad_entry"
    using assms(1) by (simp add: po_def out_def)
  define f where "f = (\<lambda>q. if q = pid then po else if q = DATA_PID_PAD_VALUE then DATA_PID_PAD_VALUE else out q)"
  have pids: "insert pcr_pid (snd ` set es) = set ?pids" by (simp add: scan_program_pids_simps(1))
  have "pid_relation_ok (prog_entries (info p))"
  proof (rule relation_by_function [where f = f])
    show "\<forall>e \<in> set (prog_entries (info p)). pt_out e = f (pt_in e)"
      using assms(5,6) by (auto simp: entries f_def stream_entry_def pad_entry_def image_iff)
    have "pt_in ` set (prog_entries (info p)) \<subseteq> insert pid (insert DATA_PID_PAD_VALUE (set ?pids))"
      by (auto simp: entries stream_entry_def pad_entry_def scan_program_pids_simps(1) rev_image_eqI)
    moreover have "inj_on f (insert pid (insert DATA_PID_PAD_VALUE (set ?pids)))"
    proof (rule inj_onI)
      fix x y
      assume "x \<in> insert pid (insert DATA_PID_PAD_VALUE (set ?pids))" "y \<in> insert pid (insert DATA_PID_PAD_VALUE (set ?pids))"
        and eq: "f x = f y"
      moreover have "po \<noteq> out q" if "q \<in> set ?pids" for q
        using po out(1) [OF that] by auto
      ultimately show "x = y"
        using valid [of po] valid inj assms(5,6) unfolding pids
        by (auto simp: f_def split: if_splits dest: inj_onD)
    qed
    ultimately show "inj_on f (pt_in ` set (prog_entries (info p)))" by (rule inj_on_subset [rotated])
  qed
  moreover have "prog_pid_val_isvalid (pt_out (pmt (info p)))" "prog_pid_val_isvalid (pt_out (pcr (info p)))"
    using entries valid [of po] valid [of "out pcr_pid"] pids by (auto simp: prog_entries_def stream_entry_def)
  moreover have "data_out_ok (pt_out e)" if "e \<in> set (es_data (info p))" for e
  proof -
    have "prog_pid_val_isvalid (out b)" if "(a, b) \<in> set es" for a b
      using valid [of "out b"] pids that by (metis imageI insertI2 snd_conv)
    then show ?thesis
      using entries that by (auto simp: prog_entries_def stream_entry_def data_out_ok_def pad_entry_def)
  qed
  ultimately show ?thesis by (simp add: valid_program_pids_def list_all_iff)
qed

lemma nameless_eq:
  assumes "nameless p = nameless q"
  shows "prog_entries (info p) = prog_entries (info q)" "prog_num (info p) = prog_num (info q)"
proof -
  have "prog_entries (info (nameless p)) = prog_entries (info p)" "prog_num (info (nameless p)) = prog_num (info p)" for p
    by (simp_all add: nameless_def prog_entries_def)
  with assms show "prog_entries (info p) = prog_entries (info q)" "prog_num (info p) = prog_num (info q)" by metis+
qed



end
