(* ===== verification/PsiWorker.thy ===== *)
theory PsiWorker
  imports Config
begin

text \<open>
  \<^verbatim>\<open>src/psi_worker.c\<close>: one analysis at a time, requested by the board or the SNMP manager and run
  by a thread of its own. Requests and the turns of the thread interleave.
\<close>

section \<open>The worker\<close>

text \<open>
  The queue holds the requests not yet taken: \<^verbatim>\<open>message_queue_put_message_block\<close> adds at the head,
  where the thread takes. \<open>running\<close> is the manager whose analysis the thread runs, \<open>parses\<close> the
  managers of the analyses that ended.
\<close>

datatype worker_msg = Parse | Quit

record psi_worker =
  psi_parsing_active_manager :: "u8 option"
  psi_worker_mq :: "worker_msg list"
  running :: "u8 option"
  parses :: "u8 list"
  quitted :: bool

definition psi_worker_request_parse_psi :: "u8 \<Rightarrow> psi_worker \<Rightarrow> int \<times> psi_worker" where
  "psi_worker_request_parse_psi request_manager w =
     (case psi_parsing_active_manager w of
        Some m \<Rightarrow> (-1, w)
      | None \<Rightarrow> (0, w\<lparr> psi_parsing_active_manager := Some request_manager,
                      psi_worker_mq := Parse # psi_worker_mq w \<rparr>))"

text \<open>
  One turn of the thread: it takes a message, the newest first, or ends the analysis it is running.
  The manager is read when the analysis starts.
\<close>

definition psi_worker_thread :: "psi_worker \<Rightarrow> psi_worker" where
  "psi_worker_thread w =
     (case running w of
        Some m \<Rightarrow> w\<lparr> running := None, psi_parsing_active_manager := None, parses := parses w @ [m] \<rparr>
      | None \<Rightarrow>
          (if quitted w then w
           else case psi_worker_mq w of
             [] \<Rightarrow> w
           | Parse # q \<Rightarrow> w\<lparr> psi_worker_mq := q,
               running := Some (if psi_parsing_active_manager w = Some MANAGEMENT_MODE_FP
                                then MANAGEMENT_MODE_FP else MANAGEMENT_MODE_SNMP) \<rparr>
           | Quit # q \<Rightarrow> w\<lparr> psi_worker_mq := q, quitted := True \<rparr>))"

definition psi_worker_close :: "psi_worker \<Rightarrow> psi_worker" where
  "psi_worker_close w = w\<lparr> psi_worker_mq := Quit # psi_worker_mq w \<rparr>"

definition psi_worker_open :: psi_worker where
  "psi_worker_open = \<lparr> psi_parsing_active_manager = None, psi_worker_mq = [], running = None, parses = [], quitted = False \<rparr>"

datatype worker_event = Request u8 | Turn | Close

fun worker_run :: "worker_event list \<Rightarrow> u8 list \<times> psi_worker \<Rightarrow> u8 list \<times> psi_worker" where
  "worker_run [] aw = aw"
| "worker_run (Request m # es) (accepted, w) =
     (let (rc, w') = psi_worker_request_parse_psi m w
      in worker_run es (if rc = 0 then accepted @ [m] else accepted, w'))"
| "worker_run (Turn # es) (accepted, w) = worker_run es (accepted, psi_worker_thread w)"
| "worker_run (Close # es) (accepted, w) = worker_run es (accepted, psi_worker_close w)"

text \<open>
  The accepted requests are the ended analyses and the active one; the active one is waiting in the
  queue or running.
\<close>

definition worker_inv :: "u8 list \<Rightarrow> psi_worker \<Rightarrow> bool" where
  "worker_inv accepted w \<longleftrightarrow>
     accepted = parses w @ (case psi_parsing_active_manager w of None \<Rightarrow> [] | Some m \<Rightarrow> [m])
     \<and> psi_parsing_active_manager w \<in> {None, Some MANAGEMENT_MODE_SNMP, Some MANAGEMENT_MODE_FP}
     \<and> (running w = None \<or> running w = psi_parsing_active_manager w)
     \<and> (Parse \<in> set (psi_worker_mq w) \<longleftrightarrow> running w = None \<and> psi_parsing_active_manager w \<noteq> None)
     \<and> length (filter (\<lambda>m. m = Parse) (psi_worker_mq w)) \<le> 1"

lemma worker_inv_open: "worker_inv [] psi_worker_open"
  by (simp add: worker_inv_def psi_worker_open_def)

lemma worker_inv_request:
  "worker_inv accepted w \<Longrightarrow> m \<in> {MANAGEMENT_MODE_SNMP, MANAGEMENT_MODE_FP} \<Longrightarrow>
   psi_worker_request_parse_psi m w = (rc, w') \<Longrightarrow>
   worker_inv (if rc = 0 then accepted @ [m] else accepted) w'"
  by (auto simp: worker_inv_def psi_worker_request_parse_psi_def filter_empty_conv
      split: option.splits)

lemma worker_inv_turn: "worker_inv accepted w \<Longrightarrow> worker_inv accepted (psi_worker_thread w)"
  by (auto simp: worker_inv_def psi_worker_thread_def filter_empty_conv
      split: option.splits list.splits worker_msg.splits if_splits)

lemma worker_inv_close: "worker_inv accepted w \<Longrightarrow> worker_inv accepted (psi_worker_close w)"
  by (auto simp: worker_inv_def psi_worker_close_def split: option.splits)

lemma worker_run_inv:
  assumes "worker_inv accepted w" "\<forall>m. Request m \<in> set es \<longrightarrow> m \<in> {MANAGEMENT_MODE_SNMP, MANAGEMENT_MODE_FP}"
    and "worker_run es (accepted, w) = (accepted', w')"
  shows "worker_inv accepted' w'"
  using assms
proof (induction es arbitrary: accepted w)
  case (Cons e es)
  show ?case
  proof (cases e)
    case (Request m)
    obtain rc u where u: "psi_worker_request_parse_psi m w = (rc, u)" by fastforce
    from Cons.prems Request have "m \<in> {MANAGEMENT_MODE_SNMP, MANAGEMENT_MODE_FP}" by simp
    from worker_inv_request [OF Cons.prems(1) this u] Cons.IH Cons.prems Request u show ?thesis
      by (simp add: Let_def)
  next
    case Turn
    with Cons.IH [OF worker_inv_turn] Cons.prems show ?thesis by simp
  next
    case Close
    with Cons.IH [OF worker_inv_close] Cons.prems show ?thesis by simp
  qed
qed simp

text \<open>Without a \<open>Close\<close> the thread does not end.\<close>

definition open_worker :: "psi_worker \<Rightarrow> bool" where
  "open_worker w \<longleftrightarrow> \<not> quitted w \<and> Quit \<notin> set (psi_worker_mq w)"

lemma worker_run_open:
  assumes "open_worker w" "Close \<notin> set es" "worker_run es (accepted, w) = (accepted', w')"
  shows "open_worker w'"
  using assms
proof (induction es arbitrary: accepted w)
  case (Cons e es)
  show ?case
  proof (cases e)
    case (Request m)
    obtain rc u where u: "psi_worker_request_parse_psi m w = (rc, u)" by fastforce
    with Cons.prems(1) have "open_worker u"
      by (auto simp: open_worker_def psi_worker_request_parse_psi_def split: option.splits)
    with Cons.IH Cons.prems Request u show ?thesis by (simp add: Let_def)
  next
    case Turn
    from Cons.prems(1) have "open_worker (psi_worker_thread w)"
      by (auto simp: open_worker_def psi_worker_thread_def
          split: option.splits list.splits worker_msg.splits)
    with Cons.IH Cons.prems Turn show ?thesis by simp
  qed (use Cons.prems in auto)
qed simp

lemma worker_two_turns:
  assumes "worker_inv accepted w" "open_worker w"
  shows "parses (psi_worker_thread (psi_worker_thread w)) = accepted"
proof (cases "running w")
  case None
  show ?thesis
  proof (cases "psi_worker_mq w")
    case Nil
    with None assms show ?thesis by (auto simp: worker_inv_def psi_worker_thread_def split: option.splits)
  next
    case (Cons m q)
    with None assms show ?thesis
      by (cases m) (auto simp: worker_inv_def open_worker_def psi_worker_thread_def split: option.splits)
  qed
next
  case (Some m)
  with assms have "Parse \<notin> set (psi_worker_mq w)" "Quit \<notin> set (psi_worker_mq w)"
    by (auto simp: worker_inv_def open_worker_def)
  then have "psi_worker_mq w = []" by (cases "psi_worker_mq w") (auto, metis worker_msg.exhaust)
  with Some assms show ?thesis by (auto simp: worker_inv_def psi_worker_thread_def)
qed

text \<open>C7: However requests and turns of the thread interleave, a request is accepted exactly when no
  accepted one is unfinished; each accepted request leads to exactly one analysis, by the manager that
  asked for it and in the order of acceptance; and the thread, while it is not closed, ends the
  outstanding one within two turns.\<close>

theorem every_request_served:
  assumes "\<forall>m. Request m \<in> set es \<longrightarrow> m \<in> {MANAGEMENT_MODE_SNMP, MANAGEMENT_MODE_FP}"
    and "worker_run es ([], psi_worker_open) = (accepted, w)"
  shows "(\<exists>waiting. accepted = parses w @ waiting \<and> length waiting \<le> 1
      \<and> (fst (psi_worker_request_parse_psi m w) = 0 \<longleftrightarrow> waiting = []))
    \<and> (Close \<notin> set es \<longrightarrow> parses (psi_worker_thread (psi_worker_thread w)) = accepted)"
proof
  have inv: "worker_inv accepted w" by (rule worker_run_inv [OF worker_inv_open assms])
  then show "\<exists>waiting. accepted = parses w @ waiting \<and> length waiting \<le> 1
      \<and> (fst (psi_worker_request_parse_psi m w) = 0 \<longleftrightarrow> waiting = [])"
    by (auto simp: worker_inv_def psi_worker_request_parse_psi_def split: option.splits)
  have "open_worker psi_worker_open" by (simp add: open_worker_def psi_worker_open_def)
  from worker_run_open [OF this _ assms(2)] worker_two_turns [OF inv]
  show "Close \<notin> set es \<longrightarrow> parses (psi_worker_thread (psi_worker_thread w)) = accepted" by blast
qed

theorem every_request_served_witness:
  "fst (worker_run [Request 0x55, Turn, Request 0xAA, Turn, Request 0xAA] ([], psi_worker_open)) = [0x55, 0xAA]
   \<and> parses (psi_worker_thread (psi_worker_thread
        (snd (worker_run [Request 0x55, Turn, Request 0xAA, Turn, Request 0xAA] ([], psi_worker_open))))) = [0x55, 0xAA]"
proof -
  let ?es = "[Request 0x55, Turn, Request 0xAA, Turn, Request 0xAA]"
  let ?r = "worker_run ?es ([], psi_worker_open)"
  have acc: "fst ?r = [0x55, 0xAA]" by code_simp
  have mm: "\<forall>m. Request m \<in> set ?es \<longrightarrow> m \<in> {MANAGEMENT_MODE_SNMP, MANAGEMENT_MODE_FP}"
    by (auto simp: MANAGEMENT_MODE_SNMP_def MANAGEMENT_MODE_FP_def)
  from every_request_served [OF mm prod.collapse [symmetric]] acc show ?thesis by simp
qed

end
