(* ===== verification/SWait.thy ===== *)
theory SWait
  imports Wire
begin

text \<open>
  \<^verbatim>\<open>src/libwu/wuswait.c\<close>: one thread waits for data that another one hands over. The waiting loop
  polls; what the other threads do between two polls is the parameter \<open>others\<close>.
\<close>

record wu_swait =
  sw_alive :: bool
  sw_setted :: bool
  sw_data :: "u8 list option"

definition wu_swait_init :: "wu_swait \<Rightarrow> wu_swait" where
  "wu_swait_init s = s\<lparr> sw_alive := False, sw_setted := False \<rparr>"

definition wu_swait_is_alive :: "wu_swait \<Rightarrow> bool" where
  "wu_swait_is_alive s = sw_alive s"

definition wu_swait_wakeup :: "u8 list \<Rightarrow> wu_swait \<Rightarrow> int \<times> wu_swait" where
  "wu_swait_wakeup bytes s =
     (if \<not> sw_alive s \<or> sw_setted s then (-1, s)
      else (0, s\<lparr> sw_data := Some bytes, sw_setted := True \<rparr>))"

text \<open>The loop tests a counter that it does not change.\<close>

partial_function (option) wait_loop ::
  "(nat \<Rightarrow> wu_swait \<Rightarrow> wu_swait) \<Rightarrow> int \<Rightarrow> nat \<Rightarrow> wu_swait \<Rightarrow> wu_swait option" where
  "wait_loop others cnt k s =
     (if cnt > 0 then if sw_setted s then Some s else wait_loop others cnt (k + 1) (others k s) else Some s)"

definition wu_swait_timedwait ::
  "(nat \<Rightarrow> wu_swait \<Rightarrow> wu_swait) \<Rightarrow> int \<Rightarrow> wu_swait \<Rightarrow> (u8 list option \<times> wu_swait) option" where
  "wu_swait_timedwait others usec s =
     (let cnt = usec div 10000;
          cnt = (if cnt \<le> 0 then 1 else cnt)
      in do {
        s \<leftarrow> wait_loop others cnt 0 (s\<lparr> sw_alive := True, sw_setted := False \<rparr>);
        Some (sw_data s, s\<lparr> sw_alive := False, sw_setted := False \<rparr>)
      })"

section \<open>Waiting\<close>

text \<open>The state at the \<open>k\<close>-th poll.\<close>

fun poll :: "(nat \<Rightarrow> wu_swait \<Rightarrow> wu_swait) \<Rightarrow> nat \<Rightarrow> wu_swait \<Rightarrow> nat \<Rightarrow> wu_swait" where
  "poll others k s 0 = s"
| "poll others k s (Suc n) = poll others (k + 1) (others k s) n"

lemma wait_loop_found:
  "cnt > 0 \<Longrightarrow> sw_setted (poll others k s n) \<Longrightarrow> (\<forall>m < n. \<not> sw_setted (poll others k s m)) \<Longrightarrow>
     wait_loop others cnt k s = Some (poll others k s n)"
proof (induction n arbitrary: k s)
  case 0
  then show ?case by (subst wait_loop.simps) simp
next
  case (Suc n)
  from Suc.prems(3) have "\<not> sw_setted s" by force
  moreover have "\<forall>m < n. \<not> sw_setted (poll others (k + 1) (others k s) m)"
    using Suc.prems(3) by force
  ultimately show ?case
    using Suc.IH [OF Suc.prems(1)] Suc.prems by (subst wait_loop.simps) simp
qed

lemma wait_loop_result:
  assumes "wait_loop others cnt k s = Some r" "cnt > 0"
  shows "\<exists>n. sw_setted (poll others k s n)"
proof -
  have "cnt > 0 \<longrightarrow> (\<exists>n. sw_setted (poll others k s n))"
    using assms(1)
  proof (rule wait_loop.raw_induct [rotated], goal_cases)
    case (1 wl others cnt k s y)
    then show ?case
    proof (cases "cnt > 0 \<and> \<not> sw_setted s")
      case True
      with 1(2) have "wl others cnt (k + 1) (others k s) = Some y" by simp
      from 1(1) [OF this] True obtain n where "sw_setted (poll others (k + 1) (others k s) n)" by blast
      then have "sw_setted (poll others k s (Suc n))" by simp
      then show ?thesis by blast
    next
      case False
      then have "cnt > 0 \<longrightarrow> sw_setted (poll others k s 0)" by auto
      then show ?thesis by blast
    qed
  qed
  with assms(2) show ?thesis by blast
qed

lemma wait_loop_iff:
  assumes "cnt > 0"
  shows "wait_loop others cnt k s
    = (if \<exists>n. sw_setted (poll others k s n) then Some (poll others k s (LEAST n. sw_setted (poll others k s n))) else None)"
proof (cases "\<exists>n. sw_setted (poll others k s n)")
  case True
  from LeastI_ex [OF True] not_less_Least have "wait_loop others cnt k s
      = Some (poll others k s (LEAST n. sw_setted (poll others k s n)))"
    by (intro wait_loop_found [OF assms]) auto
  with True show ?thesis by simp
next
  case False
  with wait_loop_result [OF _ assms] have "wait_loop others cnt k s = None"
    by (metis option.exhaust)
  with False show ?thesis by simp
qed

text \<open>C26: The wait with a timeout does not time out: it returns exactly when some other thread hands data
  over, however long that takes, and with the data at that moment; the given time makes no
  difference.\<close>

theorem timedwait_never_times_out:
  "wu_swait_timedwait others usec s =
     (let s0 = s\<lparr> sw_alive := True, sw_setted := False \<rparr>
      in if \<exists>n. sw_setted (poll others 0 s0 n)
         then let r = poll others 0 s0 (LEAST n. sw_setted (poll others 0 s0 n))
              in Some (sw_data r, r\<lparr> sw_alive := False, sw_setted := False \<rparr>)
         else None)"
proof -
  have "(if usec div 10000 \<le> 0 then 1 else usec div 10000) > 0" by simp
  from wait_loop_iff [OF this] show ?thesis
    by (simp add: wu_swait_timedwait_def Let_def)
qed

end
