(* ===== verification/FpBoard.thy ===== *)
theory FpBoard
  imports FpProto ConfigStore PsiGen FpPsiParse PsiWorker SWait
begin

unbundle bit_operations_syntax

text \<open>
  The whole board and the commands of the front panel: \<^verbatim>\<open>src/front_panel_process.c\<close>, the received
  commands of \<^verbatim>\<open>src/front_panel.c\<close>, the change of the management mode and the setters of
  \<^verbatim>\<open>src/xmux_misc.c\<close>, \<^verbatim>\<open>src/xmux_4_chan_rf.c\<close> and the serial line to the control MCU. The
  record extends the state of the configuration store with the globals of the other components;
  what is written to the hardware is a log.
\<close>

section \<open>State\<close>

datatype hw_event =
    OutputBitrate u32 | PacketLength u8 | PidMapWrite hfpga_pid_map | PsiBuffer nat "u8 list"
  | NetParam u32 u32 u32 "u8 list" | CiMaxCnt u8 | McuSent "u8 list"

record board = xmux +
  fp :: fp_state
  old_prog :: prog_info_t
  psi_parse :: psi_parse_state
  worker :: psi_worker
  input_pid_table :: "u16 list"
  login_flag :: u16
  sg_mib_pid_trans_info :: "pid_trans_info_snmp_data list"
  sg_mib_trans_table :: xmux_pid_map_table
  fp_expect_cmd :: "u16 option"
  fp_swait :: wu_swait
  hw :: "hw_event list"

text \<open>
  What comes from outside: the SI encoder, the generator contexts as the memory holds them, the
  status of the inputs, the name of the CI card, and what the control MCU answers to a frame.
\<close>

record board_env =
  env_enc :: si_encoder
  env_pat_ctx :: pat_gen_context
  env_gen_ctx :: pid_map_table_gen_context
  env_ts_status :: "int \<times> u16"
  env_ci_name :: "u8 list"
  env_mcu_line :: "u8 list \<Rightarrow> u8 list"

definition log_hw :: "hw_event list \<Rightarrow> board \<Rightarrow> board" where
  "log_hw es b = b\<lparr> hw := hw b @ es \<rparr>"

section \<open>Output parameters\<close>

definition set_output_bitrate :: "u32 \<Rightarrow> board \<Rightarrow> board" where
  "set_output_bitrate new_bitrate b =
     xmux_config_save_output_bitrate new_bitrate (log_hw [OutputBitrate new_bitrate] b)"

definition set_packet_format :: "u8 \<Rightarrow> board \<Rightarrow> board" where
  "set_packet_format new_fmt b =
     (if new_fmt \<noteq> FORMAT_BC \<and> new_fmt \<noteq> FORMAT_CC then b
      else xmux_config_save_packet_format new_fmt (log_hw [PacketLength new_fmt] b))"

definition xmux_net_set :: "xmux_net_param \<Rightarrow> board \<Rightarrow> board" where
  "xmux_net_set net b =
     xmux_config_save_net_param net (log_hw [NetParam (ip net) (netmask net) (gateway net) (mac net)] b)"

definition xmux_ci_info_update :: "ci_info_param \<Rightarrow> board \<Rightarrow> board" where
  "xmux_ci_info_update ci b =
     log_hw [CiMaxCnt (if ci_max_descramble_num ci < 1 then 1 else ci_max_descramble_num ci)] b"

section \<open>The management mode\<close>

definition SNMP_LOGIN_STATUS_SUCCESS :: u16 where "SNMP_LOGIN_STATUS_SUCCESS = 0"
definition SNMP_LOGIN_STATUS_BUSY :: u16 where "SNMP_LOGIN_STATUS_BUSY = 1"
definition SNMP_LOGIN_STATUS_USER_NAME_INVALID :: u16 where "SNMP_LOGIN_STATUS_USER_NAME_INVALID = 2"
definition SNMP_LOGIN_STATUS_PASSWORD_INVALID :: u16 where "SNMP_LOGIN_STATUS_PASSWORD_INVALID = 3"
definition SNMP_LOGIN_STATUS_IDLE :: u16 where "SNMP_LOGIN_STATUS_IDLE = 4"

lemmas login_codes = SNMP_LOGIN_STATUS_SUCCESS_def SNMP_LOGIN_STATUS_BUSY_def
  SNMP_LOGIN_STATUS_USER_NAME_INVALID_def SNMP_LOGIN_STATUS_PASSWORD_INVALID_def SNMP_LOGIN_STATUS_IDLE_def

text \<open>What changed since the last time goes to the objects of the SNMP manager.\<close>

definition leave_fp_management_mode :: "board \<Rightarrow> board" where
  "leave_fp_management_mode b =
     (let b = b\<lparr> login_flag := SNMP_LOGIN_STATUS_IDLE \<rparr>;
          i = g_param_mng_info b;
          b = (if eeprom_pid_trans_info_version i \<noteq> snmp_pid_trans_info_version i
               then b\<lparr> g_param_mng_info := i\<lparr> snmp_pid_trans_info_version := eeprom_pid_trans_info_version i \<rparr>,
                       sg_mib_pid_trans_info := p_pid_trans_info (g_eeprom_param b) \<rparr>
               else b);
          i = g_param_mng_info b;
          b = (if eeprom_pid_map_table_version i \<noteq> snmp_pid_map_table_version i
               then b\<lparr> g_param_mng_info := i\<lparr> snmp_pid_map_table_version := eeprom_pid_map_table_version i \<rparr>,
                       sg_mib_trans_table := p_pid_map_table (g_eeprom_param b) \<rparr>
               else b)
      in xmux_config_save_management_mode (b\<lparr> management_mode := MANAGEMENT_MODE_SNMP \<rparr>))"

definition enter_fp_management_mode :: "board \<Rightarrow> board option" where
  "enter_fp_management_mode b =
     do {
       let b = b\<lparr> login_flag := SNMP_LOGIN_STATUS_BUSY \<rparr>;
       s \<leftarrow> pid_trans_info_2_prog_info (p_pid_trans_info (g_eeprom_param b)) (fp b);
       t \<leftarrow> fp_build_program_input_pid_table s;
       Some (xmux_config_save_management_mode
         (b\<lparr> fp := s, input_pid_table := t, management_mode := MANAGEMENT_MODE_FP \<rparr>))
     }"

section \<open>Commands\<close>

definition FP_CMD_OUT_RATE :: u16 where "FP_CMD_OUT_RATE = 0x201"
definition FP_CMD_NET :: u16 where "FP_CMD_NET = 0x202"
definition FP_CMD_SYS :: u16 where "FP_CMD_SYS = 0x203"
definition FP_CMD_TUNNER1_PARAM :: u16 where "FP_CMD_TUNNER1_PARAM = 0x204"
definition FP_CMD_TUNNER1_STATUS :: u16 where "FP_CMD_TUNNER1_STATUS = 0x205"
definition FP_CMD_TUNNER2_PARAM :: u16 where "FP_CMD_TUNNER2_PARAM = 0x206"
definition FP_CMD_TUNNER2_STATUS :: u16 where "FP_CMD_TUNNER2_STATUS = 0x207"
definition FP_CMD_BCM3033 :: u16 where "FP_CMD_BCM3033 = 0x208"
definition FP_CMD_CI_INFO :: u16 where "FP_CMD_CI_INFO = 0x209"
definition FP_CMD_SEL_SRC :: u16 where "FP_CMD_SEL_SRC = 0x20A"

lemmas fp_cmds = FP_CMD_OUT_RATE_def FP_CMD_NET_def FP_CMD_SYS_def FP_CMD_TUNNER1_PARAM_def
  FP_CMD_TUNNER1_STATUS_def FP_CMD_TUNNER2_PARAM_def FP_CMD_TUNNER2_STATUS_def FP_CMD_BCM3033_def
  FP_CMD_CI_INFO_def FP_CMD_SEL_SRC_def

definition FP_SYS_CMD_ENTER_FP_MANAGEMENT_MODE :: u16 where "FP_SYS_CMD_ENTER_FP_MANAGEMENT_MODE = 1"
definition FP_SYS_CMD_LEAVE_FP_MANAGEMENT_MODE :: u16 where "FP_SYS_CMD_LEAVE_FP_MANAGEMENT_MODE = 2"
definition FP_SYS_CMD_START_ANALYSE_PSI :: u16 where "FP_SYS_CMD_START_ANALYSE_PSI = 3"
definition FP_SYS_CMD_READ_MAP_ANALYSE_STATUS :: u16 where "FP_SYS_CMD_READ_MAP_ANALYSE_STATUS = 4"
definition FP_SYS_CMD_READ_TS_STATUS :: u16 where "FP_SYS_CMD_READ_TS_STATUS = 5"
definition FP_SYS_CMD_APPLY_MAP_ANALYSE :: u16 where "FP_SYS_CMD_APPLY_MAP_ANALYSE = 6"
definition FP_SYS_CMD_RESET_NET :: u16 where "FP_SYS_CMD_RESET_NET = 7"

lemmas sys_cmds = FP_SYS_CMD_ENTER_FP_MANAGEMENT_MODE_def FP_SYS_CMD_LEAVE_FP_MANAGEMENT_MODE_def
  FP_SYS_CMD_START_ANALYSE_PSI_def FP_SYS_CMD_READ_MAP_ANALYSE_STATUS_def FP_SYS_CMD_READ_TS_STATUS_def
  FP_SYS_CMD_APPLY_MAP_ANALYSE_def FP_SYS_CMD_RESET_NET_def

text \<open>
  A handler gives its return code, the response frame (empty when there is none) and the new state.
  \<open>body buf\<close> is the message behind the header; the receive buffer is larger than every message.
\<close>

type_synonym reply = "int \<times> u8 list \<times> board"

definition body :: "u8 list \<Rightarrow> u8 list" where
  "body buf = drop HEADER_SIZE buf"

definition cmd_program_info_handler ::
  "fp_cmd_header \<Rightarrow> bool \<Rightarrow> u8 list \<Rightarrow> board \<Rightarrow> reply option" where
  "cmd_program_info_handler hdr is_read buf b =
     (let prog_idx = unat (seq hdr AND 0x7FFF)
      in if is_read \<and> len hdr > 0 then Some (-1, [], b)
         else if \<not> is_read \<and> len hdr = 0 then Some (-1, [], b)
         else if \<not> prog_present (fp b) prog_idx then Some (-1, [], b)
         else if is_read then do {
           prog \<leftarrow> prog_at (fp b) prog_idx;
           (prog, s) \<leftarrow> prepare_program_output_pid prog_idx prog (fp b);
           Some (1, fp_create_response_cmd hdr (prog_info_2_buf prog), b\<lparr> fp := s, old_prog := prog \<rparr>)
         }
         else do {
           let new_prog = buf_2_prog_info (body buf);
           (ok, s) \<leftarrow> (if FP_PROG_SELECTED new_prog
                       then check_and_select_program prog_idx new_prog (Some (old_prog b)) (fp b)
                       else do { s \<leftarrow> fp_deselect_program prog_idx (fp b); Some (True, s) });
           Some (1, fp_create_response_cmd hdr [0xFF, if ok then 0xFF else 0xFE], b\<lparr> fp := s \<rparr>)
         })"

definition cmd_out_rate_handler :: "fp_cmd_header \<Rightarrow> bool \<Rightarrow> u8 list \<Rightarrow> board \<Rightarrow> reply option" where
  "cmd_out_rate_handler hdr is_read buf b =
     (if is_read
      then let sys = p_sys (g_eeprom_param b)
           in Some (1, fp_create_response_cmd hdr
                (out_rate_mem \<lparr> or_rate = SWAP_U32 (output_bitrate sys), or_len = format sys \<rparr>), b)
      else let r = buf_2_out_rate (body buf)
           in Some (1, [], set_packet_format (or_len r) (set_output_bitrate (or_rate r) b)))"

record net_eth0 =
  nSvrIp :: "u8 list"
  strMac :: "u8 list"
  LocIp :: "u8 list"
  Mask :: "u8 list"
  gw :: "u8 list"

definition net_eth0_mem :: "net_eth0 \<Rightarrow> u8 list" where
  "net_eth0_mem n = nSvrIp n @ strMac n @ LocIp n @ Mask n @ gw n"

definition net_eth0_of_mem :: "u8 list \<Rightarrow> net_eth0" where
  "net_eth0_of_mem bs = \<lparr> nSvrIp = take 4 bs, strMac = take 6 (drop 4 bs), LocIp = take 4 (drop 10 bs),
     Mask = take 4 (drop 14 bs), gw = take 4 (drop 18 bs) \<rparr>"

definition fp_net_2_xmux_net :: "net_eth0 \<Rightarrow> xmux_net_param \<Rightarrow> xmux_net_param" where
  "fp_net_2_xmux_net fp_net net =
     net\<lparr> server_ip := of_le32 (nSvrIp fp_net), ip := of_le32 (LocIp fp_net), netmask := of_le32 (Mask fp_net),
          gateway := of_le32 (gw fp_net), mac := strMac fp_net \<rparr>"

definition xmux_net_2_fp_net :: "xmux_net_param \<Rightarrow> net_eth0" where
  "xmux_net_2_fp_net net = \<lparr> nSvrIp = le32 (server_ip net), strMac = mac net, LocIp = le32 (ip net),
     Mask = le32 (netmask net), gw = le32 (gateway net) \<rparr>"

text \<open>The local \<^verbatim>\<open>xmux_net\<close> is not initialised; the store sets its check sum, the only field left.\<close>

definition cmd_net_handler :: "fp_cmd_header \<Rightarrow> bool \<Rightarrow> u8 list \<Rightarrow> board \<Rightarrow> reply option" where
  "cmd_net_handler hdr is_read buf b =
     (if is_read
      then Some (1, fp_create_response_cmd hdr (net_eth0_mem (xmux_net_2_fp_net (p_net (g_eeprom_param b)))), b)
      else Some (1, [], xmux_net_set (fp_net_2_xmux_net (net_eth0_of_mem (body buf)) (p_net (g_eeprom_param b))) b))"

definition cmd_ci_info_handler :: "board_env \<Rightarrow> fp_cmd_header \<Rightarrow> bool \<Rightarrow> u8 list \<Rightarrow> board \<Rightarrow> reply option" where
  "cmd_ci_info_handler env hdr is_read buf b =
     (if is_read
      then Some (1, fp_create_response_cmd hdr
             (ci_mem ((ci_info (p_misc (g_eeprom_param b)))\<lparr> ci_name := env_ci_name env \<rparr>)), b)
      else let ci = ci_of_mem (body buf)
           in Some (1, [], xmux_ci_info_update ci (xmux_config_save_ci_info ci b)))"

definition cmd_sel_src_handler :: "fp_cmd_header \<Rightarrow> bool \<Rightarrow> u8 list \<Rightarrow> board \<Rightarrow> reply option" where
  "cmd_sel_src_handler hdr is_read buf b =
     (if is_read then Some (1, fp_create_response_cmd hdr [sel_src (p_misc (g_eeprom_param b))], b)
      else Some (1, [], xmux_config_save_misc_param
             (upd_param (\<lambda>p. p\<lparr> p_misc := (p_misc p)\<lparr> sel_src := body buf ! 0 \<rparr> \<rparr>) b)))"

section \<open>Applying the selection\<close>

definition bump_map_version :: "board \<Rightarrow> board" where
  "bump_map_version b =
     b\<lparr> g_param_mng_info := (g_param_mng_info b)\<lparr>
       eeprom_pid_map_table_version := eeprom_pid_map_table_version (g_param_mng_info b) + 1 \<rparr> \<rparr>"

definition bump_trans_version :: "board \<Rightarrow> board" where
  "bump_trans_version b =
     b\<lparr> g_param_mng_info := (g_param_mng_info b)\<lparr>
       eeprom_pid_trans_info_version := eeprom_pid_trans_info_version (g_param_mng_info b) + 1 \<rparr> \<rparr>"

definition apply_pid_map :: "board_env \<Rightarrow> board \<Rightarrow> board option" where
  "apply_pid_map env b =
     do {
       (m, mux, lost) \<leftarrow> pid_map_table_gen_and_apply_from_fp (env_gen_ctx env) (fp b);
       let b = upd_param (\<lambda>p. p\<lparr> p_mux_prog_info := mux \<rparr>) b;
       Some (bump_map_version (log_hw [PidMapWrite m] (xmux_config_save_pid_map_table (pid_map m) b)))
     }"

definition apply_psi :: "board_env \<Rightarrow> board \<Rightarrow> board option" where
  "apply_psi env b =
     do {
       (psi, writes) \<leftarrow> psi_gen_and_apply_from_fp (env_enc env) (env_pat_ctx env) (fp b) (p_output_psi (g_eeprom_param b));
       let b = xmux_config_save_output_psi_data (upd_param (\<lambda>p. p\<lparr> p_output_psi := psi \<rparr>) b);
       Some (log_hw (map (\<lambda>(howto, bytes). PsiBuffer howto bytes) writes) b)
     }"

definition apply_trans :: "board \<Rightarrow> board option" where
  "apply_trans b =
     do {
       table \<leftarrow> prog_info_2_pid_trans_info (fp b) (p_pid_trans_info (g_eeprom_param b));
       b \<leftarrow> xmux_config_save_pid_trans_info_all (upd_param (\<lambda>p. p\<lparr> p_pid_trans_info := table \<rparr>) b);
       Some (bump_trans_version b)
     }"

definition apply_pid_map_table_and_psi :: "board_env \<Rightarrow> board \<Rightarrow> board option" where
  "apply_pid_map_table_and_psi env b =
     do {
       b \<leftarrow> apply_pid_map env b;
       b \<leftarrow> apply_psi env b;
       b \<leftarrow> apply_trans b;
       Some (xmux_config_save_mux_program_info (p_mux_prog_info (g_eeprom_param b)) b)
     }"

section \<open>System commands\<close>

definition reset_net :: "board \<Rightarrow> board" where
  "reset_net b =
     (let b = upd_param (\<lambda>p. p\<lparr> p_net := xmux_net_param_init_default (p_net p) \<rparr>) b;
          b = xmux_net_set (p_net (g_eeprom_param b)) b
      in xmux_system_param_init_default (xmux_user_param_init_default b))"

definition cmd_sys_handler :: "board_env \<Rightarrow> fp_cmd_header \<Rightarrow> u8 list \<Rightarrow> board \<Rightarrow> reply option" where
  "cmd_sys_handler env hdr buf b =
     (let sys_cmd = READ_U16_BE (body buf)
      in if sys_cmd = FP_SYS_CMD_ENTER_FP_MANAGEMENT_MODE then
           (if management_mode b = MANAGEMENT_MODE_SNMP
            then do { b \<leftarrow> enter_fp_management_mode b; Some (-1, [], b) }
            else Some (-1, [], b))
         else if sys_cmd = FP_SYS_CMD_LEAVE_FP_MANAGEMENT_MODE then
           (if management_mode b = MANAGEMENT_MODE_FP then Some (-1, [], leave_fp_management_mode b)
            else Some (-1, [], b))
         else if sys_cmd = FP_SYS_CMD_START_ANALYSE_PSI then
           Some (-1, [], b\<lparr> worker := snd (psi_worker_request_parse_psi MANAGEMENT_MODE_FP (worker b)) \<rparr>)
         else if sys_cmd = FP_SYS_CMD_READ_MAP_ANALYSE_STATUS then
           Some (1, fp_create_response_cmd hdr (take CHANNEL_MAX_NUM (g_chan_num (fp b))), b)
         else if sys_cmd = FP_SYS_CMD_READ_TS_STATUS then
           (let (rc, ts_status) = env_ts_status env
            in Some (1, fp_create_response_cmd hdr [if rc \<ge> 0 then ucast ts_status else 0], b))
         else if sys_cmd = FP_SYS_CMD_APPLY_MAP_ANALYSE then
           do { b \<leftarrow> apply_pid_map_table_and_psi env b; Some (1, [], b) }
         else if sys_cmd = FP_SYS_CMD_RESET_NET then Some (1, [], reset_net b)
         else Some (-1, [], b))"

section \<open>Tuners and modulator\<close>

text \<open>
  With eight channels the tuner functions only clear their result. The modulator is behind the
  control MCU: \<^verbatim>\<open>ctrl_mcu_send_and_recv_cmd\<close> sends a frame and reads the answer, which gives
  the parameters or \<open>None\<close> for the return value -1.
\<close>

definition TUNNER_PARAM_SIZE :: nat where "TUNNER_PARAM_SIZE = 15"
definition TUNNER_STATUS_SIZE :: nat where "TUNNER_STATUS_SIZE = 12"
definition BCM3033_PARAM_SIZE :: nat where "BCM3033_PARAM_SIZE = 11"
definition CTRL_MCU_CMD_BCM3033 :: u16 where "CTRL_MCU_CMD_BCM3033 = 0x104"

definition tunner_get_param :: "nat \<Rightarrow> u8 list" where
  "tunner_get_param tid = replicate TUNNER_PARAM_SIZE 0"

definition tunner_get_status :: "nat \<Rightarrow> u8 list" where
  "tunner_get_status tid = replicate TUNNER_STATUS_SIZE 0"

definition ctrl_mcu_send_and_recv_cmd :: "(u8 list \<Rightarrow> u8 list) \<Rightarrow> u8 list \<Rightarrow> u16 \<Rightarrow> nat \<Rightarrow> u8 list option" where
  "ctrl_mcu_send_and_recv_cmd line send_data expect_cmd expect_param_len =
     (let bytes = line send_data
      in if length bytes < HEADER_SIZE then None
         else if bytes ! 0 \<noteq> defMcuSyncFlag then None
         else (let hdr = buf_2_fp_cmd_header bytes; n = unat (len hdr) + FP_MSG_CRC_SIZE; rest = drop HEADER_SIZE bytes
               in if n + HEADER_SIZE > 256 then None
                  else if length rest < n then None
                  else if seq hdr AND 0x7FFF \<noteq> expect_cmd then None
                  else if n \<noteq> expect_param_len + FP_MSG_CRC_SIZE then None
                  else Some (take expect_param_len rest)))"

definition bcm3033_get_param :: "board_env \<Rightarrow> board \<Rightarrow> u8 list \<times> board" where
  "bcm3033_get_param env b =
     (let param = replicate BCM3033_PARAM_SIZE 0;
          send_buf = fp_build_cmd True CTRL_MCU_CMD_BCM3033 param;
          b = log_hw [McuSent send_buf] b
      in case ctrl_mcu_send_and_recv_cmd (env_mcu_line env) send_buf CTRL_MCU_CMD_BCM3033 BCM3033_PARAM_SIZE of
           Some param \<Rightarrow> (param, b)
         | None \<Rightarrow> (param, b))"

definition bcm3033_set_param :: "u8 list \<Rightarrow> board \<Rightarrow> board" where
  "bcm3033_set_param param b = log_hw [McuSent (fp_build_cmd False CTRL_MCU_CMD_BCM3033 param)] b"

definition rf_switch :: "board_env \<Rightarrow> fp_cmd_header \<Rightarrow> bool \<Rightarrow> u8 list \<Rightarrow> u16 \<Rightarrow> nat \<Rightarrow> board \<Rightarrow> reply" where
  "rf_switch env hdr is_read buf cmd tunner_id b =
     (if cmd = FP_CMD_TUNNER1_PARAM then
        (if is_read then (1, fp_create_response_cmd hdr (tunner_get_param tunner_id), b) else (1, [], b))
      else if cmd = FP_CMD_TUNNER1_STATUS then
        (if is_read then (1, fp_create_response_cmd hdr (tunner_get_status tunner_id), b) else (0, [], b))
      else if cmd = FP_CMD_BCM3033 then
        (if is_read then let (param, b) = bcm3033_get_param env b in (1, fp_create_response_cmd hdr param, b)
         else (1, [], bcm3033_set_param (take BCM3033_PARAM_SIZE (body buf)) b))
      else (0, [], b))"

text \<open>The second tuner reuses the code of the first.\<close>

definition xmux_4_channel_rf_cmds_handler ::
  "board_env \<Rightarrow> fp_cmd_header \<Rightarrow> bool \<Rightarrow> u8 list \<Rightarrow> board \<Rightarrow> reply" where
  "xmux_4_channel_rf_cmds_handler env hdr is_read buf b =
     (let cmd = seq hdr AND 0x7FFF
      in if cmd = FP_CMD_TUNNER2_PARAM \<or> cmd = FP_CMD_TUNNER2_STATUS
         then rf_switch env hdr is_read buf (cmd - 2) 1 b
         else rf_switch env hdr is_read buf cmd 0 b)"

section \<open>A received command\<close>

definition mode_exempt :: "u16 \<Rightarrow> bool \<Rightarrow> u8 list \<Rightarrow> bool" where
  "mode_exempt cmd is_read buf \<longleftrightarrow>
     (if cmd = FP_CMD_SYS
      then READ_U16_BE (body buf) \<in> {FP_SYS_CMD_READ_TS_STATUS, FP_SYS_CMD_ENTER_FP_MANAGEMENT_MODE,
             FP_SYS_CMD_LEAVE_FP_MANAGEMENT_MODE}
      else cmd = FP_CMD_OUT_RATE \<and> is_read)"

definition front_panel_check_recv_cmd :: "u8 list \<Rightarrow> board \<Rightarrow> (int \<times> board) option" where
  "front_panel_check_recv_cmd buf b =
     (let hdr = buf_2_fp_cmd_header buf; cmd = seq hdr AND 0x7FFF; is_read = (seq hdr AND 0x8000 \<noteq> 0)
      in do {
        b \<leftarrow> (if \<not> mode_exempt cmd is_read buf \<and> management_mode b \<noteq> MANAGEMENT_MODE_FP
              then enter_fp_management_mode b else Some b);
        if fp_expect_cmd b = Some cmd
        then do {
          resp_cmd \<leftarrow> fp_cmd_copy (replicate 1024 0) buf;
          Some (1, b\<lparr> fp_swait := snd (wu_swait_wakeup resp_cmd (fp_swait b)) \<rparr>)
        }
        else Some (0, b)
      })"

definition do_parse_mcu_cmd :: "board_env \<Rightarrow> u8 list \<Rightarrow> board \<Rightarrow> reply option" where
  "do_parse_mcu_cmd env buf b =
     (let hdr = buf_2_fp_cmd_header buf; is_read = (seq hdr AND 0x8000 \<noteq> 0); cmd = seq hdr AND 0x7FFF
      in if sync hdr \<noteq> defMcuSyncFlag then Some (0, [], b)
         else do {
           (rc, b) \<leftarrow> front_panel_check_recv_cmd buf b;
           if rc \<noteq> 0 then Some (0, [], b)
           else if unat cmd < PROGRAM_MAX_NUM * CHANNEL_MAX_NUM then cmd_program_info_handler hdr is_read buf b
           else if cmd = FP_CMD_OUT_RATE then cmd_out_rate_handler hdr is_read buf b
           else if cmd = FP_CMD_NET then cmd_net_handler hdr is_read buf b
           else if cmd = FP_CMD_SYS then cmd_sys_handler env hdr buf b
           else if cmd \<in> {FP_CMD_TUNNER1_PARAM, FP_CMD_TUNNER1_STATUS, FP_CMD_TUNNER2_PARAM, FP_CMD_TUNNER2_STATUS,
                           FP_CMD_BCM3033} then Some (xmux_4_channel_rf_cmds_handler env hdr is_read buf b)
           else if cmd = FP_CMD_CI_INFO then cmd_ci_info_handler env hdr is_read buf b
           else if cmd = FP_CMD_SEL_SRC then cmd_sel_src_handler hdr is_read buf b
           else Some (0, [], b)
         })"

section \<open>The serial line\<close>

text \<open>
  The thread of \<^verbatim>\<open>front_panel.c\<close>: \<open>avail\<close> are the bytes that arrive in time, \<open>readed_len\<close> how much
  of a header was read. A turn gives the buffer when a message is complete. A message is taken by its
  length; its check sum is not looked at.
\<close>

record fp_line =
  recv_buf :: "u8 list"
  readed_len :: nat

definition RECV_BUF_SIZE :: nat where "RECV_BUF_SIZE = FP_RECV_MSG_MAX_SIZE + 10"

definition fp_line_timeout :: "fp_line \<Rightarrow> fp_line" where
  "fp_line_timeout l = l\<lparr> readed_len := 0 \<rparr>"

definition fp_line_turn :: "u8 list \<Rightarrow> fp_line \<Rightarrow> (u8 list option \<times> u8 list \<times> fp_line) option" where
  "fp_line_turn avail l =
     (let want = HEADER_SIZE - readed_len l; chunk = take want avail; avail = drop want avail
      in do {
        buf \<leftarrow> mem_write (recv_buf l) (readed_len l) chunk;
        if readed_len l + length chunk \<noteq> HEADER_SIZE
        then Some (None, avail, \<lparr> recv_buf = buf, readed_len = readed_len l + length chunk \<rparr>)
        else if buf ! 0 \<noteq> defMcuSyncFlag then do {
          buf \<leftarrow> mem_write buf 0 (take FP_RECV_MSG_MAX_SIZE avail);
          Some (None, drop FP_RECV_MSG_MAX_SIZE avail, \<lparr> recv_buf = buf, readed_len = 0 \<rparr>)
        }
        else do {
          let n = unat (len (buf_2_fp_cmd_header buf)) + FP_MSG_CRC_SIZE;
          if n + HEADER_SIZE > FP_RECV_MSG_MAX_SIZE then Some (None, avail, \<lparr> recv_buf = buf, readed_len = 0 \<rparr>)
          else do {
            buf \<leftarrow> mem_write buf HEADER_SIZE (take n avail);
            Some (if length (take n avail) = n then Some buf else None, drop n avail,
                  \<lparr> recv_buf = buf, readed_len = 0 \<rparr>)
          }
        }
      })"

end
