(* ===== verification/FpCommands.thy ===== *)
theory FpCommands
  imports FpBoard
begin

unbundle bit_operations_syntax

text \<open>
  What the commands of the front panel promise: the serial line hands over whole messages and never
  writes outside its buffer, a response is a valid frame for its command, the management mode follows
  the commands, no command exceeds the limits of the multiplex, and applying the selection stores
  what it writes to the hardware.
\<close>

section \<open>The serial line\<close>

definition line_ok :: "fp_line \<Rightarrow> bool" where
  "line_ok l \<longleftrightarrow> length (recv_buf l) = RECV_BUF_SIZE \<and> readed_len l < HEADER_SIZE"

lemma mem_write_length: "mem_write m a bs = Some m' \<Longrightarrow> length m' = length m"
  by (auto simp: mem_write_def split: if_splits)

lemma mem_write_fits: "a + length bs \<le> length m \<Longrightarrow> \<exists>m'. mem_write m a bs = Some m' \<and> length m' = length m"
  by (simp add: mem_write_def)

lemmas line_sizes = RECV_BUF_SIZE_def FP_RECV_MSG_MAX_SIZE_def HEADER_SIZE_def FP_MSG_CRC_SIZE_def

lemma line_turn_defined:
  assumes "line_ok l"
  shows "\<exists>m avail' l'. fp_line_turn avail l = Some (m, avail', l') \<and> line_ok l'"
proof -
  let ?chunk = "take (HEADER_SIZE - readed_len l) avail"
  have fits: "readed_len l + length ?chunk \<le> length (recv_buf l)"
    using assms by (auto simp: line_ok_def line_sizes)
  obtain b1 where b1: "mem_write (recv_buf l) (readed_len l) ?chunk = Some b1" "length b1 = RECV_BUF_SIZE"
    using mem_write_fits [of "readed_len l" ?chunk "recv_buf l"] fits assms by (auto simp: line_ok_def)
  let ?avail = "drop (HEADER_SIZE - readed_len l) avail"
  have fits2: "0 + length (take FP_RECV_MSG_MAX_SIZE ?avail) \<le> length b1"
    using b1(2) by (simp add: line_sizes min_def)
  obtain b2 where b2: "mem_write b1 0 (take FP_RECV_MSG_MAX_SIZE ?avail) = Some b2" "length b2 = RECV_BUF_SIZE"
    using mem_write_fits [OF fits2] b1(2) by auto
  let ?n = "unat (len (buf_2_fp_cmd_header b1)) + FP_MSG_CRC_SIZE"
  have b3: "\<exists>b3. mem_write b1 HEADER_SIZE (take ?n ?avail) = Some b3 \<and> length b3 = RECV_BUF_SIZE"
    if "\<not> ?n + HEADER_SIZE > FP_RECV_MSG_MAX_SIZE"
    using b1(2) that by (auto simp: mem_write_def line_sizes min_def)
  have less: "readed_len l + length ?chunk < HEADER_SIZE \<or> readed_len l + length ?chunk = HEADER_SIZE"
    using assms by (auto simp: line_ok_def min_def)
  show ?thesis
    using b1 b2 b3 less
    by (cases "?n + HEADER_SIZE > FP_RECV_MSG_MAX_SIZE")
       (auto simp: fp_line_turn_def Let_def line_ok_def HEADER_SIZE_def)
qed

lemma line_turn_frame:
  assumes "line_ok l" "readed_len l = 0" "length param + HEADER_SIZE + FP_MSG_CRC_SIZE \<le> FP_RECV_MSG_MAX_SIZE"
  shows "\<exists>buf. fp_line_turn (fp_build_cmd is_read cmd param @ rest) l = Some (Some buf, rest, \<lparr> recv_buf = buf, readed_len = 0 \<rparr>)
    \<and> take (length (fp_build_cmd is_read cmd param)) buf = fp_build_cmd is_read cmd param"
proof -
  define hdr where "hdr = \<lparr> sync = defMcuSyncFlag, seq = (if is_read then push_bit 15 1 OR cmd else cmd),
      len = word_of_nat (length param) :: u16 \<rparr>"
  define tail where "tail = param @ [wu_csc (fp_cmd_header_2_buf hdr @ param)]"
  have frame: "fp_build_cmd is_read cmd param = fp_cmd_header_2_buf hdr @ tail"
    by (simp add: fp_build_cmd_def fp_create_response_cmd_def hdr_def tail_def Let_def)
  have hlen: "length (fp_cmd_header_2_buf hdr) = HEADER_SIZE" by (simp add: header.enc_length)
  have plen: "length param < 2 ^ 16" using assms(3) by (simp add: line_sizes)
  have n: "unat (len hdr) = length param" using plen by (simp add: hdr_def unat_of_nat take_bit_nat_eq_self)
  define old where "old = drop HEADER_SIZE (recv_buf l)"
  have buflen: "length (recv_buf l) = RECV_BUF_SIZE" using assms(1) by (simp add: line_ok_def)
  have w1: "mem_write (recv_buf l) 0 (fp_cmd_header_2_buf hdr) = Some (fp_cmd_header_2_buf hdr @ old)"
    using buflen hlen by (simp add: mem_write_def old_def line_sizes)
  have sync0: "(fp_cmd_header_2_buf hdr @ old) ! 0 = defMcuSyncFlag"
    by (simp add: fp_cmd_header_2_buf_def header_mem_def hdr_def)
  have hd: "buf_2_fp_cmd_header (fp_cmd_header_2_buf hdr @ old) = hdr" by (rule header.dec_enc) simp
  have tlen: "length tail = length param + FP_MSG_CRC_SIZE" by (simp add: tail_def FP_MSG_CRC_SIZE_def)
  have w2: "mem_write (fp_cmd_header_2_buf hdr @ old) HEADER_SIZE tail
      = Some (fp_cmd_header_2_buf hdr @ tail @ drop (length tail) old)"
    using hlen buflen tlen assms(3) by (simp add: mem_write_def old_def line_sizes)
  have "fp_line_turn (fp_cmd_header_2_buf hdr @ tail @ rest) l
      = Some (Some (fp_cmd_header_2_buf hdr @ tail @ drop (length tail) old), rest,
          \<lparr> recv_buf = fp_cmd_header_2_buf hdr @ tail @ drop (length tail) old, readed_len = 0 \<rparr>)"
    using assms(2,3) hlen w1 sync0 hd n w2 tlen by (simp add: fp_line_turn_def Let_def)
  then show ?thesis by (simp add: frame)
qed

text \<open>C25: Whatever bytes arrive, a turn of the receiving thread stays inside its buffer; and a command built
  with \<open>fp_build_cmd\<close>, up to the largest message, is handed over whole in one turn, with the bytes
  behind it left on the line.\<close>

theorem reception_is_safe:
  assumes "line_ok l"
  shows "(\<exists>m avail' l'. fp_line_turn avail l = Some (m, avail', l') \<and> line_ok l')
    \<and> (readed_len l = 0 \<and> length param + HEADER_SIZE + FP_MSG_CRC_SIZE \<le> FP_RECV_MSG_MAX_SIZE \<longrightarrow>
        (\<exists>buf. fp_line_turn (fp_build_cmd is_read cmd param @ rest) l = Some (Some buf, rest, \<lparr> recv_buf = buf, readed_len = 0 \<rparr>)
          \<and> take (length (fp_build_cmd is_read cmd param)) buf = fp_build_cmd is_read cmd param))"
  using line_turn_defined [OF assms] line_turn_frame [OF assms] by blast

definition empty_line :: fp_line where
  "empty_line = \<lparr> recv_buf = replicate RECV_BUF_SIZE 0, readed_len = 0 \<rparr>"

theorem reception_is_safe_witness:
  "\<exists>buf. fp_line_turn (fp_build_cmd False 0x203 [0, 1] @ [0x74]) empty_line
     = Some (Some buf, [0x74], \<lparr> recv_buf = buf, readed_len = 0 \<rparr>)"
proof -
  have "line_ok empty_line" by (simp add: line_ok_def empty_line_def HEADER_SIZE_def)
  from reception_is_safe [OF this, of "[]" "[0, 1]" False "0x203" "[0x74]"]
  have "readed_len empty_line = 0 \<and> length [0, 1 :: u8] + HEADER_SIZE + FP_MSG_CRC_SIZE \<le> FP_RECV_MSG_MAX_SIZE \<longrightarrow>
    (\<exists>buf. fp_line_turn (fp_build_cmd False 0x203 [0, 1] @ [0x74]) empty_line
       = Some (Some buf, [0x74], \<lparr> recv_buf = buf, readed_len = 0 \<rparr>))" by blast
  then show ?thesis by (simp add: empty_line_def line_sizes)
qed

section \<open>Responses\<close>

definition is_response :: "fp_cmd_header \<Rightarrow> u8 list \<Rightarrow> bool" where
  "is_response hdr resp \<longleftrightarrow> resp = [] \<or> (\<exists>param. resp = fp_create_response_cmd hdr param)"

lemma is_responseI [intro]: "is_response hdr []" "is_response hdr (fp_create_response_cmd hdr param)"
  by (auto simp: is_response_def)

lemma is_response_if [simp]: "is_response hdr (if c then x else y) = (if c then is_response hdr x else is_response hdr y)"
  by simp

named_theorems handler_defs \<open>the handlers, unfolded\<close>

lemmas [handler_defs] = cmd_program_info_handler_def cmd_out_rate_handler_def cmd_net_handler_def
  cmd_ci_info_handler_def cmd_sel_src_handler_def cmd_sys_handler_def

lemma handlers_respond:
  "cmd_program_info_handler hdr is_read buf b = Some (rc, resp, b') \<Longrightarrow> is_response hdr resp"
  "cmd_out_rate_handler hdr is_read buf b = Some (rc, resp, b') \<Longrightarrow> is_response hdr resp"
  "cmd_net_handler hdr is_read buf b = Some (rc, resp, b') \<Longrightarrow> is_response hdr resp"
  "cmd_ci_info_handler env hdr is_read buf b = Some (rc, resp, b') \<Longrightarrow> is_response hdr resp"
  "cmd_sel_src_handler hdr is_read buf b = Some (rc, resp, b') \<Longrightarrow> is_response hdr resp"
  "cmd_sys_handler env hdr buf b = Some (rc, resp, b') \<Longrightarrow> is_response hdr resp"
  by (auto simp: handler_defs Let_def bind_Some_iff split: if_splits prod.splits)

lemma rf_responds: "xmux_4_channel_rf_cmds_handler env hdr is_read buf b = (rc, resp, b') \<Longrightarrow> is_response hdr resp"
  by (auto simp: xmux_4_channel_rf_cmds_handler_def rf_switch_def Let_def split: if_splits prod.splits)

text \<open>A handled command: the check, then one of the handlers.\<close>

lemma do_parse_cases:
  assumes "do_parse_mcu_cmd env buf b = Some (rc, resp, b')" "sync (buf_2_fp_cmd_header buf) = defMcuSyncFlag"
    "hdr = buf_2_fp_cmd_header buf" "is_read = (seq hdr AND 0x8000 \<noteq> 0)" "cmd = seq hdr AND 0x7FFF"
  obtains (expected) rc1 where "front_panel_check_recv_cmd buf b = Some (rc1, b')" "rc1 \<noteq> 0" "resp = []"
  | (program) b1 where "front_panel_check_recv_cmd buf b = Some (0, b1)"
      "cmd_program_info_handler hdr is_read buf b1 = Some (rc, resp, b')" "unat cmd < PROGRAM_MAX_NUM * CHANNEL_MAX_NUM"
  | (sys) b1 where "front_panel_check_recv_cmd buf b = Some (0, b1)" "cmd = FP_CMD_SYS"
      "cmd_sys_handler env hdr buf b1 = Some (rc, resp, b')"
  | (other) b1 where "front_panel_check_recv_cmd buf b = Some (0, b1)" "cmd \<noteq> FP_CMD_SYS"
      "cmd_out_rate_handler hdr is_read buf b1 = Some (rc, resp, b')
       \<or> cmd_net_handler hdr is_read buf b1 = Some (rc, resp, b')
       \<or> xmux_4_channel_rf_cmds_handler env hdr is_read buf b1 = (rc, resp, b')
       \<or> cmd_ci_info_handler env hdr is_read buf b1 = Some (rc, resp, b')
       \<or> cmd_sel_src_handler hdr is_read buf b1 = Some (rc, resp, b')
       \<or> resp = [] \<and> b' = b1"
proof -
  obtain rc1 b1 where chk: "front_panel_check_recv_cmd buf b = Some (rc1, b1)"
    using assms(1,2) by (auto simp: do_parse_mcu_cmd_def Let_def bind_Some_iff)
  note parse = assms(1) [unfolded do_parse_mcu_cmd_def Let_def, folded assms(3), folded assms(5), folded assms(4),
      unfolded chk, simplified assms(2) [folded assms(3)], simplified]
  consider "rc1 \<noteq> 0" | "rc1 = 0" "unat cmd < PROGRAM_MAX_NUM * CHANNEL_MAX_NUM" | "rc1 = 0" "cmd = FP_CMD_SYS"
    | "rc1 = 0" "\<not> unat cmd < PROGRAM_MAX_NUM * CHANNEL_MAX_NUM" "cmd \<noteq> FP_CMD_SYS" by blast
  then show thesis
  proof cases
    case 1
    with chk parse show ?thesis by (intro expected) auto
  next
    case 2
    with chk parse show ?thesis by (intro program) auto
  next
    case 3
    then have "\<not> unat cmd < PROGRAM_MAX_NUM * CHANNEL_MAX_NUM" "cmd \<noteq> FP_CMD_OUT_RATE" "cmd \<noteq> FP_CMD_NET"
      by (simp_all add: limit_simps fp_cmds)
    with 3 chk parse show ?thesis by (intro sys) auto
  next
    case 4
    with chk parse show ?thesis by (intro other) (auto split: if_splits)
  qed
qed

section \<open>What the commands leave alone\<close>

text \<open>The part of the board that only the commands for programs, the mode and the analysis change.\<close>

definition session :: "board \<Rightarrow> fp_state \<times> u8 \<times> u16 \<times> u16 list \<times> u16 option" where
  "session b = (fp b, management_mode b, login_flag b, input_pid_table b, fp_expect_cmd b)"

lemma session_simps [simp]:
  "session (write_eeprom off bs b) = session b"
  "session (upd_param f b) = session b"
  "session (log_hw es b) = session b"
  "session (b\<lparr> worker := w \<rparr>) = session b"
  "session (b\<lparr> fp_swait := sw \<rparr>) = session b"
  "session (b\<lparr> request_save_output_psi := r \<rparr>) = session b"
  "session (b\<lparr> g_param_mng_info := i \<rparr>) = session b"
  by (simp_all add: session_def write_eeprom_def upd_param_def log_hw_def)

lemmas save_defs = save_sys_def save_user_def xmux_config_save_output_bitrate_def xmux_config_save_packet_format_def
  xmux_config_save_ci_info_def xmux_config_save_misc_param_def xmux_config_save_net_param_def
  xmux_config_save_mux_program_info_def xmux_system_param_init_default_def xmux_user_param_init_default_def
  xmux_config_save_pid_map_table_def xmux_config_save_output_psi_data_def

lemma session_saves [simp]:
  "session (xmux_config_save_output_bitrate r b) = session b"
  "session (xmux_config_save_packet_format f b) = session b"
  "session (xmux_config_save_ci_info ci b) = session b"
  "session (xmux_config_save_misc_param b) = session b"
  "session (xmux_config_save_net_param n b) = session b"
  "session (xmux_config_save_mux_program_info i b) = session b"
  "session (xmux_system_param_init_default b) = session b"
  "session (xmux_user_param_init_default b) = session b"
  "session (xmux_config_save_pid_map_table t b) = session b"
  "session (xmux_config_save_output_psi_data b) = session b"
  by (simp_all add: save_defs Let_def)

lemma session_save_trans:
  assumes "xmux_config_save_pid_trans_info_all b = Some b'"
  shows "session b' = session b"
  by (rule foldM_invariant [where P = "\<lambda>x. session x = session b", OF _ assms [unfolded xmux_config_save_pid_trans_info_all_def]])
     (auto simp: save_trans_channel_def bind_Some_iff Let_def split: if_splits)

lemma session_apply:
  assumes "apply_pid_map_table_and_psi env b = Some b'"
  shows "session b' = session b"
  using assms
  by (auto simp: apply_pid_map_table_and_psi_def apply_pid_map_def apply_psi_def apply_trans_def bind_Some_iff
      bump_map_version_def bump_trans_version_def Let_def dest!: session_save_trans)

lemma session_setters [simp]:
  "session (set_output_bitrate r b) = session b"
  "session (set_packet_format f b) = session b"
  "session (xmux_net_set n b) = session b"
  "session (xmux_ci_info_update ci b) = session b"
  "session (reset_net b) = session b"
  by (simp_all add: set_output_bitrate_def set_packet_format_def xmux_net_set_def xmux_ci_info_update_def
      reset_net_def Let_def)

lemma session_bcm [simp]:
  "session (snd (bcm3033_get_param env b)) = session b"
  "session (bcm3033_set_param param b) = session b"
  by (simp_all add: bcm3033_get_param_def bcm3033_set_param_def Let_def split: option.split)

lemma session_other:
  "cmd_out_rate_handler hdr is_read buf b = Some (rc, resp, b') \<Longrightarrow> session b' = session b"
  "cmd_net_handler hdr is_read buf b = Some (rc, resp, b') \<Longrightarrow> session b' = session b"
  "cmd_ci_info_handler env hdr is_read buf b = Some (rc, resp, b') \<Longrightarrow> session b' = session b"
  "cmd_sel_src_handler hdr is_read buf b = Some (rc, resp, b') \<Longrightarrow> session b' = session b"
  by (auto simp: handler_defs Let_def split: if_splits)

lemma session_rf:
  assumes "xmux_4_channel_rf_cmds_handler env hdr is_read buf b = (rc, resp, b')"
  shows "session b' = session b"
proof -
  obtain param b1 where g: "bcm3033_get_param env b = (param, b1)" by force
  with session_bcm(1) [of env b] have "session b1 = session b" by simp
  with assms g show ?thesis
    by (auto simp: xmux_4_channel_rf_cmds_handler_def rf_switch_def Let_def split: if_splits)
qed

text \<open>The system commands change the session only by switching the mode.\<close>

lemma session_sys:
  assumes "cmd_sys_handler env hdr buf b = Some (rc, resp, b')"
    and "\<not> (READ_U16_BE (body buf) = FP_SYS_CMD_ENTER_FP_MANAGEMENT_MODE \<and> management_mode b = MANAGEMENT_MODE_SNMP)"
    and "\<not> (READ_U16_BE (body buf) = FP_SYS_CMD_LEAVE_FP_MANAGEMENT_MODE \<and> management_mode b = MANAGEMENT_MODE_FP)"
  shows "session b' = session b"
  using assms
  by (auto simp: cmd_sys_handler_def Let_def bind_Some_iff session_apply split: if_splits prod.splits)

section \<open>The program table\<close>

text \<open>Arrays of their size, no channel above its row, and the limits of the multiplex.\<close>

definition fp_ok :: "fp_state \<Rightarrow> bool" where
  "fp_ok s \<longleftrightarrow> fp_wf s \<and> fp_bounded s \<and> admitted s"

lemma fp_ok_same_shape: "same_shape s s' \<Longrightarrow> fp_ok s \<Longrightarrow> fp_ok s'"
  by (simp add: fp_ok_def same_shape_wf same_shape_bounded admitted_same_shape)

lemma bounded_set_prog_at [simp]: "fp_bounded (set_prog_at s i p) = fp_bounded s"
  by (simp add: fp_bounded_def)

lemma prog_at_wf: "fp_wf s \<Longrightarrow> prog_at s i = Some p \<Longrightarrow> info_wf (info p)"
  by (auto simp: fp_wf_def prog_at_def split: if_splits)

lemma fp_ok_deselect: "fp_ok s \<Longrightarrow> fp_deselect_program i s = Some s' \<Longrightarrow> fp_ok s'"
  by (auto simp: fp_ok_def admitted_deselect fp_wf_set_prog_at prog_at_wf elim!: fp_deselect_cases)

lemma check_and_select_wf:
  assumes "check_and_select_program i new old s = Some (ok, s')" "fp_wf s" "fp_bounded s" "info_wf (info new)"
  shows "fp_wf s' \<and> fp_bounded s'"
proof -
  from check_and_select_defined [OF assms(1)] obtain p where p: "prog_at s i = Some p" by blast
  from assms(1) p show ?thesis
  proof (cases rule: check_and_select_cases)
    case (accepted sel' s1 s2)
    have "fp_wf s1" using assms(2) p by (simp add: accepted(2) fp_wf_set_prog_at prog_at_wf)
    moreover have "info_wf (info sel')" using shape_info_wf [OF accepted(4)] assms(4) by simp
    ultimately show ?thesis
      using same_shape_wf [OF accepted(3)] same_shape_bounded [OF accepted(3)] assms(3)
      by (simp add: accepted(5) fp_wf_set_prog_at) (simp add: accepted(2))
  qed (use assms(2,3) same_shape_wf same_shape_bounded in simp_all)
qed

lemma fp_ok_check:
  "fp_ok s \<Longrightarrow> check_and_select_program i new old s = Some (ok, s') \<Longrightarrow> info_wf (info new) \<Longrightarrow> fp_ok s'"
  using check_and_select_wf [of i new old s ok s'] check_and_select_admitted [of i new old s ok s']
  by (simp add: fp_ok_def)

lemma fp_ok_prepare:
  "fp_ok s \<Longrightarrow> prepare_program_output_pid i p s = Some (q, s') \<Longrightarrow> fp_ok s'"
  by (auto simp: prepare_program_output_pid_def split: if_splits
      dest: fix_selected_shape(2) intro: fp_ok_same_shape)

lemma received_prog_wf: "info_wf (info (buf_2_prog_info bs))"
  by (simp add: buf_2_prog_info_def prog_of_mem_def info_of_mem_def churning_xmux_program_info_def info_wf_def Let_def)

lemma program_handler_session:
  assumes "cmd_program_info_handler hdr is_read buf b = Some (rc, resp, b')"
  shows "\<exists>s. session b' = (s, snd (session b)) \<and> (fp_ok (fp b) \<longrightarrow> fp_ok s)"
  using assms
  by (auto simp: cmd_program_info_handler_def Let_def bind_Some_iff session_def received_prog_wf
      split: if_splits intro: fp_ok_check fp_ok_deselect fp_ok_prepare)

section \<open>The management mode\<close>

definition cmd_of :: "u8 list \<Rightarrow> u16" where
  "cmd_of buf = seq (buf_2_fp_cmd_header buf) AND 0x7FFF"

definition reads :: "u8 list \<Rightarrow> bool" where
  "reads buf \<longleftrightarrow> seq (buf_2_fp_cmd_header buf) AND 0x8000 \<noteq> 0"

definition is_sys :: "u16 \<Rightarrow> u8 list \<Rightarrow> bool" where
  "is_sys c buf \<longleftrightarrow> cmd_of buf = FP_CMD_SYS \<and> READ_U16_BE (body buf) = c"

lemma enter_session:
  "enter_fp_management_mode b = Some b' \<Longrightarrow> management_mode b' = MANAGEMENT_MODE_FP
     \<and> login_flag b' = SNMP_LOGIN_STATUS_BUSY \<and> fp_expect_cmd b' = fp_expect_cmd b"
  by (auto simp: enter_fp_management_mode_def bind_Some_iff xmux_config_save_management_mode_def upd_param_def Let_def)

lemma leave_session:
  "management_mode (leave_fp_management_mode b) = MANAGEMENT_MODE_SNMP"
  "login_flag (leave_fp_management_mode b) = SNMP_LOGIN_STATUS_IDLE"
  by (simp_all add: leave_fp_management_mode_def xmux_config_save_management_mode_def upd_param_def Let_def)

text \<open>The check before a command enters the mode of the board, unless the command is exempt.\<close>

lemma check_session:
  assumes "front_panel_check_recv_cmd buf b = Some (rc, b')"
  obtains b1 where "(if mode_exempt (cmd_of buf) (reads buf) buf \<or> management_mode b = MANAGEMENT_MODE_FP then b1 = b
      else enter_fp_management_mode b = Some b1)" "session b' = session b1"
    "rc = 0 \<longleftrightarrow> fp_expect_cmd b1 \<noteq> Some (cmd_of buf)" "rc = 0 \<Longrightarrow> b' = b1"
proof -
  from assms obtain b1 where b1: "(if \<not> mode_exempt (cmd_of buf) (reads buf) buf \<and> management_mode b \<noteq> MANAGEMENT_MODE_FP
      then enter_fp_management_mode b else Some b) = Some b1"
    and rest: "(if fp_expect_cmd b1 = Some (cmd_of buf)
        then do {
          resp_cmd \<leftarrow> fp_cmd_copy (replicate 1024 0) buf;
          Some (1, b1\<lparr> fp_swait := snd (wu_swait_wakeup resp_cmd (fp_swait b1)) \<rparr>)
        }
        else Some (0, b1)) = Some (rc, b')"
    by (auto simp: front_panel_check_recv_cmd_def Let_def bind_Some_iff cmd_of_def reads_def)
  show thesis
    by (rule that [of b1]) (use b1 rest in \<open>auto simp: bind_Some_iff split: if_splits\<close>)
qed

text \<open>A message in the mode of the board that is not the command to leave it.\<close>

lemma message_in_fp_mode:
  assumes "do_parse_mcu_cmd env buf b = Some (rc, resp, b')" "management_mode b = MANAGEMENT_MODE_FP"
    and "\<not> is_sys FP_SYS_CMD_LEAVE_FP_MANAGEMENT_MODE buf"
  shows "\<exists>s. session b' = (s, snd (session b)) \<and> (fp_ok (fp b) \<longrightarrow> fp_ok s)"
proof (cases "sync (buf_2_fp_cmd_header buf) = defMcuSyncFlag")
  case False
  with assms(1) show ?thesis by (simp add: do_parse_mcu_cmd_def Let_def session_def)
next
  case True
  have chk: "session b1 = session b" if "front_panel_check_recv_cmd buf b = Some (r, b1)" for r b1
    using check_session [OF that] assms(2) by auto
  have keep: ?thesis if "session b' = session b" using that by (simp add: session_def)
  have mode: "management_mode b1 = MANAGEMENT_MODE_FP" if "session b1 = session b" for b1
    using that assms(2) by (simp add: session_def)
  from assms(1) True refl refl refl show ?thesis
  proof (cases rule: do_parse_cases)
    case (expected rc1)
    with chk keep show ?thesis by simp
  next
    case (program b1)
    have "session b1 = session b" by (rule chk [OF program(1)])
    with program_handler_session [OF program(2)] show ?thesis by (auto simp: session_def)
  next
    case (sys b1)
    have s: "session b1 = session b" by (rule chk [OF sys(1)])
    have "session b' = session b1"
      by (rule session_sys [OF sys(3)])
         (use mode [OF s] sys(2) assms(3) in \<open>simp_all add: is_sys_def cmd_of_def MANAGEMENT_MODE_FP_def MANAGEMENT_MODE_SNMP_def\<close>)
    with s show ?thesis by (intro keep) simp
  next
    case (other b1)
    have "session b1 = session b" by (rule chk [OF other(1)])
    moreover have "session b' = session b1" using other(3) by (auto dest: session_other session_rf)
    ultimately show ?thesis by (intro keep) simp
  qed
qed

text \<open>The mode after a message is the one the command asks for: a command that is not exempt switches to
  the board, the exempt ones that only read leave it.\<close>

definition next_mode :: "u8 list \<Rightarrow> u8 \<Rightarrow> u8" where
  "next_mode buf m =
     (if is_sys FP_SYS_CMD_LEAVE_FP_MANAGEMENT_MODE buf then MANAGEMENT_MODE_SNMP
      else if is_sys FP_SYS_CMD_READ_TS_STATUS buf \<or> cmd_of buf = FP_CMD_OUT_RATE \<and> reads buf then m
      else MANAGEMENT_MODE_FP)"

lemma mode_values: "MANAGEMENT_MODE_FP \<noteq> MANAGEMENT_MODE_SNMP" "MANAGEMENT_MODE_SNMP \<noteq> MANAGEMENT_MODE_FP"
  by (simp_all add: MANAGEMENT_MODE_FP_def MANAGEMENT_MODE_SNMP_def)

lemma session_mode: "session b' = session b \<Longrightarrow> management_mode b' = management_mode b \<and> login_flag b' = login_flag b"
  by (simp add: session_def)

lemma exempt_iff:
  "mode_exempt (cmd_of buf) (reads buf) buf \<longleftrightarrow>
     is_sys FP_SYS_CMD_READ_TS_STATUS buf \<or> is_sys FP_SYS_CMD_ENTER_FP_MANAGEMENT_MODE buf
     \<or> is_sys FP_SYS_CMD_LEAVE_FP_MANAGEMENT_MODE buf \<or> cmd_of buf = FP_CMD_OUT_RATE \<and> reads buf"
  by (auto simp: mode_exempt_def is_sys_def fp_cmds)

lemma not_exempt_next_mode:
  "\<not> mode_exempt (cmd_of buf) (reads buf) buf \<Longrightarrow> next_mode buf m = MANAGEMENT_MODE_FP"
  by (auto simp: exempt_iff next_mode_def)

lemma sys_handler_mode:
  assumes "cmd_sys_handler env hdr buf b = Some (rc, resp, b')" "cmd_of buf = FP_CMD_SYS"
    "management_mode b \<in> {MANAGEMENT_MODE_SNMP, MANAGEMENT_MODE_FP}"
    "mode_exempt (cmd_of buf) (reads buf) buf \<or> management_mode b = MANAGEMENT_MODE_FP"
  shows "management_mode b' = next_mode buf (management_mode b)
    \<and> login_flag b' = (if management_mode b' = management_mode b then login_flag b
        else if management_mode b' = MANAGEMENT_MODE_FP then SNMP_LOGIN_STATUS_BUSY else SNMP_LOGIN_STATUS_IDLE)"
proof -
  let ?c = "READ_U16_BE (body buf)"
  consider (enter) "?c = FP_SYS_CMD_ENTER_FP_MANAGEMENT_MODE" "management_mode b = MANAGEMENT_MODE_SNMP"
    | (leave) "?c = FP_SYS_CMD_LEAVE_FP_MANAGEMENT_MODE" "management_mode b = MANAGEMENT_MODE_FP"
    | (stay) "\<not> (?c = FP_SYS_CMD_ENTER_FP_MANAGEMENT_MODE \<and> management_mode b = MANAGEMENT_MODE_SNMP)"
      "\<not> (?c = FP_SYS_CMD_LEAVE_FP_MANAGEMENT_MODE \<and> management_mode b = MANAGEMENT_MODE_FP)"
    by blast
  then show ?thesis
  proof cases
    case enter
    with assms(1) have "enter_fp_management_mode b = Some b'"
      by (auto simp: cmd_sys_handler_def Let_def bind_Some_iff)
    from enter_session [OF this] enter show ?thesis
      by (simp add: next_mode_def is_sys_def assms(2) sys_cmds fp_cmds mode_values)
  next
    case leave
    with assms(1) have "b' = leave_fp_management_mode b"
      by (simp add: cmd_sys_handler_def Let_def sys_cmds)
    with leave_session leave show ?thesis
      by (simp add: next_mode_def is_sys_def assms(2) mode_values)
  next
    case stay
    from session_mode [OF session_sys [OF assms(1) stay]] stay assms(3) assms(4) [unfolded exempt_iff] show ?thesis
      by (auto simp: next_mode_def is_sys_def assms(2) fp_cmds)
  qed
qed

text \<open>C27: A message switches the management mode as its command asks: any command of the panel takes the
  board over from the SNMP manager, only the command to leave gives it back, and only reading the
  stream status or the output rate does not switch. The login of the SNMP manager is refused as busy
  from the moment the board is taken over, and open again when it is given back.\<close>

theorem mode_follows_commands:
  assumes "do_parse_mcu_cmd env buf b = Some (rc, resp, b')" "sync (buf_2_fp_cmd_header buf) = defMcuSyncFlag"
    and "fp_expect_cmd b = None" "management_mode b \<in> {MANAGEMENT_MODE_SNMP, MANAGEMENT_MODE_FP}"
  shows "management_mode b' = next_mode buf (management_mode b)
    \<and> login_flag b' = (if management_mode b' = management_mode b then login_flag b
        else if management_mode b' = MANAGEMENT_MODE_FP then SNMP_LOGIN_STATUS_BUSY else SNMP_LOGIN_STATUS_IDLE)"
proof -
  let ?ex = "mode_exempt (cmd_of buf) (reads buf) buf"
  have chk: "r = 0 \<and> management_mode b1 \<in> {MANAGEMENT_MODE_SNMP, MANAGEMENT_MODE_FP}
      \<and> (?ex \<or> management_mode b1 = MANAGEMENT_MODE_FP)
      \<and> management_mode b1 = (if ?ex then management_mode b else MANAGEMENT_MODE_FP)
      \<and> login_flag b1 = (if management_mode b1 = management_mode b then login_flag b else SNMP_LOGIN_STATUS_BUSY)"
    if "front_panel_check_recv_cmd buf b = Some (r, b1)" for r b1
    using that
  proof (rule check_session)
    fix b0 assume *: "if ?ex \<or> management_mode b = MANAGEMENT_MODE_FP then b0 = b
        else enter_fp_management_mode b = Some b0" "session b1 = session b0"
      "r = 0 \<longleftrightarrow> fp_expect_cmd b0 \<noteq> Some (cmd_of buf)"
    with enter_session [of b b0] session_mode [OF *(2)] assms(3,4) show ?thesis
      by (auto split: if_splits)
  qed
  from assms(1,2) refl refl refl show ?thesis
  proof (cases rule: do_parse_cases)
    case (expected rc1)
    with chk show ?thesis by simp
  next
    case (program b1)
    from program_handler_session [OF program(2)] have "management_mode b' = management_mode b1 \<and> login_flag b' = login_flag b1"
      by (auto simp: session_def)
    moreover have "cmd_of buf \<noteq> FP_CMD_SYS \<and> cmd_of buf \<noteq> FP_CMD_OUT_RATE"
      using program(3) by (auto simp: cmd_of_def fp_cmds limit_simps)
    ultimately show ?thesis using chk [OF program(1)] assms(4)
      by (auto simp: exempt_iff next_mode_def is_sys_def)
  next
    case (sys b1)
    from chk [OF sys(1)] sys_handler_mode [OF sys(3)] sys(2) show ?thesis
      by (auto simp: cmd_of_def [symmetric] not_exempt_next_mode split: if_splits)
  next
    case (other b1)
    have "session b' = session b1" using other(3) by (auto dest: session_other session_rf)
    from session_mode [OF this] chk [OF other(1)] assms(4) other(2) show ?thesis
      by (auto simp: exempt_iff next_mode_def is_sys_def cmd_of_def [symmetric])
  qed
qed

text \<open>A board that the front panel has taken over.\<close>

definition example_board :: board where
  "example_board =
     \<lparr> g_eeprom_param = example_params, eeprom = format_eeprom example_params (\<lambda>_. 0xFF),
       management_mode = MANAGEMENT_MODE_FP,
       g_param_mng_info = \<lparr> eeprom_pid_trans_info_version = 0, eeprom_pid_map_table_version = 0,
         snmp_pid_trans_info_version = 0, snmp_pid_map_table_version = 0 \<rparr>,
       request_save_output_psi = False,
       fp = example_state 0, old_prog = example_prog 0, psi_parse = example_parse_state, worker = psi_worker_open,
       input_pid_table = replicate 8192 0, login_flag = SNMP_LOGIN_STATUS_BUSY,
       sg_mib_pid_trans_info = replicate CHANNEL_MAX_NUM trans_zero,
       sg_mib_trans_table = p_pid_map_table example_params, fp_expect_cmd = None,
       fp_swait = \<lparr> sw_alive = False, sw_setted = False, sw_data = None \<rparr>, hw = [] \<rparr>"

definition leave_msg :: "u8 list" where
  "leave_msg = fp_build_cmd False FP_CMD_SYS (WRITE_U16_BE FP_SYS_CMD_LEAVE_FP_MANAGEMENT_MODE)"

lemma leave_msg: "sync (buf_2_fp_cmd_header leave_msg) = defMcuSyncFlag" "cmd_of leave_msg = FP_CMD_SYS"
  "\<not> reads leave_msg" "READ_U16_BE (body leave_msg) = FP_SYS_CMD_LEAVE_FP_MANAGEMENT_MODE"
  by (unfold reads_def cmd_of_def) code_simp+

lemma leave_msg_parsed:
  assumes "management_mode b = MANAGEMENT_MODE_FP" "fp_expect_cmd b = None"
  shows "do_parse_mcu_cmd env leave_msg b = Some (-1, [], leave_fp_management_mode b)"
proof -
  note h = leave_msg(1) leave_msg(2) [unfolded cmd_of_def] leave_msg(3) [unfolded reads_def]
  have "front_panel_check_recv_cmd leave_msg b = Some (0, b)"
    using assms by (simp add: front_panel_check_recv_cmd_def h Let_def)
  moreover have "cmd_sys_handler env hdr leave_msg b = Some (-1, [], leave_fp_management_mode b)" for hdr
    using assms(1) by (simp add: cmd_sys_handler_def leave_msg(4) sys_cmds)
  ultimately show ?thesis by (simp add: do_parse_mcu_cmd_def h Let_def fp_cmds limit_simps)
qed

theorem mode_follows_commands_witness:
  "management_mode (leave_fp_management_mode example_board) = MANAGEMENT_MODE_SNMP
    \<and> login_flag (leave_fp_management_mode example_board) = SNMP_LOGIN_STATUS_IDLE"
proof -
  have b: "management_mode example_board = MANAGEMENT_MODE_FP" "fp_expect_cmd example_board = None"
    by (simp_all add: example_board_def)
  have "is_sys FP_SYS_CMD_LEAVE_FP_MANAGEMENT_MODE leave_msg" by (simp add: is_sys_def leave_msg)
  then show ?thesis
    using mode_follows_commands [OF leave_msg_parsed [OF b] leave_msg(1) b(2)] b(1)
    by (simp add: next_mode_def mode_values)
qed

end
