(* ===== verification/BoardStore.thy ===== *)
theory BoardStore
  imports FpCommands
begin

text \<open>
  The commands of the front panel and the stored parameters: every command keeps the EEPROM equal to
  the parameters and the tables in the form their layout needs, its response fits the buffer, and
  applying the selection stores what it writes to the hardware.
\<close>

section \<open>Programs keep their layout\<close>

definition names_ok :: "fp_state \<Rightarrow> bool" where
  "names_ok s \<longleftrightarrow> (\<forall>p \<in> set (g_prog_info_table s). info_bytes_wf (info p))"

named_theorems keeps_names \<open>operations that keep the programs in their layout\<close>

lemma names_ok_set: "names_ok s \<Longrightarrow> info_bytes_wf (info p) \<Longrightarrow> names_ok (set_prog_at s i p)"
  by (auto simp: names_ok_def set_prog_at_def dest: set_update_subset_insert [THEN subsetD])

lemma names_ok_at: "names_ok s \<Longrightarrow> prog_at s i = Some p \<Longrightarrow> info_bytes_wf (info p)"
  by (auto simp: names_ok_def prog_at_def split: if_splits)

lemma select_info [simp]: "info (FP_SELECT_PROG p) = info p" "info (FP_DESELECT_PROG p) = info p"
  by (simp_all add: FP_SELECT_PROG_def FP_DESELECT_PROG_def)

lemma bytes_wf_update: "info_bytes_wf (info q) \<Longrightarrow> info_bytes_wf (info (update_program_out_pid p x q))"
  using info_wf_update [of q p x]
  by (simp add: info_bytes_wf_def) (simp add: update_program_out_pid_def set_pcr_entries_def)

lemma update_channel_names [keeps_names]:
  assumes "update_channel_other_program_out_pid idx p out s = Some s'" "names_ok s"
  shows "names_ok s'"
  by (rule foldM_invariant [where P = names_ok, OF assms(2) assms(1) [unfolded update_channel_other_program_out_pid_def Let_def]])
     (auto simp: bind_Some_iff names_ok_set names_ok_at bytes_wf_update split: if_splits)

lemma check_entries_names [keeps_names]:
  "check_entries idx es t s = Some (ok, s') \<Longrightarrow> names_ok s \<Longrightarrow> names_ok s'"
proof (induction es arbitrary: t s)
  case (Cons p es)
  obtain e old_e where "p = (e, old_e)" by (cases p)
  with Cons show ?case
    by (auto simp: bind_Some_iff split: if_splits dest: update_channel_names)
qed simp

lemma check_user_names [keeps_names]:
  "check_user_output_pid old sel idx s = Some (ok, s') \<Longrightarrow> names_ok s \<Longrightarrow> names_ok s'"
  by (auto simp: check_user_output_pid_def bind_Some_iff Let_def split: if_splits dest: check_entries_names)

lemma fix_entries_names:
  "fix_entries idx d es t s = Some (es', s') \<Longrightarrow> names_ok s \<Longrightarrow> names_ok s'"
proof (induction es arbitrary: t s es')
  case (Cons e es)
  then show ?case
    by (auto simp: bind_Some_iff split: if_splits dest: update_channel_names)
qed simp

lemma fix_selected_names [keeps_names]:
  assumes "fix_selected_program_output_pid p idx d s = Some (q, s')" "names_ok s" "info_bytes_wf (info p)"
  shows "info_bytes_wf (info q) \<and> names_ok s'"
proof -
  from assms(1) obtain t es out where es: "fix_entries idx d (pcr_entries (info p)) t s = Some (es, s')"
    and q: "q = p\<lparr> info := set_pcr_entries es ((info p)\<lparr> pmt := (pmt (info p))\<lparr> pt_out := out \<rparr> \<rparr>) \<rparr>"
    by (auto simp: fix_selected_program_output_pid_def bind_Some_iff Let_def)
  from fix_entries_shape [OF es] have "length es = length (pcr_entries (info p))"
    by (auto dest: map_eq_imp_length_eq)
  with fix_entries_names [OF es assms(2)] assms(3) q show ?thesis
    by (simp add: info_bytes_wf_def info_wf_def set_pcr_entries_def pcr_entries_def)
qed

lemma restore_names: "restore_status st i s = Some s' \<Longrightarrow> names_ok s \<Longrightarrow> names_ok s'"
  using names_ok_at [of s i] by (auto simp: restore_status_def bind_Some_iff names_ok_set)

lemma check_and_select_names [keeps_names]:
  assumes "check_and_select_program i new old s = Some (ok, s')" "names_ok s" "info_bytes_wf (info new)"
  shows "names_ok s'"
proof -
  from check_and_select_defined [OF assms(1)] obtain p where p: "prog_at s i = Some p" by blast
  define s1 where "s1 = set_prog_at s i (FP_DESELECT_PROG p)"
  have s1: "names_ok s1" unfolding s1_def using assms(2) p by (simp add: names_ok_set names_ok_at)
  show ?thesis
    using assms(1) [unfolded check_and_select_program_def p Let_def Option.bind.bind_lunit, folded s1_def] assms(2,3) s1
    by (auto simp: bind_Some_iff names_ok_set split: if_splits option.splits
        dest: restore_names dest!: fix_selected_names check_user_names)
qed

lemma deselect_names [keeps_names]: "fp_deselect_program i s = Some s' \<Longrightarrow> names_ok s \<Longrightarrow> names_ok s'"
  by (auto simp: names_ok_set names_ok_at elim!: fp_deselect_cases)

lemma prepare_names [keeps_names]:
  "prepare_program_output_pid i p s = Some (q, s') \<Longrightarrow> names_ok s \<Longrightarrow> info_bytes_wf (info p) \<Longrightarrow>
     info_bytes_wf (info q) \<and> names_ok s'"
  by (auto simp: prepare_program_output_pid_def split: if_splits dest: fix_selected_names)

section \<open>Loading the records\<close>

text \<open>Arrays of their size, programs in their layout, no channel above its row.\<close>

definition tables_ok :: "fp_state \<Rightarrow> bool" where
  "tables_ok s \<longleftrightarrow> fp_wf s \<and> names_ok s \<and> fp_bounded s"

lemma bytes_wf_info_wf: "info_bytes_wf i \<Longrightarrow> info_wf i"
  by (simp add: info_bytes_wf_def)

lemma fp_wf_iff_names: "names_ok s \<Longrightarrow> fp_wf s \<longleftrightarrow> length (g_prog_info_table s) = CHANNEL_MAX_NUM * PROGRAM_MAX_NUM
     \<and> length (g_chan_num s) = CHANNEL_MAX_NUM"
  by (auto simp: fp_wf_def names_ok_def bytes_wf_info_wf)

lemma prog_zero_bytes: "info_bytes_wf (info prog_zero)"
  by (simp add: prog_zero_def prog_of_mem_def info_of_mem_wf PROG_SIZE_def INFO_SIZE_def)

lemma load_program_keeps:
  assumes "load_program d c s k = Some s'" "trans_wf d" "names_ok s"
  shows "names_ok s' \<and> g_chan_num s' = g_chan_num s
    \<and> length (g_prog_info_table s') = length (g_prog_info_table s) \<and> k < PROGRAM_MAX_NUM"
proof -
  from load_program_step [OF assms(1)] obtain p where p: "s' = set_prog_at s (prog_index c k) p"
    "k < length (programs d)" "info p = pc_info (programs d ! k)" by metis
  with assms(2) have "info_bytes_wf (info p)" by (simp add: trans_wf_def)
  with p assms(2,3) show ?thesis by (simp add: names_ok_set trans_wf_def)
qed

lemma load_programs_keeps:
  assumes "foldM (load_program d c) s [0..<n] = Some s'" "trans_wf d" "names_ok s"
  shows "names_ok s' \<and> g_chan_num s' = g_chan_num s
    \<and> length (g_prog_info_table s') = length (g_prog_info_table s) \<and> n \<le> PROGRAM_MAX_NUM"
  using assms(1)
proof (induction n arbitrary: s')
  case (Suc n)
  then obtain u where u: "foldM (load_program d c) s [0..<n] = Some u" "load_program d c u n = Some s'"
    by (auto simp: foldM_append bind_Some_iff)
  from Suc.IH [OF u(1)] load_program_keeps [OF u(2) assms(2)] show ?case by simp
qed (use assms(3) in simp)

lemma clear_channel_keeps:
  assumes "names_ok s"
  shows "names_ok (foldl (\<lambda>s k. set_prog_at s (prog_index c k) prog_zero) s ks)
    \<and> g_chan_num (foldl (\<lambda>s k. set_prog_at s (prog_index c k) prog_zero) s ks) = g_chan_num s
    \<and> length (g_prog_info_table (foldl (\<lambda>s k. set_prog_at s (prog_index c k) prog_zero) s ks)) = length (g_prog_info_table s)"
  using assms by (induction ks arbitrary: s) (simp_all add: names_ok_set prog_zero_bytes)

lemma load_channel_keeps:
  assumes "pid_trans_info_2_prog_info_of_channel c d s = Some s'" "trans_wf d" "names_ok s"
  shows "names_ok s' \<and> g_chan_num s' = (g_chan_num s)[c := nprogs d]
    \<and> length (g_prog_info_table s') = length (g_prog_info_table s) \<and> unat (nprogs d) \<le> PROGRAM_MAX_NUM"
proof -
  let ?s = "s\<lparr> g_chan_num := (g_chan_num s)[c := nprogs d] \<rparr>"
  have s: "names_ok ?s" using assms(3) by (simp add: names_ok_def)
  show ?thesis
  proof (cases "nprogs d = 0")
    case True
    with assms(1) clear_channel_keeps [OF s, of c "[0..<PROGRAM_MAX_NUM]"] show ?thesis
      by (auto simp: pid_trans_info_2_prog_info_of_channel_def Let_def)
  next
    case False
    with assms(1) have "foldM (load_program d c) ?s [0..<unat (nprogs d)] = Some s'"
      by (simp add: pid_trans_info_2_prog_info_of_channel_def Let_def)
    from load_programs_keeps [OF this assms(2) s] show ?thesis by simp
  qed
qed

text \<open>A load that stays inside the arrays leaves tables in order, whatever they were before.\<close>

lemma load_tables_ok:
  assumes "pid_trans_info_2_prog_info table s = Some s'" "\<forall>d \<in> set table. trans_wf d"
    "length table = CHANNEL_MAX_NUM" "names_ok s" "fp_wf s"
  shows "tables_ok s'"
proof -
  let ?P = "\<lambda>n u. names_ok u \<and> length (g_prog_info_table u) = length (g_prog_info_table s)
      \<and> length (g_chan_num u) = length (g_chan_num s) \<and> (\<forall>c < n. chan_nprogs u c \<le> PROGRAM_MAX_NUM)"
  have s: "length (g_chan_num s) = CHANNEL_MAX_NUM" "length (g_prog_info_table s) = CHANNEL_MAX_NUM * PROGRAM_MAX_NUM"
    using assms(5) by (simp_all add: fp_wf_def)
  have "?P n u" if "foldM (\<lambda>s c. pid_trans_info_2_prog_info_of_channel c (table ! c) s) s [0..<n] = Some u"
    "n \<le> CHANNEL_MAX_NUM" for n u
    using that
  proof (induction n arbitrary: u)
    case 0
    then show ?case using assms(4) by simp
  next
    case (Suc n)
    from Suc.prems(1) obtain v where v: "foldM (\<lambda>s c. pid_trans_info_2_prog_info_of_channel c (table ! c) s) s [0..<n] = Some v"
      "pid_trans_info_2_prog_info_of_channel n (table ! n) v = Some u"
      by (auto simp: foldM_append bind_Some_iff)
    have wf: "trans_wf (table ! n)" using assms(2,3) Suc.prems(2) by simp
    from Suc.IH [OF v(1)] Suc.prems(2) have P: "?P n v" by simp
    with load_channel_keeps [OF v(2) wf] have u: "names_ok u \<and> g_chan_num u = (g_chan_num v)[n := nprogs (table ! n)]
        \<and> length (g_prog_info_table u) = length (g_prog_info_table v) \<and> unat (nprogs (table ! n)) \<le> PROGRAM_MAX_NUM"
      by blast
    have "chan_nprogs u c \<le> PROGRAM_MAX_NUM" if "c < Suc n" for c
      using that u P s Suc.prems(2) by (cases "c = n") (auto simp: chan_nprogs_def nth_list_update)
    with u P show ?case by simp
  qed
  from this [of CHANNEL_MAX_NUM s'] assms(1) have P: "?P CHANNEL_MAX_NUM s'"
    by (simp add: pid_trans_info_2_prog_info_def)
  with s show ?thesis by (simp add: tables_ok_def fp_wf_iff_names fp_bounded_def)
qed

lemma tables_ok_deselect: "tables_ok s \<Longrightarrow> fp_deselect_program i s = Some s' \<Longrightarrow> tables_ok s'"
  using deselect_names [of i s s']
  by (auto simp: tables_ok_def fp_wf_set_prog_at prog_at_wf elim!: fp_deselect_cases)

lemma tables_ok_check:
  "tables_ok s \<Longrightarrow> check_and_select_program i new old s = Some (ok, s') \<Longrightarrow> info_bytes_wf (info new) \<Longrightarrow> tables_ok s'"
  using check_and_select_wf [of i new old s ok s'] check_and_select_names [of i new old s ok s']
  by (simp add: tables_ok_def bytes_wf_info_wf)

lemma tables_ok_prepare:
  assumes "tables_ok s" "prepare_program_output_pid i p s = Some (q, s')" "info_bytes_wf (info p)"
  shows "info_bytes_wf (info q) \<and> tables_ok s'"
proof -
  have "same_shape s s'"
    using assms(2) by (auto simp: prepare_program_output_pid_def split: if_splits dest: fix_selected_shape(2))
  with assms prepare_names [OF assms(2) _ assms(3)] same_shape_wf same_shape_bounded show ?thesis
    by (auto simp: tables_ok_def)
qed

section \<open>Applying the selection in the order of the store\<close>

text \<open>The list of the programs is set first and written last; the operations between do not touch it.\<close>

definition set_mux :: "xmux_mux_program_info \<Rightarrow> board \<Rightarrow> board" where
  "set_mux x b = upd_param (\<lambda>p. p\<lparr> p_mux_prog_info := x \<rparr>) b"

named_theorems mux_commute \<open>operations that do not touch the list of the programs\<close>

lemma set_mux_params [simp]:
  "fp (set_mux x b) = fp b" "p_output_psi (g_eeprom_param (set_mux x b)) = p_output_psi (g_eeprom_param b)"
  "p_pid_trans_info (g_eeprom_param (set_mux x b)) = p_pid_trans_info (g_eeprom_param b)"
  "p_mux_prog_info (g_eeprom_param (set_mux x b)) = x"
  by (simp_all add: set_mux_def upd_param_def)

lemma set_mux_commute [mux_commute]:
  "xmux_config_save_pid_map_table t (set_mux x b) = set_mux x (xmux_config_save_pid_map_table t b)"
  "log_hw es (set_mux x b) = set_mux x (log_hw es b)"
  "bump_map_version (set_mux x b) = set_mux x (bump_map_version b)"
  "bump_trans_version (set_mux x b) = set_mux x (bump_trans_version b)"
  "xmux_config_save_output_psi_data (set_mux x b) = set_mux x (xmux_config_save_output_psi_data b)"
  "upd_param (\<lambda>p. p\<lparr> p_output_psi := psi \<rparr>) (set_mux x b) = set_mux x (upd_param (\<lambda>p. p\<lparr> p_output_psi := psi \<rparr>) b)"
  "upd_param (\<lambda>p. p\<lparr> p_pid_trans_info := tr \<rparr>) (set_mux x b)
     = set_mux x (upd_param (\<lambda>p. p\<lparr> p_pid_trans_info := tr \<rparr>) b)"
  by (simp_all add: set_mux_def xmux_config_save_pid_map_table_def log_hw_def bump_map_version_def bump_trans_version_def
      xmux_config_save_output_psi_data_def write_eeprom_def upd_param_def)

lemma save_trans_channel_mux:
  "save_trans_channel (set_mux x b) c = map_option (set_mux x) (save_trans_channel b c)"
  by (auto simp: save_trans_channel_def set_mux_def upd_param_def write_eeprom_def Let_def map_option_bind
      split: Option.bind_splits)

lemma save_trans_mux [mux_commute]:
  "xmux_config_save_pid_trans_info_all (set_mux x b) = map_option (set_mux x) (xmux_config_save_pid_trans_info_all b)"
proof -
  have "foldM save_trans_channel (set_mux x b) cs = map_option (set_mux x) (foldM save_trans_channel b cs)" for cs
  proof (induction cs arbitrary: b)
    case (Cons c cs)
    then show ?case by (cases "save_trans_channel b c") (simp_all add: save_trans_channel_mux)
  qed simp
  then show ?thesis by (simp add: xmux_config_save_pid_trans_info_all_def)
qed

text \<open>So applying is a run of the operations of the store, with the writes to the hardware between.\<close>

lemma apply_as_store:
  assumes gen: "pid_map_table_gen_and_apply_from_fp (env_gen_ctx env) (fp b) = Some (m, mux, lost)"
    and psi: "psi_gen_and_apply_from_fp (env_enc env) (env_pat_ctx env) (fp b) (p_output_psi (g_eeprom_param b)) = Some (psi, writes)"
    and trans: "prog_info_2_pid_trans_info (fp b) (p_pid_trans_info (g_eeprom_param b)) = Some table"
  shows "apply_pid_map_table_and_psi env b =
    do {
      b1 \<leftarrow> store_step (OMap (pid_map m)) b;
      b2 \<leftarrow> store_step (OPsi psi) (bump_map_version (log_hw [PidMapWrite m] b1));
      b3 \<leftarrow> store_step (OTrans table) (log_hw (map (\<lambda>(howto, bytes). PsiBuffer howto bytes) writes) b2);
      store_step (OMux mux) (bump_trans_version b3)
    }"
proof -
  let ?b1 = "bump_map_version (log_hw [PidMapWrite m] (xmux_config_save_pid_map_table (pid_map m) b))"
  let ?b2 = "log_hw (map (\<lambda>(howto, bytes). PsiBuffer howto bytes) writes)
    (xmux_config_save_output_psi_data (upd_param (\<lambda>p. p\<lparr> p_output_psi := psi \<rparr>) ?b1))"
  have final: "store_step (OMux mux) b = Some (xmux_config_save_mux_program_info mux (set_mux mux b))" for b :: board
    by (simp add: set_mux_def)
  have fp: "fp ?b1 = fp b" "fp ?b2 = fp b"
    by (simp_all add: bump_map_version_def log_hw_def xmux_config_save_pid_map_table_def upd_param_def write_eeprom_def
        xmux_config_save_output_psi_data_def)
  have params: "p_output_psi (g_eeprom_param ?b1) = p_output_psi (g_eeprom_param b)"
    "p_pid_trans_info (g_eeprom_param ?b2) = p_pid_trans_info (g_eeprom_param b)"
    by (simp_all add: bump_map_version_def log_hw_def xmux_config_save_pid_map_table_def upd_param_def write_eeprom_def
        xmux_config_save_output_psi_data_def)
  have "apply_pid_map env b = Some (set_mux mux ?b1)"
    unfolding apply_pid_map_def gen set_mux_def [symmetric] Option.bind.bind_lunit prod.case Let_def mux_commute ..
  moreover have "apply_psi env (set_mux mux ?b1) = Some (set_mux mux ?b2)"
    unfolding apply_psi_def set_mux_params fp params psi Option.bind.bind_lunit prod.case Let_def mux_commute ..
  moreover have "apply_trans (set_mux mux ?b2) = map_option (\<lambda>b3. set_mux mux (bump_trans_version b3)) (store_step (OTrans table) ?b2)"
    unfolding apply_trans_def set_mux_params fp params trans Option.bind.bind_lunit mux_commute store_step.simps
    by (cases "xmux_config_save_pid_trans_info_all (upd_param (\<lambda>p. p\<lparr> p_pid_trans_info := table \<rparr>) ?b2)")
       (simp_all add: mux_commute)
  ultimately show ?thesis
    using final by (cases "store_step (OTrans table) ?b2") (simp_all add: apply_pid_map_table_and_psi_def)
qed

section \<open>What is generated has its layout\<close>

lemma map_generated:
  assumes "pid_map_table_gen_and_apply_from_fp ctx s = Some (m, mux, lost)" "pid_map_wf (pid_map (fpga_pid_map ctx))"
  shows "map_wf (pid_map m) \<and> length (mp_programs mux) = PROGRAM_MAX_NUM"
proof -
  from assms(1) obtain t where t: "build_io_table s = Some t" "fill_mux_prog_info s = Some mux"
    and m: "m = fpga_pid_map (pid_map_table_gen_end CHANNEL_ALL_BITMAP (fst (gather_pids t (pid_map_table_gen_start ctx))))"
    by (auto simp: pid_map_table_gen_and_apply_from_fp_def bind_Some_iff Let_def case_prod_beta)
  from gather_pids_rep [OF ctx_rep_start [OF assms(2)], of t] obtain ctx' R where
    "fst (gather_pids t (pid_map_table_gen_start ctx)) = ctx'" "ctx_rep R ctx'" by auto
  with m have "map_wf (pid_map m)"
    by (auto simp: ctx_rep_def map_wf_def map_row_wf_def pid_map_table_gen_end_def pad_row_def)
  moreover have "length (mp_programs mux) = PROGRAM_MAX_NUM"
  proof -
    have inner: "length (mp_programs v) = PROGRAM_MAX_NUM"
      if "length (mp_programs u) = PROGRAM_MAX_NUM" "foldM (fill_mux_program s c) u ks = Some v" for u v c ks
      by (rule foldM_invariant [where P = "\<lambda>x. length (mp_programs x) = PROGRAM_MAX_NUM", OF that])
         (auto simp: fill_mux_program_def bind_Some_iff split: if_splits)
    show ?thesis
      by (rule foldM_invariant [where P = "\<lambda>x. length (mp_programs x) = PROGRAM_MAX_NUM", OF _ t(2) [unfolded fill_mux_prog_info_def]])
         (use inner in \<open>auto simp: mux_prog_info_zero_def\<close>)
  qed
  ultimately show ?thesis by simp
qed

lemma fill_output_psi_wf:
  assumes "fill_output_psi_data ty buf st = Some st'" "psi_wf (fst st)"
  shows "psi_wf (fst st')"
  using assms
  by (cases st) (auto simp: fill_output_psi_data_def psi_wf_def bind_Some_iff Let_def dest: mem_write_length split: if_splits)

lemma write_hook_wf:
  assumes "write_hook_psi ty bufs st = Some st'" "psi_wf (fst st)"
  shows "psi_wf (fst st')"
  by (rule foldM_invariant [where P = "\<lambda>st. psi_wf (fst st)", OF assms(2) assms(1) [unfolded write_hook_psi_def fill_all_def]])
     (auto dest: fill_output_psi_wf)

lemma psi_generated:
  assumes "psi_gen_and_apply_from_fp enc ctx s psi = Some (psi', writes)" "psi_wf psi"
  shows "psi_wf psi'"
proof -
  have "psi_wf (fst (begin_fill_output_psi_data psi))"
    using assms(2) by (simp add: begin_fill_output_psi_data_def psi_wf_def)
  with assms(1) show ?thesis
    by (auto simp: psi_gen_and_apply_from_fp_def psi_gen_area_def bind_Some_iff Let_def dest!: write_hook_wf)
qed

lemma bitmap_length [simp]:
  "length (wu_bitmap_set_bit k bmp) = length bmp" "length (wu_bitmap_clear_bit k bmp) = length bmp"
  by (simp_all add: wu_bitmap_set_bit_def wu_bitmap_clear_bit_def)

lemma save_program_wf:
  assumes "save_program s c d k = Some d'" "trans_wf d" "names_ok s"
  shows "trans_wf d'"
  using assms names_ok_at [OF assms(3), of "prog_index c k"]
  by (auto simp: save_program_def trans_wf_def bind_Some_iff split: if_splits dest!: set_update_subset_insert [THEN subsetD])

lemma save_channel_wf:
  assumes "prog_info_2_pid_trans_info_of_channel c s d = Some d'" "trans_wf d" "names_ok s"
  shows "trans_wf d'"
proof -
  let ?d = "d\<lparr> data_len := 0, update_flag_and_chan_num := word_of_nat c, nprogs := g_chan_num s ! c \<rparr>"
  have wf: "trans_wf ?d" using assms(2) by (simp add: trans_wf_def)
  show ?thesis
  proof (cases "nprogs ?d = 0")
    case True
    with assms(1) wf show ?thesis by (auto simp: prog_info_2_pid_trans_info_of_channel_def Let_def)
  next
    case False
    with assms(1) obtain v x where v: "foldM (save_program s c) ?d [0..<unat (nprogs ?d)] = Some v"
      and d': "d' = v\<lparr> data_len := x \<rparr>"
      by (auto simp: prog_info_2_pid_trans_info_of_channel_def Let_def bind_Some_iff)
    have "trans_wf v"
      by (rule foldM_invariant [where P = trans_wf, OF wf v]) (use assms(3) save_program_wf in blast)
    then show ?thesis by (simp add: d' trans_wf_def)
  qed
qed

lemma saved_tables_total:
  assumes "tables_ok s" "length table = CHANNEL_MAX_NUM" "\<forall>d \<in> set table. trans_wf d"
  shows "\<exists>table'. prog_info_2_pid_trans_info s table = Some table' \<and> length table' = CHANNEL_MAX_NUM
    \<and> (\<forall>c < CHANNEL_MAX_NUM. prog_info_2_pid_trans_info_of_channel c s (table ! c) = Some (table' ! c))"
proof -
  from assms(1) have s: "fp_wf s" "fp_bounded s" by (simp_all add: tables_ok_def)
  have "\<exists>d'. prog_info_2_pid_trans_info_of_channel c s (table ! c) = Some d'" if "c < CHANNEL_MAX_NUM" for c
    using save_channel [OF s that, of "table ! c"] assms(2,3) that by (metis nth_mem)
  then obtain g where g: "\<forall>c < CHANNEL_MAX_NUM. prog_info_2_pid_trans_info_of_channel c s (table ! c) = Some (g c)"
    by metis
  have "\<exists>t'. prog_info_2_pid_trans_info s table = Some t' \<and> length t' = length table
      \<and> (\<forall>c \<in> set [0..<CHANNEL_MAX_NUM]. t' ! c = g c)
      \<and> (\<forall>c. c \<notin> set [0..<CHANNEL_MAX_NUM] \<longrightarrow> t' ! c = table ! c)"
    unfolding prog_info_2_pid_trans_info_def by (rule foldM_cells) (use g assms(2) in auto)
  with assms(2) g show ?thesis by auto
qed

lemma saved_tables:
  assumes "prog_info_2_pid_trans_info s table = Some table'" "tables_ok s"
    "length table = CHANNEL_MAX_NUM" "\<forall>d \<in> set table. trans_wf d"
  shows "length table' = CHANNEL_MAX_NUM
    \<and> (\<forall>c < CHANNEL_MAX_NUM. prog_info_2_pid_trans_info_of_channel c s (table ! c) = Some (table' ! c))"
  using saved_tables_total [OF assms(2-4)] assms(1) by simp

lemma saved_record:
  assumes "prog_info_2_pid_trans_info s table = Some table'" "tables_ok s"
    "length table = CHANNEL_MAX_NUM" "\<forall>d \<in> set table. trans_wf d" "c < CHANNEL_MAX_NUM"
  shows "trans_wf (table' ! c)" "pid_trans_info_validate (table' ! c) = Some True" "trans_compact (table' ! c)"
    "nprogs (table' ! c) = g_chan_num s ! c"
    "\<forall>k < chan_nprogs s c. \<exists>p. prog_at s (prog_index c k) = Some p \<and> pc_info (programs (table' ! c) ! k) = info p
       \<and> wu_bitmap_test_bit (sel_status (table' ! c)) k = FP_PROG_SELECTED p"
proof -
  from assms(2) have s: "fp_wf s" "fp_bounded s" "names_ok s" by (simp_all add: tables_ok_def)
  have wf: "trans_wf (table ! c)" using assms(3-5) by simp
  from saved_tables [OF assms(1-4)] assms(5)
  have d: "prog_info_2_pid_trans_info_of_channel c s (table ! c) = Some (table' ! c)" by simp
  show "trans_wf (table' ! c)" by (rule save_channel_wf [OF d wf s(3)])
  show "pid_trans_info_validate (table' ! c) = Some True"
    using saved_channel_validates [OF s(1,2) assms(5) wf] d by auto
  from save_channel [OF s(1,2) assms(5) wf] d show n: "nprogs (table' ! c) = g_chan_num s ! c"
    and "\<forall>k < chan_nprogs s c. \<exists>p. prog_at s (prog_index c k) = Some p \<and> pc_info (programs (table' ! c) ! k) = info p
       \<and> wu_bitmap_test_bit (sel_status (table' ! c)) k = FP_PROG_SELECTED p" by force+
  have "chan_nprogs s c \<le> PROGRAM_MAX_NUM" using s(2) assms(5) by (simp add: fp_bounded_def)
  with saved_channel_validates [OF s(1,2) assms(5) wf] d n show "trans_compact (table' ! c)"
    by (auto simp: trans_compact_def chan_nprogs_def unat_eq_0)
qed

lemma trans_generated:
  assumes "prog_info_2_pid_trans_info s table = Some table'" "tables_ok s"
    "length table = CHANNEL_MAX_NUM" "\<forall>d \<in> set table. trans_wf d"
  shows "op_ok (OTrans table')"
  using saved_tables [OF assms] saved_record(1,2) [OF assms] by (simp add: list_all_length)

section \<open>The commands keep the store\<close>

definition board_wf :: "board \<Rightarrow> bool" where
  "board_wf b \<longleftrightarrow> stored b \<and> param_wf (g_eeprom_param b) \<and> tables_ok (fp b)"

definition env_ok :: "board_env \<Rightarrow> bool" where
  "env_ok env \<longleftrightarrow> pid_map_wf (pid_map (fpga_pid_map (env_gen_ctx env))) \<and> length (env_ci_name env) = 20"

lemma store_step_keeps:
  fixes s :: "'a xmux_scheme"
  assumes "store_step op s = Some s'" "stored s" "param_wf (g_eeprom_param s)" "op_ok op"
  shows "stored s' \<and> param_wf (g_eeprom_param s')"
  using store_step_ok [OF assms(2-4)] assms(1) by simp

lemma stored_fields [simp]:
  "stored (log_hw es b) = stored b" "stored (bump_map_version b) = stored b" "stored (bump_trans_version b) = stored b"
  "g_eeprom_param (log_hw es b) = g_eeprom_param b" "g_eeprom_param (bump_map_version b) = g_eeprom_param b"
  "g_eeprom_param (bump_trans_version b) = g_eeprom_param b"
  "stored (b\<lparr> fp := s, old_prog := p \<rparr>) = stored b" "stored (b\<lparr> fp := s \<rparr>) = stored b"
  "stored (b\<lparr> worker := w \<rparr>) = stored b" "stored (b\<lparr> fp_swait := sw \<rparr>) = stored b"
  by (simp_all add: stored_def log_hw_def bump_map_version_def bump_trans_version_def)

lemma session_fp: "session b' = session b \<Longrightarrow> fp b' = fp b"
  by (simp add: session_def)

lemma board_wf_store:
  assumes "store_step op b = Some b'" "board_wf b" "op_ok op" "session b' = session b"
  shows "board_wf b'"
  using store_step_keeps [OF assms(1) _ _ assms(3)] assms(2) session_fp [OF assms(4)] by (simp add: board_wf_def)

lemma board_wf_fields [simp]:
  "board_wf (log_hw es b) = board_wf b" "board_wf (bump_map_version b) = board_wf b"
  "board_wf (bump_trans_version b) = board_wf b" "board_wf (b\<lparr> worker := w \<rparr>) = board_wf b"
  "board_wf (b\<lparr> fp_swait := sw \<rparr>) = board_wf b"
  by (simp_all add: board_wf_def) (simp_all add: log_hw_def bump_map_version_def bump_trans_version_def)

lemma session_bumps [simp]: "session (bump_map_version b) = session b" "session (bump_trans_version b) = session b"
  by (simp_all add: bump_map_version_def bump_trans_version_def)

lemma simple_ops_wf:
  assumes "board_wf b"
  shows "board_wf (set_output_bitrate r b)" "board_wf (set_packet_format f b)"
    "length (mac n) = 6 \<Longrightarrow> board_wf (xmux_net_set n b)"
    "length (ci_name ci) = 20 \<Longrightarrow> board_wf (xmux_config_save_ci_info ci b)"
    "board_wf (xmux_ci_info_update ci b)"
    "board_wf (xmux_config_save_misc_param (upd_param (\<lambda>p. p\<lparr> p_misc := (p_misc p)\<lparr> sel_src := x \<rparr> \<rparr>) b))"
    "board_wf (xmux_system_param_init_default b)" "board_wf (xmux_user_param_init_default b)"
  using board_wf_store [of "ORate r" "log_hw [OutputBitrate r] b"] board_wf_store [of "OFormat f" "log_hw [PacketLength f] b"]
    board_wf_store [of "ONet n" "log_hw [NetParam (ip n) (netmask n) (gateway n) (mac n)] b"]
    board_wf_store [of "OCi ci" b] board_wf_store [of "OSelSrc x" b] board_wf_store [of OSysDefault b]
    board_wf_store [of OUserDefault b] assms
  by (simp_all add: set_output_bitrate_def set_packet_format_def xmux_net_set_def xmux_ci_info_update_def)

lemma net_default_mac: "length (mac (xmux_net_param_init_default n)) = 6"
  by (simp add: xmux_net_param_init_default_def Let_def)

lemma reset_net_wf:
  assumes "board_wf b"
  shows "board_wf (reset_net b)"
proof -
  let ?n = "xmux_net_param_init_default (p_net (g_eeprom_param b))"
  have "xmux_net_set ?n (upd_param (\<lambda>p. p\<lparr> p_net := xmux_net_param_init_default (p_net p) \<rparr>) b) = xmux_net_set ?n b"
    by (simp add: xmux_net_set_def xmux_config_save_net_param_def log_hw_def write_eeprom_def upd_param_def Let_def)
  then show ?thesis
    using simple_ops_wf(3) [OF assms net_default_mac] by (simp add: reset_net_def Let_def simple_ops_wf(7,8))
qed

lemma apply_parts:
  "apply_pid_map env b = Some b1 \<Longrightarrow> fp b1 = fp b \<and> p_output_psi (g_eeprom_param b1) = p_output_psi (g_eeprom_param b)
     \<and> p_pid_trans_info (g_eeprom_param b1) = p_pid_trans_info (g_eeprom_param b)
     \<and> (\<exists>r. pid_map_table_gen_and_apply_from_fp (env_gen_ctx env) (fp b) = Some r)"
  "apply_psi env b = Some b1 \<Longrightarrow> fp b1 = fp b
     \<and> p_pid_trans_info (g_eeprom_param b1) = p_pid_trans_info (g_eeprom_param b)
     \<and> (\<exists>r. psi_gen_and_apply_from_fp (env_enc env) (env_pat_ctx env) (fp b) (p_output_psi (g_eeprom_param b)) = Some r)"
  "apply_trans b = Some b1 \<Longrightarrow> \<exists>table. prog_info_2_pid_trans_info (fp b) (p_pid_trans_info (g_eeprom_param b)) = Some table"
  by (auto simp: apply_pid_map_def apply_psi_def apply_trans_def bind_Some_iff Let_def bump_map_version_def log_hw_def
      xmux_config_save_pid_map_table_def xmux_config_save_output_psi_data_def upd_param_def write_eeprom_def)

lemma apply_generates:
  assumes "apply_pid_map_table_and_psi env b = Some b'"
  obtains m mux lost psi writes table where
    "pid_map_table_gen_and_apply_from_fp (env_gen_ctx env) (fp b) = Some (m, mux, lost)"
    "psi_gen_and_apply_from_fp (env_enc env) (env_pat_ctx env) (fp b) (p_output_psi (g_eeprom_param b)) = Some (psi, writes)"
    "prog_info_2_pid_trans_info (fp b) (p_pid_trans_info (g_eeprom_param b)) = Some table"
proof -
  from assms obtain b1 b2 b3 where "apply_pid_map env b = Some b1" "apply_psi env b1 = Some b2" "apply_trans b2 = Some b3"
    by (auto simp: apply_pid_map_table_and_psi_def bind_Some_iff)
  from apply_parts(1) [OF this(1)] apply_parts(2) [OF this(2)] apply_parts(3) [OF this(3)] show thesis
    using that by (metis prod_cases3 surj_pair)
qed

lemma apply_wf:
  assumes "apply_pid_map_table_and_psi env b = Some b'" "board_wf b" "env_ok env"
  shows "board_wf b'"
proof -
  from assms(2) have wf: "param_wf (g_eeprom_param b)" "tables_ok (fp b)" by (simp_all add: board_wf_def)
  from apply_generates [OF assms(1)] obtain m mux lost psi writes table
    where g: "pid_map_table_gen_and_apply_from_fp (env_gen_ctx env) (fp b) = Some (m, mux, lost)"
      "psi_gen_and_apply_from_fp (env_enc env) (env_pat_ctx env) (fp b) (p_output_psi (g_eeprom_param b)) = Some (psi, writes)"
      "prog_info_2_pid_trans_info (fp b) (p_pid_trans_info (g_eeprom_param b)) = Some table" .
  have ops: "op_ok (OMap (pid_map m))" "op_ok (OMux mux)" "op_ok (OPsi psi)" "op_ok (OTrans table)"
    using map_generated [OF g(1)] psi_generated [OF g(2)] trans_generated [OF g(3) wf(2)] param_wf_part [OF wf(1)] assms(3) wf(1)
    by (simp_all add: env_ok_def param_wf_def)
  from assms(1) [unfolded apply_as_store [OF g]] obtain b1 b2 b3 where
    b1: "store_step (OMap (pid_map m)) b = Some b1"
    and b2: "store_step (OPsi psi) (bump_map_version (log_hw [PidMapWrite m] b1)) = Some b2"
    and b3: "store_step (OTrans table) (log_hw (map (\<lambda>(howto, bytes). PsiBuffer howto bytes) writes) b2) = Some b3"
    and b': "store_step (OMux mux) (bump_trans_version b3) = Some b'"
    by (auto simp: bind_Some_iff simp del: store_step.simps)
  have "board_wf b1" by (rule board_wf_store [OF b1 assms(2) ops(1)]) (use b1 in auto)
  then have "board_wf b2" by (intro board_wf_store [OF b2 _ ops(3)]) (use b2 in auto)
  then have "board_wf b3" by (intro board_wf_store [OF b3 _ ops(4)]) (use b3 session_save_trans in auto)
  then show ?thesis by (intro board_wf_store [OF b' _ ops(2)]) (use b' in auto)
qed

lemma board_wf_other [simp]:
  "board_wf (b\<lparr> login_flag := l \<rparr>) = board_wf b" "board_wf (b\<lparr> g_param_mng_info := i \<rparr>) = board_wf b"
  "board_wf (b\<lparr> sg_mib_pid_trans_info := r \<rparr>) = board_wf b" "board_wf (b\<lparr> sg_mib_trans_table := t \<rparr>) = board_wf b"
  "board_wf (b\<lparr> management_mode := m \<rparr>) = board_wf b"
  "board_wf (b\<lparr> input_pid_table := q \<rparr>) = board_wf b"
  by (simp_all add: board_wf_def stored_def)

lemma board_wf_fp: "board_wf b \<Longrightarrow> tables_ok s \<Longrightarrow> board_wf (b\<lparr> fp := s \<rparr>)"
  "board_wf b \<Longrightarrow> tables_ok s \<Longrightarrow> board_wf (b\<lparr> fp := s, old_prog := p \<rparr>)"
  by (simp_all add: board_wf_def)

lemma save_mode_wf:
  assumes "board_wf b"
  shows "board_wf (xmux_config_save_management_mode b)"
  by (rule board_wf_store [of OMode b]) (simp_all add: assms xmux_config_save_management_mode_def)

lemma enter_wf:
  assumes "enter_fp_management_mode b = Some b'" "board_wf b"
  shows "board_wf b'"
proof -
  from assms(2) have p: "param_wf (g_eeprom_param b)" "names_ok (fp b)" "fp_wf (fp b)"
    by (simp_all add: board_wf_def tables_ok_def)
  from assms(1) obtain s t where s: "pid_trans_info_2_prog_info (p_pid_trans_info (g_eeprom_param b)) (fp b) = Some s"
    and b': "b' = xmux_config_save_management_mode (b\<lparr> login_flag := SNMP_LOGIN_STATUS_BUSY, fp := s, input_pid_table := t,
      management_mode := MANAGEMENT_MODE_FP \<rparr>)"
    by (auto simp: enter_fp_management_mode_def bind_Some_iff Let_def)
  have "tables_ok s"
    by (rule load_tables_ok [OF s _ _ p(2,3)]) (use p(1) in \<open>auto simp: param_wf_def\<close>)
  with assms(2) have "board_wf (b\<lparr> login_flag := SNMP_LOGIN_STATUS_BUSY, fp := s, input_pid_table := t,
      management_mode := MANAGEMENT_MODE_FP \<rparr>)" by (simp add: board_wf_fp)
  from save_mode_wf [OF this] b' show ?thesis by simp
qed

lemma leave_wf: "board_wf b \<Longrightarrow> board_wf (leave_fp_management_mode b)"
  by (simp add: leave_fp_management_mode_def Let_def save_mode_wf)

lemma check_wf:
  assumes "front_panel_check_recv_cmd buf b = Some (rc, b')" "board_wf b"
  shows "board_wf b'"
  using assms by (auto simp: front_panel_check_recv_cmd_def Let_def bind_Some_iff split: if_splits dest: enter_wf)

text \<open>A message is in the receive buffer, which is longer than every structure read from it.\<close>

lemma received_layout:
  assumes "length buf = RECV_BUF_SIZE"
  shows "info_bytes_wf (info (buf_2_prog_info (body buf)))" "length (mac (fp_net_2_xmux_net (net_eth0_of_mem (body buf)) n)) = 6"
    "length (ci_name (ci_of_mem (body buf))) = 20"
  using assms
  by (simp_all add: buf_2_prog_info_def prog_of_mem_def info_of_mem_wf body_def line_sizes INFO_SIZE_def Let_def
      fp_net_2_xmux_net_def net_eth0_of_mem_def ci_of_mem_def)

lemma program_handler_wf:
  assumes "cmd_program_info_handler hdr is_read buf b = Some (rc, resp, b')" "board_wf b" "length buf = RECV_BUF_SIZE"
  shows "board_wf b'"
proof -
  have t: "tables_ok (fp b)" "names_ok (fp b)" using assms(2) by (simp_all add: board_wf_def tables_ok_def)
  have bytes: "info_bytes_wf (info p)" if "prog_at (fp b) i = Some p" for i p by (rule names_ok_at [OF t(2) that])
  show ?thesis
    using assms(1,2) received_layout(1) [OF assms(3)] bytes tables_ok_prepare [OF t(1)] tables_ok_check [OF t(1)]
      tables_ok_deselect [OF t(1)]
    by (auto simp: cmd_program_info_handler_def Let_def bind_Some_iff board_wf_fp split: if_splits)
qed

lemma other_handlers_wf:
  assumes "board_wf b" "length buf = RECV_BUF_SIZE"
  shows "cmd_out_rate_handler hdr is_read buf b = Some (rc, resp, b') \<Longrightarrow> board_wf b'"
    "cmd_net_handler hdr is_read buf b = Some (rc, resp, b') \<Longrightarrow> board_wf b'"
    "cmd_ci_info_handler env hdr is_read buf b = Some (rc, resp, b') \<Longrightarrow> board_wf b'"
    "cmd_sel_src_handler hdr is_read buf b = Some (rc, resp, b') \<Longrightarrow> board_wf b'"
  using received_layout [OF assms(2)] simple_ops_wf assms(1)
  by (auto simp: handler_defs Let_def split: if_splits)

lemma bcm_wf: "board_wf b \<Longrightarrow> board_wf (snd (bcm3033_get_param env b))" "board_wf b \<Longrightarrow> board_wf (bcm3033_set_param p b)"
  by (simp_all add: bcm3033_get_param_def bcm3033_set_param_def Let_def split: option.split)

lemma rf_wf:
  assumes "xmux_4_channel_rf_cmds_handler env hdr is_read buf b = (rc, resp, b')" "board_wf b"
  shows "board_wf b'"
proof -
  obtain param b1 where g: "bcm3033_get_param env b = (param, b1)" by force
  with bcm_wf(1) [OF assms(2), of env] have "board_wf b1" by simp
  with assms g bcm_wf(2) show ?thesis
    by (auto simp: xmux_4_channel_rf_cmds_handler_def rf_switch_def Let_def split: if_splits)
qed

lemma sys_handler_wf:
  assumes "cmd_sys_handler env hdr buf b = Some (rc, resp, b')" "board_wf b" "env_ok env"
  shows "board_wf b'"
  using assms
  by (auto simp: cmd_sys_handler_def Let_def bind_Some_iff reset_net_wf leave_wf split: if_splits prod.splits
      dest: enter_wf apply_wf)

lemma message_wf:
  assumes "do_parse_mcu_cmd env buf b = Some (rc, resp, b')" "board_wf b" "env_ok env" "length buf = RECV_BUF_SIZE"
  shows "board_wf b'"
proof (cases "sync (buf_2_fp_cmd_header buf) = defMcuSyncFlag")
  case False
  with assms(1,2) show ?thesis by (simp add: do_parse_mcu_cmd_def Let_def)
next
  case True
  from assms(1) True refl refl refl show ?thesis
  proof (cases rule: do_parse_cases)
    case (expected rc1)
    with check_wf assms(2) show ?thesis by blast
  next
    case (program b1)
    with check_wf [OF program(1) assms(2)] program_handler_wf assms(4) show ?thesis by blast
  next
    case (sys b1)
    with check_wf [OF sys(1) assms(2)] sys_handler_wf assms(3) show ?thesis by blast
  next
    case (other b1)
    have b1: "board_wf b1" by (rule check_wf [OF other(1) assms(2)])
    from other(3) show ?thesis
      using b1 by (auto dest: other_handlers_wf [OF b1 assms(4)] rf_wf)
  qed
qed

section \<open>Responses\<close>

definition defMcuBufMax :: nat where "defMcuBufMax = 4096"

definition fitting_response :: "fp_cmd_header \<Rightarrow> u8 list \<Rightarrow> bool" where
  "fitting_response hdr resp \<longleftrightarrow> resp = [] \<or> (\<exists>param. resp = fp_create_response_cmd hdr param \<and> length param \<le> PROG_SIZE)"

lemma fitting_responseI [intro]:
  "fitting_response hdr []"
  "length param \<le> PROG_SIZE \<Longrightarrow> fitting_response hdr (fp_create_response_cmd hdr param)"
  by (auto simp: fitting_response_def)

lemma fitting_frame:
  assumes "fitting_response hdr resp" "resp \<noteq> []"
  shows "length resp \<le> defMcuBufMax \<and> fp_validate_cmd resp (length resp) (length resp - HEADER_SIZE - FP_MSG_CRC_SIZE)
    \<and> sync (buf_2_fp_cmd_header resp) = sync hdr \<and> seq (buf_2_fp_cmd_header resp) = seq hdr"
proof -
  from assms obtain param where r: "resp = fp_create_response_cmd hdr param" "length param \<le> PROG_SIZE"
    by (auto simp: fitting_response_def)
  moreover have "length param < 2 ^ 16" using r(2) by (simp add: PROG_SIZE_def)
  ultimately show ?thesis
    using response_valid [of param hdr] response_header [of hdr param "[]"] response_length [of hdr param]
    by (simp add: defMcuBufMax_def PROG_SIZE_def frame_sizes)
qed

lemma program_handler_fits:
  assumes "cmd_program_info_handler hdr is_read buf b = Some (rc, resp, b')" "board_wf b"
  shows "fitting_response hdr resp"
proof -
  have t: "tables_ok (fp b)" "names_ok (fp b)" using assms(2) by (simp_all add: board_wf_def tables_ok_def)
  have "length (prog_info_2_buf q) \<le> PROG_SIZE"
    if "prog_at (fp b) i = Some p" "prepare_program_output_pid i p (fp b) = Some (q, s)" for i p q s
    using tables_ok_prepare [OF t(1) that(2) names_ok_at [OF t(2) that(1)]] fp_prog.enc_length [of q] by simp
  with assms(1) show ?thesis
    by (auto simp: cmd_program_info_handler_def Let_def bind_Some_iff PROG_SIZE_def split: if_splits)
qed

lemma board_wf_layout:
  assumes "board_wf b"
  shows "length (mac (p_net (g_eeprom_param b))) = 6"
  using assms by (simp add: board_wf_def param_wf_def)

lemma other_handlers_fit:
  "cmd_out_rate_handler hdr is_read buf b = Some (rc, resp, b') \<Longrightarrow> fitting_response hdr resp"
  "cmd_net_handler hdr is_read buf b = Some (rc, resp, b') \<Longrightarrow> board_wf b \<Longrightarrow> fitting_response hdr resp"
  "cmd_ci_info_handler env hdr is_read buf b = Some (rc, resp, b') \<Longrightarrow> env_ok env \<Longrightarrow> fitting_response hdr resp"
  "cmd_sel_src_handler hdr is_read buf b = Some (rc, resp, b') \<Longrightarrow> fitting_response hdr resp"
  using board_wf_layout [of b]
  by (auto simp: handler_defs Let_def out_rate_mem_def net_eth0_mem_def xmux_net_2_fp_net_def ci_mem_def env_ok_def
      PROG_SIZE_def split: if_splits)

lemma bcm_param_length: "length (fst (bcm3033_get_param env b)) \<le> BCM3033_PARAM_SIZE"
  by (auto simp: bcm3033_get_param_def ctrl_mcu_send_and_recv_cmd_def Let_def split: option.splits if_splits)

lemma rf_fits:
  assumes "xmux_4_channel_rf_cmds_handler env hdr is_read buf b = (rc, resp, b')"
  shows "fitting_response hdr resp"
proof -
  obtain param b1 where g: "bcm3033_get_param env b = (param, b1)" by force
  with bcm_param_length [of env b] have "length param \<le> PROG_SIZE"
    by (simp add: BCM3033_PARAM_SIZE_def PROG_SIZE_def)
  with assms g show ?thesis
    by (auto simp: xmux_4_channel_rf_cmds_handler_def rf_switch_def tunner_get_param_def tunner_get_status_def
        TUNNER_PARAM_SIZE_def TUNNER_STATUS_SIZE_def PROG_SIZE_def Let_def split: if_splits)
qed

lemma sys_handler_fits:
  "cmd_sys_handler env hdr buf b = Some (rc, resp, b') \<Longrightarrow> fitting_response hdr resp"
  by (auto simp: cmd_sys_handler_def Let_def bind_Some_iff PROG_SIZE_def CHANNEL_MAX_NUM_def split: if_splits prod.splits)

lemma message_fits:
  assumes "do_parse_mcu_cmd env buf b = Some (rc, resp, b')" "board_wf b" "env_ok env"
  shows "fitting_response (buf_2_fp_cmd_header buf) resp"
proof (cases "sync (buf_2_fp_cmd_header buf) = defMcuSyncFlag")
  case False
  with assms(1) show ?thesis by (simp add: do_parse_mcu_cmd_def Let_def fitting_response_def)
next
  case True
  from assms(1) True refl refl refl show ?thesis
  proof (cases rule: do_parse_cases)
    case (expected rc1)
    then show ?thesis by (simp add: fitting_response_def)
  next
    case (program b1)
    with check_wf [OF program(1) assms(2)] program_handler_fits show ?thesis by blast
  next
    case (sys b1)
    with sys_handler_fits show ?thesis by blast
  next
    case (other b1)
    have b1: "board_wf b1" by (rule check_wf [OF other(1) assms(2)])
    from other(3) show ?thesis
      by (auto dest: other_handlers_fit(1,4) other_handlers_fit(2) [OF _ b1] other_handlers_fit(3) [OF _ assms(3)] rf_fits)
  qed
qed

section \<open>Properties\<close>


definition example_env :: board_env where
  "example_env = \<lparr> env_enc = \<lparr> dvbSI_Gen_PAT = \<lambda>_ _. [], dvbSI_Gen_PMT = \<lambda>_ _. [], dvbSI_Gen_SDT = \<lambda>_ _. [],
       dvbSI_Gen_NIT = \<lambda>_ _. [] \<rparr>,
     env_pat_ctx = \<lparr> pat_nprogs = 0, pat_tran_stream_id = 0, tpid_data = replicate 65 \<lparr> pg_num = 0, pg_pid = 0 \<rparr>,
       pat_programs = replicate 64 \<lparr> pp_prog_num = 0, pp_pmt_pid = 0 \<rparr> \<rparr>,
     env_gen_ctx = example_ctx, env_ts_status = (0, 0), env_ci_name = replicate 20 0, env_mcu_line = \<lambda>_. [] \<rparr>"

lemma example_board_wf: "board_wf (example_board\<lparr> fp := s \<rparr>) \<longleftrightarrow> tables_ok s"
  using example_stored
  by (simp add: board_wf_def example_board_def stored_def example_xmux_def example_params_wf)

lemma example_env_ok: "env_ok example_env"
  by (simp add: env_ok_def example_env_def) (simp add: pid_map_wf_def example_ctx_def limit_simps)

text \<open>A table whose programs have names, and the command that reads the network parameters.\<close>

definition zero_table :: fp_state where
  "zero_table = \<lparr> g_prog_info_table = replicate 512 prog_zero, g_chan_num = replicate 8 0 \<rparr>"

lemma zero_table_ok: "tables_ok zero_table"
  by (simp add: tables_ok_def names_ok_def fp_wf_def fp_bounded_def zero_table_def prog_zero_bytes bytes_wf_info_wf
      chan_nprogs_def limit_simps)

definition net_read :: "u8 list" where
  "net_read = fp_build_cmd True FP_CMD_NET [] @ replicate 1204 0"

lemma net_read: "length net_read = RECV_BUF_SIZE" "buf_2_fp_cmd_header net_read =
    \<lparr> sync = defMcuSyncFlag, seq = 0x8202, len = 0 \<rparr>"
proof -
  show "length net_read = RECV_BUF_SIZE"
    by (simp add: net_read_def fp_build_cmd_def response_length line_sizes)
  show "buf_2_fp_cmd_header net_read = \<lparr> sync = defMcuSyncFlag, seq = 0x8202, len = 0 \<rparr>"
    by (simp add: net_read_def fp_build_cmd_def response_header FP_CMD_NET_def)
qed

lemma net_read_parsed:
  assumes "management_mode b = MANAGEMENT_MODE_FP" "fp_expect_cmd b = None"
  shows "do_parse_mcu_cmd env net_read b = Some (1, fp_create_response_cmd (buf_2_fp_cmd_header net_read)
    (net_eth0_mem (xmux_net_2_fp_net (p_net (g_eeprom_param b)))), b)"
proof -
  have c: "(0x8202 :: u16) AND 0x7FFF = 0x202" "(0x8202 :: u16) AND 0x8000 \<noteq> 0" by simp_all
  have "front_panel_check_recv_cmd net_read b = Some (0, b)"
    using assms by (simp add: front_panel_check_recv_cmd_def net_read c Let_def)
  then show ?thesis
    by (simp add: do_parse_mcu_cmd_def net_read c Let_def cmd_net_handler_def fp_cmds limit_simps)
qed


section \<open>Applying and starting again\<close>

lemma save_trans_params:
  fixes b :: board
  assumes "xmux_config_save_pid_trans_info_all b = Some b'"
  shows "g_eeprom_param b' = g_eeprom_param b \<and> hw b' = hw b"
  by (rule foldM_invariant [where P = "\<lambda>x. g_eeprom_param x = g_eeprom_param b \<and> hw x = hw b", OF _
        assms [unfolded xmux_config_save_pid_trans_info_all_def]])
     (auto simp: save_trans_channel_def bind_Some_iff Let_def write_eeprom_def split: if_splits)

text \<open>The parameters and the writes to the hardware after applying.\<close>

lemma apply_result:
  assumes gen: "pid_map_table_gen_and_apply_from_fp (env_gen_ctx env) (fp b) = Some (m, mux, lost)"
    and psi: "psi_gen_and_apply_from_fp (env_enc env) (env_pat_ctx env) (fp b) (p_output_psi (g_eeprom_param b)) = Some (psi, writes)"
    and trans: "prog_info_2_pid_trans_info (fp b) (p_pid_trans_info (g_eeprom_param b)) = Some table"
    and r: "apply_pid_map_table_and_psi env b = Some b'"
  shows "g_eeprom_param b' = (g_eeprom_param b)\<lparr> p_mux_prog_info := mux, p_pid_map_table := pid_map m,
      p_output_psi := psi, p_pid_trans_info := table \<rparr>"
    "hw b' = hw b @ PidMapWrite m # map (\<lambda>(howto, bytes). PsiBuffer howto bytes) writes"
proof -
  have hw: "hw (upd_param f x) = hw x" "hw (write_eeprom a bs x) = hw x" "hw (log_hw es x) = hw x @ es"
    for f a bs es and x :: board
    by (simp_all add: upd_param_def write_eeprom_def log_hw_def)
  obtain b3 where b3: "xmux_config_save_pid_trans_info_all (upd_param (\<lambda>p. p\<lparr> p_pid_trans_info := table \<rparr>)
      (log_hw (map (\<lambda>(howto, bytes). PsiBuffer howto bytes) writes) (xmux_config_save_output_psi_data
        (upd_param (\<lambda>p. p\<lparr> p_output_psi := psi \<rparr>) (bump_map_version (log_hw [PidMapWrite m]
          (xmux_config_save_pid_map_table (pid_map m) b))))))) = Some b3"
    and b': "b' = xmux_config_save_mux_program_info mux (set_mux mux (bump_trans_version b3))"
    using r [unfolded apply_as_store [OF gen psi trans]] by (auto simp: bind_Some_iff set_mux_def)
  from save_trans_params [OF b3]
  have "g_eeprom_param b3 = (g_eeprom_param b)\<lparr> p_pid_map_table := pid_map m, p_output_psi := psi, p_pid_trans_info := table \<rparr>"
    "hw b3 = hw b @ PidMapWrite m # map (\<lambda>(howto, bytes). PsiBuffer howto bytes) writes"
    by (simp_all add: hw xmux_config_save_pid_map_table_def pid_map_table_validate_True bump_map_version_def
        xmux_config_save_output_psi_data_def)
  then show "g_eeprom_param b' = (g_eeprom_param b)\<lparr> p_mux_prog_info := mux, p_pid_map_table := pid_map m,
      p_output_psi := psi, p_pid_trans_info := table \<rparr>"
    "hw b' = hw b @ PidMapWrite m # map (\<lambda>(howto, bytes). PsiBuffer howto bytes) writes"
    by (simp_all add: b' hw set_mux_def bump_trans_version_def xmux_config_save_mux_program_info_def)
qed

lemma flush_params [simp]:
  "g_eeprom_param (check_and_save_output_psi_data b) = g_eeprom_param b"
  "\<not> request_save_output_psi (check_and_save_output_psi_data b)"
  by (simp_all add: check_and_save_output_psi_data_def Let_def)

text \<open>Loaded records hold the programs of the table they were saved from.\<close>

lemma load_saved:
  assumes saved: "prog_info_2_pid_trans_info s table = Some table'" "tables_ok s"
    "length table = CHANNEL_MAX_NUM" "\<forall>d \<in> set table. trans_wf d"
    and kept: "\<forall>c < CHANNEL_MAX_NUM. nprogs (t ! c) = nprogs (table' ! c)
        \<and> take (unat (nprogs (table' ! c))) (programs (t ! c)) = take (unat (nprogs (table' ! c))) (programs (table' ! c))
        \<and> (nprogs (table' ! c) \<noteq> 0 \<longrightarrow> sel_status (t ! c) = sel_status (table' ! c))
        \<and> length (programs (t ! c)) = PROGRAM_MAX_NUM"
    and "fp_wf s0"
  obtains s' where "pid_trans_info_2_prog_info t s0 = Some s'" "g_chan_num s' = g_chan_num s"
    "\<forall>c < CHANNEL_MAX_NUM. \<forall>k < chan_nprogs s c. \<exists>p p'.
       prog_at s (prog_index c k) = Some p \<and> prog_at s' (prog_index c k) = Some p'
       \<and> info p' = info p \<and> FP_PROG_SELECTED p' = FP_PROG_SELECTED p"
proof -
  note rec = saved_record [OF saved]
  have le: "unat (nprogs (t ! c)) \<le> PROGRAM_MAX_NUM" if "c < CHANNEL_MAX_NUM" for c
    using rec(3) [OF that] kept that by (simp add: trans_compact_def)
  from load_all [of s0 t] le kept assms(6) obtain s' where s': "pid_trans_info_2_prog_info t s0 = Some s'"
    "length (g_chan_num s') = 8" "\<forall>c < CHANNEL_MAX_NUM. loaded c (t ! c) s'"
    by (auto simp: fp_wf_def limit_simps)
  have chan: "g_chan_num s' = g_chan_num s"
    using s'(2,3) rec(4) kept saved(2)
    by (intro nth_equalityI) (auto simp: loaded_def tables_ok_def fp_wf_def limit_simps)
  show thesis
  proof (rule that [OF s'(1) chan], intro allI impI)
    fix c k assume c: "c < CHANNEL_MAX_NUM" and k: "k < chan_nprogs s c"
    from rec(5) [OF c] k obtain p where p: "prog_at s (prog_index c k) = Some p"
      "pc_info (programs (table' ! c) ! k) = info p" "wu_bitmap_test_bit (sel_status (table' ! c)) k = FP_PROG_SELECTED p"
      by blast
    have n: "k < unat (nprogs (table' ! c))" using k rec(4) [OF c] by (simp add: chan_nprogs_def)
    then have ne: "nprogs (table' ! c) \<noteq> 0" by auto
    have "take (unat (nprogs (table' ! c))) (programs (t ! c)) ! k = take (unat (nprogs (table' ! c))) (programs (table' ! c)) ! k"
      using kept c by simp
    with n have "programs (t ! c) ! k = programs (table' ! c) ! k" by simp
    moreover have "loaded c (t ! c) s'" "k < unat (nprogs (t ! c))" using s'(3) kept c n by simp_all
    then obtain p' where "prog_at s' (prog_index c k) = Some p'"
      "info p' = pc_info (programs (t ! c) ! k)" "FP_PROG_SELECTED p' \<longleftrightarrow> wu_bitmap_test_bit (sel_status (t ! c)) k"
      unfolding loaded_def by blast
    ultimately show "\<exists>p p'. prog_at s (prog_index c k) = Some p \<and> prog_at s' (prog_index c k) = Some p'
        \<and> info p' = info p \<and> FP_PROG_SELECTED p' = FP_PROG_SELECTED p"
      using p kept c ne by auto
  qed
qed


text \<open>Applying stays inside its arrays when the generated area validates.\<close>

lemma psi_apply_total:
  assumes "psi_wf psi" "output_psi_data_validate psi"
  shows "\<exists>writes. psi_apply_from_output_psi psi = Some writes"
  using put_types [OF assms le_refl] by (auto simp: psi_apply_from_output_psi_def)

lemma apply_total:
  assumes "pid_map_table_gen_and_apply_from_fp (env_gen_ctx env) (fp b) = Some (m, mux, lost)"
    "psi_gen_area (env_enc env) (env_pat_ctx env) (fp b) (p_output_psi (g_eeprom_param b)) = Some psi"
    "output_psi_data_validate psi" "board_wf b" "env_ok env"
  shows "\<exists>b'. apply_pid_map_table_and_psi env b = Some b' \<and> p_output_psi (g_eeprom_param b') = psi"
proof -
  from assms(4) have b: "param_wf (g_eeprom_param b)" "tables_ok (fp b)" "psi_wf (p_output_psi (g_eeprom_param b))"
    and recs: "length (p_pid_trans_info (g_eeprom_param b)) = CHANNEL_MAX_NUM"
      "\<forall>d \<in> set (p_pid_trans_info (g_eeprom_param b)). trans_wf d"
    by (simp_all add: board_wf_def param_wf_def)
  have "psi_wf psi"
    using assms(2) b(3) write_hook_wf psi_generated
    by (auto simp: psi_gen_area_def bind_Some_iff Let_def begin_fill_output_psi_data_def psi_wf_def dest!: write_hook_wf)
  from psi_apply_total [OF this assms(3)] assms(2) obtain writes where
    psi: "psi_gen_and_apply_from_fp (env_enc env) (env_pat_ctx env) (fp b) (p_output_psi (g_eeprom_param b)) = Some (psi, writes)"
    by (auto simp: psi_gen_and_apply_from_fp_def)
  from saved_tables_total [OF b(2) recs] obtain table
    where trans: "prog_info_2_pid_trans_info (fp b) (p_pid_trans_info (g_eeprom_param b)) = Some table" by blast
  have ops: "op_ok (OMap (pid_map m))" "op_ok (OMux mux)" "op_ok (OPsi psi)" "op_ok (OTrans table)"
    using map_generated [OF assms(1)] psi_generated [OF psi b(3)] trans_generated [OF trans b(2) recs] assms(5)
    by (simp_all add: env_ok_def)
  have step: "\<exists>x'. store_step op x = Some x'" if "board_wf x" "op_ok op" for op x
    using store_step_ok [of x op] that by (auto simp: board_wf_def)
  obtain b1 where b1: "store_step (OMap (pid_map m)) b = Some b1" using step [OF assms(4) ops(1)] by blast
  then have "board_wf b1" by (intro board_wf_store [OF b1 assms(4) ops(1)]) auto
  then have wf2: "board_wf (bump_map_version (log_hw [PidMapWrite m] b1))" by simp
  obtain b2 where b2: "store_step (OPsi psi) (bump_map_version (log_hw [PidMapWrite m] b1)) = Some b2"
    using step [OF wf2 ops(3)] by blast
  have "board_wf b2" by (rule board_wf_store [OF b2 wf2 ops(3)]) (use b2 in auto)
  then have wf3: "board_wf (log_hw (map (\<lambda>(howto, bytes). PsiBuffer howto bytes) writes) b2)" by simp
  obtain b3 where b3: "store_step (OTrans table) (log_hw (map (\<lambda>(howto, bytes). PsiBuffer howto bytes) writes) b2) = Some b3"
    using step [OF wf3 ops(4)] by blast
  have "board_wf (bump_trans_version b3)"
    using board_wf_store [OF b3 wf3 ops(4)] b3 by (simp add: session_save_trans)
  then obtain b' where "store_step (OMux mux) (bump_trans_version b3) = Some b'" using step ops(2) by blast
  with b1 b2 b3 have r: "apply_pid_map_table_and_psi env b = Some b'"
    by (simp add: apply_as_store [OF assms(1) psi trans] del: store_step.simps)
  with apply_result [OF assms(1) psi trans r] show ?thesis by simp
qed

text \<open>The empty table is applied.\<close>

lemma zero_table_programs: "\<not> FP_PROG_SELECTED prog_zero" "name_row_ok (info prog_zero)"
  by code_simp+

lemma zero_table_out_map: "out_map zero_table = {}"
  by (auto simp: out_map_def sel_prog_at_def zero_table_def chan_nprogs_def CHANNEL_MAX_NUM_def)

lemma zero_table_apply:
  "\<exists>b'. apply_pid_map_table_and_psi example_env (example_board\<lparr> fp := zero_table \<rparr>) = Some b'
    \<and> output_psi_data_validate (p_output_psi (g_eeprom_param b')) \<and> pkt_nr (p_output_psi (g_eeprom_param b')) = 0"
proof -
  let ?b = "example_board\<lparr> fp := zero_table \<rparr>"
  have wf: "board_wf ?b" by (simp add: example_board_wf zero_table_ok)
  have t: "fp_wf zero_table" "fp_bounded zero_table" using zero_table_ok by (simp_all add: tables_ok_def)
  have none: "\<forall>p \<in> set (g_prog_info_table zero_table). \<not> FP_PROG_SELECTED p"
    by (simp add: zero_table_def zero_table_programs)
  have "outs_in_range zero_table" by (simp add: outs_in_range_def zero_table_out_map)
  from build_io_table_total [OF t this] obtain io where io: "build_io_table zero_table = Some io" by blast
  have ctx: "pid_map_wf (pid_map (fpga_pid_map (env_gen_ctx example_env)))" using example_env_ok by (simp add: env_ok_def)
  from gen_and_apply_eq [OF io t unselected_admitted [OF none] ctx] obtain m mux lost where
    gen: "pid_map_table_gen_and_apply_from_fp (env_gen_ctx example_env) (fp ?b) = Some (m, mux, lost)" by simp
  obtain nums where n: "build_program_number_table zero_table = Some nums"
    "numbers_ok nums (numbered_programs (g_prog_info_table zero_table))" using program_numbers_ok by blast
  have sel: "numbered_programs (g_prog_info_table zero_table) = []"
    using none by (simp add: numbered_programs_def filter_empty_conv)
  have "psi_gen_area (env_enc example_env) (env_pat_ctx example_env) zero_table psi_zero
      = map_option fst (fill_all [] (begin_fill_output_psi_data psi_zero))"
    using psi_gen_area_fills [OF t(1) _ _ n(1), of "env_pat_ctx example_env" "env_enc example_env" psi_zero] sel
    by (simp add: example_env_def encoder_bufs_def gen_nit_from_fp_def zero_table_def zero_table_programs limit_simps)
  moreover have "p_output_psi (g_eeprom_param ?b) = psi_zero" by (simp add: example_board_def example_params_def)
  ultimately obtain psi where psi: "psi_gen_area (env_enc example_env) (env_pat_ctx example_env) (fp ?b)
      (p_output_psi (g_eeprom_param ?b)) = Some psi" "psi = fst (begin_fill_output_psi_data psi_zero)"
    by (simp add: fill_all_def)
  have val: "output_psi_data_validate psi" "pkt_nr psi = 0"
    by (simp_all add: psi(2) begin_fill_output_psi_data_def output_psi_data_validate_def zero_ents_validate psi_zero_def)
  from apply_total [OF gen psi(1) val(1) wf example_env_ok] val show ?thesis by auto
qed


end
