(* ===== verification/SnmpWire.thy ===== *)
theory SnmpWire
  imports Wire
begin

unbundle bit_operations_syntax

text \<open>
  The packets of the SNMP agent: \<^verbatim>\<open>src/wu_snmp_lib.c\<close>, its atoms (a tag, a length and the data),
  the composite atoms a response is built from in place, and \<^verbatim>\<open>src/oids.c\<close>.
\<close>

section \<open>Atoms\<close>

definition TagInt :: u8 where "TagInt = 0x02"
definition TagString :: u8 where "TagString = 0x04"
definition TagValue :: u8 where "TagValue = 0x05"
definition TagOID :: u8 where "TagOID = 0x06"
definition TagVar :: u8 where "TagVar = 0x30"
definition TagGetRequest :: u8 where "TagGetRequest = 0xa0"
definition TagGetResponse :: u8 where "TagGetResponse = 0xa2"
definition TagSetRequest :: u8 where "TagSetRequest = 0xa3"

lemmas tags = TagInt_def TagString_def TagValue_def TagOID_def TagVar_def TagGetRequest_def
  TagGetResponse_def TagSetRequest_def

text \<open>
  The data pointer of an atom: into the received packet, with the bytes from there to the end of the
  receive buffer; to the buffer of the variable binding in work; or null. An atom takes \<open>a_len\<close> bytes.
\<close>

datatype data_ptr = Null | Packet "u8 list" | VbBuf

record wu_snmp_atom =
  a_tag :: u8
  a_len :: u16
  a_data :: data_ptr

definition atom_tagged :: "u8 \<Rightarrow> wu_snmp_atom" where
  "atom_tagged tag = \<lparr> a_tag = tag, a_len = 0, a_data = Null \<rparr>"

text \<open>An integer is copied to a variable of four bytes; an unknown tag leaves the pointer as it was.\<close>

definition atom_set_data :: "u8 list \<Rightarrow> u16 \<Rightarrow> wu_snmp_atom \<Rightarrow> wu_snmp_atom option" where
  "atom_set_data data len atom =
     (if a_tag atom = TagInt then
        (if unat len \<le> 4 \<and> unat len \<le> length data then Some (atom\<lparr> a_data := Packet data, a_len := len \<rparr>) else None)
      else if a_tag atom \<in> {TagString, TagValue, TagOID, TagVar, TagGetRequest, TagSetRequest}
      then Some (atom\<lparr> a_data := Packet data, a_len := len \<rparr>)
      else Some (atom\<lparr> a_len := len \<rparr>))"

text \<open>The tag and the length in its three forms; reading past the buffer has no meaning.\<close>

definition read_header :: "u8 list \<Rightarrow> (u8 \<times> u16 \<times> u8 list) option" where
  "read_header data =
     (case data of
        tag # l # data \<Rightarrow>
          (if l = 0x82 then (case data of h # l # data \<Rightarrow> Some (tag, PACK_U16 h l, data) | _ \<Rightarrow> None)
           else if l = 0x81 then (case data of l # data \<Rightarrow> Some (tag, ucast l, data) | _ \<Rightarrow> None)
           else Some (tag, ucast l, data))
      | _ \<Rightarrow> None)"

text \<open>
  \<^verbatim>\<open>extract_fix_atoms\<close>: the loop has read \<open>used\<close> bytes and goes on at \<open>data\<close>. The result is the
  return code, the pointer and size of the caller, and the atoms. A null pointer is not read as long
  as the size is 0.
\<close>

fun extract_loop :: "u16 \<Rightarrow> nat \<Rightarrow> u8 list \<Rightarrow> wu_snmp_atom list \<Rightarrow> (int \<times> nat \<times> u8 list \<times> wu_snmp_atom list) option" where
  "extract_loop sz used data [] = Some (0, used, data, [])"
| "extract_loop sz used data (a # as) =
     (if used \<ge> unat sz then Some (0, used, data, a # as)
      else do {
        (tag, len, data') \<leftarrow> read_header data;
        if tag \<noteq> a_tag a then Some (-1, used, data, a # as)
        else do {
          a \<leftarrow> atom_set_data data' len a;
          let used = used + (length data - length data') + unat len;
          (rc, used, data, as) \<leftarrow> extract_loop sz used (drop (unat len) data') as;
          Some (rc, used, data, a # as)
        }
      })"

type_synonym cursor = "data_ptr \<times> u16"

definition extract_fix_atoms :: "cursor \<Rightarrow> wu_snmp_atom list \<Rightarrow> (int \<times> cursor \<times> wu_snmp_atom list) option" where
  "extract_fix_atoms = (\<lambda>(p, sz) atoms.
     if sz = 0 then Some (0, (p, sz), atoms)
     else case p of
       Packet data \<Rightarrow> do {
         (rc, used, data', atoms) \<leftarrow> extract_loop sz 0 data atoms;
         Some (if rc = 0 then (0, (Packet data', sz - word_of_nat used), atoms) else (-1, (p, sz), atoms))
       }
     | _ \<Rightarrow> None)"

definition pop_atom :: "cursor \<Rightarrow> wu_snmp_atom \<Rightarrow> (int \<times> cursor \<times> wu_snmp_atom) option" where
  "pop_atom = (\<lambda>(p, sz) atom.
     if sz < 2 then Some (-1, (p, sz), atom)
     else case p of
       Packet data \<Rightarrow> do {
         (tag, len, data') \<leftarrow> read_header data;
         let atom = atom\<lparr> a_tag := tag, a_len := len \<rparr>;
         if unat sz < 2 + unat len then Some (-1, (p, sz), atom)
         else do {
           atom \<leftarrow> atom_set_data data' len atom;
           Some (0, (Packet (drop (unat len) data'), sz - word_of_nat (length data - length data' + unat len)), atom)
         }
       }
     | _ \<Rightarrow> None)"

section \<open>Object identifiers\<close>

definition WU_OID_MAX_SIZE :: nat where "WU_OID_MAX_SIZE = 20"

definition put_subid :: "u32 \<Rightarrow> nat \<Rightarrow> u32 list \<Rightarrow> u32 list option" where
  "put_subid v k subids = (if k < length subids then Some (subids[k := v]) else None)"

text \<open>
  \<^verbatim>\<open>oid_encoded2subid\<close>: the array of the caller has \<open>length subids\<close> elements, \<open>k\<close> are written. The
  result is 0 for a number of more than 32 bits.
\<close>

fun subid_loop :: "nat \<Rightarrow> u8 list \<Rightarrow> 64 word \<Rightarrow> bool \<Rightarrow> nat \<Rightarrow> u32 list \<Rightarrow> (bool \<times> u32 list) option" where
  "subid_loop n [] subid is_first k subids = Some (True, subids)"
| "subid_loop n (byte # bytes) subid is_first k subids =
     (let subid = push_bit 7 subid OR ucast (byte AND 0x7F)
      in if byte AND 0x80 \<noteq> 0 then subid_loop n bytes subid is_first k subids
         else do {
           let (subid0, subid) = (if is_first then
               (if subid \<ge> 80 then (2, subid - 80) else if subid \<ge> 40 then (1, subid - 40) else (0, subid)) else (0, subid));
           (k, subids) \<leftarrow> (if is_first then do { subids \<leftarrow> put_subid subid0 k subids; Some (k + 1, subids) }
                          else Some (k, subids));
           if k \<ge> n \<or> subid > 0xFFFFFFFF then Some (False, subids)
           else do {
             subids \<leftarrow> put_subid (ucast subid) k subids;
             subid_loop n bytes 0 False (k + 1) subids
           }
         })"

definition oid_encoded2subid :: "u8 list \<Rightarrow> u32 list \<Rightarrow> (nat \<times> u32 list) option" where
  "oid_encoded2subid oid_bytes subids =
     do {
       let n = 1 + length (filter (\<lambda>b. b AND 0x80 = 0) oid_bytes);
       (ok, subids) \<leftarrow> subid_loop n oid_bytes 0 True 0 subids;
       Some (if ok then n else 0, subids)
     }"

text \<open>A variable binding: name, value, the decoded name and the buffer for the value of a get.\<close>

record wu_snmp_var_bind =
  vb_error :: u8
  vb_name :: wu_snmp_atom
  vb_value :: wu_snmp_atom
  vb_oid :: "u32 list"
  vb_oid_len :: nat
  vb_buf :: "u8 list"

text \<open>The bytes an atom stands for; \<open>buf\<close> is the buffer of the variable binding in work.\<close>

definition atom_bytes :: "u8 list \<Rightarrow> wu_snmp_atom \<Rightarrow> u8 list option" where
  "atom_bytes buf a =
     (if a_len a = 0 then Some []
      else case a_data a of
        Null \<Rightarrow> None
      | Packet bs \<Rightarrow> mem_read bs 0 (unat (a_len a))
      | VbBuf \<Rightarrow> mem_read buf 0 (unat (a_len a)))"

definition decode_oid :: "wu_snmp_var_bind \<Rightarrow> (int \<times> wu_snmp_var_bind) option" where
  "decode_oid vb =
     do {
       bytes \<leftarrow> atom_bytes (vb_buf vb) (vb_name vb);
       (n, subids) \<leftarrow> oid_encoded2subid bytes (vb_oid vb);
       let vb = vb\<lparr> vb_oid := subids, vb_oid_len := n \<rparr>;
       if n = 0 then Some (-1, vb)
       else if length subids < n then None
       else Some (0, if subids ! (n - 1) = 0 then vb\<lparr> vb_oid_len := n - 1 \<rparr> else vb)
     }"

definition pop_var_bind :: "cursor \<Rightarrow> wu_snmp_var_bind \<Rightarrow> (int \<times> cursor \<times> wu_snmp_var_bind) option" where
  "pop_var_bind c vb =
     do {
       (rc, c, var) \<leftarrow> pop_atom c (atom_tagged 0);
       if rc < 0 then Some (-1, c, vb)
       else do {
         (rc, d, name) \<leftarrow> pop_atom (a_data var, a_len var) (vb_name vb);
         let vb = vb\<lparr> vb_name := name \<rparr>;
         if rc < 0 then Some (-1, c, vb)
         else do {
           (rc, d, value) \<leftarrow> pop_atom d (vb_value vb);
           let vb = vb\<lparr> vb_value := value \<rparr>;
           if rc < 0 then Some (-1, c, vb)
           else do {
             (rc, vb) \<leftarrow> decode_oid vb;
             Some (if rc < 0 then -1 else 0, c, vb)
           }
         }
       }
     }"

section \<open>Composite atoms\<close>

text \<open>
  A response is built in four buffers of 2048 bytes that hang on one another: tag, a place for the
  length, then the content of \<open>c_len\<close> bytes. The content moves up when the length takes more than one
  byte; the code does that with \<^verbatim>\<open>memcpy\<close> on overlapping ranges, modelled as the move it is meant to be.
\<close>

datatype catom_id = CHeader | CMethod | CVbList | CVb

record wu_snmp_com_atom =
  c_len :: u16
  c_parent :: "catom_id option"
  c_son :: "catom_id option"
  c_buf :: "u8 list"

type_synonym catoms = "catom_id \<Rightarrow> wu_snmp_com_atom"

definition CATOM_BUF_SIZE :: nat where "CATOM_BUF_SIZE = 2048"

definition com_atom_init :: "catom_id \<Rightarrow> u8 \<Rightarrow> catoms \<Rightarrow> catoms option" where
  "com_atom_init i tag cs =
     do {
       buf \<leftarrow> mem_write (c_buf (cs i)) 0 [tag];
       Some (cs(i := \<lparr> c_len = 0, c_parent = None, c_son = None, c_buf = buf \<rparr>))
     }"

definition com_atom_fix_data :: "wu_snmp_com_atom \<Rightarrow> wu_snmp_com_atom option" where
  "com_atom_fix_data a =
     (if c_len a > 0xFF then do {
        bs \<leftarrow> mem_read (c_buf a) 2 (unat (c_len a));
        buf \<leftarrow> mem_write (c_buf a) 4 bs;
        buf \<leftarrow> mem_write buf 1 [0x82, ucast (drop_bit 8 (c_len a)), ucast (c_len a AND 0xFF)];
        Some (a\<lparr> c_buf := buf, c_len := c_len a + 2 \<rparr>)
      }
      else if c_len a \<ge> 0x80 then do {
        bs \<leftarrow> mem_read (c_buf a) 2 (unat (c_len a));
        buf \<leftarrow> mem_write (c_buf a) 3 bs;
        buf \<leftarrow> mem_write buf 1 [0x81, ucast (c_len a)];
        Some (a\<lparr> c_buf := buf, c_len := c_len a + 1 \<rparr>)
      }
      else do {
        buf \<leftarrow> mem_write (c_buf a) 1 [ucast (c_len a)];
        Some (a\<lparr> c_buf := buf \<rparr>)
      })"

definition com_atom_merge :: "catom_id \<Rightarrow> catom_id \<Rightarrow> catoms \<Rightarrow> catoms option" where
  "com_atom_merge parent son cs =
     do {
       s \<leftarrow> com_atom_fix_data (cs son);
       let cs = cs(son := s);
       bs \<leftarrow> mem_read (c_buf s) 0 (2 + unat (c_len s));
       buf \<leftarrow> mem_write (c_buf (cs parent)) (2 + unat (c_len (cs parent))) bs;
       Some (cs(parent := (cs parent)\<lparr> c_buf := buf, c_len := c_len (cs parent) + (2 + c_len s) \<rparr>))
     }"

definition com_atom_end :: "catom_id \<Rightarrow> catoms \<Rightarrow> catoms option" where
  "com_atom_end i cs =
     do {
       cs \<leftarrow> (case c_son (cs i) of
                None \<Rightarrow> Some cs
              | Some son \<Rightarrow> do { cs \<leftarrow> com_atom_merge i son cs; Some (cs(i := (cs i)\<lparr> c_son := None \<rparr>)) });
       case c_parent (cs i) of
         None \<Rightarrow> do { a \<leftarrow> com_atom_fix_data (cs i); Some (cs(i := a)) }
       | Some parent \<Rightarrow> do {
           cs \<leftarrow> com_atom_merge parent i cs;
           let cs = cs(parent := (cs parent)\<lparr> c_son := None \<rparr>);
           Some (cs(i := (cs i)\<lparr> c_parent := None \<rparr>))
         }
     }"

definition com_atom_put :: "u8 \<Rightarrow> u16 \<Rightarrow> u8 list \<Rightarrow> wu_snmp_com_atom \<Rightarrow> wu_snmp_com_atom option" where
  "com_atom_put tag len data a =
     do {
       buf \<leftarrow> mem_write (c_buf a) (2 + unat (c_len a)) [tag];
       (buf, n) \<leftarrow>
         (if len > 0xFF then do {
            buf \<leftarrow> mem_write buf (2 + unat (c_len a) + 1) [0x82, ucast (drop_bit 8 len), ucast (len AND 0xFF)];
            Some (buf, c_len a + 4)
          }
          else if len \<ge> 0x80 then do {
            buf \<leftarrow> mem_write buf (2 + unat (c_len a) + 1) [0x81, ucast len];
            Some (buf, c_len a + 3)
          }
          else do {
            buf \<leftarrow> mem_write buf (2 + unat (c_len a) + 1) [ucast len];
            Some (buf, c_len a + 2)
          });
       if len > 0 then do {
         buf \<leftarrow> mem_write buf (2 + unat n) data;
         Some (a\<lparr> c_buf := buf, c_len := n + len \<rparr>)
       }
       else Some (a\<lparr> c_buf := buf, c_len := n \<rparr>)
     }"

definition com_atom_add_atom :: "u8 list \<Rightarrow> catom_id \<Rightarrow> wu_snmp_atom \<Rightarrow> catoms \<Rightarrow> catoms option" where
  "com_atom_add_atom buf i atom cs =
     do {
       data \<leftarrow> atom_bytes buf atom;
       a \<leftarrow> com_atom_put (a_tag atom) (a_len atom) data (cs i);
       Some (cs(i := a))
     }"

definition com_atom_add_atom_data :: "catom_id \<Rightarrow> u8 \<Rightarrow> u8 list \<Rightarrow> catoms \<Rightarrow> catoms option" where
  "com_atom_add_atom_data i tag data cs =
     com_atom_add_atom [] i \<lparr> a_tag = tag, a_len = word_of_nat (length data), a_data = Packet data \<rparr> cs"

definition com_atom_add_com_atom :: "catom_id \<Rightarrow> catom_id \<Rightarrow> u8 \<Rightarrow> catoms \<Rightarrow> catoms option" where
  "com_atom_add_com_atom i son tag cs =
     do {
       cs \<leftarrow> com_atom_init son tag cs;
       let cs = cs(i := (cs i)\<lparr> c_son := Some son \<rparr>);
       Some (cs(son := (cs son)\<lparr> c_parent := Some i \<rparr>))
     }"

section \<open>The encoding a response should have\<close>

definition tlv_len :: "u16 \<Rightarrow> u8 list" where
  "tlv_len n =
     (if n > 0xFF then [0x82, ucast (drop_bit 8 n), ucast n]
      else if n \<ge> 0x80 then [0x81, ucast n] else [ucast n])"

definition tlv :: "u8 \<Rightarrow> u8 list \<Rightarrow> u8 list" where
  "tlv tag content = tag # tlv_len (word_of_nat (length content)) @ content"

lemma byte_and: "(ucast (n AND 0xFF) :: u8) = ucast (n :: u16)"
proof -
  have "n AND 0xFF = take_bit 8 n" by (simp add: take_bit_eq_mask mask_eq_decr_exp)
  then show ?thesis by (simp only:) (intro bit_word_eqI, auto simp: bit_simps)
qed

text \<open>A composite atom that holds a content of which nothing is cut.\<close>

definition holds :: "u8 \<Rightarrow> u8 list \<Rightarrow> wu_snmp_com_atom \<Rightarrow> bool" where
  "holds tag content a \<longleftrightarrow>
     (\<exists>x post. c_buf a = tag # x # content @ post) \<and> length (c_buf a) = CATOM_BUF_SIZE
     \<and> c_len a = word_of_nat (length content)"

lemma holdsE:
  assumes "holds tag content a"
  obtains x post where "c_buf a = tag # x # content @ post" "length content + length post = 2046"
    "c_len a = word_of_nat (length content)" "unat (c_len a) = length content"
proof -
  from assms obtain x post where *: "c_buf a = tag # x # content @ post" "length content + length post = 2046"
      "c_len a = word_of_nat (length content)"
    by (auto simp: holds_def CATOM_BUF_SIZE_def)
  moreover have "unat (c_len a) = length content" using * by (simp add: unat_of_nat_less)
  ultimately show thesis by (rule that)
qed

lemma mem_read_at: "length pre = n \<Longrightarrow> length bs = k \<Longrightarrow> mem_read (pre @ bs @ post) n k = Some bs"
  by (simp add: mem_read_def)

lemma mem_write_at:
  "length pre = n \<Longrightarrow> length bs \<le> length rest \<Longrightarrow>
   mem_write (pre @ rest) n bs = Some (pre @ bs @ drop (length bs) rest)"
  by (simp add: mem_write_def)

lemma fix_data_holds:
  assumes "holds tag content a" "length (tlv tag content) \<le> CATOM_BUF_SIZE"
  shows "\<exists>buf n. com_atom_fix_data a = Some (a\<lparr> c_buf := buf, c_len := n \<rparr>) \<and> length buf = CATOM_BUF_SIZE
    \<and> 2 + unat n = length (tlv tag content) \<and> take (2 + unat n) buf = tlv tag content"
  using assms(1)
proof (rule holdsE)
  fix x post
  assume buf: "c_buf a = tag # x # content @ post" and len: "length content + length post = 2046"
    and cl: "c_len a = word_of_nat (length content)" and n: "unat (c_len a) = length content"
  have rd: "mem_read (c_buf a) 2 (unat (c_len a)) = Some content"
    using mem_read_at [of "[tag, x]" 2 content "length content" post] by (simp add: buf n)
  have big: "c_len a > 0xFF \<longleftrightarrow> length content > 255" "c_len a \<ge> 0x80 \<longleftrightarrow> length content \<ge> 128"
    by (simp_all add: word_less_nat_alt word_le_nat_alt n)
  consider (two) "c_len a > 0xFF" | (one) "\<not> c_len a > 0xFF" "c_len a \<ge> 0x80" | (none) "\<not> c_len a > 0xFF" "\<not> c_len a \<ge> 0x80"
    by blast
  then show ?thesis
  proof cases
    case two
    with assms(2) have post: "length post \<ge> 2" using len
      by (simp add: tlv_def tlv_len_def cl CATOM_BUF_SIZE_def)
    let ?h = "[0x82, ucast (drop_bit 8 (c_len a)), ucast (c_len a)] :: u8 list"
    let ?pre = "take 4 (c_buf a)" and ?rest = "drop (4 + length content) (c_buf a)"
    have pre: "length ?pre = 4" "take 1 ?pre = [tag]" using len post by (simp_all add: buf)
    have w1: "mem_write (c_buf a) 4 content = Some (?pre @ content @ ?rest)"
      using post len by (simp add: mem_write_def buf)
    have w2: "mem_write (?pre @ content @ ?rest) 1 ?h = Some ([tag] @ ?h @ content @ ?rest)"
      using pre by (simp add: mem_write_def)
    have l: "unat (c_len a + 2) = length content + 2" using len by (simp add: unat_word_ariths n)
    have f: "com_atom_fix_data a = Some (a\<lparr> c_buf := [tag] @ ?h @ content @ ?rest, c_len := c_len a + 2 \<rparr>)"
      using two rd w1 w2 by (simp add: com_atom_fix_data_def byte_and)
    show ?thesis
    proof (intro exI conjI)
      show "com_atom_fix_data a = Some (a\<lparr> c_buf := [tag] @ ?h @ content @ ?rest, c_len := c_len a + 2 \<rparr>)" by (rule f)
    qed (use two len post in \<open>simp_all add: tlv_def tlv_len_def l n cl [symmetric] CATOM_BUF_SIZE_def buf\<close>)
  next
    case one
    with assms(2) have post: "length post \<ge> 1" using len
      by (simp add: tlv_def tlv_len_def cl CATOM_BUF_SIZE_def)
    let ?h = "[0x81, ucast (c_len a)] :: u8 list"
    let ?pre = "take 3 (c_buf a)" and ?rest = "drop (3 + length content) (c_buf a)"
    have pre: "length ?pre = 3" "take 1 ?pre = [tag]" using len post by (simp_all add: buf)
    have w1: "mem_write (c_buf a) 3 content = Some (?pre @ content @ ?rest)"
      using post len by (simp add: mem_write_def buf)
    have w2: "mem_write (?pre @ content @ ?rest) 1 ?h = Some ([tag] @ ?h @ content @ ?rest)"
      using pre by (simp add: mem_write_def)
    have l: "unat (c_len a + 1) = length content + 1" using len by (simp add: unat_word_ariths n)
    have f: "com_atom_fix_data a = Some (a\<lparr> c_buf := [tag] @ ?h @ content @ ?rest, c_len := c_len a + 1 \<rparr>)"
      using one rd w1 w2 by (simp add: com_atom_fix_data_def)
    show ?thesis
    proof (intro exI conjI)
      show "com_atom_fix_data a = Some (a\<lparr> c_buf := [tag] @ ?h @ content @ ?rest, c_len := c_len a + 1 \<rparr>)" by (rule f)
    qed (use one len post in \<open>simp_all add: tlv_def tlv_len_def l n cl [symmetric] CATOM_BUF_SIZE_def buf\<close>)
  next
    case none
    have "mem_write (c_buf a) 1 [ucast (c_len a)] = Some (tag # ucast (c_len a) # content @ post)"
      by (simp add: mem_write_def buf)
    with none have f: "com_atom_fix_data a = Some (a\<lparr> c_buf := tag # ucast (c_len a) # content @ post, c_len := c_len a \<rparr>)"
      by (simp add: com_atom_fix_data_def)
    show ?thesis
    proof (intro exI conjI)
      show "com_atom_fix_data a = Some (a\<lparr> c_buf := tag # ucast (c_len a) # content @ post, c_len := c_len a \<rparr>)" by (rule f)
    qed (use none len in \<open>simp_all add: tlv_def tlv_len_def n cl [symmetric] CATOM_BUF_SIZE_def\<close>)
  qed
qed

lemma mem_write_append:
  "mem_write b p (xs @ ys) = mem_write b p xs \<bind> (\<lambda>b. mem_write b (p + length xs) ys)"
  by (auto simp: mem_write_def add.commute add.left_commute)

lemma tlv_length:
  "length content < 65536 \<Longrightarrow> length (tlv tag content) =
     (if length content > 255 then 4 else if length content \<ge> 128 then 3 else 2) + length content"
  by (simp add: tlv_def tlv_len_def word_less_nat_alt word_le_nat_alt unat_of_nat_less)

lemma put_holds:
  assumes "holds tag content a" "length bs < 65536" "length content + length (tlv t bs) \<le> 2046"
  shows "\<exists>buf n. com_atom_put t (word_of_nat (length bs)) bs a = Some (a\<lparr> c_buf := buf, c_len := n \<rparr>)
    \<and> holds tag (content @ tlv t bs) (a\<lparr> c_buf := buf, c_len := n \<rparr>)"
  using assms(1)
proof (rule holdsE)
  fix x post
  let ?len = "word_of_nat (length bs) :: u16"
  let ?h = "t # tlv_len ?len"
  assume buf: "c_buf a = tag # x # content @ post" and len: "length content + length post = 2046"
    and cl: "c_len a = word_of_nat (length content)" and n: "unat (c_len a) = length content"
  define buf' where "buf' = (tag # x # content) @ tlv t bs @ drop (length (tlv t bs)) post"
  have l: "unat ?len = length bs" using assms(2) by (simp add: unat_of_nat_less)
  have w: "mem_write (c_buf a) (2 + unat (c_len a)) (?h @ bs) = Some buf'"
    using mem_write_at [of "tag # x # content" "2 + length content" "tlv t bs" post] assms(3) len
    by (simp add: buf n buf'_def tlv_def)
  have "mem_write (c_buf a) (2 + unat (c_len a)) ([t] @ tlv_len ?len @ bs) = Some buf'" using w by simp
  then obtain b1 b2 where b1: "mem_write (c_buf a) (2 + unat (c_len a)) [t] = Some b1"
    and b2: "mem_write b1 (2 + unat (c_len a) + 1) (tlv_len ?len) = Some b2"
    and b3: "mem_write b2 (2 + unat (c_len a) + 1 + length (tlv_len ?len)) bs = Some buf'"
    unfolding mem_write_append by (auto simp: bind_eq_Some_conv)
  define n' where "n' = c_len a + word_of_nat (1 + length (tlv_len ?len))"
  have "length (tlv_len ?len) \<le> 3" by (simp add: tlv_len_def)
  then have "2 + unat n' = 2 + unat (c_len a) + 1 + length (tlv_len ?len)"
    using assms(3) by (simp add: n'_def unat_word_ariths n unat_of_nat_less tlv_def)
  with b3 have b3: "mem_write b2 (2 + unat n') bs = Some buf'" by simp
  have hdr: "(if ?len > 0xFF then do {
            buf \<leftarrow> mem_write b1 (2 + unat (c_len a) + 1) [0x82, ucast (drop_bit 8 ?len), ucast (?len AND 0xFF)];
            Some (buf, c_len a + 4)
          }
          else if ?len \<ge> 0x80 then do {
            buf \<leftarrow> mem_write b1 (2 + unat (c_len a) + 1) [0x81, ucast ?len];
            Some (buf, c_len a + 3)
          }
          else do {
            buf \<leftarrow> mem_write b1 (2 + unat (c_len a) + 1) [ucast ?len];
            Some (buf, c_len a + 2)
          }) = Some (b2, n')"
    using b2 unfolding tlv_len_def n'_def byte_and by (simp split: if_splits)
  have "b2 = buf'" if "bs = []" using b3 that by (simp add: mem_write_def split: if_splits)
  moreover have "?len > 0 \<longleftrightarrow> bs \<noteq> []" using l by (cases "bs = []") (auto simp: word_less_nat_alt)
  ultimately have "com_atom_put t ?len bs a = Some (a\<lparr> c_buf := buf', c_len := n' + ?len \<rparr>)"
    unfolding com_atom_put_def b1 bind.bind_lunit hdr using b3 by (simp add: unsigned_eq_0_iff)
  moreover have "holds tag (content @ tlv t bs) (a\<lparr> c_buf := buf', c_len := n' + ?len \<rparr>)"
    using len assms(3) by (auto simp: holds_def buf'_def CATOM_BUF_SIZE_def cl tlv_def n'_def)
  ultimately show ?thesis by blast
qed

text \<open>
  The four buffers as the contents they hold. A buffer not in use is \<open>None\<close>. The operations on the
  buffers do what the operations on the contents do, as long as nothing is cut.
\<close>

type_synonym contents = "catom_id \<Rightarrow> (u8 \<times> u8 list \<times> catom_id option \<times> catom_id option) option"

definition node_rep :: "(u8 \<times> u8 list \<times> catom_id option \<times> catom_id option) option \<Rightarrow> wu_snmp_com_atom \<Rightarrow> bool" where
  "node_rep n a \<longleftrightarrow> length (c_buf a) = CATOM_BUF_SIZE
     \<and> (\<forall>tag content par son. n = Some (tag, content, par, son) \<longrightarrow>
          holds tag content a \<and> c_parent a = par \<and> c_son a = son)"

definition rep :: "contents \<Rightarrow> catoms \<Rightarrow> bool" where
  "rep st cs \<longleftrightarrow> (\<forall>i. node_rep (st i) (cs i))"

lemma rep_node:
  "rep st cs \<Longrightarrow> st i = Some (tag, content, par, son) \<Longrightarrow>
   holds tag content (cs i) \<and> c_parent (cs i) = par \<and> c_son (cs i) = son"
  by (auto simp: rep_def node_rep_def)

lemma rep_length: "rep st cs \<Longrightarrow> length (c_buf (cs i)) = CATOM_BUF_SIZE"
  by (simp add: rep_def node_rep_def)

lemma rep_at: "rep st cs \<Longrightarrow> node_rep n a \<Longrightarrow> rep (st(i := n)) (cs(i := a))"
  by (simp add: rep_def)

lemma rep_upd:
  "rep st cs \<Longrightarrow> holds tag content a \<Longrightarrow> c_parent a = par \<Longrightarrow> c_son a = son \<Longrightarrow>
   rep (st(i \<mapsto> (tag, content, par, son))) (cs(i := a))"
  by (rule rep_at) (simp_all add: node_rep_def holds_def)

lemma rep_drop: "rep st cs \<Longrightarrow> length (c_buf a) = CATOM_BUF_SIZE \<Longrightarrow> rep (st(i := None)) (cs(i := a))"
  by (rule rep_at) (simp_all add: node_rep_def)

lemma init_rep:
  assumes "rep st cs"
  shows "\<exists>cs'. com_atom_init i tag cs = Some cs' \<and> rep (st(i \<mapsto> (tag, [], None, None))) cs'"
proof -
  have l: "length (c_buf (cs i)) = 2048" using rep_length [OF assms] by (simp add: CATOM_BUF_SIZE_def)
  then obtain x y post where buf: "c_buf (cs i) = x # y # post" "length post = 2046"
    by (cases "c_buf (cs i)"; cases "tl (c_buf (cs i))") auto
  have "mem_write (c_buf (cs i)) 0 [tag] = Some (tag # y # post)" by (simp add: mem_write_def buf)
  then show ?thesis
    using buf by (auto simp: com_atom_init_def holds_def CATOM_BUF_SIZE_def intro!: rep_upd [OF assms])
qed

lemma put_rep:
  assumes "rep st cs" "st i = Some (tag, content, par, son)" "atom_bytes buf atom = Some bs"
    "a_len atom = word_of_nat (length bs)" "length bs < 65536" "length content + length (tlv (a_tag atom) bs) \<le> 2046"
  shows "\<exists>cs'. com_atom_add_atom buf i atom cs = Some cs'
    \<and> rep (st(i \<mapsto> (tag, content @ tlv (a_tag atom) bs, par, son))) cs'"
proof -
  from rep_node [OF assms(1,2)] have h: "holds tag content (cs i)" "c_parent (cs i) = par" "c_son (cs i) = son" by auto
  from put_holds [OF h(1) assms(5,6)] h(2,3) show ?thesis
    by (auto simp: com_atom_add_atom_def assms(3,4) intro!: rep_upd [OF assms(1)])
qed

lemma len_word_0: "length bs < 65536 \<Longrightarrow> (word_of_nat (length bs) :: u16) = 0 \<longleftrightarrow> bs = []"
proof -
  assume "length bs < 65536"
  then have "unat (word_of_nat (length bs) :: u16) = length bs" by (simp add: unat_of_nat_less)
  then show ?thesis by (metis length_0_conv unat_0 word_of_nat_eq_0_iff unat_eq_zero)
qed

lemma put_data_rep:
  assumes "rep st cs" "st i = Some (tag, content, par, son)" "length bs < 65536"
    "length content + length (tlv t bs) \<le> 2046"
  shows "\<exists>cs'. com_atom_add_atom_data i t bs cs = Some cs' \<and> rep (st(i \<mapsto> (tag, content @ tlv t bs, par, son))) cs'"
proof -
  have "atom_bytes [] \<lparr> a_tag = t, a_len = word_of_nat (length bs), a_data = Packet bs \<rparr> = Some bs"
    using assms(3) len_word_0 [OF assms(3)]
    by (simp add: atom_bytes_def mem_read_def unat_of_nat_less)
  from put_rep [OF assms(1,2) this] assms(3,4) show ?thesis by (simp add: com_atom_add_atom_data_def)
qed

lemma son_rep:
  assumes "rep st cs" "st i = Some (tag, content, par, son)" "i \<noteq> j"
  shows "\<exists>cs'. com_atom_add_com_atom i j t cs = Some cs'
    \<and> rep (st(i \<mapsto> (tag, content, par, Some j), j \<mapsto> (t, [], Some i, None))) cs'"
proof -
  from init_rep [OF assms(1)] obtain cs1 where cs1: "com_atom_init j t cs = Some cs1"
    "rep (st(j \<mapsto> (t, [], None, None))) cs1" by blast
  have hi: "holds tag content (cs1 i)" "c_parent (cs1 i) = par"
    using rep_node [OF cs1(2), of i] assms(2,3) by auto
  have hj: "holds t [] (cs1 j)" "c_son (cs1 j) = None" using rep_node [OF cs1(2), of j] by auto
  have "rep (st(j \<mapsto> (t, [], None, None), i \<mapsto> (tag, content, par, Some j), j \<mapsto> (t, [], Some i, None)))
      (cs1(i := (cs1 i)\<lparr> c_son := Some j \<rparr>, j := (cs1 j)\<lparr> c_parent := Some i \<rparr>))"
    by (intro rep_upd cs1(2)) (use hi hj in \<open>auto simp: holds_def\<close>)
  moreover have "st(j \<mapsto> (t, [], None, None), i \<mapsto> (tag, content, par, Some j), j \<mapsto> (t, [], Some i, None))
      = st(i \<mapsto> (tag, content, par, Some j), j \<mapsto> (t, [], Some i, None))"
    using assms(3) by (auto simp: fun_eq_iff)
  ultimately show ?thesis using assms(3) by (simp add: com_atom_add_com_atom_def cs1(1) Let_def)
qed

lemma merge_rep:
  assumes "rep st cs" "st p = Some (tp, cp, par, son)" "st i = Some (ti, ci, par', son')" "p \<noteq> i"
    "length cp + length (tlv ti ci) \<le> 2046"
  shows "\<exists>cs'. com_atom_merge p i cs = Some cs' \<and> rep (st(i := None, p \<mapsto> (tp, cp @ tlv ti ci, par, son))) cs'
    \<and> c_parent (cs' i) = par' \<and> c_son (cs' i) = son'"
proof -
  from rep_node [OF assms(1,2)] have hp: "holds tp cp (cs p)" "c_parent (cs p) = par" "c_son (cs p) = son" by auto
  from rep_node [OF assms(1,3)] have hi: "holds ti ci (cs i)" "c_parent (cs i) = par'" "c_son (cs i) = son'" by auto
  have "length (tlv ti ci) \<le> CATOM_BUF_SIZE" using assms(5) by (simp add: CATOM_BUF_SIZE_def)
  from fix_data_holds [OF hi(1) this] obtain buf n where
    fx: "com_atom_fix_data (cs i) = Some ((cs i)\<lparr> c_buf := buf, c_len := n \<rparr>)" "length buf = CATOM_BUF_SIZE"
      "2 + unat n = length (tlv ti ci)" "take (2 + unat n) buf = tlv ti ci" by blast
  let ?s = "(cs i)\<lparr> c_buf := buf, c_len := n \<rparr>"
  have rd: "mem_read (c_buf ?s) 0 (2 + unat (c_len ?s)) = Some (tlv ti ci)"
    using fx assms(5) by (simp add: mem_read_def CATOM_BUF_SIZE_def)
  from hp(1) show ?thesis
  proof (rule holdsE)
    fix x post
    assume buf: "c_buf (cs p) = tp # x # cp @ post" and len: "length cp + length post = 2046"
      and cl: "c_len (cs p) = word_of_nat (length cp)" and l: "unat (c_len (cs p)) = length cp"
    let ?buf' = "(tp # x # cp) @ tlv ti ci @ drop (length (tlv ti ci)) post"
    let ?p = "(cs p)\<lparr> c_buf := ?buf', c_len := c_len (cs p) + (2 + n) \<rparr>"
    have w: "mem_write (c_buf (cs p)) (2 + unat (c_len (cs p))) (tlv ti ci) = Some ?buf'"
      using mem_write_at [of "tp # x # cp" "2 + length cp" "tlv ti ci" post] assms(5) len
      by (simp add: buf l)
    have m: "com_atom_merge p i cs = Some (cs(i := ?s, p := ?p))"
      using fx(1) rd w assms(4) by (simp add: com_atom_merge_def Let_def fun_upd_twist del: append_Cons)
    have n2: "2 + n = word_of_nat (length (tlv ti ci))"
    proof -
      have "2 + n = word_of_nat (2 + unat n)" by simp
      then show ?thesis unfolding fx(3) .
    qed
    have hp': "holds tp (cp @ tlv ti ci) ?p"
      using len assms(5) by (simp add: holds_def CATOM_BUF_SIZE_def cl n2 del: append_Cons) (simp add: tlv_def)
    have "rep (st(i := None, p \<mapsto> (tp, cp @ tlv ti ci, par, son))) (cs(i := ?s, p := ?p))"
      by (rule rep_upd [OF rep_drop [OF assms(1)] hp']) (use fx(2) hp in simp_all)
    with m hi assms(4) show ?thesis by (intro exI [of _ "cs(i := ?s, p := ?p)"]) simp
  qed
qed

lemma end_rep:
  assumes "rep st cs" "st p = Some (tp, cp, par, Some i)" "st i = Some (ti, ci, Some p, None)" "p \<noteq> i"
    "length cp + length (tlv ti ci) \<le> 2046"
  shows "\<exists>cs'. com_atom_end i cs = Some cs' \<and> rep (st(i := None, p \<mapsto> (tp, cp @ tlv ti ci, par, None))) cs'"
proof -
  have i: "c_parent (cs i) = Some p" "c_son (cs i) = None" using rep_node [OF assms(1,3)] by auto
  from merge_rep [OF assms] obtain cs1 where cs1: "com_atom_merge p i cs = Some cs1"
    "rep (st(i := None, p \<mapsto> (tp, cp @ tlv ti ci, par, Some i))) cs1" by blast
  note p = rep_node [OF cs1(2), of p]
  let ?cs = "cs1(p := (cs1 p)\<lparr> c_son := None \<rparr>)"
  have "rep (st(i := None, p \<mapsto> (tp, cp @ tlv ti ci, par, Some i), p \<mapsto> (tp, cp @ tlv ti ci, par, None))) ?cs"
    by (rule rep_upd [OF cs1(2)]) (use p in \<open>auto simp: holds_def\<close>)
  then have r: "rep (st(i := None, p \<mapsto> (tp, cp @ tlv ti ci, par, None))) ?cs" by simp
  have "rep ((st(i := None, p \<mapsto> (tp, cp @ tlv ti ci, par, None)))(i := None)) (?cs(i := (?cs i)\<lparr> c_parent := None \<rparr>))"
    by (rule rep_drop [OF r]) (use rep_length [OF r, of i] in simp)
  moreover have "(st(i := None, p \<mapsto> (tp, cp @ tlv ti ci, par, None)))(i := None)
      = st(i := None, p \<mapsto> (tp, cp @ tlv ti ci, par, None))"
    using assms(4) by (auto simp: fun_eq_iff)
  ultimately show ?thesis by (simp add: com_atom_end_def i cs1(1) Let_def)
qed

lemma end_root_rep:
  assumes "rep st cs" "st i = Some (t, content, None, None)" "length (tlv t content) \<le> CATOM_BUF_SIZE"
  shows "\<exists>cs'. com_atom_end i cs = Some cs' \<and> (\<forall>j. length (c_buf (cs' j)) = CATOM_BUF_SIZE)
    \<and> 2 + unat (c_len (cs' i)) = length (tlv t content) \<and> take (2 + unat (c_len (cs' i))) (c_buf (cs' i)) = tlv t content"
proof -
  note i = rep_node [OF assms(1,2)]
  from fix_data_holds [OF _ assms(3), of "cs i"] i obtain buf n where
    "com_atom_fix_data (cs i) = Some ((cs i)\<lparr> c_buf := buf, c_len := n \<rparr>)" "length buf = CATOM_BUF_SIZE"
      "2 + unat n = length (tlv t content)" "take (2 + unat n) buf = tlv t content" by blast
  then show ?thesis using i rep_length [OF assms(1)] by (auto simp: com_atom_end_def)
qed

section \<open>The response\<close>

record wu_snmp_pdu =
  pdu_header :: wu_snmp_atom
  pdu_version :: wu_snmp_atom
  pdu_com :: wu_snmp_atom
  pdu_method :: wu_snmp_atom
  pdu_request_id :: wu_snmp_atom
  pdu_error_status :: wu_snmp_atom
  pdu_error_index :: wu_snmp_atom
  pdu_variable_bindings :: wu_snmp_atom

text \<open>
  One variable binding of the response. What the value points to is read now: all the values of a
  get point to the buffer of the variable binding last in work.
\<close>

definition add_var_bind :: "u8 list \<Rightarrow> catoms \<Rightarrow> wu_snmp_atom \<times> wu_snmp_atom \<Rightarrow> catoms option" where
  "add_var_bind buf cs = (\<lambda>(name, value).
     do {
       cs \<leftarrow> com_atom_add_com_atom CVbList CVb TagVar cs;
       cs \<leftarrow> com_atom_add_atom buf CVb name cs;
       cs \<leftarrow> com_atom_add_atom buf CVb value cs;
       com_atom_end CVb cs
     })"

text \<open>The end both handlers share, up to the copy to the client.\<close>

definition build_response ::
  "wu_snmp_pdu \<Rightarrow> u8 list \<Rightarrow> u8 list \<Rightarrow> u8 list \<Rightarrow> (wu_snmp_atom \<times> wu_snmp_atom) list \<Rightarrow> catoms \<Rightarrow> catoms option" where
  "build_response pdu buf error_status error_index vbs cs =
     do {
       cs \<leftarrow> com_atom_init CHeader TagVar cs;
       cs \<leftarrow> com_atom_add_atom buf CHeader (pdu_version pdu) cs;
       cs \<leftarrow> com_atom_add_atom buf CHeader (pdu_com pdu) cs;
       cs \<leftarrow> com_atom_add_com_atom CHeader CMethod TagGetResponse cs;
       cs \<leftarrow> com_atom_add_atom buf CMethod (pdu_request_id pdu) cs;
       cs \<leftarrow> com_atom_add_atom_data CMethod TagInt error_status cs;
       cs \<leftarrow> com_atom_add_atom_data CMethod TagInt error_index cs;
       cs \<leftarrow> com_atom_add_com_atom CMethod CVbList TagVar cs;
       cs \<leftarrow> foldM (add_var_bind buf) cs vbs;
       cs \<leftarrow> com_atom_end CVbList cs;
       cs \<leftarrow> com_atom_end CMethod cs;
       com_atom_end CHeader cs
     }"

definition response_bytes :: "catoms \<Rightarrow> u8 list \<Rightarrow> (u16 \<times> u8 list) option" where
  "response_bytes cs resp_data =
     do {
       let resp_size = c_len (cs CHeader) + 2;
       bs \<leftarrow> mem_read (c_buf (cs CHeader)) 0 (unat resp_size);
       resp_data \<leftarrow> mem_write resp_data 0 bs;
       Some (resp_size, resp_data)
     }"

text \<open>What it should be: a tag, a length and a content for each level.\<close>

definition var_bind_tlv :: "(u8 \<times> u8 list) \<times> (u8 \<times> u8 list) \<Rightarrow> u8 list" where
  "var_bind_tlv = (\<lambda>(name, value). tlv TagVar (tlv (fst name) (snd name) @ tlv (fst value) (snd value)))"

definition response_tlv ::
  "u8 \<times> u8 list \<Rightarrow> u8 \<times> u8 list \<Rightarrow> u8 \<times> u8 list \<Rightarrow> u8 list \<Rightarrow> u8 list \<Rightarrow> ((u8 \<times> u8 list) \<times> (u8 \<times> u8 list)) list \<Rightarrow> u8 list" where
  "response_tlv version com request_id error_status error_index vbs =
     tlv TagVar (tlv (fst version) (snd version) @ tlv (fst com) (snd com)
       @ tlv TagGetResponse (tlv (fst request_id) (snd request_id) @ tlv TagInt error_status
           @ tlv TagInt error_index @ tlv TagVar (concat (map var_bind_tlv vbs))))"

text \<open>An atom that stands for a tag and bytes.\<close>

definition atom_is :: "u8 list \<Rightarrow> wu_snmp_atom \<Rightarrow> u8 \<times> u8 list \<Rightarrow> bool" where
  "atom_is buf a tb \<longleftrightarrow> a_tag a = fst tb \<and> atom_bytes buf a = Some (snd tb) \<and> a_len a = word_of_nat (length (snd tb))
     \<and> length (snd tb) < 65536"

lemma put_atom_rep:
  assumes "rep st cs" "st i = Some (tag, content, par, son)" "atom_is buf atom tb"
    "length content + length (tlv (fst tb) (snd tb)) \<le> 2046"
  shows "\<exists>cs'. com_atom_add_atom buf i atom cs = Some cs'
    \<and> rep (st(i \<mapsto> (tag, content @ tlv (fst tb) (snd tb), par, son))) cs'"
  using put_rep [OF assms(1,2), of buf atom "snd tb"] assms(3,4) by (simp add: atom_is_def)

lemma tlv_bounds: "length content + 2 \<le> length (tlv tag content)" "length (tlv tag content) \<le> length content + 4"
  by (simp_all add: tlv_def tlv_len_def)

lemma add_var_bind_rep:
  assumes "rep st cs" "st CVbList = Some (TagVar, content, par, None)"
    "atom_is buf (fst nv) (fst tb)" "atom_is buf (snd nv) (snd tb)"
    "length content + length (var_bind_tlv tb) \<le> 2046"
  shows "\<exists>cs'. add_var_bind buf cs nv = Some cs'
    \<and> rep (st(CVb := None, CVbList \<mapsto> (TagVar, content @ var_bind_tlv tb, par, None))) cs'"
proof -
  obtain name val where nv: "nv = (name, val)" by (cases nv)
  let ?n = "tlv (fst (fst tb)) (snd (fst tb))" and ?v = "tlv (fst (snd tb)) (snd (snd tb))"
  have vb: "var_bind_tlv tb = tlv TagVar (?n @ ?v)" by (simp add: var_bind_tlv_def case_prod_beta)
  have fits: "length ?n + length ?v + 2 \<le> length (var_bind_tlv tb)"
    using tlv_bounds(1) [of "?n @ ?v" TagVar] by (simp add: vb)
  from son_rep [OF assms(1,2), of CVb TagVar] obtain cs1 where cs1: "com_atom_add_com_atom CVbList CVb TagVar cs = Some cs1"
    "rep (st(CVbList \<mapsto> (TagVar, content, par, Some CVb), CVb \<mapsto> (TagVar, [], Some CVbList, None))) cs1" by auto
  from put_atom_rep [OF cs1(2), of CVb _ _ _ _ buf name "fst tb"] assms(3,5) fits obtain cs2 where
    cs2: "com_atom_add_atom buf CVb name cs1 = Some cs2"
      "rep (st(CVbList \<mapsto> (TagVar, content, par, Some CVb), CVb \<mapsto> (TagVar, ?n, Some CVbList, None))) cs2"
    by (auto simp: nv)
  from put_atom_rep [OF cs2(2), of CVb _ _ _ _ buf val "snd tb"] assms(4,5) fits obtain cs3 where
    cs3: "com_atom_add_atom buf CVb val cs2 = Some cs3"
      "rep (st(CVbList \<mapsto> (TagVar, content, par, Some CVb), CVb \<mapsto> (TagVar, ?n @ ?v, Some CVbList, None))) cs3"
    by (auto simp: nv)
  from end_rep [OF cs3(2), of CVbList _ _ _ CVb TagVar "?n @ ?v"] assms(5) obtain cs4 where
    cs4: "com_atom_end CVb cs3 = Some cs4"
      "rep (st(CVbList \<mapsto> (TagVar, content, par, Some CVb), CVb := None,
         CVbList \<mapsto> (TagVar, content @ var_bind_tlv tb, par, None))) cs4"
    by (auto simp: vb)
  have "st(CVbList \<mapsto> (TagVar, content, par, Some CVb), CVb := None, CVbList \<mapsto> (TagVar, content @ var_bind_tlv tb, par, None))
      = st(CVb := None, CVbList \<mapsto> (TagVar, content @ var_bind_tlv tb, par, None))"
    by (auto simp: fun_eq_iff)
  with cs4(2) show ?thesis by (simp add: add_var_bind_def nv cs1(1) cs2(1) cs3(1) cs4(1))
qed

lemma add_var_binds_rep:
  assumes "rep st cs" "st CVbList = Some (TagVar, content, par, None)"
    "list_all2 (\<lambda>nv tb. atom_is buf (fst nv) (fst tb) \<and> atom_is buf (snd nv) (snd tb)) nvs tbs"
    "length content + length (concat (map var_bind_tlv tbs)) \<le> 2046"
  shows "\<exists>cs' st'. foldM (add_var_bind buf) cs nvs = Some cs' \<and> rep st' cs'
    \<and> st' CVbList = Some (TagVar, content @ concat (map var_bind_tlv tbs), par, None)
    \<and> st' CMethod = st CMethod \<and> st' CHeader = st CHeader"
  using assms(3,1,2,4)
proof (induction nvs tbs arbitrary: st cs content rule: list_all2_induct)
  case Nil
  then show ?case by auto
next
  case (Cons nv nvs tb tbs)
  from add_var_bind_rep [OF Cons.prems(1,2), of buf nv tb] Cons.hyps(1) Cons.prems(3) obtain cs1 where
    cs1: "add_var_bind buf cs nv = Some cs1"
      "rep (st(CVb := None, CVbList \<mapsto> (TagVar, content @ var_bind_tlv tb, par, None))) cs1" by auto
  from Cons.IH [OF cs1(2), of "content @ var_bind_tlv tb"] Cons.prems(3) cs1(1) show ?case by auto
qed

text \<open>The buffers the response is built in, whatever they held before, end as the nested encoding.\<close>

lemma build_response_rep:
  assumes "\<forall>i. length (c_buf (cs i)) = CATOM_BUF_SIZE"
    and atoms: "atom_is buf (pdu_version pdu) version" "atom_is buf (pdu_com pdu) com"
      "atom_is buf (pdu_request_id pdu) request_id"
      "list_all2 (\<lambda>nv tb. atom_is buf (fst nv) (fst tb) \<and> atom_is buf (snd nv) (snd tb)) vbs tbs"
    and fits: "length (response_tlv version com request_id es ei tbs) \<le> CATOM_BUF_SIZE"
  shows "\<exists>cs'. build_response pdu buf es ei vbs cs = Some cs' \<and> (\<forall>i. length (c_buf (cs' i)) = CATOM_BUF_SIZE)
    \<and> 2 + unat (c_len (cs' CHeader)) = length (response_tlv version com request_id es ei tbs)
    \<and> take (2 + unat (c_len (cs' CHeader))) (c_buf (cs' CHeader)) = response_tlv version com request_id es ei tbs"
proof -
  let ?ver = "tlv (fst version) (snd version)" and ?com = "tlv (fst com) (snd com)"
    and ?rid = "tlv (fst request_id) (snd request_id)" and ?es = "tlv TagInt es" and ?ei = "tlv TagInt ei"
    and ?vbs = "concat (map var_bind_tlv tbs)"
  let ?m = "?rid @ ?es @ ?ei @ tlv TagVar ?vbs"
  let ?h = "?ver @ ?com @ tlv TagGetResponse ?m"
  have resp: "response_tlv version com request_id es ei tbs = tlv TagVar ?h" by (simp add: response_tlv_def)
  note b = tlv_bounds(1) [of ?h TagVar] tlv_bounds(1) [of ?m TagGetResponse] tlv_bounds(1) [of ?vbs TagVar]
    tlv_bounds(1) [of es TagInt] tlv_bounds(1) [of ei TagInt]
  have l: "length ?h \<le> 2046" "length ?m \<le> 2046" "length ?vbs \<le> 2046" "length es \<le> 2046" "length ei \<le> 2046"
    using fits b unfolding resp CATOM_BUF_SIZE_def by simp_all
  have "rep (\<lambda>_. None) cs" using assms(1) by (simp add: rep_def node_rep_def)
  from init_rep [OF this, of CHeader TagVar] obtain c1 where
    c1: "com_atom_init CHeader TagVar cs = Some c1" "rep [CHeader \<mapsto> (TagVar, [], None, None)] c1" by auto
  from put_atom_rep [OF c1(2), of CHeader _ _ _ _ buf, OF _ atoms(1)] l(1) obtain c2 where
    c2: "com_atom_add_atom buf CHeader (pdu_version pdu) c1 = Some c2" "rep [CHeader \<mapsto> (TagVar, ?ver, None, None)] c2"
    by auto
  from put_atom_rep [OF c2(2), of CHeader _ _ _ _ buf, OF _ atoms(2)] l(1) obtain c3 where
    c3: "com_atom_add_atom buf CHeader (pdu_com pdu) c2 = Some c3"
      "rep [CHeader \<mapsto> (TagVar, ?ver @ ?com, None, None)] c3"
    by auto
  from son_rep [OF c3(2), of CHeader _ _ _ _ CMethod TagGetResponse] obtain c4 where
    c4: "com_atom_add_com_atom CHeader CMethod TagGetResponse c3 = Some c4"
      "rep [CHeader \<mapsto> (TagVar, ?ver @ ?com, None, Some CMethod), CMethod \<mapsto> (TagGetResponse, [], Some CHeader, None)] c4"
    by auto
  from put_atom_rep [OF c4(2), of CMethod _ _ _ _ buf, OF _ atoms(3)] l(2) obtain c5 where
    c5: "com_atom_add_atom buf CMethod (pdu_request_id pdu) c4 = Some c5"
      "rep [CHeader \<mapsto> (TagVar, ?ver @ ?com, None, Some CMethod), CMethod \<mapsto> (TagGetResponse, ?rid, Some CHeader, None)] c5"
    by auto
  from put_data_rep [OF c5(2), of CMethod _ _ _ _ es TagInt] l(2,4) obtain c6 where
    c6: "com_atom_add_atom_data CMethod TagInt es c5 = Some c6"
      "rep [CHeader \<mapsto> (TagVar, ?ver @ ?com, None, Some CMethod), CMethod \<mapsto> (TagGetResponse, ?rid @ ?es, Some CHeader, None)] c6"
    by auto
  from put_data_rep [OF c6(2), of CMethod _ _ _ _ ei TagInt] l(2,5) obtain c7 where
    c7: "com_atom_add_atom_data CMethod TagInt ei c6 = Some c7"
      "rep [CHeader \<mapsto> (TagVar, ?ver @ ?com, None, Some CMethod),
         CMethod \<mapsto> (TagGetResponse, ?rid @ ?es @ ?ei, Some CHeader, None)] c7"
    by auto
  from son_rep [OF c7(2), of CMethod _ _ _ _ CVbList TagVar] obtain c8 where
    c8: "com_atom_add_com_atom CMethod CVbList TagVar c7 = Some c8"
      "rep [CHeader \<mapsto> (TagVar, ?ver @ ?com, None, Some CMethod),
         CMethod \<mapsto> (TagGetResponse, ?rid @ ?es @ ?ei, Some CHeader, Some CVbList),
         CVbList \<mapsto> (TagVar, [], Some CMethod, None)] c8"
    by auto
  from add_var_binds_rep [OF c8(2) _ atoms(4)] l(3) obtain c9 st9 where
    c9: "foldM (add_var_bind buf) c8 vbs = Some c9" "rep st9 c9"
      "st9 CVbList = Some (TagVar, ?vbs, Some CMethod, None)"
      "st9 CMethod = Some (TagGetResponse, ?rid @ ?es @ ?ei, Some CHeader, Some CVbList)"
      "st9 CHeader = Some (TagVar, ?ver @ ?com, None, Some CMethod)"
    by auto
  from end_rep [OF c9(2,4,3)] l(2) obtain c10 where
    c10: "com_atom_end CVbList c9 = Some c10"
      "rep (st9(CVbList := None, CMethod \<mapsto> (TagGetResponse, ?m, Some CHeader, None))) c10"
    by auto
  from end_rep [OF c10(2), of CHeader _ _ _ CMethod] c9(5) l(1) obtain c11 where
    c11: "com_atom_end CMethod c10 = Some c11"
      "rep (st9(CVbList := None, CMethod := None, CHeader \<mapsto> (TagVar, ?h, None, None))) c11"
    by (auto simp: fun_upd_twist)
  from end_root_rep [OF c11(2), of CHeader] fits obtain c12 where
    c12: "com_atom_end CHeader c11 = Some c12" "\<forall>j. length (c_buf (c12 j)) = CATOM_BUF_SIZE"
      "2 + unat (c_len (c12 CHeader)) = length (tlv TagVar ?h)"
      "take (2 + unat (c_len (c12 CHeader))) (c_buf (c12 CHeader)) = tlv TagVar ?h"
    by (auto simp: resp)
  have "build_response pdu buf es ei vbs cs = Some c12"
    by (simp add: build_response_def c1(1) c2(1) c3(1) c4(1) c5(1) c6(1) c7(1) c8(1) c9(1) c10(1) c11(1) c12(1))
  with c12 show ?thesis unfolding resp by blast
qed

section \<open>Reading an encoding back\<close>

lemma byte_of_small: "(n :: u16) \<le> 0xFF \<Longrightarrow> ucast (ucast n :: u8) = n"
proof -
  assume "n \<le> 0xFF"
  then have "unat n < 2 ^ 8" by (simp add: word_le_nat_alt)
  then have "take_bit 8 n = n" by (simp add: word_unat_eq_iff unsigned_take_bit_eq take_bit_nat_eq_self_iff)
  moreover have "ucast (ucast n :: u8) = take_bit 8 n" by (intro bit_word_eqI) (auto simp: bit_simps)
  ultimately show ?thesis by simp
qed

lemma read_header_tlv:
  "read_header (tlv tag content @ rest) = Some (tag, word_of_nat (length content), content @ rest)"
proof -
  define n :: u16 where "n = word_of_nat (length content)"
  have "ucast n \<noteq> (0x82 :: u8)" "ucast n \<noteq> (0x81 :: u8)" if "\<not> n > 0xFF" "\<not> n \<ge> 0x80"
  proof -
    have "ucast (ucast n :: u8) = n" using that(1) by (simp add: byte_of_small)
    with that(2) show "ucast n \<noteq> (0x82 :: u8)" "ucast n \<noteq> (0x81 :: u8)" by auto
  qed
  then show ?thesis
    unfolding tlv_def n_def [symmetric] using byte_of_small [of n]
    by (auto simp: read_header_def tlv_len_def PACK_U16_bytes not_less)
qed

lemma tlv_not_Nil [simp]: "tlv tag content \<noteq> []" by (simp add: tlv_def)

lemma unat_16: "unat (x :: u16) < 65536"
proof -
  have "unat x < 2 ^ LENGTH(16)" by (rule unsigned_less)
  then show ?thesis by simp
qed

text \<open>A tag whose data pointer is kept; an integer of more than four bytes overruns its variable.\<close>

definition readable :: "u8 \<Rightarrow> u8 list \<Rightarrow> bool" where
  "readable tag content \<longleftrightarrow> length content < 65536 \<and>
     (if tag = TagInt then length content \<le> 4
      else tag \<in> {TagString, TagValue, TagOID, TagVar, TagGetRequest, TagSetRequest})"

lemma atom_set_data_readable:
  "readable (a_tag a) content \<Longrightarrow> atom_set_data (content @ rest) (word_of_nat (length content)) a
     = Some (a\<lparr> a_data := Packet (content @ rest), a_len := word_of_nat (length content) \<rparr>)"
  by (auto simp: atom_set_data_def readable_def unat_of_nat_less split: if_splits)

lemma atom_is_packet:
  "readable tag content \<Longrightarrow> atom_is buf \<lparr> a_tag = tag, a_len = word_of_nat (length content), a_data = Packet (content @ rest) \<rparr>
     (tag, content)"
  by (auto simp: atom_is_def readable_def atom_bytes_def mem_read_def unat_of_nat_less len_word_0)

lemma pop_atom_tlv:
  assumes "readable tag content" "length (tlv tag content) \<le> unat sz"
  shows "pop_atom (Packet (tlv tag content @ rest), sz) a =
    Some (0, (Packet rest, sz - word_of_nat (length (tlv tag content))),
      a\<lparr> a_tag := tag, a_len := word_of_nat (length content), a_data := Packet (content @ rest) \<rparr>)"
proof -
  have c: "length content < 65536" using assms(1) by (simp add: readable_def)
  have sz: "\<not> sz < 2" "\<not> unat sz < 2 + length content"
    using tlv_bounds(1) [of content tag] assms(2) by (simp_all add: word_less_nat_alt)
  have k: "length (tlv tag content @ rest) - length (content @ rest) + length content = length (tlv tag content)"
    using tlv_bounds(1) [of content tag] by simp
  show ?thesis
    using sz k atom_set_data_readable [of "a\<lparr> a_tag := tag, a_len := word_of_nat (length content) \<rparr>" content rest] assms(1) c
    by (simp add: pop_atom_def read_header_tlv unat_of_nat_less Let_def)
qed

lemma extract_atom_tlv:
  assumes "readable (a_tag a) content" "length (tlv (a_tag a) content) \<le> unat sz"
  shows "extract_loop sz used (tlv (a_tag a) content @ rest) (a # as) =
    (if used \<ge> unat sz then Some (0, used, tlv (a_tag a) content @ rest, a # as)
     else do {
       (rc, used, data, as) \<leftarrow> extract_loop sz (used + length (tlv (a_tag a) content)) rest as;
       Some (rc, used, data, a\<lparr> a_data := Packet (content @ rest), a_len := word_of_nat (length content) \<rparr> # as)
     })"
proof -
  have c: "length content < 65536" using assms(1) by (simp add: readable_def)
  have k: "length (tlv (a_tag a) content @ rest) - length (content @ rest) + length content = length (tlv (a_tag a) content)"
    using tlv_bounds(1) [of content "a_tag a"] by simp
  show ?thesis
    using k atom_set_data_readable [OF assms(1), of rest] c
    by (simp add: read_header_tlv unat_of_nat_less Let_def add.assoc)
qed

section \<open>The encoding of an object identifier\<close>

text \<open>A number in groups of seven bits, all but the last marked; the first two numbers share one.\<close>

fun marked :: "nat \<Rightarrow> u8 list" where
  "marked v = (if v = 0 then [] else marked (v div 128) @ [word_of_nat (128 + v mod 128)])"

declare marked.simps [simp del]

definition encode_subid :: "nat \<Rightarrow> u8 list" where
  "encode_subid v = marked (v div 128) @ [word_of_nat (v mod 128)]"

definition encode_oid :: "u32 list \<Rightarrow> u8 list" where
  "encode_oid oid = (case oid of a # b # rest \<Rightarrow>
     concat (map encode_subid ((40 * unat a + unat b) # map unat rest)) | _ \<Rightarrow> [])"

definition oid_ok :: "u32 list \<Rightarrow> bool" where
  "oid_ok oid \<longleftrightarrow> (case oid of a # b # rest \<Rightarrow> unat a \<le> 2 \<and> (unat a < 2 \<longrightarrow> unat b < 40) | _ \<Rightarrow> False)"

lemma group_bits:
  assumes "d < 128"
  shows "word_of_nat (128 + d) AND (0x80 :: u8) \<noteq> 0" "word_of_nat d AND (0x80 :: u8) = 0"
    "word_of_nat (128 + d) AND 0x7F = (word_of_nat d :: u8)" "word_of_nat d AND 0x7F = (word_of_nat d :: u8)"
proof -
  have d: "d \<in> set [0..<128]" using assms by simp
  have "\<forall>d \<in> set [0..<128]. word_of_nat (128 + d) AND (0x80 :: u8) \<noteq> 0 \<and> word_of_nat d AND (0x80 :: u8) = 0
    \<and> word_of_nat (128 + d) AND 0x7F = (word_of_nat d :: u8) \<and> word_of_nat d AND 0x7F = (word_of_nat d :: u8)"
    by code_simp
  with d show "word_of_nat (128 + d) AND (0x80 :: u8) \<noteq> 0" "word_of_nat d AND (0x80 :: u8) = 0"
    "word_of_nat (128 + d) AND 0x7F = (word_of_nat d :: u8)" "word_of_nat d AND 0x7F = (word_of_nat d :: u8)" by blast+
qed

lemma push_group:
  assumes "d < 128"
  shows "push_bit 7 (word_of_nat a) OR ucast (word_of_nat d :: u8) = (word_of_nat (a * 128 + d) :: 64 word)"
proof -
  have "(ucast (word_of_nat d :: u8) :: 64 word) = word_of_nat d"
    using assms by (simp add: word_unat_eq_iff unat_of_nat_less unsigned_ucast_eq take_bit_nat_eq_self_iff)
  moreover have "push_bit 7 (word_of_nat a) AND (word_of_nat d :: 64 word) = 0"
  proof (rule bit_word_eqI)
    fix n
    have "\<not> bit d n" if "n \<ge> 7"
      using that assms power_increasing [of 7 n "2 :: nat"] by (simp add: bit_iff_odd)
    then show "bit (push_bit 7 (word_of_nat a) AND (word_of_nat d :: 64 word)) n = bit 0 n"
      by (auto simp: bit_simps)
  qed
  ultimately show ?thesis
    by (simp add: disjunctive_add_eq_or [symmetric] push_bit_eq_mult)
qed

lemma subid_marked:
  "subid_loop n (marked v @ bytes) (word_of_nat a) f k subids
    = subid_loop n bytes (word_of_nat (a * 128 ^ length (marked v) + v)) f k subids"
proof (induction v arbitrary: a bytes rule: marked.induct)
  case (1 v)
  show ?case
  proof (cases "v = 0")
    case False
    have m: "v mod 128 < 128" by simp
    have m2: "marked v = marked (v div 128) @ [word_of_nat (128 + v mod 128)]" using False by (subst marked.simps) simp
    show ?thesis
      using group_bits [OF m] "1.IH" [OF False, of "word_of_nat (128 + v mod 128) # bytes" a]
      by (simp add: m2 push_group [OF m] algebra_simps Let_def del: of_nat_add of_nat_mult)
  qed (simp add: marked.simps)
qed

lemma subid_step:
  assumes "b AND 0x80 = 0" "push_bit 7 s OR ucast (b AND 0x7F) = w"
  shows "subid_loop n (b # bytes) s f k subids =
    (let (subid0, subid) = (if f then (if w \<ge> 80 then (2, w - 80) else if w \<ge> 40 then (1, w - 40) else (0, w)) else (0, w))
     in do {
       (k, subids) \<leftarrow> (if f then do { subids \<leftarrow> put_subid subid0 k subids; Some (k + 1, subids) } else Some (k, subids));
       if k \<ge> n \<or> subid > 0xFFFFFFFF then Some (False, subids)
       else do { subids \<leftarrow> put_subid (ucast subid) k subids; subid_loop n bytes 0 False (k + 1) subids }
     })"
  by (simp add: assms Let_def)

lemma subid_last:
  assumes "v < 2 ^ 34"
  shows "subid_loop n (encode_subid v @ bytes) 0 f k subids =
    (let (subid0, subid) = (if f then (if v \<ge> 80 then (2, v - 80) else if v \<ge> 40 then (1, v - 40) else (0, v)) else (0, v))
     in do {
       (k, subids) \<leftarrow> (if f then do { subids \<leftarrow> put_subid subid0 k subids; Some (k + 1, subids) } else Some (k, subids));
       if k \<ge> n \<or> subid \<ge> 2 ^ 32 then Some (False, subids)
       else do { subids \<leftarrow> put_subid (word_of_nat subid) k subids; subid_loop n bytes 0 False (k + 1) subids }
     })"
proof -
  have m: "v mod 128 < 128" by simp
  have v: "unat (word_of_nat v :: 64 word) = v" using assms by (simp add: unat_of_nat_less)
  have c: "(word_of_nat v :: 64 word) \<ge> 80 \<longleftrightarrow> v \<ge> 80" "(word_of_nat v :: 64 word) \<ge> 40 \<longleftrightarrow> v \<ge> 40"
    by (simp_all add: word_le_nat_alt v)
  have d: "(word_of_nat v :: 64 word) - 80 = word_of_nat (v - 80)" if "v \<ge> 80" using that by simp
  have d2: "(word_of_nat v :: 64 word) - 40 = word_of_nat (v - 40)" if "v \<ge> 40" using that by simp
  have big: "(word_of_nat x :: 64 word) > 0xFFFFFFFF \<longleftrightarrow> x \<ge> 2 ^ 32" if "x \<le> v" for x
    using that assms by (auto simp: word_less_nat_alt unat_of_nat_less)
  have narrow: "ucast (word_of_nat x :: 64 word) = (word_of_nat x :: u32)" for x
    by (intro bit_word_eqI) (auto simp: bit_simps)
  have g: "(push_bit 7 (word_of_nat (v div 128)) OR ucast (word_of_nat (v mod 128) AND 0x7F :: u8)) = (word_of_nat v :: 64 word)"
    using push_group [OF m, of "v div 128"] by (simp add: group_bits(4) [OF m])
  have last: "subid_loop n (encode_subid v @ bytes) 0 f k subids =
      subid_loop n (word_of_nat (v mod 128) # bytes) (word_of_nat (v div 128)) f k subids"
    using subid_marked [of n "v div 128" "word_of_nat (v mod 128) # bytes" 0 f k subids]
    by (simp add: encode_subid_def)
  note last = last [unfolded subid_step [OF group_bits(2) [OF m] g]]
  consider "\<not> f" | "f" "v \<ge> 80" | "f" "40 \<le> v" "v < 80" | "f" "v < 40" by linarith
  then show ?thesis
  proof cases
    case 1
    then show ?thesis unfolding last using big [of v] by (simp add: narrow)
  next
    case 2
    then show ?thesis unfolding last using big [of "v - 80"] by (simp only: c d if_True Let_def split narrow diff_le_self)
  next
    case 3
    then have "\<not> 80 \<le> v" by simp
    with 3 show ?thesis unfolding last using big [of "v - 40"]
      by (simp only: c d2 if_True if_False Let_def split narrow diff_le_self)
  next
    case 4
    then have "\<not> 80 \<le> v" "\<not> 40 \<le> v" by simp_all
    with 4 show ?thesis unfolding last using big [of v]
      by (simp only: c if_True if_False Let_def split narrow order.refl)
  qed
qed

lemma put_subid_at: "k < length subids \<Longrightarrow> put_subid v k subids = Some (subids[k := v])"
  by (simp add: put_subid_def)

lemma subids_rest:
  assumes "k + length rest \<le> n" "n \<le> length subids"
  shows "subid_loop n (concat (map encode_subid (map unat rest))) 0 False k subids
    = Some (True, take k subids @ rest @ drop (k + length rest) subids)"
  using assms
proof (induction rest arbitrary: k subids)
  case (Cons v rest)
  have v32: "unat v < 2 ^ LENGTH(32)" by (rule unsigned_less)
  then have v: "unat v < 2 ^ 34" by simp
  from v32 have "subid_loop n (concat (map encode_subid (map unat (v # rest)))) 0 False k subids
      = subid_loop n (concat (map encode_subid (map unat rest))) 0 False (k + 1) (subids[k := v])"
    using Cons.prems subid_last [OF v, of n _ False k subids] by (simp add: put_subid_at)
  also have "\<dots> = Some (True, take k subids @ (v # rest) @ drop (k + length (v # rest)) subids)"
    using Cons.IH [of "k + 1" "subids[k := v]"] Cons.prems by (simp add: take_Suc_conv_app_nth)
  finally show ?case .
qed simp

lemma count_last: "length (filter (\<lambda>b. b AND 0x80 = 0) (encode_subid v)) = 1"
proof -
  have "filter (\<lambda>b. b AND 0x80 = 0) (marked v) = []" for v
    by (induction v rule: marked.induct) (subst marked.simps, simp add: group_bits(1) [OF mod_less_divisor] del: of_nat_add)
  then show ?thesis using group_bits(2) [of "v mod 128"] by (simp add: encode_subid_def)
qed

text \<open>An identifier in its encoding is decoded to itself, and the rest of the array is kept.\<close>

lemma decode_encoded_oid:
  assumes "oid_ok oid" "length oid \<le> length subids"
  shows "oid_encoded2subid (encode_oid oid) subids = Some (length oid, oid @ drop (length oid) subids)"
proof -
  from assms(1) obtain a b rest where oid: "oid = a # b # rest" and ab: "unat a \<le> 2" "unat a < 2 \<longrightarrow> unat b < 40"
    by (auto simp: oid_ok_def split: list.splits)
  let ?v = "40 * unat a + unat b"
  have b32: "unat b < 2 ^ LENGTH(32)" by (rule unsigned_less)
  then have v: "?v < 2 ^ 34" using ab(1) by simp
  have len: "1 + length (filter (\<lambda>b. b AND 0x80 = 0) (encode_oid oid)) = length oid"
  proof -
    have "length (filter (\<lambda>b. b AND 0x80 = 0) (concat (map encode_subid vs))) = length vs" for vs
      by (induction vs) (use count_last in simp_all)
    from this [of "map unat rest"] show ?thesis using count_last by (simp add: encode_oid_def oid)
  qed
  have split: "(if ?v \<ge> 80 then (2, ?v - 80) else if ?v \<ge> 40 then (1, ?v - 40) else (0, ?v)) = (a, unat b)"
  proof -
    consider "unat a = 0" | "unat a = 1" | "unat a = 2" using ab(1) by linarith
    then show ?thesis
    proof cases
      case 1
      moreover from 1 have "a = 0" by (metis word_of_nat_eq_0_iff unat_eq_zero)
      ultimately show ?thesis using ab(2) by simp
    next
      case 2
      moreover have "a = word_of_nat (unat a)" by simp
      then have "a = 1" unfolding 2 by simp
      ultimately show ?thesis using ab(2) by simp
    next
      case 3
      moreover have "a = word_of_nat (unat a)" by simp
      then have "a = 2" unfolding 3 by simp
      ultimately show ?thesis by simp
    qed
  qed
  have ba: "word_of_nat (unat b) = b" "\<not> unat b \<ge> 2 ^ 32" using b32 by simp_all
  from assms(2) obtain s0 s1 ss where subids: "subids = s0 # s1 # ss"
    by (cases subids; cases "tl subids") (simp_all add: oid)
  have "subid_loop (length oid) (encode_subid ?v @ bytes) 0 True 0 subids
      = subid_loop (length oid) bytes 0 False 2 (subids[0 := a, 1 := b])" for bytes
    unfolding subid_last [OF v] split if_True Let_def ba(1) prod.case
    by (simp add: put_subid_at subids oid ba(2) [simplified], simp add: numeral_2_eq_2)
  then have "subid_loop (length oid) (encode_oid oid) 0 True 0 subids
      = subid_loop (length oid) (concat (map encode_subid (map unat rest))) 0 False 2 (subids[0 := a, 1 := b])"
    by (simp add: encode_oid_def oid)
  also have "\<dots> = Some (True, oid @ drop (length oid) subids)"
    using subids_rest [of 2 rest "length oid" "subids[0 := a, 1 := b]"] assms(2) by (simp add: subids oid)
  finally show ?thesis using len by (simp add: oid_encoded2subid_def Let_def)
qed

section \<open>Reading a variable binding\<close>

definition cut_instance :: "u32 list \<Rightarrow> nat" where
  "cut_instance oid = (if last oid = 0 then length oid - 1 else length oid)"

definition packet_atom :: "u8 \<Rightarrow> u8 list \<Rightarrow> u8 list \<Rightarrow> wu_snmp_atom" where
  "packet_atom tag content rest = \<lparr> a_tag = tag, a_len = word_of_nat (length content), a_data = Packet (content @ rest) \<rparr>"

lemma pop_atom_packet:
  "readable tag content \<Longrightarrow> length (tlv tag content) \<le> unat sz \<Longrightarrow>
   pop_atom (Packet (tlv tag content @ rest), sz) a =
     Some (0, (Packet rest, sz - word_of_nat (length (tlv tag content))), packet_atom tag content rest)"
  by (simp add: pop_atom_tlv packet_atom_def)

lemma pop_var_bind_tlv:
  assumes "oid_ok oid" "length oid \<le> length (vb_oid vb)" "readable vt v"
    and "length (var_bind_tlv ((TagOID, encode_oid oid), (vt, v))) \<le> unat sz"
  shows "pop_var_bind (Packet (var_bind_tlv ((TagOID, encode_oid oid), (vt, v)) @ rest), sz) vb =
    Some (0, (Packet rest, sz - word_of_nat (length (var_bind_tlv ((TagOID, encode_oid oid), (vt, v))))),
      vb\<lparr> vb_name := packet_atom TagOID (encode_oid oid) (tlv vt v @ rest), vb_value := packet_atom vt v rest,
          vb_oid := oid @ drop (length oid) (vb_oid vb), vb_oid_len := cut_instance oid \<rparr>)"
proof -
  let ?n = "tlv TagOID (encode_oid oid)" and ?v = "tlv vt v"
  have vb: "var_bind_tlv ((TagOID, encode_oid oid), (vt, v)) = tlv TagVar (?n @ ?v)" by (simp add: var_bind_tlv_def)
  have len: "length (?n @ ?v) < 65536" "length (encode_oid oid) < 65536"
    using assms(4) tlv_bounds(1) [of "?n @ ?v" TagVar] tlv_bounds(1) [of "encode_oid oid" TagOID]
      unat_16 [of sz] unfolding vb by simp_all
  have r: "readable TagVar (?n @ ?v)" "readable TagOID (encode_oid oid)"
    using len by (simp_all add: readable_def tags)
  let ?sz = "word_of_nat (length (?n @ ?v)) :: u16"
  have sz: "unat ?sz = length (?n @ ?v)" by (rule unat_of_nat_less) (use len(1) in simp)
  have p1: "pop_atom (Packet (tlv TagVar (?n @ ?v) @ rest), sz) (atom_tagged 0) =
      Some (0, (Packet rest, sz - word_of_nat (length (tlv TagVar (?n @ ?v)))), packet_atom TagVar (?n @ ?v) rest)"
    by (rule pop_atom_packet [OF r(1)]) (use assms(4) in \<open>simp add: vb\<close>)
  have p2: "pop_atom (Packet (?n @ ?v @ rest), ?sz) (vb_name vb) =
      Some (0, (Packet (?v @ rest), ?sz - word_of_nat (length ?n)), packet_atom TagOID (encode_oid oid) (?v @ rest))"
    by (rule pop_atom_packet [OF r(2)]) (simp only: sz, simp)
  have "?sz - word_of_nat (length ?n) = word_of_nat (length ?v)" by simp
  moreover have "unat (word_of_nat (length ?v) :: u16) = length ?v"
    by (rule unat_of_nat_less) (use len(1) in simp)
  ultimately have sz2: "unat (?sz - word_of_nat (length ?n)) = length ?v" by simp
  have p3: "pop_atom (Packet (?v @ rest), ?sz - word_of_nat (length ?n)) (vb_value vb) =
      Some (0, (Packet rest, ?sz - word_of_nat (length ?n) - word_of_nat (length ?v)), packet_atom vt v rest)"
    by (rule pop_atom_packet [OF assms(3)]) (simp only: sz2 order.refl)
  let ?vb = "vb\<lparr> vb_name := packet_atom TagOID (encode_oid oid) (?v @ rest), vb_value := packet_atom vt v rest \<rparr>"
  have ne: "oid \<noteq> []" using assms(1) by (auto simp: oid_ok_def)
  have "atom_bytes (vb_buf ?vb) (vb_name ?vb) = Some (encode_oid oid)"
    using atom_is_packet [OF r(2)] by (simp add: atom_is_def packet_atom_def)
  then have d: "decode_oid ?vb = Some (0, ?vb\<lparr> vb_oid := oid @ drop (length oid) (vb_oid vb), vb_oid_len := cut_instance oid \<rparr>)"
    using decode_encoded_oid [OF assms(1), of "vb_oid vb"] assms(2) ne
    by (simp add: decode_oid_def cut_instance_def Let_def nth_append last_conv_nth)
  have a: "a_data (packet_atom TagVar (?n @ ?v) rest) = Packet (?n @ ?v @ rest)" "a_len (packet_atom TagVar (?n @ ?v) rest) = ?sz"
    by (simp_all add: packet_atom_def)
  show ?thesis
    unfolding pop_var_bind_def vb using d by (simp add: p1 a p2 [simplified] p3 [simplified] Let_def)
qed

end
