(* ===== verification/OidTree.thy ===== *)
theory OidTree
  imports Prelude "HOL-Library.Sublist"
begin

text \<open>
  The tree of object identifiers of the SNMP agent: the nodes of \<^verbatim>\<open>libwu/wutree.c\<close> with their
  pointers as indices into the pool, registration and search of \<^verbatim>\<open>src/wu_snmp_lib.c\<close>, and the
  proof that the tree finds what was registered and nothing else.
\<close>

section \<open>The nodes and their pool\<close>

record wutree_node =
  t_left :: "nat option"
  t_right :: "nat option"
  t_parent :: "nat option"
  t_eldest :: "nat option"
  t_depth :: nat
  t_data :: u32
  t_ext :: "nat option"

text \<open>
  The pool hands out its zeroed nodes one after the other; none is ever put back, so its free list
  stays empty. The root is node 0.
\<close>

record wutree =
  t_nodes :: "wutree_node list"
  pool_node_cnt :: nat

definition node_zero :: wutree_node where
  "node_zero = \<lparr> t_left = None, t_right = None, t_parent = None, t_eldest = None, t_depth = 0, t_data = 0, t_ext = None \<rparr>"

definition wutree_new :: "nat \<Rightarrow> wutree" where
  "wutree_new node_cnt = \<lparr> t_nodes = [], pool_node_cnt = node_cnt \<rparr>"

definition wutree_node_pool_get_node :: "wutree \<Rightarrow> (nat \<times> wutree) option" where
  "wutree_node_pool_get_node t =
     (if length (t_nodes t) < pool_node_cnt t
      then Some (length (t_nodes t), t\<lparr> t_nodes := t_nodes t @ [node_zero] \<rparr>) else None)"

definition upd_node :: "nat \<Rightarrow> (wutree_node \<Rightarrow> wutree_node) \<Rightarrow> wutree \<Rightarrow> wutree" where
  "upd_node k f t = t\<lparr> t_nodes := (t_nodes t)[k := f (t_nodes t ! k)] \<rparr>"

definition wutreenode_set_data :: "nat \<Rightarrow> u32 \<Rightarrow> wutree \<Rightarrow> wutree" where
  "wutreenode_set_data k d t = upd_node k (\<lambda>n. n\<lparr> t_data := d \<rparr>) t"

definition wutree_set_root :: "nat \<Rightarrow> wutree \<Rightarrow> wutree" where
  "wutree_set_root k t = upd_node k (\<lambda>n. n\<lparr> t_depth := 0 \<rparr>) t"

definition wutreenode_eldestson :: "wutree \<Rightarrow> nat \<Rightarrow> nat option" where
  "wutreenode_eldestson t k = t_eldest (t_nodes t ! k)"

text \<open>The loops along the brothers; nothing in the code bounds them.\<close>

partial_function (option) last_right :: "wutree \<Rightarrow> nat \<Rightarrow> nat option" where
  "last_right t n = (case t_right (t_nodes t ! n) of None \<Rightarrow> Some n | Some m \<Rightarrow> last_right t m)"

definition wutreenode_littleson :: "wutree \<Rightarrow> nat \<Rightarrow> nat option option" where
  "wutreenode_littleson t k =
     (case wutreenode_eldestson t k of
        None \<Rightarrow> Some None
      | Some n \<Rightarrow> do { n \<leftarrow> last_right t n; Some (Some n) })"

definition wutreenode_add_littleson :: "nat \<Rightarrow> nat \<Rightarrow> wutree \<Rightarrow> wutree option" where
  "wutreenode_add_littleson k added t =
     do {
       littleson \<leftarrow> wutreenode_littleson t k;
       let t = (case littleson of
                  Some l \<Rightarrow> upd_node added (\<lambda>n. n\<lparr> t_left := Some l \<rparr>)
                              (upd_node l (\<lambda>n. n\<lparr> t_right := Some added \<rparr>) t)
                | None \<Rightarrow> upd_node k (\<lambda>n. n\<lparr> t_eldest := Some added \<rparr>) t);
       Some (upd_node added (\<lambda>n. n\<lparr> t_parent := Some k, t_depth := t_depth (t_nodes t ! k) + 1 \<rparr>) t)
     }"

partial_function (option) find_right :: "wutree \<Rightarrow> u32 \<Rightarrow> nat \<Rightarrow> nat option option" where
  "find_right t d son =
     (if t_data (t_nodes t ! son) = d then Some (Some son)
      else case t_right (t_nodes t ! son) of None \<Rightarrow> Some None | Some m \<Rightarrow> find_right t d m)"

definition wutree_find_in_sons :: "wutree \<Rightarrow> nat \<Rightarrow> u32 \<Rightarrow> nat option option" where
  "wutree_find_in_sons t parent d =
     (case wutreenode_eldestson t parent of None \<Rightarrow> Some None | Some son \<Rightarrow> find_right t d son)"

section \<open>Registration and search\<close>

definition NODE_SIZE :: nat where "NODE_SIZE = PROGRAM_MAX_NUM div 32 * 1000"

text \<open>The data of the root is the address of a name.\<close>

definition wu_agent_init :: "u32 \<Rightarrow> wutree option" where
  "wu_agent_init name =
     do {
       (root, t) \<leftarrow> wutree_node_pool_get_node (wutree_new NODE_SIZE);
       Some (wutree_set_root root (wutreenode_set_data root name t))
     }"

text \<open>
  The loop over the numbers of an identifier: the return code, the tree and the node added last, which
  the code leaves uninitialised when every node was there already.
\<close>

fun register_loop :: "u32 list \<Rightarrow> nat \<Rightarrow> nat option \<Rightarrow> wutree \<Rightarrow> (int \<times> nat option \<times> wutree) option" where
  "register_loop [] node added t = Some (0, added, t)"
| "register_loop (d # ds) node added t =
     do {
       tmp_node \<leftarrow> wutree_find_in_sons t node d;
       case tmp_node of
         Some n \<Rightarrow> register_loop ds n added t
       | None \<Rightarrow> (case wutree_node_pool_get_node t of
           None \<Rightarrow> Some (-1, added, t)
         | Some (k, t) \<Rightarrow> do {
             t \<leftarrow> wutreenode_add_littleson node k (wutreenode_set_data k d t);
             register_loop ds k (Some k) t
           })
     }"

definition wu_agent_register :: "nat \<Rightarrow> u32 list \<Rightarrow> wutree \<Rightarrow> (int \<times> wutree) option" where
  "wu_agent_register obj oid t =
     do {
       (rc, added, t) \<leftarrow> register_loop oid 0 None t;
       if rc < 0 then Some (-1, t)
       else do { k \<leftarrow> added; Some (0, upd_node k (\<lambda>n. n\<lparr> t_ext := Some obj \<rparr>) t) }
     }"

fun find_loop :: "u32 list \<Rightarrow> nat \<Rightarrow> wutree \<Rightarrow> nat option option" where
  "find_loop [] node t = Some (Some node)"
| "find_loop (d # ds) node t =
     do { r \<leftarrow> wutree_find_in_sons t node d; case r of None \<Rightarrow> Some None | Some n \<Rightarrow> find_loop ds n t }"

definition find_node :: "u32 list \<Rightarrow> wutree \<Rightarrow> nat option option" where
  "find_node oid t =
     (if oid = [] then Some None
      else do {
        r \<leftarrow> find_loop oid 0 t;
        Some (case r of None \<Rightarrow> None | Some n \<Rightarrow> if wutreenode_eldestson t n \<noteq> None then None else Some n)
      })"

definition find_oid_object :: "u32 list \<Rightarrow> wutree \<Rightarrow> nat option option" where
  "find_oid_object oid t =
     do { r \<leftarrow> find_node oid t; Some (case r of None \<Rightarrow> None | Some n \<Rightarrow> t_ext (t_nodes t ! n)) }"

section \<open>The sons of a node\<close>

text \<open>The sons of a node are the nodes that have it as parent, in the order of the pool.\<close>

definition sons :: "wutree \<Rightarrow> nat \<Rightarrow> nat list" where
  "sons t n = filter (\<lambda>k. t_parent (t_nodes t ! k) = Some n) [0..<length (t_nodes t)]"

fun linked :: "wutree \<Rightarrow> nat list \<Rightarrow> bool" where
  "linked t [] = True"
| "linked t [k] = (t_right (t_nodes t ! k) = None)"
| "linked t (k # j # ks) = (t_right (t_nodes t ! k) = Some j \<and> linked t (j # ks))"

definition tree_wf :: "wutree \<Rightarrow> bool" where
  "tree_wf t \<longleftrightarrow> t_nodes t \<noteq> [] \<and> length (t_nodes t) \<le> pool_node_cnt t
     \<and> (\<forall>k < length (t_nodes t). (k = 0 \<longleftrightarrow> t_parent (t_nodes t ! k) = None)
          \<and> (\<forall>p. t_parent (t_nodes t ! k) = Some p \<longrightarrow> p < k)
          \<and> t_eldest (t_nodes t ! k) = (case sons t k of [] \<Rightarrow> None | s # _ \<Rightarrow> Some s)
          \<and> linked t (sons t k)
          \<and> inj_on (\<lambda>s. t_data (t_nodes t ! s)) (set (sons t k)))"

lemma last_right_linked: "linked t (k # ks) \<Longrightarrow> last_right t k = Some (last (k # ks))"
proof (induction ks arbitrary: k)
  case Nil
  then show ?case by (subst last_right.simps) simp
next
  case (Cons j ks)
  then show ?case by (subst last_right.simps) simp
qed

lemma find_right_linked:
  "linked t (k # ks) \<Longrightarrow> find_right t d k = Some (find (\<lambda>s. t_data (t_nodes t ! s) = d) (k # ks))"
proof (induction ks arbitrary: k)
  case Nil
  then show ?case by (subst find_right.simps) simp
next
  case (Cons j ks)
  then show ?case by (subst find_right.simps) simp
qed

definition son :: "wutree \<Rightarrow> nat \<Rightarrow> u32 \<Rightarrow> nat option" where
  "son t n d = find (\<lambda>s. t_data (t_nodes t ! s) = d) (sons t n)"

lemma find_in_sons:
  assumes "tree_wf t" "n < length (t_nodes t)"
  shows "wutree_find_in_sons t n d = Some (son t n d)"
proof -
  have e: "t_eldest (t_nodes t ! n) = (case sons t n of [] \<Rightarrow> None | s # _ \<Rightarrow> Some s)" "linked t (sons t n)"
    using assms by (auto simp: tree_wf_def)
  show ?thesis
    using e find_right_linked [of t "hd (sons t n)" "tl (sons t n)" d]
    by (cases "sons t n") (simp_all add: wutree_find_in_sons_def wutreenode_eldestson_def son_def)
qed

lemma littleson:
  assumes "t_eldest (t_nodes t ! n) = (case ss of [] \<Rightarrow> None | s # _ \<Rightarrow> Some s)" "linked t ss"
  shows "wutreenode_littleson t n = Some (if ss = [] then None else Some (last ss))"
  using assms last_right_linked [of t "hd ss" "tl ss"]
  by (cases ss) (simp_all add: wutreenode_littleson_def wutreenode_eldestson_def)

lemma linked_same:
  "linked t ss \<Longrightarrow> (\<And>k. k \<in> set ss \<Longrightarrow> t_right (t_nodes t' ! k) = t_right (t_nodes t ! k)) \<Longrightarrow> linked t' ss"
  by (induction t ss rule: linked.induct) auto

lemma linked_snoc:
  "linked t ss \<Longrightarrow> distinct ss \<Longrightarrow> t_right (t_nodes t' ! j) = None \<Longrightarrow>
   (ss \<noteq> [] \<Longrightarrow> t_right (t_nodes t' ! last ss) = Some j) \<Longrightarrow>
   (\<And>k. k \<in> set (butlast ss) \<Longrightarrow> t_right (t_nodes t' ! k) = t_right (t_nodes t ! k)) \<Longrightarrow> linked t' (ss @ [j])"
  by (induction t ss rule: linked.induct) auto

lemma sons_props:
  "distinct (sons t n)" "k \<in> set (sons t n) \<longleftrightarrow> k < length (t_nodes t) \<and> t_parent (t_nodes t ! k) = Some n"
  by (auto simp: sons_def)

text \<open>Adding a node under another makes it the last of its sons and changes nothing else.\<close>

definition added_to :: "wutree \<Rightarrow> nat \<Rightarrow> u32 \<Rightarrow> wutree \<Rightarrow> bool" where
  "added_to t n d t' \<longleftrightarrow>
     (let k = length (t_nodes t) in
       length (t_nodes t') = k + 1 \<and> pool_node_cnt t' = pool_node_cnt t
       \<and> t_data (t_nodes t' ! k) = d \<and> t_ext (t_nodes t' ! k) = None
       \<and> (\<forall>j < k. t_data (t_nodes t' ! j) = t_data (t_nodes t ! j) \<and> t_ext (t_nodes t' ! j) = t_ext (t_nodes t ! j))
       \<and> (\<forall>m. sons t' m = (if m = n then sons t n @ [k] else sons t m)))"

lemma sons_snoc:
  assumes "length (t_nodes t') = length (t_nodes t) + 1"
    "\<And>j. j < length (t_nodes t) \<Longrightarrow> t_parent (t_nodes t' ! j) = t_parent (t_nodes t ! j)"
    "t_parent (t_nodes t' ! length (t_nodes t)) = Some n"
  shows "sons t' m = (if m = n then sons t n @ [length (t_nodes t)] else sons t m)"
proof -
  have "filter (\<lambda>k. t_parent (t_nodes t' ! k) = Some m) [0..<length (t_nodes t)] = sons t m" for m
    unfolding sons_def by (rule filter_cong) (use assms(2) in auto)
  then show ?thesis by (auto simp: sons_def [of t'] assms(1,3))
qed

lemma no_sons_beyond:
  "tree_wf t \<Longrightarrow> length (t_nodes t) \<le> k \<Longrightarrow> sons t k = []"
  by (auto simp: sons_def filter_empty_conv tree_wf_def)

lemma add_son:
  assumes wf: "tree_wf t" and n: "n < length (t_nodes t)" and new: "son t n d = None"
    and room: "length (t_nodes t) < pool_node_cnt t"
  shows "\<exists>k t1 t'. wutree_node_pool_get_node t = Some (k, t1) \<and> k = length (t_nodes t)
    \<and> wutreenode_add_littleson n k (wutreenode_set_data k d t1) = Some t' \<and> tree_wf t' \<and> added_to t n d t'"
proof -
  let ?k = "length (t_nodes t)" and ?ss = "sons t n"
  let ?new = "node_zero\<lparr> t_data := d \<rparr>"
  let ?t1 = "t\<lparr> t_nodes := t_nodes t @ [node_zero] \<rparr>" and ?t2 = "t\<lparr> t_nodes := t_nodes t @ [?new] \<rparr>"
  have get: "wutree_node_pool_get_node t = Some (?k, ?t1)" "wutreenode_set_data ?k d ?t1 = ?t2"
    using room by (simp_all add: wutree_node_pool_get_node_def wutreenode_set_data_def upd_node_def)
  have e: "t_eldest (t_nodes t ! n) = (case ?ss of [] \<Rightarrow> None | s # _ \<Rightarrow> Some s)" "linked t ?ss"
    using wf n by (auto simp: tree_wf_def)
  have "linked ?t2 ?ss" by (rule linked_same [OF e(2)]) (auto simp: sons_props nth_append)
  moreover have "t_eldest (t_nodes ?t2 ! n) = t_eldest (t_nodes t ! n)" using n by (simp add: nth_append)
  ultimately have ls: "wutreenode_littleson ?t2 n = Some (if ?ss = [] then None else Some (last ?ss))"
    using littleson [of ?t2 n ?ss] e(1) by simp
  define t' where "t' = t\<lparr> t_nodes :=
    (if ?ss = [] then (t_nodes t)[n := (t_nodes t ! n)\<lparr> t_eldest := Some ?k \<rparr>]
     else (t_nodes t)[last ?ss := (t_nodes t ! last ?ss)\<lparr> t_right := Some ?k \<rparr>])
    @ [(if ?ss = [] then ?new else ?new\<lparr> t_left := Some (last ?ss) \<rparr>)\<lparr> t_parent := Some n,
        t_depth := t_depth (t_nodes t ! n) + 1 \<rparr>] \<rparr>"
  have last: "last ?ss < ?k" if "?ss \<noteq> []" using last_in_set [OF that] by (simp add: sons_props)
  have add: "wutreenode_add_littleson n ?k ?t2 = Some t'"
    using n last
    by (auto simp: wutreenode_add_littleson_def ls Let_def upd_node_def t'_def nth_append list_update_append nth_list_update)
  have old: "t_parent (t_nodes t' ! j) = t_parent (t_nodes t ! j)" "t_data (t_nodes t' ! j) = t_data (t_nodes t ! j)"
      "t_ext (t_nodes t' ! j) = t_ext (t_nodes t ! j)"
      "t_right (t_nodes t' ! j) = (if ?ss \<noteq> [] \<and> j = last ?ss then Some ?k else t_right (t_nodes t ! j))"
      "t_eldest (t_nodes t' ! j) = (if ?ss = [] \<and> j = n then Some ?k else t_eldest (t_nodes t ! j))"
    if "j < ?k" for j
    using that last n by (auto simp: t'_def nth_append nth_list_update)
  have newn: "t_parent (t_nodes t' ! ?k) = Some n" "t_data (t_nodes t' ! ?k) = d" "t_ext (t_nodes t' ! ?k) = None"
    "t_right (t_nodes t' ! ?k) = None" "t_eldest (t_nodes t' ! ?k) = None"
    by (simp_all add: t'_def nth_append node_zero_def)
  have len: "length (t_nodes t') = ?k + 1" "pool_node_cnt t' = pool_node_cnt t" by (simp_all add: t'_def)
  have sons': "sons t' m = (if m = n then ?ss @ [?k] else sons t m)" for m
    by (rule sons_snoc [OF len(1) old(1) newn(1)])
  have "tree_wf t'"
    unfolding tree_wf_def
  proof (intro conjI allI impI)
    fix k assume k: "k < length (t_nodes t')"
    show "p < k" if "t_parent (t_nodes t' ! k) = Some p" for p
      using k wf n that old(1) newn(1) by (auto simp: tree_wf_def len less_Suc_eq)
    show "k = 0 \<longleftrightarrow> t_parent (t_nodes t' ! k) = None"
      using k wf n old(1) newn(1) by (cases "k = ?k") (auto simp: tree_wf_def len less_Suc_eq)
    show "t_eldest (t_nodes t' ! k) = (case sons t' k of [] \<Rightarrow> None | s # _ \<Rightarrow> Some s)"
      using k wf n old(5) newn(5) no_sons_beyond [OF wf, of ?k]
      by (cases "k = ?k"; cases ?ss) (auto simp: tree_wf_def len less_Suc_eq sons')
    have "linked t (sons t k)" using k wf no_sons_beyond [OF wf, of k] by (cases "k < ?k") (auto simp: tree_wf_def)
    show "linked t' (sons t' k)"
    proof (cases "k = n")
      case True
      have "linked t' (?ss @ [?k])"
      proof (rule linked_snoc [OF e(2) sons_props(1) newn(4)])
        show "t_right (t_nodes t' ! last ?ss) = Some ?k" if "?ss \<noteq> []" using old(4) [OF last [OF that]] that by simp
        fix j assume j: "j \<in> set (butlast ?ss)"
        then have "j \<in> set ?ss" by (rule in_set_butlastD)
        moreover have "j \<noteq> last ?ss" using j sons_props(1) [of t n]
          by (metis append_butlast_last_id butlast.simps(1) distinct_append disjoint_iff empty_iff list.set(1) list.set_intros(1))
        ultimately show "t_right (t_nodes t' ! j) = t_right (t_nodes t ! j)" using old(4) [of j] by (auto simp: sons_props)
      qed
      with True show ?thesis by (simp add: sons')
    next
      case False
      have "linked t' (sons t k)"
      proof (rule linked_same [OF \<open>linked t (sons t k)\<close>])
        fix j assume j: "j \<in> set (sons t k)"
        have "j \<noteq> last ?ss" if "?ss \<noteq> []" using last_in_set [OF that] j False by (auto simp: sons_props)
        with j old(4) [of j] show "t_right (t_nodes t' ! j) = t_right (t_nodes t ! j)" by (auto simp: sons_props)
      qed
      with False show ?thesis by (simp add: sons')
    qed
    have inj: "inj_on (\<lambda>s. t_data (t_nodes t ! s)) (set (sons t k))"
      using k wf no_sons_beyond [OF wf, of k] by (cases "k < ?k") (auto simp: tree_wf_def)
    have inj': "inj_on (\<lambda>s. t_data (t_nodes t' ! s)) (set (sons t k))"
      using inj by (rule inj_on_cong [THEN iffD1, rotated]) (auto simp: sons_props old(2))
    have "d \<notin> (\<lambda>s. t_data (t_nodes t' ! s)) ` set ?ss"
      using new by (auto simp: son_def find_None_iff sons_props old(2))
    with inj' show "inj_on (\<lambda>s. t_data (t_nodes t' ! s)) (set (sons t' k))"
      by (auto simp: sons' sons_props inj_on_insert newn(2))
  qed (use room in \<open>auto simp: len t'_def\<close>)
  moreover have "added_to t n d t'"
    using old(2,3) newn(2,3) sons' by (simp add: added_to_def Let_def len)
  ultimately show ?thesis by (simp add: get add)
qed

section \<open>Walks from the root\<close>

fun walk :: "wutree \<Rightarrow> nat \<Rightarrow> u32 list \<Rightarrow> nat option" where
  "walk t n [] = Some n"
| "walk t n (d # ds) = do { m \<leftarrow> son t n d; walk t m ds }"

lemma walk_append: "walk t n (xs @ ys) = do { m \<leftarrow> walk t n xs; walk t m ys }"
proof (induction xs arbitrary: n)
  case (Cons d xs)
  then show ?case by (cases "son t n d") simp_all
qed simp

lemma son_in: "son t n d = Some m \<Longrightarrow> m \<in> set (sons t n) \<and> t_data (t_nodes t ! m) = d"
  by (auto simp: son_def find_Some_iff)

lemma son_less: "son t n d = Some m \<Longrightarrow> m < length (t_nodes t)"
  using son_in [of t n d m] by (simp add: sons_props)

lemma walk_less: "walk t n ds = Some m \<Longrightarrow> n < length (t_nodes t) \<Longrightarrow> m < length (t_nodes t)"
proof (induction ds arbitrary: n)
  case (Cons d ds)
  then show ?case by (cases "son t n d") (auto dest: son_less)
qed simp

lemma find_loop_walk:
  "tree_wf t \<Longrightarrow> n < length (t_nodes t) \<Longrightarrow> find_loop ds n t = Some (walk t n ds)"
proof (induction ds arbitrary: n)
  case (Cons d ds)
  then show ?case
    by (cases "son t n d") (auto simp: find_in_sons sons_props dest: son_in)
qed simp

text \<open>Every node is at the end of one walk only.\<close>

lemma walk_inj:
  "tree_wf t \<Longrightarrow> walk t 0 p = Some k \<Longrightarrow> walk t 0 q = Some k \<Longrightarrow> p = q"
proof (induction p arbitrary: k q rule: rev_induct)
  case Nil
  have "t_parent (t_nodes t ! 0) = None" using Nil(1) by (auto simp: tree_wf_def)
  with Nil show ?case
    by (cases q rule: rev_cases) (auto simp: walk_append bind_eq_Some_conv sons_props dest: son_in)
next
  case (snoc d p)
  from snoc.prems(2) obtain n where n: "walk t 0 p = Some n" "son t n d = Some k"
    by (auto simp: walk_append bind_eq_Some_conv)
  note k = son_in [OF n(2)]
  show ?case
  proof (cases q rule: rev_cases)
    case Nil
    with snoc.prems k show ?thesis by (auto simp: sons_props tree_wf_def)
  next
    case (snoc q' e)
    with snoc.prems obtain m where m: "walk t 0 q' = Some m" "son t m e = Some k"
      by (auto simp: walk_append bind_eq_Some_conv)
    note son_in [OF m(2)]
    with k have "m = n" "e = d" by (auto simp: sons_props)
    with snoc.IH [OF snoc.prems(1) n(1)] m(1) snoc show ?thesis by simp
  qed
qed

lemma added_walk:
  assumes "tree_wf t" "walk t 0 p = Some n" "son t n d = None" "added_to t n d t'"
  shows "walk t' 0 q = (if q = p @ [d] then Some (length (t_nodes t)) else walk t 0 q)"
proof (induction q rule: rev_induct)
  case Nil
  show ?case by simp
next
  case (snoc e q)
  let ?k = "length (t_nodes t)"
  note a = assms(4) [unfolded added_to_def Let_def]
  have son': "son t' m e = (if m = n \<and> e = d then Some ?k else son t m e)" for m
  proof -
    have "find (\<lambda>s. t_data (t_nodes t' ! s) = e) (sons t m) = son t m e" for m
      unfolding son_def by (rule find_cong) (use a in \<open>auto simp: sons_props\<close>)
    moreover have "find P (xs @ [x]) = (case find P xs of None \<Rightarrow> if P x then Some x else None | Some y \<Rightarrow> Some y)"
      for P :: "nat \<Rightarrow> bool" and xs x by (induction xs) auto
    ultimately show ?thesis using a assms(3) by (auto simp: son_def [of t'] split: option.splits)
  qed
  have beyond: "son t ?k e = None" using no_sons_beyond [OF assms(1), of ?k] by (simp add: son_def)
  have n: "n < ?k" using walk_less [OF assms(2)] assms(1) by (simp add: tree_wf_def)
  show ?case
  proof (cases "q = p @ [d]")
    case True
    with snoc.IH have "walk t' 0 q = Some ?k" by simp
    moreover have "walk t 0 q = None" using True assms(2,3) by (simp add: walk_append)
    moreover have "q \<noteq> p" using True by simp
    ultimately show ?thesis using beyond n by (simp add: walk_append [of _ _ q] son')
  next
    case False
    with snoc.IH have q: "walk t' 0 q = walk t 0 q" by simp
    show ?thesis
    proof (cases "walk t 0 q")
      case None
      with q assms(2) show ?thesis by (auto simp: walk_append)
    next
      case (Some m)
      have mn: "m = n \<longleftrightarrow> q = p" using walk_inj [OF assms(1) Some, of p] assms(2) Some by auto
      have "walk t' 0 (q @ [e]) = son t' m e" "walk t 0 (q @ [e]) = son t m e"
        using q Some by (simp_all add: walk_append)
      with mn show ?thesis by (simp add: son')
    qed
  qed
qed

definition tree_ok :: "wutree \<Rightarrow> bool" where
  "tree_ok t \<longleftrightarrow> tree_wf t \<and> (\<forall>k < length (t_nodes t). \<exists>q. walk t 0 q = Some k)"

lemma tree_ok_card:
  assumes "tree_ok t"
  shows "finite (dom (walk t 0))" "card (dom (walk t 0)) = length (t_nodes t)"
proof -
  have wf: "tree_wf t" using assms by (simp add: tree_ok_def)
  have "bij_betw (\<lambda>q. the (walk t 0 q)) (dom (walk t 0)) {..<length (t_nodes t)}"
    unfolding bij_betw_def
  proof
    show "inj_on (\<lambda>q. the (walk t 0 q)) (dom (walk t 0))"
      using walk_inj [OF wf] by (auto simp: inj_on_def)
    have "0 < length (t_nodes t)" using wf by (auto simp: tree_wf_def)
    then show "(\<lambda>q. the (walk t 0 q)) ` dom (walk t 0) = {..<length (t_nodes t)}"
      using assms by (force simp: tree_ok_def image_iff dom_def dest: walk_less)
  qed
  then show "finite (dom (walk t 0))" "card (dom (walk t 0)) = length (t_nodes t)"
    by (simp_all add: bij_betw_finite bij_betw_same_card)
qed

section \<open>Registration keeps what is there\<close>

definition grows :: "wutree \<Rightarrow> wutree \<Rightarrow> bool" where
  "grows t t' \<longleftrightarrow> tree_ok t' \<and> pool_node_cnt t' = pool_node_cnt t \<and> length (t_nodes t) \<le> length (t_nodes t')
     \<and> (\<forall>q k. walk t 0 q = Some k \<longrightarrow> walk t' 0 q = Some k)
     \<and> (\<forall>j < length (t_nodes t). t_ext (t_nodes t' ! j) = t_ext (t_nodes t ! j))"

lemma grows_refl: "tree_ok t \<Longrightarrow> grows t t" by (simp add: grows_def)

lemma grows_trans: "grows t t1 \<Longrightarrow> grows t1 t2 \<Longrightarrow> grows t t2"
  by (auto simp: grows_def)

lemma added_grows:
  assumes "tree_ok t" "walk t 0 p = Some n" "son t n d = None" "tree_wf t'" "added_to t n d t'"
  shows "grows t t'" "dom (walk t' 0) = insert (p @ [d]) (dom (walk t 0))"
    "walk t' 0 (p @ [d]) = Some (length (t_nodes t))"
proof -
  have wf: "tree_wf t" using assms(1) by (simp add: tree_ok_def)
  note w = added_walk [OF wf assms(2,3,5)]
  note a = assms(5) [unfolded added_to_def Let_def]
  have pd: "walk t 0 (p @ [d]) = None" using assms(2,3) by (simp add: walk_append)
  have "\<exists>q. walk t' 0 q = Some k" if "k < length (t_nodes t')" for k
  proof (cases "k = length (t_nodes t)")
    case False
    with that a have "k < length (t_nodes t)" by simp
    with assms(1) obtain q where "walk t 0 q = Some k" by (auto simp: tree_ok_def)
    with pd have "walk t' 0 q = Some k" by (auto simp: w)
    then show ?thesis by blast
  qed (auto simp: w)
  with assms(4) have "tree_ok t'" by (simp add: tree_ok_def)
  then show "grows t t'" using a pd by (auto simp: grows_def w)
  show "dom (walk t' 0) = insert (p @ [d]) (dom (walk t 0))" by (auto simp: w)
  show "walk t' 0 (p @ [d]) = Some (length (t_nodes t))" by (simp add: w)
qed

text \<open>The prefixes of \<open>p @ ds\<close> from \<open>p\<close> on.\<close>

definition prefixes_from :: "u32 list \<Rightarrow> u32 list \<Rightarrow> u32 list set" where
  "prefixes_from p ds = {p @ es | es. prefix es ds}"

lemma prefixes_from_Nil [simp]: "prefixes_from p [] = {p}" by (simp add: prefixes_from_def)

lemma prefixes_from_Cons: "prefixes_from p (d # ds) = insert p (prefixes_from (p @ [d]) ds)"
  by (auto simp: prefixes_from_def prefix_Cons)

text \<open>The loop adds the prefixes that are missing, or the pool runs out before the last of them.\<close>

definition loop_result :: "wutree \<Rightarrow> u32 list \<Rightarrow> u32 list \<Rightarrow> nat option \<Rightarrow> int \<times> nat option \<times> wutree \<Rightarrow> bool" where
  "loop_result t p ds added = (\<lambda>(rc, added', t'). grows t t'
     \<and> (if rc = 0
        then dom (walk t' 0) = dom (walk t 0) \<union> prefixes_from p ds
          \<and> (walk t 0 (p @ ds) \<noteq> None \<longrightarrow> added' = added)
          \<and> (walk t 0 (p @ ds) = None \<longrightarrow> (\<exists>k. added' = Some k \<and> walk t' 0 (p @ ds) = Some k \<and> length (t_nodes t) \<le> k))
        else rc = -1 \<and> length (t_nodes t') = pool_node_cnt t \<and> walk t' 0 (p @ ds) = None
          \<and> dom (walk t' 0) \<subseteq> dom (walk t 0) \<union> prefixes_from p ds))"

lemma register_loop_spec:
  assumes "tree_ok t" "walk t 0 p = Some n"
  shows "\<exists>r. register_loop ds n added t = Some r \<and> loop_result t p ds added r"
  using assms
proof (induction ds arbitrary: p n added t)
  case Nil
  then have "dom (walk t 0) \<union> prefixes_from p [] = dom (walk t 0)" by auto
  with Nil show ?case by (simp add: grows_refl loop_result_def)
next
  case (Cons d ds)
  have wf: "tree_wf t" using Cons.prems(1) by (simp add: tree_ok_def)
  have n: "n < length (t_nodes t)" using walk_less [OF Cons.prems(2)] wf by (simp add: tree_wf_def)
  have p: "p \<in> dom (walk t 0)" using Cons.prems(2) by auto
  show ?case
  proof (cases "son t n d")
    case (Some m)
    then have w: "walk t 0 (p @ [d]) = Some m" using Cons.prems(2) by (simp add: walk_append)
    have all: "dom (walk t 0) \<union> prefixes_from p (d # ds) = dom (walk t 0) \<union> prefixes_from (p @ [d]) ds"
      using p by (auto simp: prefixes_from_Cons)
    have assoc: "(p @ [d]) @ ds = p @ d # ds" by simp
    have "register_loop (d # ds) n added t = register_loop ds m added t"
      by (simp add: find_in_sons [OF wf n] Some)
    moreover have "loop_result t p (d # ds) added r" if "loop_result t (p @ [d]) ds added r" for r
      using that unfolding loop_result_def all assoc .
    ultimately show ?thesis using Cons.IH [OF Cons.prems(1) w, of added] by auto
  next
    case new: None
    have miss: "walk t 0 (p @ d # ds) = None" using Cons.prems(2) new by (simp add: walk_append)
    show ?thesis
    proof (cases "length (t_nodes t) < pool_node_cnt t")
      case True
      let ?k = "length (t_nodes t)"
      from add_son [OF wf n new True] obtain t1 t2 where
        get: "wutree_node_pool_get_node t = Some (?k, t1)"
        and add: "wutreenode_add_littleson n ?k (wutreenode_set_data ?k d t1) = Some t2"
        and t2: "tree_wf t2" "added_to t n d t2" by blast
      note g = added_grows [OF Cons.prems(1,2) new t2]
      have ok2: "tree_ok t2" using g(1) by (simp add: grows_def)
      have all: "dom (walk t 0) \<union> prefixes_from p (d # ds) = dom (walk t2 0) \<union> prefixes_from (p @ [d]) ds"
      proof -
        have "p @ [d] \<in> prefixes_from (p @ [d]) ds" by (auto simp: prefixes_from_def)
        then show ?thesis using p g(2) by (auto simp: prefixes_from_Cons)
      qed
      have step: "register_loop (d # ds) n added t = register_loop ds ?k (Some ?k) t2"
        by (simp add: find_in_sons [OF wf n] new get add)
      from Cons.IH [OF ok2 g(3), of "Some ?k"] obtain rc added' t' where
        IH: "register_loop ds ?k (Some ?k) t2 = Some (rc, added', t')" "loop_result t2 (p @ [d]) ds (Some ?k) (rc, added', t')"
        by auto
      have g2: "grows t2 t'" using IH(2) by (simp add: loop_result_def)
      have pool: "pool_node_cnt t2 = pool_node_cnt t" "?k \<le> length (t_nodes t2)"
        using g(1) by (auto simp: grows_def)
      have last: "walk t' 0 (p @ [d]) = Some ?k" using g(3) g2 by (auto simp: grows_def)
      have Nil: "ds = []" if "walk t2 0 (p @ d # ds) \<noteq> None"
        using that miss added_walk [OF wf Cons.prems(2) new t2(2), of "p @ d # ds"] by (auto split: if_splits)
      have "loop_result t p (d # ds) added (rc, added', t')"
        using IH(2) grows_trans [OF g(1) g2] pool miss last Nil all
        by (cases "walk t2 0 (p @ d # ds) = None") (auto simp: loop_result_def split: if_splits)
      with step IH(1) show ?thesis by auto
    next
      case False
      then have "wutree_node_pool_get_node t = None" "length (t_nodes t) = pool_node_cnt t"
        using wf by (auto simp: wutree_node_pool_get_node_def tree_wf_def)
      with Cons.prems(1) miss show ?thesis
        by (auto simp: find_in_sons [OF wf n] new grows_refl loop_result_def)
    qed
  qed
qed

section \<open>What the tree finds\<close>

text \<open>A registry: object per identifier. None of its identifiers is a prefix of another.\<close>

type_synonym registry = "(u32 list \<times> nat) list"

definition prefix_free :: "u32 list list \<Rightarrow> bool" where
  "prefix_free oids \<longleftrightarrow> distinct oids \<and> (\<forall>o1 \<in> set oids. o1 \<noteq> [] \<and> (\<forall>o2 \<in> set oids. prefix o1 o2 \<longrightarrow> o1 = o2))"

definition all_prefixes :: "u32 list list \<Rightarrow> u32 list set" where
  "all_prefixes oids = insert [] {p. \<exists>oid \<in> set oids. prefix p oid}"

definition tree_holds :: "wutree \<Rightarrow> registry \<Rightarrow> bool" where
  "tree_holds t reg \<longleftrightarrow> tree_ok t \<and> dom (walk t 0) = all_prefixes (map fst reg)
     \<and> (\<forall>(oid, obj) \<in> set reg. \<exists>k. walk t 0 oid = Some k \<and> t_ext (t_nodes t ! k) = Some obj)"

lemma finite_all_prefixes: "finite (all_prefixes oids)"
proof -
  have "finite (\<Union>oid \<in> set oids. set (prefixes oid))" by simp
  then show ?thesis by (rule rev_finite_subset [OF finite.insertI [of _ "[]"]]) (auto simp: all_prefixes_def)
qed

lemma init_holds:
  assumes "wu_agent_init name = Some t"
  shows "tree_holds t []" "pool_node_cnt t = NODE_SIZE"
proof -
  have t: "t = \<lparr> t_nodes = [node_zero\<lparr> t_data := name \<rparr>], pool_node_cnt = NODE_SIZE \<rparr>"
    using assms by (auto simp: wu_agent_init_def wutree_node_pool_get_node_def wutree_new_def wutree_set_root_def
        wutreenode_set_data_def upd_node_def node_zero_def split: if_splits)
  have sons: "sons t m = []" for m by (simp add: sons_def t node_zero_def)
  have son: "son t m d = None" for m d by (simp add: son_def sons)
  have "tree_wf t" by (simp add: tree_wf_def t [symmetric] sons) (simp add: t node_zero_def NODE_SIZE_def limit_simps)
  moreover have "walk t 0 q \<noteq> None \<longleftrightarrow> q = []" for q by (cases q) (simp_all add: son)
  ultimately show "tree_holds t []"
    by (auto simp: tree_holds_def tree_ok_def all_prefixes_def dom_def t intro!: exI [of _ "[]"])
  show "pool_node_cnt t = NODE_SIZE" by (simp add: t)
qed

lemma init_total: "\<exists>t. wu_agent_init name = Some t"
  by (simp add: wu_agent_init_def wutree_node_pool_get_node_def wutree_new_def NODE_SIZE_def limit_simps)

lemma upd_node_nth:
  "t_nodes (upd_node k f t) ! j = (if j = k \<and> k < length (t_nodes t) then f (t_nodes t ! j) else t_nodes t ! j)"
  by (cases "k < length (t_nodes t)") (auto simp: upd_node_def nth_list_update not_less list_update_beyond)

lemma ext_walk:
  "walk (upd_node k (\<lambda>n. n\<lparr> t_ext := e \<rparr>) t) = walk t" "tree_wf (upd_node k (\<lambda>n. n\<lparr> t_ext := e \<rparr>) t) = tree_wf t"
  "length (t_nodes (upd_node k (\<lambda>n. n\<lparr> t_ext := e \<rparr>) t)) = length (t_nodes t)"
  "pool_node_cnt (upd_node k (\<lambda>n. n\<lparr> t_ext := e \<rparr>) t) = pool_node_cnt t"
proof -
  let ?t = "upd_node k (\<lambda>n. n\<lparr> t_ext := e \<rparr>) t"
  have same: "t_data (t_nodes ?t ! j) = t_data (t_nodes t ! j)" "t_parent (t_nodes ?t ! j) = t_parent (t_nodes t ! j)"
    "t_right (t_nodes ?t ! j) = t_right (t_nodes t ! j)" "t_eldest (t_nodes ?t ! j) = t_eldest (t_nodes t ! j)" for j
    by (simp_all add: upd_node_nth)
  show len: "length (t_nodes ?t) = length (t_nodes t)" "pool_node_cnt ?t = pool_node_cnt t" by (simp_all add: upd_node_def)
  have sons: "sons ?t = sons t" by (simp add: fun_eq_iff sons_def same len)
  have "son ?t = son t" by (simp add: fun_eq_iff son_def sons same)
  then show "walk ?t = walk t"
  proof (intro ext)
    fix n ds
    show "walk ?t n ds = walk t n ds" by (induction ds arbitrary: n) (simp_all add: \<open>son ?t = son t\<close>)
  qed
  have "linked ?t = linked t"
  proof
    fix ss show "linked ?t ss = linked t ss"
      by (rule iffI; erule linked_same; simp add: same)
  qed
  moreover have "t_nodes ?t = [] \<longleftrightarrow> t_nodes t = []" by (simp add: upd_node_def)
  ultimately show "tree_wf ?t = tree_wf t" by (simp add: tree_wf_def same len sons)
qed

lemma prefixes_from_root: "prefixes_from [] oid = {p. prefix p oid}"
  by (simp add: prefixes_from_def)

text \<open>One registration, as long as the pool has room for all prefixes.\<close>

lemma register_holds:
  assumes "tree_holds t reg" "prefix_free (map fst reg @ [oid])"
    "card (all_prefixes (map fst reg @ [oid])) \<le> pool_node_cnt t"
  shows "\<exists>t'. wu_agent_register obj oid t = Some (0, t') \<and> tree_holds t' (reg @ [(oid, obj)])
    \<and> pool_node_cnt t' = pool_node_cnt t"
proof -
  have ok: "tree_ok t" and dom: "dom (walk t 0) = all_prefixes (map fst reg)" using assms(1) by (simp_all add: tree_holds_def)
  have "oid \<notin> all_prefixes (map fst reg)" using assms(2) by (auto simp: prefix_free_def all_prefixes_def)
  with dom have new: "walk t 0 oid = None" by auto
  from register_loop_spec [OF ok, of "[]" 0 oid None] obtain rc added t1 where
    loop: "register_loop oid 0 None t = Some (rc, added, t1)" "loop_result t [] oid None (rc, added, t1)" by auto
  have all: "dom (walk t 0) \<union> prefixes_from [] oid = all_prefixes (map fst reg @ [oid])"
    by (auto simp: dom all_prefixes_def prefixes_from_root)
  have g: "grows t t1" using loop(2) by (simp add: loop_result_def)
  then have ok1: "tree_ok t1" and pool: "pool_node_cnt t1 = pool_node_cnt t" by (simp_all add: grows_def)
  have "rc = 0"
  proof (rule ccontr)
    assume "rc \<noteq> 0"
    with loop(2) all have f: "length (t_nodes t1) = pool_node_cnt t" "walk t1 0 oid = None"
      "dom (walk t1 0) \<subseteq> all_prefixes (map fst reg @ [oid])" by (simp_all add: loop_result_def)
    have "oid \<in> all_prefixes (map fst reg @ [oid])" by (auto simp: all_prefixes_def)
    with f have "dom (walk t1 0) \<subset> all_prefixes (map fst reg @ [oid])" by auto
    moreover have "finite (all_prefixes (map fst reg @ [oid]))" by (rule finite_all_prefixes)
    ultimately have "card (dom (walk t1 0)) < card (all_prefixes (map fst reg @ [oid]))" by (rule psubset_card_mono [rotated])
    with tree_ok_card(2) [OF ok1] f(1) assms(3) show False by simp
  qed
  with loop(2) new all obtain k where k: "added = Some k" "walk t1 0 oid = Some k" "length (t_nodes t) \<le> k"
    and dom1: "dom (walk t1 0) = all_prefixes (map fst reg @ [oid])"
    by (auto simp: loop_result_def)
  let ?t = "upd_node k (\<lambda>n. n\<lparr> t_ext := Some obj \<rparr>) t1"
  have len: "k < length (t_nodes t1)" using walk_less [OF k(2)] ok1 by (auto simp: tree_ok_def tree_wf_def)
  have "tree_holds ?t (reg @ [(oid, obj)])"
    unfolding tree_holds_def
  proof (intro conjI)
    show "tree_ok ?t" using ok1 by (simp add: tree_ok_def ext_walk)
    show "dom (walk ?t 0) = all_prefixes (map fst (reg @ [(oid, obj)]))" by (simp add: ext_walk dom1)
    have "\<exists>j. walk t1 0 o1 = Some j \<and> t_ext (t_nodes ?t ! j) = Some x" if "(o1, x) \<in> set reg" for o1 x
    proof -
      from that assms(1) obtain j where j: "walk t 0 o1 = Some j" "t_ext (t_nodes t ! j) = Some x"
        by (auto simp: tree_holds_def)
      have "j < length (t_nodes t)" using walk_less [OF j(1)] ok by (auto simp: tree_ok_def tree_wf_def)
      with g j k(3) show ?thesis by (auto simp: grows_def upd_node_def nth_list_update)
    qed
    moreover have "t_ext (t_nodes ?t ! k) = Some obj" using len by (simp add: upd_node_def)
    ultimately show "\<forall>(oid, obj) \<in> set (reg @ [(oid, obj)]). \<exists>k. walk ?t 0 oid = Some k \<and> t_ext (t_nodes ?t ! k) = Some obj"
      using k(2) by (auto simp: ext_walk)
  qed
  with loop(1) \<open>rc = 0\<close> k(1) pool show ?thesis by (simp add: wu_agent_register_def ext_walk)
qed

text \<open>All registrations; the code does not look at their return codes.\<close>

definition register_all :: "registry \<Rightarrow> wutree \<Rightarrow> wutree option" where
  "register_all reg t = foldM (\<lambda>t (oid, obj). do { (rc, t) \<leftarrow> wu_agent_register obj oid t; Some t }) t reg"

lemma register_all_holds:
  assumes "tree_holds t []" "prefix_free (map fst reg)" "card (all_prefixes (map fst reg)) \<le> pool_node_cnt t"
  shows "\<exists>t'. register_all reg t = Some t' \<and> tree_holds t' reg \<and> pool_node_cnt t' = pool_node_cnt t"
  using assms(2,3)
proof (induction reg rule: rev_induct)
  case Nil
  with assms(1) show ?case by (simp add: register_all_def)
next
  case (snoc e reg)
  obtain oid obj where e: "e = (oid, obj)" by (cases e)
  have "all_prefixes (map fst reg) \<subseteq> all_prefixes (map fst (reg @ [e]))" by (auto simp: all_prefixes_def)
  then have "card (all_prefixes (map fst reg)) \<le> pool_node_cnt t"
    using snoc.prems(2) card_mono [OF finite_all_prefixes] le_trans by blast
  moreover have "prefix_free (map fst reg)" using snoc.prems(1) by (auto simp: prefix_free_def)
  ultimately obtain t1 where t1: "register_all reg t = Some t1" "tree_holds t1 reg" "pool_node_cnt t1 = pool_node_cnt t"
    using snoc.IH by blast
  from register_holds [OF t1(2), of oid obj] snoc.prems t1(1,3) show ?case
    by (auto simp: register_all_def foldM_append e)
qed

lemma find_holds:
  assumes "tree_holds t reg" "prefix_free (map fst reg)"
  shows "find_oid_object oid t = Some (map_of reg oid)"
proof -
  have ok: "tree_ok t" and dom: "dom (walk t 0) = all_prefixes (map fst reg)" using assms(1) by (simp_all add: tree_holds_def)
  then have wf: "tree_wf t" and n: "0 < length (t_nodes t)" by (auto simp: tree_ok_def tree_wf_def)
  have loop: "find_loop oid 0 t = Some (walk t 0 oid)" by (rule find_loop_walk [OF wf n])
  have d: "distinct (map fst reg)" using assms(2) by (simp add: prefix_free_def)
  have leaf: "wutreenode_eldestson t k = None \<longleftrightarrow> (\<forall>e. walk t 0 (oid @ [e]) = None)" if "walk t 0 oid = Some k" for k
  proof -
    have "t_eldest (t_nodes t ! k) = (case sons t k of [] \<Rightarrow> None | s # _ \<Rightarrow> Some s)"
      using wf walk_less [OF that n] by (simp add: tree_wf_def)
    moreover have "walk t 0 (oid @ [e]) = son t k e" for e using that by (simp add: walk_append)
    moreover have "sons t k = [] \<longleftrightarrow> (\<forall>e. son t k e = None)" by (cases "sons t k") (auto simp: son_def find_None_iff)
    ultimately show ?thesis by (simp add: wutreenode_eldestson_def split: list.splits)
  qed
  show ?thesis
  proof (cases "map_of reg oid")
    case (Some obj)
    then have mem: "(oid, obj) \<in> set reg" by (rule map_of_SomeD)
    with assms(1) obtain k where k: "walk t 0 oid = Some k" "t_ext (t_nodes t ! k) = Some obj"
      by (auto simp: tree_holds_def)
    have "oid \<noteq> []" using mem assms(2) by (force simp: prefix_free_def)
    have "oid @ [e] \<notin> all_prefixes (map fst reg)" for e
    proof
      assume "oid @ [e] \<in> all_prefixes (map fst reg)"
      then obtain o2 where o2: "o2 \<in> set (map fst reg)" "prefix (oid @ [e]) o2" by (auto simp: all_prefixes_def)
      from o2(2) have "prefix oid o2" by (auto simp: prefix_def)
      with o2 mem assms(2) have "oid = o2" by (force simp: prefix_free_def)
      with o2(2) show False by simp
    qed
    with dom have "walk t 0 (oid @ [e]) = None" for e by auto
    with leaf [OF k(1)] k loop \<open>oid \<noteq> []\<close> Some show ?thesis
      by (simp add: find_oid_object_def find_node_def)
  next
    case None
    then have notin: "oid \<notin> set (map fst reg)" by (simp add: map_of_eq_None_iff)
    show ?thesis
    proof (cases "walk t 0 oid")
      case (Some k)
      show ?thesis
      proof (cases "oid = []")
        case False
        have "oid \<in> all_prefixes (map fst reg)" using dom Some by auto
        with False notin obtain o2 where o2: "o2 \<in> set (map fst reg)" "strict_prefix oid o2"
          by (auto simp: all_prefixes_def strict_prefix_def)
        then obtain e rest where "o2 = oid @ e # rest" by (auto elim: strict_prefixE')
        then have "oid @ [e] \<in> all_prefixes (map fst reg)" using o2(1) by (force simp: all_prefixes_def prefix_def)
        then have "walk t 0 (oid @ [e]) \<noteq> None" unfolding dom [symmetric] by (simp add: domIff)
        with leaf [OF Some] have "wutreenode_eldestson t k \<noteq> None" by auto
        with Some loop None show ?thesis by (simp add: find_oid_object_def find_node_def)
      qed (use None in \<open>simp add: find_oid_object_def find_node_def\<close>)
    qed (simp add: find_oid_object_def find_node_def loop None)
  qed
qed

text \<open>Registering identifiers of which none is a prefix of another, as long as the pool has a node for
  each prefix, gives a tree whose search finds the object of every registered identifier and nothing for
  any other one.\<close>

theorem tree_finds_registry:
  assumes "wu_agent_init name = Some t0" "prefix_free (map fst reg)" "card (all_prefixes (map fst reg)) \<le> NODE_SIZE"
  shows "\<exists>t. register_all reg t0 = Some t \<and> (\<forall>oid. find_oid_object oid t = Some (map_of reg oid))"
  using register_all_holds [OF init_holds(1) [OF assms(1)] assms(2)] find_holds [OF _ assms(2)] assms(3)
    init_holds(2) [OF assms(1)] by auto

end
