(* ===== verification/SnmpObjects.thy ===== *)
theory SnmpObjects
  imports FpCommands OidTree SnmpWire
begin

unbundle bit_operations_syntax

text \<open>
  The objects of the SNMP manager: \<^verbatim>\<open>src/xmux_snmp.c\<close> with its getters and setters, its table of
  objects and their registration in the tree, the heart beat and the housekeeping loop of \<^verbatim>\<open>main.c\<close>.
  The state holds the board and the buffers of the objects; what an object reads or writes past
  the end of its buffer has no meaning.
\<close>

section \<open>State\<close>

datatype getter = Pat_get | Pmt_get | Cat_get | Nit_get | Sdt_get | Eit_get | Pid_trans_info_get | Pid_trans_get
  | Net_get | User_get | Start_parse_psi_get | Psi_status_get | Mux_program_info_get | Tunner_param_get
  | Tunner_status_get | Bcm3033_param_get | Ci_info_get | Sel_src_get | Load_info_get | Heart_device_get
  | Test_data_size_get

datatype setter = Pat_set | Pmt_set | Cat_set | Nit_set | Sdt_set | Eit_set | Pid_trans_info_set | Pid_trans_set
  | Net_set | User_set | Start_parse_psi_set | Apply_psi_set | Mux_program_info_set | Tunner_param_set
  | Bcm3033_param_set | Ci_info_set | Sel_src_set | Load_info_set | Heart_device_set | Test_data_size_set

text \<open>An object: the identifier it was registered or asked for last, the length that counts, its functions.\<close>

record wu_oid_object =
  o_oid :: "u32 list"
  o_oid_len :: nat
  o_getter :: "getter option"
  o_setter :: "setter option"

definition LOAD_INFO_SIZE :: nat where "LOAD_INFO_SIZE = 34"
definition IP_INFO_SIZE :: nat where "IP_INFO_SIZE = 24"
definition HEART_DEVICE_SIZE :: nat where "HEART_DEVICE_SIZE = 4"
definition APPLY_PSI_SIZE :: nat where "APPLY_PSI_SIZE = 139"
definition TEST_BUF_SIZE :: nat where "TEST_BUF_SIZE = 1026"

text \<open>
  The flag of \<^verbatim>\<open>sg_mib_heartDevice\<close> and the table of \<^verbatim>\<open>sg_mib_trans\<close> are fields of the board; the rest
  is here. The clock counts seconds.
\<close>

record snmp_state =
  board_of :: board
  trans_head :: "u8 list"
  sg_mib_loadinfo :: "u8 list"
  heart_lock_state :: u8
  heart_mode :: u8
  sg_mib_IP_info :: "u8 list"
  sg_mib_User_info :: "u8 list"
  sg_mib_apply_psi :: "u8 list"
  parse_psi_status :: u8
  save_pid_trans_info :: bool
  heart_device_time :: nat
  test_buf :: "u8 list"
  objs :: "wu_oid_object list"
  oid_tree :: wutree
  clock :: nat

definition on_board :: "(board \<Rightarrow> board) \<Rightarrow> snmp_state \<Rightarrow> snmp_state" where
  "on_board f s = s\<lparr> board_of := f (board_of s) \<rparr>"

definition xmux_snmp_update_heart_device_time :: "snmp_state \<Rightarrow> snmp_state" where
  "xmux_snmp_update_heart_device_time s = s\<lparr> heart_device_time := clock s \<rparr>"

definition xmux_snmp_check_connection :: "snmp_state \<Rightarrow> snmp_state" where
  "xmux_snmp_check_connection s =
     (if \<not> snmp_connection_check (psi_parse (board_of s)) then s
      else if login_flag (board_of s) = SNMP_LOGIN_STATUS_SUCCESS \<and> clock s - heart_device_time s > 15
      then on_board (\<lambda>b. b\<lparr> login_flag := SNMP_LOGIN_STATUS_IDLE \<rparr>) s else s)"

definition set_connection_check :: "bool \<Rightarrow> board \<Rightarrow> board" where
  "set_connection_check on b = b\<lparr> psi_parse := (psi_parse b)\<lparr> snmp_connection_check := on \<rparr> \<rparr>"

definition disable_snmp_connection_check :: "snmp_state \<Rightarrow> snmp_state" where
  "disable_snmp_connection_check s = on_board (set_connection_check False) s"

definition enable_snmp_connection_check :: "snmp_state \<Rightarrow> snmp_state" where
  "enable_snmp_connection_check s = on_board (set_connection_check True) (xmux_snmp_update_heart_device_time s)"

section \<open>Values\<close>

text \<open>
  A getter gives its return code and the bytes its value points to. The value of a setter is a
  size and the bytes from its pointer to the end of the receive buffer.
\<close>

type_synonym get_result = "(int \<times> u8 list \<times> snmp_state) option"
type_synonym set_value = "u8 list \<times> nat"

definition value_bytes :: "set_value \<Rightarrow> u8 list option" where
  "value_bytes v = mem_read (fst v) 0 (snd v)"

text \<open>\<^verbatim>\<open>memcpy(dst, v->data, v->size)\<close> to the start of a buffer.\<close>

definition memcpy_value :: "u8 list \<Rightarrow> set_value \<Rightarrow> u8 list option" where
  "memcpy_value dst v = do { bs \<leftarrow> value_bytes v; mem_write dst 0 bs }"

definition chan_idx :: "u32 list \<Rightarrow> nat" where
  "chan_idx oid = unat (ucast (oid ! 6 - 1) :: u8)"

definition sub_idx :: "u32 list \<Rightarrow> nat" where
  "sub_idx oid = unat (ucast (oid ! 8 - 1) :: u8)"

section \<open>Sections\<close>

text \<open>The rows of a section array lie one behind the other.\<close>

definition section_get :: "u8 list list \<Rightarrow> nat \<Rightarrow> u8 list option" where
  "section_get rows k =
     do {
       h \<leftarrow> mem_read (concat rows) (k * SECTION_MAX_SIZE) 2;
       mem_read (concat rows) (k * SECTION_MAX_SIZE) (sg_mib_xxx_len h + 2)
     }"

definition section_set :: "u8 list list \<Rightarrow> nat \<Rightarrow> set_value \<Rightarrow> u8 list list option" where
  "section_set rows k v =
     do {
       bs \<leftarrow> value_bytes v;
       m \<leftarrow> mem_write (concat rows) (k * SECTION_MAX_SIZE) bs;
       Some (map (\<lambda>k. take SECTION_MAX_SIZE (drop (k * SECTION_MAX_SIZE) m)) [0..<length rows])
     }"

definition by_channel :: "nat \<Rightarrow> u8 list list \<Rightarrow> u8 list list list" where
  "by_channel n rows = map (\<lambda>c. take n (drop (c * n) rows)) [0..<CHANNEL_MAX_NUM + 1]"

definition board_mib :: "snmp_state \<Rightarrow> psi_mib" where
  "board_mib s = mib (psi_parse (board_of s))"

definition upd_mib :: "(psi_mib \<Rightarrow> psi_mib) \<Rightarrow> snmp_state \<Rightarrow> snmp_state" where
  "upd_mib f s = on_board (\<lambda>b. b\<lparr> psi_parse := (psi_parse b)\<lparr> mib := f (mib (psi_parse b)) \<rparr> \<rparr>) s"

definition got :: "snmp_state \<Rightarrow> u8 list option \<Rightarrow> get_result" where
  "got s r = do { bs \<leftarrow> r; Some (0, bs, s) }"

definition pat_get :: "u32 list \<Rightarrow> snmp_state \<Rightarrow> get_result" where
  "pat_get oid s = got s (section_get (sg_mib_pat (board_mib s)) (chan_idx oid))"

definition pat_set :: "u32 list \<Rightarrow> set_value \<Rightarrow> snmp_state \<Rightarrow> (int \<times> snmp_state) option" where
  "pat_set oid v s =
     do { rows \<leftarrow> section_set (sg_mib_pat (board_mib s)) (chan_idx oid) v; Some (0, upd_mib (\<lambda>m. m\<lparr> sg_mib_pat := rows \<rparr>) s) }"

definition pmt_get :: "u32 list \<Rightarrow> snmp_state \<Rightarrow> get_result" where
  "pmt_get oid s = got s (section_get (concat (sg_mib_pmt (board_mib s))) (chan_idx oid * PROGRAM_MAX_NUM + sub_idx oid))"

definition pmt_set :: "u32 list \<Rightarrow> set_value \<Rightarrow> snmp_state \<Rightarrow> (int \<times> snmp_state) option" where
  "pmt_set oid v s =
     do {
       rows \<leftarrow> section_set (concat (sg_mib_pmt (board_mib s))) (chan_idx oid * PROGRAM_MAX_NUM + sub_idx oid) v;
       Some (0, upd_mib (\<lambda>m. m\<lparr> sg_mib_pmt := by_channel PROGRAM_MAX_NUM rows \<rparr>) s)
     }"

definition cat_get :: "u32 list \<Rightarrow> snmp_state \<Rightarrow> get_result" where
  "cat_get oid s = got s (section_get (sg_mib_cat (board_mib s)) (chan_idx oid))"

definition cat_set :: "u32 list \<Rightarrow> set_value \<Rightarrow> snmp_state \<Rightarrow> (int \<times> snmp_state) option" where
  "cat_set oid v s =
     do { rows \<leftarrow> section_set (sg_mib_cat (board_mib s)) (chan_idx oid) v; Some (0, upd_mib (\<lambda>m. m\<lparr> sg_mib_cat := rows \<rparr>) s) }"

definition nit_get :: "u32 list \<Rightarrow> snmp_state \<Rightarrow> get_result" where
  "nit_get oid s = got s (section_get (sg_mib_nit (board_mib s)) (chan_idx oid))"

definition nit_set :: "u32 list \<Rightarrow> set_value \<Rightarrow> snmp_state \<Rightarrow> (int \<times> snmp_state) option" where
  "nit_set oid v s =
     do { rows \<leftarrow> section_set (sg_mib_nit (board_mib s)) (chan_idx oid) v; Some (0, upd_mib (\<lambda>m. m\<lparr> sg_mib_nit := rows \<rparr>) s) }"

definition sdt_get :: "u32 list \<Rightarrow> snmp_state \<Rightarrow> get_result" where
  "sdt_get oid s = got s (section_get (concat (sg_mib_sdt (board_mib s))) (chan_idx oid * SDT_SECTION_NUM + sub_idx oid))"

definition sdt_set :: "u32 list \<Rightarrow> set_value \<Rightarrow> snmp_state \<Rightarrow> (int \<times> snmp_state) option" where
  "sdt_set oid v s =
     do {
       rows \<leftarrow> section_set (concat (sg_mib_sdt (board_mib s))) (chan_idx oid * SDT_SECTION_NUM + sub_idx oid) v;
       Some (0, upd_mib (\<lambda>m. m\<lparr> sg_mib_sdt := by_channel SDT_SECTION_NUM rows \<rparr>) s)
     }"

definition eit_get :: "u32 list \<Rightarrow> snmp_state \<Rightarrow> get_result" where
  "eit_get oid s = got s (section_get (concat (sg_mib_eit (board_mib s))) (chan_idx oid * EIT_SECTION_NUM + sub_idx oid))"

definition eit_set :: "u32 list \<Rightarrow> set_value \<Rightarrow> snmp_state \<Rightarrow> (int \<times> snmp_state) option" where
  "eit_set oid v s =
     do {
       rows \<leftarrow> section_set (concat (sg_mib_eit (board_mib s))) (chan_idx oid * EIT_SECTION_NUM + sub_idx oid) v;
       Some (0, upd_mib (\<lambda>m. m\<lparr> sg_mib_eit := by_channel EIT_SECTION_NUM rows \<rparr>) s)
     }"

section \<open>PID translation records and PID map\<close>

definition trans_memory :: "snmp_state \<Rightarrow> u8 list" where
  "trans_memory s = concat (map trans_mem (sg_mib_pid_trans_info (board_of s)))"

definition set_trans_memory :: "u8 list \<Rightarrow> board \<Rightarrow> board" where
  "set_trans_memory m b =
     b\<lparr> sg_mib_pid_trans_info := map (\<lambda>c. trans_of_mem (drop (c * PID_TRANS_INFO_SIZE) m)) [0..<CHANNEL_MAX_NUM] \<rparr>"

definition trans_idx :: "wu_oid_object \<Rightarrow> nat" where
  "trans_idx obj = unat (ucast (o_oid obj ! (o_oid_len obj - 1) - 1) :: u8)"

definition pid_trans_info_get :: "wu_oid_object \<Rightarrow> snmp_state \<Rightarrow> get_result" where
  "pid_trans_info_get obj s = got s (pid_trans_info_read_data_snmp (trans_memory s) (trans_idx obj))"

definition pid_trans_info_set :: "wu_oid_object \<Rightarrow> set_value \<Rightarrow> snmp_state \<Rightarrow> (int \<times> snmp_state) option" where
  "pid_trans_info_set obj v s =
     do {
       bs \<leftarrow> value_bytes v;
       m \<leftarrow> pid_trans_info_write_data_snmp (trans_idx obj) bs (trans_memory s);
       Some (0, on_board (set_trans_memory m) s)
     }"

text \<open>The structure of the node: data length, rate, format, a reserved byte and the table.\<close>

definition trans_head_mem :: "u8 list \<Rightarrow> u32 \<Rightarrow> u8 \<Rightarrow> u8 list" where
  "trans_head_mem h rate fmt = take 2 h @ le32 rate @ [fmt, h ! 7]"

definition pid_trans_get :: "snmp_state \<Rightarrow> get_result" where
  "pid_trans_get s =
     (let sys = p_sys (g_eeprom_param (board_of s));
          s = s\<lparr> trans_head := trans_head_mem (trans_head s) (output_bitrate sys) (format sys) \<rparr>
      in Some (0, trans_head s @ map_mem (sg_mib_trans_table (board_of s)), s))"

definition apply_trans_node :: "u32 \<Rightarrow> u8 \<Rightarrow> board \<Rightarrow> board" where
  "apply_trans_node rate fmt b =
     (let b = xmux_config_save_pid_map_table (sg_mib_trans_table b) b;
          b = log_hw [PidMapWrite (pid_map_table_apply (sg_mib_trans_table b))] b
      in set_packet_format fmt (set_output_bitrate rate b))"

definition pid_trans_set :: "set_value \<Rightarrow> snmp_state \<Rightarrow> (int \<times> snmp_state) option" where
  "pid_trans_set v s =
     do {
       m \<leftarrow> memcpy_value (trans_head s @ map_mem (sg_mib_trans_table (board_of s))) v;
       let s = s\<lparr> trans_head := take 8 m, board_of := (board_of s)\<lparr> sg_mib_trans_table := map_of_mem (drop 8 m) \<rparr> \<rparr>;
       if \<not> pid_map_table_validate (sg_mib_trans_table (board_of s)) then Some (-1, s)
       else Some (0, on_board (apply_trans_node (of_le32 (drop 2 (trans_head s))) (trans_head s ! 6)) s)
     }"

section \<open>Network and user\<close>

definition net_get :: "snmp_state \<Rightarrow> get_result" where
  "net_get s =
     (let net = take (IP_INFO_SIZE - 2) (net_mem (p_net (g_eeprom_param (board_of s))));
          s = s\<lparr> sg_mib_IP_info := le16 (word_of_nat (IP_INFO_SIZE - 2)) @ net \<rparr>
      in Some (0, sg_mib_IP_info s, s))"

text \<open>The local parameters are not initialised; the store sets their check sum, the only field left.\<close>

definition net_set :: "set_value \<Rightarrow> snmp_state \<Rightarrow> (int \<times> snmp_state) option" where
  "net_set v s =
     do {
       m \<leftarrow> memcpy_value (sg_mib_IP_info s) v;
       let s = s\<lparr> sg_mib_IP_info := m \<rparr>;
       let net = net_of_mem (drop 2 m @ [net_csc (p_net (g_eeprom_param (board_of s)))]);
       Some (0, on_board (xmux_net_set net) s)
     }"

definition user_get :: "snmp_state \<Rightarrow> get_result" where
  "user_get s =
     (let s = s\<lparr> sg_mib_User_info := take LOAD_INFO_SIZE (user_mem (p_user (g_eeprom_param (board_of s)))) \<rparr>
      in Some (0, sg_mib_User_info s, s))"

definition set_user :: "u8 list \<Rightarrow> board \<Rightarrow> board" where
  "set_user bs b =
     save_user (upd_param (\<lambda>p. p\<lparr> p_user :=
       user_of_mem (bs @ [wu_csc bs, reserved (p_user p)]) \<rparr>) b)"

definition user_set :: "set_value \<Rightarrow> snmp_state \<Rightarrow> (int \<times> snmp_state) option" where
  "user_set v s =
     do {
       m \<leftarrow> memcpy_value (sg_mib_User_info s) v;
       let s = s\<lparr> sg_mib_User_info := m \<rparr>;
       Some (0, on_board (set_user m) s)
     }"

section \<open>PSI\<close>

definition start_parse_psi_get :: "snmp_state \<Rightarrow> get_result" where
  "start_parse_psi_get s = Some (0, [parse_psi_status s], s)"

definition request_parse :: "u8 \<Rightarrow> board \<Rightarrow> board" where
  "request_parse manager b = b\<lparr> worker := snd (psi_worker_request_parse_psi manager (worker b)) \<rparr>"

definition psi_worker_stop_parse_psi :: "board \<Rightarrow> board" where
  "psi_worker_stop_parse_psi b = b\<lparr> psi_parse := uvSI_psi_parse_stop (psi_parse b) \<rparr>"

definition start_parse_psi_set :: "set_value \<Rightarrow> snmp_state \<Rightarrow> (int \<times> snmp_state) option" where
  "start_parse_psi_set v s =
     (if snd v \<noteq> 2 then Some (-1, s)
      else do {
        bs \<leftarrow> value_bytes v;
        let oper = READ_U16_BE bs;
        if oper \<in> {0x3131, 0x55AA}
        then Some (0, on_board (request_parse MANAGEMENT_MODE_SNMP) (s\<lparr> parse_psi_status := parse_psi_status s + 1 \<rparr>))
        else if oper \<in> {0x3030, 0x0000} then Some (0, on_board psi_worker_stop_parse_psi s)
        else if oper = 0x3232 then Some (0, on_board (request_parse MANAGEMENT_MODE_FP) s)
        else Some (-1, s)
      })"

definition psi_status_get :: "snmp_state \<Rightarrow> get_result" where
  "psi_status_get s =
     (let st = All_Channel_Psi_Status (psi_parse (board_of s)) in Some (0, ch_s st # concat (tbl_s st), s))"

definition apply_psi_of_mem :: "u8 list \<Rightarrow> apply_psi_snmp_data" where
  "apply_psi_of_mem bs =
     \<lparr> magic = READ_U16 bs, other_table_flag = bs ! 2, pmt_flag = take 8 (drop 3 bs),
       pmt_pid_table = map (\<lambda>k. READ_U16 (drop (11 + 2 * k) bs)) [0..<PROGRAM_MAX_NUM] \<rparr>"

text \<open>The area is generated in place, its save requested, then the packets go to the FPGA with the
  check of the connection off.\<close>

definition apply_sections :: "u8 list \<Rightarrow> board \<Rightarrow> board option" where
  "apply_sections bs b =
     do {
       (psi, nr) \<leftarrow> psi_gen_output_psi_from_sections (apply_psi_of_mem bs) (mib (psi_parse b)) (p_output_psi (g_eeprom_param b));
       let b = xmux_config_save_output_psi_data (upd_param (\<lambda>p. p\<lparr> p_output_psi := psi \<rparr>) b);
       writes \<leftarrow> psi_apply_from_output_psi psi;
       Some (log_hw (map (\<lambda>(howto, bytes). PsiBuffer howto bytes) writes) b)
     }"

definition request_save_trans :: "snmp_state \<Rightarrow> snmp_state" where
  "request_save_trans s =
     on_board (\<lambda>b. upd_param (\<lambda>p. p\<lparr> p_pid_trans_info := pid_trans_info_request_save (trans_memory s) \<rparr>) b)
       (s\<lparr> save_pid_trans_info := True \<rparr>)"

definition apply_psi_set :: "set_value \<Rightarrow> snmp_state \<Rightarrow> (int \<times> snmp_state) option" where
  "apply_psi_set v s =
     (if save_pid_trans_info s then Some (-1, s)
      else do {
        m \<leftarrow> memcpy_value (sg_mib_apply_psi s) v;
        let s = s\<lparr> sg_mib_apply_psi := m \<rparr>;
        b \<leftarrow> apply_sections m (board_of s);
        let s = enable_snmp_connection_check (disable_snmp_connection_check (s\<lparr> board_of := b \<rparr>));
        Some (0, request_save_trans s)
      })"

definition pid_trans_info_save_check :: "snmp_state \<Rightarrow> snmp_state option" where
  "pid_trans_info_save_check s =
     (if save_pid_trans_info s
      then do { b \<leftarrow> xmux_config_save_pid_trans_info_all (board_of s);
                Some (s\<lparr> save_pid_trans_info := False, board_of := b \<rparr>) }
      else Some s)"

definition mux_program_info_get :: "snmp_state \<Rightarrow> get_result" where
  "mux_program_info_get s =
     (let i = p_mux_prog_info (g_eeprom_param (board_of s))
      in Some (0, mux_mem i, on_board (xmux_config_save_mux_program_info i) s))"

definition mux_program_info_set :: "set_value \<Rightarrow> snmp_state \<Rightarrow> (int \<times> snmp_state) option" where
  "mux_program_info_set v s =
     do {
       m \<leftarrow> memcpy_value (mux_mem (p_mux_prog_info (g_eeprom_param (board_of s)))) v;
       Some (0, on_board (upd_param (\<lambda>p. p\<lparr> p_mux_prog_info := mux_of_mem m \<rparr>)) s)
     }"

section \<open>Tuners, modulator, CI card\<close>

text \<open>With eight channels setting a tuner does nothing but return.\<close>

definition tunner_id :: "u32 list \<Rightarrow> u32 \<Rightarrow> nat" where
  "tunner_id oid second = (if oid ! 6 = second then 1 else 0)"

definition tunner_param_get :: "u32 list \<Rightarrow> snmp_state \<Rightarrow> get_result" where
  "tunner_param_get oid s = Some (0, tunner_get_param (tunner_id oid 21), s)"

definition tunner_param_set :: "snmp_state \<Rightarrow> (int \<times> snmp_state) option" where
  "tunner_param_set s = Some (0, s)"

definition tunner_status_get :: "u32 list \<Rightarrow> snmp_state \<Rightarrow> get_result" where
  "tunner_status_get oid s = Some (0, tunner_get_status (tunner_id oid 22), s)"

definition bcm3033_param_get :: "board_env \<Rightarrow> snmp_state \<Rightarrow> get_result" where
  "bcm3033_param_get env s =
     (let (param, b) = bcm3033_get_param env (board_of s) in Some (0, param, s\<lparr> board_of := b \<rparr>))"

text \<open>The next three setters do not look at the size of the value.\<close>

definition bcm3033_param_set :: "set_value \<Rightarrow> snmp_state \<Rightarrow> (int \<times> snmp_state) option" where
  "bcm3033_param_set v s =
     do { param \<leftarrow> mem_read (fst v) 0 BCM3033_PARAM_SIZE; Some (0, on_board (bcm3033_set_param param) s) }"

definition ci_info_get :: "board_env \<Rightarrow> snmp_state \<Rightarrow> get_result" where
  "ci_info_get env s =
     (let s = on_board (upd_param (\<lambda>p. p\<lparr> p_misc := (p_misc p)\<lparr> ci_info :=
                (ci_info (p_misc p))\<lparr> ci_name := env_ci_name env \<rparr> \<rparr> \<rparr>)) s
      in Some (0, ci_mem (ci_info (p_misc (g_eeprom_param (board_of s)))), s))"

definition ci_info_set :: "set_value \<Rightarrow> snmp_state \<Rightarrow> (int \<times> snmp_state) option" where
  "ci_info_set v s =
     do {
       bs \<leftarrow> mem_read (fst v) 0 21;
       let ci = ci_of_mem bs;
       Some (0, on_board (\<lambda>b. xmux_ci_info_update ci (xmux_config_save_ci_info ci b)) s)
     }"

definition sel_src_get :: "snmp_state \<Rightarrow> get_result" where
  "sel_src_get s = Some (0, [sel_src (p_misc (g_eeprom_param (board_of s)))], s)"

definition sel_src_set :: "set_value \<Rightarrow> snmp_state \<Rightarrow> (int \<times> snmp_state) option" where
  "sel_src_set v s =
     do {
       bs \<leftarrow> mem_read (fst v) 0 1;
       Some (0, on_board (\<lambda>b. xmux_config_save_misc_param
         (upd_param (\<lambda>p. p\<lparr> p_misc := (p_misc p)\<lparr> sel_src := bs ! 0 \<rparr> \<rparr>) b)) s)
     }"

section \<open>Login and heart beat\<close>

definition set_login_flag :: "u16 \<Rightarrow> snmp_state \<Rightarrow> snmp_state" where
  "set_login_flag f s = on_board (\<lambda>b. b\<lparr> login_flag := f \<rparr>) s"

definition load_info_get :: "snmp_state \<Rightarrow> get_result" where
  "load_info_get s = Some (0, sg_mib_loadinfo s, s)"

text \<open>Name and password are compared for the length both sides agree on, read where they lie.\<close>

definition credential_differs :: "u8 list \<Rightarrow> u8 list \<Rightarrow> nat \<Rightarrow> bool option" where
  "credential_differs given own off =
     (if given ! off \<noteq> own ! off then Some True
      else do {
        a \<leftarrow> mem_read given (off + 1) (unat (given ! off));
        b \<leftarrow> mem_read own (off + 1) (unat (given ! off));
        Some (a \<noteq> b)
      })"

definition load_info_set :: "set_value \<Rightarrow> snmp_state \<Rightarrow> (int \<times> snmp_state) option" where
  "load_info_set v s =
     do {
       m \<leftarrow> memcpy_value (sg_mib_loadinfo s) v;
       let s = s\<lparr> sg_mib_loadinfo := m \<rparr>;
       if management_mode (board_of s) = MANAGEMENT_MODE_FP then Some (-1, set_login_flag SNMP_LOGIN_STATUS_BUSY s)
       else do {
         let own = user_mem (p_user (g_eeprom_param (board_of s)));
         bad_user \<leftarrow> credential_differs m own 0;
         if bad_user then Some (-1, set_login_flag SNMP_LOGIN_STATUS_USER_NAME_INVALID s)
         else do {
           bad_password \<leftarrow> credential_differs m own 17;
           if bad_password then Some (-1, set_login_flag SNMP_LOGIN_STATUS_PASSWORD_INVALID s)
           else Some (0, set_login_flag SNMP_LOGIN_STATUS_SUCCESS s)
         }
       }
     }"

definition heart_mem :: "snmp_state \<Rightarrow> u8 list" where
  "heart_mem s = le16 (login_flag (board_of s)) @ [heart_lock_state s, heart_mode s]"

definition heart_device_get :: "board_env \<Rightarrow> snmp_state \<Rightarrow> get_result" where
  "heart_device_get env s =
     (let s = (if login_flag (board_of s) = SNMP_LOGIN_STATUS_SUCCESS
               then let (rc, ts_status) = env_ts_status env
                    in s\<lparr> heart_mode := management_mode (board_of s),
                          heart_lock_state := (if rc \<ge> 0 then ucast ts_status else 0) AND CHANNEL_ALL_BITMAP \<rparr>
               else s\<lparr> heart_mode := 0, heart_lock_state := 0 \<rparr>)
      in Some (0, heart_mem s, xmux_snmp_update_heart_device_time s))"

definition heart_device_set :: "set_value \<Rightarrow> snmp_state \<Rightarrow> (int \<times> snmp_state) option" where
  "heart_device_set v s =
     do {
       m \<leftarrow> memcpy_value (heart_mem s) v;
       Some (0, set_login_flag (READ_U16 m) (s\<lparr> heart_lock_state := m ! 2, heart_mode := m ! 3 \<rparr>))
     }"

definition test_data_size_get :: "snmp_state \<Rightarrow> get_result" where
  "test_data_size_get s =
     (let s = s\<lparr> test_buf := le16 1024 @ drop 2 (test_buf s) \<rparr> in Some (0, test_buf s, s))"

definition test_data_size_set :: "set_value \<Rightarrow> snmp_state \<Rightarrow> (int \<times> snmp_state) option" where
  "test_data_size_set v s = do { m \<leftarrow> memcpy_value (test_buf s) v; Some (0, s\<lparr> test_buf := m \<rparr>) }"

section \<open>Calling the functions of an object\<close>

fun call_getter :: "board_env \<Rightarrow> wu_oid_object \<Rightarrow> getter \<Rightarrow> snmp_state \<Rightarrow> get_result" where
  "call_getter env obj Pat_get s = pat_get (o_oid obj) s"
| "call_getter env obj Pmt_get s = pmt_get (o_oid obj) s"
| "call_getter env obj Cat_get s = cat_get (o_oid obj) s"
| "call_getter env obj Nit_get s = nit_get (o_oid obj) s"
| "call_getter env obj Sdt_get s = sdt_get (o_oid obj) s"
| "call_getter env obj Eit_get s = eit_get (o_oid obj) s"
| "call_getter env obj Pid_trans_info_get s = pid_trans_info_get obj s"
| "call_getter env obj Pid_trans_get s = pid_trans_get s"
| "call_getter env obj Net_get s = net_get s"
| "call_getter env obj User_get s = user_get s"
| "call_getter env obj Start_parse_psi_get s = start_parse_psi_get s"
| "call_getter env obj Psi_status_get s = psi_status_get s"
| "call_getter env obj Mux_program_info_get s = mux_program_info_get s"
| "call_getter env obj Tunner_param_get s = tunner_param_get (o_oid obj) s"
| "call_getter env obj Tunner_status_get s = tunner_status_get (o_oid obj) s"
| "call_getter env obj Bcm3033_param_get s = bcm3033_param_get env s"
| "call_getter env obj Ci_info_get s = ci_info_get env s"
| "call_getter env obj Sel_src_get s = sel_src_get s"
| "call_getter env obj Load_info_get s = load_info_get s"
| "call_getter env obj Heart_device_get s = heart_device_get env s"
| "call_getter env obj Test_data_size_get s = test_data_size_get s"

fun call_setter :: "wu_oid_object \<Rightarrow> setter \<Rightarrow> set_value \<Rightarrow> snmp_state \<Rightarrow> (int \<times> snmp_state) option" where
  "call_setter obj Pat_set v s = pat_set (o_oid obj) v s"
| "call_setter obj Pmt_set v s = pmt_set (o_oid obj) v s"
| "call_setter obj Cat_set v s = cat_set (o_oid obj) v s"
| "call_setter obj Nit_set v s = nit_set (o_oid obj) v s"
| "call_setter obj Sdt_set v s = sdt_set (o_oid obj) v s"
| "call_setter obj Eit_set v s = eit_set (o_oid obj) v s"
| "call_setter obj Pid_trans_info_set v s = pid_trans_info_set obj v s"
| "call_setter obj Pid_trans_set v s = pid_trans_set v s"
| "call_setter obj Net_set v s = net_set v s"
| "call_setter obj User_set v s = user_set v s"
| "call_setter obj Start_parse_psi_set v s = start_parse_psi_set v s"
| "call_setter obj Apply_psi_set v s = apply_psi_set v s"
| "call_setter obj Mux_program_info_set v s = mux_program_info_set v s"
| "call_setter obj Tunner_param_set v s = tunner_param_set s"
| "call_setter obj Bcm3033_param_set v s = bcm3033_param_set v s"
| "call_setter obj Ci_info_set v s = ci_info_set v s"
| "call_setter obj Sel_src_set v s = sel_src_set v s"
| "call_setter obj Load_info_set v s = load_info_set v s"
| "call_setter obj Heart_device_set v s = heart_device_set v s"
| "call_setter obj Test_data_size_set v s = test_data_size_set v s"

section \<open>The objects and their registration\<close>

definition XMUX_ROOT_OID :: "u32 list" where "XMUX_ROOT_OID = [1, 3, 6, 1, 3, 5188]"

definition mk_obj :: "u32 list \<Rightarrow> getter option \<Rightarrow> setter option \<Rightarrow> wu_oid_object" where
  "mk_obj tail g st =
     \<lparr> o_oid = XMUX_ROOT_OID @ tail @ replicate (WU_OID_MAX_SIZE - 6 - length tail) 0, o_oid_len = 6 + length tail,
       o_getter = g, o_setter = st \<rparr>"

text \<open>The EIT object has the functions of the SDT object.\<close>

definition chan_oid_objs :: "wu_oid_object list" where
  "chan_oid_objs =
     [mk_obj [1, 1] (Some Pat_get) (Some Pat_set), mk_obj [1, 2, 1] (Some Pmt_get) (Some Pmt_set),
      mk_obj [1, 3] (Some Cat_get) (Some Cat_set), mk_obj [1, 4] (Some Nit_get) (Some Nit_set),
      mk_obj [1, 5, 1] (Some Sdt_get) (Some Sdt_set), mk_obj [1, 6, 1] (Some Sdt_get) (Some Sdt_set)]"

definition pid_trans_info_obj :: wu_oid_object where
  "pid_trans_info_obj = mk_obj [12, 1] (Some Pid_trans_info_get) (Some Pid_trans_info_set)"

definition solo_oid_objs :: "wu_oid_object list" where
  "solo_oid_objs =
     [mk_obj [11] (Some Pid_trans_get) (Some Pid_trans_set), mk_obj [13] (Some Net_get) (Some Net_set),
      mk_obj [14] (Some User_get) (Some User_set), mk_obj [15] (Some Start_parse_psi_get) (Some Start_parse_psi_set),
      mk_obj [16] (Some Psi_status_get) None, mk_obj [17] None (Some Apply_psi_set),
      mk_obj [18] (Some Mux_program_info_get) (Some Mux_program_info_set),
      mk_obj [19] (Some Tunner_param_get) (Some Tunner_param_set), mk_obj [20] (Some Tunner_status_get) None,
      mk_obj [21] (Some Tunner_param_get) (Some Tunner_param_set), mk_obj [22] (Some Tunner_status_get) None,
      mk_obj [23] (Some Bcm3033_param_get) (Some Bcm3033_param_set), mk_obj [24] (Some Ci_info_get) (Some Ci_info_set),
      mk_obj [25] (Some Sel_src_get) (Some Sel_src_set), mk_obj [100] (Some Load_info_get) (Some Load_info_set),
      mk_obj [101] (Some Heart_device_get) (Some Heart_device_set),
      mk_obj [200] (Some Test_data_size_get) (Some Test_data_size_set)]"

definition snmp_objs :: "wu_oid_object list" where
  "snmp_objs = chan_oid_objs @ [pid_trans_info_obj] @ solo_oid_objs"

text \<open>Objects 0 to 5 are those of a channel, 6 the translation record, the rest are single.\<close>

type_synonym registration = "wu_oid_object list \<times> wutree"

definition set_oid :: "nat \<Rightarrow> nat \<Rightarrow> nat \<Rightarrow> wu_oid_object list \<Rightarrow> wu_oid_object list" where
  "set_oid k pos i os = os[k := (os ! k)\<lparr> o_oid := (o_oid (os ! k))[pos := word_of_nat (i + 1)] \<rparr>]"

definition wu_snmp_agent_register :: "nat \<Rightarrow> registration \<Rightarrow> registration option" where
  "wu_snmp_agent_register k = (\<lambda>(os, t).
     do { (rc, t) \<leftarrow> wu_agent_register k (take (o_oid_len (os ! k)) (o_oid (os ! k))) t; Some (os, t) })"

definition register_numbered :: "nat \<Rightarrow> nat \<Rightarrow> nat \<Rightarrow> registration \<Rightarrow> registration option" where
  "register_numbered k pos n ot =
     foldM (\<lambda>(os, t) i. wu_snmp_agent_register k (set_oid k pos i os, t)) ot [0..<n]"

definition register_channel_pmt_oids :: "nat \<Rightarrow> registration \<Rightarrow> registration option" where
  "register_channel_pmt_oids k = register_numbered k 8 PROGRAM_MAX_NUM"

definition register_channel_sdt_oids :: "nat \<Rightarrow> registration \<Rightarrow> registration option" where
  "register_channel_sdt_oids k = register_numbered k 8 SDT_SECTION_NUM"

definition register_channel_eit_oids :: "nat \<Rightarrow> registration \<Rightarrow> registration option" where
  "register_channel_eit_oids k = register_numbered k 8 EIT_SECTION_NUM"

definition register_channel_oids :: "registration \<Rightarrow> nat \<Rightarrow> registration option" where
  "register_channel_oids ot c =
     foldM (\<lambda>(os, t) k.
       let os = set_oid k 6 c os; table = o_oid (os ! k) ! 7
       in if table = 2 then register_channel_pmt_oids k (os, t)
          else if table = 5 then register_channel_sdt_oids k (os, t)
          else if table = 6 then register_channel_eit_oids k (os, t)
          else wu_snmp_agent_register k (os, t)) ot [0..<6]"

definition register_input_trans_oids :: "registration \<Rightarrow> registration option" where
  "register_input_trans_oids = register_numbered 6 7 (CHANNEL_MAX_NUM * NODE_NUM)"

definition register_solo_oids :: "registration \<Rightarrow> registration option" where
  "register_solo_oids ot = foldM (\<lambda>ot k. wu_snmp_agent_register (7 + k) ot) ot [0..<17]"

definition xmux_snmp_register_all_oids :: "registration \<Rightarrow> registration option" where
  "xmux_snmp_register_all_oids ot =
     do {
       ot \<leftarrow> foldM register_channel_oids ot [0..<CHANNEL_MAX_NUM];
       ot \<leftarrow> register_channel_oids ot CHANNEL_MAX_NUM;
       ot \<leftarrow> register_input_trans_oids ot;
       register_solo_oids ot
     }"

section \<open>The registry\<close>

text \<open>What is registered, written down: identifier and object.\<close>

definition oid_of :: "nat list \<Rightarrow> u32 list" where
  "oid_of tail = XMUX_ROOT_OID @ map word_of_nat tail"

definition channel_registry :: "nat \<Rightarrow> registry" where
  "channel_registry c =
     [(oid_of [c + 1, 1], 0)] @ map (\<lambda>i. (oid_of [c + 1, 2, i + 1], 1)) [0..<PROGRAM_MAX_NUM]
     @ [(oid_of [c + 1, 3], 2)] @ [(oid_of [c + 1, 4], 3)]
     @ map (\<lambda>i. (oid_of [c + 1, 5, i + 1], 4)) [0..<SDT_SECTION_NUM]
     @ map (\<lambda>i. (oid_of [c + 1, 6, i + 1], 5)) [0..<EIT_SECTION_NUM]"

definition solo_numbers :: "nat list" where
  "solo_numbers = [11, 13, 14, 15, 16, 17, 18, 19, 20, 21, 22, 23, 24, 25, 100, 101, 200]"

definition snmp_registry :: registry where
  "snmp_registry =
     concat (map channel_registry [0..<CHANNEL_MAX_NUM + 1])
     @ map (\<lambda>i. (oid_of [12, i + 1], 6)) [0..<CHANNEL_MAX_NUM * NODE_NUM]
     @ map (\<lambda>k. (oid_of [solo_numbers ! k], 7 + k)) [0..<17]"

text \<open>The objects during registration: their functions and lengths stay, of the identifiers only the
  numbers change that the loops set.\<close>

fun varies :: "nat \<Rightarrow> nat set" where
  "varies k = (if k < 6 then {6, 8} else if k = 6 then {7} else {})"

definition same_obj :: "nat \<Rightarrow> wu_oid_object \<Rightarrow> bool" where
  "same_obj k obj \<longleftrightarrow> o_getter obj = o_getter (snmp_objs ! k) \<and> o_setter obj = o_setter (snmp_objs ! k)
     \<and> o_oid_len obj = o_oid_len (snmp_objs ! k) \<and> length (o_oid obj) = WU_OID_MAX_SIZE
     \<and> (\<forall>p < o_oid_len obj. p \<notin> varies k \<longrightarrow> o_oid obj ! p = o_oid (snmp_objs ! k) ! p)"

definition same_objs :: "wu_oid_object list \<Rightarrow> bool" where
  "same_objs os \<longleftrightarrow> length os = 24 \<and> (\<forall>k < 24. same_obj k (os ! k))"

lemma snmp_objs_length: "length snmp_objs = 24"
  by (simp add: snmp_objs_def chan_oid_objs_def solo_oid_objs_def)

lemma same_objs_init: "same_objs snmp_objs"
proof -
  have "\<forall>obj \<in> set snmp_objs. length (o_oid obj) = WU_OID_MAX_SIZE" by code_simp
  then show ?thesis by (auto simp: same_objs_def same_obj_def snmp_objs_length)
qed

lemma varies_less: "p \<in> varies k \<Longrightarrow> p < WU_OID_MAX_SIZE"
  by (auto simp: WU_OID_MAX_SIZE_def split: if_splits)

lemma set_oid_same:
  assumes "same_objs os" "k < 24" "pos \<in> varies k"
  shows "same_objs (set_oid k pos i os)"
proof -
  have "same_obj k ((os ! k)\<lparr> o_oid := (o_oid (os ! k))[pos := x] \<rparr>)" for x
    using assms by (auto simp: same_objs_def same_obj_def nth_list_update_neq simp del: varies.simps)
      (metis nth_list_update_neq)
  with assms(1,2) show ?thesis by (auto simp: same_objs_def set_oid_def nth_list_update)
qed

lemma set_oid_nth:
  assumes "same_objs os" "k < 24" "pos \<in> varies k"
  shows "o_oid (set_oid k pos i os ! k) ! p = (if p = pos then word_of_nat (i + 1) else o_oid (os ! k) ! p)"
    "j \<noteq> k \<Longrightarrow> set_oid k pos i os ! j = os ! j"
  using assms varies_less [OF assms(3)]
  by (auto simp: same_objs_def same_obj_def set_oid_def nth_list_update_eq)

lemma registered_oid:
  assumes "same_objs os" "k < 24"
  shows "take (o_oid_len (os ! k)) (o_oid (os ! k)) =
    map (\<lambda>p. if p \<in> varies k then o_oid (os ! k) ! p else o_oid (snmp_objs ! k) ! p) [0..<o_oid_len (snmp_objs ! k)]"
proof (rule nth_equalityI)
  have "\<forall>obj \<in> set snmp_objs. o_oid_len obj \<le> WU_OID_MAX_SIZE" by code_simp
  then have l: "o_oid_len (snmp_objs ! k) \<le> WU_OID_MAX_SIZE" using assms(2) by (simp add: snmp_objs_length)
  have k: "same_obj k (os ! k)" using assms by (simp add: same_objs_def)
  then show "length (take (o_oid_len (os ! k)) (o_oid (os ! k))) =
      length (map (\<lambda>p. if p \<in> varies k then o_oid (os ! k) ! p else o_oid (snmp_objs ! k) ! p) [0..<o_oid_len (snmp_objs ! k)])"
    using l by (simp add: same_obj_def)
  fix p assume "p < length (take (o_oid_len (os ! k)) (o_oid (os ! k)))"
  then show "take (o_oid_len (os ! k)) (o_oid (os ! k)) ! p =
      map (\<lambda>p. if p \<in> varies k then o_oid (os ! k) ! p else o_oid (snmp_objs ! k) ! p) [0..<o_oid_len (snmp_objs ! k)] ! p"
    using k by (auto simp: same_obj_def)
qed

text \<open>A step of the registration that registers a list of identifiers, whatever the tree holds.\<close>

definition emits ::
  "(wu_oid_object list \<Rightarrow> bool) \<Rightarrow> (registration \<Rightarrow> registration option) \<Rightarrow> registry \<Rightarrow> (wu_oid_object list \<Rightarrow> bool) \<Rightarrow> bool" where
  "emits P f rs Q \<longleftrightarrow>
     (\<forall>os. P os \<longrightarrow> (\<exists>os'. Q os' \<and> (\<forall>t. f (os, t) = do { t \<leftarrow> register_all rs t; Some (os', t) })))"

lemma register_all_append: "register_all (rs @ rs') t = do { t \<leftarrow> register_all rs t; register_all rs' t }"
  by (simp add: register_all_def foldM_append)

lemma emits_bind: "emits P f rs Q \<Longrightarrow> emits Q g rs' R \<Longrightarrow> emits P (\<lambda>ot. f ot \<bind> g) (rs @ rs') R"
  unfolding emits_def by (fastforce simp: register_all_append)

lemma emits_fold:
  assumes "\<And>i. i \<in> set is \<Longrightarrow> emits P (f i) (rs i) P"
  shows "emits P (\<lambda>ot. foldM (\<lambda>ot i. f i ot) ot is) (concat (map rs is)) P"
  using assms
proof (induction "is")
  case Nil
  then show ?case by (auto simp: emits_def register_all_def)
next
  case (Cons i js)
  have "emits P (f i) (rs i) P" "emits P (\<lambda>ot. foldM (\<lambda>ot i. f i ot) ot js) (concat (map rs js)) P"
    using Cons by auto
  from emits_bind [OF this] show ?case by simp
qed

lemma emits_weaken: "emits P f rs Q \<Longrightarrow> (\<And>os. P' os \<Longrightarrow> P os) \<Longrightarrow> (\<And>os. Q os \<Longrightarrow> Q' os) \<Longrightarrow> emits P' f rs Q'"
  unfolding emits_def by meson

lemma register_emits:
  "(\<And>os. P os \<Longrightarrow> take (o_oid_len (os ! k)) (o_oid (os ! k)) = oid) \<Longrightarrow> emits P (wu_snmp_agent_register k) [(oid, k)] P"
  by (auto simp: emits_def wu_snmp_agent_register_def register_all_def case_prod_unfold)

lemma set_register_emits:
  assumes "\<And>os. P os \<Longrightarrow> Q (set_oid k pos i os)"
    "\<And>os. P os \<Longrightarrow> take (o_oid_len (set_oid k pos i os ! k)) (o_oid (set_oid k pos i os ! k)) = oid"
  shows "emits P (\<lambda>(os, t). wu_snmp_agent_register k (set_oid k pos i os, t)) [(oid, k)] Q"
  using assms by (auto simp: emits_def wu_snmp_agent_register_def register_all_def case_prod_unfold)

lemma emits_pre: "(\<And>os. P os \<Longrightarrow> P' (g os)) \<Longrightarrow> emits P' f rs Q \<Longrightarrow> emits P (\<lambda>(os, t). f (g os, t)) rs Q"
  by (auto simp: emits_def)

lemma emits_cong: "(\<And>os t. P os \<Longrightarrow> f (os, t) = g (os, t)) \<Longrightarrow> emits P g rs Q \<Longrightarrow> emits P f rs Q"
  unfolding emits_def by auto

definition in_channel :: "nat \<Rightarrow> nat \<Rightarrow> wu_oid_object list \<Rightarrow> bool" where
  "in_channel k c os \<longleftrightarrow> same_objs os \<and> o_oid (os ! k) ! 6 = word_of_nat (c + 1)"

lemma obj_shape:
  "map (\<lambda>k. (o_oid_len (snmp_objs ! k), take (o_oid_len (snmp_objs ! k)) (o_oid (snmp_objs ! k)))) [0..<24] =
     [(8, [1, 3, 6, 1, 3, 5188, 1, 1]), (9, [1, 3, 6, 1, 3, 5188, 1, 2, 1]), (8, [1, 3, 6, 1, 3, 5188, 1, 3]),
      (8, [1, 3, 6, 1, 3, 5188, 1, 4]), (9, [1, 3, 6, 1, 3, 5188, 1, 5, 1]), (9, [1, 3, 6, 1, 3, 5188, 1, 6, 1]),
      (8, [1, 3, 6, 1, 3, 5188, 12, 1])] @ map (\<lambda>n. (7, [1, 3, 6, 1, 3, 5188, word_of_nat n])) solo_numbers"
  by code_simp

lemma upt_8: "[0..<8] = [0, 1, 2, 3, 4, 5, 6, 7 :: nat]" "[0..<9] = [0, 1, 2, 3, 4, 5, 6, 7, 8 :: nat]"
  by (simp_all add: upt_rec)

lemma chan_oid:
  assumes "in_channel k c os" "k < 6"
  shows "take (o_oid_len (os ! k)) (o_oid (os ! k)) =
    (if k \<in> {1, 4, 5} then XMUX_ROOT_OID @ [word_of_nat (c + 1), word_of_nat (k + 1), o_oid (os ! k) ! 8]
     else oid_of [c + 1, k + 1])"
proof -
  have os: "same_objs os" and c: "o_oid (os ! k) ! 6 = word_of_nat (c + 1)" using assms(1) by (simp_all add: in_channel_def)
  have e: "snmp_objs ! 0 = mk_obj [1, 1] (Some Pat_get) (Some Pat_set)"
    "snmp_objs ! 1 = mk_obj [1, 2, 1] (Some Pmt_get) (Some Pmt_set)"
    "snmp_objs ! 2 = mk_obj [1, 3] (Some Cat_get) (Some Cat_set)"
    "snmp_objs ! 3 = mk_obj [1, 4] (Some Nit_get) (Some Nit_set)"
    "snmp_objs ! 4 = mk_obj [1, 5, 1] (Some Sdt_get) (Some Sdt_set)"
    "snmp_objs ! 5 = mk_obj [1, 6, 1] (Some Sdt_get) (Some Sdt_set)"
    by (simp_all add: snmp_objs_def chan_oid_objs_def)
  have k24: "k < 24" using assms(2) by simp
  consider "k = 0" | "k = 1" | "k = 2" | "k = 3" | "k = 4" | "k = 5" using assms(2) by linarith
  then show ?thesis
    unfolding registered_oid [OF os k24] using c
    by cases (simp_all add: e [unfolded One_nat_def] mk_obj_def XMUX_ROOT_OID_def oid_of_def upt_8 del: upt_Suc)
qed

lemma in_channel_set:
  "same_objs os \<Longrightarrow> k < 6 \<Longrightarrow> in_channel k c (set_oid k 6 c os)"
  "in_channel k c os \<Longrightarrow> k < 6 \<Longrightarrow> in_channel k c (set_oid k 8 i os)"
  by (simp_all add: in_channel_def set_oid_same set_oid_nth)

lemma numbered_emits:
  assumes "k \<in> {1, 4, 5}"
  shows "emits (in_channel k c) (register_numbered k 8 n) (map (\<lambda>i. (oid_of [c + 1, k + 1, i + 1], k)) [0..<n]) (in_channel k c)"
proof -
  have k: "k < 6" "k < 24" "(8 :: nat) \<in> varies k" using assms by auto
  have "emits (in_channel k c) (\<lambda>(os, t). wu_snmp_agent_register k (set_oid k 8 i os, t))
      [(oid_of [c + 1, k + 1, i + 1], k)] (in_channel k c)" for i
  proof (rule set_register_emits)
    fix os assume os: "in_channel k c os"
    then have same: "same_objs os" by (simp add: in_channel_def)
    from os k show s: "in_channel k c (set_oid k 8 i os)" by (simp add: in_channel_set)
    from chan_oid [OF s k(1)] set_oid_nth(1) [OF same k(2,3), of i 8] assms show
      "take (o_oid_len (set_oid k 8 i os ! k)) (o_oid (set_oid k 8 i os ! k)) = oid_of [c + 1, k + 1, i + 1]"
      by (auto simp: oid_of_def)
  qed
  from emits_fold [of "[0..<n]", OF this] show ?thesis
    by (simp add: register_numbered_def [abs_def] case_prod_unfold concat_map_singleton)
qed

text \<open>What object \<open>k\<close> of a channel registers.\<close>

definition table_registry :: "nat \<Rightarrow> nat \<Rightarrow> registry" where
  "table_registry c k =
     (if k = 1 then map (\<lambda>i. (oid_of [c + 1, k + 1, i + 1], k)) [0..<PROGRAM_MAX_NUM]
      else if k = 4 then map (\<lambda>i. (oid_of [c + 1, k + 1, i + 1], k)) [0..<SDT_SECTION_NUM]
      else if k = 5 then map (\<lambda>i. (oid_of [c + 1, k + 1, i + 1], k)) [0..<EIT_SECTION_NUM]
      else [(oid_of [c + 1, k + 1], k)])"

lemma channel_registry_tables: "channel_registry c = concat (map (table_registry c) [0..<6])"
  by (simp add: channel_registry_def table_registry_def upt_rec numeral_3_eq_3 eval_nat_numeral)

lemma channel_emits: "emits same_objs (\<lambda>ot. register_channel_oids ot c) (channel_registry c) same_objs"
proof -
  let ?step = "\<lambda>k (os, t). let os = set_oid k 6 c os; table = o_oid (os ! k) ! 7
       in if table = 2 then register_channel_pmt_oids k (os, t)
          else if table = 5 then register_channel_sdt_oids k (os, t)
          else if table = 6 then register_channel_eit_oids k (os, t)
          else wu_snmp_agent_register k (os, t)"
  have step: "emits same_objs (?step k) (table_registry c k) same_objs" if k: "k \<in> set [0..<6]" for k
  proof -
    let ?g = "if k = 1 then register_numbered k 8 PROGRAM_MAX_NUM else if k = 4 then register_numbered k 8 SDT_SECTION_NUM
      else if k = 5 then register_numbered k 8 EIT_SECTION_NUM else wu_snmp_agent_register k"
    have k6: "k < 6" "k < 24" "(6 :: nat) \<in> varies k" using k by auto
    have len: "(7 :: nat) < o_oid_len (snmp_objs ! k)" "o_oid (snmp_objs ! k) ! 7 = word_of_nat (k + 1)"
    proof -
      have "\<forall>k \<in> set [0..<6]. 7 < o_oid_len (snmp_objs ! k) \<and> o_oid (snmp_objs ! k) ! 7 = word_of_nat (k + 1)" by code_simp
      with k show "(7 :: nat) < o_oid_len (snmp_objs ! k)" "o_oid (snmp_objs ! k) ! 7 = word_of_nat (k + 1)" by blast+
    qed
    have table: "o_oid (set_oid k 6 c os ! k) ! 7 = word_of_nat (k + 1)" if os: "same_objs os" for os
      using set_oid_same [OF os k6(2,3), of c] k6 len by (auto simp: same_objs_def same_obj_def)
    have "emits (in_channel k c) ?g (table_registry c k) (in_channel k c)"
    proof (cases "k \<in> {1, 4, 5}")
      case True
      then show ?thesis using numbered_emits [OF True] by (auto simp: table_registry_def)
    next
      case False
      then have "emits (in_channel k c) (wu_snmp_agent_register k) [(oid_of [c + 1, k + 1], k)] (in_channel k c)"
        by (intro register_emits) (use chan_oid [OF _ k6(1)] in auto)
      with False show ?thesis by (simp add: table_registry_def)
    qed
    then have "emits (in_channel k c) ?g (table_registry c k) same_objs"
      by (rule emits_weaken) (simp_all add: in_channel_def)
    then have "emits same_objs (\<lambda>(os, t). ?g (set_oid k 6 c os, t)) (table_registry c k) same_objs"
      by (rule emits_pre [rotated]) (rule in_channel_set(1) [OF _ k6(1)])
    then show ?thesis
    proof (rule emits_cong [rotated])
      fix os t assume os: "same_objs os"
      consider "k = 0" | "k = 1" | "k = 2" | "k = 3" | "k = 4" | "k = 5" using k6(1) by linarith
      then show "?step k (os, t) = (\<lambda>(os, t). ?g (set_oid k 6 c os, t)) (os, t)"
        using table [OF os]
        by cases (simp_all add: Let_def register_channel_pmt_oids_def register_channel_sdt_oids_def
            register_channel_eit_oids_def)
    qed
  qed
  have "register_channel_oids ot c = foldM (\<lambda>ot k. ?step k ot) ot [0..<6]" for ot
    by (simp add: register_channel_oids_def case_prod_unfold)
  with emits_fold [of "[0..<6]" same_objs ?step "table_registry c", OF step] show ?thesis
    by (simp add: channel_registry_tables)
qed

lemma trans_emits:
  "emits same_objs register_input_trans_oids (map (\<lambda>i. (oid_of [12, i + 1], 6)) [0..<CHANNEL_MAX_NUM * NODE_NUM]) same_objs"
proof -
  have e: "snmp_objs ! 6 = mk_obj [12, 1] (Some Pid_trans_info_get) (Some Pid_trans_info_set)"
    by (simp add: snmp_objs_def chan_oid_objs_def pid_trans_info_obj_def)
  have "emits same_objs (\<lambda>(os, t). wu_snmp_agent_register 6 (set_oid 6 7 i os, t)) [(oid_of [12, i + 1], 6)] same_objs" for i
  proof (rule set_register_emits)
    fix os assume os: "same_objs os"
    then show s: "same_objs (set_oid 6 7 i os)" by (simp add: set_oid_same)
    show "take (o_oid_len (set_oid 6 7 i os ! 6)) (o_oid (set_oid 6 7 i os ! 6)) = oid_of [12, i + 1]"
      by (subst registered_oid [OF s])
         (simp_all add: e mk_obj_def upt_8 set_oid_nth(1) [OF os] oid_of_def XMUX_ROOT_OID_def del: upt_Suc)
  qed
  from emits_fold [of "[0..<CHANNEL_MAX_NUM * NODE_NUM]", OF this] show ?thesis
    by (simp add: register_input_trans_oids_def register_numbered_def [abs_def] case_prod_unfold concat_map_singleton)
qed

lemma solo_emits:
  "emits same_objs register_solo_oids (map (\<lambda>k. (oid_of [solo_numbers ! k], 7 + k)) [0..<17]) same_objs"
proof -
  have "emits same_objs (wu_snmp_agent_register (7 + k)) [(oid_of [solo_numbers ! k], 7 + k)] same_objs" if k: "k \<in> set [0..<17]" for k
  proof (rule register_emits)
    fix os assume os: "same_objs os"
    have "\<forall>k \<in> set [0..<17]. take (o_oid_len (snmp_objs ! (7 + k))) (o_oid (snmp_objs ! (7 + k))) = oid_of [solo_numbers ! k]"
      by code_simp
    with k have snmp: "take (o_oid_len (snmp_objs ! (7 + k))) (o_oid (snmp_objs ! (7 + k))) = oid_of [solo_numbers ! k]" by blast
    have "\<forall>obj \<in> set snmp_objs. o_oid_len obj \<le> WU_OID_MAX_SIZE \<and> length (o_oid obj) = WU_OID_MAX_SIZE" by code_simp
    then have l: "o_oid_len (snmp_objs ! (7 + k)) \<le> WU_OID_MAX_SIZE" "length (o_oid (snmp_objs ! (7 + k))) = WU_OID_MAX_SIZE"
      using k nth_mem [of "7 + k" snmp_objs] by (auto simp: snmp_objs_length)
    have v: "varies (7 + k) = {}" by simp
    have "same_obj (7 + k) (os ! (7 + k))" using os k by (simp add: same_objs_def)
    then have "take (o_oid_len (os ! (7 + k))) (o_oid (os ! (7 + k))) =
        take (o_oid_len (snmp_objs ! (7 + k))) (o_oid (snmp_objs ! (7 + k)))"
      unfolding same_obj_def v
      using l by (intro nth_equalityI) (auto simp: same_objs_init [unfolded same_objs_def same_obj_def])
    with snmp show "take (o_oid_len (os ! (7 + k))) (o_oid (os ! (7 + k))) = oid_of [solo_numbers ! k]" by simp
  qed
  from emits_fold [of "[0..<17]", OF this] show ?thesis
    by (simp add: register_solo_oids_def [abs_def] concat_map_singleton)
qed

lemma all_emits: "emits same_objs xmux_snmp_register_all_oids snmp_registry same_objs"
proof -
  have "emits same_objs (\<lambda>ot. foldM register_channel_oids ot [0..<CHANNEL_MAX_NUM])
      (concat (map channel_registry [0..<CHANNEL_MAX_NUM])) same_objs"
    using emits_fold [of "[0..<CHANNEL_MAX_NUM]" same_objs "\<lambda>c ot. register_channel_oids ot c", OF channel_emits] by simp
  from emits_bind [OF this emits_bind [OF channel_emits [of CHANNEL_MAX_NUM] emits_bind [OF trans_emits solo_emits]]]
  have "emits same_objs (\<lambda>ot. foldM register_channel_oids ot [0..<CHANNEL_MAX_NUM] \<bind>
      (\<lambda>ot. register_channel_oids ot CHANNEL_MAX_NUM \<bind> (\<lambda>ot. register_input_trans_oids ot \<bind> register_solo_oids)))
      snmp_registry same_objs"
    by (simp add: snmp_registry_def)
  then show ?thesis by (simp add: xmux_snmp_register_all_oids_def [abs_def])
qed

section \<open>The identifiers are prefix free and fit the pool\<close>

definition channel_tails :: "nat \<Rightarrow> nat list list" where
  "channel_tails c =
     [[c + 1, 1]] @ map (\<lambda>i. [c + 1, 2, i + 1]) [0..<PROGRAM_MAX_NUM] @ [[c + 1, 3]] @ [[c + 1, 4]]
     @ map (\<lambda>i. [c + 1, 5, i + 1]) [0..<SDT_SECTION_NUM] @ map (\<lambda>i. [c + 1, 6, i + 1]) [0..<EIT_SECTION_NUM]"

definition snmp_tails :: "nat list list" where
  "snmp_tails = concat (map channel_tails [0..<CHANNEL_MAX_NUM + 1])
     @ map (\<lambda>i. [12, i + 1]) [0..<CHANNEL_MAX_NUM * NODE_NUM] @ map (\<lambda>n. [n]) solo_numbers"

lemma registry_oids: "map fst snmp_registry = map oid_of snmp_tails"
proof -
  have "map (\<lambda>k. [solo_numbers ! k]) [0..<17] = map (\<lambda>n. [n]) solo_numbers" by code_simp
  then have "map (\<lambda>k. oid_of [solo_numbers ! k]) [0..<17] = map oid_of (map (\<lambda>n. [n]) solo_numbers)"
    by (metis (no_types, lifting) list.map_comp map_eq_conv comp_apply)
  moreover have "map fst (channel_registry c) = map oid_of (channel_tails c)" for c
    by (simp add: channel_registry_def channel_tails_def comp_def)
  ultimately show ?thesis
    by (simp add: snmp_registry_def snmp_tails_def map_concat comp_def)
qed

text \<open>The first two numbers say how many there are.\<close>

fun tail_len :: "nat list \<Rightarrow> nat" where
  "tail_len (a # b # _) = (if a \<le> 9 then if b \<in> {2, 5, 6} then 3 else 2 else if a = 12 then 2 else 1)"
| "tail_len (a # _) = (if a \<le> 9 \<or> a = 12 then 2 else 1)"
| "tail_len [] = 0"

lemma tails_shape: "t \<in> set snmp_tails \<Longrightarrow> t \<noteq> [] \<and> length t = tail_len t \<and> (\<forall>n \<in> set t. n \<le> 200)"
  by (auto simp: snmp_tails_def channel_tails_def limit_simps SDT_SECTION_NUM_def EIT_SECTION_NUM_def NODE_NUM_def
      solo_numbers_def)

lemma tails_prefix:
  assumes "t \<in> set snmp_tails" "u \<in> set snmp_tails" "prefix t u"
  shows "t = u"
proof -
  from assms(3) obtain w where u: "u = t @ w" by (auto simp: prefix_def)
  from tails_shape [OF assms(1)] obtain a r where t: "t = a # r" "length t = tail_len t" by (cases t) auto
  have "tail_len u = tail_len t"
  proof (cases r)
    case Nil
    with t have "tail_len [a] = 1" by simp
    then have "\<not> a \<le> 9" "a \<noteq> 12" by (simp_all split: if_splits)
    then show ?thesis unfolding u t(1) Nil by (cases w) simp_all
  next
    case (Cons b r')
    show ?thesis unfolding u t(1) Cons by simp
  qed
  then have "length u = length t" using tails_shape [OF assms(1)] tails_shape [OF assms(2)] by linarith
  with u show ?thesis by simp
qed

lemma tails_distinct: "distinct snmp_tails"
proof -
  have one: "distinct (channel_tails c)" for c
    by (auto simp: channel_tails_def distinct_map inj_on_def)
  have two: "set (channel_tails c) \<inter> set (channel_tails d) = {}" if "c \<noteq> d" for c d
    using that by (auto simp: channel_tails_def)
  have "distinct (concat (map channel_tails [0..<n]))" for n
  proof (induction n)
    case (Suc n)
    have "t \<notin> set (channel_tails n)" if "t \<in> set (concat (map channel_tails [0..<n]))" for t
    proof -
      from that obtain c where "c < n" "t \<in> set (channel_tails c)" by auto
      with two [of c n] show ?thesis by blast
    qed
    with Suc.IH one [of n] show ?case by (simp add: disjoint_iff)
  qed simp
  moreover have "distinct (map (\<lambda>i. [12, i + 1 :: nat]) [0..<n])" for n by (simp add: distinct_map inj_on_def)
  moreover have "distinct (map (\<lambda>n. [n]) solo_numbers)" by (simp add: solo_numbers_def)
  moreover have s: "length t = 1" if "t \<in> set (map (\<lambda>n. [n]) solo_numbers)" for t :: "nat list" using that by auto
  moreover have tr: "length t = 2 \<and> hd t = 12" if "t \<in> set (map (\<lambda>i. [12, i + 1 :: nat]) [0..<n])" for n t using that by auto
  moreover have ch: "length t \<ge> 2 \<and> hd t \<le> 9" if "t \<in> set (concat (map channel_tails [0..<CHANNEL_MAX_NUM + 1]))" for t
    using that by (auto simp: channel_tails_def limit_simps)
  moreover have "t \<notin> set (map (\<lambda>n. [n]) solo_numbers)" if "t \<in> set (map (\<lambda>i. [12, i + 1 :: nat]) [0..<n])" for n t
    using tr [OF that] s [of t] by auto
  moreover have "t \<notin> set (map (\<lambda>n. [n]) solo_numbers)" "t \<notin> set (map (\<lambda>i. [12, i + 1 :: nat]) [0..<n])"
    if "t \<in> set (concat (map channel_tails [0..<CHANNEL_MAX_NUM + 1]))" for n t
  proof -
    show "t \<notin> set (map (\<lambda>n. [n]) solo_numbers)" using ch [OF that] s [of t] by linarith
    show "t \<notin> set (map (\<lambda>i. [12, i + 1 :: nat]) [0..<n])" using ch [OF that] tr [of t n] by linarith
  qed
  ultimately show ?thesis unfolding snmp_tails_def distinct_append disjoint_iff set_append Un_iff by blast
qed

lemma oid_of_inj:
  assumes "\<forall>n \<in> set t. n \<le> 200" "\<forall>n \<in> set u. n \<le> 200"
  shows "prefix (oid_of t) (oid_of u) \<longleftrightarrow> prefix t u" "oid_of t = oid_of u \<longleftrightarrow> t = u"
proof -
  have inj: "inj_on (word_of_nat :: nat \<Rightarrow> u32) {..200}"
    by (rule inj_on_inverseI [where g = unat]) (simp add: unat_of_nat_less)
  have eq: "map word_of_nat a = (map word_of_nat b :: u32 list) \<longleftrightarrow> a = b"
    if "\<forall>n \<in> set a. n \<le> 200" "\<forall>n \<in> set b. n \<le> 200" for a b
    by (rule inj_on_map_eq_map [OF inj_on_subset [OF inj]]) (use that in auto)
  show "oid_of t = oid_of u \<longleftrightarrow> t = u" using eq [OF assms] by (simp add: oid_of_def)
  have "prefix (map word_of_nat t) (map word_of_nat u :: u32 list) \<longleftrightarrow> prefix t u"
  proof
    assume "prefix (map word_of_nat t) (map word_of_nat u :: u32 list)"
    then obtain w where w: "map word_of_nat u = map word_of_nat t @ (w :: u32 list)" by (auto simp: prefix_def)
    have "map word_of_nat t = (map word_of_nat (take (length t) u) :: u32 list)"
      unfolding take_map [symmetric] w by simp
    moreover have "\<forall>n \<in> set (take (length t) u). n \<le> 200" using assms(2) by (auto dest: in_set_takeD)
    ultimately have "t = take (length t) u" using eq assms(1) by blast
    then show "prefix t u" by (metis take_is_prefix)
  qed (rule map_mono_prefix)
  then show "prefix (oid_of t) (oid_of u) \<longleftrightarrow> prefix t u" by (simp add: oid_of_def)
qed

lemma registry_prefix_free: "prefix_free (map fst snmp_registry)"
proof -
  have "distinct (map oid_of snmp_tails)"
    using tails_distinct oid_of_inj(2) tails_shape by (auto simp: distinct_map inj_on_def)
  then show ?thesis
    unfolding registry_oids prefix_free_def
  proof (intro conjI ballI impI)
    fix o1 o2 assume o1: "o1 \<in> set (map oid_of snmp_tails)" and o2: "o2 \<in> set (map oid_of snmp_tails)"
    from o1 show "o1 \<noteq> []" by (auto simp: oid_of_def XMUX_ROOT_OID_def)
    assume p: "prefix o1 o2"
    from o1 o2 obtain t u where tu: "o1 = oid_of t" "t \<in> set snmp_tails" "o2 = oid_of u" "u \<in> set snmp_tails" by auto
    have "prefix t u" using p tails_shape [OF tu(2)] tails_shape [OF tu(4)] oid_of_inj(1) by (simp add: tu(1,3))
    with tails_prefix [OF tu(2,4)] tu show "o1 = o2" by simp
  qed
qed

definition prefix_tails :: "nat list list" where
  "prefix_tails = snmp_tails @ map (\<lambda>c. [c + 1]) [0..<9]
     @ concat (map (\<lambda>c. map (\<lambda>k. [c + 1, k]) [1..<7]) [0..<9]) @ [[12]]"

lemma tails_prefixes: "t \<in> set snmp_tails \<Longrightarrow> u \<in> set (prefixes t) \<Longrightarrow> u = [] \<or> u \<in> set prefix_tails"
proof -
  assume t: "t \<in> set snmp_tails" and u: "u \<in> set (prefixes t)"
  have "u = [] \<or> u = t \<or> u \<in> set (map (\<lambda>c. [c + 1]) [0..<9]
      @ concat (map (\<lambda>c. map (\<lambda>k. [c + 1, k]) [1..<7]) [0..<9]) @ [[12]])"
  proof -
    from t consider (chan) c where "c < 9" "t \<in> set (channel_tails c)" | (trans) i where "t = [12, i]"
      | (solo) n where "t = [n]"
      by (auto simp: snmp_tails_def limit_simps)
    then show ?thesis
    proof cases
      case chan
      then consider k where "k \<in> set [1..<7]" "t = [c + 1, k]" | k i where "k \<in> set [1..<7]" "t = [c + 1, k, i]"
        by (auto simp: channel_tails_def)
      then show ?thesis using u chan(1) by cases (auto simp: prefixes.simps image_iff)
    qed (use u in auto)
  qed
  with t show ?thesis by (auto simp: prefix_tails_def)
qed

lemma registry_fits: "card (all_prefixes (map fst snmp_registry)) \<le> NODE_SIZE"
proof -
  have "all_prefixes (map fst snmp_registry) \<subseteq> set (prefixes XMUX_ROOT_OID) \<union> oid_of ` set prefix_tails"
  proof
    fix p assume "p \<in> all_prefixes (map fst snmp_registry)"
    then consider "p = []" | t where "t \<in> set snmp_tails" "prefix p (oid_of t)"
      by (auto simp: all_prefixes_def registry_oids)
    then show "p \<in> set (prefixes XMUX_ROOT_OID) \<union> oid_of ` set prefix_tails"
    proof cases
      case 2
      show ?thesis
      proof (cases "prefix p XMUX_ROOT_OID")
        case False
        with 2(2) obtain us where us: "p = XMUX_ROOT_OID @ us" "prefix us (map word_of_nat t)" "us \<noteq> []"
          by (auto simp: oid_of_def prefix_append)
        from us(2) obtain ws where "map word_of_nat t = us @ ws" by (auto simp: prefix_def)
        then have "us = map word_of_nat (take (length us) t)" unfolding take_map [symmetric] by simp
        with us have p: "p = oid_of (take (length us) t)" "take (length us) t \<noteq> []" by (auto simp: oid_of_def)
        have "take (length us) t \<in> set (prefixes t)" by (simp add: take_is_prefix)
        with tails_prefixes [OF 2(1)] p(2) have "take (length us) t \<in> set prefix_tails" by blast
        then show ?thesis unfolding p(1) by blast
      qed simp
    qed simp
  qed
  then have "card (all_prefixes (map fst snmp_registry)) \<le> card (set (prefixes XMUX_ROOT_OID) \<union> oid_of ` set prefix_tails)"
    by (rule card_mono [rotated]) simp
  also have "\<dots> \<le> card (set (prefixes XMUX_ROOT_OID)) + card (oid_of ` set prefix_tails)" by (rule card_Un_le)
  also have "card (set (prefixes XMUX_ROOT_OID)) \<le> 7" using card_length [of "prefixes XMUX_ROOT_OID"] by (simp add: XMUX_ROOT_OID_def)
  also have "card (oid_of ` set prefix_tails) \<le> length prefix_tails"
    using card_image_le [of "set prefix_tails" oid_of] card_length [of prefix_tails] by simp
  also have "length prefix_tails = 865"
    by (simp add: prefix_tails_def snmp_tails_def channel_tails_def length_concat comp_def limit_simps SDT_SECTION_NUM_def
        EIT_SECTION_NUM_def NODE_NUM_def solo_numbers_def sum_list_triv)
  finally show ?thesis by (simp add: NODE_SIZE_def limit_simps)
qed

lemma registered_all:
  assumes "wu_agent_init name = Some t0"
  shows "\<exists>os t. xmux_snmp_register_all_oids (snmp_objs, t0) = Some (os, t) \<and> same_objs os
    \<and> (\<forall>oid. find_oid_object oid t = Some (map_of snmp_registry oid))"
proof -
  have fits: "card (all_prefixes (map fst snmp_registry)) \<le> pool_node_cnt t0"
    using registry_fits init_holds(2) [OF assms] by simp
  from register_all_holds [OF init_holds(1) [OF assms] registry_prefix_free fits] obtain t where
    t: "register_all snmp_registry t0 = Some t" "tree_holds t snmp_registry" by blast
  from all_emits same_objs_init obtain os where "same_objs os"
    "xmux_snmp_register_all_oids (snmp_objs, t0) = do { t \<leftarrow> register_all snmp_registry t0; Some (os, t) }"
    unfolding emits_def by blast
  with t find_holds [OF t(2) registry_prefix_free] show ?thesis by simp
qed

text \<open>C30: After start-up the agent's tree finds, for each identifier of the manager (sections of eight inputs
  and the output, nodes of the PID translation records, single objects), its object, and none for
  any other identifier; none of the identifiers is a prefix of another, and the pool has room for all.\<close>

theorem registered_objects_found:
  assumes "wu_agent_init name = Some t0"
  shows "\<exists>os t. xmux_snmp_register_all_oids (snmp_objs, t0) = Some (os, t) \<and> same_objs os
    \<and> (\<forall>oid. find_oid_object oid t = Some (map_of snmp_registry oid))
    \<and> prefix_free (map fst snmp_registry) \<and> card (all_prefixes (map fst snmp_registry)) \<le> NODE_SIZE"
  using registered_all [OF assms] registry_prefix_free registry_fits by blast

theorem registered_objects_found_witness:
  "\<exists>t0 os t. wu_agent_init 0 = Some t0 \<and> xmux_snmp_register_all_oids (snmp_objs, t0) = Some (os, t)
    \<and> find_oid_object (oid_of [3, 2, 64]) t = Some (map_of snmp_registry (oid_of [3, 2, 64]))"
proof -
  obtain t0 where "wu_agent_init 0 = Some t0" using init_total by blast
  with registered_objects_found [OF this] show ?thesis by blast
qed

end
