(* ===== verification/SnmpAgent.thy ===== *)
theory SnmpAgent
  imports SnmpWire SnmpObjects
begin

unbundle bit_operations_syntax

text \<open>
  The SNMP agent: the handlers and the receiving loop of \<^verbatim>\<open>src/wu_snmp_lib.c\<close> over the packets of
  \<^verbatim>\<open>SnmpWire\<close> and the objects of \<^verbatim>\<open>SnmpObjects\<close>.
\<close>

section \<open>One variable binding\<close>

definition noError :: u8 where "noError = 0"
definition noSuchName :: u8 where "noSuchName = 2"
definition readOnly :: u8 where "readOnly = 4"
definition genErr :: u8 where "genErr = 5"
definition noAccess :: u8 where "noAccess = 6"
definition resourceUnavailable :: u8 where "resourceUnavailable = 13"

lemmas snmp_errors = noError_def noSuchName_def readOnly_def genErr_def noAccess_def resourceUnavailable_def

definition asked_oid :: "wu_snmp_var_bind \<Rightarrow> u32 list" where
  "asked_oid vb = take (vb_oid_len vb) (vb_oid vb)"

text \<open>The object's identifier becomes the one asked for.\<close>

definition fix_oid :: "nat \<Rightarrow> wu_snmp_var_bind \<Rightarrow> snmp_state \<Rightarrow> snmp_state" where
  "fix_oid k vb s = s\<lparr> objs := (objs s)[k := (objs s ! k)\<lparr> o_oid := vb_oid vb \<rparr>] \<rparr>"

definition get_request_process_var_bind ::
  "board_env \<Rightarrow> wu_snmp_var_bind \<Rightarrow> snmp_state \<Rightarrow> (wu_snmp_var_bind \<times> snmp_state) option" where
  "get_request_process_var_bind env vb s =
     do {
       r \<leftarrow> find_oid_object (asked_oid vb) (oid_tree s);
       case r of
         None \<Rightarrow> Some (vb\<lparr> vb_error := noSuchName \<rparr>, s)
       | Some k \<Rightarrow> (let s = fix_oid k vb s; obj = objs s ! k
           in case o_getter obj of
                None \<Rightarrow> Some (vb\<lparr> vb_error := noAccess \<rparr>, s)
              | Some g \<Rightarrow> do {
                  (rc, data, s) \<leftarrow> call_getter env obj g s;
                  if rc \<noteq> 0 then Some (vb\<lparr> vb_error := genErr \<rparr>, s)
                  else do {
                    buf \<leftarrow> mem_write (vb_buf vb) 0 data;
                    Some (vb\<lparr> vb_error := noError, vb_buf := buf,
                      vb_value := \<lparr> a_tag = TagString, a_len = word_of_nat (length data), a_data = VbBuf \<rparr> \<rparr>, s)
                  }
                })
     }"

definition load_oid :: "u32 list" where "load_oid = XMUX_ROOT_OID @ [100]"

definition oid_is :: "wu_oid_object \<Rightarrow> u32 list \<Rightarrow> bool" where
  "oid_is obj oid \<longleftrightarrow> length oid = o_oid_len obj \<and> take (length oid) (o_oid obj) = oid"

text \<open>The bytes a setter sees: from the pointer of the value to the end of the packet.\<close>

definition pointed :: "data_ptr \<Rightarrow> u8 list" where
  "pointed p = (case p of Packet bs \<Rightarrow> bs | _ \<Rightarrow> [])"

definition set_request_process_var_bind ::
  "bool \<Rightarrow> wu_snmp_var_bind \<Rightarrow> snmp_state \<Rightarrow> (wu_snmp_var_bind \<times> snmp_state) option" where
  "set_request_process_var_bind readonly vb s =
     (if readonly then Some (vb\<lparr> vb_error := readOnly \<rparr>, s)
      else do {
        r \<leftarrow> find_oid_object (asked_oid vb) (oid_tree s);
        case r of
          None \<Rightarrow> Some (vb\<lparr> vb_error := noSuchName \<rparr>, s)
        | Some k \<Rightarrow>
            (if login_flag (board_of s) \<noteq> SNMP_LOGIN_STATUS_SUCCESS \<and> \<not> oid_is (objs s ! k) load_oid
             then Some (vb\<lparr> vb_error := resourceUnavailable \<rparr>, s)
             else let s = fix_oid k vb (xmux_snmp_update_heart_device_time s); obj = objs s ! k
                  in case o_setter obj of
                       None \<Rightarrow> Some (vb\<lparr> vb_error := readOnly \<rparr>, s)
                     | Some f \<Rightarrow> do {
                         (rc, s) \<leftarrow> call_setter obj f (pointed (a_data (vb_value vb)), unat (a_len (vb_value vb))) s;
                         if rc \<noteq> 0 then Some (vb\<lparr> vb_error := genErr \<rparr>, s)
                         else Some (vb\<lparr> vb_error := noError, vb_value := (vb_value vb)\<lparr> a_len := 0 \<rparr> \<rparr>, s)
                       })
      })"

section \<open>The handlers\<close>

text \<open>
  Both handlers pop a binding, process it and copy it to the next of the 16 slots of the client;
  \<open>n\<close> slots are left. The local binding goes through all turns.
\<close>

type_synonym processor = "wu_snmp_var_bind \<Rightarrow> snmp_state \<Rightarrow> (wu_snmp_var_bind \<times> snmp_state) option"

fun request_loop ::
  "processor \<Rightarrow> nat \<Rightarrow> cursor \<Rightarrow> wu_snmp_var_bind \<Rightarrow> wu_snmp_var_bind list \<Rightarrow> snmp_state
   \<Rightarrow> (wu_snmp_var_bind list \<times> wu_snmp_var_bind \<times> snmp_state) option" where
  "request_loop process 0 c vb vbs s =
     do { (rc, c, vb) \<leftarrow> pop_var_bind c vb; if rc \<noteq> 0 then Some (vbs, vb, s) else None }"
| "request_loop process (Suc n) c vb vbs s =
     do {
       (rc, c, vb) \<leftarrow> pop_var_bind c vb;
       if rc \<noteq> 0 then Some (vbs, vb, s)
       else do { (vb, s) \<leftarrow> process vb s; request_loop process n c vb (vbs @ [vb]) s }
     }"

definition VARIABLE_BINDINGS :: nat where "VARIABLE_BINDINGS = 16"

text \<open>Status and index of the bindings in error, a byte each; one zero when there is none.\<close>

definition build_error :: "wu_snmp_var_bind list \<Rightarrow> u8 list \<times> u8 list" where
  "build_error vbs =
     (let errs = filter (\<lambda>(i, vb). vb_error vb \<noteq> 0) (enumerate 0 vbs)
      in if errs = [] then ([0], [0])
         else (map (\<lambda>(i, vb). vb_error vb) errs, map (\<lambda>(i, vb). word_of_nat (i + 1)) errs))"

record agent =
  snmp :: snmp_state
  resp_data :: "u8 list"
  resp_size :: u16
  client_readonly :: bool
  static_catoms :: catoms
  login_addr :: u32

text \<open>What is on the stack when a handler starts.\<close>

record agent_env =
  ae_board :: board_env
  ae_catoms :: catoms
  ae_vb :: wu_snmp_var_bind

definition name_and_value :: "wu_snmp_var_bind \<Rightarrow> wu_snmp_atom \<times> wu_snmp_atom" where
  "name_and_value vb = (vb_name vb, vb_value vb)"

definition get_request_handler :: "agent_env \<Rightarrow> wu_snmp_pdu \<Rightarrow> agent \<Rightarrow> agent option" where
  "get_request_handler env pdu ag =
     do {
       (vbs, vb, s) \<leftarrow> request_loop (get_request_process_var_bind (ae_board env)) VARIABLE_BINDINGS
         (a_data (pdu_variable_bindings pdu), a_len (pdu_variable_bindings pdu)) (ae_vb env) [] (snmp ag);
       let (error_status, error_index) = build_error vbs;
       cs \<leftarrow> build_response pdu (vb_buf vb) error_status error_index
         (map name_and_value (filter (\<lambda>vb. vb_error vb = 0) vbs)) (static_catoms ag);
       (n, bs) \<leftarrow> response_bytes cs (resp_data ag);
       Some (ag\<lparr> snmp := s, static_catoms := cs, resp_size := n, resp_data := bs \<rparr>)
     }"

definition set_request_handler :: "agent_env \<Rightarrow> wu_snmp_pdu \<Rightarrow> agent \<Rightarrow> agent option" where
  "set_request_handler env pdu ag =
     do {
       (vbs, vb, s) \<leftarrow> request_loop (set_request_process_var_bind (client_readonly ag)) VARIABLE_BINDINGS
         (a_data (pdu_variable_bindings pdu), a_len (pdu_variable_bindings pdu)) (ae_vb env) [] (snmp ag);
       let (error_status, error_index) = build_error vbs;
       cs \<leftarrow> build_response pdu (vb_buf vb) error_status error_index (map name_and_value vbs) (ae_catoms env);
       (n, bs) \<leftarrow> response_bytes cs (resp_data ag);
       Some (ag\<lparr> snmp := s, resp_size := n, resp_data := bs \<rparr>)
     }"

text \<open>
  A request: \<open>data\<close> is the whole receive buffer, \<open>n\<close> the number of bytes received. The return codes of the
  parser are not looked at.
\<close>

definition COM_STR_SIZE :: nat where "COM_STR_SIZE = 128"

definition parse_request :: "u8 list \<Rightarrow> u16 \<Rightarrow> wu_snmp_pdu option" where
  "parse_request data n =
     do {
       (rc, c, hs) \<leftarrow> extract_fix_atoms (Packet data, n) [atom_tagged TagVar];
       (rc, c, vs) \<leftarrow> extract_fix_atoms (a_data (hs ! 0), a_len (hs ! 0)) [atom_tagged TagInt];
       (rc, c, cms) \<leftarrow> extract_fix_atoms c [atom_tagged TagString];
       (rc, c, method) \<leftarrow> pop_atom c (atom_tagged 0);
       com \<leftarrow> atom_bytes [] (cms ! 0);
       com_str \<leftarrow> mem_write (replicate COM_STR_SIZE 0) 0 com;
       (rc, c, as) \<leftarrow> extract_fix_atoms (a_data method, a_len method)
         [atom_tagged TagInt, atom_tagged TagInt, atom_tagged TagInt, atom_tagged TagVar];
       Some \<lparr> pdu_header = hs ! 0, pdu_version = vs ! 0, pdu_com = cms ! 0, pdu_method = method,
         pdu_request_id = as ! 0, pdu_error_status = as ! 1, pdu_error_index = as ! 2, pdu_variable_bindings = as ! 3 \<rparr>
     }"

definition process_client_request :: "agent_env \<Rightarrow> u8 list \<Rightarrow> u16 \<Rightarrow> agent \<Rightarrow> agent option" where
  "process_client_request env data n ag =
     do {
       pdu \<leftarrow> parse_request data n;
       if a_tag (pdu_method pdu) = TagGetRequest then get_request_handler env pdu ag
       else if a_tag (pdu_method pdu) = TagSetRequest then set_request_handler env pdu ag
       else Some ag
     }"

text \<open>One datagram: while a manager is logged in, any other address may only read. The answer is what the
  buffer of the response holds.\<close>

definition UDP_PKG_SIZE :: nat where "UDP_PKG_SIZE = 2048"

definition wu_agent_turn :: "agent_env \<Rightarrow> u32 \<Rightarrow> u8 list \<Rightarrow> u8 list \<Rightarrow> agent \<Rightarrow> (u8 list \<times> agent) option" where
  "wu_agent_turn env addr packet stale ag =
     do {
       let ag = (if login_flag (board_of (snmp ag)) = SNMP_LOGIN_STATUS_SUCCESS \<and> addr \<noteq> login_addr ag
                 then ag\<lparr> client_readonly := True \<rparr> else ag\<lparr> login_addr := addr, client_readonly := False \<rparr>);
       buf \<leftarrow> mem_write stale 0 packet;
       ag \<leftarrow> process_client_request env buf (word_of_nat (length packet)) ag;
       resp \<leftarrow> mem_read (resp_data ag) 0 (unat (resp_size ag));
       Some (resp, ag)
     }"

end
