(* ===== verification/SnmpSession.thy ===== *)
theory SnmpSession
  imports SnmpAgent BoardStore
begin

unbundle bit_operations_syntax

text \<open>
  What the SNMP manager may do and when: what getters and setters leave alone, the table of objects and
  its tree under requests, the login, and the mutual exclusion of panel and manager over every
  interleaving of panel messages, packets and turns of the main loop.
\<close>

section \<open>What getters and setters leave alone\<close>

lemma session_more [simp]:
  "session (b\<lparr> psi_parse := p \<rparr>) = session b"
  "session (b\<lparr> sg_mib_pid_trans_info := t \<rparr>) = session b"
  "session (b\<lparr> sg_mib_trans_table := m \<rparr>) = session b"
  by (simp_all add: session_def)

lemma session_board_ops [simp]:
  "session (set_trans_memory mem b) = session b"
  "session (apply_trans_node rate fmt b) = session b"
  "session (save_user b) = session b"
  "session (set_user bs b) = session b"
  "session (request_parse manager b) = session b"
  "session (psi_worker_stop_parse_psi b) = session b"
  "session (set_connection_check on b) = session b"
  by (simp_all add: set_trans_memory_def apply_trans_node_def Let_def save_user_def set_user_def request_parse_def
      psi_worker_stop_parse_psi_def set_connection_check_def)

definition frame :: "snmp_state \<Rightarrow> (fp_state \<times> u8 \<times> u16 \<times> u16 list \<times> u16 option) \<times> wu_oid_object list \<times> wutree" where
  "frame s = (session (board_of s), objs s, oid_tree s)"

lemma frame_simps [simp]:
  "frame (s\<lparr> board_of := b \<rparr>) = (session b, objs s, oid_tree s)"
  "frame (s\<lparr> trans_head := h \<rparr>) = frame s"
  "frame (s\<lparr> sg_mib_loadinfo := l \<rparr>) = frame s"
  "frame (s\<lparr> heart_lock_state := x \<rparr>) = frame s"
  "frame (s\<lparr> heart_mode := y \<rparr>) = frame s"
  "frame (s\<lparr> sg_mib_IP_info := i \<rparr>) = frame s"
  "frame (s\<lparr> sg_mib_User_info := u \<rparr>) = frame s"
  "frame (s\<lparr> sg_mib_apply_psi := a \<rparr>) = frame s"
  "frame (s\<lparr> parse_psi_status := p \<rparr>) = frame s"
  "frame (s\<lparr> save_pid_trans_info := q \<rparr>) = frame s"
  "frame (s\<lparr> heart_device_time := t \<rparr>) = frame s"
  "frame (s\<lparr> test_buf := m \<rparr>) = frame s"
  by (simp_all add: frame_def)

lemma frame_board: "session b = session (board_of s) \<Longrightarrow> (session b, objs s, oid_tree s) = frame s"
  by (simp add: frame_def)

lemma frame_on_board [simp]: "(\<And>b. session (f b) = session b) \<Longrightarrow> frame (on_board f s) = frame s"
  by (simp add: on_board_def frame_board)

lemma got_frame [simp]: "got s r = Some (rc, data, s') \<Longrightarrow> frame s' = frame s"
  by (auto simp: got_def bind_Some_iff)

lemmas getter_defs = pat_get_def pmt_get_def cat_get_def nit_get_def sdt_get_def eit_get_def pid_trans_info_get_def
  pid_trans_get_def net_get_def user_get_def start_parse_psi_get_def psi_status_get_def mux_program_info_get_def
  tunner_param_get_def tunner_status_get_def bcm3033_param_get_def ci_info_get_def sel_src_get_def load_info_get_def
  heart_device_get_def test_data_size_get_def

lemma getters_frame:
  assumes "call_getter env obj g s = Some (rc, data, s')"
  shows "frame s' = frame s"
proof (cases g)
  case Bcm3033_param_get
  obtain param b where b: "bcm3033_get_param env (board_of s) = (param, b)" by fastforce
  then have "session b = session (board_of s)" by (metis session_bcm(1) snd_conv)
  with Bcm3033_param_get assms b show ?thesis by (auto simp: bcm3033_param_get_def frame_board)
next
  case Heart_device_get
  then show ?thesis using assms
    by (auto simp: heart_device_get_def xmux_snmp_update_heart_device_time_def Let_def split: prod.splits if_splits)
qed (use assms in \<open>auto simp: getter_defs Let_def\<close>)

lemma request_save_frame [simp]: "frame (request_save_trans s) = frame s"
  by (simp add: request_save_trans_def)

lemma update_time_frame [simp]: "frame (xmux_snmp_update_heart_device_time s) = frame s"
  by (simp add: xmux_snmp_update_heart_device_time_def)

lemma connection_check_frame [simp]:
  "frame (disable_snmp_connection_check s) = frame s" "frame (enable_snmp_connection_check s) = frame s"
  by (simp_all add: disable_snmp_connection_check_def enable_snmp_connection_check_def)

lemma apply_sections_session: "apply_sections bs b = Some b' \<Longrightarrow> session b' = session b"
  by (auto simp: apply_sections_def bind_Some_iff Let_def)

lemmas setter_defs = pat_set_def pmt_set_def cat_set_def nit_set_def sdt_set_def eit_set_def pid_trans_info_set_def
  pid_trans_set_def net_set_def user_set_def start_parse_psi_set_def apply_psi_set_def mux_program_info_set_def
  tunner_param_set_def bcm3033_param_set_def ci_info_set_def sel_src_set_def test_data_size_set_def

lemma setters_frame:
  assumes "call_setter obj f v s = Some (rc, s')" "f \<notin> {Load_info_set, Heart_device_set}"
  shows "frame s' = frame s"
  using assms
  by (cases f) (auto simp: setter_defs upd_mib_def bind_Some_iff Let_def frame_board split: if_splits
      dest!: apply_sections_session)

text \<open>The login and the heart beat change the login flag besides their buffers.\<close>

lemma set_login_flag_simps [simp]:
  "board_of (set_login_flag f s) = (board_of s)\<lparr> login_flag := f \<rparr>"
  "objs (set_login_flag f s) = objs s" "oid_tree (set_login_flag f s) = oid_tree s"
  by (simp_all add: set_login_flag_def on_board_def)

lemma frame_parts: "frame s' = frame s \<Longrightarrow> objs s' = objs s \<and> oid_tree s' = oid_tree s
  \<and> management_mode (board_of s') = management_mode (board_of s) \<and> login_flag (board_of s') = login_flag (board_of s)"
  by (simp add: frame_def session_def)

lemma load_info_cases:
  assumes "load_info_set v s = Some (rc, s')"
  obtains m l where "memcpy_value (sg_mib_loadinfo s) v = Some m" "s' = set_login_flag l (s\<lparr> sg_mib_loadinfo := m \<rparr>)"
    "management_mode (board_of s) = MANAGEMENT_MODE_FP \<Longrightarrow> rc = -1 \<and> l = SNMP_LOGIN_STATUS_BUSY"
    "management_mode (board_of s) \<noteq> MANAGEMENT_MODE_FP \<Longrightarrow> \<exists>bad_user bad_password.
       credential_differs m (user_mem (p_user (g_eeprom_param (board_of s)))) 0 = Some bad_user
       \<and> (\<not> bad_user \<longrightarrow> credential_differs m (user_mem (p_user (g_eeprom_param (board_of s)))) 17 = Some bad_password)
       \<and> rc = (if bad_user \<or> bad_password then -1 else 0)
       \<and> l = (if bad_user then SNMP_LOGIN_STATUS_USER_NAME_INVALID
              else if bad_password then SNMP_LOGIN_STATUS_PASSWORD_INVALID else SNMP_LOGIN_STATUS_SUCCESS)"
proof -
  from assms obtain m where m: "memcpy_value (sg_mib_loadinfo s) v = Some m"
    by (auto simp: load_info_set_def bind_Some_iff)
  note load = assms [unfolded load_info_set_def m bind.bind_lunit Let_def]
  show thesis
  proof (cases "management_mode (board_of s) = MANAGEMENT_MODE_FP")
    case True
    with load show ?thesis by (intro that [OF m]) auto
  next
    case False
    define own where "own = user_mem (p_user (g_eeprom_param (board_of s)))"
    from load False have load: "do {
        bad_user \<leftarrow> credential_differs m own 0;
        if bad_user then Some (-1, set_login_flag SNMP_LOGIN_STATUS_USER_NAME_INVALID (s\<lparr> sg_mib_loadinfo := m \<rparr>))
        else do {
          bad_password \<leftarrow> credential_differs m own 17;
          if bad_password then Some (-1, set_login_flag SNMP_LOGIN_STATUS_PASSWORD_INVALID (s\<lparr> sg_mib_loadinfo := m \<rparr>))
          else Some (0, set_login_flag SNMP_LOGIN_STATUS_SUCCESS (s\<lparr> sg_mib_loadinfo := m \<rparr>))
        }
      } = Some (rc, s')"
      by (simp add: own_def cong: if_cong)
    then obtain bu where bu: "credential_differs m own 0 = Some bu" by (auto simp: bind_Some_iff)
    show ?thesis
    proof (cases bu)
      case True
      with load bu False show ?thesis by (intro that [of m SNMP_LOGIN_STATUS_USER_NAME_INVALID]) (auto simp: m own_def)
    next
      case nu: False
      with load bu obtain bp where bp: "credential_differs m own 17 = Some bp" by (auto simp: bind_Some_iff)
      from load bu nu bp have "rc = (if bp then -1 else 0)"
        "s' = set_login_flag (if bp then SNMP_LOGIN_STATUS_PASSWORD_INVALID else SNMP_LOGIN_STATUS_SUCCESS) (s\<lparr> sg_mib_loadinfo := m \<rparr>)"
        by (simp_all split: if_splits)
      with bu bp nu False m show ?thesis
        by (intro that [of m "if bp then SNMP_LOGIN_STATUS_PASSWORD_INVALID else SNMP_LOGIN_STATUS_SUCCESS"])
           (auto simp: own_def)
    qed
  qed
qed

lemma setters_keep:
  assumes "call_setter obj f v s = Some (rc, s')"
  shows "objs s' = objs s \<and> oid_tree s' = oid_tree s \<and> management_mode (board_of s') = management_mode (board_of s)"
proof -
  consider "f = Load_info_set" | "f = Heart_device_set" | "f \<notin> {Load_info_set, Heart_device_set}" by blast
  then show ?thesis
  proof cases
    case 1
    with assms have "load_info_set v s = Some (rc, s')" by simp
    then show ?thesis by (rule load_info_cases) simp
  next
    case 2
    with assms show ?thesis by (auto simp: heart_device_set_def bind_Some_iff)
  next
    case 3
    from frame_parts [OF setters_frame [OF assms 3]] show ?thesis by simp
  qed
qed

section \<open>The login\<close>

text \<open>A name or a password: the length, then the characters.\<close>

definition credential :: "u8 list \<Rightarrow> nat \<Rightarrow> u8 list" where
  "credential m off = take (unat (m ! off)) (drop (off + 1) m)"

definition credential_fits :: "u8 list \<Rightarrow> nat \<Rightarrow> bool" where
  "credential_fits m off \<longleftrightarrow> off < length m \<and> m ! off \<le> 16 \<and> off + 17 \<le> length m"

lemma credential_differs_iff:
  assumes "credential_fits given off" "credential_fits own off"
  shows "credential_differs given own off = Some (credential given off \<noteq> credential own off)"
proof -
  have le: "unat (given ! off) \<le> 16" "unat (own ! off) \<le> 16" using assms by (simp_all add: credential_fits_def word_le_nat_alt)
  show ?thesis
  proof (cases "given ! off = own ! off")
    case True
    have "off + 1 + unat (own ! off) \<le> length given" "off + 1 + unat (own ! off) \<le> length own"
      using assms le by (simp_all add: credential_fits_def)
    then have "mem_read given (off + 1) (unat (own ! off)) = Some (credential given off)"
      "mem_read own (off + 1) (unat (own ! off)) = Some (credential own off)"
      unfolding mem_read_def credential_def True by simp_all
    then show ?thesis unfolding credential_differs_def True by simp
  next
    case False
    then have ne: "unat (given ! off) \<noteq> unat (own ! off)" by (metis unsigned_word_eqI)
    have len: "length (credential given off) = unat (given ! off)" "length (credential own off) = unat (own ! off)"
      using assms le by (auto simp: credential_def credential_fits_def min_def)
    have "credential given off \<noteq> credential own off" using len ne by metis
    with False show ?thesis by (simp add: credential_differs_def)
  qed
qed

lemma memcpy_whole: "snd v = length dst \<Longrightarrow> length dst \<le> length (fst v) \<Longrightarrow> memcpy_value dst v = Some (take (snd v) (fst v))"
  by (simp add: memcpy_value_def value_bytes_def mem_read_def mem_write_def)

definition own_user :: "snmp_state \<Rightarrow> u8 list" where
  "own_user s = user_mem (p_user (g_eeprom_param (board_of s)))"

text \<open>The state of the login a record \<open>m\<close> should lead to.\<close>

definition login_outcome :: "u8 list \<Rightarrow> snmp_state \<Rightarrow> u16" where
  "login_outcome m s =
     (if management_mode (board_of s) = MANAGEMENT_MODE_FP then SNMP_LOGIN_STATUS_BUSY
      else if credential m 0 \<noteq> credential (own_user s) 0 then SNMP_LOGIN_STATUS_USER_NAME_INVALID
      else if credential m 17 \<noteq> credential (own_user s) 17 then SNMP_LOGIN_STATUS_PASSWORD_INVALID
      else SNMP_LOGIN_STATUS_SUCCESS)"

lemma load_info_outcome:
  assumes "length (sg_mib_loadinfo s) = LOAD_INFO_SIZE" "length m = LOAD_INFO_SIZE"
    and "credential_fits m 0" "credential_fits m 17" "credential_fits (own_user s) 0" "credential_fits (own_user s) 17"
  shows "load_info_set (m @ rest, LOAD_INFO_SIZE) s =
    Some (if login_outcome m s = SNMP_LOGIN_STATUS_SUCCESS then 0 else -1,
      set_login_flag (login_outcome m s) (s\<lparr> sg_mib_loadinfo := m \<rparr>))"
proof -
  have d: "credential_differs m (own_user s) 0 = Some (credential m 0 \<noteq> credential (own_user s) 0)"
    "credential_differs m (own_user s) 17 = Some (credential m 17 \<noteq> credential (own_user s) 17)"
    using assms by (simp_all add: credential_differs_iff)
  have m: "memcpy_value (sg_mib_loadinfo s) (m @ rest, LOAD_INFO_SIZE) = Some m"
    using assms(1,2) by (simp add: memcpy_whole)
  show ?thesis
    using d unfolding load_info_set_def m own_user_def
    by (simp add: login_outcome_def own_user_def Let_def login_codes cong: if_cong)
qed

text \<open>Writing name and password to the login object answers and sets the login state accordingly:
  busy while the panel owns the board, otherwise an error that says which of the two is wrong, and
  success, return code 0, exactly when both equal the stored ones.\<close>

theorem login_checked:
  assumes "length (sg_mib_loadinfo s) = LOAD_INFO_SIZE" "length m = LOAD_INFO_SIZE"
    and "credential_fits m 0" "credential_fits m 17" "credential_fits (own_user s) 0" "credential_fits (own_user s) 17"
  shows "\<exists>rc s'. load_info_set (m @ rest, LOAD_INFO_SIZE) s = Some (rc, s')
    \<and> login_flag (board_of s') = login_outcome m s
    \<and> (rc = 0 \<longleftrightarrow> management_mode (board_of s) \<noteq> MANAGEMENT_MODE_FP
         \<and> credential m 0 = credential (own_user s) 0 \<and> credential m 17 = credential (own_user s) 17)"
  unfolding load_info_outcome [OF assms]
  by (simp add: login_outcome_def login_codes)

lemma own_user_shape:
  assumes "length (user (p_user (g_eeprom_param (board_of s)))) = 16" "length (password (p_user (g_eeprom_param (board_of s)))) = 16"
    and "user_len (p_user (g_eeprom_param (board_of s))) \<le> 16" "password_len (p_user (g_eeprom_param (board_of s))) \<le> 16"
  shows "length (own_user s) = 36" "credential_fits (own_user s) 0" "credential_fits (own_user s) 17"
  using assms by (simp_all add: own_user_def credential_fits_def user_mem_def nth_append)

text \<open>Name and password are no secret: what any manager reads from the user object, without a login,
  logs it in when it writes it back to the login object, unless the panel owns the board.\<close>

theorem user_object_discloses_login:
  assumes "call_getter env obj User_get s = Some (rc, bs, s1)"
    and "length (user (p_user (g_eeprom_param (board_of s)))) = 16" "length (password (p_user (g_eeprom_param (board_of s)))) = 16"
    and "user_len (p_user (g_eeprom_param (board_of s))) \<le> 16" "password_len (p_user (g_eeprom_param (board_of s))) \<le> 16"
    and "length (sg_mib_loadinfo s) = LOAD_INFO_SIZE" "management_mode (board_of s) \<noteq> MANAGEMENT_MODE_FP"
  shows "\<exists>s2. call_setter obj' Load_info_set (bs @ rest, length bs) s1 = Some (0, s2)
    \<and> login_flag (board_of s2) = SNMP_LOGIN_STATUS_SUCCESS"
proof -
  note own = own_user_shape [OF assms(2-5)]
  have bs: "bs = take LOAD_INFO_SIZE (own_user s)" and s1: "board_of s1 = board_of s" "sg_mib_loadinfo s1 = sg_mib_loadinfo s"
    using assms(1) by (auto simp: user_get_def own_user_def Let_def)
  have own1: "own_user s1 = own_user s" by (simp add: own_user_def s1)
  have len: "length bs = LOAD_INFO_SIZE" using own(1) by (simp add: bs LOAD_INFO_SIZE_def)
  have nth: "bs ! 0 = own_user s ! 0" "bs ! 17 = own_user s ! 17" using own(1) by (simp_all add: bs LOAD_INFO_SIZE_def)
  have fits: "credential_fits bs 0" "credential_fits bs 17"
    using own(2,3) len nth by (simp_all add: credential_fits_def LOAD_INFO_SIZE_def)
  have le: "unat (own_user s ! 0) \<le> 16" "unat (own_user s ! 17) \<le> 16"
    using own(2,3) by (simp_all add: credential_fits_def word_le_nat_alt)
  have "credential bs 0 = credential (own_user s) 0" "credential bs 17 = credential (own_user s) 17"
    using le unfolding credential_def nth by (simp_all add: bs LOAD_INFO_SIZE_def drop_take min_def)
  then have "login_outcome bs s1 = SNMP_LOGIN_STATUS_SUCCESS"
    using assms(7) by (simp add: login_outcome_def own1 s1)
  then show ?thesis
    using load_info_outcome [of s1 bs rest] assms(6) len fits own(2,3) by (simp add: s1 own1 len)
qed

text \<open>A manager after its start.\<close>

definition example_snmp :: "wu_oid_object list \<Rightarrow> wutree \<Rightarrow> snmp_state" where
  "example_snmp os t =
     \<lparr> board_of = example_board, trans_head = replicate 8 0, sg_mib_loadinfo = replicate LOAD_INFO_SIZE 0,
       heart_lock_state = 0, heart_mode = 0, sg_mib_IP_info = replicate IP_INFO_SIZE 0,
       sg_mib_User_info = replicate LOAD_INFO_SIZE 0, sg_mib_apply_psi = replicate APPLY_PSI_SIZE 0,
       parse_psi_status = 0, save_pid_trans_info = False, heart_device_time = 0, test_buf = replicate TEST_BUF_SIZE 0,
       objs = os, oid_tree = t, clock = 0 \<rparr>"

lemma example_user:
  "length (user (p_user (g_eeprom_param example_board))) = 16" "length (password (p_user (g_eeprom_param example_board))) = 16"
  "user_len (p_user (g_eeprom_param example_board)) \<le> 16" "password_len (p_user (g_eeprom_param example_board)) \<le> 16"
  using example_params_wf
  by (simp_all add: example_board_def param_wf_def)
    (simp_all add: example_params_def xmux_user_param_default_def Let_def root_name_def)

definition example_login :: snmp_state where
  "example_login = (example_snmp snmp_objs (wutree_new 0))\<lparr> board_of := example_board\<lparr> management_mode := MANAGEMENT_MODE_SNMP \<rparr> \<rparr>"

lemma example_login:
  "board_of example_login = example_board\<lparr> management_mode := MANAGEMENT_MODE_SNMP \<rparr>"
  "length (sg_mib_loadinfo example_login) = LOAD_INFO_SIZE"
  "management_mode (board_of example_login) \<noteq> MANAGEMENT_MODE_FP"
  by (simp_all add: example_login_def example_snmp_def mode_values)

theorem user_object_discloses_login_witness:
  "\<exists>bs s1 s2. call_getter example_env (snmp_objs ! 9) User_get example_login = Some (0, bs, s1)
    \<and> call_setter (snmp_objs ! 21) Load_info_set (bs @ [0], length bs) s1 = Some (0, s2) \<and> login_flag (board_of s2) = SNMP_LOGIN_STATUS_SUCCESS"
proof -
  obtain bs s1 where g: "call_getter example_env (snmp_objs ! 9) User_get example_login = Some (0, bs, s1)"
    by (simp add: user_get_def Let_def)
  from user_object_discloses_login [OF g, where rest = "[0]" and obj' = "snmp_objs ! 21"] example_user example_login g show ?thesis by auto
qed

theorem login_checked_witness:
  "\<exists>s'. load_info_set (take LOAD_INFO_SIZE (own_user example_login) @ [], LOAD_INFO_SIZE) example_login = Some (0, s')
    \<and> login_flag (board_of s') = login_outcome (take LOAD_INFO_SIZE (own_user example_login)) example_login"
proof -
  let ?o = "own_user example_login" and ?m = "take LOAD_INFO_SIZE (own_user example_login)"
  have own: "length ?o = 36" "credential_fits ?o 0" "credential_fits ?o 17"
    using own_user_shape [of example_login] example_user by (simp_all add: example_login)
  then have nth: "?m ! 0 = ?o ! 0" "?m ! 17 = ?o ! 17" by (simp_all add: LOAD_INFO_SIZE_def)
  have m: "length ?m = LOAD_INFO_SIZE" "credential_fits ?m 0" "credential_fits ?m 17"
    using own nth by (simp_all add: credential_fits_def LOAD_INFO_SIZE_def)
  have le: "unat (?o ! 0) \<le> 16" "unat (?o ! 17) \<le> 16" using own by (simp_all add: credential_fits_def word_le_nat_alt)
  have "credential ?m 0 = credential ?o 0" "credential ?m 17 = credential ?o 17"
    using le unfolding credential_def nth by (simp_all add: LOAD_INFO_SIZE_def drop_take min_def)
  with login_checked [OF example_login(2) m own(2,3), of "[]"] example_login(3) show ?thesis by auto
qed

section \<open>The table of objects and the tree under requests\<close>

text \<open>An entry of the registry has the length of its object and, but for the numbers that vary, its identifier.\<close>

definition fits_obj :: "u32 list \<Rightarrow> nat \<Rightarrow> bool" where
  "fits_obj oid k \<longleftrightarrow> k < 24 \<and> length oid = o_oid_len (snmp_objs ! k)
     \<and> (\<forall>p < o_oid_len (snmp_objs ! k). p \<notin> varies k \<longrightarrow> oid ! p = o_oid (snmp_objs ! k) ! p)"

lemma fits_objI:
  assumes "k < 24" "(l, is) = map (\<lambda>k. (o_oid_len (snmp_objs ! k), take (o_oid_len (snmp_objs ! k)) (o_oid (snmp_objs ! k)))) [0..<24] ! k"
    and "length oid = l" "list_all (\<lambda>p. p \<in> varies k \<or> oid ! p = is ! p) [0..<l]"
  shows "fits_obj oid k"
proof -
  have "l = o_oid_len (snmp_objs ! k)" "is = take l (o_oid (snmp_objs ! k))" using assms(1,2) by simp_all
  with assms show ?thesis by (auto simp: fits_obj_def list_all_iff)
qed

lemma channel_registry_fits: "(oid, k) \<in> set (channel_registry c) \<Longrightarrow> fits_obj oid k"
  unfolding channel_registry_def
  by (auto intro!: fits_objI simp: obj_shape oid_of_def XMUX_ROOT_OID_def upt_8 simp del: upt_Suc)

lemma registry_fits_obj:
  assumes "(oid, k) \<in> set snmp_registry"
  shows "fits_obj oid k"
proof -
  from assms consider (chan) c where "(oid, k) \<in> set (channel_registry c)"
    | (trans) i where "oid = oid_of [12, i + 1]" "k = 6"
    | (solo) n where "n \<in> set [0..<17]" "oid = oid_of [solo_numbers ! n]" "k = 7 + n"
    by (auto simp: snmp_registry_def)
  then show ?thesis
  proof cases
    case chan
    then show ?thesis by (rule channel_registry_fits)
  next
    case trans
    show ?thesis unfolding trans
      by (rule fits_objI [of _ 8 "[1, 3, 6, 1, 3, 5188, 12, 1]"])
         (simp_all add: obj_shape oid_of_def XMUX_ROOT_OID_def upt_8 del: upt_Suc)
  next
    case solo
    have "\<forall>n \<in> set [0..<17]. length (oid_of [solo_numbers ! n]) = o_oid_len (snmp_objs ! (7 + n))
      \<and> list_all (\<lambda>p. oid_of [solo_numbers ! n] ! p = o_oid (snmp_objs ! (7 + n)) ! p) [0..<o_oid_len (snmp_objs ! (7 + n))]"
      by code_simp
    with solo(1) have "length oid = o_oid_len (snmp_objs ! k)"
      "list_all (\<lambda>p. oid ! p = o_oid (snmp_objs ! k) ! p) [0..<o_oid_len (snmp_objs ! k)]"
      unfolding solo(2,3) by blast+
    with solo(1) show ?thesis by (simp add: fits_obj_def list_all_iff solo(3))
  qed
qed

text \<open>The objects have their functions and lengths, and the tree finds what was registered.\<close>

definition table_ok :: "wu_oid_object list \<Rightarrow> wutree \<Rightarrow> bool" where
  "table_ok os t \<longleftrightarrow> same_objs os \<and> (\<forall>oid. find_oid_object oid t = Some (map_of snmp_registry oid))"

definition snmp_ok :: "snmp_state \<Rightarrow> bool" where
  "snmp_ok s \<longleftrightarrow> table_ok (objs s) (oid_tree s)"

lemma snmp_okD:
  assumes "snmp_ok s"
  shows "same_objs (objs s)" "find_oid_object oid (oid_tree s) = Some (map_of snmp_registry oid)"
  using assms by (simp_all add: snmp_ok_def table_ok_def)

lemma snmp_ok_cong: "objs s' = objs s \<Longrightarrow> oid_tree s' = oid_tree s \<Longrightarrow> snmp_ok s' = snmp_ok s"
  by (simp add: snmp_ok_def)

definition vb_ok :: "wu_snmp_var_bind \<Rightarrow> bool" where
  "vb_ok vb \<longleftrightarrow> length (vb_oid vb) = WU_OID_MAX_SIZE"

lemma subid_loop_length: "subid_loop n bs sub f k subids = Some (ok, subids') \<Longrightarrow> length subids' = length subids"
proof (induction n bs sub f k subids arbitrary: ok subids' rule: subid_loop.induct)
  case (2 n byte bytes subid is_first k subids)
  have put: "length subids' = length subids" if "put_subid v k subids = Some subids'" for v k subids subids'
    using that by (auto simp: put_subid_def split: if_splits)
  from 2 put show ?case
    by (auto simp: Let_def bind_Some_iff split: if_splits prod.splits)
qed simp

lemma decode_oid_ok:
  assumes "decode_oid vb = Some (rc, vb')" "vb_ok vb"
  shows "vb_ok vb' \<and> (rc = 0 \<longrightarrow> vb_oid_len vb' \<le> WU_OID_MAX_SIZE) \<and> vb_buf vb' = vb_buf vb"
  using assms
  by (auto simp: decode_oid_def oid_encoded2subid_def vb_ok_def bind_Some_iff Let_def dest!: subid_loop_length split: if_splits)

lemma pop_var_bind_ok:
  assumes "pop_var_bind c vb = Some (rc, c', vb')" "vb_ok vb"
  shows "vb_ok vb' \<and> (rc = 0 \<longrightarrow> vb_oid_len vb' \<le> WU_OID_MAX_SIZE) \<and> vb_buf vb' = vb_buf vb"
proof -
  obtain rc1 c1 var where p1: "pop_atom c (atom_tagged 0) = Some (rc1, c1, var)"
    using assms(1) by (auto simp: pop_var_bind_def bind_Some_iff)
  note pop = assms(1) [unfolded pop_var_bind_def p1 bind.bind_lunit prod.case]
  show ?thesis
  proof (cases "rc1 < 0")
    case True
    with pop assms(2) show ?thesis by auto
  next
    case False
    obtain rc2 d name where p2: "pop_atom (a_data var, a_len var) (vb_name vb) = Some (rc2, d, name)"
      using pop False by (auto simp: bind_Some_iff)
    note pop = pop [unfolded p2 bind.bind_lunit prod.case Let_def]
    show ?thesis
    proof (cases "rc2 < 0")
      case True
      with pop False assms(2) show ?thesis by (auto simp: vb_ok_def)
    next
      case n2: False
      obtain rc3 d' val where p3: "pop_atom d (vb_value (vb\<lparr> vb_name := name \<rparr>)) = Some (rc3, d', val)"
        using pop False n2 by (auto simp: bind_Some_iff)
      note pop = pop [unfolded p3 bind.bind_lunit prod.case]
      let ?vb = "vb\<lparr> vb_name := name, vb_value := val \<rparr>"
      have ok: "vb_ok ?vb" using assms(2) by (simp add: vb_ok_def)
      show ?thesis
      proof (cases "rc3 < 0")
        case True
        with pop False n2 ok show ?thesis by auto
      next
        case n3: False
        then obtain rc4 vb4 where d: "decode_oid ?vb = Some (rc4, vb4)"
          using pop False n2 by (auto simp: bind_Some_iff)
        with pop False n2 n3 have "vb' = vb4" "rc = (if rc4 < 0 then -1 else 0)" by auto
        moreover have "rc4 = 0 \<or> rc4 < 0" using d by (auto simp: decode_oid_def bind_Some_iff Let_def split: if_splits)
        ultimately show ?thesis using decode_oid_ok [OF d ok] by auto
      qed
    qed
  qed
qed

text \<open>Putting the identifier asked for into the object found for it.\<close>

lemma fix_oid_ok:
  assumes "snmp_ok s" "find_oid_object (asked_oid vb) (oid_tree s) = Some (Some k)" "vb_ok vb" "vb_oid_len vb \<le> WU_OID_MAX_SIZE"
  shows "k < 24" "snmp_ok (fix_oid k vb s)"
    "o_getter (objs (fix_oid k vb s) ! k) = o_getter (snmp_objs ! k)"
    "o_setter (objs (fix_oid k vb s) ! k) = o_setter (snmp_objs ! k)"
    "o_oid (objs (fix_oid k vb s) ! k) = vb_oid vb"
    "o_oid_len (objs (fix_oid k vb s) ! k) = vb_oid_len vb"
proof -
  note ok = snmp_okD [OF assms(1)]
  have "map_of snmp_registry (asked_oid vb) = Some k" using assms(2) ok(2) by simp
  then have "fits_obj (asked_oid vb) k" by (blast dest: map_of_SomeD intro: registry_fits_obj)
  then have k: "k < 24" and len: "vb_oid_len vb = o_oid_len (snmp_objs ! k)"
    and nth: "\<forall>p < o_oid_len (snmp_objs ! k). p \<notin> varies k \<longrightarrow> vb_oid vb ! p = o_oid (snmp_objs ! k) ! p"
    using assms(3,4) by (auto simp: fits_obj_def asked_oid_def vb_ok_def)
  have l: "length (objs s) = 24" and o: "same_obj k (objs s ! k)" using ok(1) k by (simp_all add: same_objs_def)
  have "same_obj k ((objs s ! k)\<lparr> o_oid := vb_oid vb \<rparr>)" using o nth assms(3) by (simp add: same_obj_def vb_ok_def)
  then have "same_objs ((objs s)[k := (objs s ! k)\<lparr> o_oid := vb_oid vb \<rparr>])"
    using ok(1) l k by (simp add: same_objs_def nth_list_update)
  with ok(2) show "snmp_ok (fix_oid k vb s)" by (simp add: snmp_ok_def table_ok_def fix_oid_def)
  show "k < 24" by (rule k)
  show "o_getter (objs (fix_oid k vb s) ! k) = o_getter (snmp_objs ! k)"
    "o_setter (objs (fix_oid k vb s) ! k) = o_setter (snmp_objs ! k)"
    "o_oid (objs (fix_oid k vb s) ! k) = vb_oid vb"
    "o_oid_len (objs (fix_oid k vb s) ! k) = vb_oid_len vb"
    using o l k len by (simp_all add: fix_oid_def same_obj_def)
qed

lemma fix_oid_board [simp]: "board_of (fix_oid k vb s) = board_of s" "oid_tree (fix_oid k vb s) = oid_tree s"
  by (simp_all add: fix_oid_def)

lemma get_process_keeps:
  assumes "get_request_process_var_bind env vb s = Some (vb', s')" "snmp_ok s" "vb_ok vb" "vb_oid_len vb \<le> WU_OID_MAX_SIZE"
  shows "snmp_ok s' \<and> session (board_of s') = session (board_of s) \<and> vb_ok vb'"
proof (cases "find_oid_object (asked_oid vb) (oid_tree s)")
  case None
  with assms(1) show ?thesis by (simp add: get_request_process_var_bind_def)
next
  case (Some r)
  show ?thesis
  proof (cases r)
    case None
    with assms Some show ?thesis by (auto simp: get_request_process_var_bind_def vb_ok_def)
  next
    case k: (Some k)
    note fx = fix_oid_ok [OF assms(2) Some [unfolded k] assms(3,4)]
    show ?thesis
    proof (cases "o_getter (objs (fix_oid k vb s) ! k)")
      case None
      with assms(1,3) Some k fx show ?thesis
        by (simp add: get_request_process_var_bind_def Let_def) (auto simp: vb_ok_def)
    next
      case g: (Some g)
      from assms(1) Some k g obtain rc data where
        "call_getter env (objs (fix_oid k vb s) ! k) g (fix_oid k vb s) = Some (rc, data, s')" "vb_oid vb' = vb_oid vb"
        by (auto simp: get_request_process_var_bind_def Let_def bind_Some_iff split: if_splits)
      then have "frame s' = frame (fix_oid k vb s)" "vb_oid vb' = vb_oid vb" by (simp_all add: getters_frame)
      with fx(2) assms(3) show ?thesis
        by (auto simp: frame_def vb_ok_def cong: snmp_ok_cong intro: snmp_ok_cong [THEN iffD2])
    qed
  qed
qed

text \<open>Only the login object passes for it.\<close>

lemma only_login_object:
  assumes "same_objs os" "k < 24" "oid_is (os ! k) load_oid"
  shows "k = 21"
proof (rule ccontr)
  assume k: "k \<noteq> 21"
  have same: "same_obj k (os ! k)" using assms(1,2) by (simp add: same_objs_def)
  have load: "length load_oid = o_oid_len (os ! k)" "take (length load_oid) (o_oid (os ! k)) = load_oid"
    using assms(3) unfolding oid_is_def by blast+
  have seven: "length load_oid = 7" by (simp add: load_oid_def XMUX_ROOT_OID_def)
  have len: "o_oid_len (os ! k) = 7" using load(1) seven by simp
  have "o_oid (os ! k) ! 6 = take (length load_oid) (o_oid (os ! k)) ! 6" by (simp add: seven)
  also have "\<dots> = 100" unfolding load(2) by (simp add: load_oid_def XMUX_ROOT_OID_def)
  finally have "o_oid (os ! k) ! 6 = 100" .
  with same have "o_oid_len (snmp_objs ! k) = 7" "6 \<notin> varies k \<Longrightarrow> o_oid (snmp_objs ! k) ! 6 = 100"
    using len by (simp_all add: same_obj_def del: varies.simps)
  moreover have "\<forall>k \<in> set [0..<24]. k \<noteq> 21 \<longrightarrow> o_oid_len (snmp_objs ! k) \<noteq> 7 \<or> 6 \<notin> varies k \<and> o_oid (snmp_objs ! k) ! 6 \<noteq> 100"
    by code_simp
  ultimately show False using k assms(2) by auto
qed

lemma login_object: "o_setter (snmp_objs ! 21) = Some Load_info_set"
  by code_simp

text \<open>The panel owns the board only while no manager is logged in.\<close>

definition exclusive :: "board \<Rightarrow> bool" where
  "exclusive b \<longleftrightarrow> (management_mode b = MANAGEMENT_MODE_FP \<longrightarrow> login_flag b \<noteq> SNMP_LOGIN_STATUS_SUCCESS)"

text \<open>The board as a request may leave it that was not let in.\<close>

definition untouched :: "board \<Rightarrow> board \<Rightarrow> bool" where
  "untouched b b' \<longleftrightarrow> (\<exists>l. l \<noteq> SNMP_LOGIN_STATUS_SUCCESS \<and> b' = b\<lparr> login_flag := l \<rparr>)"

lemma untouched_refl: "login_flag b \<noteq> SNMP_LOGIN_STATUS_SUCCESS \<Longrightarrow> untouched b b"
  by (auto simp: untouched_def intro!: exI [of _ "login_flag b"])

lemma untouched_trans: "untouched a b \<Longrightarrow> untouched b c \<Longrightarrow> untouched a c"
  by (auto simp: untouched_def)

lemma load_info_keeps:
  assumes "load_info_set v s = Some (rc, s')"
  shows "exclusive (board_of s')" "management_mode (board_of s) = MANAGEMENT_MODE_FP \<Longrightarrow> untouched (board_of s) (board_of s')"
proof -
  from assms obtain m l where s': "s' = set_login_flag l (s\<lparr> sg_mib_loadinfo := m \<rparr>)"
    and l: "management_mode (board_of s) = MANAGEMENT_MODE_FP \<Longrightarrow> l = SNMP_LOGIN_STATUS_BUSY"
    by (rule load_info_cases) blast
  then show "exclusive (board_of s')" by (simp add: exclusive_def login_codes)
  show "untouched (board_of s) (board_of s')" if "management_mode (board_of s) = MANAGEMENT_MODE_FP"
    using l [OF that] by (simp add: s' untouched_def login_codes exI [of _ SNMP_LOGIN_STATUS_BUSY])
qed

lemma set_process_keeps:
  assumes "set_request_process_var_bind ro vb s = Some (vb', s')" "snmp_ok s" "vb_ok vb" "vb_oid_len vb \<le> WU_OID_MAX_SIZE"
    "exclusive (board_of s)"
  shows "snmp_ok s' \<and> management_mode (board_of s') = management_mode (board_of s) \<and> vb_ok vb' \<and> exclusive (board_of s')
    \<and> (management_mode (board_of s) = MANAGEMENT_MODE_FP \<longrightarrow> untouched (board_of s) (board_of s'))"
proof -
  have same: ?thesis if "s' = s" "vb_ok vb'"
    using that assms(2,5) untouched_refl by (auto simp: exclusive_def)
  show ?thesis
  proof (cases "ro \<or> find_oid_object (asked_oid vb) (oid_tree s) = Some None \<or> find_oid_object (asked_oid vb) (oid_tree s) = None")
    case True
    with assms(1,3) show ?thesis
      by (intro same) (auto simp: set_request_process_var_bind_def vb_ok_def split: if_splits)
  next
    case False
    then obtain k where k: "find_oid_object (asked_oid vb) (oid_tree s) = Some (Some k)" "\<not> ro" by auto
    note set = assms(1) [unfolded set_request_process_var_bind_def k(1) bind.bind_lunit option.case, simplified k(2) if_False]
    show ?thesis
    proof (cases "login_flag (board_of s) \<noteq> SNMP_LOGIN_STATUS_SUCCESS \<and> \<not> oid_is (objs s ! k) load_oid")
      case True
      with set k assms(3) show ?thesis by (intro same) (auto simp: vb_ok_def)
    next
      case let_in: False
      let ?s = "fix_oid k vb (xmux_snmp_update_heart_device_time s)"
      have up: "objs (xmux_snmp_update_heart_device_time s) = objs s" "oid_tree (xmux_snmp_update_heart_device_time s) = oid_tree s"
        "board_of (xmux_snmp_update_heart_device_time s) = board_of s"
        by (simp_all add: xmux_snmp_update_heart_device_time_def)
      have "snmp_ok (xmux_snmp_update_heart_device_time s)" using assms(2) by (simp add: snmp_ok_def up)
      note fx = fix_oid_ok [OF this, of vb k] 
      note fx = fx [unfolded up, OF k(1) assms(3,4)]
      show ?thesis
      proof (cases "o_setter (objs ?s ! k)")
        case None
        with set let_in have "s' = ?s" "vb_ok vb'" using assms(3) by (auto simp: Let_def vb_ok_def)
        with fx(2) assms(5) untouched_refl show ?thesis by (auto simp: exclusive_def up)
      next
        case f: (Some f)
        with set let_in obtain rc where
          call: "call_setter (objs ?s ! k) f (pointed (a_data (vb_value vb)), unat (a_len (vb_value vb))) ?s = Some (rc, s')"
          and "vb_oid vb' = vb_oid vb"
          by (auto simp: Let_def bind_Some_iff split: if_splits)
        then have vb': "vb_ok vb'" using assms(3) by (simp add: vb_ok_def)
        note keep = setters_keep [OF call]
        have ok: "snmp_ok s'" using fx(2) keep by (simp add: snmp_ok_def)
        have mode: "management_mode (board_of s') = management_mode (board_of s)" using keep by (simp add: up)
        show ?thesis
        proof (cases "management_mode (board_of s) = MANAGEMENT_MODE_FP")
          case False
          with ok mode vb' show ?thesis by (simp add: exclusive_def)
        next
          case True
          with assms(5) let_in have "oid_is (objs s ! k) load_oid" by (simp add: exclusive_def)
          from only_login_object [OF snmp_okD(1) [OF assms(2)] fx(1) this] have "f = Load_info_set"
            using f fx(4) login_object by simp
          with call have "load_info_set (pointed (a_data (vb_value vb)), unat (a_len (vb_value vb))) ?s = Some (rc, s')" by simp
          from load_info_keeps [OF this] True ok mode vb' show ?thesis by (simp add: up)
        qed
      qed
    qed
  qed
qed

section \<open>Whole requests\<close>

text \<open>What the processing of one binding keeps, a request keeps.\<close>

locale processor_invariant =
  fixes process :: processor
    and inv :: "snmp_state \<Rightarrow> bool"
  assumes process_inv: "process vb s = Some (vb', s') \<Longrightarrow> inv s \<Longrightarrow> vb_ok vb \<Longrightarrow> vb_oid_len vb \<le> WU_OID_MAX_SIZE \<Longrightarrow>
    inv s' \<and> vb_ok vb'"
begin

lemma request_loop_inv:
  "request_loop process n c vb vbs s = Some (vbs', vb', s') \<Longrightarrow> inv s \<Longrightarrow> vb_ok vb \<Longrightarrow> inv s'"
proof (induction n arbitrary: c vb vbs s)
  case 0
  then show ?case by (auto simp: bind_Some_iff split: if_splits)
next
  case (Suc n)
  from Suc.prems(1) obtain rc c1 vb1 where pop: "pop_var_bind c vb = Some (rc, c1, vb1)" by (auto simp: bind_Some_iff)
  note ok = pop_var_bind_ok [OF pop Suc.prems(3)]
  show ?case
  proof (cases "rc = 0")
    case False
    with Suc.prems pop show ?thesis by auto
  next
    case True
    with Suc.prems(1) pop obtain vb2 s2 where "process vb1 s = Some (vb2, s2)"
      and rest: "request_loop process n c1 vb2 (vbs @ [vb2]) s2 = Some (vbs', vb', s')"
      by (auto simp: bind_Some_iff)
    with process_inv [OF this(1) Suc.prems(2)] ok True have "inv s2 \<and> vb_ok vb2" by simp
    with Suc.IH [OF rest] show ?thesis by simp
  qed
qed

end

text \<open>A get keeps the table and what the board's session is; a set keeps the table and the exclusion, and
  while the panel owns the board it leaves the rest of the board alone.\<close>

definition get_keeps :: "board \<Rightarrow> snmp_state \<Rightarrow> bool" where
  "get_keeps b s \<longleftrightarrow> snmp_ok s \<and> session (board_of s) = session b"

definition set_keeps :: "board \<Rightarrow> snmp_state \<Rightarrow> bool" where
  "set_keeps b s \<longleftrightarrow> snmp_ok s \<and> exclusive (board_of s) \<and> management_mode (board_of s) = management_mode b
     \<and> (management_mode b = MANAGEMENT_MODE_FP \<longrightarrow> untouched b (board_of s))"

interpretation get_request: processor_invariant "get_request_process_var_bind env" "get_keeps b" for env b
  by unfold_locales (use get_process_keeps in \<open>auto simp: get_keeps_def\<close>)

interpretation set_request: processor_invariant "set_request_process_var_bind ro" "set_keeps b" for ro b
  by unfold_locales (use set_process_keeps in \<open>fastforce simp: set_keeps_def intro: untouched_trans\<close>)

lemma get_handler_keeps:
  assumes "get_request_handler env pdu ag = Some ag'" "get_keeps b (snmp ag)" "vb_ok (ae_vb env)"
  shows "get_keeps b (snmp ag')"
  using assms(1) get_request.request_loop_inv [OF _ assms(2,3)]
  by (auto simp: get_request_handler_def bind_Some_iff case_prod_unfold Let_def)

lemma set_handler_keeps:
  assumes "set_request_handler env pdu ag = Some ag'" "set_keeps b (snmp ag)" "vb_ok (ae_vb env)"
  shows "set_keeps b (snmp ag')"
  using assms(1) set_request.request_loop_inv [OF _ assms(2,3)]
  by (auto simp: set_request_handler_def bind_Some_iff case_prod_unfold Let_def)

text \<open>One datagram.\<close>

lemma turn_keeps:
  assumes "wu_agent_turn env addr packet stale ag = Some (resp, ag')"
    and "snmp_ok (snmp ag)" "exclusive (board_of (snmp ag))" "vb_ok (ae_vb env)"
  shows "snmp_ok (snmp ag') \<and> exclusive (board_of (snmp ag'))
    \<and> management_mode (board_of (snmp ag')) = management_mode (board_of (snmp ag))"
proof -
  let ?b = "board_of (snmp ag)"
  define ag0 where "ag0 = (if login_flag ?b = SNMP_LOGIN_STATUS_SUCCESS \<and> addr \<noteq> login_addr ag
      then ag\<lparr> client_readonly := True \<rparr> else ag\<lparr> login_addr := addr, client_readonly := False \<rparr>)"
  have snmp: "snmp ag0 = snmp ag" by (simp add: ag0_def)
  from assms(1) obtain buf where "process_client_request env buf (word_of_nat (length packet)) ag0 = Some ag'"
    unfolding wu_agent_turn_def Let_def ag0_def [symmetric] by (auto simp: bind_Some_iff)
  then obtain pdu where run: "(if a_tag (pdu_method pdu) = TagGetRequest then get_request_handler env pdu ag0
      else if a_tag (pdu_method pdu) = TagSetRequest then set_request_handler env pdu ag0 else Some ag0) = Some ag'"
    by (auto simp: process_client_request_def bind_Some_iff)
  have g: "get_keeps ?b (snmp ag0)" using assms(2) by (simp add: get_keeps_def snmp)
  have st: "set_keeps ?b (snmp ag0)" using assms(2,3) untouched_refl by (auto simp: set_keeps_def exclusive_def snmp)
  show ?thesis
  proof (cases "a_tag (pdu_method pdu) = TagGetRequest")
    case True
    with run have "get_request_handler env pdu ag0 = Some ag'" by simp
    from get_handler_keeps [OF this g assms(4)] assms(3) show ?thesis
      by (simp add: get_keeps_def session_def exclusive_def)
  next
    case ng: False
    show ?thesis
    proof (cases "a_tag (pdu_method pdu) = TagSetRequest")
      case True
      with ng run have "set_request_handler env pdu ag0 = Some ag'" by simp
      from set_handler_keeps [OF this st assms(4)] show ?thesis by (simp add: set_keeps_def)
    next
      case False
      with ng run snmp have "snmp ag' = snmp ag" by simp
      with assms(2,3) show ?thesis by simp
    qed
  qed
qed

end
