(* ===== verification/SnmpExchange.thy ===== *)
theory SnmpExchange
  imports SnmpSession
begin

unbundle bit_operations_syntax

text \<open>
  Requests and responses from end to end: the encoding of a request is parsed back, a get request of
  registered identifiers is answered with the encoding of the response, and what each value in it is.
\<close>

section \<open>Parsing a request\<close>

definition request_tlv ::
  "u8 \<Rightarrow> u8 list \<Rightarrow> u8 list \<Rightarrow> u8 list \<Rightarrow> u8 list \<Rightarrow> u8 list \<Rightarrow> u8 list \<Rightarrow> u8 list" where
  "request_tlv method ver com request_id es ei binds =
     tlv TagVar (tlv TagInt ver @ tlv TagString com
       @ tlv method (tlv TagInt request_id @ tlv TagInt es @ tlv TagInt ei @ tlv TagVar binds))"

lemma extract_one:
  assumes "readable tag content" "length (tlv tag content) \<le> unat sz"
  shows "extract_fix_atoms (Packet (tlv tag content @ rest), sz) [atom_tagged tag] =
    Some (0, (Packet rest, sz - word_of_nat (length (tlv tag content))), [packet_atom tag content rest])"
proof -
  have r: "readable (a_tag (atom_tagged tag)) content" "length (tlv (a_tag (atom_tagged tag)) content) \<le> unat sz"
    using assms by (simp_all add: atom_tagged_def)
  have nz: "\<not> unat sz \<le> 0" using assms(2) tlv_bounds(1) [of content tag] by simp
  then have sz: "sz \<noteq> 0" by auto
  have t: "a_tag (atom_tagged tag) = tag" by (simp add: atom_tagged_def)
  show ?thesis
    using extract_atom_tlv [OF r, of 0 rest "[]"] nz sz
    by (simp add: extract_fix_atoms_def t packet_atom_def)
qed

lemma packet_atom_simps [simp]:
  "a_tag (packet_atom tag content rest) = tag"
  "a_len (packet_atom tag content rest) = word_of_nat (length content)"
  "a_data (packet_atom tag content rest) = Packet (content @ rest)"
  by (simp_all add: packet_atom_def)

lemma extract_step:
  assumes "readable tag content" "used + length (tlv tag content) \<le> unat sz" "used < unat sz"
  shows "extract_loop sz used (tlv tag content @ rest) (atom_tagged tag # as) =
    do { (rc, used, data, as) \<leftarrow> extract_loop sz (used + length (tlv tag content)) rest as;
         Some (rc, used, data, packet_atom tag content rest # as) }"
  using extract_atom_tlv [of "atom_tagged tag" content sz used rest as] assms
  by (simp add: atom_tagged_def packet_atom_def not_le)

lemma extract_four:
  assumes "readable t1 c1" "readable t2 c2" "readable t3 c3" "readable t4 c4"
    and "unat sz = length (tlv t1 c1 @ tlv t2 c2 @ tlv t3 c3 @ tlv t4 c4)"
  shows "extract_fix_atoms (Packet (tlv t1 c1 @ tlv t2 c2 @ tlv t3 c3 @ tlv t4 c4 @ rest), sz)
      [atom_tagged t1, atom_tagged t2, atom_tagged t3, atom_tagged t4] =
    Some (0, (Packet rest, 0),
      [packet_atom t1 c1 (tlv t2 c2 @ tlv t3 c3 @ tlv t4 c4 @ rest), packet_atom t2 c2 (tlv t3 c3 @ tlv t4 c4 @ rest),
       packet_atom t3 c3 (tlv t4 c4 @ rest), packet_atom t4 c4 rest])"
proof -
  note b = tlv_bounds(1) [of c1 t1] tlv_bounds(1) [of c2 t2] tlv_bounds(1) [of c3 t3] tlv_bounds(1) [of c4 t4]
  have nz: "sz \<noteq> 0" using assms(5) b by auto
  have loop: "extract_loop sz 0 (tlv t1 c1 @ tlv t2 c2 @ tlv t3 c3 @ tlv t4 c4 @ rest)
      [atom_tagged t1, atom_tagged t2, atom_tagged t3, atom_tagged t4] =
    Some (0, unat sz, rest,
      [packet_atom t1 c1 (tlv t2 c2 @ tlv t3 c3 @ tlv t4 c4 @ rest), packet_atom t2 c2 (tlv t3 c3 @ tlv t4 c4 @ rest),
       packet_atom t3 c3 (tlv t4 c4 @ rest), packet_atom t4 c4 rest])"
    using assms(5) b by (simp add: extract_step assms(1-4) add.assoc del: extract_loop.simps(2))
  show ?thesis using nz by (simp add: extract_fix_atoms_def loop del: extract_loop.simps)
qed

text \<open>A request that is encoded is parsed into its parts.\<close>

definition request_fits :: "u8 \<Rightarrow> u8 list \<Rightarrow> u8 list \<Rightarrow> u8 list \<Rightarrow> u8 list \<Rightarrow> u8 list \<Rightarrow> u8 list \<Rightarrow> bool" where
  "request_fits method ver com rid es ei binds \<longleftrightarrow> method \<in> {TagGetRequest, TagSetRequest}
     \<and> length ver \<le> 4 \<and> length com \<le> COM_STR_SIZE \<and> length rid \<le> 4 \<and> length es \<le> 4 \<and> length ei \<le> 4
     \<and> length (request_tlv method ver com rid es ei binds) \<le> UDP_PKG_SIZE"

lemma parse_request_tlv:
  assumes "request_fits method ver com rid es ei binds"
  shows "parse_request (request_tlv method ver com rid es ei binds @ rest)
      (word_of_nat (length (request_tlv method ver com rid es ei binds))) =
    Some \<lparr> pdu_header = packet_atom TagVar (tlv TagInt ver @ tlv TagString com
             @ tlv method (tlv TagInt rid @ tlv TagInt es @ tlv TagInt ei @ tlv TagVar binds)) rest,
           pdu_version = packet_atom TagInt ver (tlv TagString com
             @ tlv method (tlv TagInt rid @ tlv TagInt es @ tlv TagInt ei @ tlv TagVar binds) @ rest),
           pdu_com = packet_atom TagString com
             (tlv method (tlv TagInt rid @ tlv TagInt es @ tlv TagInt ei @ tlv TagVar binds) @ rest),
           pdu_method = packet_atom method (tlv TagInt rid @ tlv TagInt es @ tlv TagInt ei @ tlv TagVar binds) rest,
           pdu_request_id = packet_atom TagInt rid (tlv TagInt es @ tlv TagInt ei @ tlv TagVar binds @ rest),
           pdu_error_status = packet_atom TagInt es (tlv TagInt ei @ tlv TagVar binds @ rest),
           pdu_error_index = packet_atom TagInt ei (tlv TagVar binds @ rest),
           pdu_variable_bindings = packet_atom TagVar binds rest \<rparr>"
proof -
  let ?v = "tlv TagInt ver" and ?c = "tlv TagString com"
  let ?args = "tlv TagInt rid @ tlv TagInt es @ tlv TagInt ei @ tlv TagVar binds"
  let ?m = "tlv method ?args"
  let ?msg = "?v @ ?c @ ?m"
  have req: "request_tlv method ver com rid es ei binds = tlv TagVar ?msg" by (simp add: request_tlv_def)
  note b = tlv_bounds(1) [of ?msg TagVar] tlv_bounds(1) [of ?args "method"] tlv_bounds(1) [of binds TagVar]
  have len: "length (tlv TagVar ?msg) \<le> 2048" using assms by (simp add: request_fits_def req UDP_PKG_SIZE_def)
  have r: "readable TagVar ?msg" "readable TagInt ver" "readable TagString com" "readable method ?args"
    "readable TagInt rid" "readable TagInt es" "readable TagInt ei" "readable TagVar binds"
    using assms len b by (auto simp: readable_def request_fits_def COM_STR_SIZE_def tags)
  have sz: "unat (word_of_nat k :: u16) = k" if "k \<le> 2048" for k using that by (simp add: unat_of_nat_less)
  have msg: "length ?msg \<le> 2048" "length ?args \<le> 2048" using b len by simp_all
  have e1: "extract_fix_atoms (Packet (tlv TagVar ?msg @ rest), word_of_nat (length (tlv TagVar ?msg))) [atom_tagged TagVar] =
      Some (0, (Packet rest, 0), [packet_atom TagVar ?msg rest])"
    using extract_one [OF r(1), of "word_of_nat (length (tlv TagVar ?msg))" rest] sz [OF len] by simp
  have e2: "extract_fix_atoms (Packet (?v @ ?c @ ?m @ rest), word_of_nat (length ?msg)) [atom_tagged TagInt] =
      Some (0, (Packet (?c @ ?m @ rest), word_of_nat (length (?c @ ?m))), [packet_atom TagInt ver (?c @ ?m @ rest)])"
    using extract_one [OF r(2), of "word_of_nat (length ?msg)" "?c @ ?m @ rest"] sz [OF msg(1)] by simp
  have cm: "length (?c @ ?m) \<le> 2048" "length ?m \<le> 2048" using msg(1) by simp_all
  have e3: "extract_fix_atoms (Packet (?c @ ?m @ rest), word_of_nat (length (?c @ ?m))) [atom_tagged TagString] =
      Some (0, (Packet (?m @ rest), word_of_nat (length ?m)), [packet_atom TagString com (?m @ rest)])"
    using extract_one [OF r(3), of "word_of_nat (length (?c @ ?m))" "?m @ rest"] sz [OF cm(1)] by simp
  have p4: "pop_atom (Packet (?m @ rest), word_of_nat (length ?m)) (atom_tagged 0) =
      Some (0, (Packet rest, 0), packet_atom method ?args rest)"
    using pop_atom_packet [OF r(4), of "word_of_nat (length ?m)" rest "atom_tagged 0"] sz [OF cm(2)] by simp
  have e5: "extract_fix_atoms (Packet (?args @ rest), word_of_nat (length ?args))
      [atom_tagged TagInt, atom_tagged TagInt, atom_tagged TagInt, atom_tagged TagVar] =
      Some (0, (Packet rest, 0), [packet_atom TagInt rid (tlv TagInt es @ tlv TagInt ei @ tlv TagVar binds @ rest),
        packet_atom TagInt es (tlv TagInt ei @ tlv TagVar binds @ rest), packet_atom TagInt ei (tlv TagVar binds @ rest),
        packet_atom TagVar binds rest])"
    using extract_four [OF r(5-8), of "word_of_nat (length ?args)" rest] sz [OF msg(2)] by simp
  have com: "atom_bytes [] (packet_atom TagString com (?m @ rest)) = Some com"
    using atom_is_packet [OF r(3), of "[]" "?m @ rest"] by (simp add: atom_is_def packet_atom_def)
  have str: "\<exists>m. mem_write (replicate COM_STR_SIZE 0) 0 com = Some m"
    using assms by (simp add: mem_write_def request_fits_def)
  show ?thesis
    unfolding parse_request_def req using str
    by (auto simp: e1 e2 [simplified] e3 [simplified] p4 [simplified] e5 [simplified] com)
qed

section \<open>What the getters give for a list of identifiers\<close>

text \<open>
  The objects are asked one after the other; a number 0 at the end is the instance and not part of the
  identifier. \<open>prev\<close> is the identifier array of the binding before.
\<close>

fun get_values :: "board_env \<Rightarrow> u32 list list \<Rightarrow> u32 list \<Rightarrow> snmp_state \<Rightarrow> (u8 list list \<times> snmp_state) option" where
  "get_values env [] prev s = Some ([], s)"
| "get_values env (oid # oids) prev s =
     do {
       let array = oid @ drop (length oid) prev;
       k \<leftarrow> map_of snmp_registry (take (cut_instance oid) oid);
       g \<leftarrow> o_getter (snmp_objs ! k);
       let s = s\<lparr> objs := (objs s)[k := (objs s ! k)\<lparr> o_oid := array \<rparr>] \<rparr>;
       (rc, data, s) \<leftarrow> call_getter env (objs s ! k) g s;
       if rc \<noteq> 0 then None
       else do { (datas, s) \<leftarrow> get_values env oids array s; Some (data # datas, s) }
     }"

text \<open>The buffer of the binding after a value was copied to it.\<close>

definition overlay :: "u8 list \<Rightarrow> u8 list \<Rightarrow> u8 list" where
  "overlay data buf = data @ drop (length data) buf"

definition get_bind :: "u32 list \<Rightarrow> u8 list" where
  "get_bind oid = var_bind_tlv ((TagOID, encode_oid oid), (TagValue, []))"

definition askable :: "u32 list \<Rightarrow> bool" where
  "askable oid \<longleftrightarrow> oid_ok oid \<and> length oid \<le> WU_OID_MAX_SIZE"

definition answered :: "wu_snmp_var_bind \<Rightarrow> u32 list \<times> u8 list \<Rightarrow> bool" where
  "answered vb od \<longleftrightarrow> vb_error vb = noError \<and> (\<forall>buf. atom_is buf (vb_name vb) (TagOID, encode_oid (fst od)))
     \<and> vb_value vb = \<lparr> a_tag = TagString, a_len = word_of_nat (length (snd od)), a_data = VbBuf \<rparr>"

lemma overlay_length: "length data \<le> length buf \<Longrightarrow> length (overlay data buf) = length buf"
  by (simp add: overlay_def)

lemma get_process_value:
  assumes "snmp_ok s" "vb_ok vb" "vb_oid_len vb \<le> WU_OID_MAX_SIZE"
    and "map_of snmp_registry (asked_oid vb) = Some k" "o_getter (snmp_objs ! k) = Some g"
    and "call_getter env (objs (fix_oid k vb s) ! k) g (fix_oid k vb s) = Some (0, data, s')"
    and "length data \<le> length (vb_buf vb)"
  shows "get_request_process_var_bind env vb s =
    Some (vb\<lparr> vb_error := noError, vb_buf := overlay data (vb_buf vb),
      vb_value := \<lparr> a_tag = TagString, a_len = word_of_nat (length data), a_data = VbBuf \<rparr> \<rparr>, s')"
proof -
  have f: "find_oid_object (asked_oid vb) (oid_tree s) = Some (Some k)" using snmp_okD(2) [OF assms(1)] assms(4) by simp
  note fx = fix_oid_ok [OF assms(1) f assms(2,3)]
  have "mem_write (vb_buf vb) 0 data = Some (overlay data (vb_buf vb))" using assms(7) by (simp add: mem_write_def overlay_def)
  then show ?thesis
    using f fx(3) assms(5,6) by (simp add: get_request_process_var_bind_def Let_def)
qed

lemma get_values_ConsE:
  assumes "get_values env (oid # oids) prev s = Some (datas, s')"
  obtains k g data s1 ds where "map_of snmp_registry (take (cut_instance oid) oid) = Some k" "o_getter (snmp_objs ! k) = Some g"
    "call_getter env ((objs s)[k := (objs s ! k)\<lparr> o_oid := oid @ drop (length oid) prev \<rparr>] ! k) g
       (s\<lparr> objs := (objs s)[k := (objs s ! k)\<lparr> o_oid := oid @ drop (length oid) prev \<rparr>] \<rparr>) = Some (0, data, s1)"
    "get_values env oids (oid @ drop (length oid) prev) s1 = Some (ds, s')" "datas = data # ds"
  using assms by (auto simp: Let_def bind_Some_iff split: if_splits)

lemma get_values_length: "get_values env oids prev s = Some (datas, s') \<Longrightarrow> length datas = length oids"
  by (induction oids arbitrary: prev s datas) (auto elim!: get_values_ConsE simp del: get_values.simps(2))

lemma readable_null: "readable TagValue []"
  by (simp add: readable_def tags)

text \<open>The loop of the handler over the encoded bindings.\<close>

lemma get_loop:
  assumes "get_values env oids (vb_oid vb) s = Some (datas, s')" "snmp_ok s" "vb_ok vb" "\<forall>oid \<in> set oids. askable oid"
    and "\<forall>data \<in> set datas. length data \<le> length (vb_buf vb)" "length (vb_buf vb) < 65536"
    and "length oids \<le> n" "length (concat (map get_bind oids)) \<le> UDP_PKG_SIZE"
  shows "\<exists>vbs' vb'. request_loop (get_request_process_var_bind env) n
      (Packet (concat (map get_bind oids) @ rest), word_of_nat (length (concat (map get_bind oids)))) vb vbs s = Some (vbs @ vbs', vb', s')
    \<and> vb_buf vb' = fold overlay datas (vb_buf vb) \<and> list_all2 answered vbs' (zip oids datas)"
  using assms
proof (induction oids arbitrary: vb s datas n vbs)
  case Nil
  have "pop_var_bind (Packet rest, 0) vb = Some (-1, (Packet rest, 0), vb)" by (simp add: pop_var_bind_def pop_atom_def)
  with Nil show ?case by (cases n) auto
next
  case (Cons oid oids)
  from Cons.prems(1) obtain k g data s1 ds where k: "map_of snmp_registry (take (cut_instance oid) oid) = Some k"
    and g: "o_getter (snmp_objs ! k) = Some g"
    and call: "call_getter env ((objs s)[k := (objs s ! k)\<lparr> o_oid := oid @ drop (length oid) (vb_oid vb) \<rparr>] ! k) g
       (s\<lparr> objs := (objs s)[k := (objs s ! k)\<lparr> o_oid := oid @ drop (length oid) (vb_oid vb) \<rparr>] \<rparr>) = Some (0, data, s1)"
    and rest: "get_values env oids (oid @ drop (length oid) (vb_oid vb)) s1 = Some (ds, s')" and datas: "datas = data # ds"
    by (rule get_values_ConsE)
  from Cons.prems(7) obtain m where n: "n = Suc m" "length oids \<le> m" by (cases n) auto
  have oid: "oid_ok oid" "length oid \<le> WU_OID_MAX_SIZE" using Cons.prems(4) by (simp_all add: askable_def)
  have ok: "length oid \<le> length (vb_oid vb)" using oid(2) Cons.prems(3) by (simp add: vb_ok_def)
  let ?tail = "concat (map get_bind oids)"
  have sz: "unat (word_of_nat (length (get_bind oid @ ?tail)) :: u16) = length (get_bind oid @ ?tail)"
    by (rule unat_of_nat_less) (use Cons.prems(8) in \<open>simp add: UDP_PKG_SIZE_def\<close>)
  let ?vb = "vb\<lparr> vb_name := packet_atom TagOID (encode_oid oid) (tlv TagValue [] @ ?tail @ rest),
      vb_value := packet_atom TagValue [] (?tail @ rest), vb_oid := oid @ drop (length oid) (vb_oid vb), vb_oid_len := cut_instance oid \<rparr>"
  have pop: "pop_var_bind (Packet (get_bind oid @ ?tail @ rest), word_of_nat (length (get_bind oid @ ?tail))) vb =
      Some (0, (Packet (?tail @ rest), word_of_nat (length ?tail)), ?vb)"
    using pop_var_bind_tlv [OF oid(1) ok, of TagValue "[]" "word_of_nat (length (get_bind oid @ ?tail))" "?tail @ rest",
      folded get_bind_def] sz readable_null by simp
  have vb: "vb_ok ?vb" "vb_oid_len ?vb \<le> WU_OID_MAX_SIZE" using ok oid(2) Cons.prems(3) by (auto simp: vb_ok_def cut_instance_def)
  have asked: "asked_oid ?vb = take (cut_instance oid) oid" by (simp add: asked_oid_def cut_instance_def)
  have fix_eq: "fix_oid k ?vb s = s\<lparr> objs := (objs s)[k := (objs s ! k)\<lparr> o_oid := oid @ drop (length oid) (vb_oid vb) \<rparr>] \<rparr>"
    by (simp add: fix_oid_def)
  let ?vb1 = "?vb\<lparr> vb_error := noError, vb_buf := overlay data (vb_buf ?vb),
      vb_value := \<lparr> a_tag = TagString, a_len = word_of_nat (length data), a_data = VbBuf \<rparr> \<rparr>"
  have c: "call_getter env (objs (fix_oid k ?vb s) ! k) g (fix_oid k ?vb s) = Some (0, data, s1)"
    unfolding fix_eq using call by simp
  have d: "length data \<le> length (vb_buf ?vb)" using Cons.prems(5) by (simp add: datas)
  have proc: "get_request_process_var_bind env ?vb s = Some (?vb1, s1)"
    by (rule get_process_value [OF Cons.prems(2) vb _ g c d]) (simp only: asked k)
  have ok1: "snmp_ok s1" "vb_ok ?vb1"
    using get_process_keeps [OF proc Cons.prems(2) vb] by simp_all
  have len: "length (encode_oid oid) < 65536"
    using Cons.prems(8) tlv_bounds(1) [of "encode_oid oid" TagOID] tlv_bounds(1) [of "tlv TagOID (encode_oid oid) @ tlv TagValue []" TagVar]
    by (simp add: get_bind_def var_bind_tlv_def UDP_PKG_SIZE_def)
  have "answered ?vb1 (oid, data)"
    using atom_is_packet [of TagOID "encode_oid oid"] len by (auto simp: answered_def packet_atom_def readable_def tags)
  moreover have "\<exists>vbs' vb'. request_loop (get_request_process_var_bind env) m (Packet (?tail @ rest), word_of_nat (length ?tail)) ?vb1
      (vbs @ [?vb1]) s1 = Some ((vbs @ [?vb1]) @ vbs', vb', s') \<and> vb_buf vb' = fold overlay ds (vb_buf ?vb1)
      \<and> list_all2 answered vbs' (zip oids ds)"
    by (rule Cons.IH) (use rest ok1 Cons.prems n datas in \<open>simp_all add: overlay_length\<close>)
  ultimately show ?case
    using pop proc by (fastforce simp: n(1) datas)
qed

section \<open>The answer to a get request\<close>

text \<open>The bindings of the answer: every value is read from the buffer as it is in the end.\<close>

definition answer_binds :: "u8 list \<Rightarrow> u32 list list \<Rightarrow> u8 list list \<Rightarrow> ((u8 \<times> u8 list) \<times> (u8 \<times> u8 list)) list" where
  "answer_binds buf oids datas =
     map (\<lambda>(oid, data). ((TagOID, encode_oid oid), (TagString, take (length data) buf))) (zip oids datas)"

definition get_answer :: "u8 list \<Rightarrow> u8 list \<Rightarrow> u8 list \<Rightarrow> u8 list \<Rightarrow> u32 list list \<Rightarrow> u8 list list \<Rightarrow> u8 list" where
  "get_answer ver com rid buf oids datas =
     response_tlv (TagInt, ver) (TagString, com) (TagInt, rid) [0] [0] (answer_binds buf oids datas)"

lemma no_errors:
  assumes "list_all2 answered vbs ods"
  shows "build_error vbs = ([0], [0])" "filter (\<lambda>vb. vb_error vb = 0) vbs = vbs"
proof -
  have e: "\<forall>vb \<in> set vbs. vb_error vb = 0"
    using assms by (fastforce simp: list_all2_conv_all_nth answered_def in_set_conv_nth noError_def)
  then show "filter (\<lambda>vb. vb_error vb = 0) vbs = vbs" by (rule filter_True)
  have "filter (\<lambda>(i, vb). vb_error vb \<noteq> 0) (enumerate 0 vbs) = []"
    using e by (auto simp: filter_empty_conv enumerate_eq_zip dest: set_zip_rightD)
  then show "build_error vbs = ([0], [0])" by (simp add: build_error_def)
qed

lemma atoms_of_answer:
  assumes "list_all2 answered vbs (zip oids datas)" "\<forall>data \<in> set datas. length data \<le> length buf" "length buf < 65536"
  shows "list_all2 (\<lambda>nv tb. atom_is buf (fst nv) (fst tb) \<and> atom_is buf (snd nv) (snd tb)) (map name_and_value vbs)
    (answer_binds buf oids datas)"
  unfolding answer_binds_def list_all2_map1 list_all2_map2
proof (rule list.rel_mono_strong [OF assms(1)])
  fix vb od assume "od \<in> set (zip oids datas)" "answered vb od"
  then have a: "answered vb od \<and> snd od \<in> set datas"
    using set_zip_rightD [of "fst od" "snd od" oids datas] by simp
  obtain oid data where od: "od = (oid, data)" by (cases od)
  from a assms(2,3) have l: "length data \<le> length buf" "length data < 65536" by (auto simp: od)
  then have n: "unat (word_of_nat (length data) :: u16) = length data" by (simp add: unat_of_nat_less)
  have z: "data = []" if "(word_of_nat (length data) :: u16) = 0" using n that by simp
  show "atom_is buf (fst (name_and_value vb)) (fst (case od of (oid, data) \<Rightarrow> ((TagOID, encode_oid oid), (TagString, take (length data) buf))))
    \<and> atom_is buf (snd (name_and_value vb)) (snd (case od of (oid, data) \<Rightarrow> ((TagOID, encode_oid oid), (TagString, take (length data) buf))))"
    using a l n z by (auto simp: od answered_def name_and_value_def atom_is_def atom_bytes_def mem_read_def)
qed

lemma fold_overlay_length:
  "\<forall>data \<in> set datas. length data \<le> length buf \<Longrightarrow> length (fold overlay datas buf) = length buf"
  by (induction datas arbitrary: buf) (simp_all add: overlay_length)

lemma get_handler_answers:
  assumes "snmp_ok (snmp ag)" "vb_ok (ae_vb env)" "length (vb_buf (ae_vb env)) = CATOM_BUF_SIZE"
    and "\<forall>oid \<in> set oids. askable oid" "length oids \<le> VARIABLE_BINDINGS" "length (concat (map get_bind oids)) \<le> UDP_PKG_SIZE"
    and "get_values (ae_board env) oids (vb_oid (ae_vb env)) (snmp ag) = Some (datas, s')"
    and "\<forall>data \<in> set datas. length data \<le> CATOM_BUF_SIZE"
    and "\<forall>i. length (c_buf (static_catoms ag i)) = CATOM_BUF_SIZE" "length (resp_data ag) = CATOM_BUF_SIZE"
    and "length ver \<le> 4" "length com \<le> COM_STR_SIZE" "length rid \<le> 4"
    and "pdu_version pdu = packet_atom TagInt ver r1" "pdu_com pdu = packet_atom TagString com r2"
      "pdu_request_id pdu = packet_atom TagInt rid r3"
      "pdu_variable_bindings pdu = packet_atom TagVar (concat (map get_bind oids)) r4"
    and "buf = fold overlay datas (vb_buf (ae_vb env))" "length (get_answer ver com rid buf oids datas) \<le> CATOM_BUF_SIZE"
  shows "\<exists>ag'. get_request_handler env pdu ag = Some ag' \<and> snmp ag' = s'
    \<and> mem_read (resp_data ag') 0 (unat (resp_size ag')) = Some (get_answer ver com rid buf oids datas)"
proof -
  have bl: "length buf = CATOM_BUF_SIZE" using fold_overlay_length [of datas "vb_buf (ae_vb env)"] assms(3,8,18) by simp
  from get_loop [OF assms(7,1,2,4), of VARIABLE_BINDINGS r4 "[]"] assms(3,5,6,8) obtain vbs vb' where
    loop: "request_loop (get_request_process_var_bind (ae_board env)) VARIABLE_BINDINGS
      (Packet (concat (map get_bind oids) @ r4), word_of_nat (length (concat (map get_bind oids)))) (ae_vb env) [] (snmp ag)
      = Some (vbs, vb', s')" and vb': "vb_buf vb' = buf" and ans: "list_all2 answered vbs (zip oids datas)"
    by (auto simp: CATOM_BUF_SIZE_def assms(18))
  have r: "readable TagInt ver" "readable TagString com" "readable TagInt rid"
    using assms(11-13) by (simp_all add: readable_def tags COM_STR_SIZE_def)
  have atoms: "atom_is buf (pdu_version pdu) (TagInt, ver)" "atom_is buf (pdu_com pdu) (TagString, com)"
    "atom_is buf (pdu_request_id pdu) (TagInt, rid)"
    using atom_is_packet [OF r(1)] atom_is_packet [OF r(2)] atom_is_packet [OF r(3)]
    by (simp_all add: assms(14-16) packet_atom_def)
  have binds: "list_all2 (\<lambda>nv tb. atom_is buf (fst nv) (fst tb) \<and> atom_is buf (snd nv) (snd tb)) (map name_and_value vbs)
      (answer_binds buf oids datas)"
    by (rule atoms_of_answer [OF ans]) (use assms(8) bl in \<open>simp_all add: CATOM_BUF_SIZE_def\<close>)
  from build_response_rep [OF assms(9) atoms binds, of "[0]" "[0]"] assms(19) obtain cs where
    cs: "build_response pdu buf [0] [0] (map name_and_value vbs) (static_catoms ag) = Some cs"
      "length (c_buf (cs CHeader)) = CATOM_BUF_SIZE"
      "2 + unat (c_len (cs CHeader)) = length (get_answer ver com rid buf oids datas)"
      "take (2 + unat (c_len (cs CHeader))) (c_buf (cs CHeader)) = get_answer ver com rid buf oids datas"
    unfolding get_answer_def by blast
  have n: "unat (c_len (cs CHeader) + 2) = length (get_answer ver com rid buf oids datas)"
    using cs(3) assms(19) by (simp add: unat_plus_if' CATOM_BUF_SIZE_def)
  have "response_bytes cs (resp_data ag) = Some (c_len (cs CHeader) + 2,
      get_answer ver com rid buf oids datas @ drop (length (get_answer ver com rid buf oids datas)) (resp_data ag))"
    using cs n assms(10,19) by (simp add: response_bytes_def mem_read_def mem_write_def Let_def)
  with loop cs(1) have "get_request_handler env pdu ag = Some (ag\<lparr> snmp := s', static_catoms := cs,
      resp_size := c_len (cs CHeader) + 2,
      resp_data := get_answer ver com rid buf oids datas @ drop (length (get_answer ver com rid buf oids datas)) (resp_data ag) \<rparr>)"
    using no_errors [OF ans] by (simp add: get_request_handler_def assms(17) vb')
  then show ?thesis using n by (simp add: mem_read_def)
qed

text \<open>The arrays of the agent have their sizes.\<close>

definition agent_buffers :: "agent_env \<Rightarrow> u8 list \<Rightarrow> agent \<Rightarrow> bool" where
  "agent_buffers env stale ag \<longleftrightarrow> vb_ok (ae_vb env) \<and> length (vb_buf (ae_vb env)) = CATOM_BUF_SIZE
     \<and> (\<forall>i. length (c_buf (static_catoms ag i)) = CATOM_BUF_SIZE) \<and> length (resp_data ag) = CATOM_BUF_SIZE
     \<and> length stale = UDP_PKG_SIZE"

definition final_buf :: "agent_env \<Rightarrow> u8 list list \<Rightarrow> u8 list" where
  "final_buf env datas = fold overlay datas (vb_buf (ae_vb env))"

text \<open>A get request that fits, what the getters give for it, and an answer that fits.\<close>

definition get_exchange ::
  "agent_env \<Rightarrow> u8 list \<Rightarrow> agent \<Rightarrow> u8 list \<Rightarrow> u8 list \<Rightarrow> u8 list \<Rightarrow> u32 list list \<Rightarrow> u8 list list \<Rightarrow> snmp_state \<Rightarrow> bool" where
  "get_exchange env stale ag ver com rid oids datas s' \<longleftrightarrow>
     snmp_ok (snmp ag) \<and> agent_buffers env stale ag
     \<and> request_fits TagGetRequest ver com rid [0] [0] (concat (map get_bind oids))
     \<and> list_all askable oids \<and> length oids \<le> VARIABLE_BINDINGS
     \<and> get_values (ae_board env) oids (vb_oid (ae_vb env)) (snmp ag) = Some (datas, s')
     \<and> list_all (\<lambda>data. length data \<le> CATOM_BUF_SIZE) datas
     \<and> length (get_answer ver com rid (final_buf env datas) oids datas) \<le> CATOM_BUF_SIZE"

lemma get_turn_answers:
  assumes "get_exchange env stale ag ver com rid oids datas s'"
  shows "\<exists>ag'. wu_agent_turn env addr (request_tlv TagGetRequest ver com rid [0] [0] (concat (map get_bind oids))) stale ag
    = Some (get_answer ver com rid (final_buf env datas) oids datas, ag') \<and> snmp ag' = s'"
proof -
  let ?binds = "concat (map get_bind oids)"
  let ?req = "request_tlv TagGetRequest ver com rid [0] [0] ?binds"
  note x = assms [unfolded get_exchange_def agent_buffers_def]
  from x have fits: "request_fits TagGetRequest ver com rid [0] [0] ?binds" by blast
  then have len: "length ?req \<le> UDP_PKG_SIZE" and small: "length ver \<le> 4" "length com \<le> COM_STR_SIZE" "length rid \<le> 4"
    by (simp_all add: request_fits_def)
  have binds: "length ?binds \<le> UDP_PKG_SIZE"
    using len tlv_bounds(1) [of ?binds TagVar] tlv_bounds(1) [of "tlv TagInt rid @ tlv TagInt [0] @ tlv TagInt [0] @ tlv TagVar ?binds" TagGetRequest]
      tlv_bounds(1) [of "tlv TagInt ver @ tlv TagString com @ tlv TagGetRequest (tlv TagInt rid @ tlv TagInt [0] @ tlv TagInt [0] @ tlv TagVar ?binds)" TagVar]
    by (simp add: request_tlv_def)
  have buf: "mem_write stale 0 ?req = Some (?req @ drop (length ?req) stale)"
    using x len by (simp add: mem_write_def)
  define ag0 where "ag0 = (if login_flag (board_of (snmp ag)) = SNMP_LOGIN_STATUS_SUCCESS \<and> addr \<noteq> login_addr ag
      then ag\<lparr> client_readonly := True \<rparr> else ag\<lparr> login_addr := addr, client_readonly := False \<rparr>)"
  have ag0: "snmp ag0 = snmp ag" "static_catoms ag0 = static_catoms ag" "resp_data ag0 = resp_data ag" by (simp_all add: ag0_def)
  note parse = parse_request_tlv [OF fits, of "drop (length ?req) stale"]
  let ?pdu = "the (parse_request (?req @ drop (length ?req) stale) (word_of_nat (length ?req)))"
  have "\<exists>ag'. get_request_handler env ?pdu ag0 = Some ag' \<and> snmp ag' = s'
      \<and> mem_read (resp_data ag') 0 (unat (resp_size ag')) = Some (get_answer ver com rid (final_buf env datas) oids datas)"
    by (rule get_handler_answers [OF _ _ _ _ _ binds _ _ _ _ small])
       (use x in \<open>simp_all add: ag0 parse list_all_iff final_buf_def\<close>)
  then obtain ag' where h: "get_request_handler env ?pdu ag0 = Some ag'" "snmp ag' = s'"
    "mem_read (resp_data ag') 0 (unat (resp_size ag')) = Some (get_answer ver com rid (final_buf env datas) oids datas)" by blast
  have "process_client_request env (?req @ drop (length ?req) stale) (word_of_nat (length ?req)) ag0 = Some ag'"
    unfolding process_client_request_def using h(1) by (simp add: parse)
  then have "wu_agent_turn env addr ?req stale ag = Some (get_answer ver com rid (final_buf env datas) oids datas, ag')"
    unfolding wu_agent_turn_def Let_def ag0_def [symmetric] using h(3) by (simp add: buf)
  with h(2) show ?thesis by blast
qed

text \<open>The last value copied is whole; a value of another binding is what the last ones left of it.\<close>

lemma fold_overlay_last: "datas \<noteq> [] \<Longrightarrow> take (length (last datas)) (fold overlay datas buf) = last datas"
proof (induction datas arbitrary: buf)
  case (Cons d ds)
  show ?case
  proof (cases "ds = []")
    case False
    with Cons.IH [OF False, of "overlay d buf"] show ?thesis by simp
  qed (simp add: overlay_def)
qed simp


text \<open>C34: The values of a request for several identifiers all point to one buffer: when they have the same
  length, the answer gives every one of the names the value of the last.\<close>

theorem get_values_alias:
  assumes "get_exchange env stale ag ver com rid oids datas s'" "\<forall>data \<in> set datas. length data = n" "datas \<noteq> []"
  shows "\<exists>ag'. wu_agent_turn env addr (request_tlv TagGetRequest ver com rid [0] [0] (concat (map get_bind oids))) stale ag
    = Some (response_tlv (TagInt, ver) (TagString, com) (TagInt, rid) [0] [0]
        (map (\<lambda>oid. ((TagOID, encode_oid oid), (TagString, last datas))) oids), ag')"
proof -
  have len: "length datas = length oids"
    using assms(1) by (auto simp: get_exchange_def dest: get_values_length)
  have "take n (final_buf env datas) = last datas"
    using fold_overlay_last [OF assms(3)] assms(2,3) by (simp add: final_buf_def)
  then have "answer_binds (final_buf env datas) oids datas = map (\<lambda>oid. ((TagOID, encode_oid oid), (TagString, last datas))) oids"
    using len assms(2) by (auto simp: answer_binds_def intro!: nth_equalityI)
  with get_turn_answers [OF assms(1), of addr] show ?thesis by (auto simp: get_answer_def)
qed

text \<open>What is on the agent's stack.\<close>

definition example_agent :: "snmp_state \<Rightarrow> agent" where
  "example_agent s =
     \<lparr> snmp = s, resp_data = replicate CATOM_BUF_SIZE 0, resp_size = 0, client_readonly = False,
       static_catoms = (\<lambda>_. \<lparr> c_len = 0, c_parent = None, c_son = None, c_buf = replicate CATOM_BUF_SIZE 0 \<rparr>),
       login_addr = 0 \<rparr>"

definition example_agent_env :: agent_env where
  "example_agent_env =
     \<lparr> ae_board = example_env,
       ae_catoms = (\<lambda>_. \<lparr> c_len = 0, c_parent = None, c_son = None, c_buf = replicate CATOM_BUF_SIZE 0 \<rparr>),
       ae_vb = \<lparr> vb_error = 0, vb_name = atom_tagged 0, vb_value = atom_tagged 0, vb_oid = replicate WU_OID_MAX_SIZE 0,
         vb_oid_len = 0, vb_buf = replicate CATOM_BUF_SIZE 0 \<rparr> \<rparr>"

lemma example_buffers: "agent_buffers example_agent_env (replicate UDP_PKG_SIZE 0) (example_agent s)"
  by (simp add: agent_buffers_def example_agent_env_def example_agent_def vb_ok_def)

lemma solo_registered: "n < 17 \<Longrightarrow> map_of snmp_registry (oid_of [solo_numbers ! n]) = Some (7 + n)"
proof (rule map_of_is_SomeI)
  show "distinct (map fst snmp_registry)" using registry_prefix_free unfolding prefix_free_def by blast
  assume n: "n < 17"
  have "(oid_of [solo_numbers ! n], 7 + n) \<in> set (map (\<lambda>k. (oid_of [solo_numbers ! k], 7 + k)) [0..<17])"
    unfolding set_map using n by (intro image_eqI [of _ _ n]) (simp_all del: upt_Suc)
  then show "(oid_of [solo_numbers ! n], 7 + n) \<in> set snmp_registry"
    unfolding snmp_registry_def set_append by blast
qed

lemma get_answer_bound:
  "length (get_answer ver com rid buf oids datas) \<le> length ver + length com + length rid + 40
     + sum_list (map (\<lambda>(oid, data). length (encode_oid oid) + length data + 12) (zip oids datas))"
proof -
  have vb: "length (concat (map var_bind_tlv (answer_binds buf oids datas)))
      \<le> sum_list (map (\<lambda>(oid, data). length (encode_oid oid) + length data + 12) (zip oids datas))"
    unfolding answer_binds_def
  proof (induction "zip oids datas" arbitrary: oids datas)
    case (Cons od ods)
    obtain oid data where od: "od = (oid, data)" by (cases od)
    let ?n = "tlv TagOID (encode_oid oid)" and ?v = "tlv TagString (take (length data) buf)"
    have "length (tlv TagVar (?n @ ?v)) \<le> length (encode_oid oid) + length data + 12"
      using tlv_bounds(2) [of TagVar "?n @ ?v"] tlv_bounds(2) [of TagOID "encode_oid oid"]
        tlv_bounds(2) [of TagString "take (length data) buf"] by simp
    moreover obtain os ds where "oids = oid # os" "datas = data # ds" "ods = zip os ds"
      using Cons.hyps(2) by (cases oids; cases datas) (auto simp: od)
    ultimately show ?case using Cons.hyps(1) [of os ds] by (simp add: var_bind_tlv_def)
  next
    case Nil
    show ?case unfolding Nil [symmetric] by simp
  qed
  let ?b = "concat (map var_bind_tlv (answer_binds buf oids datas))"
  let ?m = "tlv TagInt rid @ tlv TagInt [0] @ tlv TagInt [0] @ tlv TagVar ?b"
  note tlv_bounds(2) [of TagVar "tlv TagInt ver @ tlv TagString com @ tlv TagGetResponse ?m"] tlv_bounds(2) [of TagInt ver]
    tlv_bounds(2) [of TagString com] tlv_bounds(2) [of TagGetResponse ?m] tlv_bounds(2) [of TagInt rid]
    tlv_bounds(2) [of TagInt "[0]"] tlv_bounds(2) [of TagVar ?b]
  then show ?thesis using vb by (simp add: get_answer_def response_tlv_def)
qed

text \<open>The objects of the user and of the login, asked for in one request.\<close>

definition two_oids :: "u32 list list" where
  "two_oids = [oid_of [14], oid_of [100]]"

lemma user_login_registered:
  "map_of snmp_registry (oid_of [14]) = Some 9" "map_of snmp_registry (oid_of [100]) = Some 21"
  using solo_registered [of 2] solo_registered [of 14] by (simp_all add: solo_numbers_def)

lemma user_login_getters: "o_getter (snmp_objs ! 9) = Some User_get" "o_getter (snmp_objs ! 21) = Some Load_info_get"
  by code_simp+

lemma oid_of_cut: "last tail \<noteq> 0 \<Longrightarrow> tail \<noteq> [] \<Longrightarrow> \<forall>n \<in> set tail. n \<le> 200 \<Longrightarrow> take (cut_instance (oid_of tail)) (oid_of tail) = oid_of tail"
proof -
  assume t: "last tail \<noteq> 0" "tail \<noteq> []" "\<forall>n \<in> set tail. n \<le> 200"
  then have "last tail \<le> 200" by simp
  then have "unat (word_of_nat (last tail) :: u32) = last tail" by (simp add: unat_of_nat_less)
  with t(1) have "(word_of_nat (last tail) :: u32) \<noteq> 0" by auto
  then show ?thesis using t by (simp add: cut_instance_def oid_of_def last_map)
qed

lemma example_values:
  "\<exists>s'. get_values env [oid_of [14]] prev s =
     Some ([take LOAD_INFO_SIZE (user_mem (p_user (g_eeprom_param (board_of s))))], s')"
  "\<exists>s'. get_values env two_oids prev s =
     Some ([take LOAD_INFO_SIZE (user_mem (p_user (g_eeprom_param (board_of s)))), sg_mib_loadinfo s], s')"
  by (simp_all add: two_oids_def oid_of_cut user_login_registered user_login_getters user_get_def load_info_get_def Let_def)

lemma example_lengths: "length (encode_oid (oid_of [14])) = 7" "length (encode_oid (oid_of [100])) = 7"
  by code_simp+

lemma example_requests:
  "request_fits TagGetRequest [0] [] [1] [0] [0] (concat (map get_bind two_oids))"
  "request_fits TagGetRequest [0] [] [1] [0] [0] (concat (map get_bind [oid_of [14]]))"
  "list_all askable two_oids"
proof -
  have fits: "request_fits TagGetRequest [0] [] [1] [0] [0] binds" if "length binds \<le> 1000" for binds
    using that tlv_bounds(2) [of TagVar binds]
      tlv_bounds(2) [of TagGetRequest "tlv TagInt [1] @ tlv TagInt [0] @ tlv TagInt [0] @ tlv TagVar binds"]
      tlv_bounds(2) [of TagVar "tlv TagInt [0] @ tlv TagString [] @ tlv TagGetRequest (tlv TagInt [1] @ tlv TagInt [0] @ tlv TagInt [0] @ tlv TagVar binds)"]
      tlv_bounds(2) [of TagInt "[0]"] tlv_bounds(2) [of TagInt "[1]"] tlv_bounds(2) [of TagString "[]"]
    by (simp add: request_fits_def request_tlv_def UDP_PKG_SIZE_def)
  have bind: "length (get_bind oid) \<le> length (encode_oid oid) + 12" for oid
    using tlv_bounds(2) [of TagVar "tlv TagOID (encode_oid oid) @ tlv TagValue []"] tlv_bounds(2) [of TagOID "encode_oid oid"]
      tlv_bounds(2) [of TagValue "[]"]
    by (simp add: get_bind_def var_bind_tlv_def)
  show "request_fits TagGetRequest [0] [] [1] [0] [0] (concat (map get_bind two_oids))"
    "request_fits TagGetRequest [0] [] [1] [0] [0] (concat (map get_bind [oid_of [14]]))"
    using bind [of "oid_of [14]"] bind [of "oid_of [100]"] by (auto intro!: fits simp: two_oids_def example_lengths)
  show "list_all askable two_oids"
    by (simp add: two_oids_def askable_def oid_of_def XMUX_ROOT_OID_def oid_ok_def WU_OID_MAX_SIZE_def)
qed

lemma example_exchanges:
  assumes "snmp_ok s" "length (user_mem (p_user (g_eeprom_param (board_of s)))) \<ge> LOAD_INFO_SIZE" "length (sg_mib_loadinfo s) = LOAD_INFO_SIZE"
  shows "\<exists>s'. get_exchange example_agent_env (replicate UDP_PKG_SIZE 0) (example_agent s) [0] [] [1] [oid_of [14]]
      [take LOAD_INFO_SIZE (user_mem (p_user (g_eeprom_param (board_of s))))] s'"
    "\<exists>s'. get_exchange example_agent_env (replicate UDP_PKG_SIZE 0) (example_agent s) [0] [] [1] two_oids
      [take LOAD_INFO_SIZE (user_mem (p_user (g_eeprom_param (board_of s)))), sg_mib_loadinfo s] s'"
proof -
  let ?u = "take LOAD_INFO_SIZE (user_mem (p_user (g_eeprom_param (board_of s))))"
  have snmp: "snmp (example_agent s) = s" by (simp add: example_agent_def)
  have len: "length ?u = LOAD_INFO_SIZE" "LOAD_INFO_SIZE \<le> CATOM_BUF_SIZE"
    using assms(2) by (simp_all add: LOAD_INFO_SIZE_def CATOM_BUF_SIZE_def)
  have "length (get_answer [0] [] [1] buf [oid_of [14]] [?u]) \<le> CATOM_BUF_SIZE"
    "length (get_answer [0] [] [1] buf two_oids [?u, sg_mib_loadinfo s]) \<le> CATOM_BUF_SIZE" for buf
    using get_answer_bound [of "[0]" "[]" "[1]" buf "[oid_of [14]]" "[?u]"]
      get_answer_bound [of "[0]" "[]" "[1]" buf two_oids "[?u, sg_mib_loadinfo s]"] len assms(3)
    by (simp_all add: two_oids_def example_lengths LOAD_INFO_SIZE_def CATOM_BUF_SIZE_def)
  note b = this
  from example_values obtain s1 where "get_values (ae_board example_agent_env) [oid_of [14]] (vb_oid (ae_vb example_agent_env)) s = Some ([?u], s1)"
    by blast
  then have "get_exchange example_agent_env (replicate UDP_PKG_SIZE 0) (example_agent s) [0] [] [1] [oid_of [14]] [?u] s1"
    unfolding get_exchange_def snmp
    using assms(1) example_buffers example_requests(2,3) len b by (simp add: two_oids_def VARIABLE_BINDINGS_def)
  then show "\<exists>s'. get_exchange example_agent_env (replicate UDP_PKG_SIZE 0) (example_agent s) [0] [] [1] [oid_of [14]] [?u] s'" ..
  from example_values obtain s2 where "get_values (ae_board example_agent_env) two_oids (vb_oid (ae_vb example_agent_env)) s
      = Some ([?u, sg_mib_loadinfo s], s2)" by blast
  then have "get_exchange example_agent_env (replicate UDP_PKG_SIZE 0) (example_agent s) [0] [] [1] two_oids [?u, sg_mib_loadinfo s] s2"
    unfolding get_exchange_def snmp
    using assms example_buffers example_requests(1,3) len b by (simp add: two_oids_def VARIABLE_BINDINGS_def)
  then show "\<exists>s'. get_exchange example_agent_env (replicate UDP_PKG_SIZE 0) (example_agent s) [0] [] [1] two_oids [?u, sg_mib_loadinfo s] s'" ..
qed

lemma example_snmp_ok:
  "\<exists>os t. snmp_ok (example_snmp os t)"
proof -
  obtain t0 where "wu_agent_init 0 = Some t0" using init_total by blast
  from registered_all [OF this] show ?thesis by (auto simp: snmp_ok_def table_ok_def example_snmp_def)
qed

lemma example_credentials:
  "length (user_mem (p_user (g_eeprom_param (board_of (example_snmp os t))))) = 36"
  "length (sg_mib_loadinfo (example_snmp os t)) = LOAD_INFO_SIZE"
  using example_params_wf
  by (simp_all add: example_snmp_def example_board_def param_wf_def user_mem_def)


theorem get_values_alias_witness:
  "\<exists>s. snmp_ok s \<and> (\<exists>ag'. wu_agent_turn example_agent_env 7
      (request_tlv TagGetRequest [0] [] [1] [0] [0] (concat (map get_bind two_oids))) (replicate UDP_PKG_SIZE 0) (example_agent s)
    = Some (response_tlv (TagInt, [0]) (TagString, []) (TagInt, [1]) [0] [0]
        [((TagOID, encode_oid (oid_of [14])), (TagString, sg_mib_loadinfo s)),
         ((TagOID, encode_oid (oid_of [100])), (TagString, sg_mib_loadinfo s))], ag'))"
proof -
  obtain os t where ok: "snmp_ok (example_snmp os t)" using example_snmp_ok by blast
  let ?s = "example_snmp os t"
  let ?datas = "[take LOAD_INFO_SIZE (user_mem (p_user (g_eeprom_param (board_of ?s)))), sg_mib_loadinfo ?s]"
  from example_exchanges(2) [OF ok] example_credentials [of os t] obtain s' where
    x: "get_exchange example_agent_env (replicate UDP_PKG_SIZE 0) (example_agent ?s) [0] [] [1] two_oids ?datas s'"
    by (auto simp: LOAD_INFO_SIZE_def)
  have "\<forall>data \<in> set ?datas. length data = LOAD_INFO_SIZE" "?datas \<noteq> []"
    using example_credentials [of os t] by (simp_all add: LOAD_INFO_SIZE_def)
  from get_values_alias [OF x this, of 7] ok show ?thesis by (auto simp: two_oids_def)
qed

end
