(* ===== verification/SnmpSets.thy ===== *)
theory SnmpSets
  imports SnmpExchange
begin

unbundle bit_operations_syntax

text \<open>
  Set requests from end to end: who may write is decided by the login and by the address the datagram
  comes from, and the answer tells it.
\<close>

section \<open>One binding from the datagram to the answer\<close>

definition set_bind :: "u32 list \<Rightarrow> u8 \<Rightarrow> u8 list \<Rightarrow> u8 list" where
  "set_bind oid tag v = var_bind_tlv ((TagOID, encode_oid oid), (tag, v))"

text \<open>The binding as the handler pops it; \<open>rest\<close> follows the datagram in the receive buffer.\<close>

definition popped :: "u32 list \<Rightarrow> u8 \<Rightarrow> u8 list \<Rightarrow> u8 list \<Rightarrow> wu_snmp_var_bind \<Rightarrow> wu_snmp_var_bind" where
  "popped oid tag v rest vb =
     vb\<lparr> vb_name := packet_atom TagOID (encode_oid oid) (tlv tag v @ rest), vb_value := packet_atom tag v rest,
        vb_oid := oid @ drop (length oid) (vb_oid vb), vb_oid_len := cut_instance oid \<rparr>"

definition set_status :: "u8 \<Rightarrow> u8 list \<times> u8 list" where
  "set_status e = (if e = 0 then ([0], [0]) else ([e], [1]))"

definition set_answer :: "u8 list \<Rightarrow> u8 list \<Rightarrow> u8 list \<Rightarrow> u8 \<Rightarrow> u32 list \<Rightarrow> u8 \<Rightarrow> u8 list \<Rightarrow> u8 list" where
  "set_answer ver com rid e oid tag v =
     response_tlv (TagInt, ver) (TagString, com) (TagInt, rid) (fst (set_status e)) (snd (set_status e))
       [((TagOID, encode_oid oid), (tag, v))]"

text \<open>Another address than that of the manager who is logged in may only read.\<close>

definition writes_refused :: "u32 \<Rightarrow> agent \<Rightarrow> bool" where
  "writes_refused addr ag \<longleftrightarrow> login_flag (board_of (snmp ag)) = SNMP_LOGIN_STATUS_SUCCESS \<and> addr \<noteq> login_addr ag"

definition set_exchange ::
  "agent_env \<Rightarrow> u8 list \<Rightarrow> agent \<Rightarrow> u8 list \<Rightarrow> u8 list \<Rightarrow> u8 list \<Rightarrow> u32 list \<Rightarrow> u8 \<Rightarrow> u8 list \<Rightarrow> bool" where
  "set_exchange env stale ag ver com rid oid tag v \<longleftrightarrow>
     snmp_ok (snmp ag) \<and> agent_buffers env stale ag \<and> (\<forall>i. length (c_buf (ae_catoms env i)) = CATOM_BUF_SIZE)
     \<and> request_fits TagSetRequest ver com rid [0] [0] (set_bind oid tag v) \<and> askable oid \<and> readable tag v"

definition set_datagram :: "u8 list \<Rightarrow> u8 list \<Rightarrow> u8 list \<Rightarrow> u32 list \<Rightarrow> u8 \<Rightarrow> u8 list \<Rightarrow> u8 list" where
  "set_datagram ver com rid oid tag v = request_tlv TagSetRequest ver com rid [0] [0] (set_bind oid tag v)"

definition after_datagram :: "u8 list \<Rightarrow> u8 list \<Rightarrow> u8 list" where
  "after_datagram packet stale = drop (length packet) stale"

lemma tlv_size:
  assumes "length c \<le> UDP_PKG_SIZE"
  shows "length (tlv t c) = length c + (if length c > 255 then 4 else if length c \<ge> 128 then 3 else 2)"
proof -
  have "unat (word_of_nat (length c) :: u16) = length c"
    by (rule unat_of_nat_less) (use assms in \<open>simp add: UDP_PKG_SIZE_def\<close>)
  then show ?thesis by (simp add: tlv_def tlv_len_def word_less_nat_alt word_le_nat_alt)
qed

lemma tlv_mono:
  assumes "length c \<le> length c'" "length c' \<le> UDP_PKG_SIZE"
  shows "length (tlv t c) \<le> length (tlv t' c')"
  using assms by (simp add: tlv_size)

text \<open>The answer is not longer than the request.\<close>

lemma set_answer_fits:
  assumes "request_fits TagSetRequest ver com rid [0] [0] (set_bind oid tag v)" "length v' \<le> length v"
  shows "length (set_answer ver com rid e oid tag v') \<le> CATOM_BUF_SIZE"
proof -
  let ?n = "tlv TagOID (encode_oid oid)"
  let ?args = "\<lambda>es ei binds. tlv TagInt rid @ tlv TagInt es @ tlv TagInt ei @ tlv TagVar binds"
  let ?head = "tlv TagInt ver @ tlv TagString com"
  let ?es = "fst (set_status e)" and ?ei = "snd (set_status e)"
  let ?b = "set_bind oid tag v" and ?b' = "set_bind oid tag v'"
  note tlv = tlv_bounds(1)
  have req: "length (tlv TagVar (?head @ tlv TagSetRequest (?args [0] [0] ?b))) \<le> UDP_PKG_SIZE"
    using assms(1) by (simp add: request_fits_def request_tlv_def)
  then have m: "length (?head @ tlv TagSetRequest (?args [0] [0] ?b)) \<le> UDP_PKG_SIZE"
    using tlv [of "?head @ tlv TagSetRequest (?args [0] [0] ?b)" TagVar] by linarith
  then have a: "length (?args [0] [0] ?b) \<le> UDP_PKG_SIZE" using tlv [of "?args [0] [0] ?b" TagSetRequest] by simp
  then have b: "length ?b \<le> UDP_PKG_SIZE" using tlv [of ?b TagVar] by simp
  then have nv: "length (?n @ tlv tag v) \<le> UDP_PKG_SIZE" using tlv [of "?n @ tlv tag v" TagVar] by (simp add: set_bind_def var_bind_tlv_def)
  then have v: "length v \<le> UDP_PKG_SIZE" using tlv [of v tag] by simp
  have "length (tlv tag v') \<le> length (tlv tag v)" by (rule tlv_mono [OF assms(2) v])
  then have "length ?b' \<le> length ?b" unfolding set_bind_def var_bind_tlv_def using nv by (simp add: tlv_mono)
  then have bb: "length (tlv TagVar ?b') \<le> length (tlv TagVar ?b)" by (rule tlv_mono [OF _ b])
  have s: "length ?es = 1" "length ?ei = 1" by (simp_all add: set_status_def)
  then have se: "length (tlv TagInt ?es) = length (tlv TagInt [0])" "length (tlv TagInt ?ei) = length (tlv TagInt [0])"
    by (simp_all add: tlv_size UDP_PKG_SIZE_def)
  have "length (?args ?es ?ei ?b') \<le> length (?args [0] [0] ?b)" using bb se by simp
  then have "length (tlv TagGetResponse (?args ?es ?ei ?b')) \<le> length (tlv TagSetRequest (?args [0] [0] ?b))"
    by (rule tlv_mono [OF _ a])
  then have "length (?head @ tlv TagGetResponse (?args ?es ?ei ?b')) \<le> length (?head @ tlv TagSetRequest (?args [0] [0] ?b))"
    by simp
  then have "length (tlv TagVar (?head @ tlv TagGetResponse (?args ?es ?ei ?b')))
      \<le> length (tlv TagVar (?head @ tlv TagSetRequest (?args [0] [0] ?b)))" by (rule tlv_mono [OF _ m])
  with req have "length (tlv TagVar (?head @ tlv TagGetResponse (?args ?es ?ei ?b'))) \<le> UDP_PKG_SIZE" by linarith
  then show ?thesis
    by (simp add: set_answer_def response_tlv_def set_bind_def CATOM_BUF_SIZE_def UDP_PKG_SIZE_def)
qed

text \<open>The handler pops the one binding, processes it and answers with what became of it.\<close>

lemma set_handler_answers:
  assumes "vb_ok (ae_vb env)" "\<forall>i. length (c_buf (ae_catoms env i)) = CATOM_BUF_SIZE" "length (resp_data ag) = CATOM_BUF_SIZE"
    and fits: "request_fits TagSetRequest ver com rid [0] [0] (set_bind oid tag v)" and "askable oid" "readable tag v"
    and pdu: "pdu_version pdu = packet_atom TagInt ver r1" "pdu_com pdu = packet_atom TagString com r2"
      "pdu_request_id pdu = packet_atom TagInt rid r3" "pdu_variable_bindings pdu = packet_atom TagVar (set_bind oid tag v) r4"
    and proc: "set_request_process_var_bind (client_readonly ag) (popped oid tag v r4 (ae_vb env)) (snmp ag) = Some (vb2, s')"
    and "vb_name vb2 = vb_name (popped oid tag v r4 (ae_vb env))" "\<forall>buf. atom_is buf (vb_value vb2) (tag, v')" "length v' \<le> length v"
  shows "\<exists>ag'. set_request_handler env pdu ag = Some ag' \<and> snmp ag' = s'
    \<and> mem_read (resp_data ag') 0 (unat (resp_size ag')) = Some (set_answer ver com rid (vb_error vb2) oid tag v')"
proof -
  let ?answer = "set_answer ver com rid (vb_error vb2) oid tag v'" and ?e = "set_status (vb_error vb2)"
  have oid: "oid_ok oid" "length oid \<le> length (vb_oid (ae_vb env))" using assms(1,5) by (simp_all add: askable_def vb_ok_def)
  have len: "length ver \<le> 4" "length com \<le> COM_STR_SIZE" "length rid \<le> 4"
    "length (request_tlv TagSetRequest ver com rid [0] [0] (set_bind oid tag v)) \<le> UDP_PKG_SIZE"
    using fits by (simp_all add: request_fits_def)
  have binds: "length (set_bind oid tag v) \<le> UDP_PKG_SIZE"
    using len(4) tlv_bounds(1) [of "set_bind oid tag v" TagVar] tlv_bounds(1) [of "tlv TagInt rid @ tlv TagInt [0] @ tlv TagInt [0] @ tlv TagVar (set_bind oid tag v)" TagSetRequest]
      tlv_bounds(1) [of "tlv TagInt ver @ tlv TagString com @ tlv TagSetRequest (tlv TagInt rid @ tlv TagInt [0] @ tlv TagInt [0] @ tlv TagVar (set_bind oid tag v))" TagVar]
    by (simp add: request_tlv_def)
  then have sz: "unat (word_of_nat (length (set_bind oid tag v)) :: u16) = length (set_bind oid tag v)"
    by (simp add: unat_of_nat_less UDP_PKG_SIZE_def)
  have pop: "pop_var_bind (Packet (set_bind oid tag v @ r4), word_of_nat (length (set_bind oid tag v))) (ae_vb env) =
      Some (0, (Packet r4, 0), popped oid tag v r4 (ae_vb env))"
    using pop_var_bind_tlv [OF oid assms(6), of "word_of_nat (length (set_bind oid tag v))" r4, folded set_bind_def popped_def] sz by simp
  have "pop_var_bind (Packet r4, 0) vb2 = Some (-1, (Packet r4, 0), vb2)" by (simp add: pop_var_bind_def pop_atom_def)
  then have loop: "request_loop (set_request_process_var_bind (client_readonly ag)) VARIABLE_BINDINGS
      (Packet (set_bind oid tag v @ r4), word_of_nat (length (set_bind oid tag v))) (ae_vb env) [] (snmp ag) = Some ([vb2], vb2, s')"
    using pop proc by (simp add: VARIABLE_BINDINGS_def numeral_eq_Suc)
  have err: "build_error [vb2] = ?e" by (simp add: build_error_def set_status_def enumerate_eq_zip)
  have r: "readable TagInt ver" "readable TagString com" "readable TagInt rid" "readable TagOID (encode_oid oid)"
    using len binds tlv_bounds(1) [of "encode_oid oid" TagOID] tlv_bounds(1) [of "tlv TagOID (encode_oid oid) @ tlv tag v" TagVar]
    by (simp_all add: readable_def tags COM_STR_SIZE_def set_bind_def var_bind_tlv_def UDP_PKG_SIZE_def)
  have atoms: "atom_is (vb_buf vb2) (pdu_version pdu) (TagInt, ver)" "atom_is (vb_buf vb2) (pdu_com pdu) (TagString, com)"
    "atom_is (vb_buf vb2) (pdu_request_id pdu) (TagInt, rid)"
    using atom_is_packet [OF r(1)] atom_is_packet [OF r(2)] atom_is_packet [OF r(3)] by (simp_all add: pdu packet_atom_def)
  have nv: "list_all2 (\<lambda>nv tb. atom_is (vb_buf vb2) (fst nv) (fst tb) \<and> atom_is (vb_buf vb2) (snd nv) (snd tb))
      [name_and_value vb2] [((TagOID, encode_oid oid), (tag, v'))]"
    using atom_is_packet [OF r(4)] assms(12,13) by (simp add: name_and_value_def popped_def packet_atom_def)
  have ans: "length ?answer \<le> CATOM_BUF_SIZE" by (rule set_answer_fits [OF fits assms(14)])
  from build_response_rep [OF assms(2) atoms nv, of "fst ?e" "snd ?e"] ans obtain cs where
    cs: "build_response pdu (vb_buf vb2) (fst ?e) (snd ?e) [name_and_value vb2] (ae_catoms env) = Some cs"
      "length (c_buf (cs CHeader)) = CATOM_BUF_SIZE" "2 + unat (c_len (cs CHeader)) = length ?answer"
      "take (2 + unat (c_len (cs CHeader))) (c_buf (cs CHeader)) = ?answer"
    unfolding set_answer_def by blast
  have n: "unat (c_len (cs CHeader) + 2) = length ?answer"
    using cs(3) ans by (simp add: unat_plus_if' CATOM_BUF_SIZE_def)
  have "response_bytes cs (resp_data ag) = Some (c_len (cs CHeader) + 2, ?answer @ drop (length ?answer) (resp_data ag))"
    using cs n assms(3) ans by (simp add: response_bytes_def mem_read_def mem_write_def Let_def)
  with loop cs(1) have "set_request_handler env pdu ag = Some (ag\<lparr> snmp := s', resp_size := c_len (cs CHeader) + 2,
      resp_data := ?answer @ drop (length ?answer) (resp_data ag) \<rparr>)"
    by (simp add: set_request_handler_def pdu err case_prod_unfold Let_def)
  then show ?thesis using n by (simp add: mem_read_def)
qed

lemma set_turn_answers:
  assumes x: "set_exchange env stale ag ver com rid oid tag v"
    and rest: "rest = after_datagram (set_datagram ver com rid oid tag v) stale"
    and proc: "set_request_process_var_bind (writes_refused addr ag) (popped oid tag v rest (ae_vb env)) (snmp ag) = Some (vb2, s')"
    and out: "vb_name vb2 = vb_name (popped oid tag v rest (ae_vb env))" "\<forall>buf. atom_is buf (vb_value vb2) (tag, v')" "length v' \<le> length v"
  shows "\<exists>ag'. wu_agent_turn env addr (set_datagram ver com rid oid tag v) stale ag
    = Some (set_answer ver com rid (vb_error vb2) oid tag v', ag') \<and> snmp ag' = s'"
proof -
  let ?req = "set_datagram ver com rid oid tag v"
  note x = x [unfolded set_exchange_def agent_buffers_def]
  from x have fits: "request_fits TagSetRequest ver com rid [0] [0] (set_bind oid tag v)" by blast
  then have len: "length ?req \<le> UDP_PKG_SIZE" by (simp add: request_fits_def set_datagram_def)
  have buf: "mem_write stale 0 ?req = Some (?req @ rest)"
    using x len by (simp add: mem_write_def rest after_datagram_def)
  define ag0 where "ag0 = (if login_flag (board_of (snmp ag)) = SNMP_LOGIN_STATUS_SUCCESS \<and> addr \<noteq> login_addr ag
      then ag\<lparr> client_readonly := True \<rparr> else ag\<lparr> login_addr := addr, client_readonly := False \<rparr>)"
  have ag0: "snmp ag0 = snmp ag" "resp_data ag0 = resp_data ag" "client_readonly ag0 = writes_refused addr ag"
    by (simp_all add: ag0_def writes_refused_def)
  note parse = parse_request_tlv [OF fits, of rest, folded set_datagram_def]
  let ?pdu = "the (parse_request (?req @ rest) (word_of_nat (length ?req)))"
  have "\<exists>ag'. set_request_handler env ?pdu ag0 = Some ag' \<and> snmp ag' = s'
      \<and> mem_read (resp_data ag') 0 (unat (resp_size ag')) = Some (set_answer ver com rid (vb_error vb2) oid tag v')"
    by (rule set_handler_answers [OF _ _ _ fits, where ?r4.0 = rest])
       (use x out proc in \<open>simp_all add: ag0 parse\<close>)
  then obtain ag' where h: "set_request_handler env ?pdu ag0 = Some ag'" "snmp ag' = s'"
    "mem_read (resp_data ag') 0 (unat (resp_size ag')) = Some (set_answer ver com rid (vb_error vb2) oid tag v')" by blast
  have "process_client_request env (?req @ rest) (word_of_nat (length ?req)) ag0 = Some ag'"
    unfolding process_client_request_def using h(1) by (simp add: parse tags)
  then have "wu_agent_turn env addr ?req stale ag = Some (set_answer ver com rid (vb_error vb2) oid tag v', ag')"
    unfolding wu_agent_turn_def Let_def ag0_def [symmetric] using h(3) by (simp add: buf)
  with h(2) show ?thesis by blast
qed

section \<open>Who may write\<close>

lemma asked_popped: "asked_oid (popped oid tag v rest vb) = take (cut_instance oid) oid"
  by (simp add: asked_oid_def popped_def cut_instance_def)

lemma set_turn_refused:
  assumes "set_exchange env stale ag ver com rid oid tag v"
    and "map_of snmp_registry (take (cut_instance oid) oid) = Some k"
    and "writes_refused addr ag \<or> login_flag (board_of (snmp ag)) \<noteq> SNMP_LOGIN_STATUS_SUCCESS \<and> k \<noteq> 21"
  shows "\<exists>ag'. wu_agent_turn env addr (set_datagram ver com rid oid tag v) stale ag
    = Some (set_answer ver com rid (if writes_refused addr ag then readOnly else resourceUnavailable) oid tag v, ag')
    \<and> snmp ag' = snmp ag"
proof -
  let ?rest = "after_datagram (set_datagram ver com rid oid tag v) stale"
  let ?vb = "popped oid tag v ?rest (ae_vb env)"
  have ok: "snmp_ok (snmp ag)" "readable tag v" using assms(1) by (simp_all add: set_exchange_def)
  have f: "find_oid_object (asked_oid ?vb) (oid_tree (snmp ag)) = Some (Some k)"
    using snmp_okD(2) [OF ok(1)] assms(2) by (simp add: asked_popped)
  have k: "k < 24" using map_of_SomeD [OF assms(2)] registry_fits_obj by (auto simp: fits_obj_def)
  have "set_request_process_var_bind (writes_refused addr ag) ?vb (snmp ag) =
      Some (?vb\<lparr> vb_error := if writes_refused addr ag then readOnly else resourceUnavailable \<rparr>, snmp ag)"
    using assms(3) f only_login_object [OF snmp_okD(1) [OF ok(1)] k] by (auto simp: set_request_process_var_bind_def)
  from set_turn_answers [OF assms(1) refl this, of v] show ?thesis
    using atom_is_packet [OF ok(2)] by (simp add: popped_def packet_atom_def)
qed

text \<open>C32: A set request for any object but the login is refused as long as nobody is logged in, and any
  set request is refused that comes from another address than the manager's who is: the answer
  carries the error and the request's binding, and the state of the manager stays as it is.\<close>

theorem writes_need_login:
  assumes "set_exchange env stale ag ver com rid oid tag v"
    and "map_of snmp_registry (take (cut_instance oid) oid) = Some k"
    and "writes_refused addr ag \<or> login_flag (board_of (snmp ag)) \<noteq> SNMP_LOGIN_STATUS_SUCCESS \<and> k \<noteq> 21"
  shows "\<exists>ag'. wu_agent_turn env addr (set_datagram ver com rid oid tag v) stale ag
    = Some (set_answer ver com rid (if writes_refused addr ag then readOnly else resourceUnavailable) oid tag v, ag')
    \<and> snmp ag' = snmp ag"
  by (rule set_turn_refused [OF assms])

lemma login_object_found:
  assumes "snmp_ok s"
  shows "oid_is (objs s ! 21) load_oid"
proof -
  have same: "same_obj 21 (objs s ! 21)" using snmp_okD(1) [OF assms] by (simp add: same_objs_def)
  have o: "o_oid_len (snmp_objs ! 21) = 7" "take 7 (o_oid (snmp_objs ! 21)) = load_oid" "varies 21 = {}"
    "length (o_oid (snmp_objs ! 21)) = 20" by code_simp+
  have "take 7 (o_oid (objs s ! 21)) = take 7 (o_oid (snmp_objs ! 21))"
    using same o(1,3,4) by (auto simp: same_obj_def WU_OID_MAX_SIZE_def intro!: nth_equalityI)
  moreover have seven: "length load_oid = 7" by (simp add: load_oid_def XMUX_ROOT_OID_def)
  ultimately show ?thesis unfolding oid_is_def seven using same o by (simp add: same_obj_def)
qed


text \<open>A short request to the running agent.\<close>

lemma example_set:
  assumes "snmp_ok s" "readable TagString v" "length v \<le> 100" "oid \<in> {oid_of [14], oid_of [100]}"
  shows "set_exchange example_agent_env (replicate UDP_PKG_SIZE 0) (example_agent s) [0] [] [1] oid TagString v"
proof -
  let ?b = "set_bind oid TagString v"
  have "length ?b \<le> length v + 19"
    using tlv_bounds(2) [of TagVar "tlv TagOID (encode_oid oid) @ tlv TagString v"] tlv_bounds(2) [of TagOID "encode_oid oid"]
      tlv_bounds(2) [of TagString v] assms(4)
    by (auto simp: set_bind_def var_bind_tlv_def example_lengths)
  then have "request_fits TagSetRequest [0] [] [1] [0] [0] ?b"
    using assms(3) tlv_bounds(2) [of TagVar ?b]
      tlv_bounds(2) [of TagSetRequest "tlv TagInt [1] @ tlv TagInt [0] @ tlv TagInt [0] @ tlv TagVar ?b"]
      tlv_bounds(2) [of TagVar "tlv TagInt [0] @ tlv TagString [] @ tlv TagSetRequest (tlv TagInt [1] @ tlv TagInt [0] @ tlv TagInt [0] @ tlv TagVar ?b)"]
      tlv_bounds(2) [of TagInt "[0]"] tlv_bounds(2) [of TagInt "[1]"] tlv_bounds(2) [of TagString "[]"]
    by (simp add: request_fits_def request_tlv_def UDP_PKG_SIZE_def)
  moreover have "askable oid"
    using assms(4) by (auto simp: askable_def oid_of_def XMUX_ROOT_OID_def oid_ok_def WU_OID_MAX_SIZE_def)
  moreover have "\<forall>i. length (c_buf (ae_catoms example_agent_env i)) = CATOM_BUF_SIZE" by (simp add: example_agent_env_def)
  ultimately show ?thesis
    using assms(1,2) example_buffers by (simp add: set_exchange_def example_agent_def)
qed

theorem writes_need_login_witness:
  "\<exists>s. \<exists>ag'. wu_agent_turn example_agent_env 7 (set_datagram [0] [] [1] (oid_of [14]) TagString [1]) (replicate UDP_PKG_SIZE 0)
      (example_agent s) = Some (set_answer [0] [] [1] resourceUnavailable (oid_of [14]) TagString [1], ag') \<and> snmp ag' = s"
proof -
  obtain os t where ok: "snmp_ok (example_snmp os t)" using example_snmp_ok by blast
  let ?ag = "example_agent (example_snmp os t)"
  have x: "set_exchange example_agent_env (replicate UDP_PKG_SIZE 0) ?ag [0] [] [1] (oid_of [14]) TagString [1]"
    by (rule example_set [OF ok]) (simp_all add: readable_def tags)
  have k: "map_of snmp_registry (take (cut_instance (oid_of [14])) (oid_of [14])) = Some 9"
    using oid_of_cut [of "[14]"] user_login_registered(1) by simp
  have l: "login_flag (board_of (snmp ?ag)) \<noteq> SNMP_LOGIN_STATUS_SUCCESS" "\<not> writes_refused 7 ?ag" "snmp ?ag = example_snmp os t"
    by (simp_all add: example_agent_def example_snmp_def example_board_def writes_refused_def login_codes)
  from writes_need_login [OF x k, of 7] l obtain ag' where
    "wu_agent_turn example_agent_env 7 (set_datagram [0] [] [1] (oid_of [14]) TagString [1]) (replicate UDP_PKG_SIZE 0)
      (example_agent (example_snmp os t)) = Some (set_answer [0] [] [1] resourceUnavailable (oid_of [14]) TagString [1], ag')"
    "snmp ag' = example_snmp os t" by auto
  then show ?thesis by blast
qed


end
