(* ===== verification/Manager.thy ===== *)
theory Manager
  imports SnmpSets
begin

unbundle bit_operations_syntax

text \<open>
  The whole manager: start-up and main loop of \<^verbatim>\<open>src/main.c\<close>, and the interleaving of its threads, the
  panel, the SNMP agent, the analysis and the main loop, each turn of a thread being one step. The
  exclusion of panel and SNMP manager holds in every state that is reached.
\<close>

section \<open>Start-up\<close>

definition xmux_net_restore :: "board \<Rightarrow> board" where
  "xmux_net_restore b =
     (let net = p_net (g_eeprom_param b)
      in if \<not> xmux_net_param_validate net then b
         else log_hw [NetParam (ip net) (netmask net) (gateway net) (mac net)] b)"

definition restore_work_field :: "snmp_state \<Rightarrow> snmp_state option" where
  "restore_work_field s =
     do {
       let s = on_board (\<lambda>b. log_hw [PidMapWrite (pid_map_table_apply (p_pid_map_table (g_eeprom_param b)))] b) s;
       writes \<leftarrow> psi_apply_from_output_psi (p_output_psi (g_eeprom_param (board_of s)));
       let s = on_board (log_hw (map (\<lambda>(howto, bytes). PsiBuffer howto bytes) writes)) s;
       let s = enable_snmp_connection_check (disable_snmp_connection_check s);
       Some (on_board (\<lambda>b. log_hw [OutputBitrate (output_bitrate (p_sys (g_eeprom_param b))),
         PacketLength (format (p_sys (g_eeprom_param b)))] b) s)
     }"

text \<open>
  What \<^verbatim>\<open>main\<close> does before its loop, to the variables as the program starts with them. The serial
  ports and sockets are I/O; the name of the agent is an address.
\<close>

definition main_start :: "u32 \<Rightarrow> snmp_state \<Rightarrow> snmp_state option" where
  "main_start name s =
     do {
       b \<leftarrow> xmux_config_load_from_eeprom (board_of s);
       b \<leftarrow> enter_fp_management_mode (xmux_net_restore b);
       s \<leftarrow> restore_work_field (s\<lparr> board_of := leave_fp_management_mode b \<rparr>);
       let s = on_board (\<lambda>b. b\<lparr> fp_swait := wu_swait_init (fp_swait b), worker := psi_worker_open \<rparr>) s;
       t \<leftarrow> wu_agent_init name;
       (os, t) \<leftarrow> xmux_snmp_register_all_oids (snmp_objs, t);
       Some (s\<lparr> objs := os, oid_tree := t \<rparr>)
     }"

section \<open>The turns of the threads\<close>

definition main_turn :: "snmp_state \<Rightarrow> snmp_state option" where
  "main_turn s = pid_trans_info_save_check (on_board check_and_save_output_psi_data (xmux_snmp_check_connection s))"

text \<open>The analysis thread: the results are in place when it ends; the one for SNMP renews the heart beat.\<close>

definition analysis_turn :: "si_decoder \<Rightarrow> (nat \<Rightarrow> bool) \<Rightarrow> snmp_state \<Rightarrow> snmp_state option" where
  "analysis_turn dec stop s =
     (let b = board_of s; w = psi_worker_thread (worker b)
      in case running (worker b) of
           None \<Rightarrow> Some (s\<lparr> board_of := b\<lparr> worker := w \<rparr> \<rparr>)
         | Some m \<Rightarrow>
             if m = MANAGEMENT_MODE_FP then do {
               (f, st, t, total) \<leftarrow> fp_psi_parse dec (fp b) (psi_parse b);
               Some (s\<lparr> board_of := b\<lparr> fp := f, psi_parse := st, input_pid_table := t, worker := w \<rparr> \<rparr>)
             }
             else do {
               st \<leftarrow> uvSI_psi_parse dec stop (psi_parse b);
               Some (xmux_snmp_update_heart_device_time (s\<lparr> board_of := b\<lparr> psi_parse := st, worker := w \<rparr> \<rparr>))
             })"

datatype manager_event =
    PanelMessage board_env "u8 list"
  | Datagram agent_env u32 "u8 list" "u8 list"
  | AnalysisTurn si_decoder "nat \<Rightarrow> bool"
  | MainTurn
  | Seconds nat

definition on_snmp :: "(snmp_state \<Rightarrow> snmp_state option) \<Rightarrow> agent \<Rightarrow> agent option" where
  "on_snmp f ag = do { s \<leftarrow> f (snmp ag); Some (ag\<lparr> snmp := s \<rparr>) }"

fun manager_step :: "manager_event \<Rightarrow> agent \<Rightarrow> agent option" where
  "manager_step (PanelMessage env buf) ag =
     on_snmp (\<lambda>s. do { (rc, resp, b) \<leftarrow> do_parse_mcu_cmd env buf (board_of s); Some (s\<lparr> board_of := b \<rparr>) }) ag"
| "manager_step (Datagram env addr packet stale) ag =
     do { (resp, ag) \<leftarrow> wu_agent_turn env addr packet stale ag; Some ag }"
| "manager_step (AnalysisTurn dec stop) ag = on_snmp (analysis_turn dec stop) ag"
| "manager_step MainTurn ag = on_snmp main_turn ag"
| "manager_step (Seconds n) ag = on_snmp (\<lambda>s. Some (s\<lparr> clock := clock s + n \<rparr>)) ag"

text \<open>The array of the identifier in the binding on the stack of the agent has its size.\<close>

fun event_ok :: "manager_event \<Rightarrow> bool" where
  "event_ok (Datagram env addr packet stale) = vb_ok (ae_vb env)"
| "event_ok _ = True"

inductive reachable :: "agent \<Rightarrow> bool" where
  start: "main_start name (snmp ag) = Some s \<Longrightarrow> reachable (ag\<lparr> snmp := s \<rparr>)"
| turn: "reachable ag \<Longrightarrow> event_ok e \<Longrightarrow> manager_step e ag = Some ag' \<Longrightarrow> reachable ag'"

section \<open>The exclusion\<close>

definition mode_ok :: "board \<Rightarrow> bool" where
  "mode_ok b \<longleftrightarrow> exclusive b \<and> management_mode b \<in> {MANAGEMENT_MODE_SNMP, MANAGEMENT_MODE_FP}"

lemma mode_ok_session: "mode_ok b \<Longrightarrow> session b' = session b \<Longrightarrow> mode_ok b'"
  by (auto simp: mode_ok_def exclusive_def session_def)

lemma mode_ok_enter: "enter_fp_management_mode b = Some b' \<Longrightarrow> mode_ok b'"
  by (auto dest!: enter_session simp: mode_ok_def exclusive_def login_codes)

lemma mode_ok_leave: "mode_ok (leave_fp_management_mode b)"
  by (simp add: mode_ok_def exclusive_def leave_session mode_values)

lemma mode_ok_sys:
  assumes "cmd_sys_handler env hdr buf b = Some (rc, resp, b')" "mode_ok b"
  shows "mode_ok b'"
proof -
  let ?c = "READ_U16_BE (body buf)"
  consider (enter) "?c = FP_SYS_CMD_ENTER_FP_MANAGEMENT_MODE" "management_mode b = MANAGEMENT_MODE_SNMP"
    | (leave) "?c = FP_SYS_CMD_LEAVE_FP_MANAGEMENT_MODE" "management_mode b = MANAGEMENT_MODE_FP"
    | (stay) "\<not> (?c = FP_SYS_CMD_ENTER_FP_MANAGEMENT_MODE \<and> management_mode b = MANAGEMENT_MODE_SNMP)"
      "\<not> (?c = FP_SYS_CMD_LEAVE_FP_MANAGEMENT_MODE \<and> management_mode b = MANAGEMENT_MODE_FP)"
    by blast
  then show ?thesis
  proof cases
    case enter
    with assms(1) have "enter_fp_management_mode b = Some b'" by (auto simp: cmd_sys_handler_def Let_def bind_Some_iff)
    then show ?thesis by (rule mode_ok_enter)
  next
    case leave
    with assms(1) have "b' = leave_fp_management_mode b" by (simp add: cmd_sys_handler_def Let_def sys_cmds)
    then show ?thesis by (simp add: mode_ok_leave)
  next
    case stay
    from assms(2) session_sys [OF assms(1) stay] show ?thesis by (rule mode_ok_session)
  qed
qed

lemma mode_ok_message:
  assumes "do_parse_mcu_cmd env buf b = Some (rc, resp, b')" "mode_ok b"
  shows "mode_ok b'"
proof (cases "sync (buf_2_fp_cmd_header buf) = defMcuSyncFlag")
  case False
  with assms show ?thesis by (simp add: do_parse_mcu_cmd_def Let_def)
next
  case True
  have chk: "mode_ok b1" if c: "front_panel_check_recv_cmd buf b = Some (r, b1)" for r b1
  proof (rule check_session [OF c])
    fix b2 assume "if mode_exempt (cmd_of buf) (reads buf) buf \<or> management_mode b = MANAGEMENT_MODE_FP then b2 = b
        else enter_fp_management_mode b = Some b2" and s: "session b1 = session b2"
    with assms(2) mode_ok_enter have "mode_ok b2" by (auto split: if_splits)
    from this s show ?thesis by (rule mode_ok_session)
  qed
  from assms(1) True refl refl refl show ?thesis
  proof (cases rule: do_parse_cases)
    case (expected rc1)
    with chk show ?thesis by simp
  next
    case (program b1)
    from program_handler_session [OF program(2)] have "mode_ok b' = mode_ok b1"
      by (auto simp: mode_ok_def exclusive_def session_def)
    with chk [OF program(1)] show ?thesis by simp
  next
    case (sys b1)
    from mode_ok_sys [OF sys(3) chk [OF sys(1)]] show ?thesis .
  next
    case (other b1)
    have "session b' = session b1" using other(3) by (auto dest: session_other session_rf)
    with chk [OF other(1)] show ?thesis by (rule mode_ok_session)
  qed
qed

definition manager_ok :: "agent \<Rightarrow> bool" where
  "manager_ok ag \<longleftrightarrow> snmp_ok (snmp ag) \<and> mode_ok (board_of (snmp ag))"

lemma save_check_frame: "pid_trans_info_save_check s = Some s' \<Longrightarrow> frame s' = frame s"
  by (auto simp: pid_trans_info_save_check_def bind_Some_iff frame_board split: if_splits dest: session_save_trans)

lemma session_save_psi [simp]: "session (check_and_save_output_psi_data b) = session b"
  by (simp add: check_and_save_output_psi_data_def Let_def)

lemma main_turn_keeps:
  assumes "main_turn s = Some s'"
  shows "objs s' = objs s \<and> oid_tree s' = oid_tree s \<and> (mode_ok (board_of s) \<longrightarrow> mode_ok (board_of s'))"
proof -
  have "frame s' = frame (on_board check_and_save_output_psi_data (xmux_snmp_check_connection s))"
    using assms by (simp add: main_turn_def save_check_frame)
  then have f: "frame s' = frame (xmux_snmp_check_connection s)" by simp
  have c: "objs (xmux_snmp_check_connection s) = objs s" "oid_tree (xmux_snmp_check_connection s) = oid_tree s"
    "mode_ok (board_of s) \<Longrightarrow> mode_ok (board_of (xmux_snmp_check_connection s))"
    by (simp_all add: xmux_snmp_check_connection_def on_board_def mode_ok_def exclusive_def login_codes)
  from f have "session (board_of s') = session (board_of (xmux_snmp_check_connection s))"
    "objs s' = objs (xmux_snmp_check_connection s)" "oid_tree s' = oid_tree (xmux_snmp_check_connection s)"
    by (simp_all add: frame_def)
  with c show ?thesis using mode_ok_session by metis
qed

lemma analysis_turn_keeps:
  assumes "analysis_turn dec stop s = Some s'"
  shows "objs s' = objs s \<and> oid_tree s' = oid_tree s \<and> (mode_ok (board_of s) \<longrightarrow> mode_ok (board_of s'))"
  using assms
  by (auto simp: analysis_turn_def Let_def bind_Some_iff mode_ok_def exclusive_def xmux_snmp_update_heart_device_time_def
      split: option.splits if_splits)

lemma start_ok:
  assumes "main_start name s = Some s'"
  shows "snmp_ok s' \<and> mode_ok (board_of s')"
proof -
  from assms obtain b s1 t os t' where rest: "restore_work_field (s\<lparr> board_of := leave_fp_management_mode b \<rparr>) = Some s1"
    and t: "wu_agent_init name = Some t" "xmux_snmp_register_all_oids (snmp_objs, t) = Some (os, t')"
    and s': "s' = (on_board (\<lambda>b. b\<lparr> fp_swait := wu_swait_init (fp_swait b), worker := psi_worker_open \<rparr>) s1)\<lparr> objs := os, oid_tree := t' \<rparr>"
    by (auto simp: main_start_def bind_Some_iff Let_def)
  have "table_ok os t'" using registered_all [OF t(1)] t(2) by (simp add: table_ok_def)
  moreover have "session (board_of s1) = session (leave_fp_management_mode b)"
    using rest by (auto simp: restore_work_field_def bind_Some_iff Let_def on_board_def disable_snmp_connection_check_def
        enable_snmp_connection_check_def xmux_snmp_update_heart_device_time_def)
  then have "session (board_of s') = session (leave_fp_management_mode b)" by (simp add: s' on_board_def)
  with mode_ok_leave have "mode_ok (board_of s')" by (rule mode_ok_session)
  ultimately show ?thesis by (simp add: s' snmp_ok_def)
qed

lemma manager_ok_cong:
  assumes "manager_ok ag" "objs (snmp ag') = objs (snmp ag)" "oid_tree (snmp ag') = oid_tree (snmp ag)"
    "mode_ok (board_of (snmp ag')) \<or> board_of (snmp ag') = board_of (snmp ag)"
  shows "manager_ok ag'"
  using assms by (auto simp: manager_ok_def snmp_ok_def)

lemma turn_ok:
  assumes "wu_agent_turn env addr packet stale ag = Some (resp, ag')" "manager_ok ag" "vb_ok (ae_vb env)"
  shows "manager_ok ag'"
  using turn_keeps [OF assms(1) _ _ assms(3)] assms(2) by (simp add: manager_ok_def mode_ok_def)

lemma step_ok:
  assumes "manager_step e ag = Some ag'" "manager_ok ag" "event_ok e"
  shows "manager_ok ag'"
proof -
  have mode: "mode_ok (board_of (snmp ag))" using assms(2) by (simp add: manager_ok_def)
  show ?thesis
  proof (cases e)
    case (PanelMessage env buf)
    with assms(1) obtain rc resp b where "do_parse_mcu_cmd env buf (board_of (snmp ag)) = Some (rc, resp, b)"
      and ag': "ag' = ag\<lparr> snmp := (snmp ag)\<lparr> board_of := b \<rparr> \<rparr>"
      by (auto simp: on_snmp_def bind_Some_iff)
    from mode_ok_message [OF this(1) mode] show ?thesis
      by (intro manager_ok_cong [OF assms(2)]) (simp_all add: ag')
  next
    case (Datagram env addr packet stale)
    with assms(1) obtain resp where "wu_agent_turn env addr packet stale ag = Some (resp, ag')" by (auto simp: bind_Some_iff)
    from turn_ok [OF this assms(2)] assms(3) Datagram show ?thesis by simp
  next
    case (AnalysisTurn dec stop)
    with assms(1) obtain s where s: "analysis_turn dec stop (snmp ag) = Some s" and ag': "ag' = ag\<lparr> snmp := s \<rparr>"
      by (auto simp: on_snmp_def bind_Some_iff)
    from analysis_turn_keeps [OF s] mode show ?thesis
      by (intro manager_ok_cong [OF assms(2)]) (simp_all add: ag')
  next
    case MainTurn
    with assms(1) obtain s where s: "main_turn (snmp ag) = Some s" and ag': "ag' = ag\<lparr> snmp := s \<rparr>"
      by (auto simp: on_snmp_def bind_Some_iff)
    from main_turn_keeps [OF s] mode show ?thesis
      by (intro manager_ok_cong [OF assms(2)]) (simp_all add: ag')
  next
    case (Seconds n)
    with assms(1) show ?thesis by (intro manager_ok_cong [OF assms(2)]) (auto simp: on_snmp_def)
  qed
qed

lemma reachable_ok: "reachable ag \<Longrightarrow> manager_ok ag"
proof (induction rule: reachable.induct)
  case (start name ag s)
  from start_ok [OF start] show ?case by (simp add: manager_ok_def)
next
  case (turn ag e ag')
  then show ?case by (blast intro: step_ok)
qed

text \<open>A datagram whose request is not a get.\<close>

definition request_of :: "u8 list \<Rightarrow> u8 list \<Rightarrow> wu_snmp_pdu option" where
  "request_of packet stale = do { buf \<leftarrow> mem_write stale 0 packet; parse_request buf (word_of_nat (length packet)) }"

lemma other_request_keeps:
  assumes "wu_agent_turn env addr packet stale ag = Some (resp, ag')"
    and "request_of packet stale = Some pdu" "a_tag (pdu_method pdu) \<noteq> TagGetRequest"
    and "set_keeps b (snmp ag)" "vb_ok (ae_vb env)"
  shows "set_keeps b (snmp ag')"
proof -
  let ?b = "board_of (snmp ag)"
  define ag0 where "ag0 = (if login_flag ?b = SNMP_LOGIN_STATUS_SUCCESS \<and> addr \<noteq> login_addr ag
      then ag\<lparr> client_readonly := True \<rparr> else ag\<lparr> login_addr := addr, client_readonly := False \<rparr>)"
  have snmp: "snmp ag0 = snmp ag" by (simp add: ag0_def)
  from assms(2) obtain buf where buf: "mem_write stale 0 packet = Some buf" "parse_request buf (word_of_nat (length packet)) = Some pdu"
    by (auto simp: request_of_def bind_Some_iff)
  from assms(1) have "process_client_request env buf (word_of_nat (length packet)) ag0 = Some ag'"
    unfolding wu_agent_turn_def Let_def ag0_def [symmetric] by (auto simp: bind_Some_iff buf(1))
  with assms(3) have run: "(if a_tag (pdu_method pdu) = TagSetRequest then set_request_handler env pdu ag0 else Some ag0) = Some ag'"
    by (simp add: process_client_request_def buf(2))
  have k: "set_keeps b (snmp ag0)" using assms(4) by (simp add: snmp)
  show ?thesis
  proof (cases "a_tag (pdu_method pdu) = TagSetRequest")
    case True
    with run have "set_request_handler env pdu ag0 = Some ag'" by simp
    from set_handler_keeps [OF this k assms(5)] show ?thesis .
  next
    case False
    with run k show ?thesis by simp
  qed
qed


text \<open>Requests never spoil the table of objects: in every reachable state the search finds for each
  identifier the object it was registered with, with the getter and setter of the table.\<close>

theorem objects_stay_registered:
  assumes "reachable ag"
  shows "find_oid_object oid (oid_tree (snmp ag)) = Some (map_of snmp_registry oid)
    \<and> map o_getter (objs (snmp ag)) = map o_getter snmp_objs \<and> map o_setter (objs (snmp ag)) = map o_setter snmp_objs"
proof -
  have ok: "snmp_ok (snmp ag)" using reachable_ok [OF assms] by (simp add: manager_ok_def)
  note same = snmp_okD(1) [OF ok, unfolded same_objs_def same_obj_def]
  have "map o_getter (objs (snmp ag)) = map o_getter snmp_objs" "map o_setter (objs (snmp ag)) = map o_setter snmp_objs"
    using same by (auto intro!: nth_equalityI simp: snmp_objs_length)
  with snmp_okD(2) [OF ok] show ?thesis by simp
qed

section \<open>Start-up completes\<close>

definition pids_small :: "xmux_program_info \<Rightarrow> bool" where
  "pids_small i \<longleftrightarrow> (\<forall>pid \<in> set (program_input_pids i). unat pid \<le> unat NULL_PID)"

definition programs_small :: "fp_state \<Rightarrow> bool" where
  "programs_small s \<longleftrightarrow> length (g_prog_info_table s) = 512 \<and> length (g_chan_num s) = 8
     \<and> (\<forall>p \<in> set (g_prog_info_table s). pids_small (info p))"

definition record_small :: "pid_trans_info_snmp_data \<Rightarrow> bool" where
  "record_small d \<longleftrightarrow> length (programs d) = PROGRAM_MAX_NUM \<and> unat (nprogs d) \<le> PROGRAM_MAX_NUM
     \<and> (\<forall>k < unat (nprogs d). pids_small (pc_info (programs d ! k)))"

lemma programs_small_set: "programs_small s \<Longrightarrow> pids_small (info p) \<Longrightarrow> programs_small (set_prog_at s i p)"
  by (auto simp: programs_small_def set_prog_at_def dest: set_update_subset_insert [THEN subsetD])

lemma prog_zero_small: "pids_small (info prog_zero)"
proof -
  have "prog_num (info prog_zero) = 0" by code_simp
  then show ?thesis by (simp add: pids_small_def program_input_pids_def)
qed

lemma load_program_small:
  assumes "load_program d c s k = Some t" "programs_small s" "pids_small (pc_info (programs d ! k))"
  shows "programs_small t"
  using assms by (auto simp: load_program_def Let_def bind_Some_iff split: if_splits intro!: programs_small_set)

lemma load_channel_small:
  assumes "pid_trans_info_2_prog_info_of_channel c d s = Some t" "programs_small s" "record_small d"
  shows "programs_small t"
proof -
  have z: "programs_small (foldl (\<lambda>s k. set_prog_at s (prog_index c k) prog_zero) s ks)" if "programs_small s" for ks s
    using that by (induction ks arbitrary: s) (simp_all add: programs_small_set prog_zero_small)
  have s: "programs_small (s\<lparr> g_chan_num := (g_chan_num s)[c := x] \<rparr>)" for x using assms(2) by (simp add: programs_small_def)
  show ?thesis
  proof (cases "nprogs d = 0")
    case True
    with assms(1) z [OF s] show ?thesis by (auto simp: pid_trans_info_2_prog_info_of_channel_def Let_def)
  next
    case False
    with assms(1) have "foldM (load_program d c) (s\<lparr> g_chan_num := (g_chan_num s)[c := nprogs d] \<rparr>) [0..<unat (nprogs d)] = Some t"
      by (simp add: pid_trans_info_2_prog_info_of_channel_def Let_def)
    then show ?thesis
      by (rule foldM_invariant [where P = programs_small, OF s]) (use assms(3) load_program_small in \<open>auto simp: record_small_def\<close>)
  qed
qed

lemma load_table_small:
  assumes "pid_trans_info_2_prog_info table s = Some t" "programs_small s" "\<forall>c < CHANNEL_MAX_NUM. record_small (table ! c)"
  shows "programs_small t"
  by (rule foldM_invariant [where P = programs_small, OF assms(2) assms(1) [unfolded pid_trans_info_2_prog_info_def]])
     (use assms(3) load_channel_small in auto)

lemma input_table_total: "programs_small s \<Longrightarrow> \<exists>t. fp_build_program_input_pid_table s = Some t"
  using count_pids [of "concat (map (program_input_pids \<circ> info) (g_prog_info_table s))" "replicate (unat NULL_PID + 1) 0"]
  by (fastforce simp: fp_build_program_input_pid_table_def programs_small_def pids_small_def less_Suc_eq_le)

lemma enter_total:
  assumes "programs_small (fp b)" "\<forall>c < CHANNEL_MAX_NUM. record_small (p_pid_trans_info (g_eeprom_param b) ! c)"
  shows "\<exists>b'. enter_fp_management_mode b = Some b' \<and> hw b' = hw b \<and> programs_small (fp b')
    \<and> (\<exists>m. g_eeprom_param b' = (g_eeprom_param b)\<lparr> p_misc := m \<rparr>)"
proof -
  have "length (g_prog_info_table (fp b)) = 512" "length (g_chan_num (fp b)) = 8"
    using assms(1) by (simp_all add: programs_small_def)
  from load_all [OF this, of "p_pid_trans_info (g_eeprom_param b)"] assms(2) obtain f where
    f: "pid_trans_info_2_prog_info (p_pid_trans_info (g_eeprom_param b)) (fp b) = Some f"
    by (auto simp: record_small_def limit_simps)
  note small = load_table_small [OF f assms]
  from input_table_total [OF small] obtain t where t: "fp_build_program_input_pid_table f = Some t" ..
  show ?thesis
    using small
    by (auto simp: enter_fp_management_mode_def f t Let_def xmux_config_save_management_mode_def upd_param_def write_eeprom_def)
qed

lemma leave_keeps:
  "hw (leave_fp_management_mode b) = hw b"
  "\<exists>m. g_eeprom_param (leave_fp_management_mode b) = (g_eeprom_param b)\<lparr> p_misc := m \<rparr>"
  by (auto simp: leave_fp_management_mode_def Let_def xmux_config_save_management_mode_def upd_param_def write_eeprom_def)

text \<open>Loading keeps everything of the board that is not of the store.\<close>

lemma more_if: "xmux.more s = m \<Longrightarrow> xmux.more t = m \<Longrightarrow> xmux.more (if c then s else t) = m"
  by simp

lemma more_let:
  "xmux.more s = m \<Longrightarrow> (\<And>s. xmux.more s = m \<Longrightarrow> \<forall>y. f s = Some y \<longrightarrow> xmux.more y = m) \<Longrightarrow> \<forall>y. Let s f = Some y \<longrightarrow> xmux.more y = m"
  unfolding Let_def by blast

lemma more_bind:
  "(\<And>x. \<forall>y. h x = Some y \<longrightarrow> xmux.more y = m) \<Longrightarrow> \<forall>y. Option.bind ox h = Some y \<longrightarrow> xmux.more y = m"
  unfolding bind_Some_iff by blast

lemma more_some: "xmux.more s = m \<Longrightarrow> \<forall>y. Some s = Some y \<longrightarrow> xmux.more y = m"
  by simp

lemmas more_rules = more_if more_let more_bind more_some

lemma more_ops:
  "xmux.more (upd_param g s) = xmux.more s" "xmux.more (write_eeprom a bs s) = xmux.more s"
  "xmux.more (xmux_system_param_init_default s) = xmux.more s" "xmux.more (xmux_user_param_init_default s) = xmux.more s"
  by (simp_all add: upd_param_def write_eeprom_def xmux_system_param_init_default_def xmux_user_param_init_default_def save_defs Let_def)

lemma load_more:
  assumes "xmux_config_load_from_eeprom s = Some s'"
  shows "xmux.more s' = xmux.more s"
proof -
  have "\<forall>y. xmux_eeprom_param_validate t = Some y \<longrightarrow> xmux.more y = xmux.more t" for t :: "'a xmux_scheme"
    unfolding xmux_eeprom_param_validate_def
    by (intro more_rules) (simp_all add: more_ops Let_def)
  with assms show ?thesis by (auto simp: xmux_config_load_from_eeprom_def bind_Some_iff Let_def more_ops)
qed

lemma load_frame:
  fixes b :: board
  assumes "xmux_config_load_from_eeprom b = Some b'"
  shows "fp b' = fp b \<and> hw b' = hw b \<and> fp_expect_cmd b' = fp_expect_cmd b"
  using load_more [OF assms] by (cases b; cases b') simp

lemma overlay_psi_wf: "psi_wf psi \<Longrightarrow> length bs \<le> OUTPUT_PSI_AREA_SIZE \<Longrightarrow> psi_wf (overlay_psi bs psi)"
  using psi.enc_length [of psi] by (simp add: overlay_psi_def psi_wf_def psi_of_mem_def psi_sizes)

text \<open>The records the EEPROM holds can be checked.\<close>

definition records_checkable :: "board \<Rightarrow> bool" where
  "records_checkable b \<longleftrightarrow> length (p_pid_trans_info (g_eeprom_param b)) = CHANNEL_MAX_NUM
     \<and> (\<forall>c < CHANNEL_MAX_NUM. trans_checkable (read_trans_channel (eeprom b) c (p_pid_trans_info (g_eeprom_param b) ! c)))"

lemma loaded_psi_ok:
  assumes "records_checkable b" "xmux_config_load_from_eeprom b = Some b'" "psi_wf (p_output_psi (g_eeprom_param b))"
  shows "psi_wf (p_output_psi (g_eeprom_param b'))" "output_psi_data_validate (p_output_psi (g_eeprom_param b'))"
proof -
  let ?s = "upd_param (load_params (eeprom b)) b"
  note trans = load_trans_params [where p = "g_eeprom_param b" and m = "eeprom b"]
  have len: "length (p_pid_trans_info (g_eeprom_param ?s)) = CHANNEL_MAX_NUM"
    using assms(1) trans(1) by (simp add: records_checkable_def upd_param_def)
  have "\<forall>c < CHANNEL_MAX_NUM. pid_trans_info_validate (p_pid_trans_info (g_eeprom_param ?s) ! c) \<noteq> None"
    using assms(1) trans(2) checkable_validates by (simp add: records_checkable_def upd_param_def)
  from validate_result [OF len this] obtain u s' where s': "xmux_eeprom_param_validate ?s = Some s'"
    "g_eeprom_param s' = repaired u (g_eeprom_param ?s)" by blast
  with assms(2) have "g_eeprom_param b' = repaired u (g_eeprom_param ?s)"
    by (auto simp: xmux_config_load_from_eeprom_def Let_def)
  then have e: "p_output_psi (g_eeprom_param b') = (let psi = load_output_psi (eeprom b) (p_output_psi (g_eeprom_param b))
      in if output_psi_data_validate psi then psi else output_psi_data_clear psi)"
    by (simp add: repaired_def upd_param_def load_params_def load_misc_params_def Let_def)
  have "psi_wf (load_output_psi (eeprom b) (p_output_psi (g_eeprom_param b)))"
    using assms(3) by (auto simp: load_output_psi_def Let_def psi_used_size_def psi_sizes eeprom_read_def intro!: overlay_psi_wf)
  moreover have "psi_wf (output_psi_data_clear psi)" for psi by (simp add: output_psi_data_clear_def psi_wf_def psi_zero_def)
  ultimately show "psi_wf (p_output_psi (g_eeprom_param b'))" "output_psi_data_validate (p_output_psi (g_eeprom_param b'))"
    using psi_clear_validates by (auto simp: e Let_def)
qed

text \<open>C35: Start-up completes and puts the board to work: from any parameters the load gives whose records are
  whole and name PIDs below 0x2000, \<open>main\<close> reaches its loop with the SNMP manager in charge and nobody
  logged in, and has given the hardware the network parameters if they are valid, the stored PID map,
  the stored tables, the bit rate and the packet length, in this order.\<close>

theorem start_up_completes:
  assumes "records_checkable (board_of s)" "xmux_config_load_from_eeprom (board_of s) = Some b"
    and "programs_small (fp (board_of s))" "\<forall>c < CHANNEL_MAX_NUM. record_small (p_pid_trans_info (g_eeprom_param b) ! c)"
    and "psi_wf (p_output_psi (g_eeprom_param (board_of s)))"
  shows "\<exists>s' writes. main_start name s = Some s'
    \<and> management_mode (board_of s') = MANAGEMENT_MODE_SNMP \<and> login_flag (board_of s') = SNMP_LOGIN_STATUS_IDLE
    \<and> psi_apply_from_output_psi (p_output_psi (g_eeprom_param b)) = Some writes
    \<and> hw (board_of s') = hw (board_of s)
        @ (let net = p_net (g_eeprom_param b)
           in if xmux_net_param_validate net then [NetParam (ip net) (netmask net) (gateway net) (mac net)] else [])
        @ [PidMapWrite (pid_map_table_apply (p_pid_map_table (g_eeprom_param b)))]
        @ map (\<lambda>(howto, bytes). PsiBuffer howto bytes) writes
        @ [OutputBitrate (output_bitrate (p_sys (g_eeprom_param b))), PacketLength (format (p_sys (g_eeprom_param b)))]"
proof -
  let ?n = "xmux_net_restore b"
  have n: "fp ?n = fp b" "g_eeprom_param ?n = g_eeprom_param b"
    "hw ?n = hw b @ (let net = p_net (g_eeprom_param b)
       in if xmux_net_param_validate net then [NetParam (ip net) (netmask net) (gateway net) (mac net)] else [])"
    by (simp_all add: xmux_net_restore_def Let_def log_hw_def)
  note fr = load_frame [OF assms(2)]
  from enter_total [of ?n] assms(3,4) fr obtain b1 m where b1: "enter_fp_management_mode ?n = Some b1" "hw b1 = hw ?n"
    "g_eeprom_param b1 = (g_eeprom_param b)\<lparr> p_misc := m \<rparr>" by (auto simp: n)
  from leave_keeps [of b1] obtain m2 where b2: "hw (leave_fp_management_mode b1) = hw ?n"
    "g_eeprom_param (leave_fp_management_mode b1) = (g_eeprom_param b)\<lparr> p_misc := m2 \<rparr>" by (auto simp: b1(2,3))
  from psi_apply_total [OF loaded_psi_ok [OF assms(1,2,5)]] obtain writes where w: "psi_apply_from_output_psi (p_output_psi (g_eeprom_param b)) = Some writes" ..
  obtain t where t: "wu_agent_init name = Some t" using init_total by blast
  from registered_all [OF t] obtain os t' where r: "xmux_snmp_register_all_oids (snmp_objs, t) = Some (os, t')" by blast
  let ?s = "s\<lparr> board_of := leave_fp_management_mode b1 \<rparr>"
  obtain s1 where s1: "restore_work_field ?s = Some s1" and hw: "hw (board_of s1) = hw ?n
      @ [PidMapWrite (pid_map_table_apply (p_pid_map_table (g_eeprom_param b)))] @ map (\<lambda>(howto, bytes). PsiBuffer howto bytes) writes
      @ [OutputBitrate (output_bitrate (p_sys (g_eeprom_param b))), PacketLength (format (p_sys (g_eeprom_param b)))]"
    and mode: "management_mode (board_of s1) = management_mode (leave_fp_management_mode b1)"
      "login_flag (board_of s1) = login_flag (leave_fp_management_mode b1)"
    by (simp add: restore_work_field_def on_board_def b2 w log_hw_def disable_snmp_connection_check_def
        enable_snmp_connection_check_def xmux_snmp_update_heart_device_time_def set_connection_check_def)
  have start: "main_start name s = Some ((on_board (\<lambda>b. b\<lparr> fp_swait := wu_swait_init (fp_swait b), worker := psi_worker_open \<rparr>) s1)
      \<lparr> objs := os, oid_tree := t' \<rparr>)"
    by (simp add: main_start_def assms(2) b1(1) s1 t r)
  show ?thesis
    unfolding start using w mode hw n(3) fr by (simp add: on_board_def leave_session)
qed

text \<open>The manager on a device that holds valid parameters and no programs.\<close>

definition example_boot :: snmp_state where
  "example_boot = (example_snmp snmp_objs (wutree_new 0))\<lparr> board_of := example_board\<lparr> fp := zero_table \<rparr> \<rparr>"

lemma example_boot:
  "board_of example_boot = example_board\<lparr> fp := zero_table \<rparr>"
  "programs_small (fp (board_of example_boot))" "psi_wf (p_output_psi (g_eeprom_param (board_of example_boot)))"
  "eeprom (board_of example_boot) = eeprom example_xmux" "g_eeprom_param (board_of example_boot) = example_params"
  using example_params_wf
  by (simp_all add: example_boot_def zero_table_def programs_small_def prog_zero_small example_board_def example_xmux_def param_wf_part)

lemma example_params_trans:
  "c < CHANNEL_MAX_NUM \<Longrightarrow> p_pid_trans_info example_params ! c = trans_zero"
  "trans_compact trans_zero" "nprogs trans_zero = 0" "trans_wf trans_zero"
  "length (p_pid_trans_info example_params) = CHANNEL_MAX_NUM"
  by (simp_all add: example_params_def trans_compact_def trans_zero_wf) (simp_all add: trans_zero_def)

lemma example_boot_checkable: "records_checkable (board_of example_boot)"
proof -
  have "bytes_agree example_params (eeprom example_xmux)"
    using stored_bytes_agree [OF example_stored(1,2)] by (simp add: example_xmux_def)
  from read_trans_stored [OF this example_params_wf] have
    "read_trans_channel (eeprom example_xmux) c trans_zero = trans_over trans_zero trans_zero" if "c < CHANNEL_MAX_NUM" for c
    using that example_params_trans by simp
  moreover have "trans_checkable (trans_over trans_zero trans_zero)"
    by (simp add: trans_checkable_def trans_over_def example_params_trans)
  ultimately show ?thesis by (simp add: records_checkable_def example_boot(4,5) example_params_trans)
qed

lemma example_boot_loads:
  obtains b where "xmux_config_load_from_eeprom (board_of example_boot) = Some b"
    "\<forall>c < CHANNEL_MAX_NUM. record_small (p_pid_trans_info (g_eeprom_param b) ! c)"
    "p_net (g_eeprom_param b) = p_net example_params"
proof -
  have small: "\<forall>d \<in> set (p_pid_trans_info example_params). trans_compact d \<and> nprogs d = 0"
    "unat (pkt_nr (p_output_psi example_params)) \<le> OUTPUT_PSI_PACKET_MAX_NUM"
    by (simp_all add: example_params_def example_params_trans) (simp add: psi_zero_def)
  have x: "g_eeprom_param example_xmux = example_params" by (simp add: example_xmux_def)
  have "\<exists>r'. xmux_config_load_from_eeprom (board_of example_boot) = Some r'
    \<and> params_kept (g_eeprom_param example_xmux) (g_eeprom_param r')
    \<and> eeprom r' = eeprom example_xmux \<and> management_mode r' = MANAGEMENT_MODE_SNMP
    \<and> (\<forall>c < CHANNEL_MAX_NUM. length (programs (p_pid_trans_info (g_eeprom_param r') ! c)) = PROGRAM_MAX_NUM)"
    by (rule restart_keeps [OF example_stored])
       (use example_params_valid example_params_wf small in \<open>simp_all add: x example_boot(4,5)\<close>)
  then obtain b where b: "xmux_config_load_from_eeprom (board_of example_boot) = Some b" "params_kept example_params (g_eeprom_param b)"
    "\<forall>c < CHANNEL_MAX_NUM. length (programs (p_pid_trans_info (g_eeprom_param b) ! c)) = PROGRAM_MAX_NUM"
    by (auto simp: example_xmux_def)
  then show thesis
    by (intro that [of b]) (simp_all add: params_kept_def Let_def record_small_def example_params_trans)
qed

theorem start_up_completes_witness:
  "\<exists>s'. main_start 0 example_boot = Some s' \<and> management_mode (board_of s') = MANAGEMENT_MODE_SNMP
    \<and> login_flag (board_of s') = SNMP_LOGIN_STATUS_IDLE \<and> hw (board_of s') \<noteq> []"
proof -
  obtain b where b: "xmux_config_load_from_eeprom (board_of example_boot) = Some b"
    "\<forall>c < CHANNEL_MAX_NUM. record_small (p_pid_trans_info (g_eeprom_param b) ! c)" by (rule example_boot_loads)
  from start_up_completes [OF example_boot_checkable b(1) example_boot(2) b(2) example_boot(3), of 0] show ?thesis by auto
qed

text \<open>The running manager, and the board taken over by the panel.\<close>

lemma restore_work_fp:
  "restore_work_field s = Some s' \<Longrightarrow> fp (board_of s') = fp (board_of s) \<and> fp_expect_cmd (board_of s') = fp_expect_cmd (board_of s)
    \<and> g_eeprom_param (board_of s') = g_eeprom_param (board_of s)"
  by (auto simp: restore_work_field_def bind_Some_iff Let_def on_board_def disable_snmp_connection_check_def log_hw_def
        enable_snmp_connection_check_def xmux_snmp_update_heart_device_time_def set_connection_check_def)

theorem objects_stay_registered_witness:
  "\<exists>s. reachable ((example_agent example_boot)\<lparr> snmp := s \<rparr>) \<and> find_oid_object (oid_of [14]) (oid_tree s) = Some (Some 9)"
proof -
  obtain b where b: "xmux_config_load_from_eeprom (board_of example_boot) = Some b"
    "\<forall>c < CHANNEL_MAX_NUM. record_small (p_pid_trans_info (g_eeprom_param b) ! c)" by (rule example_boot_loads)
  from start_up_completes [OF example_boot_checkable b(1) example_boot(2) b(2) example_boot(3), of 0]
  obtain s where s: "main_start 0 (snmp (example_agent example_boot)) = Some s" by (auto simp: example_agent_def)
  note r = reachable.start [OF this]
  have "map_of snmp_registry (oid_of [14]) = Some 9"
    using solo_registered [of 2] by (simp add: solo_numbers_def)
  with objects_stay_registered [OF r, of "oid_of [14]"] r show ?thesis by auto
qed

lemma started:
  assumes "main_start name s = Some s'" "xmux_config_load_from_eeprom (board_of s) = Some b" "programs_small (fp (board_of s))"
    and "\<forall>c < CHANNEL_MAX_NUM. record_small (p_pid_trans_info (g_eeprom_param b) ! c)"
  shows "programs_small (fp (board_of s'))" "\<forall>c < CHANNEL_MAX_NUM. record_small (p_pid_trans_info (g_eeprom_param (board_of s')) ! c)"
    "fp_expect_cmd (board_of s') = fp_expect_cmd b"
proof -
  let ?n = "xmux_net_restore b"
  have n: "fp ?n = fp b" "g_eeprom_param ?n = g_eeprom_param b" "fp_expect_cmd ?n = fp_expect_cmd b"
    by (simp_all add: xmux_net_restore_def Let_def log_hw_def)
  from enter_total [of ?n] assms(3,4) load_frame [OF assms(2)] obtain b1 m where b1: "enter_fp_management_mode ?n = Some b1"
    "programs_small (fp b1)" "g_eeprom_param b1 = (g_eeprom_param b)\<lparr> p_misc := m \<rparr>" by (auto simp: n)
  have e: "fp_expect_cmd b1 = fp_expect_cmd b" using enter_session [OF b1(1)] n by simp
  have l: "fp (leave_fp_management_mode b1) = fp b1" "fp_expect_cmd (leave_fp_management_mode b1) = fp_expect_cmd b1"
    by (simp_all add: leave_fp_management_mode_def Let_def xmux_config_save_management_mode_def upd_param_def write_eeprom_def)
  from leave_keeps(2) [of b1] obtain m2 where p: "g_eeprom_param (leave_fp_management_mode b1) = (g_eeprom_param b)\<lparr> p_misc := m2 \<rparr>"
    by (auto simp: b1(3))
  from assms(1) obtain s1 where r: "restore_work_field (s\<lparr> board_of := leave_fp_management_mode b1 \<rparr>) = Some s1"
    and s': "fp (board_of s') = fp (board_of s1)" "g_eeprom_param (board_of s') = g_eeprom_param (board_of s1)"
      "fp_expect_cmd (board_of s') = fp_expect_cmd (board_of s1)"
    by (auto simp: main_start_def assms(2) b1(1) bind_Some_iff Let_def on_board_def)
  from restore_work_fp [OF r] show "programs_small (fp (board_of s'))"
    "\<forall>c < CHANNEL_MAX_NUM. record_small (p_pid_trans_info (g_eeprom_param (board_of s')) ! c)" "fp_expect_cmd (board_of s') = fp_expect_cmd b"
    using b1(2) assms(4) e by (simp_all add: s' p l)
qed

text \<open>The panel takes the board over, and a manager then writes to it.\<close>

definition enter_msg :: "u8 list" where
  "enter_msg = fp_build_cmd False FP_CMD_SYS (WRITE_U16_BE FP_SYS_CMD_ENTER_FP_MANAGEMENT_MODE)"

lemma enter_msg: "sync (buf_2_fp_cmd_header enter_msg) = defMcuSyncFlag" "cmd_of enter_msg = FP_CMD_SYS"
  "\<not> reads enter_msg" "READ_U16_BE (body enter_msg) = FP_SYS_CMD_ENTER_FP_MANAGEMENT_MODE"
  by (unfold reads_def cmd_of_def) code_simp+

lemma enter_msg_parsed:
  assumes "management_mode b = MANAGEMENT_MODE_SNMP" "fp_expect_cmd b = None" "enter_fp_management_mode b = Some b'"
  shows "do_parse_mcu_cmd env enter_msg b = Some (-1, [], b')"
proof -
  note h = enter_msg(1) enter_msg(2) [unfolded cmd_of_def] enter_msg(3) [unfolded reads_def]
  have "front_panel_check_recv_cmd enter_msg b = Some (0, b)"
    using assms(2) by (simp add: front_panel_check_recv_cmd_def h Let_def mode_exempt_def enter_msg(4) fp_cmds)
  moreover have "cmd_sys_handler env hdr enter_msg b = Some (-1, [], b')" for hdr
    using assms(1,3) by (simp add: cmd_sys_handler_def enter_msg(4))
  ultimately show ?thesis by (simp add: do_parse_mcu_cmd_def h Let_def fp_cmds limit_simps)
qed

lemma example_reachable:
  obtains s where "reachable (example_agent s)" "management_mode (board_of s) = MANAGEMENT_MODE_FP"
proof -
  obtain b where b: "xmux_config_load_from_eeprom (board_of example_boot) = Some b"
    "\<forall>c < CHANNEL_MAX_NUM. record_small (p_pid_trans_info (g_eeprom_param b) ! c)" by (rule example_boot_loads)
  from start_up_completes [OF example_boot_checkable b(1) example_boot(2) b(2) example_boot(3), of 0]
  obtain s where s: "main_start 0 example_boot = Some s" "management_mode (board_of s) = MANAGEMENT_MODE_SNMP" by blast
  have "fp_expect_cmd (board_of s) = None"
    using started(3) [OF s(1) b(1) example_boot(2) b(2)] load_frame [OF b(1)]
    by (simp add: example_boot(1)) (simp add: example_board_def)
  moreover from enter_total [OF started(1,2) [OF s(1) b(1) example_boot(2) b(2)]]
  obtain b' where b': "enter_fp_management_mode (board_of s) = Some b'" by blast
  ultimately have "do_parse_mcu_cmd example_env enter_msg (board_of s) = Some (-1, [], b')" using s(2) enter_msg_parsed by blast
  then have step: "manager_step (PanelMessage example_env enter_msg) (example_agent s) = Some (example_agent (s\<lparr> board_of := b' \<rparr>))"
    by (simp add: on_snmp_def example_agent_def)
  have "reachable (example_agent s)"
    using reachable.start [of 0 "example_agent example_boot"] s(1) by (simp add: example_agent_def)
  from reachable.turn [OF this _ step] enter_session [OF b'] show thesis
    by (intro that [of "s\<lparr> board_of := b' \<rparr>"]) simp_all
qed


end
