(* ===== verification/Fpga.thy ===== *)
theory Fpga
  imports PidMap OutputPsi Params
begin

unbundle bit_operations_syntax

text \<open>
  The way to the FPGA: its kernel driver \<^verbatim>\<open>imp/drivers/host_fpga.c\<close>, the calls of the manager
  (\<^verbatim>\<open>imp/hfpga.c\<close>, \<^verbatim>\<open>imp/fpga/fpga_api.c\<close>) and the registers of \<^verbatim>\<open>imp/drivers/host_fpga.h\<close>. The
  FPGA itself is a parameter: what a register access does to it.
\<close>

section \<open>Registers\<close>

definition HFPGA_REG_ADDR_SYS_ID :: u32 where "HFPGA_REG_ADDR_SYS_ID = 0x84000000"
definition HFPGA_REG_ADDR_SYS_VER :: u32 where "HFPGA_REG_ADDR_SYS_VER = 0x84000004"
definition HFPGA_REG_ADDR_MAP_MEM :: u32 where "HFPGA_REG_ADDR_MAP_MEM = 0x8400000C"
definition HFPGA_REG_ADDR_MEM_DATA_L16 :: u32 where "HFPGA_REG_ADDR_MEM_DATA_L16 = 0x84000010"
definition HFPGA_REG_ADDR_MEM_DATA_H16 :: u32 where "HFPGA_REG_ADDR_MEM_DATA_H16 = 0x84000014"
definition HFPGA_REG_ADDR_MAP_MEM_WCON :: u32 where "HFPGA_REG_ADDR_MAP_MEM_WCON = 0x84000018"
definition HFPGA_REG_ADDR_FIFO_STATUS :: u32 where "HFPGA_REG_ADDR_FIFO_STATUS = 0x8400001C"
definition HFPGA_REG_ADDR_FIFO_RCON :: u32 where "HFPGA_REG_ADDR_FIFO_RCON = 0x84000020"
definition HFPGA_REG_ADDR_RST_FIFO :: u32 where "HFPGA_REG_ADDR_RST_FIFO = 0x84000024"
definition HFPGA_REG_ADDR_CHA_SEL :: u32 where "HFPGA_REG_ADDR_CHA_SEL = 0x84000028"
definition HFPGA_REG_ADDR_TS_STATUS :: u32 where "HFPGA_REG_ADDR_TS_STATUS = 0x8400002C"
definition HFPGA_REG_ADDR_SI_SS :: u32 where "HFPGA_REG_ADDR_SI_SS = 0x84000030"
definition HFPGA_REG_ADDR_SI_40MS_PACK_ADDR :: u32 where "HFPGA_REG_ADDR_SI_40MS_PACK_ADDR = 0x84000034"
definition HFPGA_REG_ADDR_SI_40MS_PACK_LEN :: u32 where "HFPGA_REG_ADDR_SI_40MS_PACK_LEN = 0x84000038"
definition HFPGA_REG_ADDR_SI_2S_PACK_ADDR :: u32 where "HFPGA_REG_ADDR_SI_2S_PACK_ADDR = 0x840003C"
definition HFPGA_REG_ADDR_SI_2S_PACK_LEN :: u32 where "HFPGA_REG_ADDR_SI_2S_PACK_LEN = 0x84000040"
definition HFPGA_REG_ADDR_SYS_RATE_MSB :: u32 where "HFPGA_REG_ADDR_SYS_RATE_MSB = 0x84000044"
definition HFPGA_REG_ADDR_SYS_RATE_LSB :: u32 where "HFPGA_REG_ADDR_SYS_RATE_LSB = 0x84000048"
definition HFPGA_REG_ADDR_SYS_PALENGTH :: u32 where "HFPGA_REG_ADDR_SYS_PALENGTH = 0x8400004C"

lemmas hfpga_regs = HFPGA_REG_ADDR_SYS_ID_def HFPGA_REG_ADDR_SYS_VER_def HFPGA_REG_ADDR_MAP_MEM_def
  HFPGA_REG_ADDR_MEM_DATA_L16_def HFPGA_REG_ADDR_MEM_DATA_H16_def HFPGA_REG_ADDR_MAP_MEM_WCON_def
  HFPGA_REG_ADDR_FIFO_STATUS_def HFPGA_REG_ADDR_FIFO_RCON_def HFPGA_REG_ADDR_RST_FIFO_def
  HFPGA_REG_ADDR_CHA_SEL_def HFPGA_REG_ADDR_TS_STATUS_def HFPGA_REG_ADDR_SI_SS_def
  HFPGA_REG_ADDR_SI_40MS_PACK_ADDR_def HFPGA_REG_ADDR_SI_40MS_PACK_LEN_def HFPGA_REG_ADDR_SI_2S_PACK_ADDR_def
  HFPGA_REG_ADDR_SI_2S_PACK_LEN_def HFPGA_REG_ADDR_SYS_RATE_MSB_def HFPGA_REG_ADDR_SYS_RATE_LSB_def
  HFPGA_REG_ADDR_SYS_PALENGTH_def

definition HFPGA_MAP_MEM_ADDR_BASE :: u16 where "HFPGA_MAP_MEM_ADDR_BASE = 0x80"
definition UV_HFPGA_INVALID_PID_MAP :: u16 where "UV_HFPGA_INVALID_PID_MAP = 0xFFFF"
definition UV_HFPGA_TS_FIFO_RD_MAX_DELAY :: nat where "UV_HFPGA_TS_FIFO_RD_MAX_DELAY = 0xFFFFFF"
definition HFPGA_MAP_MEM_ADDR_SI_PHY_BASE :: u16 where "HFPGA_MAP_MEM_ADDR_SI_PHY_BASE = 0x2000"
definition HFPGA_MAP_MEM_ADDR_SI_BASE :: u16 where "HFPGA_MAP_MEM_ADDR_SI_BASE = 0"
definition HFPGA_MAP_MEM_ADDR_SI_40MS_BASE :: u16 where "HFPGA_MAP_MEM_ADDR_SI_40MS_BASE = HFPGA_MAP_MEM_ADDR_SI_BASE"
definition HFPGA_MAP_MEM_ADDR_SI_2S_BASE :: u16 where "HFPGA_MAP_MEM_ADDR_SI_2S_BASE = HFPGA_MAP_MEM_ADDR_SI_BASE + 34 * 188"

lemmas hfpga_bases = HFPGA_MAP_MEM_ADDR_BASE_def HFPGA_MAP_MEM_ADDR_SI_PHY_BASE_def HFPGA_MAP_MEM_ADDR_SI_BASE_def
  HFPGA_MAP_MEM_ADDR_SI_40MS_BASE_def HFPGA_MAP_MEM_ADDR_SI_2S_BASE_def

text \<open>
  The device, of any type \<open>'d\<close>: what writing a value to an address does, and what reading gives. The
  driver keeps how far the two areas of tables are filled.
\<close>

record 'd fpga_io =
  write_reg :: "u32 \<Rightarrow> u16 \<Rightarrow> 'd \<Rightarrow> 'd"
  read_reg :: "u32 \<Rightarrow> 'd \<Rightarrow> u16 \<times> 'd"

record 'd driver =
  dev :: 'd
  cur_40ms_offset :: u16
  cur_2s_offset :: u16

definition write_hfpga_register :: "'d fpga_io \<Rightarrow> u32 \<Rightarrow> u16 \<Rightarrow> 'd driver \<Rightarrow> 'd driver" where
  "write_hfpga_register io addr data s = s\<lparr> dev := write_reg io addr data (dev s) \<rparr>"

definition read_hfpga_register :: "'d fpga_io \<Rightarrow> u32 \<Rightarrow> 'd driver \<Rightarrow> u16 \<times> 'd driver" where
  "read_hfpga_register io addr s = (let (data, d) = read_reg io addr (dev s) in (data, s\<lparr> dev := d \<rparr>))"

section \<open>The PID map\<close>

definition write_slot :: "'d fpga_io \<Rightarrow> u16 \<Rightarrow> pid_map_entry \<Rightarrow> 'd driver \<Rightarrow> 'd driver" where
  "write_slot io addr e s =
     (if input_pid e \<noteq> UV_HFPGA_INVALID_PID_MAP \<and> output_pid e \<noteq> UV_HFPGA_INVALID_PID_MAP
      then let s = write_hfpga_register io HFPGA_REG_ADDR_MAP_MEM_WCON 0 s;
               s = write_hfpga_register io HFPGA_REG_ADDR_MAP_MEM addr s;
               s = write_hfpga_register io HFPGA_REG_ADDR_MEM_DATA_L16 (output_pid e) s;
               s = write_hfpga_register io HFPGA_REG_ADDR_MEM_DATA_H16 (input_pid e) s
           in write_hfpga_register io HFPGA_REG_ADDR_MAP_MEM_WCON 0x55AA s
      else s)"

text \<open>The channels whose bit is set in what is left of the bit map; \<open>i\<close> is the channel.\<close>

function write_map_loop ::
  "'d fpga_io \<Rightarrow> xmux_pid_map_table \<Rightarrow> u8 \<Rightarrow> u16 \<Rightarrow> nat \<Rightarrow> 'd driver \<Rightarrow> 'd driver" where
  "write_map_loop io m bits base i s =
     (if bits = 0 then s
      else let s = (if bits AND 1 \<noteq> 0
                    then foldl (\<lambda>s j. write_slot io (base + word_of_nat j) (m ! i ! j) s) s [0..<32] else s)
           in write_map_loop io m (drop_bit 1 bits) (base + 32) (i + 1) s)"
  by pat_completeness auto

lemma drop_bit_less: "bits \<noteq> 0 \<Longrightarrow> unat (drop_bit (Suc 0) (bits :: u8)) < unat bits"
proof -
  assume "bits \<noteq> 0"
  then have "0 < unat bits" by (simp add: unat_gt_0)
  then have "unat bits div 2 < unat bits" by simp
  moreover have "unat (drop_bit (Suc 0) bits) = unat bits div 2"
    by (subst unat_drop_bit_eq) (simp add: drop_bit_Suc)
  ultimately show ?thesis by simp
qed

termination write_map_loop
  by (relation "measure (\<lambda>(io, m, bits, base, i, s). unat bits)") (auto simp: drop_bit_less)

definition write_hfpga_pid_map :: "'d fpga_io \<Rightarrow> hfpga_pid_map \<Rightarrow> 'd driver \<Rightarrow> 'd driver" where
  "write_hfpga_pid_map io p s = write_map_loop io (pid_map p) (cha p) HFPGA_MAP_MEM_ADDR_BASE 0 s"

definition read_slot :: "'d fpga_io \<Rightarrow> u16 \<Rightarrow> 'd driver \<Rightarrow> pid_map_entry \<times> 'd driver" where
  "read_slot io addr s =
     (let s = write_hfpga_register io HFPGA_REG_ADDR_MAP_MEM addr s;
          (out_pid, s) = read_hfpga_register io HFPGA_REG_ADDR_MEM_DATA_L16 s;
          (in_pid, s) = read_hfpga_register io HFPGA_REG_ADDR_MEM_DATA_H16 s
      in (\<lparr> input_pid = in_pid, output_pid = out_pid \<rparr>, s))"

fun read_slots :: "'d fpga_io \<Rightarrow> u16 list \<Rightarrow> 'd driver \<Rightarrow> pid_map_entry list \<times> 'd driver" where
  "read_slots io [] s = ([], s)"
| "read_slots io (addr # addrs) s =
     (let (e, s) = read_slot io addr s; (es, s) = read_slots io addrs s in (e # es, s))"

function read_map_loop ::
  "'d fpga_io \<Rightarrow> xmux_pid_map_table \<Rightarrow> u8 \<Rightarrow> u16 \<Rightarrow> nat \<Rightarrow> 'd driver \<Rightarrow> xmux_pid_map_table \<times> 'd driver" where
  "read_map_loop io m bits base i s =
     (if bits = 0 then (m, s)
      else let (m, s) = (if bits AND 1 \<noteq> 0
                         then let (row, s) = read_slots io (map (\<lambda>j. base + word_of_nat j) [0..<32]) s in (m[i := row], s)
                         else (m, s))
           in read_map_loop io m (drop_bit 1 bits) (base + 32) (i + 1) s)"
  by pat_completeness auto

declare write_map_loop.simps [simp del]

termination read_map_loop
  by (relation "measure (\<lambda>(io, m, bits, base, i, s). unat bits)") (auto simp: drop_bit_less)

declare read_map_loop.simps [simp del]

definition read_hfpga_pid_map :: "'d fpga_io \<Rightarrow> hfpga_pid_map \<Rightarrow> 'd driver \<Rightarrow> hfpga_pid_map \<times> 'd driver" where
  "read_hfpga_pid_map io p s =
     (let (m, s) = read_map_loop io (pid_map p) (cha p) HFPGA_MAP_MEM_ADDR_BASE 0 s in (p\<lparr> pid_map := m \<rparr>, s))"

section \<open>Streams\<close>

text \<open>The wait for a byte; what is left of the delay, the whole of it when a byte was there.\<close>

fun wait_fifo :: "'d fpga_io \<Rightarrow> nat \<Rightarrow> 'd driver \<Rightarrow> nat \<times> 'd driver" where
  "wait_fifo io 0 s = (0, s)"
| "wait_fifo io (Suc delay) s =
     (let (data, s) = read_hfpga_register io HFPGA_REG_ADDR_FIFO_STATUS s
      in if drop_bit 15 data \<noteq> 0 then (UV_HFPGA_TS_FIFO_RD_MAX_DELAY, s) else wait_fifo io delay s)"

definition pulse :: "'d fpga_io \<Rightarrow> u32 \<Rightarrow> 'd driver \<Rightarrow> 'd driver" where
  "pulse io reg s = write_hfpga_register io reg 0 (write_hfpga_register io reg 0x55AA (write_hfpga_register io reg 0 s))"

text \<open>
  The loop over the bytes: \<open>len\<close> are left, \<open>buf\<close> is filled. Bytes before the first one marked as the
  start of a packet are skipped.
\<close>

partial_function (option) read_fifo ::
  "'d fpga_io \<Rightarrow> nat \<Rightarrow> nat \<Rightarrow> u8 list \<Rightarrow> 'd driver \<Rightarrow> (nat \<times> u8 list \<times> 'd driver) option" where
  "read_fifo io len delay buf s =
     (if len = 0 then Some (length buf, buf, s)
      else let (delay, s) = wait_fifo io delay s
           in if delay = 0 then Some (0, buf, s)
              else let (data, s) = read_hfpga_register io HFPGA_REG_ADDR_FIFO_STATUS (pulse io HFPGA_REG_ADDR_FIFO_RCON s)
                   in if buf = [] \<and> drop_bit 8 data AND 1 = 0 then read_fifo io len delay buf s
                      else read_fifo io (len - 1) delay (buf @ [ucast (0xFF AND data)]) s)"

definition read_hfpga_str_data ::
  "'d fpga_io \<Rightarrow> u32 \<Rightarrow> nat \<Rightarrow> bool \<Rightarrow> 'd driver \<Rightarrow> (nat \<times> u8 list \<times> 'd driver) option" where
  "read_hfpga_str_data io addr len nbgn s =
     (let s = (if nbgn then write_hfpga_register io HFPGA_REG_ADDR_CHA_SEL (ucast addr) (pulse io HFPGA_REG_ADDR_RST_FIFO s) else s)
      in read_fifo io len UV_HFPGA_TS_FIFO_RD_MAX_DELAY [] s)"

text \<open>Bytes for one of the two areas of tables, from \<open>pos\<close> on.\<close>

fun write_si_bytes :: "'d fpga_io \<Rightarrow> u16 \<Rightarrow> u8 list \<Rightarrow> 'd driver \<Rightarrow> 'd driver" where
  "write_si_bytes io pos [] s = s"
| "write_si_bytes io pos (b # bs) s =
     (let s = write_hfpga_register io HFPGA_REG_ADDR_MAP_MEM_WCON 0 s;
          s = write_hfpga_register io HFPGA_REG_ADDR_MAP_MEM (pos + HFPGA_MAP_MEM_ADDR_SI_PHY_BASE) s;
          s = write_hfpga_register io HFPGA_REG_ADDR_MEM_DATA_L16 (ucast b) s;
          s = write_hfpga_register io HFPGA_REG_ADDR_MAP_MEM_WCON 0x55AA s
      in write_si_bytes io (pos + 1) bs s)"

definition write_hfpga_str_data :: "'d fpga_io \<Rightarrow> u8 list \<Rightarrow> u32 \<Rightarrow> 'd driver \<Rightarrow> 'd driver" where
  "write_hfpga_str_data io pdata addr s =
     (let mode = (ucast addr :: u8);
          pos = (if mode = 0 then cur_40ms_offset s else cur_2s_offset s);
          s = write_hfpga_register io HFPGA_REG_ADDR_MAP_MEM_WCON 0 (write_si_bytes io pos pdata s);
          pos = pos + word_of_nat (length pdata)
      in if mode = 0 then s\<lparr> cur_40ms_offset := pos \<rparr> else s\<lparr> cur_2s_offset := pos \<rparr>)"

definition si_start :: "'d fpga_io \<Rightarrow> 'd driver \<Rightarrow> 'd driver" where
  "si_start io s =
     (let noff = (if cur_40ms_offset s \<le> HFPGA_MAP_MEM_ADDR_SI_40MS_BASE then 0
                  else cur_40ms_offset s - HFPGA_MAP_MEM_ADDR_SI_40MS_BASE - 1);
          s = write_hfpga_register io HFPGA_REG_ADDR_SI_40MS_PACK_LEN noff s;
          noff = (if cur_2s_offset s \<le> HFPGA_MAP_MEM_ADDR_SI_2S_BASE then 0
                  else cur_2s_offset s - HFPGA_MAP_MEM_ADDR_SI_2S_BASE - 1);
          s = write_hfpga_register io HFPGA_REG_ADDR_SI_2S_PACK_LEN noff s
      in write_hfpga_register io HFPGA_REG_ADDR_SI_SS 0x55AA s)"

definition si_stop :: "'d fpga_io \<Rightarrow> 'd driver \<Rightarrow> 'd driver" where
  "si_stop io s =
     (let s = write_hfpga_register io HFPGA_REG_ADDR_SI_SS 0 s;
          s = write_hfpga_register io HFPGA_REG_ADDR_SI_40MS_PACK_ADDR HFPGA_MAP_MEM_ADDR_SI_40MS_BASE s;
          s = write_hfpga_register io HFPGA_REG_ADDR_SI_2S_PACK_ADDR HFPGA_MAP_MEM_ADDR_SI_2S_BASE s
      in s\<lparr> cur_40ms_offset := HFPGA_MAP_MEM_ADDR_SI_40MS_BASE, cur_2s_offset := HFPGA_MAP_MEM_ADDR_SI_2S_BASE \<rparr>)"

section \<open>The requests to the driver\<close>

text \<open>
  What the kernel does for a request: whether the device opens, memory is there and the arguments can
  be copied, and what newly allocated memory holds when the copy into it fails.
\<close>

record kernel =
  k_open :: bool
  k_alloc :: bool
  k_copied :: bool
  k_alloc_data :: bool
  k_stale_regs :: "u32 \<times> u16"
  k_data_copied :: bool
  k_stale_data :: "u8 list"

definition EFAULT :: int where "EFAULT = 14"
definition EINVAL :: int where "EINVAL = 22"

definition HFPGA_CMD_SI_STOP :: u32 where "HFPGA_CMD_SI_STOP = 0"
definition HFPGA_CMD_SI_START :: u32 where "HFPGA_CMD_SI_START = 1"

definition UV_HFPGA_MAGIC :: u8 where "UV_HFPGA_MAGIC = 0x75 OR 0x76"
definition UV_KEY_IOCTL_MAX_KEY :: u8 where "UV_KEY_IOCTL_MAX_KEY = 0x20"

text \<open>The commands of the header with their arguments; any other one by its type and number.\<close>

datatype ioctl_request =
    READ_REGS u32 u16 | WRITE_REGS u32 u16 | READ_TS_PACK | WRITE_TS_PACK | READ_ALL_PIDS
  | WRITE_PID_MAP hfpga_pid_map | READ_PID_MAP hfpga_pid_map
  | READ_STR_DATA u32 nat bool | WRITE_STR_DATA u32 "u8 list" | CMDS u32 | OTHER_CMD u8 u8

datatype ioctl_out = Unchanged | RegData u16 | PidMap hfpga_pid_map | Stream nat "u8 list"

type_synonym 'd ioctl_result = "int \<times> ioctl_out \<times> 'd driver"

definition valid_reg :: "u32 \<Rightarrow> bool" where "valid_reg reg \<longleftrightarrow> reg < 0x840000FF"

fun hfpga_drv_ioctl :: "kernel \<Rightarrow> 'd fpga_io \<Rightarrow> ioctl_request \<Rightarrow> 'd driver \<Rightarrow> 'd ioctl_result option" where
  "hfpga_drv_ioctl k io (READ_REGS reg data) s =
     Some (if \<not> k_alloc k \<or> \<not> k_copied k then (- EFAULT, Unchanged, s)
           else if valid_reg reg then (let (data, s) = read_hfpga_register io reg s in (0, RegData data, s))
           else (- EINVAL, Unchanged, s))"
| "hfpga_drv_ioctl k io (WRITE_REGS reg data) s =
     Some (if \<not> k_alloc k then (- EFAULT, Unchanged, s)
           else let (reg, data) = (if k_copied k then (reg, data) else k_stale_regs k)
                in if valid_reg reg then (0, RegData data, write_hfpga_register io reg data s) else (- EINVAL, RegData data, s))"
| "hfpga_drv_ioctl k io READ_TS_PACK s = Some (if \<not> k_alloc k \<or> \<not> k_copied k then - EFAULT else 0, Unchanged, s)"
| "hfpga_drv_ioctl k io WRITE_TS_PACK s = Some (if \<not> k_alloc k \<or> \<not> k_copied k then - EFAULT else 0, Unchanged, s)"
| "hfpga_drv_ioctl k io READ_ALL_PIDS s = Some (if \<not> k_alloc k \<or> \<not> k_copied k then - EFAULT else 0, Unchanged, s)"
| "hfpga_drv_ioctl k io (WRITE_PID_MAP p) s =
     Some (if \<not> k_alloc k \<or> \<not> k_copied k then (- EFAULT, Unchanged, s) else (0, Unchanged, write_hfpga_pid_map io p s))"
| "hfpga_drv_ioctl k io (READ_PID_MAP p) s =
     Some (if \<not> k_alloc k \<or> \<not> k_copied k then (- EFAULT, Unchanged, s)
           else let (p, s) = read_hfpga_pid_map io p s in (0, PidMap p, s))"
| "hfpga_drv_ioctl k io (READ_STR_DATA addr len nbgn) s =
     (if \<not> k_alloc k \<or> \<not> k_copied k \<or> \<not> k_alloc_data k then Some (- EFAULT, Unchanged, s)
      else do {
        (nread, buf, s) \<leftarrow> read_hfpga_str_data io addr len nbgn s;
        Some (if nread > 0 then (0, Stream nread (take nread buf), s) else (- EFAULT, Unchanged, s))
      })"
| "hfpga_drv_ioctl k io (WRITE_STR_DATA addr pdata) s =
     Some (if \<not> k_alloc k \<or> \<not> k_copied k \<or> \<not> k_alloc_data k then (- EFAULT, Unchanged, s)
           else (0, Unchanged, write_hfpga_str_data io (if k_data_copied k then pdata else take (length pdata) (k_stale_data k)) addr s))"
| "hfpga_drv_ioctl k io (CMDS cmd) s =
     Some (if \<not> k_alloc k \<or> \<not> k_copied k then (- EFAULT, Unchanged, s)
           else (0, Unchanged,
             if 0xFF AND cmd = HFPGA_CMD_SI_START then si_start io s
             else if 0xFF AND cmd = HFPGA_CMD_SI_STOP then si_stop io s
             else s))"
| "hfpga_drv_ioctl k io (OTHER_CMD ty nr) s =
     Some (if ty \<noteq> UV_HFPGA_MAGIC \<or> UV_KEY_IOCTL_MAX_KEY \<le> nr then - EFAULT else - EINVAL, Unchanged, s)"

section \<open>The calls of the manager\<close>

text \<open>One register of the driver read; \<open>None\<close> when the request fails.\<close>

definition read_reg_ioctl :: "kernel \<Rightarrow> 'd fpga_io \<Rightarrow> u32 \<Rightarrow> 'd driver \<Rightarrow> int \<times> u16 \<times> 'd driver" where
  "read_reg_ioctl k io reg s =
     (case hfpga_drv_ioctl k io (READ_REGS reg 0) s of
        Some (rc, RegData data, s) \<Rightarrow> (rc, data, s)
      | Some (rc, out, s) \<Rightarrow> (rc, 0, s)
      | None \<Rightarrow> (-1, 0, s))"

definition write_reg_ioctl :: "kernel \<Rightarrow> 'd fpga_io \<Rightarrow> u32 \<Rightarrow> u16 \<Rightarrow> 'd driver \<Rightarrow> int \<times> 'd driver" where
  "write_reg_ioctl k io reg data s =
     (case hfpga_drv_ioctl k io (WRITE_REGS reg data) s of Some (rc, out, s) \<Rightarrow> (rc, s) | None \<Rightarrow> (-1, s))"

definition get_ts_status :: "kernel \<Rightarrow> 'd fpga_io \<Rightarrow> 'd driver \<Rightarrow> int \<times> u16 \<times> 'd driver" where
  "get_ts_status k io s =
     (let (rc, fpga_id, s) = read_reg_ioctl k io HFPGA_REG_ADDR_SYS_ID s
      in if rc < 0 then (-1, 0, s)
         else let (rc, ver, s) = read_reg_ioctl k io HFPGA_REG_ADDR_SYS_VER s
              in if rc < 0 then (-1, 0, s)
                 else let (rc, ts_status, s) = read_reg_ioctl k io HFPGA_REG_ADDR_TS_STATUS s
                      in if rc < 0 then (-1, 0, s) else (0, ts_status, s))"

text \<open>The status is handed over only when it was read.\<close>

definition hfpga_get_ts_status :: "kernel \<Rightarrow> 'd fpga_io \<Rightarrow> nat \<Rightarrow> 'd driver \<Rightarrow> int \<times> u16 option \<times> 'd driver" where
  "hfpga_get_ts_status k io chan_idx s =
     (if \<not> k_open k then (-1, None, s)
      else let (rc, ts_status, s) = get_ts_status k io s
           in if rc = 0 then (if bit ts_status chan_idx then 1 else 0, Some ts_status, s) else (rc, None, s))"

definition hfpga_write_pid_map :: "kernel \<Rightarrow> 'd fpga_io \<Rightarrow> hfpga_pid_map \<Rightarrow> 'd driver \<Rightarrow> int \<times> 'd driver" where
  "hfpga_write_pid_map k io p s =
     (if \<not> k_open k then (-1, s)
      else case hfpga_drv_ioctl k io (WRITE_PID_MAP p) s of Some (rc, out, s) \<Rightarrow> (0, s) | None \<Rightarrow> (0, s))"

text \<open>In units of 1/2^32 of the 8 * 54000 kbit/s of the clock.\<close>

definition bitrate_reg_value :: "u32 \<Rightarrow> u32" where
  "bitrate_reg_value bitrate = ucast (push_bit 32 (ucast bitrate :: 64 word) div (8 * 54000))"

definition hfpga_write_sys_output_bitrate :: "kernel \<Rightarrow> 'd fpga_io \<Rightarrow> u32 \<Rightarrow> 'd driver \<Rightarrow> int \<times> 'd driver" where
  "hfpga_write_sys_output_bitrate k io bitrate s =
     (if \<not> k_open k then (-1, s)
      else let (rc, s) = write_reg_ioctl k io HFPGA_REG_ADDR_SYS_RATE_MSB (ucast (drop_bit 16 (bitrate_reg_value bitrate))) s
           in if rc < 0 then (-1, s)
              else let (rc, s) = write_reg_ioctl k io HFPGA_REG_ADDR_SYS_RATE_LSB (ucast (bitrate_reg_value bitrate AND 0xFFFF)) s
                   in if rc < 0 then (-1, s) else (0, s))"

definition hfpga_write_sys_packet_length :: "kernel \<Rightarrow> 'd fpga_io \<Rightarrow> u16 \<Rightarrow> 'd driver \<Rightarrow> int \<times> 'd driver" where
  "hfpga_write_sys_packet_length k io pkt_len s =
     (if \<not> k_open k then (-1, s)
      else let (rc, s) = write_reg_ioctl k io HFPGA_REG_ADDR_SYS_PALENGTH pkt_len s in if rc < 0 then (-1, s) else (0, s))"

definition hfpga_write_select_channel :: "kernel \<Rightarrow> 'd fpga_io \<Rightarrow> u8 \<Rightarrow> 'd driver \<Rightarrow> int \<times> 'd driver" where
  "hfpga_write_select_channel k io chan s =
     (if \<not> k_open k then (-1, s)
      else let (rc, s) = write_reg_ioctl k io HFPGA_REG_ADDR_CHA_SEL (ucast chan) s in if rc < 0 then (-1, s) else (0, s))"

text \<open>
  \<^verbatim>\<open>imp/fpga/fpga_api.c\<close>, the calls the table library makes: its filter map, how many packets of the
  last read-ahead are left. The packets themselves are on the stack of the call.
\<close>

record 'd api =
  drv :: "'d driver"
  filter_map :: hfpga_pid_map
  left_pkt :: nat
  left_pkt_tot :: nat

record uv_io_param =
  io_pid :: u16
  io_cha :: u8

text \<open>All slots of the channel let the one PID through.\<close>

definition readn_filter :: "uv_io_param \<Rightarrow> hfpga_pid_map \<Rightarrow> hfpga_pid_map" where
  "readn_filter param m =
     (let chno = unat (io_cha param)
      in m\<lparr> cha := ucast (push_bit chno (1 :: u32)),
            pid_map := (pid_map m)[chno := replicate 32 \<lparr> input_pid = io_pid param, output_pid = io_pid param \<rparr>] \<rparr>)"

text \<open>Success, and the bytes that were read.\<close>

definition hfpga_readn_raw ::
  "kernel \<Rightarrow> 'd fpga_io \<Rightarrow> nat \<Rightarrow> uv_io_param \<Rightarrow> bool \<Rightarrow> 'd api \<Rightarrow> (int \<times> u8 list \<times> 'd api) option" where
  "hfpga_readn_raw k io len param nbgn s =
     do {
       (ok, s) \<leftarrow>
         (if nbgn then
            (let (rc, fpga_id, d) = read_reg_ioctl k io HFPGA_REG_ADDR_SYS_ID (drv s); s = s\<lparr> drv := d \<rparr>
             in if rc < 0 then Some (False, s)
                else if CHANNEL_MAX_NUM \<le> unat (io_cha param) then None
                else let s = s\<lparr> filter_map := readn_filter param (filter_map s) \<rparr>
                     in do {
                       (rc, out, d) \<leftarrow> hfpga_drv_ioctl k io (WRITE_PID_MAP (filter_map s)) (drv s);
                       Some (0 \<le> rc, s\<lparr> drv := d \<rparr>)
                     })
          else Some (True, s));
       if \<not> ok then Some (0, [], s)
       else do {
         (rc, out, d) \<leftarrow> hfpga_drv_ioctl k io (READ_STR_DATA (ucast (io_cha param)) len nbgn) (drv s);
         let s = s\<lparr> drv := d \<rparr>;
         Some (case out of Stream nread buf \<Rightarrow> if rc < 0 then (0, [], s) else (1, buf, s) | _ \<Rightarrow> (0, [], s))
       }
     }"

definition READAHEAD_TS_PKT_NUM :: nat where "READAHEAD_TS_PKT_NUM = 10"

text \<open>
  A read-ahead replaces the first bytes of the packets on the stack, which hold what \<open>stack\<close> says before.
\<close>

definition read_ahead ::
  "kernel \<Rightarrow> 'd fpga_io \<Rightarrow> uv_io_param \<Rightarrow> bool \<Rightarrow> u8 list \<Rightarrow> 'd api \<Rightarrow> (bool \<times> u8 list \<times> 'd api) option" where
  "read_ahead k io param nbgn stack s =
     do {
       (rc, bytes, s) \<leftarrow> hfpga_readn_raw k io (TS_PACKET_BYTES * READAHEAD_TS_PKT_NUM) param nbgn s;
       if rc = 0 then Some (False, stack, s)
       else let n = length bytes div TS_PACKET_BYTES
            in Some (True, bytes @ drop (length bytes) stack, s\<lparr> left_pkt := n, left_pkt_tot := n \<rparr>)
     }"

definition hfpga_readn ::
  "kernel \<Rightarrow> 'd fpga_io \<Rightarrow> nat \<Rightarrow> uv_io_param \<Rightarrow> bool \<Rightarrow> u8 list \<Rightarrow> 'd api \<Rightarrow> (int \<times> u8 list \<times> 'd api) option" where
  "hfpga_readn k io len param nbgn stack s =
     (if io_pid param \<noteq> 0x11 then hfpga_readn_raw k io len param nbgn s
      else do {
        (ok, ts_buf, s) \<leftarrow> (if nbgn then read_ahead k io param True stack s else Some (True, stack, s));
        if \<not> ok then Some (0, [], s)
        else do {
          (ok, ts_buf, s) \<leftarrow> (if left_pkt s = 0 then read_ahead k io param False ts_buf s else Some (True, ts_buf, s));
          if \<not> ok then Some (0, [], s)
          else if 0 < left_pkt s then do {
            pkt \<leftarrow> mem_read ts_buf ((left_pkt_tot s - left_pkt s) * TS_PACKET_BYTES) TS_PACKET_BYTES;
            Some (1, pkt, s\<lparr> left_pkt := left_pkt s - 1 \<rparr>)
          }
          else Some (0, [], s)
        }
      })"

text \<open>The buffer number is the mode of the driver. The hook of the generation is called first; see \<open>PsiGen\<close>.\<close>

definition hfpga_writen :: "kernel \<Rightarrow> 'd fpga_io \<Rightarrow> u8 list \<Rightarrow> u8 \<Rightarrow> 'd driver \<Rightarrow> int \<times> 'd driver" where
  "hfpga_writen k io p_data howto s =
     (case hfpga_drv_ioctl k io (WRITE_STR_DATA (ucast howto) p_data) s of
        Some (rc, out, s) \<Rightarrow> (if rc < 0 then 0 else 1, s) | None \<Rightarrow> (0, s))"

definition hfpga_ioctl :: "kernel \<Rightarrow> 'd fpga_io \<Rightarrow> u32 \<Rightarrow> 'd driver \<Rightarrow> int \<times> 'd driver" where
  "hfpga_ioctl k io cmd s =
     (case hfpga_drv_ioctl k io (CMDS cmd) s of
        Some (rc, out, s) \<Rightarrow> (if rc < 0 then 0 else 1, s) | None \<Rightarrow> (0, s))"

text \<open>
  The tables on their way out, as \<^verbatim>\<open>psi_apply_from_output_psi\<close> does it: stop, a write for each buffer
  that is not empty, the request 0x11 for a dump, start. \<open>gen_ss\<close> is \<^verbatim>\<open>dvbSI_GenSS\<close> of the table library.
\<close>

definition write_psi_buffers ::
  "(u32 \<Rightarrow> 'd driver \<Rightarrow> 'd driver) \<Rightarrow> kernel \<Rightarrow> 'd fpga_io \<Rightarrow> (nat \<times> u8 list) list \<Rightarrow> 'd driver \<Rightarrow> 'd driver" where
  "write_psi_buffers gen_ss k io writes s =
     (let s = gen_ss HFPGA_CMD_SI_STOP s;
          s = foldl (\<lambda>s (howto, bytes). snd (hfpga_writen k io bytes (word_of_nat howto) s)) s writes;
          s = snd (hfpga_ioctl k io 0x11 s)
      in gen_ss HFPGA_CMD_SI_START s)"

section \<open>What the FPGA does with its registers\<close>

text \<open>
  The map memory: 16 + 16 bits per address, behind a register for the address, two for the data and one
  that stores them when 0x55AA is written to it. Another register does not touch the memory, and
  reading a data register gives what the memory holds at the address.
\<close>

record fpga_view =
  latch_addr :: u16
  latch_lo :: u16
  latch_hi :: u16
  mem_lo :: "u16 \<Rightarrow> u16"
  mem_hi :: "u16 \<Rightarrow> u16"

definition store_latched :: "fpga_view \<Rightarrow> fpga_view" where
  "store_latched v = v\<lparr> mem_lo := (mem_lo v)(latch_addr v := latch_lo v), mem_hi := (mem_hi v)(latch_addr v := latch_hi v) \<rparr>"

definition drives_memory :: "'d fpga_io \<Rightarrow> ('d \<Rightarrow> fpga_view) \<Rightarrow> bool" where
  "drives_memory io view \<longleftrightarrow>
     (\<forall>x d. view (write_reg io HFPGA_REG_ADDR_MAP_MEM x d) = (view d)\<lparr> latch_addr := x \<rparr>)
   \<and> (\<forall>x d. view (write_reg io HFPGA_REG_ADDR_MEM_DATA_L16 x d) = (view d)\<lparr> latch_lo := x \<rparr>)
   \<and> (\<forall>x d. view (write_reg io HFPGA_REG_ADDR_MEM_DATA_H16 x d) = (view d)\<lparr> latch_hi := x \<rparr>)
   \<and> (\<forall>x d. view (write_reg io HFPGA_REG_ADDR_MAP_MEM_WCON x d) = (if x = 0x55AA then store_latched (view d) else view d))
   \<and> (\<forall>r x d. r \<notin> {HFPGA_REG_ADDR_MAP_MEM, HFPGA_REG_ADDR_MEM_DATA_L16, HFPGA_REG_ADDR_MEM_DATA_H16,
        HFPGA_REG_ADDR_MAP_MEM_WCON} \<longrightarrow> view (write_reg io r x d) = view d)
   \<and> (\<forall>d. fst (read_reg io HFPGA_REG_ADDR_MEM_DATA_L16 d) = mem_lo (view d) (latch_addr (view d)))
   \<and> (\<forall>d. fst (read_reg io HFPGA_REG_ADDR_MEM_DATA_H16 d) = mem_hi (view d) (latch_addr (view d)))
   \<and> (\<forall>r d. view (snd (read_reg io r d)) = view d)"

text \<open>The pair of PIDs at an address.\<close>

definition map_memory :: "('d \<Rightarrow> fpga_view) \<Rightarrow> 'd driver \<Rightarrow> u16 \<Rightarrow> pid_map_entry" where
  "map_memory view s a = \<lparr> input_pid = mem_hi (view (dev s)) a, output_pid = mem_lo (view (dev s)) a \<rparr>"

definition usable :: "pid_map_entry \<Rightarrow> bool" where
  "usable e \<longleftrightarrow> input_pid e \<noteq> UV_HFPGA_INVALID_PID_MAP \<and> output_pid e \<noteq> UV_HFPGA_INVALID_PID_MAP"

lemma view_write:
  assumes "drives_memory io view"
  shows "view (dev (write_hfpga_register io HFPGA_REG_ADDR_MAP_MEM x s)) = (view (dev s))\<lparr> latch_addr := x \<rparr>"
    "view (dev (write_hfpga_register io HFPGA_REG_ADDR_MEM_DATA_L16 x s)) = (view (dev s))\<lparr> latch_lo := x \<rparr>"
    "view (dev (write_hfpga_register io HFPGA_REG_ADDR_MEM_DATA_H16 x s)) = (view (dev s))\<lparr> latch_hi := x \<rparr>"
    "view (dev (write_hfpga_register io HFPGA_REG_ADDR_MAP_MEM_WCON 0x55AA s)) = store_latched (view (dev s))"
    "view (dev (write_hfpga_register io HFPGA_REG_ADDR_MAP_MEM_WCON 0 s)) = view (dev s)"
    "r \<notin> {HFPGA_REG_ADDR_MAP_MEM, HFPGA_REG_ADDR_MEM_DATA_L16, HFPGA_REG_ADDR_MEM_DATA_H16, HFPGA_REG_ADDR_MAP_MEM_WCON}
      \<Longrightarrow> view (dev (write_hfpga_register io r x s)) = view (dev s)"
  using assms by (simp_all add: drives_memory_def write_hfpga_register_def)

lemma view_read:
  assumes "drives_memory io view"
  shows "fst (read_hfpga_register io HFPGA_REG_ADDR_MEM_DATA_L16 s) = mem_lo (view (dev s)) (latch_addr (view (dev s)))"
    "fst (read_hfpga_register io HFPGA_REG_ADDR_MEM_DATA_H16 s) = mem_hi (view (dev s)) (latch_addr (view (dev s)))"
    "view (dev (snd (read_hfpga_register io r s))) = view (dev s)"
  using assms by (simp_all add: drives_memory_def read_hfpga_register_def case_prod_unfold Let_def)

lemma write_slot_memory:
  assumes "drives_memory io view"
  shows "map_memory view (write_slot io addr e s) = (if usable e then (map_memory view s)(addr := e) else map_memory view s)"
  by (auto simp: write_slot_def usable_def map_memory_def view_write [OF assms] store_latched_def Let_def)

lemma read_slot_memory:
  assumes "drives_memory io view"
  shows "fst (read_slot io addr s) = map_memory view s addr" "map_memory view (snd (read_slot io addr s)) = map_memory view s"
  using view_read [OF assms]
  by (simp_all add: read_slot_def map_memory_def view_write [OF assms] case_prod_unfold Let_def fun_eq_iff)

lemma read_slots_memory:
  assumes "drives_memory io view"
  shows "fst (read_slots io addrs s) = map (map_memory view s) addrs \<and> map_memory view (snd (read_slots io addrs s)) = map_memory view s"
  using read_slot_memory [OF assms]
  by (induction addrs arbitrary: s) (simp_all add: case_prod_unfold Let_def)

section \<open>The map memory after a write\<close>

definition slot_addr :: "nat \<Rightarrow> nat \<Rightarrow> u16" where
  "slot_addr c j = word_of_nat (0x80 + 32 * c + j)"

definition chan_slots :: "xmux_pid_map_table \<Rightarrow> nat \<Rightarrow> (u16 \<times> pid_map_entry) list" where
  "chan_slots m c = map (\<lambda>j. (slot_addr c j, m ! c ! j)) [0..<32]"

definition marked_chans :: "u8 \<Rightarrow> nat \<Rightarrow> nat \<Rightarrow> nat list" where
  "marked_chans bits i n = concat (map (\<lambda>k. if bit bits k then [i + k] else []) [0..<n])"

lemma marked_chans_Suc:
  "marked_chans bits i (Suc n) = (if bit bits 0 then [i] else []) @ marked_chans (drop_bit (Suc 0) bits) (Suc i) n"
proof -
  have "[0..<Suc n] = 0 # map Suc [0..<n]" by (simp add: upt_conv_Cons map_Suc_upt del: upt_Suc)
  then show ?thesis by (simp add: marked_chans_def bit_drop_bit_eq comp_def del: upt_Suc cong: if_cong)
qed

lemma marked_chans_zero: "marked_chans 0 i n = []"
  by (simp add: marked_chans_def)

lemma slot_base:
  "slot_addr i 0 + word_of_nat j = slot_addr i j" "slot_addr i 0 + 32 = slot_addr (Suc i) 0"
  "HFPGA_MAP_MEM_ADDR_BASE = slot_addr 0 0"
proof -
  show "slot_addr i 0 + word_of_nat j = slot_addr i j" unfolding slot_addr_def by (simp only: of_nat_add [symmetric] add_0_right)
  have "slot_addr i 0 + 32 = word_of_nat (0x80 + 32 * i + 0 + 32)" unfolding slot_addr_def by (simp only: of_nat_add of_nat_numeral)
  moreover have "0x80 + 32 * i + 0 + 32 = 0x80 + 32 * Suc i + 0" by simp
  ultimately show "slot_addr i 0 + 32 = slot_addr (Suc i) 0" unfolding slot_addr_def by (simp only:)
  show "HFPGA_MAP_MEM_ADDR_BASE = slot_addr 0 0" by (simp add: slot_addr_def HFPGA_MAP_MEM_ADDR_BASE_def)
qed

lemma odd_bit: "(bits :: u8) AND 1 \<noteq> 0 \<longleftrightarrow> bit bits 0"
  by (simp add: and_one_eq bit_0 odd_iff_mod_2_eq_one)

lemma write_map_loop_eq:
  "unat bits < 2 ^ n \<Longrightarrow> write_map_loop io m bits (slot_addr i 0) i s =
    foldl (\<lambda>s (a, e). write_slot io a e s) s (concat (map (chan_slots m) (marked_chans bits i n)))"
proof (induction n arbitrary: bits i s)
  case 0
  then have "bits = 0" by (simp add: unat_eq_0)
  then show ?case by (simp add: write_map_loop.simps [of io m 0] marked_chans_zero)
next
  case (Suc n)
  show ?case
  proof (cases "bits = 0")
    case True
    then show ?thesis by (simp add: write_map_loop.simps [of io m 0] marked_chans_zero)
  next
    case False
    have "unat (drop_bit (Suc 0) bits) = unat bits div 2" by (subst unat_drop_bit_eq) (simp add: drop_bit_Suc)
    with Suc.prems have small: "unat (drop_bit (Suc 0) bits) < 2 ^ n" by simp
    have row: "foldl (\<lambda>s j. write_slot io (slot_addr i 0 + word_of_nat j) (m ! i ! j) s) s [0..<32]
        = foldl (\<lambda>s (a, e). write_slot io a e s) s (chan_slots m i)"
      unfolding chan_slots_def by (simp add: foldl_map slot_base(1) del: upt_Suc)
    show ?thesis
      unfolding write_map_loop.simps [of io m bits] marked_chans_Suc
      using False row Suc.IH [OF small, of "Suc i"] by (simp add: odd_bit slot_base(2) Let_def)
  qed
qed

lemma write_slots_memory:
  assumes "drives_memory io view"
  shows "map_memory view (foldl (\<lambda>s (a, e). write_slot io a e s) s slots) =
    foldl (\<lambda>m (a, e). if usable e then m(a := e) else m) (map_memory view s) slots"
  by (induction slots arbitrary: s) (auto simp: write_slot_memory [OF assms])

text \<open>Writes to different addresses.\<close>

lemma fold_upd:
  assumes "distinct (map fst slots)"
  shows "foldl (\<lambda>m (a, e). if usable e then m(a := e) else m) mem slots x =
    (case map_of slots x of Some e \<Rightarrow> if usable e then e else mem x | None \<Rightarrow> mem x)"
  using assms
proof (induction slots arbitrary: mem)
  case (Cons p slots)
  obtain a e where p: "p = (a, e)" by (cases p)
  from Cons.prems have "map_of slots a = None" by (simp add: p map_of_eq_None_iff)
  with Cons show ?case by (auto simp: p split: option.splits)
qed simp

lemma unat_slot_addr: "c < 8 \<Longrightarrow> j < 32 \<Longrightarrow> unat (slot_addr c j) = 0x80 + (c * 32 + j)"
  unfolding slot_addr_def by (subst unat_of_nat_less) simp_all

lemma slot_addr_inj:
  assumes "c < 8" "j < 32" "c' < 8" "j' < 32" "slot_addr c j = slot_addr c' j'"
  shows "c = c' \<and> j = j'"
  using unat_slot_addr [OF assms(1,2)] unat_slot_addr [OF assms(3,4)] assms(5) mult_add_inj [OF assms(2,4), of c c'] by simp

lemma concat_filter: "concat (map (\<lambda>k. if P k then [k] else []) xs) = filter P xs"
  by (induction xs) simp_all

lemma marked_chans_8: "marked_chans bits 0 8 = filter (bit bits) [0..<8]"
  by (simp add: marked_chans_def concat_filter del: upt_Suc cong: if_cong)

text \<open>The slots of the marked channels have different addresses.\<close>

lemma slots_distinct: "distinct (map fst (concat (map (chan_slots m) (filter P [0..<8]))))"
proof -
  have d: "distinct (concat (map (\<lambda>c. map (slot_addr c) [0..<32]) cs))" if "distinct cs" "\<forall>c \<in> set cs. c < 8" for cs
    using that
  proof (induction cs)
    case (Cons c cs)
    have "inj_on (slot_addr c) {0..<32}" using Cons.prems slot_addr_inj [of c _ c] by (auto intro!: inj_onI)
    moreover have "slot_addr c j \<noteq> slot_addr c' j'" if "c' \<in> set cs" "j < 32" "j' < 32" for c' j j'
      using slot_addr_inj [of c j c' j'] that Cons.prems by auto
    ultimately show ?case using Cons by (auto simp: distinct_map simp del: upt_Suc)
  qed simp
  have "map fst (concat (map (chan_slots m) cs)) = concat (map (\<lambda>c. map (slot_addr c) [0..<32]) cs)" for cs
    by (simp add: map_concat chan_slots_def comp_def del: upt_Suc)
  with d show ?thesis by simp
qed

lemma map_of_slots:
  assumes "c < 8" "j < 32"
  shows "map_of (concat (map (chan_slots m) (filter P [0..<8]))) (slot_addr c j) = (if P c then Some (m ! c ! j) else None)"
proof (cases "P c")
  case True
  have "(slot_addr c j, m ! c ! j) \<in> set (chan_slots m c)" using assms(2) by (auto simp: chan_slots_def simp del: upt_Suc)
  with True assms(1) have "(slot_addr c j, m ! c ! j) \<in> set (concat (map (chan_slots m) (filter P [0..<8])))"
    by (auto simp del: upt_Suc)
  from map_of_is_SomeI [OF slots_distinct this] True show ?thesis by simp
next
  case False
  have "slot_addr c j \<notin> fst ` set (concat (map (chan_slots m) (filter P [0..<8])))"
  proof
    assume "slot_addr c j \<in> fst ` set (concat (map (chan_slots m) (filter P [0..<8])))"
    then obtain c' j' where "c' < 8" "P c'" "j' < 32" "slot_addr c j = slot_addr c' j'"
      by (force simp: chan_slots_def simp del: upt_Suc)
    with slot_addr_inj [OF assms, of c' j'] False show False by blast
  qed
  then have "map_of (concat (map (chan_slots m) (filter P [0..<8]))) (slot_addr c j) = None"
    unfolding map_of_eq_None_iff .
  with False show ?thesis by simp
qed

lemma written_slot:
  assumes "drives_memory io view" "c < 8" "j < 32"
  shows "map_memory view (write_hfpga_pid_map io p s) (slot_addr c j) =
    (if bit (cha p) c \<and> usable (pid_map p ! c ! j) then pid_map p ! c ! j else map_memory view s (slot_addr c j))"
proof -
  have "unat (cha p) < 2 ^ 8" using unsigned_less [of "cha p"] by simp
  then have w: "write_hfpga_pid_map io p s = foldl (\<lambda>s (a, e). write_slot io a e s) s (concat (map (chan_slots (pid_map p)) (filter (bit (cha p)) [0..<8])))"
    unfolding write_hfpga_pid_map_def slot_base(3) marked_chans_8 [symmetric] by (rule write_map_loop_eq)
  show ?thesis
    unfolding w write_slots_memory [OF assms(1)] fold_upd [OF slots_distinct] map_of_slots [OF assms(2,3)] by simp
qed

lemma read_map_loop_eq:
  assumes "drives_memory io view"
  shows "unat bits < 2 ^ n \<Longrightarrow> fst (read_map_loop io m bits (slot_addr i 0) i s) =
      foldl (\<lambda>m c. m[c := map (\<lambda>j. map_memory view s (slot_addr c j)) [0..<32]]) m (marked_chans bits i n)
    \<and> map_memory view (snd (read_map_loop io m bits (slot_addr i 0) i s)) = map_memory view s"
proof (induction n arbitrary: bits i s m)
  case 0
  then have "bits = 0" by (simp add: unat_eq_0)
  then show ?case by (simp add: read_map_loop.simps [of io m 0] marked_chans_zero)
next
  case (Suc n)
  show ?case
  proof (cases "bits = 0")
    case True
    then show ?thesis by (simp add: read_map_loop.simps [of io m 0] marked_chans_zero)
  next
    case False
    have "unat (drop_bit (Suc 0) bits) = unat bits div 2" by (subst unat_drop_bit_eq) (simp add: drop_bit_Suc)
    with Suc.prems have small: "unat (drop_bit (Suc 0) bits) < 2 ^ n" by simp
    let ?r = "read_slots io (map (\<lambda>j. slot_addr i 0 + word_of_nat j) [0..<32]) s"
    have r: "fst ?r = map (\<lambda>j. map_memory view s (slot_addr i j)) [0..<32]" "map_memory view (snd ?r) = map_memory view s"
      using read_slots_memory [OF assms, of "map (\<lambda>j. slot_addr i 0 + word_of_nat j) [0..<32]" s]
      by (simp_all add: comp_def slot_base(1) del: upt_Suc)
    show ?thesis
      unfolding read_map_loop.simps [of io m bits] marked_chans_Suc
      using False r Suc.IH [OF small, of _ "Suc i"]
      by (simp add: odd_bit slot_base(2) case_prod_unfold Let_def del: upt_Suc)
  qed
qed

lemma foldl_rows:
  "length m = 8 \<Longrightarrow> c < 8 \<Longrightarrow> distinct cs \<Longrightarrow> foldl (\<lambda>m c. m[c := row c]) m cs ! c = (if c \<in> set cs then row c else m ! c)
    \<and> length (foldl (\<lambda>m c. m[c := row c]) m cs) = 8"
  by (induction cs arbitrary: m) auto

lemma read_rows:
  assumes "drives_memory io view" "length (pid_map p) = 8" "c < 8"
  shows "pid_map (fst (read_hfpga_pid_map io p s)) ! c =
      (if bit (cha p) c then map (\<lambda>j. map_memory view s (slot_addr c j)) [0..<32] else pid_map p ! c)"
    "length (pid_map (fst (read_hfpga_pid_map io p s))) = 8" "cha (fst (read_hfpga_pid_map io p s)) = cha p"
proof -
  have "unat (cha p) < 2 ^ 8" using unsigned_less [of "cha p"] by simp
  from read_map_loop_eq [OF assms(1) this, of "pid_map p" 0 s] have
    "pid_map (fst (read_hfpga_pid_map io p s)) =
      foldl (\<lambda>m c. m[c := map (\<lambda>j. map_memory view s (slot_addr c j)) [0..<32]]) (pid_map p) (filter (bit (cha p)) [0..<8])"
    "cha (fst (read_hfpga_pid_map io p s)) = cha p"
    by (simp_all add: read_hfpga_pid_map_def slot_base(3) marked_chans_8 case_prod_unfold Let_def del: upt_Suc)
  with foldl_rows [OF assms(2,3), of "filter (bit (cha p)) [0..<8]" "\<lambda>c. map (\<lambda>j. map_memory view s (slot_addr c j)) [0..<32]"] assms(3)
  show "pid_map (fst (read_hfpga_pid_map io p s)) ! c =
      (if bit (cha p) c then map (\<lambda>j. map_memory view s (slot_addr c j)) [0..<32] else pid_map p ! c)"
    "length (pid_map (fst (read_hfpga_pid_map io p s))) = 8" "cha (fst (read_hfpga_pid_map io p s)) = cha p"
    by (simp_all del: upt_Suc)
qed

text \<open>C37: The map the driver writes is what it reads back, for the channels of its bit map; the rows of the other
  channels stay as the reader had them.\<close>

theorem pid_map_read_back:
  assumes "drives_memory io view" "pid_map_wf (pid_map p)" "\<forall>row \<in> set (pid_map p). \<forall>e \<in> set row. usable e"
    and "pid_map_wf (pid_map q)" "cha q = cha p" "c < CHANNEL_MAX_NUM"
  shows "pid_map (fst (read_hfpga_pid_map io q (write_hfpga_pid_map io p s))) ! c =
    (if bit (cha p) c then pid_map p ! c else pid_map q ! c)"
proof -
  have c: "c < 8" "length (pid_map q) = 8" "length (pid_map p ! c) = 32" "pid_map p ! c \<in> set (pid_map p)"
    using assms(2,4,6) by (auto simp: pid_map_wf_def limit_simps)
  have "map_memory view (write_hfpga_pid_map io p s) (slot_addr c j) = pid_map p ! c ! j" if "j < 32" "bit (cha p) c" for j
    using written_slot [OF assms(1) c(1) that(1)] that assms(3) c(3,4) by simp
  then show ?thesis
    using read_rows(1) [OF assms(1) c(2,1)] c(3) assms(5) by (auto intro!: nth_equalityI)
qed

lemma build_io_table_selected_out:
  assumes "build_io_table s = Some t" "outs_in_range s" "is_selected (t c p)"
  shows "out_pid (t c p) \<le> NULL_PID"
proof -
  from assms(1,3) obtain l q e where e: "sel_prog_at s c l q" "e \<in> set (prog_entries (info q))" "prog_pid_val_isvalid p"
    "pt_in e = p" "pt_out e = out_pid (t c p)" by (rule build_io_table_origin)
  then have "pt_out e \<in> snd ` out_map s"
    by (intro selected_out_in_map) (auto simp: sel_prog_at_visible)
  with assms(2) e(5) show ?thesis by (auto simp: outs_in_range_def)
qed


section \<open>The areas of the tables\<close>

text \<open>Where the byte number \<open>n\<close> of the memory of tables is.\<close>

definition si_addr :: "nat \<Rightarrow> u16" where "si_addr n = word_of_nat (0x2000 + n)"

definition table_memory :: "('d \<Rightarrow> fpga_view) \<Rightarrow> 'd driver \<Rightarrow> nat \<Rightarrow> u16" where
  "table_memory view s n = mem_lo (view (dev s)) (si_addr n)"

lemma unat_si_addr: "n < 0xE000 \<Longrightarrow> unat (si_addr n) = 0x2000 + n"
  unfolding si_addr_def by (subst unat_of_nat_less) simp_all

lemma si_addr_inj: "n < 0xE000 \<Longrightarrow> m < 0xE000 \<Longrightarrow> si_addr n = si_addr m \<longleftrightarrow> n = m"
  by (metis add_left_cancel unat_si_addr)

lemma write_si_memory:
  assumes "drives_memory io view"
  shows "n0 + length bs \<le> 0xE000 \<Longrightarrow> n < 0xE000 \<Longrightarrow> table_memory view (write_si_bytes io (word_of_nat n0) bs s) n =
    (if n0 \<le> n \<and> n < n0 + length bs then ucast (bs ! (n - n0)) else table_memory view s n)"
proof (induction bs arbitrary: n0 s)
  case (Cons b bs)
  let ?s = "write_hfpga_register io HFPGA_REG_ADDR_MAP_MEM_WCON 0x55AA (write_hfpga_register io HFPGA_REG_ADDR_MEM_DATA_L16 (ucast b)
      (write_hfpga_register io HFPGA_REG_ADDR_MAP_MEM (word_of_nat n0 + HFPGA_MAP_MEM_ADDR_SI_PHY_BASE)
        (write_hfpga_register io HFPGA_REG_ADDR_MAP_MEM_WCON 0 s)))"
  have a: "word_of_nat n0 + HFPGA_MAP_MEM_ADDR_SI_PHY_BASE = si_addr n0" "(word_of_nat n0 :: u16) + 1 = word_of_nat (Suc n0)"
    by (simp_all add: si_addr_def HFPGA_MAP_MEM_ADDR_SI_PHY_BASE_def add.commute)
  have one: "table_memory view ?s n = (if n = n0 then ucast b else table_memory view s n)"
    using Cons.prems si_addr_inj [of n n0]
    by (simp add: table_memory_def view_write [OF assms] store_latched_def a(1))
  have "table_memory view (write_si_bytes io (word_of_nat n0) (b # bs) s) n =
      table_memory view (write_si_bytes io (word_of_nat (Suc n0)) bs ?s) n"
    by (simp add: a(2) Let_def)
  also have "\<dots> = (if Suc n0 \<le> n \<and> n < Suc n0 + length bs then ucast (bs ! (n - Suc n0)) else table_memory view ?s n)"
    by (rule Cons.IH) (use Cons.prems in simp_all)
  finally show ?case using one by (auto simp: nth_Cons' not_less)
qed auto

lemma write_si_offsets [simp]:
  "cur_40ms_offset (write_hfpga_register io r x s) = cur_40ms_offset s" "cur_2s_offset (write_hfpga_register io r x s) = cur_2s_offset s"
  "cur_40ms_offset (write_si_bytes io pos bs s) = cur_40ms_offset s" "cur_2s_offset (write_si_bytes io pos bs s) = cur_2s_offset s"
  by (simp_all add: write_hfpga_register_def)
     (induction bs arbitrary: pos s, simp_all add: write_hfpga_register_def Let_def)+

lemma table_memory_wcon:
  "drives_memory io view \<Longrightarrow> table_memory view (write_hfpga_register io HFPGA_REG_ADDR_MAP_MEM_WCON 0 s) = table_memory view s"
  by (simp add: table_memory_def view_write fun_eq_iff)

lemma table_memory_upd [simp]:
  "table_memory view (s\<lparr> cur_40ms_offset := x \<rparr>) = table_memory view s"
  "table_memory view (s\<lparr> cur_2s_offset := x \<rparr>) = table_memory view s"
  by (simp_all add: table_memory_def fun_eq_iff)

text \<open>The state of the two areas: how many bytes each holds.\<close>

definition si_filled :: "('d \<Rightarrow> fpga_view) \<Rightarrow> u8 list \<Rightarrow> u8 list \<Rightarrow> 'd driver \<Rightarrow> bool" where
  "si_filled view fast slow s \<longleftrightarrow> cur_40ms_offset s = word_of_nat (length fast)
     \<and> cur_2s_offset s = word_of_nat (34 * 188 + length slow)
     \<and> (\<forall>n < length fast. table_memory view s n = ucast (fast ! n))
     \<and> (\<forall>n < length slow. table_memory view s (34 * 188 + n) = ucast (slow ! n))"

lemma write_str_filled:
  assumes "drives_memory io view" "si_filled view fast slow s"
    and "length (if (ucast addr :: u8) = 0 then fast @ bs else fast) \<le> 34 * 188"
    and "34 * 188 + length (if (ucast addr :: u8) = 0 then slow else slow @ bs) \<le> 0xE000"
  shows "si_filled view (if (ucast addr :: u8) = 0 then fast @ bs else fast) (if (ucast addr :: u8) = 0 then slow else slow @ bs)
    (write_hfpga_str_data io bs addr s)"
proof (cases "(ucast addr :: u8) = 0")
  case True
  let ?t = "write_si_bytes io (word_of_nat (length fast)) bs s"
  note mem = write_si_memory [OF assms(1), where ?n0.0 = "length fast" and bs = bs and s = s]
  have m: "table_memory view ?t n = (if length fast \<le> n \<and> n < length fast + length bs then ucast (bs ! (n - length fast)) else table_memory view s n)"
    if "n < 0xE000" for n using mem [of n] that assms(3) True by simp
  have "table_memory view ?t n = ucast ((fast @ bs) ! n)" if "n < length fast + length bs" for n
    using m [of n] that assms(2,3) True by (simp add: si_filled_def nth_append)
  moreover have "table_memory view ?t (34 * 188 + n) = ucast (slow ! n)" if "n < length slow" for n
    using m [of "34 * 188 + n"] that assms(2-4) True by (simp add: si_filled_def)
  ultimately show ?thesis
    using True assms(2) by (simp add: write_hfpga_str_data_def si_filled_def table_memory_wcon [OF assms(1)] Let_def)
next
  case False
  let ?t = "write_si_bytes io (word_of_nat (34 * 188 + length slow)) bs s"
  note mem = write_si_memory [OF assms(1), where ?n0.0 = "34 * 188 + length slow" and bs = bs and s = s]
  have m: "table_memory view ?t n = (if 34 * 188 + length slow \<le> n \<and> n < 34 * 188 + length slow + length bs
      then ucast (bs ! (n - (34 * 188 + length slow))) else table_memory view s n)"
    if "n < 0xE000" for n using mem [of n] that assms(4) False by simp
  have "table_memory view ?t n = ucast (fast ! n)" if "n < length fast" for n
    using m [of n] that assms(2,3) False by (simp add: si_filled_def)
  moreover have "table_memory view ?t (34 * 188 + n) = ucast ((slow @ bs) ! n)" if "n < length slow + length bs" for n
    using m [of "34 * 188 + n"] that assms(2,4) False by (simp add: si_filled_def nth_append)
  ultimately show ?thesis
    using False assms(2) by (simp add: write_hfpga_str_data_def si_filled_def table_memory_wcon [OF assms(1)] Let_def)
qed

text \<open>All requests go through, and the table library hands its commands on.\<close>

definition all_granted :: "kernel \<Rightarrow> bool" where
  "all_granted k \<longleftrightarrow> k_open k \<and> k_alloc k \<and> k_copied k \<and> k_alloc_data k \<and> k_data_copied k"

definition mode_bytes :: "bool \<Rightarrow> (nat \<times> u8 list) list \<Rightarrow> u8 list" where
  "mode_bytes fast writes = concat (map snd (filter (\<lambda>(howto, bs). ((word_of_nat howto :: u8) = 0) = fast) writes))"

lemma mode_bytes_Cons:
  "mode_bytes fast ((howto, bs) # ws) = (if ((word_of_nat howto :: u8) = 0) = fast then bs @ mode_bytes fast ws else mode_bytes fast ws)"
  by (simp add: mode_bytes_def)

lemma writen_filled:
  assumes "drives_memory io view" "all_granted k"
  shows "si_filled view fast slow s \<Longrightarrow> length fast + length (mode_bytes True writes) \<le> 34 * 188
    \<Longrightarrow> 34 * 188 + length slow + length (mode_bytes False writes) \<le> 0xE000 \<Longrightarrow>
    si_filled view (fast @ mode_bytes True writes) (slow @ mode_bytes False writes)
      (foldl (\<lambda>s (howto, bytes). snd (hfpga_writen k io bytes (word_of_nat howto) s)) s writes)"
proof (induction writes arbitrary: fast slow s)
  case (Cons w ws)
  obtain howto bs where w: "w = (howto, bs)" by (cases w)
  let ?h = "(word_of_nat howto :: u8)"
  have n: "snd (hfpga_writen k io bs ?h s) = write_hfpga_str_data io bs (ucast ?h) s" for s
    using assms(2) by (simp add: hfpga_writen_def all_granted_def)
  have u: "(ucast (ucast ?h :: u32) :: u8) = ?h" by (rule bit_word_eqI) (simp add: bit_simps)
  let ?fast = "if ?h = 0 then fast @ bs else fast" and ?slow = "if ?h = 0 then slow else slow @ bs"
  have "si_filled view ?fast ?slow (write_hfpga_str_data io bs (ucast ?h) s)"
    using write_str_filled [OF assms(1) Cons.prems(1), where bs = bs and addr = "ucast ?h", unfolded u] Cons.prems(2,3)
    by (simp add: w mode_bytes_Cons split: if_splits)
  then have "si_filled view (?fast @ mode_bytes True ws) (?slow @ mode_bytes False ws)
      (foldl (\<lambda>s (howto, bytes). snd (hfpga_writen k io bytes (word_of_nat howto) s)) (write_hfpga_str_data io bs (ucast ?h) s) ws)"
    by (rule Cons.IH) (use Cons.prems(2,3) in \<open>simp_all add: w mode_bytes_Cons split: if_splits\<close>)
  then show ?case by (simp add: w n mode_bytes_Cons split: if_splits)
qed (simp add: mode_bytes_def)

text \<open>All packets together fit behind the first area.\<close>

lemma sum_if_one: "sum_list (map (\<lambda>h. if h = k then n else 0) [0..<m]) \<le> (n :: nat)"
  by (induction m) auto

lemma log_pkts_sum: "sum_list (map (\<lambda>h. length (log_pkts ((=) h) A)) [0..<m]) \<le> length (all_pkts A)"
proof (induction A)
  case (Cons x A)
  obtain k ps where x: "x = (k, ps)" by (cases x)
  have "length (log_pkts ((=) h) (x # A)) = (if h = k then length ps else 0) + length (log_pkts ((=) h) A)" for h
    by (simp add: x log_pkts_Cons)
  then show ?case using Cons.IH sum_if_one [of k "length ps" m] by (simp add: x sum_list_addf)
qed (simp add: log_pkts_Nil)

lemma sum_list_filter_le: "sum_list (map f (filter P xs)) \<le> (sum_list (map f xs) :: nat)"
  by (induction xs) auto

lemma mode_bytes_bound: "length (mode_bytes fast ws) \<le> sum_list (map (length \<circ> snd) ws)"
  unfolding mode_bytes_def length_concat map_map by (rule sum_list_filter_le)

lemma psi_writes_total:
  assumes "psi_wf psi" "output_psi_data_validate psi" "psi_apply_from_output_psi psi = Some writes"
  shows "length (mode_bytes fast writes) \<le> 188 * sum_list (map (\<lambda>e. unat (nr_ts_pkts e)) (psi_ents psi))"
proof -
  from put_types [OF assms(1,2) le_refl] obtain A mul where A:
    "foldM (put_type psi) (PSISI_MUL_PKT_0 - 1, replicate PSISI_MAX_NUM []) [0..<OUTPUT_PSI_TYPE_MAX_NUM] = Some (mul, buffers A)"
    "all_pkts A = concat (map (type_pkts psi) [0..<OUTPUT_PSI_TYPE_MAX_NUM])" by blast
  with assms(3) have w: "writes = filter (\<lambda>(howto, bytes). bytes \<noteq> []) (enumerate 0 (buffers A))"
    by (simp add: psi_apply_from_output_psi_def)
  have l: "length (psi_ents psi) = OUTPUT_PSI_TYPE_MAX_NUM" using assms(1) by (simp add: psi_wf_def)
  have bound: "\<forall>e \<in> set (psi_ents psi). unat (offset e) + unat (nr_ts_pkts e) < 87"
    using ents_validate_sum [of 0 "psi_ents psi"] assms(2) by (auto simp: output_psi_data_validate_def psi_sizes)
  have "length (all_pkts A) = sum_list (map (\<lambda>ty. unat (nr_ts_pkts (psi_ents psi ! ty))) [0..<OUTPUT_PSI_TYPE_MAX_NUM])"
    unfolding A(2) by (simp add: length_concat comp_def type_pkts_def Let_def del: upt_Suc)
  also have "map (\<lambda>ty. unat (nr_ts_pkts (psi_ents psi ! ty))) [0..<OUTPUT_PSI_TYPE_MAX_NUM] = map (\<lambda>e. unat (nr_ts_pkts e)) (psi_ents psi)"
    using l by (intro nth_equalityI) (simp_all del: upt_Suc)
  finally have few: "length (all_pkts A) = sum_list (map (\<lambda>e. unat (nr_ts_pkts e)) (psi_ents psi))" .
  have "length (pkt_at psi (unat (offset (psi_ents psi ! ty)) + i)) = TS_PACKET_BYTES"
    if "ty < OUTPUT_PSI_TYPE_MAX_NUM" "i < unat (nr_ts_pkts (psi_ents psi ! ty))" for ty i
  proof -
    have "psi_ents psi ! ty \<in> set (psi_ents psi)" using that(1) l by simp
    with bound that(2) assms(1) show ?thesis by (force simp: pkt_at_def psi_wf_def psi_sizes)
  qed
  then have pkt: "\<forall>p \<in> set (all_pkts A). length p = TS_PACKET_BYTES"
    unfolding A(2) by (auto simp: type_pkts_def Let_def)
  have "length (concat (log_pkts ((=) h) A)) = length (log_pkts ((=) h) A) * TS_PACKET_BYTES" for h
    by (rule concat_pkts_length) (use pkt log_pkts_set [of "(=) h" A] in blast)
  then have "sum_list (map length (buffers A)) = 188 * sum_list (map (\<lambda>h. length (log_pkts ((=) h) A)) [0..<PSISI_MAX_NUM])"
    by (simp add: buffers_def comp_def TS_PACKET_BYTES_def sum_list_const_mult [symmetric] mult.commute)
  also have "\<dots> \<le> 188 * length (all_pkts A)"
    using log_pkts_sum [of A PSISI_MAX_NUM] by simp
  finally have "sum_list (map length (buffers A)) \<le> 188 * length (all_pkts A)" .
  moreover have "sum_list (map (length \<circ> snd) writes) \<le> sum_list (map (length \<circ> snd) (enumerate 0 (buffers A)))"
    unfolding w by (rule sum_list_filter_le)
  moreover have "map (length \<circ> snd) (enumerate 0 (buffers A)) = map length (buffers A)"
    by (simp add: enumerate_eq_zip map_map [symmetric] del: map_map)
  ultimately show ?thesis using mode_bytes_bound [of fast writes] few by simp
qed

lemma psi_writes_bound:
  assumes "psi_wf psi" "output_psi_data_validate psi" "psi_apply_from_output_psi psi = Some writes"
  shows "length (mode_bytes fast writes) \<le> 188 * OUTPUT_PSI_PACKET_MAX_NUM"
proof -
  have "sum_list (map (\<lambda>e. unat (nr_ts_pkts e)) (psi_ents psi)) < OUTPUT_PSI_PACKET_MAX_NUM"
    using ents_validate_sum [of 0 "psi_ents psi"] assms(2) by (auto simp: output_psi_data_validate_def psi_sizes)
  with psi_writes_total [OF assms, of fast] show ?thesis by simp
qed

lemma other_reg_memory:
  assumes "drives_memory io view"
    and "r \<notin> {HFPGA_REG_ADDR_MAP_MEM, HFPGA_REG_ADDR_MEM_DATA_L16, HFPGA_REG_ADDR_MEM_DATA_H16, HFPGA_REG_ADDR_MAP_MEM_WCON}"
  shows "table_memory view (write_hfpga_register io r x s) = table_memory view s"
  using view_write(6) [OF assms(1), of r] assms(2) by (simp add: table_memory_def fun_eq_iff)

lemma si_commands:
  assumes "drives_memory io view"
  shows "si_filled view [] [] (si_stop io s)" "si_filled view fast slow s \<Longrightarrow> si_filled view fast slow (si_start io s)"
  by (simp_all add: si_stop_def si_start_def si_filled_def other_reg_memory [OF assms] hfpga_regs Let_def)
     (simp_all add: hfpga_bases)

lemma granted_commands:
  assumes "all_granted k"
  shows "snd (hfpga_ioctl k io HFPGA_CMD_SI_STOP s) = si_stop io s" "snd (hfpga_ioctl k io HFPGA_CMD_SI_START s) = si_start io s"
    "snd (hfpga_ioctl k io 0x11 s) = s"
  using assms by (simp_all add: hfpga_ioctl_def all_granted_def HFPGA_CMD_SI_STOP_def HFPGA_CMD_SI_START_def)


section \<open>The bit rate\<close>

lemma bitrate_reg_unat: "unat (bitrate_reg_value b) = (unat b * 2 ^ 32 div 432000) mod 2 ^ 32"
proof -
  have l: "unat b < 2 ^ 32" using unsigned_less [of b] by simp
  have "unat (push_bit 32 (ucast b :: 64 word)) = unat b * 2 ^ 32"
    using l by (simp add: push_bit_eq_mult unat_word_ariths(2) unsigned_ucast_eq take_bit_nat_eq_self)
  then have "unat (push_bit 32 (ucast b :: 64 word) div (8 * 54000)) = unat b * 2 ^ 32 div 432000"
    by (simp add: unat_div)
  then show ?thesis unfolding bitrate_reg_value_def by (simp add: unsigned_ucast_eq take_bit_eq_mod)
qed

lemma halves: "unat (ucast (drop_bit 16 v) :: u16) * 2 ^ 16 + unat (ucast (v AND 0xFFFF) :: u16) = unat (v :: u32)"
proof -
  have "unat v < 2 ^ 32" using unsigned_less [of v] by simp
  moreover have "v AND 0xFFFF = take_bit 16 v" by (simp add: take_bit_eq_mask mask_eq_decr_exp)
  ultimately show ?thesis
    using div_mult_mod_eq [of "unat v" 65536]
    by (simp add: unsigned_ucast_eq drop_bit_eq_div take_bit_eq_mod unat_div unat_mod less_mult_imp_div_less)
qed

lemma rate_split: "x * 2 ^ 32 div 432000 = x mod 432000 * 2 ^ 32 div 432000 + x div 432000 * (2 ^ 32 :: nat)"
proof -
  define q r where "q = x div 432000" and "r = x mod 432000"
  have "x * 2 ^ 32 = r * 2 ^ 32 + q * 2 ^ 32 * 432000" unfolding q_def r_def
    by (subst div_mult_mod_eq [of x 432000, symmetric]) (simp only: algebra_simps)
  then show ?thesis unfolding q_def [symmetric] r_def [symmetric] by simp
qed

text \<open>C38: The two registers of the output rate get, together, the rate in units of 1/2^32 of 432000 kbit/s,
  rounded down, for every rate below that clock; a rate from 432000 on gives the registers of the
  remainder.\<close>

theorem output_rate_programmed:
  assumes "k_open k" "k_alloc k" "k_copied k"
  shows "\<exists>hi lo. hfpga_write_sys_output_bitrate k io b s =
      (0, write_hfpga_register io HFPGA_REG_ADDR_SYS_RATE_LSB lo (write_hfpga_register io HFPGA_REG_ADDR_SYS_RATE_MSB hi s))
    \<and> unat hi * 2 ^ 16 + unat lo = unat b mod 432000 * 2 ^ 32 div 432000"
proof -
  have "unat b mod 432000 * 2 ^ 32 div 432000 < 2 ^ 32"
    using mod_less_divisor [of 432000 "unat b"] by (intro less_mult_imp_div_less) simp
  then have "unat (bitrate_reg_value b) = unat b mod 432000 * 2 ^ 32 div 432000"
    unfolding bitrate_reg_unat by (subst rate_split) (simp only: mod_mult_self1 mod_less)
  with halves [of "bitrate_reg_value b"] show ?thesis
    using assms by (auto simp: hfpga_write_sys_output_bitrate_def write_reg_ioctl_def valid_reg_def hfpga_regs Let_def)
qed

section \<open>Reading a stream\<close>

lemma read_fifo_result:
  assumes "read_fifo io n delay buf s = Some (r, bytes, s')"
  shows "r = 0 \<or> r = n + length buf \<and> length bytes = r"
proof -
  have "case (r, bytes, s') of (r, bytes, s') \<Rightarrow> r = 0 \<or> r = n + length buf \<and> length bytes = r"
    using assms
  proof (rule read_fifo.raw_induct [rotated])
    fix f :: "'a fpga_io \<Rightarrow> nat \<Rightarrow> nat \<Rightarrow> u8 list \<Rightarrow> 'a driver \<Rightarrow> (nat \<times> u8 list \<times> 'a driver) option"
      and io n delay buf s y
    assume IH: "\<And>io n delay buf s y. f io n delay buf s = Some y
        \<Longrightarrow> case y of (r, bytes, s') \<Rightarrow> r = 0 \<or> r = n + length buf \<and> length bytes = r"
      and step: "(if n = 0 then Some (length buf, buf, s)
        else let (delay, s) = wait_fifo io delay s
             in if delay = 0 then Some (0, buf, s)
                else let (data, s) = read_hfpga_register io HFPGA_REG_ADDR_FIFO_STATUS (pulse io HFPGA_REG_ADDR_FIFO_RCON s)
                     in if buf = [] \<and> drop_bit 8 data AND 1 = 0 then f io n delay buf s
                        else f io (n - 1) delay (buf @ [ucast (0xFF AND data)]) s) = Some y"
    obtain d t where t: "wait_fifo io delay s = (d, t)" by (cases "wait_fifo io delay s")
    obtain x u where u: "read_hfpga_register io HFPGA_REG_ADDR_FIFO_STATUS (pulse io HFPGA_REG_ADDR_FIFO_RCON t) = (x, u)"
      by (cases "read_hfpga_register io HFPGA_REG_ADDR_FIFO_STATUS (pulse io HFPGA_REG_ADDR_FIFO_RCON t)")
    consider (stop) "n = 0 \<or> d = 0" | (skip) "n \<noteq> 0" "d \<noteq> 0" "buf = []" "drop_bit 8 x AND 1 = 0"
      | (byte) "n \<noteq> 0" "d \<noteq> 0" "\<not> (buf = [] \<and> drop_bit 8 x AND 1 = 0)" by blast
    then show "case y of (r, bytes, s') \<Rightarrow> r = 0 \<or> r = n + length buf \<and> length bytes = r"
    proof cases
      case stop
      with step t show ?thesis by (auto split: if_splits)
    next
      case skip
      with step t u have "f io n d [] u = Some y" by simp
      from IH [OF this] skip show ?thesis by simp
    next
      case byte
      with step t u have "f io (n - 1) d (buf @ [ucast (0xFF AND x)]) u = Some y" by (auto simp: Let_def split: if_splits)
      from IH [OF this] byte show ?thesis by auto
    qed
  qed
  then show ?thesis by simp
qed

lemma str_data_length:
  "read_hfpga_str_data io addr n nbgn s = Some (r, bytes, s') \<Longrightarrow> 0 < r \<Longrightarrow> length bytes = n \<and> r = n"
  by (auto simp: read_hfpga_str_data_def dest: read_fifo_result)

lemma readn_raw_length:
  assumes "hfpga_readn_raw k io n param nbgn s = Some (rc, bytes, s')" "rc \<noteq> 0"
  shows "length bytes = n"
  using assms str_data_length
  by (auto simp: hfpga_readn_raw_def Let_def split: Option.bind_splits if_splits ioctl_out.splits prod.splits) fastforce+

text \<open>A stream read gives all bytes that were asked for or fails; it never hands over a part.\<close>

theorem stream_all_or_nothing:
  assumes "hfpga_drv_ioctl k io (READ_STR_DATA addr n nbgn) s = Some (rc, out, s')"
  shows "rc = 0 \<and> 0 < n \<and> (\<exists>bytes. out = Stream n bytes \<and> length bytes = n) \<or> rc = - EFAULT \<and> out = Unchanged"
  using assms str_data_length [of io addr n nbgn s]
  by (auto split: if_splits Option.bind_splits)

text \<open>C39: The packets read ahead for the SDT (PID 0x11) are lost between two calls: after a first call that
  succeeds, nine more are said to be left, and the second call, whatever the stream holds, gives
  bytes of its own stack without asking the driver.\<close>

theorem sdt_read_ahead_lost:
  assumes "io_pid param = 0x11" "hfpga_readn k io n param True stack s = Some (1, pkt, s')"
    and "length stack' = TS_PACKET_BYTES * READAHEAD_TS_PKT_NUM"
  shows "left_pkt s' = 9
    \<and> hfpga_readn k io n param False stack' s' = Some (1, take TS_PACKET_BYTES (drop TS_PACKET_BYTES stack'), s'\<lparr> left_pkt := 8 \<rparr>)"
proof -
  have "left_pkt s' = 9 \<and> left_pkt_tot s' = 10"
    using assms(1,2) readn_raw_length [of k io "TS_PACKET_BYTES * READAHEAD_TS_PKT_NUM" param True s]
    by (auto simp: hfpga_readn_def read_ahead_def Let_def TS_PACKET_BYTES_def READAHEAD_TS_PKT_NUM_def
        split: Option.bind_splits if_splits)
  with assms(1,3) show ?thesis
    by (simp add: hfpga_readn_def mem_read_def TS_PACKET_BYTES_def READAHEAD_TS_PKT_NUM_def)
qed

section \<open>Concrete devices\<close>

text \<open>The map memory with its registers; a FIFO that always holds the byte 0xFF with the mark of a start.\<close>

definition register_file :: "fpga_view fpga_io" where
  "register_file = \<lparr>
     write_reg = (\<lambda>r x v.
       if r = HFPGA_REG_ADDR_MAP_MEM then v\<lparr> latch_addr := x \<rparr>
       else if r = HFPGA_REG_ADDR_MEM_DATA_L16 then v\<lparr> latch_lo := x \<rparr>
       else if r = HFPGA_REG_ADDR_MEM_DATA_H16 then v\<lparr> latch_hi := x \<rparr>
       else if r = HFPGA_REG_ADDR_MAP_MEM_WCON \<and> x = 0x55AA then store_latched v else v),
     read_reg = (\<lambda>r v.
       (if r = HFPGA_REG_ADDR_MEM_DATA_L16 then mem_lo v (latch_addr v)
        else if r = HFPGA_REG_ADDR_MEM_DATA_H16 then mem_hi v (latch_addr v) else 0, v)) \<rparr>"

definition full_fifo :: "unit fpga_io" where
  "full_fifo = \<lparr> write_reg = (\<lambda>r x d. d), read_reg = (\<lambda>r d. (0xFFFF, d)) \<rparr>"

definition granting :: kernel where
  "granting = \<lparr> k_open = True, k_alloc = True, k_copied = True, k_alloc_data = True, k_stale_regs = (0, 0),
     k_data_copied = True, k_stale_data = [] \<rparr>"

lemma granting [simp]:
  "k_open granting" "k_alloc granting" "k_copied granting" "k_alloc_data granting" "all_granted granting"
  by (simp_all add: granting_def all_granted_def)

lemma register_file_drives: "drives_memory register_file id"
  by (simp add: drives_memory_def register_file_def hfpga_regs)

lemma full_fifo_regs [simp]:
  "write_hfpga_register full_fifo r x s = s" "read_hfpga_register full_fifo r s = (0xFFFF, s)"
  by (simp_all add: full_fifo_def write_hfpga_register_def read_hfpga_register_def)

lemma full_fifo_wait: "0 < delay \<Longrightarrow> wait_fifo full_fifo delay s = (UV_HFPGA_TS_FIFO_RD_MAX_DELAY, s)"
  by (cases delay) simp_all

lemma full_fifo_read:
  "0 < delay \<Longrightarrow> read_fifo full_fifo n delay buf s = Some (n + length buf, buf @ replicate n 0xFF, s)"
proof (induction n arbitrary: delay buf)
  case 0
  then show ?case by (simp add: read_fifo.simps)
next
  case (Suc n)
  then show ?case
    by (subst read_fifo.simps)
       (simp add: full_fifo_wait pulse_def UV_HFPGA_TS_FIFO_RD_MAX_DELAY_def replicate_app_Cons_same Let_def)
qed

definition full_api :: "unit api" where
  "full_api = \<lparr> drv = \<lparr> dev = (), cur_40ms_offset = 0, cur_2s_offset = 0 \<rparr>,
     filter_map = \<lparr> cha = 0, pid_map = replicate 8 (replicate 32 pid_map_pad) \<rparr>, left_pkt = 0, left_pkt_tot = 0 \<rparr>"

definition sdt_param :: uv_io_param where "sdt_param = \<lparr> io_pid = 0x11, io_cha = 2 \<rparr>"

definition blank_registers :: "fpga_view driver" where
  "blank_registers = \<lparr> dev = \<lparr> latch_addr = 0, latch_lo = 0, latch_hi = 0, mem_lo = (\<lambda>_. 0), mem_hi = (\<lambda>_. 0) \<rparr>,
     cur_40ms_offset = 0, cur_2s_offset = 0 \<rparr>"

theorem pid_map_read_back_witness:
  "pid_map (fst (read_hfpga_pid_map register_file \<lparr> cha = 0x0F, pid_map = replicate 8 (replicate 32 \<lparr> input_pid = 0, output_pid = 0 \<rparr>) \<rparr>
     (write_hfpga_pid_map register_file \<lparr> cha = 0x0F, pid_map = replicate 8 (replicate 32 \<lparr> input_pid = 0x100, output_pid = 0x31 \<rparr>) \<rparr>
       blank_registers))) ! 3 = replicate 32 \<lparr> input_pid = 0x100, output_pid = 0x31 \<rparr>"
  using pid_map_read_back [OF register_file_drives, of
      "\<lparr> cha = 0x0F, pid_map = replicate 8 (replicate 32 \<lparr> input_pid = 0x100, output_pid = 0x31 \<rparr>) \<rparr>"
      "\<lparr> cha = 0x0F, pid_map = replicate 8 (replicate 32 \<lparr> input_pid = 0, output_pid = 0 \<rparr>) \<rparr>" 3 blank_registers]
  by (simp add: pid_map_wf_def limit_simps usable_def UV_HFPGA_INVALID_PID_MAP_def bit_iff_odd)


lemma ent_zero_fields: "offset ent_zero = 0" "nr_ts_pkts ent_zero = 0"
  by (simp_all add: ent_zero_def)

definition one_table :: xmux_output_psi_data where
  "one_table = \<lparr> pkt_nr = 1, psi_ents = ent_zero # \<lparr> offset = 0, nr_ts_pkts = 1 \<rparr> # replicate 6 ent_zero,
     ts_area = replicate OUTPUT_PSI_TS_DATA_SIZE 0x47 \<rparr>"


theorem output_rate_programmed_witness:
  "\<exists>hi lo. hfpga_write_sys_output_bitrate granting register_file 38000 blank_registers =
      (0, write_hfpga_register register_file HFPGA_REG_ADDR_SYS_RATE_LSB lo
        (write_hfpga_register register_file HFPGA_REG_ADDR_SYS_RATE_MSB hi blank_registers))
    \<and> unat hi * 2 ^ 16 + unat lo = 377798049"
  using output_rate_programmed [OF granting(1-3), of register_file 38000 blank_registers] by simp

theorem stream_all_or_nothing_witness:
  "fst (the (hfpga_drv_ioctl granting full_fifo (READ_STR_DATA 0 188 True) (drv full_api))) = 0"
  using stream_all_or_nothing [of granting full_fifo 0 188 True "drv full_api" 0 "Stream 188 (replicate 188 0xFF)" "drv full_api"]
  by (simp add: read_hfpga_str_data_def full_fifo_read pulse_def UV_HFPGA_TS_FIFO_RD_MAX_DELAY_def)

theorem sdt_read_ahead_lost_witness:
  "\<exists>s'. hfpga_readn granting full_fifo 188 sdt_param True (replicate 1880 0) full_api = Some (1, replicate 188 0xFF, s')
    \<and> (\<exists>s''. hfpga_readn granting full_fifo 188 sdt_param False (replicate 1880 0) s' = Some (1, replicate 188 0, s''))"
proof -
  have filter_write: "write_hfpga_pid_map full_fifo p d = d" for p d
  proof -
    have "write_slot full_fifo a e d = d" for a e d by (simp add: write_slot_def)
    then have "foldl (\<lambda>s (a, e). write_slot full_fifo a e s) d xs = d" for xs by (induction xs) auto
    moreover have "unat (cha p) < 2 ^ 8" using unsigned_less [of "cha p"] by simp
    ultimately show ?thesis unfolding write_hfpga_pid_map_def slot_base(3) by (subst write_map_loop_eq [where n = 8]) auto
  qed
  let ?s = "full_api\<lparr> filter_map := readn_filter sdt_param (filter_map full_api), left_pkt := 9, left_pkt_tot := 10 \<rparr>"
  have "hfpga_readn granting full_fifo 188 sdt_param True (replicate 1880 0) full_api = Some (1, replicate 188 0xFF, ?s)"
    by (simp add: hfpga_readn_def read_ahead_def hfpga_readn_raw_def read_reg_ioctl_def valid_reg_def hfpga_regs filter_write
        read_hfpga_str_data_def full_fifo_read pulse_def UV_HFPGA_TS_FIFO_RD_MAX_DELAY_def sdt_param_def full_api_def
        READAHEAD_TS_PKT_NUM_def TS_PACKET_BYTES_def mem_read_def CHANNEL_MAX_NUM_def Let_def)
  moreover from sdt_read_ahead_lost [OF _ this, of "replicate 1880 0"]
  have "hfpga_readn granting full_fifo 188 sdt_param False (replicate 1880 0) ?s = Some (1, replicate 188 0, ?s\<lparr> left_pkt := 8 \<rparr>)"
    by (simp add: sdt_param_def READAHEAD_TS_PKT_NUM_def TS_PACKET_BYTES_def)
  ultimately show ?thesis by blast
qed

end
