(* ===== verification/EepromI2c.thy ===== *)
theory EepromI2c
  imports Config
begin

unbundle bit_operations_syntax

text \<open>
  The driver of the EEPROM, \<^verbatim>\<open>imp/drivers/i2c_s3c.c\<close>: how reads and writes become transactions of the
  I2C controller, and what they do to a serial EEPROM as its data sheet describes it. The registers of
  the controller and the bits of its control register are parameters.
\<close>

section \<open>The controller\<close>

text \<open>The bits of \<^verbatim>\<open>IICCON\<close> and \<^verbatim>\<open>IICBUF\<close>, which a header of the kernel defines.\<close>

record iic_bits =
  con_reset :: u32
  con_start :: u32
  con_restart :: u32
  con_stop :: u32
  con_ack :: u32
  con_bf :: u32
  con_busy :: u32
  buf_write :: u8
  buf_read :: u8

record 'b iic =
  rd_con :: "'b \<Rightarrow> u32 \<times> 'b"
  wr_con :: "u32 \<Rightarrow> 'b \<Rightarrow> 'b"
  wr_ps :: "u32 \<Rightarrow> 'b \<Rightarrow> 'b"
  rd_buf :: "'b \<Rightarrow> u8 \<times> 'b"
  wr_buf :: "u8 \<Rightarrow> 'b \<Rightarrow> 'b"

record i2c_client =
  page_size :: nat
  speed :: nat
  addr :: u8

definition i2c_slave0 :: i2c_client where
  "i2c_slave0 = \<lparr> page_size = 64, speed = 40000, addr = 0xA4 \<rparr>"

definition I2C_READ_PAGE :: u32 where "I2C_READ_PAGE = 1"
definition I2C_WRITE_PAGE :: u32 where "I2C_WRITE_PAGE = 2"
definition I2CDEV_DELAY :: nat where "I2CDEV_DELAY = 0xFFFF"
definition defCLK :: nat where "defCLK = 133 * 1000000"

definition i2c_clock :: "i2c_client \<Rightarrow> u32" where
  "i2c_clock client = word_of_nat ((defCLK div speed client - 3) div 16 - 1)"

text \<open>The two waits: one gives up, the other does not.\<close>

fun wait_bf_loop :: "iic_bits \<Rightarrow> 'b iic \<Rightarrow> nat \<Rightarrow> 'b \<Rightarrow> 'b" where
  "wait_bf_loop bits io 0 s = snd (rd_con io s)"
| "wait_bf_loop bits io (Suc delay) s =
     (let (x, s) = rd_con io s in if x AND con_bf bits \<noteq> 0 then s else wait_bf_loop bits io delay s)"

definition Wait_BF :: "iic_bits \<Rightarrow> 'b iic \<Rightarrow> 'b \<Rightarrow> 'b" where
  "Wait_BF bits io s = wait_bf_loop bits io I2CDEV_DELAY s"

partial_function (option) Wait_NONBUSY :: "iic_bits \<Rightarrow> 'b iic \<Rightarrow> 'b \<Rightarrow> 'b option" where
  "Wait_NONBUSY bits io s =
     (let (x, s) = rd_con io s in if x AND con_busy bits = 0 then Some s else Wait_NONBUSY bits io s)"

definition con_and :: "'b iic \<Rightarrow> u32 \<Rightarrow> 'b \<Rightarrow> 'b" where
  "con_and io m s = (let (x, s) = rd_con io s in wr_con io (x AND m) s)"

section \<open>A transfer\<close>

definition page_begin :: "iic_bits \<Rightarrow> 'b iic \<Rightarrow> i2c_client \<Rightarrow> 'b \<Rightarrow> 'b option" where
  "page_begin bits io client s =
     do {
       s \<leftarrow> Wait_NONBUSY bits io (wr_ps io (i2c_clock client) (wr_con io (con_reset bits) s));
       Some (wr_con io (con_start bits OR con_bf bits) s)
     }"

definition put :: "iic_bits \<Rightarrow> 'b iic \<Rightarrow> u8 \<Rightarrow> 'b \<Rightarrow> 'b" where
  "put bits io b s = wr_buf io b (Wait_BF bits io s)"

text \<open>The address of the chip and the two bytes of the offset.\<close>

definition put_address :: "iic_bits \<Rightarrow> 'b iic \<Rightarrow> i2c_client \<Rightarrow> nat \<Rightarrow> 'b \<Rightarrow> 'b" where
  "put_address bits io client off s =
     put bits io (word_of_nat off) (put bits io (word_of_nat (off div 256)) (put bits io (addr client OR buf_write bits) s))"

fun get_bytes :: "iic_bits \<Rightarrow> 'b iic \<Rightarrow> nat \<Rightarrow> 'b \<Rightarrow> u8 list \<times> 'b" where
  "get_bytes bits io 0 s = ([], s)"
| "get_bytes bits io (Suc n) s =
     (let (b, s) = rd_buf io (Wait_BF bits io s); (bs, s) = get_bytes bits io n s in (b # bs, s))"

definition read_page :: "iic_bits \<Rightarrow> 'b iic \<Rightarrow> i2c_client \<Rightarrow> nat \<Rightarrow> nat \<Rightarrow> 'b \<Rightarrow> u8 list \<times> 'b" where
  "read_page bits io client off n s =
     (let s = put_address bits io client off s;
          s = wr_con io (con_restart bits OR con_ack bits OR con_bf bits) (Wait_BF bits io s);
          s = wr_con io (con_start bits OR con_ack bits OR con_bf bits) (Wait_BF bits io s);
          s = put bits io (addr client OR buf_read bits) s;
          s = con_and io 0xFC (Wait_BF bits io s);
          (bs, s) = get_bytes bits io n s;
          s = con_and io 0xF4 s
      in (bs, wr_con io (con_stop bits) (Wait_BF bits io s)))"

definition write_page :: "iic_bits \<Rightarrow> 'b iic \<Rightarrow> i2c_client \<Rightarrow> nat \<Rightarrow> u8 list \<Rightarrow> 'b \<Rightarrow> 'b" where
  "write_page bits io client off bs s =
     wr_con io (con_stop bits) (foldl (\<lambda>s b. put bits io b s) (put_address bits io client off s) bs)"

text \<open>
  The loop over the pages; \<open>mem\<close> is the memory from the buffer of the client on, \<open>None\<close> stands for an access behind
  it. The state of the loop: the size of the page, the place in the buffer, the offset.
\<close>

definition transfer_page ::
  "iic_bits \<Rightarrow> 'b iic \<Rightarrow> i2c_client \<Rightarrow> u32 \<Rightarrow> nat \<Rightarrow> nat \<times> nat \<times> nat \<times> u8 list \<times> 'b \<Rightarrow> nat
    \<Rightarrow> (nat \<times> nat \<times> nat \<times> u8 list \<times> 'b) option" where
  "transfer_page bits io client fl count = (\<lambda>(cur, tmp, off, mem, s) i.
     (let pages = count div (page_size client div 2);
          last_size = count mod (page_size client div 2);
          cur = (if i = pages \<and> last_size \<noteq> 0 then last_size else cur)
      in do {
        s \<leftarrow> page_begin bits io client s;
        (tmp, mem, s) \<leftarrow>
          (if fl = I2C_READ_PAGE then
             (let (bs, s) = read_page bits io client off cur s
              in if tmp + cur \<le> length mem then Some (tmp + cur, take tmp mem @ bs @ drop (tmp + cur) mem, s) else None)
           else if fl = I2C_WRITE_PAGE then
             (if tmp + cur \<le> length mem
              then Some (tmp + cur, mem, write_page bits io client off (take cur (drop tmp mem)) s) else None)
           else Some (tmp, mem, s));
        Some (cur, tmp, off + cur, mem, s)
      }))"

definition transfer_slave0 ::
  "iic_bits \<Rightarrow> 'b iic \<Rightarrow> i2c_client \<Rightarrow> u32 \<Rightarrow> nat \<Rightarrow> nat \<Rightarrow> u8 list \<Rightarrow> 'b \<Rightarrow> (nat \<times> u8 list \<times> 'b) option" where
  "transfer_slave0 bits io client fl count off mem s =
     do {
       (cur, tmp, off, mem, s) \<leftarrow> foldM (transfer_page bits io client fl count)
         (page_size client div 2, 0, off, mem, s) [0..<count div (page_size client div 2) + 1];
       Some (off, mem, s)
     }"

section \<open>The calls of the file\<close>

text \<open>
  The bus, the semaphore and the position of the file. A call gives \<open>None\<close> when it waits for the semaphore
  forever. \<open>alloc\<close>: what kmalloc returns, the bytes of the buffer and those behind it.
\<close>

record 'b i2cdev =
  bus :: 'b
  I2C_sem :: nat
  f_pos :: nat

definition ENOMEM :: int where "ENOMEM = 12"

definition i2cdev_lseek :: "nat \<Rightarrow> 'b i2cdev \<Rightarrow> nat \<times> 'b i2cdev" where
  "i2cdev_lseek off d = (off, d\<lparr> f_pos := off \<rparr>)"

definition i2cdev_read ::
  "iic_bits \<Rightarrow> 'b iic \<Rightarrow> (u8 list \<times> u8 list) option \<Rightarrow> nat \<Rightarrow> 'b i2cdev \<Rightarrow> (int \<times> u8 list \<times> 'b i2cdev) option" where
  "i2cdev_read bits io alloc count d =
     (if count = 0 then Some (0, [], d)
      else if I2C_sem d = 0 then None
      else let d = d\<lparr> I2C_sem := I2C_sem d - 1 \<rparr>
           in case alloc of
                None \<Rightarrow> Some (- ENOMEM, [], d)
              | Some (buf, behind) \<Rightarrow> do {
                  (off, mem, s) \<leftarrow> transfer_slave0 bits io i2c_slave0 I2C_READ_PAGE count (f_pos d) (buf @ behind) (bus d);
                  Some (int count, take count mem, d\<lparr> bus := s, f_pos := off, I2C_sem := I2C_sem d + 1 \<rparr>)
                })"

definition i2cdev_write ::
  "iic_bits \<Rightarrow> 'b iic \<Rightarrow> (u8 list \<times> u8 list) option \<Rightarrow> u8 list \<Rightarrow> 'b i2cdev \<Rightarrow> (int \<times> 'b i2cdev) option" where
  "i2cdev_write bits io alloc data d =
     (let count = length data
      in if count = 0 then Some (0, d)
         else if I2C_sem d = 0 then None
         else let d = d\<lparr> I2C_sem := I2C_sem d - 1 \<rparr>
              in case alloc of
                   None \<Rightarrow> Some (- ENOMEM, d)
                 | Some (buf, behind) \<Rightarrow> do {
                     (off, mem, s) \<leftarrow> transfer_slave0 bits io i2c_slave0 I2C_WRITE_PAGE count (f_pos d) (data @ behind) (bus d);
                     Some (int count, d\<lparr> bus := s, f_pos := off, I2C_sem := I2C_sem d + 1 \<rparr>)
                   })"

section \<open>A serial EEPROM\<close>

text \<open>
  What the data sheet of such a chip says. It answers to the address that selects it for writing or
  reading; two bytes set its address; bytes written are taken at the stop condition, into one page: the
  address does not leave the page but starts again at its beginning. Reading goes through the
  whole memory of 64 KB, which two bytes can address.
\<close>

datatype phase = Idle | Selected | Addr_high | Addr_low | Writing | Reading

record chip =
  c_mem :: eeprom
  c_phase :: phase
  c_addr :: nat
  c_pending :: "u8 list"

definition CHIP_SIZE :: nat where "CHIP_SIZE = 65536"

definition page_store :: "nat \<Rightarrow> nat \<Rightarrow> u8 list \<Rightarrow> eeprom \<Rightarrow> eeprom" where
  "page_store page a bs m = foldl (\<lambda>m (i, b). m(a div page * page + (a + i) mod page := b)) m (enumerate 0 bs)"

definition chip_put :: "u8 \<Rightarrow> u8 \<Rightarrow> u8 \<Rightarrow> chip \<Rightarrow> chip" where
  "chip_put sel_write sel_read b c =
     (case c_phase c of
        Selected \<Rightarrow> c\<lparr> c_phase := (if b = sel_write then Addr_high else if b = sel_read then Reading else Idle) \<rparr>
      | Addr_high \<Rightarrow> c\<lparr> c_phase := Addr_low, c_addr := unat b * 256 \<rparr>
      | Addr_low \<Rightarrow> c\<lparr> c_phase := Writing, c_addr := c_addr c + unat b \<rparr>
      | Writing \<Rightarrow> c\<lparr> c_pending := c_pending c @ [b] \<rparr>
      | _ \<Rightarrow> c)"

definition chip_stop :: "nat \<Rightarrow> chip \<Rightarrow> chip" where
  "chip_stop page c = c\<lparr> c_mem := (if c_phase c = Writing then page_store page (c_addr c) (c_pending c) (c_mem c) else c_mem c),
     c_phase := Idle, c_pending := [] \<rparr>"

definition chip_select :: "chip \<Rightarrow> chip" where
  "chip_select c = c\<lparr> c_phase := Selected, c_pending := [] \<rparr>"

text \<open>The controller passes on what it is told; it is never busy at the beginning of a page.\<close>

definition drives_eeprom :: "iic_bits \<Rightarrow> 'b iic \<Rightarrow> i2c_client \<Rightarrow> nat \<Rightarrow> ('b \<Rightarrow> chip) \<Rightarrow> bool" where
  "drives_eeprom bits io client page view \<longleftrightarrow>
     addr client OR buf_write bits \<noteq> addr client OR buf_read bits
   \<and> (\<forall>s. view (wr_con io (con_reset bits) s) = (view s)\<lparr> c_phase := Idle, c_pending := [] \<rparr>)
   \<and> (\<forall>x s. view (wr_ps io x s) = view s)
   \<and> (\<forall>s. fst (rd_con io s) AND con_busy bits = 0)
   \<and> (\<forall>s. view (snd (rd_con io s)) = view s)
   \<and> (\<forall>s. view (wr_con io (con_start bits OR con_bf bits) s) = chip_select (view s))
   \<and> (\<forall>s. view (wr_con io (con_restart bits OR con_ack bits OR con_bf bits) s) = chip_select (view s))
   \<and> (\<forall>s. view (wr_con io (con_start bits OR con_ack bits OR con_bf bits) s) = chip_select (view s))
   \<and> (\<forall>s. view (con_and io 0xFC s) = view s)
   \<and> (\<forall>s. view (con_and io 0xF4 s) = view s)
   \<and> (\<forall>s. view (wr_con io (con_stop bits) s) = chip_stop page (view s))
   \<and> (\<forall>b s. view (wr_buf io b s) = chip_put (addr client OR buf_write bits) (addr client OR buf_read bits) b (view s))
   \<and> (\<forall>s. c_phase (view s) = Reading \<longrightarrow> fst (rd_buf io s) = c_mem (view s) (c_addr (view s))
        \<and> view (snd (rd_buf io s)) = (view s)\<lparr> c_addr := (c_addr (view s) + 1) mod CHIP_SIZE \<rparr>)"

lemma drives:
  assumes "drives_eeprom bits io client page view"
  shows "addr client OR buf_write bits \<noteq> addr client OR buf_read bits"
    "view (wr_con io (con_reset bits) s) = (view s)\<lparr> c_phase := Idle, c_pending := [] \<rparr>"
    "view (wr_ps io x s) = view s" "fst (rd_con io s) AND con_busy bits = 0" "view (snd (rd_con io s)) = view s"
    "view (wr_con io (con_start bits OR con_bf bits) s) = chip_select (view s)"
    "view (wr_con io (con_restart bits OR con_ack bits OR con_bf bits) s) = chip_select (view s)"
    "view (wr_con io (con_start bits OR con_ack bits OR con_bf bits) s) = chip_select (view s)"
    "view (con_and io 0xFC s) = view s" "view (con_and io 0xF4 s) = view s"
    "view (wr_con io (con_stop bits) s) = chip_stop page (view s)"
    "view (wr_buf io b s) = chip_put (addr client OR buf_write bits) (addr client OR buf_read bits) b (view s)"
    "c_phase (view s) = Reading \<Longrightarrow> fst (rd_buf io s) = c_mem (view s) (c_addr (view s))"
    "c_phase (view s) = Reading \<Longrightarrow> view (snd (rd_buf io s)) = (view s)\<lparr> c_addr := (c_addr (view s) + 1) mod CHIP_SIZE \<rparr>"
  using assms unfolding drives_eeprom_def by blast+

lemma view_wait:
  assumes "drives_eeprom bits io client page view"
  shows "view (Wait_BF bits io s) = view s"
proof -
  have "view (wait_bf_loop bits io n s) = view s" for n
    by (induction n arbitrary: s) (simp_all add: case_prod_unfold Let_def drives(5) [OF assms])
  then show ?thesis by (simp add: Wait_BF_def)
qed

lemma view_begin:
  assumes "drives_eeprom bits io client page view"
  shows "\<exists>s'. page_begin bits io client s = Some s' \<and> view s' = chip_select (view s)"
proof -
  have "\<exists>s'. Wait_NONBUSY bits io s = Some s' \<and> view s' = view s" for s
    by (subst Wait_NONBUSY.simps) (simp add: case_prod_unfold Let_def drives(4,5) [OF assms])
  from this [of "wr_ps io (i2c_clock client) (wr_con io (con_reset bits) s)"] show ?thesis
    by (auto simp: page_begin_def drives(2,3,6) [OF assms] chip_select_def)
qed

lemma unat_addr_bytes: "unat (word_of_nat (off div 256) :: u8) * 256 + unat (word_of_nat off :: u8) = off mod CHIP_SIZE"
proof -
  have "off mod 65536 = off div 256 mod 256 * 256 + off mod 256"
    using mod_mult2_eq [of off 256 256] by simp
  then show ?thesis by (simp add: unsigned_of_nat take_bit_eq_mod CHIP_SIZE_def)
qed

lemma view_address:
  assumes "drives_eeprom bits io client page view" "view s = chip_select c"
  shows "view (put_address bits io client off s) = c\<lparr> c_phase := Writing, c_addr := off mod CHIP_SIZE, c_pending := [] \<rparr>"
  using drives(1) [OF assms(1)]
  by (simp add: put_address_def put_def drives(12) [OF assms(1)] view_wait [OF assms(1)] assms(2) chip_select_def
      chip_put_def unat_addr_bytes)

lemma view_puts:
  assumes "drives_eeprom bits io client page view"
  shows "c_phase (view s) = Writing \<Longrightarrow>
    view (foldl (\<lambda>s b. put bits io b s) s bs) = (view s)\<lparr> c_pending := c_pending (view s) @ bs \<rparr>"
proof (induction bs arbitrary: s)
  case (Cons b bs)
  have "view (put bits io b s) = (view s)\<lparr> c_pending := c_pending (view s) @ [b] \<rparr>"
    using Cons.prems by (simp add: put_def drives(12) [OF assms] view_wait [OF assms] chip_put_def)
  with Cons show ?case by simp
qed simp

lemma view_write_page:
  assumes "drives_eeprom bits io client page view" "view s = chip_select c"
  shows "view (write_page bits io client off bs s) =
    c\<lparr> c_mem := page_store page (off mod CHIP_SIZE) bs (c_mem c), c_phase := Idle, c_addr := off mod CHIP_SIZE, c_pending := [] \<rparr>"
  using view_address [OF assms]
  by (simp add: write_page_def drives(11) [OF assms(1)] view_puts [OF assms(1)] chip_stop_def)

lemma view_gets:
  assumes "drives_eeprom bits io client page view"
  shows "c_phase (view s) = Reading \<Longrightarrow> c_addr (view s) < CHIP_SIZE \<Longrightarrow>
    fst (get_bytes bits io n s) = map (\<lambda>i. c_mem (view s) ((c_addr (view s) + i) mod CHIP_SIZE)) [0..<n]
    \<and> view (snd (get_bytes bits io n s)) = (view s)\<lparr> c_addr := (c_addr (view s) + n) mod CHIP_SIZE \<rparr>"
proof (induction n arbitrary: s)
  case (Suc n)
  let ?w = "Wait_BF bits io s"
  have w: "view ?w = view s" by (rule view_wait [OF assms])
  have r: "fst (rd_buf io ?w) = c_mem (view s) (c_addr (view s))"
    "view (snd (rd_buf io ?w)) = (view s)\<lparr> c_addr := (c_addr (view s) + 1) mod CHIP_SIZE \<rparr>"
    using drives(13,14) [OF assms, of ?w] Suc.prems(1) w by simp_all
  have "(Suc a mod CHIP_SIZE + i) mod CHIP_SIZE = (a + Suc i) mod CHIP_SIZE" for a i :: nat
    by (simp add: mod_add_left_eq)
  with Suc.IH [of "snd (rd_buf io ?w)"] r Suc.prems show ?case
    by (simp add: case_prod_unfold Let_def upt_conv_Cons map_Suc_upt [symmetric] comp_def CHIP_SIZE_def del: upt_Suc)
qed simp

lemma view_read_page:
  assumes "drives_eeprom bits io client page view" "view s = chip_select c"
  shows "fst (read_page bits io client off n s) = map (\<lambda>i. c_mem c ((off + i) mod CHIP_SIZE)) [0..<n]"
    "view (snd (read_page bits io client off n s)) =
      c\<lparr> c_phase := Idle, c_addr := (off + n) mod CHIP_SIZE, c_pending := [] \<rparr>"
proof -
  let ?s = "con_and io 0xFC (Wait_BF bits io (put bits io (addr client OR buf_read bits)
    (wr_con io (con_start bits OR con_ack bits OR con_bf bits) (Wait_BF bits io
      (wr_con io (con_restart bits OR con_ack bits OR con_bf bits) (Wait_BF bits io (put_address bits io client off s)))))))"
  have v: "view ?s = c\<lparr> c_phase := Reading, c_addr := off mod CHIP_SIZE, c_pending := [] \<rparr>"
    using drives(1) [OF assms(1), symmetric]
    by (simp add: drives [OF assms(1)] view_wait [OF assms(1)] view_address [OF assms] put_def chip_select_def chip_put_def)
  have g: "fst (get_bytes bits io n ?s) = map (\<lambda>i. c_mem c ((off + i) mod CHIP_SIZE)) [0..<n]"
    "view (snd (get_bytes bits io n ?s)) = c\<lparr> c_phase := Reading, c_addr := (off + n) mod CHIP_SIZE, c_pending := [] \<rparr>"
    using view_gets [OF assms(1), of ?s n] by (simp_all add: v CHIP_SIZE_def mod_add_left_eq)
  show "fst (read_page bits io client off n s) = map (\<lambda>i. c_mem c ((off + i) mod CHIP_SIZE)) [0..<n]"
    using g(1) by (simp add: read_page_def case_prod_unfold Let_def)
  show "view (snd (read_page bits io client off n s)) =
      c\<lparr> c_phase := Idle, c_addr := (off + n) mod CHIP_SIZE, c_pending := [] \<rparr>"
    using g(2) by (simp add: read_page_def case_prod_unfold Let_def drives [OF assms(1)] view_wait [OF assms(1)] chip_stop_def)
qed

section \<open>What a transfer does to the memory\<close>

text \<open>Bytes stored from an address on that goes around at the end of the chip.\<close>

definition wrap_place :: "nat \<Rightarrow> nat \<Rightarrow> nat" where
  "wrap_place off a = nat ((int a - int off) mod int CHIP_SIZE)"

definition wrap_store :: "nat \<Rightarrow> u8 list \<Rightarrow> eeprom \<Rightarrow> eeprom" where
  "wrap_store off bs m = (\<lambda>a. if a < CHIP_SIZE \<and> wrap_place off a < length bs then bs ! wrap_place off a else m a)"

definition wrap_read :: "nat \<Rightarrow> nat \<Rightarrow> eeprom \<Rightarrow> u8 list" where
  "wrap_read off n m = map (\<lambda>i. m ((off + i) mod CHIP_SIZE)) [0..<n]"

lemma wrap_place_less: "wrap_place off a < CHIP_SIZE"
  by (simp add: wrap_place_def CHIP_SIZE_def nat_less_iff)

lemma wrap_place_add:
  assumes "n \<le> CHIP_SIZE"
  shows "wrap_place (off + n) a = (if wrap_place off a < n then wrap_place off a + CHIP_SIZE - n else wrap_place off a - n)"
proof -
  define d where "d = (int a - int off) mod 65536"
  have d: "0 \<le> d" "d < 65536" by (simp_all add: d_def)
  have "(int a - int (off + n)) mod 65536 = (d - int n) mod 65536"
    unfolding d_def by (simp add: mod_diff_left_eq algebra_simps)
  also have "\<dots> = (if d < int n then d - int n + 65536 else d - int n)"
  proof (cases "d < int n")
    case True
    have "(d - int n) mod 65536 = (d - int n + 65536) mod 65536" by simp
    also have "\<dots> = d - int n + 65536" by (rule mod_pos_pos_trivial) (use True d assms in \<open>simp_all add: CHIP_SIZE_def\<close>)
    finally show ?thesis using True by simp
  next
    case False
    then show ?thesis using d by (simp add: mod_pos_pos_trivial)
  qed
  finally have "wrap_place (off + n) a = nat (if d < int n then d - int n + 65536 else d - int n)"
    by (simp add: wrap_place_def CHIP_SIZE_def)
  moreover have "wrap_place off a = nat d" by (simp add: wrap_place_def CHIP_SIZE_def d_def)
  ultimately show ?thesis using d by (auto simp: CHIP_SIZE_def)
qed

lemma wrap_store_append:
  assumes "length xs + length ys \<le> CHIP_SIZE"
  shows "wrap_store (off + length xs) ys (wrap_store off xs m) = wrap_store off (xs @ ys) m"
  using assms wrap_place_less
  by (auto simp: wrap_store_def wrap_place_add nth_append fun_eq_iff)

lemma nat_shift: "r < 65536 \<Longrightarrow> nat (int a - int r + 65536) = a + 65536 - r" "r \<le> a \<Longrightarrow> nat (int a - int r) = a - r"
  by arith+

lemma wrap_store_inside:
  assumes "off mod CHIP_SIZE + length bs \<le> CHIP_SIZE"
  shows "wrap_store off bs m = eeprom_store (off mod CHIP_SIZE) bs m"
proof
  fix a
  let ?o = "off mod CHIP_SIZE"
  have o: "?o < CHIP_SIZE" by (simp add: CHIP_SIZE_def)
  have "(int a - int off) mod 65536 = (int a - int ?o) mod 65536"
    by (simp add: CHIP_SIZE_def zmod_int mod_diff_right_eq)
  moreover have "(int a - int ?o) mod 65536 = (if ?o \<le> a then int a - int ?o else int a - int ?o + 65536)" if "a < CHIP_SIZE"
  proof (cases "?o \<le> a")
    case True
    then show ?thesis using that by (simp add: mod_pos_pos_trivial CHIP_SIZE_def)
  next
    case False
    have "(int a - int ?o) mod 65536 = (int a - int ?o + 65536) mod 65536" by simp
    also have "\<dots> = int a - int ?o + 65536" by (rule mod_pos_pos_trivial) (use False o in \<open>simp_all add: CHIP_SIZE_def\<close>)
    finally show ?thesis using False by simp
  qed
  ultimately have "wrap_place off a = (if ?o \<le> a then a - ?o else a + 65536 - ?o)" if "a < CHIP_SIZE"
    using that o nat_shift [of ?o a] by (simp add: wrap_place_def CHIP_SIZE_def)
  with assms show "wrap_store off bs m a = eeprom_store ?o bs m a"
    by (auto simp: wrap_store_def eeprom_store_def CHIP_SIZE_def)
qed

lemma page_store_inside:
  assumes "a mod page + length bs \<le> page"
  shows "page_store page a bs m = eeprom_store a bs m"
proof -
  have "foldl (\<lambda>m (i, b). m(a div page * page + (a + i) mod page := b)) m (enumerate k bs) = eeprom_store (a + k) bs m"
    if "a mod page + k + length bs \<le> page" for k
    using that
  proof (induction bs arbitrary: k m)
    case (Cons b bs)
    have "(a + k) mod page = a mod page + k" using Cons.prems
      by (metis add.commute add_lessD1 less_add_same_cancel1 mod_add_left_eq mod_less le_less_trans length_Cons
          less_eq_Suc_le not_less_eq_eq add_Suc_right le_add1 order_le_less_trans)
    then have "a div page * page + (a + k) mod page = a + k" by (simp add: add.assoc [symmetric])
    moreover have "eeprom_store (a + k) (b # bs) m = eeprom_store (a + Suc k) bs (m(a + k := b))"
      by (auto simp: eeprom_store_def nth_Cons' fun_eq_iff)
    ultimately show ?case using Cons by (simp add: fun_upd_def)
  qed (auto simp: eeprom_store_def fun_eq_iff)
  from this [of 0] assms show ?thesis by (simp add: page_store_def)
qed

text \<open>Half a page, 32 bytes, from an aligned offset never leaves a page.\<close>

lemma page_store_wrap:
  assumes "32 dvd off" "32 dvd page" "page dvd CHIP_SIZE" "length bs \<le> 32"
  shows "page_store page (off mod CHIP_SIZE) bs m = wrap_store off bs m"
proof -
  let ?a = "off mod CHIP_SIZE"
  have a: "32 dvd ?a" using assms(1) by (simp add: dvd_mod CHIP_SIZE_def)
  have "0 < page" using assms(3) by (auto simp: CHIP_SIZE_def intro: Nat.gr0I)
  moreover have "32 dvd ?a mod page" using a assms(2) by (simp add: dvd_mod)
  ultimately have "?a mod page + 32 \<le> page" using assms(2)
    by (metis add.commute dvd_def le_add_diff_inverse2 mod_less_divisor mult.commute mult_less_cancel1 mult_Suc_right
        less_eq_Suc_le mult_le_mono2)
  moreover have "?a + 32 \<le> CHIP_SIZE" using a by (auto simp: CHIP_SIZE_def dvd_def)
  ultimately show ?thesis using assms(4) by (simp add: page_store_inside wrap_store_inside)
qed

text \<open>How many bytes a transfer moves: a whole number of half pages gets one more.\<close>

definition moved :: "nat \<Rightarrow> nat" where
  "moved n = (if n mod 32 = 0 then n + 32 else n)"

definition on_chip :: "iic_bits \<Rightarrow> 'b iic \<Rightarrow> nat \<Rightarrow> ('b \<Rightarrow> chip) \<Rightarrow> bool" where
  "on_chip bits io page view \<longleftrightarrow> drives_eeprom bits io i2c_slave0 page view \<and> 32 dvd page \<and> page dvd CHIP_SIZE"

lemma half_page: "page_size i2c_slave0 div 2 = 32"
  by (simp add: i2c_slave0_def)

lemma write_step:
  assumes "on_chip bits io page view" "32 dvd off" "cur \<le> 32"
    and "c = (if i = count div 32 \<and> count mod 32 \<noteq> 0 then count mod 32 else cur)" "tmp + c \<le> length mem"
  shows "\<exists>s'. transfer_page bits io i2c_slave0 I2C_WRITE_PAGE count (cur, tmp, off, mem, s) i = Some (c, tmp + c, off + c, mem, s')
    \<and> c_mem (view s') = wrap_store off (take c (drop tmp mem)) (c_mem (view s))"
proof -
  have d: "drives_eeprom bits io i2c_slave0 page view" "32 dvd page" "page dvd CHIP_SIZE" using assms(1) by (simp_all add: on_chip_def)
  obtain s1 where s1: "page_begin bits io i2c_slave0 s = Some s1" "view s1 = chip_select (view s)" using view_begin [OF d(1)] by blast
  have "c \<le> 32" using assms(3,4) by (simp add: less_imp_le)
  then have "c_mem (view (write_page bits io i2c_slave0 off (take c (drop tmp mem)) s1)) =
      wrap_store off (take c (drop tmp mem)) (c_mem (view s))"
    by (simp add: view_write_page [OF d(1) s1(2)] page_store_wrap [OF assms(2) d(2,3)])
  with s1(1) assms(4,5) show ?thesis by (simp add: transfer_page_def half_page I2C_READ_PAGE_def I2C_WRITE_PAGE_def Let_def)
qed

lemma write_pages:
  assumes "on_chip bits io page view" "32 dvd off"
  shows "i \<le> count div 32 \<Longrightarrow> 32 * i \<le> length mem \<Longrightarrow> 32 * i \<le> CHIP_SIZE \<Longrightarrow>
    \<exists>s'. foldM (transfer_page bits io i2c_slave0 I2C_WRITE_PAGE count) (32, 0, off, mem, s) [0..<i] = Some (32, 32 * i, off + 32 * i, mem, s')
      \<and> c_mem (view s') = wrap_store off (take (32 * i) mem) (c_mem (view s))"
proof (induction i)
  case 0
  show ?case by (simp add: wrap_store_def)
next
  case (Suc i)
  then obtain s1 where s1: "foldM (transfer_page bits io i2c_slave0 I2C_WRITE_PAGE count) (32, 0, off, mem, s) [0..<i] = Some (32, 32 * i, off + 32 * i, mem, s1)"
    "c_mem (view s1) = wrap_store off (take (32 * i) mem) (c_mem (view s))" by auto
  obtain s2 where s2: "transfer_page bits io i2c_slave0 I2C_WRITE_PAGE count (32, 32 * i, off + 32 * i, mem, s1) i
      = Some (32, 32 * i + 32, off + 32 * i + 32, mem, s2)"
    "c_mem (view s2) = wrap_store (off + 32 * i) (take 32 (drop (32 * i) mem)) (c_mem (view s1))"
    using write_step [OF assms(1), of "off + 32 * i" 32 32 i count "32 * i" mem s1] assms(2) Suc.prems by auto
  have "wrap_store (off + 32 * i) (take 32 (drop (32 * i) mem)) (wrap_store off (take (32 * i) mem) m) = wrap_store off (take (32 * Suc i) mem) m" for m
    using wrap_store_append [of "take (32 * i) mem" "take 32 (drop (32 * i) mem)" off m] Suc.prems
    by (simp add: take_add [symmetric] add.commute)
  with s1 s2 show ?case by (simp add: foldM_append add.commute add.left_commute)
qed

text \<open>A write of a buffer at an aligned offset stores \<open>moved n\<close> bytes of the memory from the buffer on.\<close>

lemma write_transfer:
  assumes "on_chip bits io page view" "32 dvd off" "moved n \<le> length mem" "moved n \<le> CHIP_SIZE"
  shows "\<exists>off' s'. transfer_slave0 bits io i2c_slave0 I2C_WRITE_PAGE n off mem s = Some (off', mem, s')
    \<and> c_mem (view s') = wrap_store off (take (moved n) mem) (c_mem (view s))"
proof -
  let ?i = "n div 32"
  define c where c: "c = (if ?i = n div 32 \<and> n mod 32 \<noteq> 0 then n mod 32 else 32)"
  have n: "moved n = 32 * ?i + c" unfolding moved_def c by presburger
  then obtain s1 where s1: "foldM (transfer_page bits io i2c_slave0 I2C_WRITE_PAGE n) (32, 0, off, mem, s) [0..<?i] = Some (32, 32 * ?i, off + 32 * ?i, mem, s1)"
    "c_mem (view s1) = wrap_store off (take (32 * ?i) mem) (c_mem (view s))"
    using write_pages [OF assms(1,2), of ?i n mem s] assms(3,4) by auto
  have "32 dvd off + 32 * ?i" using assms(2) by simp
  from write_step [OF assms(1) this order_refl c, of "32 * ?i" mem s1] n assms(3) obtain s2 where s2:
    "transfer_page bits io i2c_slave0 I2C_WRITE_PAGE n (32, 32 * ?i, off + 32 * ?i, mem, s1) ?i
      = Some (c, 32 * ?i + c, off + 32 * ?i + c, mem, s2)"
    "c_mem (view s2) = wrap_store (off + 32 * ?i) (take c (drop (32 * ?i) mem)) (c_mem (view s1))" by auto
  have "wrap_store (off + 32 * ?i) (take c (drop (32 * ?i) mem)) (wrap_store off (take (32 * ?i) mem) m) = wrap_store off (take (moved n) mem) m" for m
    using wrap_store_append [of "take (32 * ?i) mem" "take c (drop (32 * ?i) mem)" off m] n assms(3,4)
    by (simp add: take_add [symmetric])
  with s1 s2 show ?thesis by (simp add: transfer_slave0_def half_page foldM_append)
qed

lemma wrap_read_append:
  "wrap_read off (k + n) m = wrap_read off k m @ wrap_read (off + k) n m"
  by (rule nth_equalityI) (auto simp: wrap_read_def nth_append add.assoc)

lemma read_step:
  assumes "on_chip bits io page view"
    and "c = (if i = count div 32 \<and> count mod 32 \<noteq> 0 then count mod 32 else cur)" "tmp + c \<le> length mem"
  shows "\<exists>s'. transfer_page bits io i2c_slave0 I2C_READ_PAGE count (cur, tmp, off, mem, s) i =
      Some (c, tmp + c, off + c, take tmp mem @ wrap_read off c (c_mem (view s)) @ drop (tmp + c) mem, s')
    \<and> c_mem (view s') = c_mem (view s)"
proof -
  have d: "drives_eeprom bits io i2c_slave0 page view" using assms(1) by (simp add: on_chip_def)
  obtain s1 where s1: "page_begin bits io i2c_slave0 s = Some s1" "view s1 = chip_select (view s)" using view_begin [OF d] by blast
  with assms(3) view_read_page [OF d s1(2), of off c] show ?thesis
    unfolding transfer_page_def half_page Let_def prod.case assms(2) [symmetric]
    by (simp add: wrap_read_def case_prod_unfold)
qed

lemma read_pages:
  assumes "on_chip bits io page view"
  shows "i \<le> count div 32 \<Longrightarrow> 32 * i \<le> length mem \<Longrightarrow>
    \<exists>s'. foldM (transfer_page bits io i2c_slave0 I2C_READ_PAGE count) (32, 0, off, mem, s) [0..<i] =
        Some (32, 32 * i, off + 32 * i, wrap_read off (32 * i) (c_mem (view s)) @ drop (32 * i) mem, s')
      \<and> c_mem (view s') = c_mem (view s)"
proof (induction i)
  case 0
  show ?case by (simp add: wrap_read_def)
next
  case (Suc i)
  let ?m = "c_mem (view s)"
  let ?mem = "wrap_read off (32 * i) ?m @ drop (32 * i) mem"
  have len: "length (wrap_read off k m) = k" for k m by (simp add: wrap_read_def)
  from Suc obtain s1 where s1: "foldM (transfer_page bits io i2c_slave0 I2C_READ_PAGE count) (32, 0, off, mem, s) [0..<i] =
      Some (32, 32 * i, off + 32 * i, ?mem, s1)" "c_mem (view s1) = ?m" by auto
  have full: "32 = (if i = count div 32 \<and> count mod 32 \<noteq> 0 then count mod 32 else 32)" using Suc.prems(1) by simp
  have room: "32 * i + 32 \<le> length ?mem" using Suc.prems(2) by (simp add: len)
  obtain s2 where s2: "transfer_page bits io i2c_slave0 I2C_READ_PAGE count (32, 32 * i, off + 32 * i, ?mem, s1) i =
      Some (32, 32 * i + 32, off + 32 * i + 32, take (32 * i) ?mem @ wrap_read (off + 32 * i) 32 ?m @ drop (32 * i + 32) ?mem, s2)"
    "c_mem (view s2) = ?m"
    using read_step [OF assms full room, of "off + 32 * i" s1] s1(2) by auto
  have "take (32 * i) ?mem @ wrap_read (off + 32 * i) 32 ?m @ drop (32 * i + 32) ?mem = wrap_read off (32 * Suc i) ?m @ drop (32 * Suc i) mem"
    using wrap_read_append [of off "32 * i" 32 ?m] by (simp add: len add.commute)
  with s1 s2 show ?case by (simp add: foldM_append add.commute add.left_commute)
qed

lemma read_transfer:
  assumes "on_chip bits io page view" "moved n \<le> length mem"
  shows "\<exists>off' s'. transfer_slave0 bits io i2c_slave0 I2C_READ_PAGE n off mem s =
      Some (off', wrap_read off (moved n) (c_mem (view s)) @ drop (moved n) mem, s')
    \<and> c_mem (view s') = c_mem (view s)"
proof -
  let ?i = "n div 32" and ?m = "c_mem (view s)"
  let ?mem = "wrap_read off (32 * ?i) ?m @ drop (32 * ?i) mem"
  have len: "length (wrap_read off k m) = k" for k m by (simp add: wrap_read_def)
  define c where c: "c = (if ?i = n div 32 \<and> n mod 32 \<noteq> 0 then n mod 32 else 32)"
  have n: "moved n = 32 * ?i + c" unfolding moved_def c by presburger
  then obtain s1 where s1: "foldM (transfer_page bits io i2c_slave0 I2C_READ_PAGE n) (32, 0, off, mem, s) [0..<?i] =
      Some (32, 32 * ?i, off + 32 * ?i, ?mem, s1)" "c_mem (view s1) = ?m"
    using read_pages [OF assms(1), of ?i n mem off s] assms(2) by auto
  from read_step [OF assms(1) c, of "32 * ?i" ?mem "off + 32 * ?i" s1] n assms(2) s1(2) obtain s2 where s2:
    "transfer_page bits io i2c_slave0 I2C_READ_PAGE n (32, 32 * ?i, off + 32 * ?i, ?mem, s1) ?i =
      Some (c, 32 * ?i + c, off + 32 * ?i + c, take (32 * ?i) ?mem @ wrap_read (off + 32 * ?i) c ?m @ drop (32 * ?i + c) ?mem, s2)"
    "c_mem (view s2) = ?m" by (auto simp: len)
  have "take (32 * ?i) ?mem @ wrap_read (off + 32 * ?i) c ?m @ drop (32 * ?i + c) ?mem = wrap_read off (moved n) ?m @ drop (moved n) mem"
    unfolding n wrap_read_append [of off "32 * ?i" c ?m] by (simp add: len add.commute)
  with s1 s2 show ?thesis by (simp add: transfer_slave0_def half_page foldM_append)
qed

section \<open>Properties\<close>

lemma wrap_read_inside:
  assumes "off + n \<le> CHIP_SIZE"
  shows "wrap_read off n m = eeprom_read off n m"
  using assms by (auto simp: wrap_read_def eeprom_read_def intro!: map_cong)

text \<open>The memory behind the buffer has the bytes a transfer takes too many.\<close>

definition excess :: "nat \<Rightarrow> u8 list \<Rightarrow> u8 list" where
  "excess n behind = take (moved n - n) behind"

lemma take_excess: "moved (length data) \<le> length data + length behind \<Longrightarrow>
    take (moved (length data)) (data @ behind) = data @ excess (length data) behind"
  by (auto simp: excess_def moved_def)

lemma excess_length: "moved n \<le> n + length behind \<Longrightarrow> n + length (excess n behind) = moved n"
  by (auto simp: excess_def moved_def)

lemma driver_write:
  assumes "on_chip bits io page view" "32 dvd f_pos d" "f_pos d + moved (length data) \<le> CHIP_SIZE"
    and "data \<noteq> []" "0 < I2C_sem d" "moved (length data) \<le> length data + length behind"
  shows "\<exists>d'. i2cdev_write bits io (Some (buf, behind)) data d = Some (int (length data), d') \<and> I2C_sem d' = I2C_sem d
    \<and> c_mem (view (bus d')) = eeprom_store (f_pos d) (data @ excess (length data) behind) (c_mem (view (bus d)))"
proof -
  let ?n = "length data"
  have "moved ?n \<le> CHIP_SIZE" using assms(3) by simp
  with write_transfer [OF assms(1,2), of ?n "data @ behind" "bus d"] assms(6) obtain off' s' where s':
    "transfer_slave0 bits io i2c_slave0 I2C_WRITE_PAGE ?n (f_pos d) (data @ behind) (bus d) = Some (off', data @ behind, s')"
    "c_mem (view s') = wrap_store (f_pos d) (take (moved ?n) (data @ behind)) (c_mem (view (bus d)))" by auto
  have "0 < moved ?n" using assms(4) by (auto simp: moved_def)
  then have m: "f_pos d mod CHIP_SIZE = f_pos d" using assms(3) by simp
  have "wrap_store (f_pos d) (data @ excess ?n behind) mem = eeprom_store (f_pos d) (data @ excess ?n behind) mem" for mem
    using wrap_store_inside [of "f_pos d" "data @ excess ?n behind" mem] excess_length [OF assms(6)] assms(3) m by simp
  with s' take_excess [OF assms(6)] assms(4,5) show ?thesis by (simp add: i2cdev_write_def Let_def)
qed

text \<open>C40: Writing at an aligned offset below 64 KB stores the bytes, and then 32 bytes of foreign memory
  when their number is a multiple of 32; it returns their number and releases the semaphore.\<close>

theorem driver_write_stores:
  assumes "on_chip bits io page view" "32 dvd f_pos d" "f_pos d + moved (length data) \<le> CHIP_SIZE"
    and "data \<noteq> []" "0 < I2C_sem d" "moved (length data) \<le> length data + length behind"
  shows "\<exists>d'. i2cdev_write bits io (Some (buf, behind)) data d = Some (int (length data), d') \<and> I2C_sem d' = I2C_sem d
    \<and> c_mem (view (bus d')) = eeprom_store (f_pos d) (data @ (if length data mod 32 = 0 then take 32 behind else [])) (c_mem (view (bus d)))"
proof -
  have "excess (length data) behind = (if length data mod 32 = 0 then take 32 behind else [])" by (simp add: excess_def moved_def)
  with driver_write [OF assms] show ?thesis by simp
qed

lemma chip_mod: "x mod CHIP_SIZE < CHIP_SIZE" by (simp add: CHIP_SIZE_def)

lemma wrap_place_from: "i < CHIP_SIZE \<Longrightarrow> wrap_place off ((off + i) mod CHIP_SIZE) = i"
proof -
  assume i: "i < CHIP_SIZE"
  have "(int ((off + i) mod CHIP_SIZE) - int off) mod 65536 = (int (off + i) - int off) mod 65536"
    by (simp add: CHIP_SIZE_def zmod_int mod_diff_left_eq)
  also have "\<dots> = int i" using i by (simp add: CHIP_SIZE_def)
  finally show ?thesis by (simp add: wrap_place_def CHIP_SIZE_def)
qed

lemma wrap_read_store: "length bs + length cs \<le> CHIP_SIZE \<Longrightarrow> wrap_read off (length bs) (wrap_store off (bs @ cs) m) = bs"
  by (rule nth_equalityI) (auto simp: wrap_read_def wrap_store_def wrap_place_from nth_append chip_mod)

lemma take_wrap_read: "n \<le> k \<Longrightarrow> take n (wrap_read off k m @ rest) = wrap_read off n m"
  by (simp add: wrap_read_def take_map)

text \<open>C19: What was written at an aligned offset is what a read at the same offset gives, wherever on the chip the
  bytes went: the check after a write never fails.\<close>

theorem driver_reads_back:
  assumes "on_chip bits io page view" "32 dvd f_pos d" "moved (length data) \<le> CHIP_SIZE"
    and "data \<noteq> []" "0 < I2C_sem d" "moved (length data) \<le> length data + length behind"
    and "length buf' = length data" "moved (length data) \<le> length data + length behind'"
  shows "\<exists>d' d''. i2cdev_write bits io (Some (buf, behind)) data d = Some (int (length data), d')
    \<and> i2cdev_read bits io (Some (buf', behind')) (length data) (snd (i2cdev_lseek (f_pos d) d')) = Some (int (length data), data, d'')"
proof -
  let ?n = "length data"
  from write_transfer [OF assms(1,2), of ?n "data @ behind" "bus d"] assms(3,6) obtain off' s' where s':
    "transfer_slave0 bits io i2c_slave0 I2C_WRITE_PAGE ?n (f_pos d) (data @ behind) (bus d) = Some (off', data @ behind, s')"
    "c_mem (view s') = wrap_store (f_pos d) (data @ excess ?n behind) (c_mem (view (bus d)))"
    using take_excess [OF assms(6)] by auto
  from read_transfer [OF assms(1), of ?n "buf' @ behind'" "f_pos d" s'] assms(7,8) obtain off'' s'' where s'':
    "transfer_slave0 bits io i2c_slave0 I2C_READ_PAGE ?n (f_pos d) (buf' @ behind') s' =
      Some (off'', wrap_read (f_pos d) (moved ?n) (c_mem (view s')) @ drop (moved ?n) (buf' @ behind'), s'')" by auto
  have n: "?n + length (excess ?n behind) = moved ?n" "?n \<le> moved ?n" using excess_length [OF assms(6)] by simp_all
  have "take ?n (wrap_read (f_pos d) (moved ?n) (c_mem (view s')) @ rest) = data" for rest
    unfolding take_wrap_read [OF n(2)] s'(2) by (rule wrap_read_store) (use n(1) assms(3) in simp)
  with s'(1) s''(1) assms(4,5) show ?thesis
    by (simp add: i2cdev_write_def i2cdev_read_def i2cdev_lseek_def Let_def del: take_append drop_append)
qed

text \<open>The pages that a transfer touches end before the next area.\<close>

lemma moved_le: "moved n \<le> 32 * (n div 32 + 1)"
  unfolding moved_def by presburger

lemma touched_apart:
  assumes "(off, cap) \<in> set eeprom_areas" "(off', cap') \<in> set eeprom_areas" "off \<noteq> off'"
  shows "off + 32 * (cap div 32 + 1) \<le> off' \<or> off' + cap' \<le> off"
  using assms
  by (auto simp: eeprom_areas_def trans_off_def eeprom_offs part_sizes OUTPUT_PSI_AREA_SIZE_def PID_TRANS_INFO_SIZE_def)

lemma area_aligned: "(off, cap) \<in> set eeprom_areas \<Longrightarrow> 32 dvd off"
  by (auto simp: eeprom_areas_def trans_off_def eeprom_offs)

lemma read_store_prefix: "eeprom_read a (length xs) (eeprom_store a (xs @ ys) m) = xs"
  by (rule nth_equalityI) (auto simp: eeprom_read_def eeprom_store_def nth_append)

text \<open>C17: Writing an area of the parameters, or its first bytes, through the driver leaves every other area as it
  was, in spite of the bytes too many, as long as the area is in the first 64 KB.\<close>

theorem driver_keeps_other_areas:
  assumes "on_chip bits io page view" "(f_pos d, cap) \<in> set eeprom_areas" "length data \<le> cap" "data \<noteq> []"
    and "f_pos d + moved (length data) \<le> CHIP_SIZE" "0 < I2C_sem d" "moved (length data) \<le> length data + length behind"
    and "(off, n) \<in> set eeprom_areas" "off \<noteq> f_pos d"
  shows "\<exists>d'. i2cdev_write bits io (Some (buf, behind)) data d = Some (int (length data), d')
    \<and> eeprom_read (f_pos d) (length data) (c_mem (view (bus d'))) = data
    \<and> eeprom_read off n (c_mem (view (bus d'))) = eeprom_read off n (c_mem (view (bus d)))"
proof -
  from driver_write [OF assms(1) area_aligned [OF assms(2)] assms(5,4,6,7)] obtain d' where d':
    "i2cdev_write bits io (Some (buf, behind)) data d = Some (int (length data), d')"
    "c_mem (view (bus d')) = eeprom_store (f_pos d) (data @ excess (length data) behind) (c_mem (view (bus d)))" by blast
  have "moved (length data) \<le> 32 * (cap div 32 + 1)"
    by (rule order_trans [OF moved_le]) (use div_le_mono [OF assms(3), of 32] in simp)
  then have "off + n \<le> f_pos d \<or> f_pos d + length (data @ excess (length data) behind) \<le> off"
    using touched_apart [OF assms(2,8)] assms(9) excess_length [OF assms(7)] by auto
  with d' show ?thesis by (auto simp: read_store_prefix eeprom.rd_wr_disjoint)
qed

text \<open>C18: The offset goes to the chip in two bytes, so the record of a channel that starts behind 64 KB, of channel 5
  and on, is stored at the offset less 65536, which is inside the area of another parameter: the PID map
  for channel 5, the tables of the output for channel 6, the record of channel 0 for channel 7.\<close>

theorem record_behind_64k:
  assumes "on_chip bits io page view" "5 \<le> c" "c < CHANNEL_MAX_NUM" "f_pos d = trans_off c"
    and "data \<noteq> []" "length data \<le> PID_TRANS_INFO_SIZE" "0 < I2C_sem d" "moved (length data) \<le> length data + length behind"
  shows "(\<exists>(off, n) \<in> set eeprom_areas. off \<noteq> trans_off c \<and> off \<le> trans_off c - CHIP_SIZE \<and> trans_off c - CHIP_SIZE < off + n)
    \<and> (\<exists>d' rest. i2cdev_write bits io (Some (buf, behind)) data d = Some (int (length data), d')
      \<and> c_mem (view (bus d')) = eeprom_store (trans_off c - CHIP_SIZE) (data @ rest) (c_mem (view (bus d))))"
proof
  have c: "c = 5 \<or> c = 6 \<or> c = 7" using assms(2,3) by (auto simp: CHANNEL_MAX_NUM_def)
  then show "\<exists>(off, n) \<in> set eeprom_areas. off \<noteq> trans_off c \<and> off \<le> trans_off c - CHIP_SIZE \<and> trans_off c - CHIP_SIZE < off + n"
    by (auto simp: eeprom_areas_def trans_off_def eeprom_offs part_sizes OUTPUT_PSI_AREA_SIZE_def PID_TRANS_INFO_SIZE_def
        CHANNEL_MAX_NUM_def CHIP_SIZE_def) (drule bspec [where x = 0], simp_all)
  have "moved (length data) \<le> 9580" using assms(6) by (auto simp: moved_def PID_TRANS_INFO_SIZE_def)
  then have small: "moved (length data) \<le> CHIP_SIZE" "trans_off c mod CHIP_SIZE = trans_off c - CHIP_SIZE"
    "trans_off c - CHIP_SIZE + moved (length data) \<le> CHIP_SIZE"
    using c by (auto simp: CHIP_SIZE_def trans_off_def eeprom_offs)
  have "32 dvd f_pos d" unfolding assms(4) by (simp add: trans_off_def eeprom_offs)
  from write_transfer [OF assms(1) this, of "length data" "data @ behind" "bus d"] small(1) assms(8) obtain off' s' where s':
    "transfer_slave0 bits io i2c_slave0 I2C_WRITE_PAGE (length data) (f_pos d) (data @ behind) (bus d) = Some (off', data @ behind, s')"
    "c_mem (view s') = wrap_store (trans_off c) (data @ excess (length data) behind) (c_mem (view (bus d)))"
    using take_excess [OF assms(8)] assms(4) by auto
  have "wrap_store (trans_off c) (data @ excess (length data) behind) m = eeprom_store (trans_off c - CHIP_SIZE) (data @ excess (length data) behind) m" for m
    using wrap_store_inside [of "trans_off c" "data @ excess (length data) behind" m] small(2,3) excess_length [OF assms(8)] by simp
  with s' assms(5,7) show "\<exists>d' rest. i2cdev_write bits io (Some (buf, behind)) data d = Some (int (length data), d')
      \<and> c_mem (view (bus d')) = eeprom_store (trans_off c - CHIP_SIZE) (data @ rest) (c_mem (view (bus d)))"
    by (auto simp: i2cdev_write_def Let_def)
qed

text \<open>Without memory the semaphore is not released, and every later call waits for it.\<close>

lemma no_memory_blocks:
  assumes "I2C_sem d = 1" "0 < n" "i2cdev_read bits io None n d = Some (rc, bs, d')"
  shows "rc = - ENOMEM \<and> (\<forall>alloc k. 0 < k \<longrightarrow> i2cdev_read bits io alloc k d' = None)
    \<and> (\<forall>alloc data. data \<noteq> [] \<longrightarrow> i2cdev_write bits io alloc data d' = None)"
  using assms by (auto simp: i2cdev_read_def i2cdev_write_def Let_def)

section \<open>A concrete chip\<close>

text \<open>Behind a controller with the bits of the S3C2510 that is always ready.\<close>

definition s3c2510_bits :: iic_bits where
  "s3c2510_bits = \<lparr> con_reset = 0x80, con_start = 4, con_restart = 0xC, con_stop = 8, con_ack = 2, con_bf = 1,
     con_busy = 0x10, buf_write = 0, buf_read = 1 \<rparr>"

definition chip_iic :: "chip iic" where
  "chip_iic = \<lparr>
     rd_con = (\<lambda>c. (1, c)),
     wr_con = (\<lambda>x c. if x = 0x80 then c\<lparr> c_phase := Idle, c_pending := [] \<rparr> else if x = 8 then chip_stop 128 c
       else if x = 5 \<or> x = 0xF \<or> x = 7 then chip_select c else c),
     wr_ps = (\<lambda>x c. c),
     rd_buf = (\<lambda>c. (c_mem c (c_addr c), c\<lparr> c_addr := (c_addr c + 1) mod CHIP_SIZE \<rparr>)),
     wr_buf = chip_put 0xA4 0xA5 \<rparr>"

lemma chip_on: "on_chip s3c2510_bits chip_iic 128 id"
  by (simp add: on_chip_def drives_eeprom_def s3c2510_bits_def chip_iic_def i2c_slave0_def con_and_def CHIP_SIZE_def)

definition blank_chip :: "nat \<Rightarrow> chip i2cdev" where
  "blank_chip pos = \<lparr> bus = \<lparr> c_mem = (\<lambda>_. 0xFF), c_phase = Idle, c_addr = 0, c_pending = [] \<rparr>, I2C_sem = 1, f_pos = pos \<rparr>"

lemma blank_chip [simp]: "f_pos (blank_chip pos) = pos" "I2C_sem (blank_chip pos) = 1"
  by (simp_all add: blank_chip_def)

theorem driver_write_stores_witness:
  "\<exists>d'. i2cdev_write s3c2510_bits chip_iic (Some ([], replicate 32 9)) (replicate 32 1) (blank_chip 512) = Some (32, d')
    \<and> c_mem (bus d') = eeprom_store 512 (replicate 32 1 @ replicate 32 9) (c_mem (bus (blank_chip 512)))"
  using driver_write_stores [OF chip_on, of "blank_chip 512" "replicate 32 1" "replicate 32 9" "[]"]
  by (auto simp: moved_def CHIP_SIZE_def)

theorem driver_reads_back_witness:
  "\<exists>d' d''. i2cdev_write s3c2510_bits chip_iic (Some ([], [])) [1, 2, 3] (blank_chip 66368) = Some (3, d')
    \<and> i2cdev_read s3c2510_bits chip_iic (Some ([0, 0, 0], [])) 3 (snd (i2cdev_lseek 66368 d')) = Some (3, [1, 2, 3], d'')"
  using driver_reads_back [OF chip_on, of "blank_chip 66368" "[1, 2, 3]" "[]" "[0, 0, 0]" "[]" "[]"]
  by (simp add: moved_def CHIP_SIZE_def numeral_3_eq_3 [symmetric])

theorem driver_keeps_other_areas_witness:
  "\<exists>d'. i2cdev_write s3c2510_bits chip_iic (Some ([], replicate 32 9)) (replicate 1024 1) (blank_chip 512) = Some (1024, d')
    \<and> eeprom_read 1600 16384 (c_mem (bus d')) = eeprom_read 1600 16384 (c_mem (bus (blank_chip 512)))"
proof -
  have "(f_pos (blank_chip 512), 1024) \<in> set eeprom_areas" "(1600, 16384) \<in> set eeprom_areas"
    by (simp_all add: eeprom_areas_def eeprom_offs part_sizes OUTPUT_PSI_AREA_SIZE_def)
  from driver_keeps_other_areas [OF chip_on this(1), of "replicate 1024 1" "replicate 32 9" 1600 16384 "[]"] this(2)
  show ?thesis by (auto simp: moved_def CHIP_SIZE_def)
qed

theorem record_behind_64k_witness:
  "\<exists>d' rest. i2cdev_write s3c2510_bits chip_iic (Some ([], [])) [7, 0, 1] (blank_chip (trans_off 5)) = Some (3, d')
    \<and> c_mem (bus d') = eeprom_store 832 ([7, 0, 1] @ rest) (c_mem (bus (blank_chip (trans_off 5))))"
  using record_behind_64k [OF chip_on, of 5 "blank_chip (trans_off 5)" "[7, 0, 1]" "[]" "[]"]
  by (simp add: moved_def CHIP_SIZE_def CHANNEL_MAX_NUM_def trans_off_def eeprom_offs PID_TRANS_INFO_SIZE_def)

end
