(* ===== verification/Containers.thy ===== *)
theory Containers
  imports OidTree
begin

text \<open>
  The containers of \<^verbatim>\<open>libwu\<close> beside the tree: the pool of list elements (\<^verbatim>\<open>wulist.c\<close>), the doubly linked
  list of \<^verbatim>\<open>list.h\<close> with the message queue on it (\<^verbatim>\<open>message_queue.c\<close>), and the dictionary of words
  (\<^verbatim>\<open>dict.c\<close>), a tree of letters.
\<close>

section \<open>The pool of elements\<close>

text \<open>Elements are numbers; \<open>None\<close> as a link is the head of the list of free ones. The memory of the pool is there.\<close>

record slist_context =
  ctx_size :: nat
  linear_pool_index :: nat
  free_next :: "nat option"
  slist_next :: "nat \<Rightarrow> nat option"

definition wuslist_context_new :: "nat \<Rightarrow> slist_context" where
  "wuslist_context_new n = \<lparr> ctx_size = n, linear_pool_index = 0, free_next = None, slist_next = (\<lambda>_. None) \<rparr>"

definition wuslist_context_get_slist :: "slist_context \<Rightarrow> nat option \<times> slist_context" where
  "wuslist_context_get_slist ctx =
     (if linear_pool_index ctx < ctx_size ctx
      then (Some (linear_pool_index ctx), ctx\<lparr> linear_pool_index := linear_pool_index ctx + 1 \<rparr>)
      else case free_next ctx of
             Some l \<Rightarrow> (Some l, ctx\<lparr> free_next := slist_next ctx l \<rparr>)
           | None \<Rightarrow> (None, ctx))"

definition wuslist_context_put_slist :: "nat \<Rightarrow> slist_context \<Rightarrow> slist_context" where
  "wuslist_context_put_slist l ctx =
     ctx\<lparr> slist_next := (slist_next ctx)(l := free_next ctx), free_next := Some l \<rparr>"

text \<open>The chain of the free elements, and the pool with \<open>U\<close> in use.\<close>

fun free_chain :: "(nat \<Rightarrow> nat option) \<Rightarrow> nat option \<Rightarrow> nat list \<Rightarrow> bool" where
  "free_chain f p [] = (p = None)"
| "free_chain f p (x # xs) = (p = Some x \<and> free_chain f (f x) xs)"

definition pool_inv :: "slist_context \<Rightarrow> nat set \<Rightarrow> bool" where
  "pool_inv ctx U \<longleftrightarrow> linear_pool_index ctx \<le> ctx_size ctx
     \<and> (\<exists>xs. free_chain (slist_next ctx) (free_next ctx) xs \<and> distinct xs \<and> set xs \<inter> U = {}
          \<and> set xs \<union> U = {..<linear_pool_index ctx})"

lemma free_chain_upd: "l \<notin> set xs \<Longrightarrow> free_chain (f(l := v)) p xs = free_chain f p xs"
  by (induction xs arbitrary: p) auto

lemma pool_new: "pool_inv (wuslist_context_new n) {}"
  by (simp add: pool_inv_def wuslist_context_new_def exI [of _ "[]"])

text \<open>An element that is handed out was not in use, and there is one exactly as long as not all are in use.\<close>

theorem pool_get:
  assumes "pool_inv ctx U"
  shows "case wuslist_context_get_slist ctx of
      (Some l, ctx') \<Rightarrow> l \<notin> U \<and> l < ctx_size ctx \<and> pool_inv ctx' (insert l U) \<and> ctx_size ctx' = ctx_size ctx
    | (None, ctx') \<Rightarrow> U = {..<ctx_size ctx} \<and> ctx' = ctx"
proof -
  from assms obtain xs where xs: "free_chain (slist_next ctx) (free_next ctx) xs" "distinct xs" "set xs \<inter> U = {}"
    "set xs \<union> U = {..<linear_pool_index ctx}" and le: "linear_pool_index ctx \<le> ctx_size ctx" by (auto simp: pool_inv_def)
  show ?thesis
  proof (cases "linear_pool_index ctx < ctx_size ctx")
    case True
    have "linear_pool_index ctx \<notin> U" "linear_pool_index ctx \<notin> set xs" using xs(4) by auto
    moreover have "set xs \<union> insert (linear_pool_index ctx) U = {..<Suc (linear_pool_index ctx)}"
      using xs(4) by (auto simp: lessThan_Suc)
    ultimately show ?thesis
      using True xs by (auto simp: wuslist_context_get_slist_def pool_inv_def intro!: exI [of _ xs])
  next
    case False
    with le have full: "linear_pool_index ctx = ctx_size ctx" by simp
    show ?thesis
    proof (cases xs)
      case Nil
      with xs full show ?thesis by (simp add: wuslist_context_get_slist_def)
    next
      case (Cons l ys)
      have "l < ctx_size ctx" using Cons xs(4) full by auto
      moreover have "set ys \<union> insert l U = {..<linear_pool_index ctx}" using Cons xs(4) by auto
      ultimately show ?thesis
        using Cons xs False le by (auto simp: wuslist_context_get_slist_def pool_inv_def intro!: exI [of _ ys])
    qed
  qed
qed

theorem pool_put:
  assumes "pool_inv ctx U" "l \<in> U"
  shows "pool_inv (wuslist_context_put_slist l ctx) (U - {l})"
proof -
  from assms obtain xs where xs: "free_chain (slist_next ctx) (free_next ctx) xs" "distinct xs" "set xs \<inter> U = {}"
    "set xs \<union> U = {..<linear_pool_index ctx}" and le: "linear_pool_index ctx \<le> ctx_size ctx" by (auto simp: pool_inv_def)
  have "l \<notin> set xs" using xs(3) assms(2) by auto
  then have "free_chain (slist_next (wuslist_context_put_slist l ctx)) (free_next (wuslist_context_put_slist l ctx)) (l # xs)"
    using xs(1) by (simp add: wuslist_context_put_slist_def free_chain_upd)
  moreover have "distinct (l # xs)" "set (l # xs) \<inter> (U - {l}) = {}" "set (l # xs) \<union> (U - {l}) = {..<linear_pool_index ctx}"
    using \<open>l \<notin> set xs\<close> xs(2-4) assms(2) by auto
  moreover have "linear_pool_index (wuslist_context_put_slist l ctx) = linear_pool_index ctx" "ctx_size (wuslist_context_put_slist l ctx) = ctx_size ctx"
    by (simp_all add: wuslist_context_put_slist_def)
  ultimately show ?thesis using le unfolding pool_inv_def by metis
qed

text \<open>
  \<^verbatim>\<open>wutree_node_pool_put_node\<close> computes the element from the node it holds. The subtraction is one of pointers to
  nodes, so it goes back four nodes of 36 bytes, not four bytes. Addresses are relative to the pool.
\<close>

definition SLIST_SIZE :: int where "SLIST_SIZE = 4"
definition TREE_NODE_SIZE :: int where "TREE_NODE_SIZE = 36"

definition element_addr :: "nat \<Rightarrow> int" where
  "element_addr k = int k * (SLIST_SIZE + TREE_NODE_SIZE)"

definition wuslist_get_data :: "int \<Rightarrow> int" where "wuslist_get_data l = l + SLIST_SIZE"

definition put_node_addr :: "int \<Rightarrow> int" where
  "put_node_addr node = node - SLIST_SIZE * TREE_NODE_SIZE"

theorem put_node_misses_element: "put_node_addr (wuslist_get_data (element_addr k)) \<noteq> element_addr j"
proof
  assume "put_node_addr (wuslist_get_data (element_addr k)) = element_addr j"
  then have "int k * 40 - 140 = int j * 40"
    by (simp add: put_node_addr_def wuslist_get_data_def element_addr_def SLIST_SIZE_def TREE_NODE_SIZE_def)
  then show False by presburger
qed

section \<open>The doubly linked list\<close>

record links =
  nxt :: "nat \<Rightarrow> nat"
  prv :: "nat \<Rightarrow> nat"

definition INIT_LIST_HEAD :: "nat \<Rightarrow> links \<Rightarrow> links" where
  "INIT_LIST_HEAD h s = s\<lparr> nxt := (nxt s)(h := h), prv := (prv s)(h := h) \<rparr>"

definition list_add_between :: "nat \<Rightarrow> nat \<Rightarrow> nat \<Rightarrow> links \<Rightarrow> links" where
  "list_add_between new p n s =
     s\<lparr> nxt := (nxt s)(new := n, p := new), prv := (prv s)(n := new, new := p) \<rparr>"

definition list_add :: "nat \<Rightarrow> nat \<Rightarrow> links \<Rightarrow> links" where
  "list_add new h s = list_add_between new h (nxt s h) s"

definition list_add_tail :: "nat \<Rightarrow> nat \<Rightarrow> links \<Rightarrow> links" where
  "list_add_tail new h s = list_add_between new (prv s h) h s"

text \<open>The links of a deleted entry become null, which is 0.\<close>

definition list_del :: "nat \<Rightarrow> links \<Rightarrow> links" where
  "list_del e s = s\<lparr> nxt := (nxt s)(prv s e := nxt s e, e := 0), prv := (prv s)(nxt s e := prv s e, e := 0) \<rparr>"

definition list_empty :: "nat \<Rightarrow> links \<Rightarrow> bool" where
  "list_empty h s \<longleftrightarrow> nxt s h = h"

fun path :: "(nat \<Rightarrow> nat) \<Rightarrow> nat \<Rightarrow> nat list \<Rightarrow> nat \<Rightarrow> bool" where
  "path f a [] b = (f a = b)"
| "path f a (x # xs) b = (f a = x \<and> path f x xs b)"

definition ring :: "links \<Rightarrow> nat \<Rightarrow> nat list \<Rightarrow> bool" where
  "ring s h xs \<longleftrightarrow> path (nxt s) h xs h \<and> path (prv s) h (rev xs) h \<and> distinct (h # xs)"

lemma path_snoc: "path f a (xs @ [y]) b \<longleftrightarrow> path f a xs y \<and> f y = b"
  by (induction xs arbitrary: a) auto

lemma path_upd: "z \<notin> set (a # xs) \<Longrightarrow> path (f(z := v)) a xs b = path f a xs b"
  by (induction xs arbitrary: a) auto

lemma path_first: "a \<notin> set xs \<Longrightarrow> path f a xs b \<Longrightarrow> f a = f' a' \<Longrightarrow> (\<And>x. x \<in> set xs \<Longrightarrow> f' x = f x) \<Longrightarrow> path f' a' xs b"
proof (induction xs arbitrary: a a')
  case (Cons x xs)
  have "path f' x xs b" if "path f x xs b" "\<And>y. y \<in> set (x # xs) \<Longrightarrow> f' y = f y" for x xs
    using that by (induction xs arbitrary: x) auto
  with Cons show ?case by auto
qed auto

lemma ring_add:
  assumes "ring s h xs" "new \<notin> set (h # xs)"
  shows "ring (list_add new h s) h (new # xs)"
proof -
  let ?t = "list_add new h s"
  have n: "path (nxt s) h xs h" and p: "path (prv s) h (rev xs) h" and d: "distinct (h # xs)"
    using assms(1) by (simp_all add: ring_def)
  have "path (nxt ?t) new xs h"
    by (rule path_first [OF _ n]) (use d assms(2) in \<open>auto simp: list_add_def list_add_between_def\<close>)
  moreover have "nxt ?t h = new" by (simp add: list_add_def list_add_between_def)
  moreover have "path (prv ?t) h (rev xs @ [new]) h"
  proof (cases xs)
    case Nil
    with n assms(2) show ?thesis by (simp add: list_add_def list_add_between_def)
  next
    case (Cons x ys)
    have x: "nxt s h = x" using n Cons by simp
    have "path (prv s) h (rev ys) x" using p Cons by (simp add: path_snoc)
    then have "path (prv ?t) h (rev ys) x"
      using assms(2) d Cons by (simp add: list_add_def list_add_between_def x path_upd)
    moreover have "prv ?t x = new" "prv ?t new = h"
      using assms(2) Cons by (auto simp: list_add_def list_add_between_def x)
    ultimately have "path (prv ?t) h ((rev ys @ [x]) @ [new]) h" unfolding path_snoc by blast
    then show ?thesis using Cons by simp
  qed
  ultimately show ?thesis using d assms(2) by (simp add: ring_def)
qed

lemma ring_del_first:
  assumes "ring s h (x # xs)"
  shows "ring (list_del x s) h xs"
proof -
  let ?t = "list_del x s"
  have n: "nxt s h = x" "path (nxt s) x xs h" and p: "path (prv s) h (rev xs) x" "prv s x = h" and d: "distinct (h # x # xs)"
    using assms by (simp_all add: ring_def path_snoc)
  have "path (nxt ?t) h xs h"
    by (rule path_first [OF _ n(2)]) (use d p(2) in \<open>auto simp: list_del_def\<close>)
  moreover have "path (prv ?t) h (rev xs) h"
  proof (cases xs)
    case Nil
    with n p d show ?thesis by (auto simp: list_del_def)
  next
    case (Cons y ys)
    have y: "nxt s x = y" using n(2) Cons by simp
    have "path (prv s) h (rev ys) y" using p(1) Cons by (simp add: path_snoc)
    then have "path (prv ?t) h (rev ys) y" using d Cons by (simp add: list_del_def y path_upd)
    with Cons p(2) d show ?thesis by (auto simp: path_snoc list_del_def y)
  qed
  ultimately show ?thesis using d by (simp add: ring_def)
qed

lemma ring_empty: "ring s h xs \<Longrightarrow> list_empty h s \<longleftrightarrow> xs = []"
  by (cases xs) (auto simp: ring_def list_empty_def)

section \<open>The message queue\<close>

text \<open>
  Blocks are numbers, the head is one of its own. Between two looks at the queue other threads may do
  anything: \<open>env k\<close> is what they do after the look number \<open>k\<close>.
\<close>

definition message_queue_put_message_block :: "nat \<Rightarrow> nat \<Rightarrow> links \<Rightarrow> links" where
  "message_queue_put_message_block mq mb s = list_add mb mq s"

definition take_message_block :: "nat \<Rightarrow> links \<Rightarrow> nat option \<times> links" where
  "take_message_block mq s = (if list_empty mq s then (None, s) else (Some (nxt s mq), list_del (nxt s mq) s))"

partial_function (option) wait_message_block :: "(nat \<Rightarrow> links \<Rightarrow> links) \<Rightarrow> nat \<Rightarrow> nat \<Rightarrow> links \<Rightarrow> (nat option \<times> links) option" where
  "wait_message_block env k mq s =
     (case take_message_block mq s of
        (Some mb, s) \<Rightarrow> Some (Some mb, s) | (None, s) \<Rightarrow> wait_message_block env (k + 1) mq (env k s))"

fun poll_message_block :: "(nat \<Rightarrow> links \<Rightarrow> links) \<Rightarrow> nat \<Rightarrow> nat \<Rightarrow> nat \<Rightarrow> links \<Rightarrow> nat option \<times> links" where
  "poll_message_block env k 0 mq s = (None, s)"
| "poll_message_block env k (Suc cnt) mq s =
     (case take_message_block mq s of
        (Some mb, s) \<Rightarrow> (Some mb, s) | (None, s) \<Rightarrow> poll_message_block env (k + 1) cnt mq (env k s))"

definition message_queue_get_message_block ::
  "(nat \<Rightarrow> links \<Rightarrow> links) \<Rightarrow> nat \<Rightarrow> int \<Rightarrow> links \<Rightarrow> (nat option \<times> links) option" where
  "message_queue_get_message_block env mq timeout s =
     (if timeout = 0 then Some (take_message_block mq s)
      else if timeout < 0 then wait_message_block env 0 mq s
      else Some (poll_message_block env 0 (nat timeout div 100) mq s))"

text \<open>On the list of waiting blocks the queue is a stack: the block put last is taken first.\<close>

theorem message_queue_is_stack:
  assumes "ring s mq mbs" "mb \<notin> set (mq # mbs)"
  shows "ring (message_queue_put_message_block mq mb s) mq (mb # mbs)"
    "\<exists>s'. message_queue_get_message_block env mq 0 (message_queue_put_message_block mq mb s) = Some (Some mb, s') \<and> ring s' mq mbs"
    "\<exists>s'. message_queue_get_message_block env mq (-1) (message_queue_put_message_block mq mb s) = Some (Some mb, s') \<and> ring s' mq mbs"
proof -
  let ?s = "message_queue_put_message_block mq mb s"
  show r: "ring ?s mq (mb # mbs)" unfolding message_queue_put_message_block_def by (rule ring_add [OF assms])
  have "nxt ?s mq = mb" using r by (simp add: ring_def)
  then have t: "take_message_block mq ?s = (Some mb, list_del mb ?s)" "ring (list_del mb ?s) mq mbs"
    using ring_empty [OF r] ring_del_first [OF r] by (simp_all add: take_message_block_def)
  show "\<exists>s'. message_queue_get_message_block env mq 0 ?s = Some (Some mb, s') \<and> ring s' mq mbs"
    by (simp add: message_queue_get_message_block_def t)
  show "\<exists>s'. message_queue_get_message_block env mq (-1) ?s = Some (Some mb, s') \<and> ring s' mq mbs"
    by (simp add: message_queue_get_message_block_def wait_message_block.simps [of env 0 mq ?s] t)
qed

text \<open>A timeout under 100 ms never looks at the queue.\<close>

theorem short_timeout_gets_nothing:
  "0 < timeout \<Longrightarrow> timeout < 100 \<Longrightarrow> message_queue_get_message_block env mq timeout s = Some (None, s)"
  by (simp add: message_queue_get_message_block_def)

section \<open>The dictionary\<close>

text \<open>
  The letters of a word, up to its zero, are the data of the nodes (\<^verbatim>\<open>char\<close> is unsigned on the board). An item
  is a number. The links between the leaves are kept beside the tree.
\<close>

record dict =
  word_tree :: wutree
  cur_leaf :: "nat option"
  left_leaf :: "nat \<Rightarrow> nat option"
  right_leaf :: "nat \<Rightarrow> nat option"

definition DICT_NODE_SIZE :: nat where "DICT_NODE_SIZE = 2000"

definition letters :: "u8 list \<Rightarrow> u32 list" where
  "letters word = map ucast (takeWhile (\<lambda>b. b \<noteq> 0) word)"

text \<open>The data of the root is the address of the name.\<close>

definition dict_new :: "u32 \<Rightarrow> dict option" where
  "dict_new name =
     do {
       (root, t) \<leftarrow> wutree_node_pool_get_node (wutree_new DICT_NODE_SIZE);
       Some \<lparr> word_tree = wutree_set_root root (wutreenode_set_data root name t), cur_leaf = None,
              left_leaf = (\<lambda>_. None), right_leaf = (\<lambda>_. None) \<rparr>
     }"

definition dict_find_worditem :: "u8 list \<Rightarrow> dict \<Rightarrow> nat option option" where
  "dict_find_worditem word d =
     do {
       r \<leftarrow> find_loop (letters word) 0 (word_tree d);
       Some (case r of None \<Rightarrow> None | Some n \<Rightarrow> t_ext (t_nodes (word_tree d) ! n))
     }"

text \<open>The loop over the letters is that of the registration of identifiers.\<close>

definition dict_register_worditem :: "u8 list \<Rightarrow> nat \<Rightarrow> dict \<Rightarrow> (int \<times> dict) option" where
  "dict_register_worditem word item d =
     do {
       (rc, added, t) \<leftarrow> register_loop (letters word) 0 None (word_tree d);
       if rc < 0 then Some (-1, d\<lparr> word_tree := t \<rparr>)
       else Some (0, case added of
           None \<Rightarrow> d\<lparr> word_tree := t \<rparr>
         | Some k \<Rightarrow> d\<lparr> word_tree := upd_node k (\<lambda>n. n\<lparr> t_ext := Some item \<rparr>) t,
             left_leaf := (left_leaf d)(k := cur_leaf d),
             right_leaf := (case cur_leaf d of Some c \<Rightarrow> (right_leaf d)(c := Some k) | None \<Rightarrow> right_leaf d),
             cur_leaf := Some k \<rparr>)
     }"

text \<open>What the dictionary means: an item for each sequence of letters.\<close>

definition dict_items :: "dict \<Rightarrow> u32 list \<Rightarrow> nat option" where
  "dict_items d w = do { n \<leftarrow> walk (word_tree d) 0 w; t_ext (t_nodes (word_tree d) ! n) }"

lemma exts_upd: "(\<And>n. t_ext (f n) = t_ext n) \<Longrightarrow> map t_ext (t_nodes (upd_node k f t)) = map t_ext (t_nodes t)"
  by (rule nth_equalityI) (simp_all add: upd_node_nth, simp_all add: upd_node_def)

lemma add_littleson_exts: "wutreenode_add_littleson n k t = Some t' \<Longrightarrow> map t_ext (t_nodes t') = map t_ext (t_nodes t)"
  by (auto simp: wutreenode_add_littleson_def exts_upd Let_def split: Option.bind_splits option.splits)

text \<open>The nodes a registration adds have no item.\<close>

lemma register_loop_exts:
  "register_loop ds n added t = Some (rc, added', t') \<Longrightarrow>
    \<exists>m. map t_ext (t_nodes t') = map t_ext (t_nodes t) @ replicate m None"
proof (induction ds n added t rule: register_loop.induct)
  case (1 node added t)
  then show ?case by (simp add: exI [of _ 0])
next
  case (2 d ds node added t)
  obtain tmp where tmp: "wutree_find_in_sons t node d = Some tmp" using "2.prems" by (auto split: Option.bind_splits)
  show ?case
  proof (cases tmp)
    case (Some n)
    then show ?thesis using "2.IH"(2) [OF tmp Some] "2.prems" tmp by simp
  next
    case None
    show ?thesis
    proof (cases "wutree_node_pool_get_node t")
      case full: None
      with "2.prems" tmp None show ?thesis by (simp add: exI [of _ 0])
    next
      case (Some kt)
      obtain k t1 where kt: "kt = (k, t1)" by (cases kt)
      from "2.prems" tmp None Some kt obtain t2 where
        add: "wutreenode_add_littleson node k (wutreenode_set_data k d t1) = Some t2"
        and rest: "register_loop ds k (Some k) t2 = Some (rc, added', t')" by (auto split: Option.bind_splits)
      have "map t_ext (t_nodes t1) = map t_ext (t_nodes t) @ [None]"
        using Some kt by (auto simp: wutree_node_pool_get_node_def node_zero_def split: if_splits)
      then have t2: "map t_ext (t_nodes t2) = map t_ext (t_nodes t) @ [None]"
        using add_littleson_exts [OF add] exts_upd [of "\<lambda>n. n\<lparr> t_data := d \<rparr>" k t1] by (simp add: wutreenode_set_data_def)
      obtain m where "map t_ext (t_nodes t') = map t_ext (t_nodes t2) @ replicate m None"
        using "2.IH"(1) [OF tmp None Some kt [symmetric] add rest] by blast
      with t2 have "map t_ext (t_nodes t') = map t_ext (t_nodes t) @ replicate (Suc m) None" by simp
      then show ?thesis by blast
    qed
  qed
qed

lemma dict_find_items: "tree_ok (word_tree d) \<Longrightarrow> dict_find_worditem word d = Some (dict_items d (letters word))"
  by (auto simp: dict_find_worditem_def dict_items_def tree_ok_def tree_wf_def find_loop_walk split: option.splits)

lemma dict_new_ok: "\<exists>d. dict_new name = Some d \<and> tree_ok (word_tree d) \<and> dict_items d = (\<lambda>_. None)"
proof -
  let ?t = "\<lparr> t_nodes = [node_zero\<lparr> t_data := name \<rparr>], pool_node_cnt = DICT_NODE_SIZE \<rparr>"
  have d: "dict_new name = Some \<lparr> word_tree = ?t, cur_leaf = None, left_leaf = (\<lambda>_. None), right_leaf = (\<lambda>_. None) \<rparr>"
    by (simp add: dict_new_def wutree_node_pool_get_node_def wutree_new_def wutree_set_root_def
        wutreenode_set_data_def upd_node_def node_zero_def DICT_NODE_SIZE_def)
  have sons: "sons ?t m = []" for m by (simp add: sons_def node_zero_def)
  have son: "son ?t m e = None" for m e by (simp add: son_def sons)
  have "tree_wf ?t" by (simp add: tree_wf_def sons) (simp add: node_zero_def DICT_NODE_SIZE_def)
  then have "tree_ok ?t" by (auto simp: tree_ok_def intro!: exI [of _ "[]"])
  moreover have "dict_items \<lparr> word_tree = ?t, cur_leaf = None, left_leaf = (\<lambda>_. None), right_leaf = (\<lambda>_. None) \<rparr> w = None" for w
    by (cases w) (simp add: dict_items_def node_zero_def, simp add: dict_items_def son)
  ultimately show ?thesis using d by auto
qed

text \<open>Registering a word adds its item to the dictionary as long as the pool of nodes lasts; but a word whose letters
  are there already, because it or a longer word was registered, is dropped, though the code says 0.\<close>

theorem dict_register_items:
  assumes "tree_ok (word_tree d)"
  shows "\<exists>rc d'. dict_register_worditem word item d = Some (rc, d') \<and> tree_ok (word_tree d')
    \<and> (if walk (word_tree d) 0 (letters word) \<noteq> None then rc = 0 \<and> dict_items d' = dict_items d
       else if rc = 0 then dict_items d' = (dict_items d)(letters word \<mapsto> item)
       else rc = -1 \<and> dict_items d' = dict_items d)"
proof -
  let ?w = "letters word" and ?t = "word_tree d"
  from register_loop_spec [OF assms, of "[]" 0 ?w None] obtain rc added t' where
    loop: "register_loop ?w 0 None ?t = Some (rc, added, t')" "loop_result ?t [] ?w None (rc, added, t')" by auto
  have g: "grows ?t t'" and rc: "rc = 0 \<or> rc = -1" using loop(2) by (auto simp: loop_result_def split: if_splits)
  have ok': "tree_ok t'" using g by (simp add: grows_def)
  obtain m where exts: "map t_ext (t_nodes t') = map t_ext (t_nodes ?t) @ replicate m None"
    using register_loop_exts [OF loop(1)] by blast
  have len: "length (t_nodes t') = length (t_nodes ?t) + m" using arg_cong [OF exts, of length] by simp
  have none: "t_ext (t_nodes t' ! k) = None" if "length (t_nodes ?t) \<le> k" "k < length (t_nodes t')" for k
    using arg_cong [OF exts, of "\<lambda>xs. xs ! k"] that len by (simp add: nth_append)
  have same: "dict_items (d\<lparr> word_tree := t' \<rparr>) w = dict_items d w" for w
  proof (cases "walk ?t 0 w")
    case (Some k)
    have "k < length (t_nodes ?t)" using walk_less [OF Some] assms by (auto simp: tree_ok_def tree_wf_def)
    with Some g show ?thesis by (auto simp: dict_items_def grows_def)
  next
    case None
    have "t_ext (t_nodes t' ! k) = None" if k: "walk t' 0 w = Some k" for k
    proof (cases "k < length (t_nodes ?t)")
      case True
      with assms obtain q where q: "walk ?t 0 q = Some k" by (auto simp: tree_ok_def)
      with g have "walk t' 0 q = Some k" by (auto simp: grows_def)
      with walk_inj [OF _ k] ok' have "q = w" by (auto simp: tree_ok_def)
      with q None show ?thesis by simp
    next
      case False
      have "k < length (t_nodes t')" using walk_less [OF k] ok' by (auto simp: tree_ok_def tree_wf_def)
      with False none show ?thesis by simp
    qed
    with None show ?thesis by (cases "walk t' 0 w") (simp_all add: dict_items_def)
  qed
  show ?thesis
  proof (cases "rc = 0 \<and> walk ?t 0 ?w = None")
    case True
    with loop(2) obtain k where k: "added = Some k" "walk t' 0 ?w = Some k" by (auto simp: loop_result_def)
    have kl: "k < length (t_nodes t')" using walk_less [OF k(2)] ok' by (auto simp: tree_ok_def tree_wf_def)
    let ?d = "snd (the (dict_register_worditem word item d))"
    have r: "dict_register_worditem word item d = Some (0, ?d)" "word_tree ?d = upd_node k (\<lambda>n. n\<lparr> t_ext := Some item \<rparr>) t'"
      using loop(1) True k(1) by (simp_all add: dict_register_worditem_def)
    have "dict_items ?d = (dict_items d)(?w \<mapsto> item)"
    proof
      fix w show "dict_items ?d w = ((dict_items d)(?w \<mapsto> item)) w"
    proof (cases "w = ?w")
      case True
      then show ?thesis using k(2) kl by (simp add: dict_items_def r(2) ext_walk upd_node_nth)
    next
      case False
      have "j \<noteq> k" if "walk t' 0 w = Some j" for j
        using walk_inj [OF _ that, of ?w] k(2) ok' False by (auto simp: tree_ok_def)
      then have "dict_items ?d w = dict_items (d\<lparr> word_tree := t' \<rparr>) w"
        by (cases "walk t' 0 w") (simp_all add: dict_items_def r(2) ext_walk upd_node_nth)
      with same False show ?thesis by simp
    qed
    qed
    moreover have "tree_ok (word_tree ?d)" using ok' by (simp add: r(2) tree_ok_def ext_walk)
    ultimately show ?thesis using r(1) True by (intro exI [of _ 0] exI [of _ ?d]) simp
  next
    case False
    then have "dict_register_worditem word item d = Some (rc, d\<lparr> word_tree := t' \<rparr>)"
      using loop rc by (auto simp: dict_register_worditem_def loop_result_def split: if_splits)
    moreover have "rc = 0" if "walk ?t 0 ?w \<noteq> None"
      using that loop(2) g by (auto simp: loop_result_def grows_def split: if_splits)
    ultimately show ?thesis using same ok' False rc by (auto simp: fun_eq_iff)
  qed
qed

end
