(* ===== verification/TunerBus.thy ===== *)
theory TunerBus
  imports Prelude
begin

unbundle bit_operations_syntax

text \<open>
  The two wires to the tuner chips, driven bit by bit: the pins of \<^verbatim>\<open>imp/up_gpio.c\<close> and the transfers of
  \<^verbatim>\<open>imp/tuner_device.c\<close>. What a transfer means on the wires is read off by a decoder of I2C conditions.
\<close>

section \<open>The pins\<close>

record gpio_regs =
  IOPMODE1 :: u32
  IOPCON1 :: u32
  IOPDATA1 :: u32
  IOPDRV1 :: u32
  IOPMODE2 :: u32
  IOPCON2 :: u32
  IOPDATA2 :: u32
  IOPDRV2 :: u32

definition OPEN_DRAIN :: u32 where "OPEN_DRAIN = 1"

definition gpio_output_low :: "nat \<Rightarrow> gpio_regs \<Rightarrow> gpio_regs" where
  "gpio_output_low gpio r =
     (if 64 \<le> gpio then r
      else if 32 \<le> gpio then r\<lparr> IOPDRV2 := IOPDRV2 r OR push_bit (gpio - 32) OPEN_DRAIN,
        IOPDATA2 := IOPDATA2 r AND NOT (push_bit (gpio - 32) 1) \<rparr>
      else r\<lparr> IOPDRV1 := IOPDRV1 r OR push_bit gpio OPEN_DRAIN, IOPDATA1 := IOPDATA1 r AND NOT (push_bit gpio 1) \<rparr>)"

definition gpio_output_high :: "nat \<Rightarrow> gpio_regs \<Rightarrow> gpio_regs" where
  "gpio_output_high gpio r =
     (if 64 \<le> gpio then r
      else if 32 \<le> gpio then r\<lparr> IOPMODE2 := IOPMODE2 r AND NOT (push_bit (gpio - 32) 1),
        IOPDRV2 := IOPDRV2 r OR push_bit (gpio - 32) OPEN_DRAIN, IOPCON2 := IOPCON2 r OR push_bit (gpio - 32) 1,
        IOPDATA2 := IOPDATA2 r OR push_bit (gpio - 32) 1 \<rparr>
      else r\<lparr> IOPMODE1 := IOPMODE1 r AND NOT (push_bit gpio 1), IOPDRV1 := IOPDRV1 r OR push_bit gpio OPEN_DRAIN,
        IOPCON1 := IOPCON1 r OR push_bit gpio 1, IOPDATA1 := IOPDATA1 r OR push_bit gpio 1 \<rparr>)"

definition gpio_set_input_mode :: "nat \<Rightarrow> gpio_regs \<Rightarrow> gpio_regs" where
  "gpio_set_input_mode gpio r =
     (if 64 \<le> gpio then r
      else if 32 \<le> gpio then r\<lparr> IOPMODE2 := IOPMODE2 r OR push_bit (gpio - 32) 1, IOPCON2 := IOPCON2 r OR push_bit (gpio - 32) 1 \<rparr>
      else r\<lparr> IOPMODE1 := IOPMODE1 r OR push_bit gpio 1, IOPCON1 := IOPCON1 r OR push_bit gpio 1 \<rparr>)"

definition gpio_set_output_mode :: "nat \<Rightarrow> gpio_regs \<Rightarrow> gpio_regs" where
  "gpio_set_output_mode gpio r =
     (if 64 \<le> gpio then r
      else if 32 \<le> gpio then r\<lparr> IOPMODE2 := IOPMODE2 r AND NOT (push_bit (gpio - 32) 1), IOPCON2 := IOPCON2 r OR push_bit (gpio - 32) 1 \<rparr>
      else r\<lparr> IOPMODE1 := IOPMODE1 r AND NOT (push_bit gpio 1), IOPCON1 := IOPCON1 r OR push_bit gpio 1 \<rparr>)"

text \<open>The data register, as it reads at the time; a number from 64 on shifts out of the word, which C leaves undefined.\<close>

definition gpio_get_input_value :: "nat \<Rightarrow> gpio_regs \<Rightarrow> int option" where
  "gpio_get_input_value gpio r =
     (if 64 \<le> gpio then None
      else let v = (if 32 \<le> gpio then IOPDATA2 r AND push_bit (gpio - 32) 1 else IOPDATA1 r AND push_bit gpio 1)
           in Some (if v \<noteq> 0 then 1 else 0))"

definition gpio_get_multi_input_value_high32 :: "u32 \<Rightarrow> gpio_regs \<Rightarrow> u32" where
  "gpio_get_multi_input_value_high32 gpio_mask r = IOPDATA2 r AND gpio_mask"

definition gpio_get_multi_input_value_low32 :: "u32 \<Rightarrow> gpio_regs \<Rightarrow> u32" where
  "gpio_get_multi_input_value_low32 gpio_mask r = IOPDATA1 r AND gpio_mask"

text \<open>What a pin is: whether it is an output, and the level it drives.\<close>

definition pin_out :: "nat \<Rightarrow> gpio_regs \<Rightarrow> bool" where
  "pin_out g r \<longleftrightarrow> (if 32 \<le> g then \<not> bit (IOPMODE2 r) (g - 32) else \<not> bit (IOPMODE1 r) g)"

definition pin_level :: "nat \<Rightarrow> gpio_regs \<Rightarrow> bool" where
  "pin_level g r \<longleftrightarrow> (if 32 \<le> g then bit (IOPDATA2 r) (g - 32) else bit (IOPDATA1 r) g)"

lemma bit_one_at: "n < 32 \<Longrightarrow> bit (2 ^ n :: u32) m \<longleftrightarrow> m = n"
  by (auto simp: bit_exp_iff possible_bit_word)

text \<open>Every operation acts on its own pin only; driving it low does not make it an output.\<close>

theorem gpio_pins:
  assumes "g < 64" "h < 64"
  shows "pin_level h (gpio_output_low g r) = (if h = g then False else pin_level h r)"
    "pin_out h (gpio_output_low g r) = pin_out h r"
    "pin_level h (gpio_output_high g r) = (if h = g then True else pin_level h r)"
    "pin_out h (gpio_output_high g r) = (if h = g then True else pin_out h r)"
    "pin_level h (gpio_set_input_mode g r) = pin_level h r"
    "pin_out h (gpio_set_input_mode g r) = (if h = g then False else pin_out h r)"
    "pin_level h (gpio_set_output_mode g r) = pin_level h r"
    "pin_out h (gpio_set_output_mode g r) = (if h = g then True else pin_out h r)"
    "gpio_get_input_value g r = Some (if pin_level g r then 1 else 0)"
proof -
  have at: "bit (2 ^ n :: u32) m \<longleftrightarrow> m = n" if "n < 32" for n m using that by (rule bit_one_at)
  have one: "x AND 2 ^ n \<noteq> 0 \<longleftrightarrow> bit x n" if "n < 32" for n and x :: u32
  proof
    assume "bit x n"
    then have "bit (x AND 2 ^ n) n" using that by (simp add: bit_and_iff at)
    then show "x AND 2 ^ n \<noteq> 0" by auto
  next
    assume "x AND 2 ^ n \<noteq> 0"
    then obtain m where "bit (x AND 2 ^ n) m" by (auto simp: bit_eq_iff)
    then show "bit x n" using that by (auto simp: bit_and_iff at)
  qed
  note defs = pin_level_def pin_out_def gpio_output_low_def gpio_output_high_def gpio_set_input_mode_def gpio_set_output_mode_def
  show "pin_level h (gpio_output_low g r) = (if h = g then False else pin_level h r)"
    "pin_out h (gpio_output_low g r) = pin_out h r"
    "pin_level h (gpio_output_high g r) = (if h = g then True else pin_level h r)"
    "pin_out h (gpio_output_high g r) = (if h = g then True else pin_out h r)"
    "pin_level h (gpio_set_input_mode g r) = pin_level h r"
    "pin_out h (gpio_set_input_mode g r) = (if h = g then False else pin_out h r)"
    "pin_level h (gpio_set_output_mode g r) = pin_level h r"
    "pin_out h (gpio_set_output_mode g r) = (if h = g then True else pin_out h r)"
    using assms by (auto simp: defs bit_and_iff bit_or_iff bit_not_iff at possible_bit_word OPEN_DRAIN_def)
  show "gpio_get_input_value g r = Some (if pin_level g r then 1 else 0)"
    using assms one [of "g - 32" "IOPDATA2 r"] one [of g "IOPDATA1 r"]
    by (auto simp: gpio_get_input_value_def pin_level_def Let_def)
qed

section \<open>Transfers\<close>

text \<open>
  A transfer is the sequence of its operations on pins, the newest at the end; reading a pin gives what the
  chip shows then, \<open>sense\<close> of the sequence so far. The delays do not matter here.
\<close>

datatype pin_op = Low nat | High nat | Input nat | Output nat | Get nat

type_synonym trace = "pin_op list"

definition TUNER_SDA :: nat where "TUNER_SDA = 49"
definition TUNER_SCL :: nat where "TUNER_SCL = 44"

definition Start :: "trace \<Rightarrow> trace" where
  "Start t = t @ [Output TUNER_SDA, Output TUNER_SCL, High TUNER_SDA, High TUNER_SCL, Low TUNER_SDA, Low TUNER_SCL]"

definition Stop :: "trace \<Rightarrow> trace" where
  "Stop t = t @ [Low TUNER_SDA, Low TUNER_SCL, High TUNER_SCL, High TUNER_SDA]"

fun ack_loop :: "(trace \<Rightarrow> bool) \<Rightarrow> nat \<Rightarrow> trace \<Rightarrow> trace" where
  "ack_loop sense 0 t = t"
| "ack_loop sense (Suc m) t = (if \<not> sense t then t @ [Get TUNER_SDA] else ack_loop sense m (t @ [Get TUNER_SDA]))"

definition IIC_ack :: "(trace \<Rightarrow> bool) \<Rightarrow> trace \<Rightarrow> trace" where
  "IIC_ack sense t = ack_loop sense 10 (t @ [Input TUNER_SDA, High TUNER_SCL]) @ [Low TUNER_SCL, Output TUNER_SDA]"

fun write_bits :: "nat \<Rightarrow> u8 \<Rightarrow> trace \<Rightarrow> trace" where
  "write_bits 0 data t = t"
| "write_bits (Suc m) data t =
     write_bits m (push_bit 1 data)
       (t @ [if data AND 0x80 \<noteq> 0 then High TUNER_SDA else Low TUNER_SDA, High TUNER_SCL, Low TUNER_SCL])"

definition write_byte :: "(trace \<Rightarrow> bool) \<Rightarrow> u8 \<Rightarrow> trace \<Rightarrow> trace" where
  "write_byte sense data t = IIC_ack sense (write_bits 8 data (t @ [Output TUNER_SDA]))"

fun read_bits :: "(trace \<Rightarrow> bool) \<Rightarrow> nat \<Rightarrow> u8 \<Rightarrow> trace \<Rightarrow> u8 \<times> trace" where
  "read_bits sense 0 tmp t = (tmp, t)"
| "read_bits sense (Suc m) tmp t =
     (let t = t @ [Low TUNER_SCL, High TUNER_SCL];
          tmp = (if sense t then push_bit 1 tmp OR 1 else push_bit 1 tmp AND 0xFE)
      in read_bits sense m tmp (t @ [Get TUNER_SDA, Low TUNER_SCL]))"

definition read_byte :: "(trace \<Rightarrow> bool) \<Rightarrow> trace \<Rightarrow> u8 \<times> trace" where
  "read_byte sense t = (let (tmp, t) = read_bits sense 8 0 (t @ [Input TUNER_SDA]) in (tmp, IIC_ack sense t))"

definition bus_idle :: "trace \<Rightarrow> trace" where
  "bus_idle t = t @ [Output TUNER_SDA, Output TUNER_SCL, High TUNER_SDA, High TUNER_SCL]"

definition Write_Stv0903 :: "(trace \<Rightarrow> bool) \<Rightarrow> u8 \<Rightarrow> u32 \<Rightarrow> u8 \<Rightarrow> trace \<Rightarrow> u8 \<times> trace" where
  "Write_Stv0903 sense chipaddr addr data t =
     (let t = write_byte sense chipaddr (Start (bus_idle t));
          t = write_byte sense (ucast (addr div 256)) t;
          t = write_byte sense (ucast (addr mod 256)) t
      in (1, Stop (write_byte sense data t)))"

definition Read_Stv0903 :: "(trace \<Rightarrow> bool) \<Rightarrow> u8 \<Rightarrow> u32 \<Rightarrow> trace \<Rightarrow> u8 \<times> trace" where
  "Read_Stv0903 sense chipaddr addr t =
     (let t = write_byte sense chipaddr (Start (bus_idle t));
          t = write_byte sense (ucast (addr div 256)) t;
          t = Stop (write_byte sense (ucast (addr mod 256)) t);
          (temp, t) = read_byte sense (write_byte sense (chipaddr + 1) (Start t))
      in (temp, Stop t))"

definition Write_6110 :: "(trace \<Rightarrow> bool) \<Rightarrow> u8 \<Rightarrow> u8 \<Rightarrow> u8 \<Rightarrow> trace \<Rightarrow> u8 \<times> trace" where
  "Write_6110 sense chipaddr regaddr data t =
     (1, Stop (write_byte sense data (write_byte sense regaddr (write_byte sense chipaddr (Start (bus_idle t))))))"

definition Read_6110 :: "(trace \<Rightarrow> bool) \<Rightarrow> u8 \<Rightarrow> u8 \<Rightarrow> trace \<Rightarrow> u8 \<times> trace" where
  "Read_6110 sense chipaddr regaddr t =
     (let t = Stop (write_byte sense regaddr (write_byte sense chipaddr (Start (bus_idle t))));
          (temp, t) = read_byte sense (write_byte sense (chipaddr + 1) (Start t))
      in (temp, Stop t))"

definition RESET_GPIO :: nat where "RESET_GPIO = 50"
definition POL_GPIO :: nat where "POL_GPIO = 51"
definition LNB_GPIO :: nat where "LNB_GPIO = 52"
definition F22K_GPIO :: nat where "F22K_GPIO = 53"

definition tuner_device_reset :: "trace \<Rightarrow> trace" where
  "tuner_device_reset t = t @ [Output RESET_GPIO, Low RESET_GPIO, High RESET_GPIO]"

definition tuner_device_open :: "trace \<Rightarrow> int \<times> trace" where
  "tuner_device_open t = (0, tuner_device_reset t)"

definition tuner_device_pol :: "u8 \<Rightarrow> trace \<Rightarrow> trace" where
  "tuner_device_pol mode t = t @ [Output POL_GPIO, if mode = 1 then Low POL_GPIO else High POL_GPIO]"

definition tuner_device_lnb :: "u8 \<Rightarrow> trace \<Rightarrow> trace" where
  "tuner_device_lnb mode t = t @ [Output LNB_GPIO, if mode = 1 then High LNB_GPIO else Low LNB_GPIO]"

definition tuner_device_f22k :: "u8 \<Rightarrow> trace \<Rightarrow> trace" where
  "tuner_device_f22k mode t = t @ [Output F22K_GPIO, if mode = 1 then High F22K_GPIO else Low F22K_GPIO]"

section \<open>What the wires say\<close>

text \<open>
  The state of the wires: the clock, the level driven on the data wire, and whether the data wire is left to the
  chip. A condition of the bus: start, stop, a bit of the master or of the chip at a rising clock, and a
  change of hands while the clock is high, which no transfer should make.
\<close>

record wires =
  scl :: bool
  sda :: bool
  released :: bool

datatype condition = START | STOP | MasterBit bool | ChipBit | Glitch

fun wire_step :: "wires \<times> condition list \<Rightarrow> pin_op \<Rightarrow> wires \<times> condition list" where
  "wire_step (w, cs) (High g) =
     (if g = TUNER_SCL then (w\<lparr> scl := True \<rparr>, if scl w then cs else cs @ [if released w then ChipBit else MasterBit (sda w)])
      else if g = TUNER_SDA then (w\<lparr> sda := True, released := False \<rparr>,
        if \<not> scl w then cs else if released w then cs @ [Glitch] else if sda w then cs else cs @ [STOP])
      else (w, cs))"
| "wire_step (w, cs) (Low g) =
     (if g = TUNER_SCL then (w\<lparr> scl := False \<rparr>, cs)
      else if g = TUNER_SDA then (w\<lparr> sda := False \<rparr>, if scl w \<and> sda w \<and> \<not> released w then cs @ [START] else cs)
      else (w, cs))"
| "wire_step (w, cs) (Input g) =
     (if g = TUNER_SDA then (w\<lparr> released := True \<rparr>, if scl w \<and> \<not> released w then cs @ [Glitch] else cs) else (w, cs))"
| "wire_step (w, cs) (Output g) =
     (if g = TUNER_SDA then (w\<lparr> released := False \<rparr>, if scl w \<and> released w then cs @ [Glitch] else cs) else (w, cs))"
| "wire_step (w, cs) (Get g) = (w, cs)"

definition run_wires :: "wires \<times> condition list \<Rightarrow> trace \<Rightarrow> wires \<times> condition list" where
  "run_wires = foldl wire_step"

lemma run_wires_simps [simp]:
  "run_wires s [] = s" "run_wires s (x # xs) = run_wires (wire_step s x) xs"
  "run_wires s (xs @ ys) = run_wires (run_wires s xs) ys"
  by (simp_all add: run_wires_def)

text \<open>The decoder follows the registers of the pins.\<close>

fun pin_step :: "pin_op \<Rightarrow> gpio_regs \<Rightarrow> gpio_regs" where
  "pin_step (Low g) r = gpio_output_low g r"
| "pin_step (High g) r = gpio_output_high g r"
| "pin_step (Input g) r = gpio_set_input_mode g r"
| "pin_step (Output g) r = gpio_set_output_mode g r"
| "pin_step (Get g) r = r"

definition wires_of :: "gpio_regs \<Rightarrow> wires" where
  "wires_of r = \<lparr> scl = pin_level TUNER_SCL r, sda = pin_level TUNER_SDA r, released = (\<not> pin_out TUNER_SDA r) \<rparr>"

fun pin_of :: "pin_op \<Rightarrow> nat" where
  "pin_of (Low g) = g" | "pin_of (High g) = g" | "pin_of (Input g) = g" | "pin_of (Output g) = g" | "pin_of (Get g) = g"

lemma wires_follow_pins: "pin_of x < 64 \<Longrightarrow> fst (wire_step (wires_of r, cs) x) = wires_of (pin_step x r)"
  by (cases x) (simp_all add: wires_of_def gpio_pins TUNER_SCL_def TUNER_SDA_def)

section \<open>Every transfer is well formed\<close>

definition idle_wires :: wires where "idle_wires = \<lparr> scl = True, sda = True, released = False \<rparr>"

definition held :: "bool \<Rightarrow> wires" where "held d = \<lparr> scl = False, sda = d, released = False \<rparr>"

text \<open>A byte of the master, the highest bit first, and the acknowledgement of the chip.\<close>

definition byte_conditions :: "u8 \<Rightarrow> condition list" where
  "byte_conditions b = map (\<lambda>i. MasterBit (bit b (7 - i))) [0..<8] @ [ChipBit]"

lemma pins_differ [simp]: "TUNER_SDA \<noteq> TUNER_SCL" "TUNER_SCL \<noteq> TUNER_SDA"
  by (simp_all add: TUNER_SDA_def TUNER_SCL_def)

lemma run_idle: "run_wires s t = (idle_wires, cs) \<Longrightarrow> run_wires s (bus_idle t) = (idle_wires, cs)"
  by (simp add: bus_idle_def idle_wires_def)

lemma run_start: "run_wires s t = (idle_wires, cs) \<Longrightarrow> run_wires s (Start t) = (held False, cs @ [START])"
  by (simp add: Start_def idle_wires_def held_def)

text \<open>Before a stop the clock rises once.\<close>

lemma run_stop: "run_wires s t = (held d, cs) \<Longrightarrow> run_wires s (Stop t) = (idle_wires, cs @ [MasterBit False, STOP])"
  by (simp add: Stop_def idle_wires_def held_def)

lemma run_ack_loop: "run_wires s (ack_loop sense m t) = run_wires s t"
proof (induction m arbitrary: t)
  case (Suc m)
  obtain w cs where "run_wires s t = (w, cs)" by (cases "run_wires s t")
  with Suc show ?case by simp
qed simp

lemma run_ack:
  "run_wires s t = (\<lparr> scl = False, sda = d, released = l \<rparr>, cs) \<Longrightarrow> run_wires s (IIC_ack sense t) = (held d, cs @ [ChipBit])"
  by (simp add: IIC_ack_def run_ack_loop held_def)

lemma bit_80: "bit (0x80 :: u8) n \<longleftrightarrow> n = 7"
  using bit_exp_iff [of 7 n, where ?'a = "8 word"] by (auto simp: possible_bit_word)

lemma top_bit: "(data :: u8) AND 0x80 \<noteq> 0 \<longleftrightarrow> bit data 7"
proof -
  have "bit (data AND 0x80) n \<longleftrightarrow> n = 7 \<and> bit data 7" for n by (auto simp: bit_and_iff bit_80 simp del: bit_numeral_word_iff)
  then show ?thesis using bit_eq_iff [of "data AND 0x80" 0] by (metis bit_0_eq bot_apply bot_bool_def)
qed

lemma bit_shift: "bit (push_bit 1 (b :: u8)) j \<longleftrightarrow> 0 < j \<and> j < 8 \<and> bit b (j - 1)"
  by (subst bit_push_bit_iff) (auto simp: possible_bit_word)

lemma bit_fe: "bit (0xFE :: u8) j \<longleftrightarrow> 0 < j \<and> j < 8"
proof -
  have e: "push_bit 1 (mask 7 :: u8) = 0xFE" by (simp add: mask_eq_decr_exp)
  show ?thesis using bit_shift [of "mask 7" j, unfolded e] by (auto simp: bit_mask_iff possible_bit_word)
qed

lemma run_write_bits:
  "run_wires s t = (held d, cs) \<Longrightarrow> m \<le> 8 \<Longrightarrow>
    \<exists>d'. run_wires s (write_bits m data t) = (held d', cs @ map (\<lambda>i. MasterBit (bit data (7 - i))) [0..<m])"
proof (induction m arbitrary: data t d cs)
  case (Suc m)
  let ?t = "t @ [if data AND 0x80 \<noteq> 0 then High TUNER_SDA else Low TUNER_SDA, High TUNER_SCL, Low TUNER_SCL]"
  have "run_wires s ?t = (held (bit data 7), cs @ [MasterBit (bit data 7)])"
    using Suc.prems(1) top_bit [of data] by (simp add: held_def)
  from Suc.IH [OF this, of "push_bit 1 data"] Suc.prems(2) obtain d' where
    "run_wires s (write_bits m (push_bit 1 data) ?t)
      = (held d', (cs @ [MasterBit (bit data 7)]) @ map (\<lambda>i. MasterBit (bit (push_bit 1 data) (7 - i))) [0..<m])" by auto
  moreover have "map (\<lambda>i. MasterBit (bit (push_bit 1 data) (7 - i))) [0..<m] = map (\<lambda>i. MasterBit (bit data (7 - Suc i))) [0..<m]"
  proof (rule map_cong)
    fix i assume "i \<in> set [0..<m]"
    then show "MasterBit (bit (push_bit 1 data) (7 - i)) = MasterBit (bit data (7 - Suc i))"
      using bit_shift [of data "7 - i"] Suc.prems(2) less_imp_diff_less [of 7 8 i] by simp
  qed simp
  moreover have "[0..<Suc m] = 0 # map Suc [0..<m]" by (simp add: upt_conv_Cons map_Suc_upt del: upt_Suc)
  ultimately show ?case by (intro exI [of _ d']) (simp add: comp_def del: upt_Suc)
qed auto

lemma run_write_byte:
  assumes "run_wires s t = (held d, cs)"
  shows "\<exists>d'. run_wires s (write_byte sense data t) = (held d', cs @ byte_conditions data)"
proof -
  have "run_wires s (t @ [Output TUNER_SDA]) = (held d, cs)" using assms by (simp add: held_def)
  from run_write_bits [OF this order_refl] obtain d' where
    "run_wires s (write_bits 8 data (t @ [Output TUNER_SDA])) = (held d', cs @ map (\<lambda>i. MasterBit (bit data (7 - i))) [0..<8])" by blast
  from run_ack [OF this [unfolded held_def]] show ?thesis by (auto simp: write_byte_def byte_conditions_def simp del: upt_Suc)
qed

lemma run_read_bits:
  "run_wires s t = (\<lparr> scl = False, sda = d, released = True \<rparr>, cs) \<Longrightarrow>
    run_wires s (snd (read_bits sense m tmp t)) = (\<lparr> scl = False, sda = d, released = True \<rparr>, cs @ replicate m ChipBit)"
proof (induction m arbitrary: tmp t cs)
  case (Suc m)
  then show ?case by (simp add: Let_def replicate_app_Cons_same)
qed simp

lemma run_read_byte:
  assumes "run_wires s t = (held d, cs)"
  shows "run_wires s (snd (read_byte sense t)) = (held d, cs @ replicate 9 ChipBit)"
proof -
  have "run_wires s (t @ [Input TUNER_SDA]) = (\<lparr> scl = False, sda = d, released = True \<rparr>, cs)" using assms by (simp add: held_def)
  moreover have "replicate 8 ChipBit @ [ChipBit] = replicate 9 ChipBit" by (simp add: numeral_eq_Suc)
  ultimately show ?thesis using run_ack [OF run_read_bits [where m = 8 and tmp = 0]]
    by (simp add: read_byte_def case_prod_unfold Let_def)
qed

text \<open>What the chip shows at the clocks of a byte, and the byte that is read.\<close>

fun shown :: "(trace \<Rightarrow> bool) \<Rightarrow> nat \<Rightarrow> trace \<Rightarrow> bool list" where
  "shown sense 0 t = []"
| "shown sense (Suc m) t =
     (let t = t @ [Low TUNER_SCL, High TUNER_SCL] in sense t # shown sense m (t @ [Get TUNER_SDA, Low TUNER_SCL]))"

lemma shown_length: "length (shown sense m t) = m"
  by (induction m arbitrary: t) (simp_all add: Let_def)

lemma read_bits_value:
  "m \<le> 8 \<Longrightarrow> k < 8 \<Longrightarrow> bit (fst (read_bits sense m tmp t)) k
    \<longleftrightarrow> (if k < m then shown sense m t ! (m - 1 - k) else bit tmp (k - m))"
proof (induction m arbitrary: tmp t)
  case (Suc m)
  let ?t = "t @ [Low TUNER_SCL, High TUNER_SCL]"
  let ?tmp = "if sense ?t then push_bit 1 tmp OR 1 else push_bit 1 tmp AND 0xFE"
  have b: "bit ?tmp j \<longleftrightarrow> (if j = 0 then sense ?t else bit tmp (j - 1))" if "j < 8" for j
    using that bit_shift [of tmp j] by (auto simp: bit_or_iff bit_and_iff bit_1_iff bit_fe simp del: bit_numeral_word_iff)
  have "bit (fst (read_bits sense (Suc m) tmp t)) k = bit (fst (read_bits sense m ?tmp (?t @ [Get TUNER_SDA, Low TUNER_SCL]))) k"
    by (simp add: Let_def)
  also have "\<dots> = (if k < m then shown sense m (?t @ [Get TUNER_SDA, Low TUNER_SCL]) ! (m - 1 - k) else bit ?tmp (k - m))"
    by (rule Suc.IH) (use Suc.prems in simp_all)
  finally show ?case
    using b [of "k - m"] Suc.prems by (auto simp: Let_def nth_Cons' less_Suc_eq not_less)
qed simp

lemma read_byte_value: "i < 8 \<Longrightarrow> bit (fst (read_byte sense t)) (7 - i) = shown sense 8 (t @ [Input TUNER_SDA]) ! i"
  using read_bits_value [of 8 "7 - i" sense 0 "t @ [Input TUNER_SDA]"]
  by (simp add: read_byte_def case_prod_unfold Let_def)

text \<open>Writing a register: a start, the address of the chip, the two bytes of the address, the data, a stop, each byte with
  its acknowledgement, and nothing else; the wires are idle again.\<close>

theorem write_register_on_wires:
  assumes "run_wires s t = (idle_wires, cs)"
  shows "run_wires s (snd (Write_Stv0903 sense chipaddr addr data t)) = (idle_wires, cs @ [START] @ byte_conditions chipaddr
    @ byte_conditions (ucast (addr div 256)) @ byte_conditions (ucast (addr mod 256)) @ byte_conditions data @ [MasterBit False, STOP])"
proof -
  note st = run_start [OF run_idle [OF assms]]
  obtain d1 where d1: "run_wires s (write_byte sense chipaddr (Start (bus_idle t))) = (held d1, (cs @ [START]) @ byte_conditions chipaddr)"
    using run_write_byte [OF st] by blast
  note w = run_write_byte [OF d1, of sense "ucast (addr div 256)"]
  then obtain d2 where d2: "run_wires s (write_byte sense (ucast (addr div 256)) (write_byte sense chipaddr (Start (bus_idle t))))
      = (held d2, ((cs @ [START]) @ byte_conditions chipaddr) @ byte_conditions (ucast (addr div 256)))" by blast
  obtain d3 where d3: "run_wires s (write_byte sense (ucast (addr mod 256)) (write_byte sense (ucast (addr div 256))
      (write_byte sense chipaddr (Start (bus_idle t)))))
      = (held d3, (((cs @ [START]) @ byte_conditions chipaddr) @ byte_conditions (ucast (addr div 256))) @ byte_conditions (ucast (addr mod 256)))"
    using run_write_byte [OF d2, of sense "ucast (addr mod 256)"] by blast
  obtain d4 where "run_wires s (write_byte sense data (write_byte sense (ucast (addr mod 256)) (write_byte sense (ucast (addr div 256))
      (write_byte sense chipaddr (Start (bus_idle t))))))
      = (held d4, ((((cs @ [START]) @ byte_conditions chipaddr) @ byte_conditions (ucast (addr div 256))) @ byte_conditions (ucast (addr mod 256)))
        @ byte_conditions data)" using run_write_byte [OF d3, of sense data] by blast
  from run_stop [OF this] show ?thesis by (simp add: Write_Stv0903_def Let_def)
qed

text \<open>Reading a register of the other chip: its address and that of the register are written, a new start selects it
  for reading, and eight clocks are left to the chip, whose levels make up the byte.\<close>

theorem read_register_on_wires:
  assumes "run_wires s t = (idle_wires, cs)"
  shows "run_wires s (snd (Read_6110 sense chipaddr regaddr t)) = (idle_wires, cs @ [START] @ byte_conditions chipaddr
      @ byte_conditions regaddr @ [MasterBit False, STOP, START] @ byte_conditions (chipaddr + 1) @ replicate 9 ChipBit @ [MasterBit False, STOP])
    \<and> (\<exists>u. \<forall>i < 8. bit (fst (Read_6110 sense chipaddr regaddr t)) (7 - i) = shown sense 8 u ! i)"
proof
  note st = run_start [OF run_idle [OF assms]]
  obtain d1 where d1: "run_wires s (write_byte sense chipaddr (Start (bus_idle t))) = (held d1, (cs @ [START]) @ byte_conditions chipaddr)"
    using run_write_byte [OF st] by blast
  obtain d2 where d2: "run_wires s (write_byte sense regaddr (write_byte sense chipaddr (Start (bus_idle t))))
      = (held d2, ((cs @ [START]) @ byte_conditions chipaddr) @ byte_conditions regaddr)" using run_write_byte [OF d1] by blast
  let ?u = "Start (Stop (write_byte sense regaddr (write_byte sense chipaddr (Start (bus_idle t)))))"
  obtain d3 where d3: "run_wires s (write_byte sense (chipaddr + 1) ?u) = (held d3, ((((cs @ [START]) @ byte_conditions chipaddr)
      @ byte_conditions regaddr) @ [MasterBit False, STOP]) @ [START] @ byte_conditions (chipaddr + 1))"
    using run_write_byte [OF run_start [OF run_stop [OF d2]], of sense "chipaddr + 1"] by auto
  from run_stop [OF run_read_byte [OF d3, of sense]]
  show "run_wires s (snd (Read_6110 sense chipaddr regaddr t)) = (idle_wires, cs @ [START] @ byte_conditions chipaddr
      @ byte_conditions regaddr @ [MasterBit False, STOP, START] @ byte_conditions (chipaddr + 1) @ replicate 9 ChipBit @ [MasterBit False, STOP])"
    by (simp add: Read_6110_def case_prod_unfold Let_def)
  show "\<exists>u. \<forall>i < 8. bit (fst (Read_6110 sense chipaddr regaddr t)) (7 - i) = shown sense 8 u ! i"
    using read_byte_value [of _ sense "write_byte sense (chipaddr + 1) ?u"]
    by (auto simp: Read_6110_def case_prod_unfold Let_def)
qed

end
