(* ===== verification/Spec2Isabelle.thy ===== *)
theory Spec2Isabelle
  imports Section PidMap PidTransInfo FpProto OutputPsi ConfigStore PsiGen FpPsiParse PsiWorker BoardStore Manager Fpga EepromI2c
    Containers TunerBus
begin

text \<open>
  xmux is the management program of a DVB multiplexer: a board with eight input channels of MPEG
  transport streams, an FPGA that filters and renumbers PIDs, a front panel on a serial line, and an
  SNMP agent for remote managers. The program decides which programs of the inputs go to the output,
  under which PIDs, generates the tables of the output, and keeps its parameters in an EEPROM. This
  development models it as it is built by default (\<^verbatim>\<open>CHANNEL_MAX_NUM\<close> 8, 64 programs a channel, 32
  mapped PIDs a channel), with the byte order of its ARM board (little endian).

  Paths below are relative to \<^verbatim>\<open>src/src/\<close>. Every theory opens with what it holds.

  \<^bold>\<open>Foundations.\<close> \<open>Prelude\<close>: the integer types as machine words, the limits of \<^verbatim>\<open>include/xmux.h\<close>, reads and
  writes inside an array that give \<open>None\<close> outside it, \<open>foldM\<close> for loops that may fail. \<open>Wire\<close>: the byte
  order macros, the check sum \<^verbatim>\<open>wu_csc\<close>, bit maps. \<open>Interfaces\<close>: the contracts between components as
  locales (a codec of fixed size, a pair of codecs, a bit map, a byte store, an assigner of output PIDs),
  each interpreted on the model's functions in the theory of the component that provides it.

  \<^bold>\<open>Program table and selection.\<close> \<open>ProgInfo\<close> is \<^verbatim>\<open>struct program_info_t\<close> and the global table with its
  counts (\<open>fp_state\<close>); \<open>IoTable\<close> is \<^verbatim>\<open>io_table.c\<close>, the table of input PIDs with the search for free output
  PIDs; \<open>Validater\<close> is \<^verbatim>\<open>program_pid_validater.c\<close> and the admission of a program; \<open>Selection\<close> takes the
  operations as steps (\<open>fp_step\<close>, \<open>fp_reachable\<close>) with the limits as invariant; \<open>OutPids\<close> proves that no two
  sources share an output PID; \<open>PidMap\<close> is \<^verbatim>\<open>pid_map_table.c\<close> and \<^verbatim>\<open>pid_map_rule.c\<close>, the map that goes to
  the FPGA, and its completeness; \<open>Fpga\<close> is \<^verbatim>\<open>imp/hfpga.c\<close> and its driver, the map as register writes.

  \<^bold>\<open>Tables of the output.\<close> \<open>Section\<close>: packets of a section (\<^verbatim>\<open>section.c\<close>). \<open>OutputPsi\<close>: the stored area of
  table packets and its repetition buffers (\<^verbatim>\<open>output_psi_data.c\<close>). \<open>PsiGen\<close>: program numbers and the
  contents of PAT, PMT, SDT, NIT (\<^verbatim>\<open>psi_gen.c\<close>, \<^verbatim>\<open>front_panel_psi_gen.c\<close>). The encoder of the tables is a
  library not under \<^verbatim>\<open>src/\<close>: a record of functions (\<open>si_encoder\<close>), with whole packets as hypothesis.

  \<^bold>\<open>Analysis of the inputs.\<close> \<open>PsiParse\<close> (\<^verbatim>\<open>psi_parse.c\<close>, for SNMP), \<open>FpPsiParse\<close>
  (\<^verbatim>\<open>front_panel_psi_parse.c\<close>, for the board) and \<open>PsiWorker\<close> (\<^verbatim>\<open>psi_worker.c\<close>, the thread and its queue). What
  the streams carry and the decoder of the sections are parameters (\<open>si_decoder\<close>).

  \<^bold>\<open>Parameters and EEPROM.\<close> \<open>Params\<close>: the structures and their bytes. \<open>Config\<close>: the EEPROM as a map from
  addresses to bytes, saving, loading, validation, defaults (\<^verbatim>\<open>xmux_config.c\<close>, \<^verbatim>\<open>xmux_misc.c\<close>,
  \<^verbatim>\<open>imp/eeprom.c\<close>). \<open>ConfigStore\<close>: every operation keeps each area equal to its parameter, and a restart
  brings the parameters back or replaces what does not validate. \<open>ProgWire\<close> and \<open>PidTransInfo\<close>: programs
  and translation records as bytes, saved, loaded and handed to SNMP in nodes (\<^verbatim>\<open>pid_trans_info.c\<close>). \<open>EepromI2c\<close>:
  the driver of the chip (\<^verbatim>\<open>imp/drivers/i2c_s3c.c\<close>), which stores what the other theories assume to be stored
  below 64 KB and moves half a page too many for some lengths.

  \<^bold>\<open>Front panel.\<close> \<open>FpProto\<close>: frames. \<open>FpBoard\<close>: the state of the whole board (\<open>board\<close>) and all command
  handlers of \<^verbatim>\<open>front_panel_process.c\<close>, \<^verbatim>\<open>xmux_4_chan_rf.c\<close>, \<^verbatim>\<open>xmux_tunner.c\<close>, \<^verbatim>\<open>xmux_bcm3033.c\<close>,
  \<^verbatim>\<open>ctrl_mcu.c\<close>, with what reaches the hardware as a log (\<open>hw\<close>); \<open>SWait\<close>: \<^verbatim>\<open>libwu/wuswait.c\<close>. \<open>FpCommands\<close>:
  the receiving loop of \<^verbatim>\<open>front_panel.c\<close> and what commands promise. \<open>BoardStore\<close>: commands and EEPROM
  together, up to the restart after a selection was applied.

  \<^bold>\<open>SNMP.\<close> \<open>SnmpWire\<close>: the encoding (\<^verbatim>\<open>wu_snmp_lib.c\<close>). \<open>OidTree\<close>: the tree of identifiers on the nodes of
  \<^verbatim>\<open>libwu/wutree.c\<close>, and its refinement to a finite map. \<open>SnmpObjects\<close>: getters, setters, registration
  (\<^verbatim>\<open>xmux_snmp.c\<close>). \<open>SnmpAgent\<close>: the handlers and the loop. \<open>SnmpSession\<close>: the login and what a request keeps;
  \<open>SnmpExchange\<close> and \<open>SnmpSets\<close>: get and set requests from datagram to answer.

  \<^bold>\<open>Hardware and containers.\<close> \<open>Fpga\<close>: the registers of the FPGA, its driver and the calls on it
  (\<^verbatim>\<open>imp/drivers/host_fpga.c\<close>, \<^verbatim>\<open>imp/hfpga.c\<close>, \<^verbatim>\<open>imp/fpga/fpga_api.c\<close>); what reaches the memory of the FPGA
  after a selection or new tables. \<open>TunerBus\<close>: the pins (\<^verbatim>\<open>imp/up_gpio.c\<close>) and the transfers to the tuner chips
  on two of them (\<^verbatim>\<open>imp/tuner_device.c\<close>), read back by a decoder of the wires. \<open>Containers\<close>: the pool
  of list elements, the message queue and the dictionary of \<^verbatim>\<open>libwu\<close>.

  \<^bold>\<open>The whole manager.\<close> \<open>Manager\<close>: \<^verbatim>\<open>main.c\<close> and the interleaving of its threads (\<open>reachable\<close>), one turn of
  a thread being one step.

  \<^bold>\<open>Reading the model.\<close> State is passed explicitly; a C function that changes globals returns the changed
  record. \<open>None\<close> stands for an access outside an array or an end that C leaves undefined, so a theorem
  that a function returns \<open>Some\<close> is also a proof that it stays inside its arrays. Return codes are
  integers as in the code. Loops over fixed ranges are folds; loops whose end is not evident are
  \<open>function\<close>s with a measure (EEPROM retries, cutting sections, popping tables) or \<open>partial_function\<close>s that
  give \<open>None\<close> when they do not end (tree walks, the search for a program number, the wait for an
  answer), with theorems that say when they end. No fuel is used but for lists of 16 bindings, which is
  the size of the array the handlers fill.

  \<^bold>\<open>Interleavings.\<close> The threads share globals without locks, but for the semaphores of single calls. The steps of
  \<open>Manager\<close> are whole turns: one panel command, one datagram, one analysis, one pass of the main loop.
  Preemption inside a turn is not modelled.

  \<^bold>\<open>Not modelled.\<close> Sockets, threads, serial ports and files (pure I/O, whose data are parameters or logged
  events); dump functions and command line options that only print; the build with one channel
  (\<^verbatim>\<open>CHANNEL_MAX_NUM\<close> 1), to which the CI card and the input PMT cache belong; \<^verbatim>\<open>xmux_tunner_device.c\<close>, which
  calls the vendor drivers under \<^verbatim>\<open>libtunner\<close>; these drivers and the allocator \<^verbatim>\<open>libwu/bget.c\<close>, which
  are third-party code; the test programs \<^verbatim>\<open>sim_fp.c\<close>, \<^verbatim>\<open>front_panel_gpio_test.c\<close>, \<^verbatim>\<open>imp/tests\<close>.
\<close>

end
